(* ===== verification/Prelude.thy ===== *)
theory Prelude
  imports Complex_Main "HOL-Library.Word" "HOL-Library.Sublist" "HOL-Library.AList"
begin

text \<open>
  What the components share: the C++ standard library's string operations the sources use
  (\<open>std::string::find\<close>, \<open>rfind\<close>, \<open>erase\<close> followed by \<open>insert\<close>, \<open>std::to_string\<close>), the suffix
  test that two plugins define for themselves, and the lemma collections that the
  component theories feed and use.
\<close>

named_theorems station_defs \<open>the one-line register and trace operations of a station\<close>
named_theorems frame \<open>which fields an operation leaves alone\<close>

type_synonym u16 = "16 word"
type_synonym u32 = "32 word"

section \<open>Results\<close>

text \<open>A call that may raise, followed by the rest of the function.\<close>

definition and_then :: "'e + 'a \<Rightarrow> ('a \<Rightarrow> 'e + 'b) \<Rightarrow> 'e + 'b" where
  "and_then r f = (case r of Inl e \<Rightarrow> Inl e | Inr x \<Rightarrow> f x)"

lemma and_then_simps [simp]: "and_then (Inl e) f = Inl e" "and_then (Inr x) f = f x"
  by (simp_all add: and_then_def)

lemma and_then_Inr_iff: "and_then r f = Inr y \<longleftrightarrow> (\<exists>x. r = Inr x \<and> f x = Inr y)"
  by (cases r) auto

lemma and_then_assoc: "and_then (and_then r f) g = and_then r (\<lambda>x. and_then (f x) g)"
  by (cases r) auto

definition map_error :: "('e \<Rightarrow> 'f) \<Rightarrow> 'e + 'a \<Rightarrow> 'f + 'a" where
  "map_error f r = (case r of Inl e \<Rightarrow> Inl (f e) | Inr x \<Rightarrow> Inr x)"

lemma map_error_simps [simp]: "map_error f (Inl e) = Inl (f e)" "map_error f (Inr x) = Inr x"
  by (simp_all add: map_error_def)

lemma map_error_Inr_iff [simp]: "map_error f r = Inr x \<longleftrightarrow> r = Inr x"
  by (cases r) auto

section \<open>Numbers\<close>

text \<open>The conversion of a floating-point number to an integer, towards zero.\<close>

definition trunc_int :: "real \<Rightarrow> int" where
  "trunc_int x = (if x < 0 then \<lceil>x\<rceil> else \<lfloor>x\<rfloor>)"

section \<open>Strings\<close>

text \<open>
  \<open>s.find(pat)\<close>: the least index at which \<open>pat\<close> occurs; \<open>None\<close> is \<open>std::string::npos\<close>.
\<close>

fun str_find :: "string \<Rightarrow> string \<Rightarrow> nat option" where
  "str_find pat [] = (if pat = [] then Some 0 else None)"
| "str_find pat (c # cs) =
     (if prefix pat (c # cs) then Some 0 else map_option Suc (str_find pat cs))"

definition str_contains :: "string \<Rightarrow> string \<Rightarrow> bool" where
  "str_contains s pat \<longleftrightarrow> str_find pat s \<noteq> None"

text \<open>\<open>s.erase(i, n).insert(i, new)\<close> for \<open>i\<close> within the string.\<close>

definition str_splice :: "nat \<Rightarrow> nat \<Rightarrow> string \<Rightarrow> string \<Rightarrow> string" where
  "str_splice i n new s = take i s @ new @ drop (i + n) s"

text \<open>\<open>std::to_string\<close> on a non-negative integer.\<close>

fun dec_str :: "nat \<Rightarrow> string" where
  "dec_str n = (if n < 10 then [char_of (48 + n)]
                else dec_str (n div 10) @ [char_of (48 + n mod 10)])"

declare dec_str.simps [simp del]

definition int_str :: "int \<Rightarrow> string" where
  "int_str i = (if i < 0 then CHR ''-'' # dec_str (nat (- i)) else dec_str (nat i))"

text \<open>
  \<open>s.rfind(pat, p)\<close>: the greatest index not above \<open>p\<close> at which \<open>pat\<close> occurs. The result is
  searched downwards from \<open>min p (|s| - |pat|)\<close>.
\<close>

fun str_rfind_from :: "string \<Rightarrow> string \<Rightarrow> nat \<Rightarrow> nat option" where
  "str_rfind_from pat s 0 = (if prefix pat s then Some 0 else None)"
| "str_rfind_from pat s (Suc i) =
     (if prefix pat (drop (Suc i) s) then Some (Suc i) else str_rfind_from pat s i)"

definition str_rfind :: "string \<Rightarrow> string \<Rightarrow> nat \<Rightarrow> nat option" where
  "str_rfind pat s p =
     (if length s < length pat then None
      else str_rfind_from pat s (min p (length s - length pat)))"

lemma str_find_Some_split:
  "str_find pat s = Some i \<Longrightarrow> s = take i s @ pat @ drop (i + length pat) s"
proof (induction pat s arbitrary: i rule: str_find.induct)
  case (1 pat)
  then show ?case by (simp split: if_splits)
next
  case (2 pat c cs)
  show ?case
  proof (cases "prefix pat (c # cs)")
    case True
    with "2.prems" show ?thesis by (auto elim!: prefixE)
  next
    case False
    with "2.prems" obtain j where "str_find pat cs = Some j" "i = Suc j"
      by auto
    with "2.IH" False show ?thesis by simp
  qed
qed

lemma str_find_None_iff: "str_find pat s = None \<longleftrightarrow> \<not> sublist pat s"
  by (induction pat s rule: str_find.induct) (auto simp: sublist_Cons_right)

lemma str_contains_iff: "str_contains s pat \<longleftrightarrow> sublist pat s"
  by (simp add: str_contains_def str_find_None_iff)

lemma str_find_first:
  "str_find pat s = Some i \<Longrightarrow> j < i \<Longrightarrow> \<not> prefix pat (drop j s)"
proof (induction pat s arbitrary: i j rule: str_find.induct)
  case (1 pat)
  then show ?case by (simp split: if_splits)
next
  case (2 pat c cs)
  then show ?case
    by (cases j) (auto split: if_splits)
qed

lemma prefix_drop_imp_sublist: "prefix pat (drop i s) \<Longrightarrow> sublist pat s"
  by (metis append_take_drop_id prefixE sublist_appendI)

lemma str_rfind_from_None:
  "str_rfind_from pat s n = None \<longleftrightarrow> (\<forall>i\<le>n. \<not> prefix pat (drop i s))"
  by (induction n) (auto simp: le_Suc_eq)

lemma sublist_iff_prefix_drop:
  "sublist pat s \<longleftrightarrow> length pat \<le> length s \<and> (\<exists>i\<le>length s - length pat. prefix pat (drop i s))"
proof
  assume "sublist pat s"
  then obtain u v where s: "s = u @ pat @ v" by (auto simp: sublist_def)
  then have "prefix pat (drop (length u) s)" and "length u \<le> length s - length pat"
    by auto
  with s show "length pat \<le> length s \<and> (\<exists>i\<le>length s - length pat. prefix pat (drop i s))"
    by (metis length_append le_add1 le_add2 order_trans)
qed (auto dest: prefix_drop_imp_sublist)

lemma count_list_append_sub:
  "count_list (str_splice i (length pat) new s) c + count_list pat c =
   count_list s c + count_list new c"
  if "str_find pat s = Some i"
proof -
  have "count_list s c =
        count_list (take i s) c + count_list pat c + count_list (drop (i + length pat) s) c"
    by (subst str_find_Some_split [OF that], simp)
  then show ?thesis by (simp add: str_splice_def)
qed

text \<open>The suffix test that \<open>mps.cpp\<close> and \<open>gripper.cpp\<close> both define (\<open>std::equal\<close> on the
  reversed strings, after the length check).\<close>

definition ends_with :: "string \<Rightarrow> string \<Rightarrow> bool" where
  "ends_with value ending =
     (if length ending > length value then False
      else take (length ending) (rev value) = rev ending)"

lemma ends_with_iff_suffix: "ends_with v e \<longleftrightarrow> suffix e v"
proof -
  have "suffix e v \<longleftrightarrow> prefix (rev e) (rev v)"
    by (simp add: suffix_to_prefix)
  also have "\<dots> \<longleftrightarrow> length e \<le> length v \<and> take (length e) (rev v) = rev e"
    by (metis length_rev prefix_def append_eq_conv_conj take_is_prefix prefix_length_le)
  finally show ?thesis by (auto simp: ends_with_def)
qed

text \<open>The first element with a property, as the \<open>getLinkEndingWith\<close> loops search it.\<close>

lemma find_Some_first:
  "find P xs = Some x \<Longrightarrow> P x \<and> x \<in> set xs"
  by (auto simp: find_Some_iff)

lemma distinct_snoc_iff: "distinct (xs @ [x]) \<longleftrightarrow> distinct xs \<and> x \<notin> set xs"
  by auto

end
