(* ===== verification/Gazebo.thy ===== *)
theory Gazebo
  imports Prelude
begin

text \<open>
  The data that the plugins exchange (the messages of \<open>libs/gazsim_msgs\<close> and the fields of
  \<open>gazebo::msgs::Visual\<close> that the plugins set) and the part of the simulator that they read.
  Gazebo and its maths library are not part of the repository: a component reads them through
  the record \<open>gz\<close>, a parameter of every definition that uses it, and what it asks of them
  (poses set, messages published) is a value of type \<open>effect\<close> appended to its trace.
  Coordinates, which the code keeps in \<open>float\<close> and \<open>double\<close>, are real numbers here:
  rounding is not modelled.
\<close>

section \<open>Poses and the world\<close>

record pose =
  pos_x :: real
  pos_y :: real
  pos_z :: real
  rot_roll :: real
  rot_pitch :: real
  rot_yaw :: real

definition Pose3d :: "real \<Rightarrow> real \<Rightarrow> real \<Rightarrow> real \<Rightarrow> real \<Rightarrow> real \<Rightarrow> pose" where
  "Pose3d x y z r p w =
     \<lparr>pos_x = x, pos_y = y, pos_z = z, rot_roll = r, rot_pitch = p, rot_yaw = w\<rparr>"

text \<open>
  A snapshot of the simulator. \<open>gz_dist p q\<close> is \<open>(p.Pos() - q.Pos()).Length()\<close>;
  \<open>gz_models\<close> are the names of the models of the world in their order,
  \<open>gz_has_base\<close> says for which names \<open>BaseByName\<close> finds an object; \<open>gz_pose\<close> gives the
  world pose of a model, \<open>gz_links\<close> its links' names in order, \<open>gz_link_pose\<close> the world
  pose of a link. A model pointer is represented by the model's name.
\<close>

record gz =
  gz_dist :: "pose \<Rightarrow> pose \<Rightarrow> real"
  gz_models :: "string list"
  gz_has_base :: "string \<Rightarrow> bool"
  gz_pose :: "string \<Rightarrow> pose"
  gz_links :: "string \<Rightarrow> string list"
  gz_link_pose :: "string \<Rightarrow> pose"
  gz_time :: real

definition model_by_name :: "gz \<Rightarrow> string \<Rightarrow> string option" where
  "model_by_name w n = (if n \<in> set (gz_models w) then Some n else None)"

lemma model_by_name_Some: "model_by_name w n = Some m \<longleftrightarrow> m = n \<and> n \<in> set (gz_models w)"
  by (auto simp: model_by_name_def)

text \<open>What the distance of the maths library is documented to be: a metric on positions.\<close>

definition euclid :: "pose \<Rightarrow> pose \<Rightarrow> real" where
  "euclid p q = sqrt ((pos_x p - pos_x q) * (pos_x p - pos_x q)
                    + (pos_y p - pos_y q) * (pos_y p - pos_y q)
                    + (pos_z p - pos_z q) * (pos_z p - pos_z q))"

lemma euclid_self [simp]: "euclid p p = 0"
  by (simp add: euclid_def)

lemma euclid_sym: "euclid p q = euclid q p"
  by (simp add: euclid_def algebra_simps)

lemma euclid_ge_horizontal:
  "sqrt ((pos_x p - pos_x q)\<^sup>2 + (pos_y p - pos_y q)\<^sup>2) \<le> euclid p q"
  by (simp add: euclid_def power2_eq_square)

section \<open>Messages\<close>

text \<open>\<open>gazsim_msgs::Color\<close>, \<open>Command\<close>, \<open>Team\<close>, \<open>WorkpieceCommand\<close>, \<open>WorkpieceResult\<close> and
  \<open>NewPuck\<close>.\<close>

datatype color = RED | GREEN | BLUE | GREY | BLACK | YELLOW | ORANGE | SILVER | NONE

datatype command = ADD_RING | ADD_CAP | REMOVE_CAP | DELIVER

datatype team = CYAN | MAGENTA

record workpiece_command =
  cmd_command :: command
  cmd_color :: "color list"
  cmd_puck_name :: string
  cmd_team_color :: "team option"

record workpiece_result =
  res_color :: color
  res_puck_name :: string

record new_puck =
  np_puck_name :: string
  np_gps_topic :: string

text \<open>A color of a visual: red, green, blue and alpha, where alpha defaults to 1.\<close>

type_synonym rgba = "real \<times> real \<times> real \<times> real"

definition rgb :: "real \<Rightarrow> real \<Rightarrow> real \<Rightarrow> rgba" where
  "rgb r g b = (r, g, b, 1)"

record visual =
  vis_parent_name :: string
  vis_name :: string
  vis_cast_shadows :: "bool option"
  vis_visible :: "bool option"
  vis_transparency :: "real option"
  vis_cylinder :: "(real \<times> real) option"
  vis_pose :: "pose option"
  vis_diffuse :: "rgba option"
  vis_emissive :: "rgba option"
  vis_ambient :: "rgba option"
  vis_script :: "string option"

text \<open>A message as the constructor of \<open>msgs::Visual\<close> leaves it: nothing is set.\<close>

definition empty_visual :: visual where
  "empty_visual =
     \<lparr>vis_parent_name = [], vis_name = [], vis_cast_shadows = None, vis_visible = None,
      vis_transparency = None, vis_cylinder = None, vis_pose = None, vis_diffuse = None,
      vis_emissive = None, vis_ambient = None, vis_script = None\<rparr>"

section \<open>What a station does to its surroundings\<close>

text \<open>
  \<open>Opc\<dots>\<close> are the writes to the variables of the station's OPC UA server that a client can
  observe, in the order in which they are made; \<open>Sleep\<close> is the time in milliseconds for which
  the worker sleeps.
\<close>

datatype effect =
    OpcBusy bool
  | OpcReady bool
  | OpcActionId u16
  | OpcPayload1 u16
  | OpcPayload2 u16
  | OpcSlideCount u16
  | Sleep nat
  | SetWorldPose string pose
  | Attach string string string
  | PubPuckCommand workpiece_command
  | PubVisual visual
  | PubFactory string string pose

end
