(* ===== verification/OpcUaConfig.thy ===== *)
theory OpcUaConfig
  imports Prelude
begin

text \<open>
  \<open>plugins/mps/opcua_server_config.h\<close>: the numbers of the stations and of their operations, the
  endpoint and the URI of a station's server. The enumerations are unscoped and cast from
  arbitrary numbers, so a station and an operation are natural numbers here and the enumerators
  are constants; \<open>OPERATION_GET_BASE\<close>, \<open>OPERATION_CAP_ACTION\<close> and others share a number.
  A command a client writes to \<open>ActionId\<close> is a station's number plus an operation's number.
\<close>

definition STATION_BASE :: nat where "STATION_BASE = 100"
definition STATION_RING :: nat where "STATION_RING = 200"
definition STATION_CAP :: nat where "STATION_CAP = 300"
definition STATION_DELIVERY :: nat where "STATION_DELIVERY = 400"
definition STATION_STORAGE :: nat where "STATION_STORAGE = 500"

lemmas station_numbers [simp] =
  STATION_BASE_def STATION_RING_def STATION_CAP_def STATION_DELIVERY_def STATION_STORAGE_def

definition OPERATION_GET_BASE :: nat where "OPERATION_GET_BASE = 1"
definition OPERATION_MOUNT_RING :: nat where "OPERATION_MOUNT_RING = 3"
definition OPERATION_CAP_ACTION :: nat where "OPERATION_CAP_ACTION = 1"
definition OPERATION_CAP_RETRIEVE :: nat where "OPERATION_CAP_RETRIEVE = 1"
definition OPERATION_CAP_MOUNT :: nat where "OPERATION_CAP_MOUNT = 2"
definition OPERATION_DELIVER :: nat where "OPERATION_DELIVER = 1"
definition OPERATION_MOVE_CONVEYOR :: nat where "OPERATION_MOVE_CONVEYOR = 2"

lemmas operation_numbers [simp] =
  OPERATION_GET_BASE_def OPERATION_MOUNT_RING_def OPERATION_CAP_ACTION_def
  OPERATION_CAP_RETRIEVE_def OPERATION_CAP_MOUNT_def OPERATION_DELIVER_def
  OPERATION_MOVE_CONVEYOR_def

datatype machine_type_exception = MachineTypeException

definition endpoint_prefix :: string where
  "endpoint_prefix = ''opc.tcp://localhost:''"

definition get_endpoint :: "string \<Rightarrow> machine_type_exception + string" where
  "get_endpoint n =
     (if n = ''C-BS'' then Inr (endpoint_prefix @ ''4840/'')
      else if n = ''C-CS1'' then Inr (endpoint_prefix @ ''4841/'')
      else if n = ''C-CS2'' then Inr (endpoint_prefix @ ''4842/'')
      else if n = ''C-RS1'' then Inr (endpoint_prefix @ ''4843/'')
      else if n = ''C-RS2'' then Inr (endpoint_prefix @ ''4844/'')
      else if n = ''C-DS'' then Inr (endpoint_prefix @ ''4845/'')
      else if n = ''C-SS'' then Inr (endpoint_prefix @ ''4846/'')
      else if n = ''M-BS'' then Inr (endpoint_prefix @ ''4850/'')
      else if n = ''M-CS1'' then Inr (endpoint_prefix @ ''4851/'')
      else if n = ''M-CS2'' then Inr (endpoint_prefix @ ''4852/'')
      else if n = ''M-RS1'' then Inr (endpoint_prefix @ ''4853/'')
      else if n = ''M-RS2'' then Inr (endpoint_prefix @ ''4854/'')
      else if n = ''M-DS'' then Inr (endpoint_prefix @ ''4855/'')
      else if n = ''M-SS'' then Inr (endpoint_prefix @ ''4856'')
      else Inl MachineTypeException)"

definition uri_prefix :: string where
  "uri_prefix = ''urn://ll.robocup.org/gazebo/''"

definition get_URI :: "nat \<Rightarrow> machine_type_exception + string" where
  "get_URI st =
     (if st = STATION_BASE then Inr (uri_prefix @ ''base'')
      else if st = STATION_RING then Inr (uri_prefix @ ''ring'')
      else if st = STATION_CAP then Inr (uri_prefix @ ''cap'')
      else if st = STATION_DELIVERY then Inr (uri_prefix @ ''delivery'')
      else if st = STATION_STORAGE then Inr (uri_prefix @ ''storage'')
      else Inl MachineTypeException)"

text \<open>The machines of a game: both teams' stations.\<close>

definition mps_names :: "string list" where
  "mps_names = [''C-BS'', ''C-CS1'', ''C-CS2'', ''C-RS1'', ''C-RS2'', ''C-DS'', ''C-SS'',
                ''M-BS'', ''M-CS1'', ''M-CS2'', ''M-RS1'', ''M-RS2'', ''M-DS'', ''M-SS'']"

text \<open>
  An endpoint is defined for exactly the fourteen machines of a game, and no two machines
  share one, so their servers never compete for a port; any other name raises the exception.
\<close>

theorem endpoint_injective:
  "(\<forall>n. (\<exists>e. get_endpoint n = Inr e) \<longleftrightarrow> n \<in> set mps_names)
   \<and> distinct (map get_endpoint mps_names)"
proof
  show "\<forall>n. (\<exists>e. get_endpoint n = Inr e) \<longleftrightarrow> n \<in> set mps_names"
    by (simp add: get_endpoint_def mps_names_def)
  show "distinct (map get_endpoint mps_names)"
    by (simp add: get_endpoint_def mps_names_def)
qed

end
