(* ===== verification/Mps.thy ===== *)
theory Mps
  imports Gazebo OpcUaConfig "HOL-Library.Multiset"
begin

text \<open>
  \<open>plugins/mps/mps.cpp\<close> and \<open>mps.h\<close>: the base class of the simulated machines (modular
  production system). A machine has a conveyor with an input, a middle and an output
  position, and an OPC UA server through which a client gives commands: it writes an action
  id (and payloads), which wakes the worker thread, which calls \<open>process_command_in\<close>. The
  simulator calls \<open>on_puck_msg\<close> for every pose that a workpiece reports. Stations extend the
  record \<open>mps\<close> as their classes extend \<open>Mps\<close>. Logging is not modelled.
\<close>

section \<open>State\<close>

text \<open>The variables below one \<open>In\<close> or \<open>Basic\<close> node of the server.\<close>

record opc_side =
  action_id :: u16
  barcode :: u16
  payload1 :: u16
  payload2 :: u16
  opc_error :: "8 word"
  slidecount :: u16
  opc_enable :: bool
  status_error :: "8 word"
  status_ready :: bool
  status_busy :: bool

definition init_opc_side :: opc_side where
  "init_opc_side =
     \<lparr>action_id = 0, barcode = 0, payload1 = 0, payload2 = 0, opc_error = 0, slidecount = 0,
      opc_enable = False, status_error = 0, status_ready = False, status_busy = False\<rparr>"

record mps =
  mps_name :: string
  station :: nat
  number_pucks :: int
  belt_offset_side :: real
  detect_tolerance :: real
  puck_size :: real
  puck_height :: real
  belt_length :: real
  belt_height :: real
  mps_height :: real
  tag_height :: real
  tag_size :: real
  tag_spawn_time :: real
  created_time :: real
  spawned_tags_last :: real
  grabbed_tags :: bool
  puck_subs :: "string list"
  hold_pucks :: "(nat \<times> string) list"
  wp_in_input :: "string option"
  wp_in_middle :: "string option"
  wp_in_output :: "string option"
  opc_in :: opc_side
  opc_basic :: opc_side
  trace :: "effect list"

text \<open>
  The constructor, over the configuration (\<open>config->get_int\<close>, \<open>config->get_float\<close>, which the
  configuration component provides). \<open>station_\<close> is set by the station's constructor.
\<close>

definition Mps_new ::
    "(string \<Rightarrow> int) \<Rightarrow> (string \<Rightarrow> real) \<Rightarrow> gz \<Rightarrow> string \<Rightarrow> nat \<Rightarrow> mps" where
  "Mps_new get_int get_float w n st =
     \<lparr>mps_name = n, station = st,
      number_pucks = get_int ''plugins/mps/number_pucks'',
      belt_offset_side = get_float ''plugins/mps/belt_offset_side'',
      detect_tolerance = get_float ''plugins/mps/detect_tolerance'',
      puck_size = get_float ''plugins/mps/puck_size'',
      puck_height = get_float ''plugins/mps/puck_height'',
      belt_length = get_float ''plugins/mps/belt_length'',
      belt_height = get_float ''plugins/mps/belt_height'',
      mps_height = get_float ''plugins/mps/mps_height'',
      tag_height = get_float ''plugins/mps/tag_height'',
      tag_size = get_float ''plugins/mps/tag_size'',
      tag_spawn_time = get_float ''plugins/mps/tag_spawn_time'',
      created_time = gz_time w, spawned_tags_last = gz_time w, grabbed_tags = False,
      puck_subs = [], hold_pucks = [],
      wp_in_input = None, wp_in_middle = None, wp_in_output = None,
      opc_in = init_opc_side, opc_basic = init_opc_side, trace = []\<rparr>"

text \<open>\<open>init_opcua_server\<close>: the variables are created with their initial values.\<close>

definition init_opcua_server :: "'a mps_scheme \<Rightarrow> 'a mps_scheme" where
  "init_opcua_server s = s\<lparr>opc_in := init_opc_side, opc_basic := init_opc_side\<rparr>"

text \<open>\<open>start_server\<close>: endpoint and URI first, each of which may raise.\<close>

definition start_server :: "'a mps_scheme \<Rightarrow> machine_type_exception + 'a mps_scheme" where
  "start_server s =
     (case get_endpoint (mps_name s) of
        Inl e \<Rightarrow> Inl e
      | Inr ep \<Rightarrow>
          (case get_URI (station s) of
             Inl e \<Rightarrow> Inl e
           | Inr uri \<Rightarrow> Inr (init_opcua_server s)))"

subsection \<open>Writes and effects\<close>

definition emit :: "effect \<Rightarrow> 'a mps_scheme \<Rightarrow> 'a mps_scheme" where
  [station_defs]: "emit e s = s\<lparr>trace := trace s @ [e]\<rparr>"

definition set_busy :: "bool \<Rightarrow> 'a mps_scheme \<Rightarrow> 'a mps_scheme" where
  [station_defs]:
  "set_busy b s = emit (OpcBusy b) (s\<lparr>opc_in := (opc_in s)\<lparr>status_busy := b\<rparr>\<rparr>)"

definition set_ready :: "bool \<Rightarrow> 'a mps_scheme \<Rightarrow> 'a mps_scheme" where
  [station_defs]:
  "set_ready b s = emit (OpcReady b) (s\<lparr>opc_in := (opc_in s)\<lparr>status_ready := b\<rparr>\<rparr>)"

definition set_action_id :: "u16 \<Rightarrow> 'a mps_scheme \<Rightarrow> 'a mps_scheme" where
  [station_defs]:
  "set_action_id v s = emit (OpcActionId v) (s\<lparr>opc_in := (opc_in s)\<lparr>action_id := v\<rparr>\<rparr>)"

definition set_payload1 :: "u16 \<Rightarrow> 'a mps_scheme \<Rightarrow> 'a mps_scheme" where
  [station_defs]:
  "set_payload1 v s = emit (OpcPayload1 v) (s\<lparr>opc_in := (opc_in s)\<lparr>payload1 := v\<rparr>\<rparr>)"

definition set_payload2 :: "u16 \<Rightarrow> 'a mps_scheme \<Rightarrow> 'a mps_scheme" where
  [station_defs]:
  "set_payload2 v s = emit (OpcPayload2 v) (s\<lparr>opc_in := (opc_in s)\<lparr>payload2 := v\<rparr>\<rparr>)"

definition set_slidecount :: "u16 \<Rightarrow> 'a mps_scheme \<Rightarrow> 'a mps_scheme" where
  [station_defs]:
  "set_slidecount v s = emit (OpcSlideCount v) (s\<lparr>opc_in := (opc_in s)\<lparr>slidecount := v\<rparr>\<rparr>)"

abbreviation action_id_in :: "'a mps_scheme \<Rightarrow> u16" where
  "action_id_in s \<equiv> action_id (opc_in s)"
abbreviation payload1_in :: "'a mps_scheme \<Rightarrow> u16" where
  "payload1_in s \<equiv> payload1 (opc_in s)"
abbreviation payload2_in :: "'a mps_scheme \<Rightarrow> u16" where
  "payload2_in s \<equiv> payload2 (opc_in s)"
abbreviation busy_in :: "'a mps_scheme \<Rightarrow> bool" where
  "busy_in s \<equiv> status_busy (opc_in s)"
abbreviation ready_in :: "'a mps_scheme \<Rightarrow> bool" where
  "ready_in s \<equiv> status_ready (opc_in s)"

section \<open>Geometry\<close>

text \<open>The centres of the input and output areas in the world, from the machine's pose.\<close>

definition mps_pose :: "gz \<Rightarrow> 'a mps_scheme \<Rightarrow> pose" where
  "mps_pose w s = gz_pose w (mps_name s)"

definition output_x :: "gz \<Rightarrow> 'a mps_scheme \<Rightarrow> real" where
  "output_x w s =
     (let mps_x = pos_x (mps_pose w s); mps_ori = rot_yaw (mps_pose w s)
      in mps_x + belt_offset_side s * cos mps_ori
           + (belt_length s / 2 - puck_size s) * sin mps_ori)"

definition output_y :: "gz \<Rightarrow> 'a mps_scheme \<Rightarrow> real" where
  "output_y w s =
     (let mps_y = pos_y (mps_pose w s); mps_ori = rot_yaw (mps_pose w s)
      in mps_y + belt_offset_side s * sin mps_ori
           - (belt_length s / 2 - puck_size s) * cos mps_ori)"

definition input_x :: "gz \<Rightarrow> 'a mps_scheme \<Rightarrow> real" where
  "input_x w s =
     (let mps_x = pos_x (mps_pose w s); mps_ori = rot_yaw (mps_pose w s)
      in mps_x + belt_offset_side s * cos mps_ori
           - (belt_length s / 2 - puck_size s) * sin mps_ori)"

definition input_y :: "gz \<Rightarrow> 'a mps_scheme \<Rightarrow> real" where
  "input_y w s =
     (let mps_y = pos_y (mps_pose w s); mps_ori = rot_yaw (mps_pose w s)
      in mps_y + belt_offset_side s * sin mps_ori
           + (belt_length s / 2 - puck_size s) * cos mps_ori)"

definition input_pose :: "gz \<Rightarrow> 'a mps_scheme \<Rightarrow> pose" where
  "input_pose w s = Pose3d (input_x w s) (input_y w s) (belt_height s) 0 0 0"

definition output_pose :: "gz \<Rightarrow> 'a mps_scheme \<Rightarrow> pose" where
  "output_pose w s = Pose3d (output_x w s) (output_y w s) (belt_height s) 0 0 0"

definition middle_pose :: "gz \<Rightarrow> 'a mps_scheme \<Rightarrow> pose" where
  "middle_pose w s =
     Pose3d ((input_x w s + output_x w s) / 2) ((input_y w s + output_y w s) / 2)
            (belt_height s) 0 0 0"

text \<open>The default arguments \<open>-1.0\<close> of \<open>pose_hit\<close> and \<open>get_puck_world_pose\<close> stand for the
  machine's tolerance and belt height.\<close>

definition pose_hit :: "gz \<Rightarrow> 'a mps_scheme \<Rightarrow> pose \<Rightarrow> pose \<Rightarrow> real \<Rightarrow> bool" where
  "pose_hit w s to_test reference tolerance =
     (let tolerance = (if tolerance = -1 then detect_tolerance s else tolerance)
      in gz_dist w to_test reference < tolerance)"

definition get_puck_world_pose ::
    "gz \<Rightarrow> 'a mps_scheme \<Rightarrow> real \<Rightarrow> real \<Rightarrow> real \<Rightarrow> pose" where
  "get_puck_world_pose w s long_side short_side height =
     (let height = (if height = -1 then belt_height s else height);
          mps_x = pos_x (mps_pose w s);
          mps_y = pos_y (mps_pose w s);
          mps_ori = rot_yaw (mps_pose w s);
          x = mps_x + (belt_offset_side s + long_side) * cos mps_ori
                - ((belt_length s + short_side) / 2 - puck_size s) * sin mps_ori;
          y = mps_y + (belt_offset_side s + long_side) * sin mps_ori
                + ((belt_length s + short_side) / 2 - puck_size s) * cos mps_ori
      in Pose3d x y height 0 0 0)"

text \<open>The two overloads for a pose message compute the distance themselves.\<close>

definition puck_msg_in_input :: "gz \<Rightarrow> 'a mps_scheme \<Rightarrow> pose \<Rightarrow> bool" where
  "puck_msg_in_input w s p =
     (let dist = sqrt ((pos_x p - input_x w s) * (pos_x p - input_x w s)
                     + (pos_y p - input_y w s) * (pos_y p - input_y w s)
                     + (pos_z p - belt_height s) * (pos_z p - belt_height s))
      in dist < detect_tolerance s)"

definition puck_msg_in_output :: "gz \<Rightarrow> 'a mps_scheme \<Rightarrow> pose \<Rightarrow> bool" where
  "puck_msg_in_output w s p =
     (let dist = sqrt ((pos_x p - output_x w s) * (pos_x p - output_x w s)
                     + (pos_y p - output_y w s) * (pos_y p - output_y w s)
                     + (pos_z p - belt_height s) * (pos_z p - belt_height s))
      in dist < detect_tolerance s)"

definition puck_in_input :: "gz \<Rightarrow> 'a mps_scheme \<Rightarrow> pose \<Rightarrow> bool" where
  "puck_in_input w s p = (gz_dist w p (input_pose w s) < detect_tolerance s)"

definition puck_in_output :: "gz \<Rightarrow> 'a mps_scheme \<Rightarrow> pose \<Rightarrow> bool" where
  "puck_in_output w s p = (gz_dist w p (output_pose w s) < detect_tolerance s)"

definition puck_in_middle :: "gz \<Rightarrow> 'a mps_scheme \<Rightarrow> pose \<Rightarrow> bool" where
  "puck_in_middle w s p = (gz_dist w p (middle_pose w s) < detect_tolerance s)"

section \<open>Commands\<close>

text \<open>\<open>enum class MachineSide\<close>, cast from a payload.\<close>

definition SIDE_INPUT :: nat where "SIDE_INPUT = 1"
definition SIDE_MIDDLE :: nat where "SIDE_MIDDLE = 2"
definition SIDE_OUTPUT :: nat where "SIDE_OUTPUT = 3"

lemmas side_numbers [simp] = SIDE_INPUT_def SIDE_MIDDLE_def SIDE_OUTPUT_def

definition calculate_station_type_from_command :: "u16 \<Rightarrow> nat" where
  "calculate_station_type_from_command value = unat value - unat value mod 100"

text \<open>
  \<open>move_conveyor\<close> sets the busy flag and sleeps; the workpiece pointers are read only after
  that, and the simulator's threads may have changed them meanwhile. So the function is split
  at the sleep. A failed move returns without touching any variable again.
\<close>

definition move_conveyor_begin :: "'a mps_scheme \<Rightarrow> 'a mps_scheme" where
  "move_conveyor_begin s = emit (Sleep 2500) (set_busy True s)"

definition move_conveyor_end :: "gz \<Rightarrow> nat \<Rightarrow> 'a mps_scheme \<Rightarrow> 'a mps_scheme" where
  "move_conveyor_end w side s =
     (let choice = (if side = SIDE_INPUT then (wp_in_middle s, input_pose w s)
                    else if side = SIDE_MIDDLE then (wp_in_input s, middle_pose w s)
                    else if side = SIDE_OUTPUT then (wp_in_middle s, output_pose w s)
                    else (None, output_pose w s))
      in case choice of
           (None, target_pose) \<Rightarrow> s
         | (Some wp, target_pose) \<Rightarrow>
             (let s = emit (SetWorldPose wp target_pose) s;
                  s = set_action_id 0 s;
                  s = set_payload1 0 s;
                  s = (if side = SIDE_INPUT
                       then set_ready True (s\<lparr>wp_in_middle := None, wp_in_input := Some wp\<rparr>)
                       else if side = SIDE_MIDDLE
                       then s\<lparr>wp_in_input := None, wp_in_middle := Some wp\<rparr>
                       else set_ready True (s\<lparr>wp_in_middle := None, wp_in_output := Some wp\<rparr>))
              in set_busy False s))"

definition move_conveyor :: "gz \<Rightarrow> nat \<Rightarrow> 'a mps_scheme \<Rightarrow> 'a mps_scheme" where
  "move_conveyor w side s = move_conveyor_end w side (move_conveyor_begin s)"

text \<open>\<open>value < station_\<close> is checked after the station types have been compared.\<close>

definition process_command_in :: "gz \<Rightarrow> 'a mps_scheme \<Rightarrow> 'a mps_scheme" where
  "process_command_in w s =
     (let value = action_id_in s
      in if value = 0 then s
         else if calculate_station_type_from_command value \<noteq> station s then s
         else if unat value < station s then s
         else let op = unat value - station s
              in if op = OPERATION_MOVE_CONVEYOR then move_conveyor w (unat (payload1_in s)) s
                 else s)"

definition process_command_base :: "'a mps_scheme \<Rightarrow> 'a mps_scheme" where
  "process_command_base s = s"

section \<open>Messages from the simulator\<close>

definition on_puck_msg :: "gz \<Rightarrow> string \<Rightarrow> pose \<Rightarrow> 'a mps_scheme \<Rightarrow> 'a mps_scheme" where
  "on_puck_msg w name p s =
     (if wp_in_input s = None \<and> puck_msg_in_input w s p
      then s\<lparr>wp_in_input := model_by_name w name\<rparr>
      else if wp_in_input s = Some name \<and> \<not> puck_msg_in_input w s p
      then set_ready False (s\<lparr>wp_in_input := None\<rparr>)
      else if wp_in_output s = Some name \<and> \<not> puck_msg_in_output w s p
      then set_ready False (s\<lparr>wp_in_output := None\<rparr>)
      else s)"

definition on_new_puck :: "new_puck \<Rightarrow> 'a mps_scheme \<Rightarrow> 'a mps_scheme" where
  "on_new_puck msg s = s\<lparr>puck_subs := puck_subs s @ [np_gps_topic msg]\<rparr>"

text \<open>\<open>hold_pucks\<close> maps a gripper joint's id to the name of the workpiece it holds.\<close>

definition on_joint_msg :: "nat \<Rightarrow> string \<Rightarrow> 'a mps_scheme \<Rightarrow> 'a mps_scheme" where
  "on_joint_msg jid child s = s\<lparr>hold_pucks := AList.update jid child (hold_pucks s)\<rparr>"

definition is_puck_hold :: "'a mps_scheme \<Rightarrow> string \<Rightarrow> bool" where
  "is_puck_hold s puck_name = list_ex (\<lambda>(i, child). puck_name = child) (hold_pucks s)"

section \<open>Tags\<close>

definition name_id_match :: "(string \<times> string) list" where
  "name_id_match =
    [(''C-CS1I'', ''tag_01''),  (''C-CS1O'', ''tag_02''),  (''C-CS2I'', ''tag_17''),
     (''C-CS2O'', ''tag_18''),  (''C-RS1I'', ''tag_33''),  (''C-RS1O'', ''tag_34''),
     (''C-RS2I'', ''tag_177''), (''C-RS2O'', ''tag_178''), (''C-BSI'', ''tag_65''),
     (''C-BSO'', ''tag_66''),   (''C-DSI'', ''tag_81''),   (''C-DSO'', ''tag_82''),
     (''M-CS1I'', ''tag_97''),  (''M-CS1O'', ''tag_98''),  (''M-CS2I'', ''tag_113''),
     (''M-CS2O'', ''tag_114''), (''M-RS1I'', ''tag_129''), (''M-RS1O'', ''tag_130''),
     (''M-RS2I'', ''tag_145''), (''M-RS2O'', ''tag_146''), (''M-BSI'', ''tag_161''),
     (''M-BSO'', ''tag_162''),  (''M-DSI'', ''tag_49''),   (''M-DSO'', ''tag_50''),
     (''C-SSO'', ''tag_194''),  (''C-SSI'', ''tag_193''),  (''M-SSO'', ''tag_210''),
     (''M-SSI'', ''tag_209'')]"

datatype out_of_range = Out_of_range string

text \<open>\<open>name_id_match.at\<close>, which raises for a key that is not there.\<close>

definition tag_of :: "string \<Rightarrow> out_of_range + string" where
  "tag_of n = (case map_of name_id_match n of None \<Rightarrow> Inl (Out_of_range n) | Some t \<Rightarrow> Inr t)"

definition getLinkEndingWith :: "gz \<Rightarrow> string \<Rightarrow> string \<Rightarrow> string option" where
  "getLinkEndingWith w model ending = find (\<lambda>l. ends_with l ending) (gz_links w model)"

definition grabTag ::
    "gz \<Rightarrow> string \<Rightarrow> string \<Rightarrow> string \<Rightarrow> 'a mps_scheme \<Rightarrow> out_of_range + 'a mps_scheme" where
  "grabTag w link_name tag_name joint s =
     (case tag_of tag_name of
        Inl e \<Rightarrow> Inl e
      | Inr tag_name \<Rightarrow>
          (case getLinkEndingWith w (mps_name s) link_name of
             None \<Rightarrow> Inr s
           | Some gripperLink \<Rightarrow>
               (case model_by_name w tag_name of
                  None \<Rightarrow> Inr s
                | Some tag \<Rightarrow>
                    (case getLinkEndingWith w tag ''link'' of
                       None \<Rightarrow> Inr s
                     | Some tagLink \<Rightarrow>
                         Inr (emit (Attach joint gripperLink tagLink)
                               (emit (SetWorldPose tag (gz_link_pose w gripperLink)) s))))))"

definition OnUpdate :: "gz \<Rightarrow> 'a mps_scheme \<Rightarrow> out_of_range + 'a mps_scheme" where
  "OnUpdate w s =
     (if grabbed_tags s then Inr s
      else case (tag_of (mps_name s @ ''I''), tag_of (mps_name s @ ''O'')) of
        (Inl e, _) \<Rightarrow> Inl e
      | (_, Inl e) \<Rightarrow> Inl e
      | (Inr input_tag_name, Inr output_tag_name) \<Rightarrow>
          if gz_has_base w input_tag_name \<and> gz_has_base w output_tag_name
          then case grabTag w ''mps_tag_input'' (mps_name s @ ''I'') ''tag_joint_input'' s of
                 Inl e \<Rightarrow> Inl e
               | Inr s \<Rightarrow>
                   (case grabTag w ''mps_tag_output'' (mps_name s @ ''O'')
                           ''tag_joint_output'' s of
                      Inl e \<Rightarrow> Inl e
                    | Inr s \<Rightarrow> Inr (s\<lparr>grabbed_tags := True\<rparr>))
          else Inr s)"

section \<open>Decoding of commands\<close>

lemma station_type_le: "calculate_station_type_from_command v \<le> unat v"
  by (simp add: calculate_station_type_from_command_def)

lemma station_type_mod: "calculate_station_type_from_command v mod 100 = 0"
  by (simp add: calculate_station_type_from_command_def minus_mod_eq_mult_div)

lemma station_type_eq_iff:
  "st mod 100 = 0 \<Longrightarrow>
   calculate_station_type_from_command v = st \<longleftrightarrow> st \<le> unat v \<and> unat v < st + 100"
proof -
  assume "st mod 100 = 0"
  then obtain k where k: "st = 100 * k" by fastforce
  have "calculate_station_type_from_command v = 100 * (unat v div 100)"
    by (simp add: calculate_station_type_from_command_def minus_mod_eq_mult_div)
  then show ?thesis unfolding k by (simp, linarith)
qed

text \<open>A station's number is one of the five enumerators, all multiples of a hundred.\<close>

definition valid_station :: "nat \<Rightarrow> bool" where
  "valid_station st \<longleftrightarrow>
     st \<in> {STATION_BASE, STATION_RING, STATION_CAP, STATION_DELIVERY, STATION_STORAGE}"

lemma valid_station_mod: "valid_station st \<Longrightarrow> st mod 100 = 0"
  by (auto simp: valid_station_def)

lemma valid_station_bounds: "valid_station st \<Longrightarrow> 100 \<le> st \<and> st \<le> 500"
  by (auto simp: valid_station_def)

lemma unat_u16_less: "unat (v :: u16) < 65536"
  using unsigned_less [of v] by simp

lemma process_command_in_unfold:
  "process_command_in w s =
     (if action_id_in s \<noteq> 0
         \<and> calculate_station_type_from_command (action_id_in s) = station s
         \<and> unat (action_id_in s) - station s = OPERATION_MOVE_CONVEYOR
      then move_conveyor w (unat (payload1_in s)) s else s)"
  using station_type_le [of "action_id_in s"]
  by (auto simp: process_command_in_def Let_def)

section \<open>Frame lemmas\<close>

lemma move_begin_simps [simp]:
  "mps_name (move_conveyor_begin s) = mps_name s"
  "station (move_conveyor_begin s) = station s"
  "wp_in_input (move_conveyor_begin s) = wp_in_input s"
  "wp_in_middle (move_conveyor_begin s) = wp_in_middle s"
  "wp_in_output (move_conveyor_begin s) = wp_in_output s"
  "action_id_in (move_conveyor_begin s) = action_id_in s"
  "payload1_in (move_conveyor_begin s) = payload1_in s"
  "ready_in (move_conveyor_begin s) = ready_in s"
  "busy_in (move_conveyor_begin s)"
  "input_pose w (move_conveyor_begin s) = input_pose w s"
  "middle_pose w (move_conveyor_begin s) = middle_pose w s"
  "output_pose w (move_conveyor_begin s) = output_pose w s"
  by (simp_all add: move_conveyor_begin_def station_defs input_pose_def output_pose_def
        middle_pose_def input_x_def input_y_def output_x_def output_y_def mps_pose_def Let_def)

lemma trace_move_begin [simp]:
  "trace (move_conveyor_begin s) = trace s @ [OpcBusy True, Sleep 2500]"
  by (simp add: move_conveyor_begin_def station_defs)

text \<open>The pointer that a side moves, the pointer it moves to, and the pose of that position.\<close>

definition move_source :: "nat \<Rightarrow> 'a mps_scheme \<Rightarrow> string option" where
  "move_source side s =
     (if side = SIDE_MIDDLE then wp_in_input s
      else if side = SIDE_INPUT \<or> side = SIDE_OUTPUT then wp_in_middle s else None)"

definition move_target :: "nat \<Rightarrow> 'a mps_scheme \<Rightarrow> string option" where
  "move_target side s =
     (if side = SIDE_INPUT then wp_in_input s
      else if side = SIDE_MIDDLE then wp_in_middle s
      else if side = SIDE_OUTPUT then wp_in_output s else None)"

definition side_pose :: "gz \<Rightarrow> nat \<Rightarrow> 'a mps_scheme \<Rightarrow> pose" where
  "side_pose w side s =
     (if side = SIDE_INPUT then input_pose w s
      else if side = SIDE_MIDDLE then middle_pose w s else output_pose w s)"

definition valid_side :: "nat \<Rightarrow> bool" where
  "valid_side side \<longleftrightarrow> side \<in> {SIDE_INPUT, SIDE_MIDDLE, SIDE_OUTPUT}"

lemmas side_defs = move_source_def move_target_def side_pose_def valid_side_def

lemma move_end_None: "move_source side s = None \<Longrightarrow> move_conveyor_end w side s = s"
  by (auto simp: move_conveyor_end_def side_defs Let_def split: if_splits)

lemma move_end_Some:
  assumes "move_source side s = Some wp"
  shows "move_source side (move_conveyor_end w side s) = None"
    and "move_target side (move_conveyor_end w side s) = Some wp"
    and "\<not> busy_in (move_conveyor_end w side s)"
    and "action_id_in (move_conveyor_end w side s) = 0"
    and "payload1_in (move_conveyor_end w side s) = 0"
    and "ready_in (move_conveyor_end w side s) = (side \<noteq> SIDE_MIDDLE \<or> ready_in s)"
  using assms by (auto simp: move_conveyor_end_def side_defs station_defs Let_def split: if_splits)

lemma trace_move_end_Some:
  assumes "move_source side s = Some wp"
  shows "trace (move_conveyor_end w side s) =
         trace s @ [SetWorldPose wp (side_pose w side s), OpcActionId 0, OpcPayload1 0]
           @ (if side = SIDE_MIDDLE then [] else [OpcReady True]) @ [OpcBusy False]"
  using assms by (auto simp: move_conveyor_end_def side_defs station_defs Let_def split: if_splits)

lemma move_source_begin [simp]: "move_source side (move_conveyor_begin s) = move_source side s"
  by (simp add: move_source_def)

lemma side_pose_begin [simp]: "side_pose w side (move_conveyor_begin s) = side_pose w side s"
  by (simp add: side_pose_def)

lemma move_source_valid: "move_source side s = Some wp \<Longrightarrow> valid_side side"
  by (auto simp: side_defs split: if_splits)

lemma move_conveyor_station [simp]:
  "station (move_conveyor w side s) = station s"
  "mps_name (move_conveyor w side s) = mps_name s"
  by (simp_all add: move_conveyor_def move_conveyor_end_def station_defs Let_def
        split: option.splits if_splits prod.splits)

section \<open>The conveyor\<close>

text \<open>The workpieces a machine knows to be on its conveyor, with multiplicity.\<close>

definition pieces :: "'a mps_scheme \<Rightarrow> string multiset" where
  "pieces s = mset (List.map_filter id [wp_in_input s, wp_in_middle s, wp_in_output s])"

lemma pieces_begin [simp]: "pieces (move_conveyor_begin s) = pieces s"
  by (simp add: pieces_def)

lemma pieces_move_end:
  "pieces s = pieces (move_conveyor_end w side s)
     + (case (move_source side s, move_target side s) of
          (Some wp, Some x) \<Rightarrow> {#x#} | _ \<Rightarrow> {#})"
proof (cases "move_source side s")
  case None
  then show ?thesis by (simp add: move_end_None)
next
  case (Some wp)
  then have "valid_side side" by (rule move_source_valid)
  then consider "side = 1" | "side = 2" | "side = 3"
    by (auto simp: valid_side_def)
  then show ?thesis
    using Some
    by cases (auto simp: pieces_def map_filter_simps move_conveyor_end_def side_defs station_defs
                 Let_def split: option.splits)
qed

text \<open>
  C4 A move with a workpiece at the source: the pointer goes from the source to the target
  position, the workpiece is placed at that position's pose, the command registers are
  cleared, the machine reports ready unless it moved to the middle, and the client sees busy
  set before and reset after everything else, in exactly this order of writes.
\<close>

theorem move_conveyor_correct:
  assumes "move_source side s = Some wp"
  shows "move_source side (move_conveyor w side s) = None
    \<and> move_target side (move_conveyor w side s) = Some wp
    \<and> \<not> busy_in (move_conveyor w side s)
    \<and> action_id_in (move_conveyor w side s) = 0
    \<and> payload1_in (move_conveyor w side s) = 0
    \<and> ready_in (move_conveyor w side s) = (side \<noteq> SIDE_MIDDLE \<or> ready_in s)
    \<and> trace (move_conveyor w side s) =
        trace s @ [OpcBusy True, Sleep 2500, SetWorldPose wp (side_pose w side s),
                   OpcActionId 0, OpcPayload1 0]
          @ (if side = SIDE_MIDDLE then [] else [OpcReady True]) @ [OpcBusy False]"
proof -
  have src: "move_source side (move_conveyor_begin s) = Some wp"
    using assms by simp
  show ?thesis
    unfolding move_conveyor_def
    using move_end_Some [OF src, of w] trace_move_end_Some [OF src, of w] by simp
qed

text \<open>A machine at the origin with one workpiece at its input.\<close>

definition origin :: pose where "origin = Pose3d 0 0 0 0 0 0"

definition demo_world :: gz where
  "demo_world = \<lparr>gz_dist = euclid, gz_models = [''puck_1'', ''puck_2''],
     gz_has_base = (\<lambda>n. True), gz_pose = (\<lambda>n. origin), gz_links = (\<lambda>n. []),
     gz_link_pose = (\<lambda>n. origin), gz_time = 100\<rparr>"

text \<open>The values of \<open>cfg/config.yaml\<close>.\<close>

definition cfg_float :: "string \<Rightarrow> real" where
  "cfg_float k =
     (if k = ''plugins/mps/belt_offset_side'' then 0.025
      else if k = ''plugins/mps/detect_tolerance'' then 0.03
      else if k = ''plugins/mps/puck_size'' then 0.02
      else if k = ''plugins/mps/puck_height'' then 0.0225
      else if k = ''plugins/mps/belt_length'' then 0.35
      else if k = ''plugins/mps/belt_height'' then 0.92
      else if k = ''plugins/mps/mps_height'' then 0.8
      else if k = ''plugins/mps/tag_height'' then 0.54
      else if k = ''plugins/mps/tag_size'' then 0.135
      else if k = ''plugins/mps/tag_spawn_time'' then 40
      else 0)"

definition cfg_int :: "string \<Rightarrow> int" where
  "cfg_int k = (if k = ''plugins/mps/number_pucks'' then 20
                else if k = ''plugins/mps/cap-station/spawn_puck_time'' then 20 else 0)"

definition demo_mps :: mps where
  "demo_mps = (Mps_new cfg_int cfg_float demo_world ''C-BS'' STATION_BASE)
     \<lparr>wp_in_input := Some ''puck_1''\<rparr>"

lemma demo_mps_simps [simp]:
  "wp_in_input demo_mps = Some ''puck_1''" "wp_in_middle demo_mps = None"
  "wp_in_output demo_mps = None" "mps_name demo_mps = ''C-BS''" "station demo_mps = 100"
  "belt_length demo_mps = 0.35" "puck_size demo_mps = 0.02" "belt_offset_side demo_mps = 0.025"
  "detect_tolerance demo_mps = 0.03" "belt_height demo_mps = 0.92"
  "mps_pose demo_world demo_mps = origin"
  by (simp_all add: demo_mps_def Mps_new_def cfg_float_def mps_pose_def demo_world_def)

theorem move_conveyor_correct_witness:
  "move_target SIDE_MIDDLE (move_conveyor demo_world SIDE_MIDDLE demo_mps) = Some ''puck_1''"
  using move_conveyor_correct [of SIDE_MIDDLE demo_mps "''puck_1''" demo_world]
  by (simp add: move_source_def)

text \<open>
  The busy flag after a move is set exactly when there was nothing to move (or the side is
  not one of the three): a failed move leaves the machine busy, and the command registers
  with the command still in them.
\<close>

theorem move_conveyor_busy_iff:
  "(busy_in (move_conveyor w side s) \<longleftrightarrow> move_source side s = None)
   \<and> (move_source side s = None \<longrightarrow>
        action_id_in (move_conveyor w side s) = action_id_in s
        \<and> trace (move_conveyor w side s) = trace s @ [OpcBusy True, Sleep 2500])"
proof (cases "move_source side s")
  case None
  then have "move_conveyor w side s = move_conveyor_begin s"
    by (simp add: move_conveyor_def move_end_None)
  with None show ?thesis by simp
next
  case (Some wp)
  then have "move_source side (move_conveyor_begin s) = Some wp" by simp
  from move_end_Some(3) [OF this, of w] Some show ?thesis
    by (simp add: move_conveyor_def)
qed

theorem move_conveyor_busy_iff_witness:
  "busy_in (move_conveyor demo_world SIDE_OUTPUT demo_mps)
   \<and> trace (move_conveyor demo_world SIDE_OUTPUT demo_mps) = trace demo_mps @ [OpcBusy True, Sleep 2500]"
proof -
  have "move_source SIDE_OUTPUT demo_mps = None" by (simp add: move_source_def)
  then show ?thesis using move_conveyor_busy_iff [of demo_world SIDE_OUTPUT demo_mps] by blast
qed

text \<open>
  The conveyor neither invents nor duplicates a workpiece: what a machine knows before a move
  is what it knows afterwards plus the workpiece that was already at the target, if a
  workpiece is moved onto an occupied position. Only that one is forgotten.
\<close>

theorem move_conveyor_pieces:
  "pieces s = pieces (move_conveyor w side s)
     + (case (move_source side s, move_target side s) of
          (Some wp, Some x) \<Rightarrow> {#x#} | _ \<Rightarrow> {#})"
proof -
  have tgt: "move_target side (move_conveyor_begin s) = move_target side s"
    by (simp add: move_target_def)
  have "pieces (move_conveyor_begin s) = pieces (move_conveyor_end w side (move_conveyor_begin s))
     + (case (move_source side (move_conveyor_begin s), move_target side (move_conveyor_begin s)) of
          (Some wp, Some x) \<Rightarrow> {#x#} | _ \<Rightarrow> {#})"
    by (rule pieces_move_end)
  then show ?thesis by (simp add: move_conveyor_def tgt)
qed

text \<open>
  Which commands the base class acts on: exactly the number of the station plus the number
  of the move operation. Every other value of \<open>ActionId\<close> leaves the machine as it is, and the
  comparison \<open>value < station_\<close> never decides anything.
\<close>

theorem process_command_in_decodes:
  assumes "valid_station (station s)"
  shows "process_command_in w s =
     (if unat (action_id_in s) = station s + OPERATION_MOVE_CONVEYOR
      then move_conveyor w (unat (payload1_in s)) s else s)
   \<and> \<not> (calculate_station_type_from_command (action_id_in s) = station s
          \<and> unat (action_id_in s) < station s)"
proof -
  note mod = valid_station_mod [OF assms]
  note bounds = valid_station_bounds [OF assms]
  have zero: "action_id_in s = 0 \<Longrightarrow> unat (action_id_in s) = 0" by simp
  show ?thesis
    using bounds zero
    by (auto simp: process_command_in_unfold station_type_eq_iff [OF mod])
qed

theorem process_command_in_decodes_witness:
  "process_command_in demo_world
      (demo_mps\<lparr>opc_in := init_opc_side\<lparr>action_id := 102, payload1 := 2\<rparr>\<rparr>)
    = move_conveyor demo_world 2
      (demo_mps\<lparr>opc_in := init_opc_side\<lparr>action_id := 102, payload1 := 2\<rparr>\<rparr>)"
  using process_command_in_decodes
    [of "demo_mps\<lparr>opc_in := init_opc_side\<lparr>action_id := 102, payload1 := 2\<rparr>\<rparr>" demo_world]
  by (simp add: valid_station_def)

end
