(* ===== verification/MpsAreas.thy ===== *)
theory MpsAreas
  imports Mps
begin

text \<open>
  What a machine of \<open>plugins/mps/mps.cpp\<close> senses: the areas of its belt, the workpieces that
  report their pose, the grippers that hold workpieces, and the tags on its two sides.
\<close>

section \<open>Areas\<close>

lemma input_output_dx:
  "input_x w s - output_x w s = - (belt_length s - 2 * puck_size s) * sin (rot_yaw (mps_pose w s))"
  by (simp add: input_x_def output_x_def Let_def algebra_simps)

lemma input_output_dy:
  "input_y w s - output_y w s = (belt_length s - 2 * puck_size s) * cos (rot_yaw (mps_pose w s))"
  by (simp add: input_y_def output_y_def Let_def algebra_simps)

lemma square_sin_cos: "(a * sin t)\<^sup>2 + (a * cos t)\<^sup>2 = (a::real)\<^sup>2"
  by (metis power_mult_distrib distrib_left sin_cos_squared_add mult.right_neutral)

text \<open>The input and the output are the belt's length apart, less a workpiece on each side,
  whatever the machine's pose.\<close>

lemma input_output_distance:
  "euclid (input_pose w s) (output_pose w s) = \<bar>belt_length s - 2 * puck_size s\<bar>"
proof -
  let ?t = "rot_yaw (mps_pose w s)" and ?d = "belt_length s - 2 * puck_size s"
  have "euclid (input_pose w s) (output_pose w s) =
        sqrt ((input_x w s - output_x w s)\<^sup>2 + (input_y w s - output_y w s)\<^sup>2)"
    by (simp add: euclid_def input_pose_def output_pose_def Pose3d_def power2_eq_square)
  also have "\<dots> = sqrt ((?d * sin ?t)\<^sup>2 + (?d * cos ?t)\<^sup>2)"
    by (simp only: input_output_dx input_output_dy mult_minus_left power2_minus)
  also have "\<dots> = \<bar>?d\<bar>" by (simp only: square_sin_cos real_sqrt_abs)
  finally show ?thesis .
qed

lemma half_sum: "((a - b) + (a + b)) / 2 = (a::real)" "((a + b) + (a - b)) / 2 = (a::real)"
  by simp_all

lemma middle_pose_eq:
  "middle_pose w s =
     Pose3d (pos_x (mps_pose w s) + belt_offset_side s * cos (rot_yaw (mps_pose w s)))
            (pos_y (mps_pose w s) + belt_offset_side s * sin (rot_yaw (mps_pose w s)))
            (belt_height s) 0 0 0"
proof -
  have "(input_x w s + output_x w s) / 2 =
          pos_x (mps_pose w s) + belt_offset_side s * cos (rot_yaw (mps_pose w s))"
    unfolding input_x_def output_x_def Let_def by (rule half_sum)
  moreover have "(input_y w s + output_y w s) / 2 =
          pos_y (mps_pose w s) + belt_offset_side s * sin (rot_yaw (mps_pose w s))"
    unfolding input_y_def output_y_def Let_def by (rule half_sum)
  ultimately show ?thesis by (simp only: middle_pose_def)
qed

text \<open>The Euclidean distance on positions obeys the triangle inequality (through the norm of
  complex numbers for the horizontal part).\<close>

lemma sqrt_sum_triangle:
  "sqrt ((a + c)\<^sup>2 + (b + d)\<^sup>2) \<le> sqrt (a\<^sup>2 + b\<^sup>2) + sqrt (c\<^sup>2 + (d::real)\<^sup>2)"
proof -
  have "cmod (Complex a b + Complex c d) \<le> cmod (Complex a b) + cmod (Complex c d)"
    by (rule norm_triangle_ineq)
  then show ?thesis by (simp add: cmod_def)
qed

lemma horizontal_triangle:
  "sqrt ((pos_x p - pos_x r)\<^sup>2 + (pos_y p - pos_y r)\<^sup>2) \<le> euclid q p + euclid q r"
proof -
  have "sqrt ((pos_x p - pos_x r)\<^sup>2 + (pos_y p - pos_y r)\<^sup>2) \<le>
        sqrt ((pos_x p - pos_x q)\<^sup>2 + (pos_y p - pos_y q)\<^sup>2)
        + sqrt ((pos_x q - pos_x r)\<^sup>2 + (pos_y q - pos_y r)\<^sup>2)"
    using sqrt_sum_triangle [of "pos_x p - pos_x q" "pos_x q - pos_x r"
                                "pos_y p - pos_y q" "pos_y q - pos_y r"] by simp
  also have "\<dots> \<le> euclid p q + euclid q r"
    using euclid_ge_horizontal [of p q] euclid_ge_horizontal [of q r] by simp
  finally show ?thesis by (simp add: euclid_sym)
qed

lemma puck_msg_in_input_euclid:
  "puck_msg_in_input w s p \<longleftrightarrow> euclid p (input_pose w s) < detect_tolerance s"
  by (simp add: puck_msg_in_input_def euclid_def input_pose_def Pose3d_def Let_def)

lemma puck_msg_in_output_euclid:
  "puck_msg_in_output w s p \<longleftrightarrow> euclid p (output_pose w s) < detect_tolerance s"
  by (simp add: puck_msg_in_output_def euclid_def output_pose_def Pose3d_def Let_def)

lemma areas_far_apart:
  assumes "2 * detect_tolerance s \<le> belt_length s - 2 * puck_size s"
    and "euclid p (input_pose w s) < detect_tolerance s"
  shows "\<not> euclid p (output_pose w s) < detect_tolerance s"
proof
  assume out: "euclid p (output_pose w s) < detect_tolerance s"
  let ?i = "input_pose w s" and ?o = "output_pose w s"
  have "euclid ?i ?o = sqrt ((pos_x ?i - pos_x ?o)\<^sup>2 + (pos_y ?i - pos_y ?o)\<^sup>2)"
    by (simp add: euclid_def input_pose_def output_pose_def Pose3d_def power2_eq_square)
  also have "\<dots> \<le> euclid p ?i + euclid p ?o" by (rule horizontal_triangle)
  also have "\<dots> < 2 * detect_tolerance s" using assms(2) out by simp
  also have "\<dots> \<le> euclid ?i ?o" using assms(1) by (simp add: input_output_distance)
  finally show False by simp
qed

text \<open>
  No workpiece is ever in the input and in the output area of a machine at once, in
  whatever pose the machine stands, as long as the belt is longer than two workpieces and two
  tolerances (the configuration has 0.35 against 0.1).
\<close>

theorem input_output_disjoint:
  assumes "2 * detect_tolerance s \<le> belt_length s - 2 * puck_size s"
  shows "\<not> (puck_msg_in_input w s p \<and> puck_msg_in_output w s p)"
  using areas_far_apart [OF assms, of p w]
  by (simp add: puck_msg_in_input_euclid puck_msg_in_output_euclid)

theorem input_output_disjoint_witness:
  "puck_msg_in_input demo_world demo_mps (input_pose demo_world demo_mps)
   \<and> \<not> puck_msg_in_output demo_world demo_mps (input_pose demo_world demo_mps)"
proof -
  have "puck_msg_in_input demo_world demo_mps (input_pose demo_world demo_mps)"
    by (simp add: puck_msg_in_input_euclid)
  then show ?thesis
    using input_output_disjoint [of demo_mps demo_world "input_pose demo_world demo_mps"] by simp
qed

section \<open>Workpieces that report their pose\<close>

lemma wp_in_input_on_puck_msg:
  "wp_in_input (on_puck_msg w n p s) = Some n \<Longrightarrow> puck_msg_in_input w s p"
  by (auto simp: on_puck_msg_def set_ready_def emit_def split: if_splits)

lemma on_puck_msg_middle [simp]: "wp_in_middle (on_puck_msg w n p s) = wp_in_middle s"
  by (simp add: on_puck_msg_def set_ready_def emit_def)

text \<open>
  What one pose report changes. After it, the reporting workpiece is at the input only if it
  really is in the input area; a report never makes the machine ready and never touches the
  middle; it takes the output pointer away only from the reporting workpiece, when this has
  left the output area; and a report from a workpiece the machine does not track, from outside
  the input area, changes nothing.
\<close>

theorem on_puck_msg_tracks:
  "(wp_in_input (on_puck_msg w n p s) = Some n \<longrightarrow> puck_msg_in_input w s p)
   \<and> (ready_in (on_puck_msg w n p s) \<longrightarrow> ready_in s)
   \<and> wp_in_middle (on_puck_msg w n p s) = wp_in_middle s
   \<and> (wp_in_output (on_puck_msg w n p s) \<noteq> wp_in_output s \<longrightarrow>
        wp_in_output s = Some n \<and> \<not> puck_msg_in_output w s p
        \<and> wp_in_output (on_puck_msg w n p s) = None \<and> \<not> ready_in (on_puck_msg w n p s))
   \<and> (\<not> puck_msg_in_input w s p \<and> wp_in_input s \<noteq> Some n \<and> wp_in_output s \<noteq> Some n \<longrightarrow>
        on_puck_msg w n p s = s)"
  using wp_in_input_on_puck_msg [of w n p s]
  by (auto simp: on_puck_msg_def set_ready_def emit_def split: if_splits)

text \<open>A workpiece at the input that reports a pose ten metres away.\<close>

definition far_pose :: pose where "far_pose = Pose3d 10 0 0.92 0 0 0"

lemma far_pose_not_in_input: "\<not> puck_msg_in_input demo_world demo_mps far_pose"
proof -
  have "sqrt 1 \<le> euclid far_pose (input_pose demo_world demo_mps)"
    unfolding euclid_def real_sqrt_le_iff
    by (simp add: far_pose_def input_pose_def Pose3d_def input_x_def input_y_def origin_def)
  then show ?thesis by (simp add: puck_msg_in_input_euclid)
qed

theorem on_puck_msg_tracks_witness:
  "wp_in_input (on_puck_msg demo_world ''puck_1'' far_pose demo_mps) \<noteq> Some ''puck_1''"
  using on_puck_msg_tracks [of demo_world "''puck_1''" far_pose demo_mps] far_pose_not_in_input
  by blast

section \<open>Workpieces in grippers\<close>

lemma is_puck_hold_iff: "is_puck_hold s n \<longleftrightarrow> n \<in> snd ` set (hold_pucks s)"
  by (force simp: is_puck_hold_def list_ex_iff)

lemma hold_pucks_on_joint [simp]:
  "hold_pucks (on_joint_msg j c s) = AList.update j c (hold_pucks s)"
  by (simp add: on_joint_msg_def)

lemma distinct_hold_on_joint:
  "distinct (map fst (hold_pucks s)) \<Longrightarrow> distinct (map fst (hold_pucks (on_joint_msg j c s)))"
  by (simp add: distinct_update)

lemma held_iff_map_of:
  "distinct (map fst (hold_pucks s)) \<Longrightarrow>
   is_puck_hold s n \<longleftrightarrow> (\<exists>j. map_of (hold_pucks s) j = Some n)"
  by (force simp: is_puck_hold_iff)

text \<open>The last child a list of joint messages gave to a joint.\<close>

fun last_child :: "(nat \<times> string) list \<Rightarrow> nat \<Rightarrow> string option" where
  "last_child [] j = None"
| "last_child ((i, c) # ms) j =
     (case last_child ms j of None \<Rightarrow> (if i = j then Some c else None) | Some d \<Rightarrow> Some d)"

text \<open>
  The contract between the grippers, which publish what their joint holds, and a component that
  listens to them: a message replaces what was known of its joint and of no other.
\<close>

locale joint_listener =
  fixes listen :: "nat \<Rightarrow> string \<Rightarrow> 's \<Rightarrow> 's"
    and child_of :: "nat \<Rightarrow> 's \<Rightarrow> string option"
  assumes child_of_listen: "child_of j (listen i c s) = (if i = j then Some c else child_of j s)"
begin

lemma child_of_run:
  "child_of j (fold (\<lambda>(i, c). listen i c) ms s) =
     (case last_child ms j of None \<Rightarrow> child_of j s | Some c \<Rightarrow> Some c)"
  by (induction ms arbitrary: s) (auto simp: child_of_listen split: option.splits)

end

interpretation mps_joints: joint_listener on_joint_msg "\<lambda>j s. map_of (hold_pucks s) j"
  by unfold_locales (simp add: update_conv)

definition on_joint_msgs :: "(nat \<times> string) list \<Rightarrow> 'a mps_scheme \<Rightarrow> 'a mps_scheme" where
  "on_joint_msgs ms s = fold (\<lambda>(j, c). on_joint_msg j c) ms s"

lemma on_joint_msgs_distinct:
  "distinct (map fst (hold_pucks s)) \<Longrightarrow> distinct (map fst (hold_pucks (on_joint_msgs ms s)))"
  unfolding on_joint_msgs_def
proof (induction ms arbitrary: s)
  case (Cons m ms)
  obtain i c where m: "m = (i, c)" by fastforce
  have "distinct (map fst (hold_pucks (on_joint_msg i c s)))"
    using Cons.prems by (rule distinct_hold_on_joint)
  from Cons.IH [OF this] show ?case by (simp add: m)
qed simp

lemma on_joint_msgs_map:
  "map_of (hold_pucks (on_joint_msgs ms s)) j =
       (case last_child ms j of None \<Rightarrow> map_of (hold_pucks s) j | Some c \<Rightarrow> Some c)"
  unfolding on_joint_msgs_def by (rule mps_joints.child_of_run)

text \<open>
  A machine that starts with no joint known holds a workpiece to be held exactly when, for
  some gripper joint, the last message about that joint named it: a gripper that has reported
  an empty hand or another workpiece since no longer counts.
\<close>

theorem is_puck_hold_last_message:
  assumes "hold_pucks s = []"
  shows "is_puck_hold (on_joint_msgs ms s) n \<longleftrightarrow> (\<exists>j. last_child ms j = Some n)"
proof -
  have d: "distinct (map fst (hold_pucks s))" using assms by simp
  show ?thesis
    using on_joint_msgs_map [of ms s] on_joint_msgs_distinct [OF d, of ms] assms
    by (auto simp: held_iff_map_of split: option.splits)
qed

theorem is_puck_hold_last_message_witness:
  "\<not> is_puck_hold (on_joint_msgs [(7, ''puck_1''), (7, [])] demo_mps) ''puck_1''"
  using is_puck_hold_last_message [of demo_mps "[(7, ''puck_1''), (7, [])]" "''puck_1''"]
  by (simp add: demo_mps_def Mps_new_def)

section \<open>Tags\<close>

lemma name_id_match_distinct: "distinct (map fst name_id_match) \<and> distinct (map snd name_id_match)"
  by (simp add: name_id_match_def)

lemma tag_of_total: "n \<in> set mps_names \<Longrightarrow> \<exists>t u. tag_of (n @ ''I'') = Inr t \<and> tag_of (n @ ''O'') = Inr u"
  by (auto simp: mps_names_def tag_of_def name_id_match_def)

lemma grabTag_total: "tag_of t = Inr u \<Longrightarrow> \<exists>s'. grabTag w l t j s = Inr s' \<and> mps_name s' = mps_name s"
  by (auto simp: grabTag_def station_defs split: option.splits)

lemma grabTag_emits:
  "grabTag w l t j s = Inr s' \<Longrightarrow> grabbed_tags s' = grabbed_tags s \<and> mps_name s' = mps_name s"
  by (auto simp: grabTag_def station_defs split: option.splits sum.splits)

text \<open>
  The update of a machine of the game never raises \<open>std::out_of_range\<close> from the tag table,
  the tags of different machine sides are different, and the update takes the tags exactly
  when both exist in the world; once taken they are not taken again.
\<close>

theorem OnUpdate_tags:
  assumes "mps_name s \<in> set mps_names"
  shows "(\<exists>s'. OnUpdate w s = Inr s'
           \<and> grabbed_tags s' = (grabbed_tags s
                \<or> (\<exists>t u. tag_of (mps_name s @ ''I'') = Inr t \<and> tag_of (mps_name s @ ''O'') = Inr u
                        \<and> t \<noteq> u \<and> gz_has_base w t \<and> gz_has_base w u)))
     \<and> (grabbed_tags s \<longrightarrow> OnUpdate w s = Inr s)
     \<and> distinct (map fst name_id_match) \<and> distinct (map snd name_id_match)"
proof -
  obtain t u where t: "tag_of (mps_name s @ ''I'') = Inr t" and u: "tag_of (mps_name s @ ''O'') = Inr u"
    using tag_of_total [OF assms] by blast
  have ne: "t \<noteq> u"
    using t u assms by (auto simp: tag_of_def mps_names_def name_id_match_def)
  obtain s1 where s1: "grabTag w ''mps_tag_input'' (mps_name s @ ''I'') ''tag_joint_input'' s = Inr s1"
    using grabTag_total [OF t] by blast
  obtain s2 where s2: "grabTag w ''mps_tag_output'' (mps_name s @ ''O'') ''tag_joint_output'' s1 = Inr s2"
    using grabTag_total [OF u] by blast
  show ?thesis
    using t u ne s1 s2 grabTag_emits [OF s1] name_id_match_distinct by (auto simp: OnUpdate_def)
qed

theorem OnUpdate_tags_witness:
  "\<exists>s'. OnUpdate demo_world demo_mps = Inr s' \<and> grabbed_tags s'"
  using OnUpdate_tags [of demo_mps demo_world]
  by (simp add: mps_names_def tag_of_def name_id_match_def demo_world_def)

end
