(* ===== verification/MpsWorker.thy ===== *)
theory MpsWorker
  imports Mps
begin

text \<open>
  The worker thread of a machine (\<open>Mps::worker_loop\<close>, \<open>notify_worker\<close> and the destructor in
  \<open>plugins/mps/mps.cpp\<close>) as an interleaving of three step relations over a shared state: the
  worker, the thread that destroys the machine, and the environment (an OPC UA client that
  writes a register, the subscription that later calls \<open>notify_worker\<close> through
  \<open>subclient.h\<close>, and the spurious wake-ups that a condition variable may have). The condition
  variable is waited on without a predicate. What the worker
  does with a command is the parameter \<open>h\<close>: \<open>process_command_base\<close> and then the station's
  virtual \<open>process_command_in\<close>.
\<close>

section \<open>States and steps\<close>

datatype worker_pc = W_Check | W_Lock | W_Held | W_Waiting | W_Woken | W_Awake | W_Run | W_Exit

datatype dtor_pc = D_None | D_Locked | D_Set | D_Unlocked | D_Join | D_Joined

datatype owner = Worker | Destructor

record 's wsys =
  w_pc :: worker_pc
  d_pc :: dtor_pc
  shutdown :: bool
  mutex_owner :: "owner option"
  pending :: nat
  machine :: 's

definition wsys_init :: "'s \<Rightarrow> 's wsys" where
  "wsys_init m = \<lparr>w_pc = W_Check, d_pc = D_None, shutdown = False, mutex_owner = None,
                  pending = 0, machine = m\<rparr>"

text \<open>\<open>notify_one\<close> wakes the worker if it waits and is lost otherwise.\<close>

definition notify_worker :: "'s wsys \<Rightarrow> 's wsys" where
  "notify_worker \<sigma> = (if w_pc \<sigma> = W_Waiting then \<sigma>\<lparr>w_pc := W_Woken\<rparr> else \<sigma>)"

text \<open>The worker: test the flag, lock, wait (which unlocks), lock again, unlock, work.\<close>

inductive worker_step :: "('s \<Rightarrow> 's) \<Rightarrow> 's wsys \<Rightarrow> 's wsys \<Rightarrow> bool" for h where
  check_exit: "w_pc \<sigma> = W_Check \<Longrightarrow> shutdown \<sigma> \<Longrightarrow> worker_step h \<sigma> (\<sigma>\<lparr>w_pc := W_Exit\<rparr>)"
| check_go: "w_pc \<sigma> = W_Check \<Longrightarrow> \<not> shutdown \<sigma> \<Longrightarrow> worker_step h \<sigma> (\<sigma>\<lparr>w_pc := W_Lock\<rparr>)"
| lock: "w_pc \<sigma> = W_Lock \<Longrightarrow> mutex_owner \<sigma> = None \<Longrightarrow>
    worker_step h \<sigma> (\<sigma>\<lparr>w_pc := W_Held, mutex_owner := Some Worker\<rparr>)"
| wait: "w_pc \<sigma> = W_Held \<Longrightarrow> worker_step h \<sigma> (\<sigma>\<lparr>w_pc := W_Waiting, mutex_owner := None\<rparr>)"
| relock: "w_pc \<sigma> = W_Woken \<Longrightarrow> mutex_owner \<sigma> = None \<Longrightarrow>
    worker_step h \<sigma> (\<sigma>\<lparr>w_pc := W_Awake, mutex_owner := Some Worker\<rparr>)"
| unlock: "w_pc \<sigma> = W_Awake \<Longrightarrow> worker_step h \<sigma> (\<sigma>\<lparr>w_pc := W_Run, mutex_owner := None\<rparr>)"
| run: "w_pc \<sigma> = W_Run \<Longrightarrow>
    worker_step h \<sigma> (\<sigma>\<lparr>w_pc := W_Check, machine := h (machine \<sigma>)\<rparr>)"

text \<open>The destructor: set the flag under the mutex, notify, join.\<close>

inductive dtor_step :: "'s wsys \<Rightarrow> 's wsys \<Rightarrow> bool" where
  d_lock: "d_pc \<sigma> = D_None \<Longrightarrow> mutex_owner \<sigma> = None \<Longrightarrow>
    dtor_step \<sigma> (\<sigma>\<lparr>d_pc := D_Locked, mutex_owner := Some Destructor\<rparr>)"
| d_set: "d_pc \<sigma> = D_Locked \<Longrightarrow> dtor_step \<sigma> (\<sigma>\<lparr>d_pc := D_Set, shutdown := True\<rparr>)"
| d_unlock: "d_pc \<sigma> = D_Set \<Longrightarrow>
    dtor_step \<sigma> (\<sigma>\<lparr>d_pc := D_Unlocked, mutex_owner := None\<rparr>)"
| d_notify: "d_pc \<sigma> = D_Unlocked \<Longrightarrow> dtor_step \<sigma> ((notify_worker \<sigma>)\<lparr>d_pc := D_Join\<rparr>)"
| d_join: "d_pc \<sigma> = D_Join \<Longrightarrow> w_pc \<sigma> = W_Exit \<Longrightarrow> dtor_step \<sigma> (\<sigma>\<lparr>d_pc := D_Joined\<rparr>)"

text \<open>
  The environment: a client's write changes the register at once; the subscription reports the
  change later, by \<open>SubscriptionClient::DataChange\<close> (\<open>callback\<close>), one change at a time or several
  at once. \<open>pending\<close> counts the changes that have not been reported.
\<close>

inductive env_step :: "('s \<Rightarrow> 's) \<Rightarrow> 's wsys \<Rightarrow> 's wsys \<Rightarrow> bool" for wr where
  client_write: "env_step wr \<sigma> (\<sigma>\<lparr>pending := Suc (pending \<sigma>), machine := wr (machine \<sigma>)\<rparr>)"
| callback: "k < pending \<sigma> \<Longrightarrow> env_step wr \<sigma> (notify_worker (\<sigma>\<lparr>pending := k\<rparr>))"
| spurious: "w_pc \<sigma> = W_Waiting \<Longrightarrow> env_step wr \<sigma> (\<sigma>\<lparr>w_pc := W_Woken\<rparr>)"

inductive wreach :: "('s \<Rightarrow> 's) \<Rightarrow> ('s \<Rightarrow> 's) set \<Rightarrow> 's \<Rightarrow> 's wsys \<Rightarrow> bool" for h ws m where
  start: "wreach h ws m (wsys_init m)"
| by_worker: "wreach h ws m \<sigma> \<Longrightarrow> worker_step h \<sigma> \<tau> \<Longrightarrow> wreach h ws m \<tau>"
| by_dtor: "wreach h ws m \<sigma> \<Longrightarrow> dtor_step \<sigma> \<tau> \<Longrightarrow> wreach h ws m \<tau>"
| by_env: "wreach h ws m \<sigma> \<Longrightarrow> wr \<in> ws \<Longrightarrow> env_step wr \<sigma> \<tau> \<Longrightarrow> wreach h ws m \<tau>"

inductive_simps worker_step_waiting: "worker_step h \<lparr>w_pc = W_Waiting, d_pc = d, shutdown = b,
    mutex_owner = q, pending = k, machine = m\<rparr> \<tau>"
inductive_simps dtor_step_join: "dtor_step \<lparr>w_pc = p, d_pc = D_Join, shutdown = b,
    mutex_owner = q, pending = k, machine = m\<rparr> \<tau>"

section \<open>Invariant\<close>

text \<open>Who holds the mutex, and what the two threads know of each other.\<close>

definition worker_inv :: "'s wsys \<Rightarrow> bool" where
  "worker_inv \<sigma> \<longleftrightarrow>
     (mutex_owner \<sigma> = Some Worker \<longleftrightarrow> w_pc \<sigma> \<in> {W_Held, W_Awake})
   \<and> (mutex_owner \<sigma> = Some Destructor \<longleftrightarrow> d_pc \<sigma> \<in> {D_Locked, D_Set})
   \<and> (shutdown \<sigma> \<longleftrightarrow> d_pc \<sigma> \<notin> {D_None, D_Locked})
   \<and> (w_pc \<sigma> = W_Exit \<longrightarrow> shutdown \<sigma>)
   \<and> (d_pc \<sigma> = D_Joined \<longrightarrow> w_pc \<sigma> = W_Exit)"

lemma worker_inv_init: "worker_inv (wsys_init m)"
  by (simp add: worker_inv_def wsys_init_def)

lemma worker_step_inv: "worker_step h \<sigma> \<tau> \<Longrightarrow> worker_inv \<sigma> \<Longrightarrow> worker_inv \<tau>"
  by (induction rule: worker_step.induct) (auto simp: worker_inv_def)

lemma dtor_step_inv: "dtor_step \<sigma> \<tau> \<Longrightarrow> worker_inv \<sigma> \<Longrightarrow> worker_inv \<tau>"
  by (induction rule: dtor_step.induct) (auto simp: worker_inv_def notify_worker_def)

lemma env_step_inv: "env_step wr \<sigma> \<tau> \<Longrightarrow> worker_inv \<sigma> \<Longrightarrow> worker_inv \<tau>"
  by (induction rule: env_step.induct) (auto simp: worker_inv_def notify_worker_def)

lemma wreach_inv: "wreach h ws m \<sigma> \<Longrightarrow> worker_inv \<sigma>"
  by (induction rule: wreach.induct)
    (auto intro: worker_inv_init worker_step_inv dtor_step_inv env_step_inv)

section \<open>Runs of the worker\<close>

lemma waiting_reachable:
  "wreach h ws m \<lparr>w_pc = W_Waiting, d_pc = D_None, shutdown = False, mutex_owner = None,
                   pending = 0, machine = m\<rparr>"
proof -
  have "wreach h ws m ((wsys_init m)\<lparr>w_pc := W_Lock\<rparr>)"
    by (rule wreach.by_worker [OF wreach.start worker_step.check_go]) (simp_all add: wsys_init_def)
  from wreach.by_worker [OF this worker_step.lock]
  have "wreach h ws m ((wsys_init m)\<lparr>w_pc := W_Held, mutex_owner := Some Worker\<rparr>)"
    by (simp add: wsys_init_def)
  from wreach.by_worker [OF this worker_step.wait] show ?thesis
    by (simp add: wsys_init_def)
qed

text \<open>The worker's steps from a wake-up to the next test of the flag are determined.\<close>

lemma woken_runs:
  assumes "w_pc \<sigma> = W_Woken" and "mutex_owner \<sigma> = None"
  shows "(worker_step h)\<^sup>*\<^sup>* \<sigma> (\<sigma>\<lparr>w_pc := W_Check, machine := h (machine \<sigma>)\<rparr>)"
proof -
  let ?a = "\<sigma>\<lparr>w_pc := W_Awake, mutex_owner := Some Worker\<rparr>"
  let ?b = "?a\<lparr>w_pc := W_Run, mutex_owner := None\<rparr>"
  let ?c = "?b\<lparr>w_pc := W_Check, machine := h (machine ?b)\<rparr>"
  have 1: "worker_step h \<sigma> ?a" using assms by (rule worker_step.relock)
  have 2: "worker_step h ?a ?b" by (rule worker_step.unlock) simp
  have 3: "worker_step h ?b ?c" by (rule worker_step.run) simp
  have eq: "?c = \<sigma>\<lparr>w_pc := W_Check, machine := h (machine \<sigma>)\<rparr>"
    using assms(2) by (cases \<sigma>) simp
  have "(worker_step h)\<^sup>*\<^sup>* \<sigma> ?c"
    using 1 2 3 by (meson r_into_rtranclp rtranclp.rtrancl_into_rtrancl)
  then show ?thesis unfolding eq .
qed

section \<open>Destruction\<close>

text \<open>
  Runs with the number of steps that the worker and the destructor take; the environment's
  steps are not counted.
\<close>

inductive wrun :: "('s \<Rightarrow> 's) \<Rightarrow> ('s \<Rightarrow> 's) set \<Rightarrow> nat \<Rightarrow> 's wsys \<Rightarrow> 's wsys \<Rightarrow> bool" for h ws where
  run_none: "wrun h ws 0 \<sigma> \<sigma>"
| run_worker: "wrun h ws n \<sigma> \<tau> \<Longrightarrow> worker_step h \<tau> \<rho> \<Longrightarrow> wrun h ws (Suc n) \<sigma> \<rho>"
| run_dtor: "wrun h ws n \<sigma> \<tau> \<Longrightarrow> dtor_step \<tau> \<rho> \<Longrightarrow> wrun h ws (Suc n) \<sigma> \<rho>"
| run_env: "wrun h ws n \<sigma> \<tau> \<Longrightarrow> wr \<in> ws \<Longrightarrow> env_step wr \<tau> \<rho> \<Longrightarrow> wrun h ws n \<sigma> \<rho>"

definition blocked :: "('s \<Rightarrow> 's) \<Rightarrow> 's wsys \<Rightarrow> bool" where
  "blocked h \<sigma> \<longleftrightarrow> (\<nexists>\<tau>. worker_step h \<sigma> \<tau> \<or> dtor_step \<sigma> \<tau>)"

text \<open>
  After the flag is set, a worker that is not on its way into the wait keeps out of it, and if
  it waits then the notification is still to come.
\<close>

definition shutdown_seen :: "'s wsys \<Rightarrow> bool" where
  "shutdown_seen \<sigma> \<longleftrightarrow> worker_inv \<sigma> \<and> shutdown \<sigma> \<and> w_pc \<sigma> \<notin> {W_Lock, W_Held}
     \<and> (w_pc \<sigma> = W_Waiting \<longrightarrow> d_pc \<sigma> \<in> {D_Set, D_Unlocked})"

fun worker_rank :: "worker_pc \<Rightarrow> nat" where
  "worker_rank W_Exit = 0" | "worker_rank W_Check = 1" | "worker_rank W_Run = 2"
| "worker_rank W_Awake = 3" | "worker_rank W_Woken = 4" | "worker_rank W_Waiting = 4"
| "worker_rank W_Held = 5" | "worker_rank W_Lock = 6"

fun dtor_rank :: "dtor_pc \<Rightarrow> nat" where
  "dtor_rank D_Joined = 0" | "dtor_rank D_Join = 1" | "dtor_rank D_Unlocked = 2"
| "dtor_rank D_Set = 3" | "dtor_rank D_Locked = 4" | "dtor_rank D_None = 5"

definition shutdown_rank :: "'s wsys \<Rightarrow> nat" where
  "shutdown_rank \<sigma> = worker_rank (w_pc \<sigma>) + dtor_rank (d_pc \<sigma>)"

lemma shutdown_seen_worker:
  "worker_step h \<sigma> \<tau> \<Longrightarrow> shutdown_seen \<sigma> \<Longrightarrow>
     shutdown_seen \<tau> \<and> shutdown_rank \<tau> < shutdown_rank \<sigma>"
  by (induction rule: worker_step.induct)
    (auto simp: shutdown_seen_def shutdown_rank_def worker_inv_def)

lemma shutdown_seen_dtor:
  "dtor_step \<sigma> \<tau> \<Longrightarrow> shutdown_seen \<sigma> \<Longrightarrow>
     shutdown_seen \<tau> \<and> shutdown_rank \<tau> < shutdown_rank \<sigma>"
  by (induction rule: dtor_step.induct)
    (auto simp: shutdown_seen_def shutdown_rank_def worker_inv_def notify_worker_def)

lemma shutdown_seen_env:
  "env_step wr \<sigma> \<tau> \<Longrightarrow> shutdown_seen \<sigma> \<Longrightarrow>
     shutdown_seen \<tau> \<and> shutdown_rank \<tau> \<le> shutdown_rank \<sigma>"
  by (induction rule: env_step.induct)
    (auto simp: shutdown_seen_def shutdown_rank_def worker_inv_def notify_worker_def)

lemma shutdown_seen_run:
  "wrun h ws n \<sigma> \<tau> \<Longrightarrow> shutdown_seen \<sigma> \<Longrightarrow>
     shutdown_seen \<tau> \<and> n + shutdown_rank \<tau> \<le> shutdown_rank \<sigma>"
  by (induction rule: wrun.induct)
    (auto dest: shutdown_seen_worker shutdown_seen_dtor shutdown_seen_env)

lemma owner_cases: "q = None \<or> q = Some Worker \<or> q = Some Destructor"
  by (cases q; cases "the q") auto

lemma shutdown_seen_blocked:
  assumes "shutdown_seen \<sigma>" and "blocked h \<sigma>"
  shows "d_pc \<sigma> = D_Joined \<and> w_pc \<sigma> = W_Exit \<and> mutex_owner \<sigma> = None"
proof -
  have no: "\<not> worker_step h \<sigma> \<tau>" "\<not> dtor_step \<sigma> \<tau>" for \<tau>
    using assms(2) by (auto simp: blocked_def)
  have inv: "worker_inv \<sigma>" "shutdown \<sigma>" "w_pc \<sigma> \<noteq> W_Lock" "w_pc \<sigma> \<noteq> W_Held"
    "w_pc \<sigma> = W_Waiting \<Longrightarrow> d_pc \<sigma> \<in> {D_Set, D_Unlocked}"
    using assms(1) by (auto simp: shutdown_seen_def)
  have d: "d_pc \<sigma> = D_Joined \<or> d_pc \<sigma> = D_Join"
  proof (cases "d_pc \<sigma>")
    case D_Set with no(2) dtor_step.d_unlock show ?thesis by blast
  next
    case D_Unlocked with no(2) dtor_step.d_notify show ?thesis by blast
  qed (use inv(1,2) in \<open>auto simp: worker_inv_def\<close>)
  then have owner: "mutex_owner \<sigma> \<noteq> Some Destructor"
    using inv(1) by (auto simp: worker_inv_def)
  have w: "w_pc \<sigma> = W_Exit \<or> w_pc \<sigma> = W_Woken \<and> mutex_owner \<sigma> \<noteq> None"
  proof (cases "w_pc \<sigma>")
    case W_Check with no(1) inv(2) worker_step.check_exit show ?thesis by blast
  next
    case W_Woken with no(1) worker_step.relock show ?thesis by blast
  next
    case W_Awake with no(1) worker_step.unlock show ?thesis by blast
  next
    case W_Run with no(1) worker_step.run show ?thesis by blast
  qed (use inv d in auto)
  have worker: "mutex_owner \<sigma> = Some Worker \<longleftrightarrow> w_pc \<sigma> \<in> {W_Held, W_Awake}"
    using inv(1) by (simp add: worker_inv_def)
  have exit: "w_pc \<sigma> = W_Exit" and free: "mutex_owner \<sigma> = None"
    using owner w worker owner_cases [of "mutex_owner \<sigma>"] by auto
  moreover have "d_pc \<sigma> \<noteq> D_Join" using no(2) dtor_step.d_join [OF _ exit] by blast
  ultimately show ?thesis using d by blast
qed

text \<open>Without the environment, the handler runs at most once more.\<close>

definition handled_once :: "('s \<Rightarrow> 's) \<Rightarrow> 's \<Rightarrow> 's wsys \<Rightarrow> bool" where
  "handled_once h m \<tau> \<longleftrightarrow> machine \<tau> = m
     \<or> machine \<tau> = h m \<and> w_pc \<tau> \<in> {W_Check, W_Exit}"

lemma handled_once_worker:
  "worker_step h \<tau> \<rho> \<Longrightarrow> shutdown_seen \<tau> \<Longrightarrow> handled_once h m \<tau> \<Longrightarrow> handled_once h m \<rho>"
  by (induction rule: worker_step.induct) (auto simp: handled_once_def shutdown_seen_def)

lemma handled_once_dtor:
  "dtor_step \<tau> \<rho> \<Longrightarrow> handled_once h m \<tau> \<Longrightarrow> handled_once h m \<rho>"
  by (induction rule: dtor_step.induct) (auto simp: handled_once_def notify_worker_def)

lemma shutdown_seen_commands:
  "wrun h ws n \<sigma> \<tau> \<Longrightarrow> ws = {} \<Longrightarrow> shutdown_seen \<sigma> \<Longrightarrow> handled_once h (machine \<sigma>) \<tau>"
proof (induction rule: wrun.induct)
  case (run_worker n \<sigma> \<tau> \<rho>)
  have "shutdown_seen \<tau>" using shutdown_seen_run run_worker.hyps(1) run_worker.prems(2) by blast
  with run_worker show ?case by (blast intro: handled_once_worker)
qed (auto simp: handled_once_def [where \<tau> = \<sigma> and m = "machine \<sigma>" for \<sigma>] intro: handled_once_dtor)

lemma blocked_waiting:
  "blocked h \<lparr>w_pc = W_Waiting, d_pc = D_Join, shutdown = b, mutex_owner = q, pending = k,
              machine = m\<rparr>"
  by (simp add: blocked_def worker_step_waiting dtor_step_join)

text \<open>A worker that has tested the flag before it was set misses the notification.\<close>

lemma late_worker_blocks:
  assumes "w_pc \<sigma> = W_Lock" and "d_pc \<sigma> = D_Set"
  shows "wrun h ws 4 \<sigma> (\<sigma>\<lparr>w_pc := W_Waiting, d_pc := D_Join, mutex_owner := None\<rparr>)"
proof -
  have "wrun h ws 1 \<sigma> (\<sigma>\<lparr>d_pc := D_Unlocked, mutex_owner := None\<rparr>)"
    using wrun.run_dtor [OF wrun.run_none dtor_step.d_unlock [OF assms(2)]] by simp
  from wrun.run_dtor [OF this dtor_step.d_notify] assms(1)
  have "wrun h ws 2 \<sigma> (\<sigma>\<lparr>d_pc := D_Join, mutex_owner := None\<rparr>)"
    by (cases \<sigma>) (simp add: notify_worker_def numeral_2_eq_2)
  from wrun.run_worker [OF this worker_step.lock] assms(1)
  have "wrun h ws 3 \<sigma> (\<sigma>\<lparr>w_pc := W_Held, d_pc := D_Join, mutex_owner := Some Worker\<rparr>)"
    by (cases \<sigma>) (simp add: numeral_3_eq_3 numeral_2_eq_2)
  from wrun.run_worker [OF this worker_step.wait] show ?thesis
    by (cases \<sigma>) (simp add: eval_nat_numeral)
qed

text \<open>
  A command that a client writes while the worker waits is processed: from every reachable
  state in which the worker waits and the destructor does not hold the mutex, the write and its
  report are followed by worker steps that apply the handler to exactly the written command.
\<close>

theorem command_while_waiting_processed:
  assumes "wreach h ws m \<sigma>" and "w_pc \<sigma> = W_Waiting" and "d_pc \<sigma> \<notin> {D_Locked, D_Set}"
  shows "\<exists>\<rho> \<tau> \<tau>'. env_step wr \<sigma> \<rho> \<and> machine \<rho> = wr (machine \<sigma>) \<and> env_step wr \<rho> \<tau>
    \<and> (worker_step h)\<^sup>*\<^sup>* \<tau> \<tau>' \<and> machine \<tau>' = h (wr (machine \<sigma>)) \<and> w_pc \<tau>' = W_Check"
proof -
  let ?r = "\<sigma>\<lparr>pending := Suc (pending \<sigma>), machine := wr (machine \<sigma>)\<rparr>"
  let ?t = "notify_worker (?r\<lparr>pending := pending \<sigma>\<rparr>)"
  have "worker_inv \<sigma>" using assms(1) by (rule wreach_inv)
  then have "mutex_owner \<sigma> = None"
    using assms(2,3) owner_cases [of "mutex_owner \<sigma>"] by (auto simp: worker_inv_def)
  then have t: "w_pc ?t = W_Woken" "mutex_owner ?t = None" "machine ?t = wr (machine \<sigma>)"
    using assms(2) by (simp_all add: notify_worker_def)
  have "(worker_step h)\<^sup>*\<^sup>* ?t (?t\<lparr>w_pc := W_Check, machine := h (machine ?t)\<rparr>)"
    using t(1,2) by (rule woken_runs)
  moreover have "env_step wr \<sigma> ?r" by (rule env_step.client_write)
  moreover have "env_step wr ?r ?t" by (rule env_step.callback) simp
  ultimately show ?thesis using t(3)
    by (intro exI [of _ ?r] exI [of _ ?t] exI [of _ "?t\<lparr>w_pc := W_Check, machine := h (machine ?t)\<rparr>"])
      simp
qed

text \<open>A worker that waits, with a number for a machine.\<close>

definition waiting_at :: "'s \<Rightarrow> 's wsys" where
  "waiting_at m = \<lparr>w_pc = W_Waiting, d_pc = D_None, shutdown = False, mutex_owner = None,
                   pending = 0, machine = m\<rparr>"

theorem command_while_waiting_processed_witness:
  "\<exists>\<rho> \<tau> \<tau>'. env_step (\<lambda>x. x + 1) (waiting_at (3::nat)) \<rho> \<and> machine \<rho> = 4
    \<and> env_step (\<lambda>x. x + 1) \<rho> \<tau> \<and> (worker_step (\<lambda>x. 7 * x))\<^sup>*\<^sup>* \<tau> \<tau>' \<and> machine \<tau>' = 28
    \<and> w_pc \<tau>' = W_Check"
  using command_while_waiting_processed
    [OF waiting_reachable [of "\<lambda>x. 7 * x" "{}" "3::nat"], of "\<lambda>x. x + 1"]
  by (simp add: waiting_at_def)

text \<open>The destructor locks and sets the flag while the worker waits.\<close>

lemma set_while_waiting_reachable:
  "wreach h ws m ((waiting_at m)\<lparr>d_pc := D_Set, shutdown := True, mutex_owner := Some Destructor\<rparr>)"
proof -
  have "wreach h ws m ((waiting_at m)\<lparr>d_pc := D_Locked, mutex_owner := Some Destructor\<rparr>)"
    using wreach.by_dtor [OF waiting_reachable dtor_step.d_lock] by (simp add: waiting_at_def)
  from wreach.by_dtor [OF this dtor_step.d_set] show ?thesis
    by (simp add: waiting_at_def)
qed

text \<open>The destructor locks and sets the flag after the worker has tested it.\<close>

definition locking_at :: "'s \<Rightarrow> 's wsys" where
  "locking_at m = \<lparr>w_pc = W_Lock, d_pc = D_Set, shutdown = True,
                   mutex_owner = Some Destructor, pending = 0, machine = m\<rparr>"

lemma set_while_locking_reachable: "wreach h ws m (locking_at m)"
proof -
  have "wreach h ws m ((wsys_init m)\<lparr>w_pc := W_Lock\<rparr>)"
    by (rule wreach.by_worker [OF wreach.start worker_step.check_go]) (simp_all add: wsys_init_def)
  from wreach.by_dtor [OF this dtor_step.d_lock]
  have "wreach h ws m ((wsys_init m)\<lparr>w_pc := W_Lock, d_pc := D_Locked,
                                      mutex_owner := Some Destructor\<rparr>)"
    by (simp add: wsys_init_def)
  from wreach.by_dtor [OF this dtor_step.d_set] show ?thesis
    by (simp add: wsys_init_def locking_at_def)
qed

text \<open>The destruction of a waiting worker: seven steps, with a command that is still run.\<close>

lemma destruction_run:
  "wrun h {} 7 ((waiting_at m)\<lparr>d_pc := D_Set, shutdown := True, mutex_owner := Some Destructor\<rparr>)
     ((waiting_at (h m))\<lparr>w_pc := W_Exit, d_pc := D_Joined, shutdown := True\<rparr>)"
proof -
  let ?s = "(waiting_at m)\<lparr>d_pc := D_Set, shutdown := True, mutex_owner := Some Destructor\<rparr>"
  have "wrun h {} (Suc 0) ?s ((waiting_at m)\<lparr>d_pc := D_Unlocked, shutdown := True\<rparr>)"
    using wrun.run_dtor [OF wrun.run_none [of h "{}" ?s] dtor_step.d_unlock]
    by (simp add: waiting_at_def)
  from wrun.run_dtor [OF this dtor_step.d_notify]
  have "wrun h {} (Suc (Suc 0)) ?s ((waiting_at m)\<lparr>w_pc := W_Woken, d_pc := D_Join, shutdown := True\<rparr>)"
    by (simp add: waiting_at_def notify_worker_def)
  from wrun.run_worker [OF this worker_step.relock]
  have "wrun h {} (Suc (Suc (Suc 0))) ?s ((waiting_at m)\<lparr>w_pc := W_Awake, d_pc := D_Join,
          shutdown := True, mutex_owner := Some Worker\<rparr>)"
    by (simp add: waiting_at_def)
  from wrun.run_worker [OF this worker_step.unlock]
  have "wrun h {} (Suc (Suc (Suc (Suc 0)))) ?s
          ((waiting_at m)\<lparr>w_pc := W_Run, d_pc := D_Join, shutdown := True\<rparr>)"
    by (simp add: waiting_at_def)
  from wrun.run_worker [OF this worker_step.run]
  have "wrun h {} (Suc (Suc (Suc (Suc (Suc 0))))) ?s
          ((waiting_at (h m))\<lparr>w_pc := W_Check, d_pc := D_Join, shutdown := True\<rparr>)"
    by (simp add: waiting_at_def)
  from wrun.run_worker [OF this worker_step.check_exit]
  have "wrun h {} (Suc (Suc (Suc (Suc (Suc (Suc 0)))))) ?s
          ((waiting_at (h m))\<lparr>w_pc := W_Exit, d_pc := D_Join, shutdown := True\<rparr>)"
    by (simp add: waiting_at_def)
  from wrun.run_dtor [OF this dtor_step.d_join] show ?thesis
    by (simp add: waiting_at_def eval_nat_numeral)
qed

lemma joined_blocked:
  "blocked h ((waiting_at m)\<lparr>w_pc := W_Exit, d_pc := D_Joined, shutdown := True\<rparr>)"
  by (auto simp: blocked_def waiting_at_def elim: worker_step.cases dtor_step.cases)

text \<open>
  C5 Destruction of a machine. Take any reachable state in which the destructor has just set
  the shutdown flag and still holds the mutex. If the worker is not between its test of the
  flag and its lock, the destruction comes to its end whatever the interleaving and whatever
  the clients do meanwhile: worker and destructor together take at most seven more steps, the
  worker has left its loop when the destructor has joined it, and a state in which neither can move is the one in which the worker has left its loop, the
  destructor has joined it and the mutex is free; if no client writes, the handler has run at
  most once more. If the worker is between the test and the lock, four more steps lead to a
  state in which it waits, the destructor joins, and neither can move.
\<close>

theorem worker_shutdown_safe:
  assumes "wreach h ws m \<sigma>" and "d_pc \<sigma> = D_Set"
  shows "(w_pc \<sigma> \<noteq> W_Lock \<longrightarrow> (\<forall>n \<tau>. wrun h ws n \<sigma> \<tau> \<longrightarrow> n \<le> 7
            \<and> (d_pc \<tau> = D_Joined \<longrightarrow> w_pc \<tau> = W_Exit)
            \<and> (blocked h \<tau> \<longrightarrow> d_pc \<tau> = D_Joined \<and> w_pc \<tau> = W_Exit \<and> mutex_owner \<tau> = None)))
    \<and> (w_pc \<sigma> \<noteq> W_Lock \<longrightarrow> (\<forall>n \<tau>. wrun h {} n \<sigma> \<tau> \<longrightarrow>
            machine \<tau> = machine \<sigma> \<or> machine \<tau> = h (machine \<sigma>)))
    \<and> (w_pc \<sigma> = W_Lock \<longrightarrow> (\<exists>\<tau>. wrun h ws 4 \<sigma> \<tau> \<and> d_pc \<tau> = D_Join \<and> w_pc \<tau> = W_Waiting
            \<and> blocked h \<tau>))"
proof (cases "w_pc \<sigma> = W_Lock")
  case True
  let ?t = "\<sigma>\<lparr>w_pc := W_Waiting, d_pc := D_Join, mutex_owner := None\<rparr>"
  have "blocked h ?t" using blocked_waiting by (cases \<sigma>) simp
  moreover have "wrun h ws 4 \<sigma> ?t" using True assms(2) by (rule late_worker_blocks)
  ultimately show ?thesis using True by (auto intro!: exI [of _ ?t])
next
  case False
  have "worker_inv \<sigma>" using assms(1) by (rule wreach_inv)
  with False assms(2) have s: "shutdown_seen \<sigma>"
    by (auto simp: shutdown_seen_def worker_inv_def)
  then have r: "shutdown_rank \<sigma> \<le> 7"
    using assms(2) by (cases "w_pc \<sigma>") (auto simp: shutdown_seen_def shutdown_rank_def)
  have "n \<le> 7 \<and> (d_pc \<tau> = D_Joined \<longrightarrow> w_pc \<tau> = W_Exit)
      \<and> (blocked h \<tau> \<longrightarrow> d_pc \<tau> = D_Joined \<and> w_pc \<tau> = W_Exit \<and> mutex_owner \<tau> = None)"
    if "wrun h ws n \<sigma> \<tau>" for n \<tau>
  proof (intro conjI impI)
    have seen: "shutdown_seen \<tau>" and "n + shutdown_rank \<tau> \<le> shutdown_rank \<sigma>"
      using shutdown_seen_run [OF that s] by auto
    then show "n \<le> 7" using r by linarith
    show "w_pc \<tau> = W_Exit" if "d_pc \<tau> = D_Joined"
      using seen that by (simp add: shutdown_seen_def worker_inv_def)
    assume "blocked h \<tau>"
    from shutdown_seen_blocked [OF seen this]
    show "d_pc \<tau> = D_Joined" "w_pc \<tau> = W_Exit" "mutex_owner \<tau> = None" by auto
  qed
  moreover have "machine \<tau> = machine \<sigma> \<or> machine \<tau> = h (machine \<sigma>)" if "wrun h {} n \<sigma> \<tau>" for n \<tau>
    using shutdown_seen_commands [OF that refl s] by (auto simp: handled_once_def)
  ultimately show ?thesis using False by blast
qed

theorem worker_shutdown_safe_witness:
  "(\<exists>\<tau>. wrun Suc {} 7 ((waiting_at (9::nat))\<lparr>d_pc := D_Set, shutdown := True,
                mutex_owner := Some Destructor\<rparr>) \<tau>
        \<and> d_pc \<tau> = D_Joined \<and> w_pc \<tau> = W_Exit \<and> machine \<tau> = 10)
   \<and> (\<exists>\<tau>. wrun Suc {} 4 (locking_at (9::nat)) \<tau> \<and> d_pc \<tau> = D_Join \<and> w_pc \<tau> = W_Waiting
        \<and> blocked Suc \<tau>)"
proof -
  let ?t = "(waiting_at (10::nat))\<lparr>w_pc := W_Exit, d_pc := D_Joined, shutdown := True\<rparr>"
  have run: "wrun Suc {} 7
      ((waiting_at (9::nat))\<lparr>d_pc := D_Set, shutdown := True, mutex_owner := Some Destructor\<rparr>) ?t"
    using destruction_run [of Suc 9] by simp
  have "d_pc ?t = D_Joined \<and> w_pc ?t = W_Exit"
    using worker_shutdown_safe [OF set_while_waiting_reachable [of Suc "{}" "9::nat"]] run
      joined_blocked [of Suc "10::nat"] by (simp add: waiting_at_def)
  moreover have "\<exists>\<tau>. wrun Suc {} 4 (locking_at (9::nat)) \<tau> \<and> d_pc \<tau> = D_Join
      \<and> w_pc \<tau> = W_Waiting \<and> blocked Suc \<tau>"
    using worker_shutdown_safe [OF set_while_locking_reachable [of Suc "{}" "9::nat"]]
    by (simp add: locking_at_def)
  moreover have "machine ?t = 10" by (simp add: waiting_at_def)
  ultimately show ?thesis using run by blast
qed

section \<open>Lost notifications\<close>

lemma worker_step_waiting_none:
  "w_pc \<sigma> = W_Waiting \<Longrightarrow> \<not> worker_step h \<sigma> \<tau>"
  by (auto elim: worker_step.cases)

text \<open>The destructor runs between the worker's test of the flag and its wait.\<close>

lemma lost_shutdown_reachable:
  "wreach h ws m \<lparr>w_pc = W_Waiting, d_pc = D_Join, shutdown = True, mutex_owner = None,
                   pending = 0, machine = m\<rparr>"
proof -
  have "wreach h ws m ((locking_at m)\<lparr>d_pc := D_Unlocked, mutex_owner := None\<rparr>)"
    using wreach.by_dtor [OF set_while_locking_reachable dtor_step.d_unlock]
    by (simp add: locking_at_def)
  from wreach.by_dtor [OF this dtor_step.d_notify]
  have "wreach h ws m ((locking_at m)\<lparr>d_pc := D_Join, mutex_owner := None\<rparr>)"
    by (simp add: locking_at_def notify_worker_def)
  from wreach.by_worker [OF this worker_step.lock]
  have "wreach h ws m ((locking_at m)\<lparr>w_pc := W_Held, d_pc := D_Join, mutex_owner := Some Worker\<rparr>)"
    by (simp add: locking_at_def)
  from wreach.by_worker [OF this worker_step.wait] show ?thesis
    by (simp add: locking_at_def)
qed

text \<open>A client writes while the worker is busy with an earlier command.\<close>

lemma lost_command_reachable:
  assumes "wr \<in> ws"
  shows "wreach h ws m \<lparr>w_pc = W_Waiting, d_pc = D_None, shutdown = False, mutex_owner = None,
                         pending = 0, machine = wr (h (wr m))\<rparr>"
proof -
  let ?base = "\<lparr>w_pc = W_Waiting, d_pc = D_None, shutdown = False, mutex_owner = None,
                pending = 0, machine = m\<rparr>"
  have "wreach h ws m (?base\<lparr>pending := 1, machine := wr m\<rparr>)"
    using wreach.by_env [OF waiting_reachable assms env_step.client_write] by simp
  from wreach.by_env [OF this assms env_step.callback [where k = 0]]
  have "wreach h ws m (?base\<lparr>w_pc := W_Woken, machine := wr m\<rparr>)"
    by (simp add: notify_worker_def)
  from wreach.by_worker [OF this worker_step.relock]
  have "wreach h ws m (?base\<lparr>w_pc := W_Awake, mutex_owner := Some Worker, machine := wr m\<rparr>)"
    by simp
  from wreach.by_worker [OF this worker_step.unlock]
  have "wreach h ws m (?base\<lparr>w_pc := W_Run, machine := wr m\<rparr>)" by simp
  from wreach.by_worker [OF this worker_step.run]
  have "wreach h ws m (?base\<lparr>w_pc := W_Check, machine := h (wr m)\<rparr>)" by simp
  from wreach.by_env [OF this assms env_step.client_write]
  have "wreach h ws m (?base\<lparr>w_pc := W_Check, pending := 1, machine := wr (h (wr m))\<rparr>)"
    by simp
  from wreach.by_env [OF this assms env_step.callback [where k = 0]]
  have "wreach h ws m (?base\<lparr>w_pc := W_Check, machine := wr (h (wr m))\<rparr>)"
    by (simp add: notify_worker_def)
  from wreach.by_worker [OF this worker_step.check_go]
  have "wreach h ws m (?base\<lparr>w_pc := W_Lock, machine := wr (h (wr m))\<rparr>)" by simp
  from wreach.by_worker [OF this worker_step.lock]
  have "wreach h ws m (?base\<lparr>w_pc := W_Held, mutex_owner := Some Worker,
                             machine := wr (h (wr m))\<rparr>)" by simp
  from wreach.by_worker [OF this worker_step.wait] show ?thesis by simp
qed

text \<open>
  C6 A notification that finds the worker not waiting is lost. The destructor can so block for
  ever: there is a reachable state in which it has notified and joins, the worker waits with
  the shutdown flag set, and neither of the two can move. In the same way a command written
  while the worker is busy stays unprocessed: there is a reachable state in which the last
  write has not been handled, no report of a change is pending and the worker, waiting, cannot
  move.
\<close>

theorem notification_lost:
  "(\<exists>\<sigma>. wreach h {wr} m \<sigma> \<and> d_pc \<sigma> = D_Join \<and> shutdown \<sigma> \<and> w_pc \<sigma> = W_Waiting
        \<and> pending \<sigma> = 0 \<and> (\<nexists>\<tau>. worker_step h \<sigma> \<tau> \<or> dtor_step \<sigma> \<tau>))
   \<and> (\<exists>\<sigma>. wreach h {wr} m \<sigma> \<and> \<not> shutdown \<sigma> \<and> w_pc \<sigma> = W_Waiting
        \<and> pending \<sigma> = 0 \<and> machine \<sigma> = wr (h (wr m)) \<and> (\<nexists>\<tau>. worker_step h \<sigma> \<tau>))"
proof -
  let ?a = "\<lparr>w_pc = W_Waiting, d_pc = D_Join, shutdown = True, mutex_owner = None,
             pending = 0, machine = m\<rparr>"
  let ?b = "\<lparr>w_pc = W_Waiting, d_pc = D_None, shutdown = False, mutex_owner = None,
             pending = 0, machine = wr (h (wr m))\<rparr>"
  have "\<nexists>\<tau>. worker_step h ?a \<tau> \<or> dtor_step ?a \<tau>"
    by (simp add: worker_step_waiting dtor_step_join)
  moreover have "\<nexists>\<tau>. worker_step h ?b \<tau>"
    by (simp add: worker_step_waiting)
  moreover have "wreach h {wr} m ?a" by (rule lost_shutdown_reachable)
  moreover have "wreach h {wr} m ?b" by (rule lost_command_reachable) simp
  ultimately show ?thesis
    by (intro conjI exI [of _ ?a] exI [of _ ?b]) simp_all
qed

end
