(* ===== verification/MpsStation.thy ===== *)
theory MpsStation
  imports Mps
begin

text \<open>
  What the five stations share: the contract that \<open>worker_loop\<close> relies on when it calls the
  virtual \<open>process_command_in\<close> of a station (a locale, interpreted for each of the stations in
  its own theory), and \<open>Mps::spawn_puck\<close>, which three of them use to make a workpiece.
\<close>

section \<open>The contract of a station's command handler\<close>

text \<open>
  A client writes an action id with \<open>put\<close>; the handler may raise. A handler does nothing when
  there is no command and nothing for a command of another type of station.
\<close>

locale station_handler =
  fixes handle :: "'env \<Rightarrow> 's \<Rightarrow> 'x + 's"
    and action :: "'s \<Rightarrow> u16"
    and type_of :: "'s \<Rightarrow> nat"
    and put :: "u16 \<Rightarrow> 's \<Rightarrow> 's"
  assumes handle_idle: "action s = 0 \<Longrightarrow> handle e s = Inr s"
    and handle_foreign:
      "calculate_station_type_from_command (action s) \<noteq> type_of s \<Longrightarrow> handle e s = Inr s"
    and action_put: "action (put v s) = v"
    and type_put: "type_of (put v s) = type_of s"
begin

lemma fold_put_type: "type_of (fold put vs s) = type_of s"
  by (induction vs arbitrary: s) (simp_all add: type_put)

lemma handle_put_foreign:
  "v = 0 \<or> calculate_station_type_from_command v \<noteq> type_of s \<Longrightarrow> handle e (put v s) = Inr (put v s)"
  using handle_idle handle_foreign by (auto simp: action_put type_put)

text \<open>A run of the worker over a list of writes, each handled before the next one comes.\<close>

lemma run_foreign:
  "(\<And>v. v \<in> set vs \<Longrightarrow> v = 0 \<or> calculate_station_type_from_command v \<noteq> type_of s) \<Longrightarrow>
   foldl (\<lambda>r v. and_then r (\<lambda>s. handle e (put v s))) (Inr s) vs = Inr (fold put vs s)"
proof (induction vs arbitrary: s)
  case Nil
  then show ?case by simp
next
  case (Cons v vs)
  have "handle e (put v s) = Inr (put v s)"
    using Cons.prems by (simp add: handle_put_foreign)
  moreover have "foldl (\<lambda>r v. and_then r (\<lambda>s. handle e (put v s))) (Inr (put v s)) vs
      = Inr (fold put vs (put v s))"
    by (rule Cons.IH) (use Cons.prems in \<open>simp add: type_put\<close>)
  ultimately show ?case by simp
qed

end

text \<open>A client's write of an action id.\<close>

definition client_action :: "u16 \<Rightarrow> 'a mps_scheme \<Rightarrow> 'a mps_scheme" where
  "client_action v s = s\<lparr>opc_in := (opc_in s)\<lparr>action_id := v\<rparr>\<rparr>"

lemma client_action_simps [simp]:
  "action_id_in (client_action v s) = v" "station (client_action v s) = station s"
  by (simp_all add: client_action_def)

lemma process_idle: "action_id_in s = 0 \<Longrightarrow> process_command_in w s = s"
  by (simp add: process_command_in_unfold)

lemma process_foreign:
  "calculate_station_type_from_command (action_id_in s) \<noteq> station s \<Longrightarrow> process_command_in w s = s"
  by (simp add: process_command_in_unfold)

text \<open>The handler of the base class is one.\<close>

interpretation mps_handler: station_handler
  "\<lambda>w s. Inr (process_command_in w s)" action_id_in station client_action
  by unfold_locales (simp_all add: process_idle process_foreign)

text \<open>
  After the base class has run, a station only sees a command of its own type that is not a
  successful move: the move has cleared the register.
\<close>

lemma process_then_own:
  assumes "action_id_in (process_command_in w s) \<noteq> 0"
    and "calculate_station_type_from_command (action_id_in (process_command_in w s)) = station s"
  shows "action_id_in s = action_id_in (process_command_in w s)"
    and "process_command_in w s = s \<or> process_command_in w s = move_conveyor_begin s"
proof -
  have "action_id_in (process_command_in w s) = action_id_in s
      \<and> (process_command_in w s = s \<or> process_command_in w s = move_conveyor_begin s)"
  proof (cases "move_source (unat (payload1_in s)) s")
    case None
    then show ?thesis
      by (simp add: process_command_in_unfold move_conveyor_def move_end_None)
  next
    case (Some wp)
    then have "move_source (unat (payload1_in s)) (move_conveyor_begin s) = Some wp" by simp
    from move_end_Some(4) [OF this, of w] assms(1) show ?thesis
      by (auto simp: process_command_in_unfold move_conveyor_def)
  qed
  then show "action_id_in s = action_id_in (process_command_in w s)"
    and "process_command_in w s = s \<or> process_command_in w s = move_conveyor_begin s" by simp_all
qed

lemma process_own_command:
  assumes "valid_station (station s)"
    and "unat (action_id_in s) \<noteq> station s + OPERATION_MOVE_CONVEYOR"
  shows "process_command_in w s = s"
proof -
  note mod = valid_station_mod [OF assms(1)]
  show ?thesis
    using assms(2)
    by (auto simp: process_command_in_unfold station_type_eq_iff [OF mod])
qed

section \<open>Making a workpiece\<close>

text \<open>
  \<open>Mps::spawn_puck\<close> reads the model of a workpiece from a file, gives it a new name and color
  and publishes it. What is outside the program is a parameter: the content of the file
  (\<open>None\<close> when it cannot be opened) and the number that \<open>rand\<close> returns.
\<close>

record spawn_env =
  sdf_file :: "string option"
  rand_value :: nat

datatype spawn_error = Diverges | Erase_out_of_range

definition old_color :: string where "old_color = ''1.0 0.35 0.0 1''"

definition base_color_strings :: "color \<Rightarrow> (string \<times> string) option" where
  "base_color_strings c =
     (case c of
        RED \<Rightarrow> Some (''1.0 0.0 0.0 1'', ''RED'')
      | BLACK \<Rightarrow> Some (''0.2 0.2 0.2 1'', ''BLACK'')
      | SILVER \<Rightarrow> Some (''0.8 0.8 0.8 1'', ''SILVER'')
      | _ \<Rightarrow> None)"

definition plugin_string :: string where
  \<open>plugin_string = ''<plugin name="Puck" filename="libpuck.so"/>''\<close>

definition plugin_with_color :: "string \<Rightarrow> string" where
  \<open>plugin_with_color color_string =
     ''<plugin name="Puck" filename="libpuck.so"><baseColor>'' @ color_string
       @ ''</baseColor></plugin>''\<close>

text \<open>The loop that replaces the color as long as it is found; it need not end in general.\<close>

partial_function (option) recolor :: "string \<Rightarrow> string \<Rightarrow> string \<Rightarrow> string option" where
  "recolor old new s =
     (case str_find old s of
        None \<Rightarrow> Some s
      | Some color_pos \<Rightarrow> recolor old new (str_splice color_pos (length old) new s))"

definition spawn_puck ::
    "spawn_env \<Rightarrow> pose \<Rightarrow> color \<Rightarrow> 'a mps_scheme \<Rightarrow> spawn_error + ('a mps_scheme \<times> string)" where
  "spawn_puck e spawn_pose base_color s =
     (let new_name = ''puck_'' @ dec_str (rand_value e mod 1000000)
      in case sdf_file e of
           None \<Rightarrow> Inr (s, [])
         | Some raw_sdf \<Rightarrow>
             (case str_find ''workpiece_base'' raw_sdf of
                None \<Rightarrow> Inr (s, [])
              | Some name_pos \<Rightarrow>
                  (let new_sdf = str_splice name_pos (length ''workpiece_base'') new_name raw_sdf
                   in case base_color_strings base_color of
                        None \<Rightarrow> Inr (s, [])
                      | Some (new_color, color_string) \<Rightarrow>
                          (case recolor old_color new_color new_sdf of
                             None \<Rightarrow> Inl Diverges
                           | Some new_sdf \<Rightarrow>
                               (case str_find plugin_string new_sdf of
                                  None \<Rightarrow> Inl Erase_out_of_range
                                | Some string_pos \<Rightarrow>
                                    Inr (emit (PubFactory
                                           (str_splice string_pos (length plugin_string)
                                              (plugin_with_color color_string) new_sdf)
                                           new_name spawn_pose) s,
                                         new_name))))))"

text \<open>
  The loop ends because each of its rounds removes a digit 3, which the old color has and the
  new colors do not have.
\<close>

lemma recolor_terminates:
  assumes "count_list new CHR ''3'' < count_list old CHR ''3''"
  shows "\<exists>r. recolor old new s = Some r \<and> \<not> sublist old r"
proof (induction "count_list s CHR ''3''" arbitrary: s rule: less_induct)
  case less
  show ?case
  proof (cases "str_find old s")
    case None
    then have "recolor old new s = Some s" by (subst recolor.simps) simp
    moreover from None have "\<not> sublist old s" by (rule str_find_None_iff [THEN iffD1])
    ultimately show ?thesis by blast
  next
    case (Some i)
    from count_list_append_sub [OF Some, of new "CHR ''3''"] assms
    have "count_list (str_splice i (length old) new s) CHR ''3'' < count_list s CHR ''3''"
      by linarith
    from less [OF this] Some show ?thesis by (subst recolor.simps) simp
  qed
qed

lemma base_color_no_3:
  "base_color_strings c = Some (nc, cs) \<Longrightarrow>
   count_list nc CHR ''3'' < count_list old_color CHR ''3''"
  by (auto simp: base_color_strings_def old_color_def split: color.splits)

lemma spawn_puck_cases:
  obtains (silent) "spawn_puck e p c s = Inr (s, [])"
    | (raises) "spawn_puck e p c s = Inl Erase_out_of_range"
    | (spawned) sdf where
        "spawn_puck e p c s = Inr (emit (PubFactory sdf (''puck_'' @ dec_str (rand_value e mod 1000000)) p) s,
           ''puck_'' @ dec_str (rand_value e mod 1000000))"
        "c \<in> {RED, BLACK, SILVER}"
proof (cases "spawn_puck e p c s = Inr (s, []) \<or> spawn_puck e p c s = Inl Erase_out_of_range")
  case True
  then show ?thesis using silent raises by blast
next
  case False
  then obtain raw i nc cs where raw: "sdf_file e = Some raw" "str_find ''workpiece_base'' raw = Some i"
      "base_color_strings c = Some (nc, cs)"
    by (auto simp: spawn_puck_def Let_def split: option.splits)
  let ?sdf = "str_splice i (length ''workpiece_base'')
      (''puck_'' @ dec_str (rand_value e mod 1000000)) raw"
  obtain r where "recolor old_color nc ?sdf = Some r"
    using recolor_terminates [OF base_color_no_3 [OF raw(3)]] by blast
  moreover from this False raw obtain k where "str_find plugin_string r = Some k"
    by (auto simp: spawn_puck_def Let_def split: option.splits)
  moreover have "c \<in> {RED, BLACK, SILVER}"
    using raw(3) by (auto simp: base_color_strings_def split: color.splits)
  ultimately show ?thesis using raw spawned by (simp add: spawn_puck_def Let_def)
qed

lemma emit_inject: "emit a s = emit b s \<longleftrightarrow> a = b"
proof
  assume "emit a s = emit b s"
  then have "trace (emit a s) = trace (emit b s)" by simp
  then show "a = b" by (simp add: emit_def)
qed simp

text \<open>What is spawned does not depend on the state of the machine.\<close>

lemma spawn_puck_any_state:
  fixes s t :: "'a mps_scheme"
  assumes "spawn_puck e p c s = Inr (emit (PubFactory sdf n p) s, n)" and "n \<noteq> []"
  shows "spawn_puck e p c t = Inr (emit (PubFactory sdf n p) t, n)"
  using assms
  by (auto simp: spawn_puck_def Let_def emit_inject split: option.splits)

text \<open>
  Making a workpiece always ends, whatever the model file contains: the recoloring loop
  leaves no occurrence of the old color. It publishes exactly one model, under the name it
  returns, or publishes nothing and returns the empty name, or raises because the file has no
  plugin element; and it spawns nothing in a color that is not a base color.
\<close>

theorem spawn_puck_ends:
  "(\<forall>nc cs. base_color_strings c = Some (nc, cs) \<longrightarrow>
      (\<exists>r. recolor old_color nc raw = Some r \<and> \<not> sublist old_color r))
   \<and> spawn_puck e p c s \<noteq> Inl Diverges
   \<and> (\<forall>s' n. spawn_puck e p c s = Inr (s', n) \<longrightarrow>
        (n = [] \<and> s' = s)
        \<or> (n \<noteq> [] \<and> c \<in> {RED, BLACK, SILVER} \<and> (\<exists>sdf. s' = emit (PubFactory sdf n p) s)))"
proof (intro conjI allI impI)
  fix nc cs
  assume "base_color_strings c = Some (nc, cs)"
  then show "\<exists>r. recolor old_color nc raw = Some r \<and> \<not> sublist old_color r"
    by (rule recolor_terminates [OF base_color_no_3])
next
  show "spawn_puck e p c s \<noteq> Inl Diverges"
    by (rule spawn_puck_cases [of e p c s]) simp_all
next
  fix s' n
  assume "spawn_puck e p c s = Inr (s', n)"
  then show "(n = [] \<and> s' = s)
      \<or> (n \<noteq> [] \<and> c \<in> {RED, BLACK, SILVER} \<and> (\<exists>sdf. s' = emit (PubFactory sdf n p) s))"
    by (rule_tac spawn_puck_cases [of e p c s]) auto
qed

text \<open>A small model file with the three strings that are replaced.\<close>

definition demo_sdf :: string where
  "demo_sdf = ''workpiece_base 1.0 0.35 0.0 1 '' @ plugin_string"

definition demo_spawn :: spawn_env where
  "demo_spawn = \<lparr>sdf_file = Some demo_sdf, rand_value = 42\<rparr>"

theorem spawn_puck_ends_witness:
  "\<exists>r. recolor old_color ''1.0 0.0 0.0 1'' demo_sdf = Some r \<and> \<not> sublist old_color r"
  using spawn_puck_ends [of RED demo_sdf demo_spawn origin demo_mps]
  by (simp add: base_color_strings_def)

lemma dec_str_42: "dec_str 42 = ''42''"
  by code_simp

lemma demo_spawn_name:
  "spawn_puck demo_spawn p RED s =
   Inr (emit (PubFactory
          (''puck_42 1.0 0.0 0.0 1 '' @ plugin_with_color ''RED'') ''puck_42'' p) s, ''puck_42'')"
proof -
  have 1: "str_find ''workpiece_base'' demo_sdf = Some 0" by code_simp
  have 2: "str_find old_color (str_splice 0 14 ''puck_42'' demo_sdf) = Some 8" by code_simp
  have 3: "str_find old_color (str_splice 8 (length old_color) ''1.0 0.0 0.0 1''
             (str_splice 0 14 ''puck_42'' demo_sdf)) = None" by code_simp
  have 4: "str_find plugin_string (str_splice 8 (length old_color) ''1.0 0.0 0.0 1''
             (str_splice 0 14 ''puck_42'' demo_sdf)) = Some 22" by code_simp
  have 5: "str_splice 22 (length plugin_string) (plugin_with_color ''RED'')
      (str_splice 8 (length old_color) ''1.0 0.0 0.0 1''
        (str_splice 0 14 ''puck_42'' demo_sdf)) =
      ''puck_42 1.0 0.0 0.0 1 '' @ plugin_with_color ''RED''" by code_simp
  have r: "recolor old_color ''1.0 0.0 0.0 1'' (str_splice 0 14 ''puck_42'' demo_sdf) =
      Some (str_splice 8 (length old_color) ''1.0 0.0 0.0 1''
             (str_splice 0 14 ''puck_42'' demo_sdf))"
    using 2 3 by (simp add: recolor.simps)
  have l: "length ''workpiece_base'' = 14" by simp
  show ?thesis
    using 1 4 5 r unfolding spawn_puck_def l
    by (simp add: demo_spawn_def dec_str_42 base_color_strings_def Let_def)
qed

end
