(* ===== verification/BaseStation.thy ===== *)
theory BaseStation
  imports MpsStation MpsAreas
begin

text \<open>
  \<open>plugins/mps/base_station.cpp\<close>: the station that dispenses bases. A command makes a new
  workpiece in the middle of the belt; the station stays busy until a workpiece announces
  itself (\<open>on_new_puck\<close>), which is when the new workpiece becomes known to it.
\<close>

record base_station = mps +
  spawning :: string
  spawn_clr :: color

text \<open>The constructor leaves \<open>spawn_clr\<close> indeterminate: \<open>c0\<close>.\<close>

definition BaseStation_new ::
    "(string \<Rightarrow> int) \<Rightarrow> (string \<Rightarrow> real) \<Rightarrow> gz \<Rightarrow> string \<Rightarrow> color
      \<Rightarrow> machine_type_exception + base_station" where
  "BaseStation_new get_int get_float w n c0 =
     start_server (mps.extend (Mps_new get_int get_float w n STATION_BASE)
                     \<lparr>spawning = [], spawn_clr = c0\<rparr>)"

text \<open>\<open>enum class BaseColor\<close>, cast from a payload: another number changes no color.\<close>

definition base_color_of :: "nat \<Rightarrow> color \<Rightarrow> color" where
  "base_color_of v c = (if v = 1 then RED else if v = 2 then SILVER else if v = 3 then BLACK else c)"

definition base_spawn_pose :: "gz \<Rightarrow> 'a mps_scheme \<Rightarrow> pose" where
  "base_spawn_pose w s =
     Pose3d ((input_x w s + output_x w s) / 2) ((input_y w s + output_y w s) / 2)
            (belt_height s + puck_height s / 2) 0 0 0"

definition dispense_base ::
    "gz \<Rightarrow> spawn_env \<Rightarrow> nat \<Rightarrow> 'a base_station_scheme \<Rightarrow> spawn_error + 'a base_station_scheme" where
  "dispense_base w e col s =
     (let s = set_busy True s;
          s = s\<lparr>spawn_clr := base_color_of col (spawn_clr s)\<rparr>;
          spawn_pose = base_spawn_pose w s;
          s = emit (Sleep 2500) s
      in and_then (spawn_puck e spawn_pose (spawn_clr s) s)
           (\<lambda>(s, n). Inr (s\<lparr>spawning := n\<rparr>)))"

definition Base_process_command_in ::
    "gz \<times> spawn_env \<Rightarrow> 'a base_station_scheme \<Rightarrow> spawn_error + 'a base_station_scheme" where
  "Base_process_command_in we s =
     (let s = process_command_in (fst we) s;
          value = action_id_in s
      in if value = 0 then Inr s
         else if calculate_station_type_from_command value \<noteq> station s then Inr s
         else let oper = unat value - station s
              in if oper \<noteq> OPERATION_GET_BASE then Inr s
                 else and_then (dispense_base (fst we) (snd we) (unat (payload1_in s)) s)
                        (\<lambda>s. Inr (set_payload1 0 (set_action_id 0 s))))"

definition Base_on_new_puck :: "gz \<Rightarrow> new_puck \<Rightarrow> 'a base_station_scheme \<Rightarrow> 'a base_station_scheme" where
  "Base_on_new_puck w msg s =
     (if spawning s = [] then s
      else let s = on_new_puck msg s;
               s = (case model_by_name w (np_puck_name msg) of
                      None \<Rightarrow> s
                    | Some new_wp \<Rightarrow>
                        if spawning s = new_wp \<and> puck_in_middle w s (gz_pose w new_wp)
                        then s\<lparr>wp_in_middle := Some new_wp, spawning := []\<rparr> else s)
           in set_busy False s)"

section \<open>The handler contract\<close>

lemma base_idle: "action_id_in s = 0 \<Longrightarrow> Base_process_command_in we s = Inr s"
  by (simp add: Base_process_command_in_def process_idle)

lemma base_foreign:
  "calculate_station_type_from_command (action_id_in s) \<noteq> station s \<Longrightarrow>
   Base_process_command_in we s = Inr s"
  by (simp add: Base_process_command_in_def process_foreign Let_def)

interpretation base_handler: station_handler
  Base_process_command_in action_id_in station client_action
  by unfold_locales (simp_all add: base_idle base_foreign)

section \<open>Dispensing\<close>

lemma base_get_base:
  assumes "station s = STATION_BASE" and "unat (action_id_in s) = STATION_BASE + OPERATION_GET_BASE"
  shows "Base_process_command_in (w, e) s =
    and_then (dispense_base w e (unat (payload1_in s)) s)
      (\<lambda>s. Inr (set_payload1 0 (set_action_id 0 s)))"
proof -
  have "process_command_in w s = s"
    using assms by (intro process_own_command) (simp_all add: valid_station_def)
  moreover have "action_id_in s \<noteq> 0" using assms(2) by auto
  moreover have "calculate_station_type_from_command (action_id_in s) = 100"
    using assms by (simp add: calculate_station_type_from_command_def)
  ultimately show ?thesis using assms by (simp add: Base_process_command_in_def)
qed

lemma dispense_base_spawned:
  assumes "spawn_puck e (base_spawn_pose w s) (base_color_of col (spawn_clr s))
      (emit (Sleep 2500) ((set_busy True s)\<lparr>spawn_clr := base_color_of col (spawn_clr s)\<rparr>))
    = Inr (t, n)"
  shows "dispense_base w e col s = Inr (t\<lparr>spawning := n\<rparr>)"
proof -
  have "base_spawn_pose w ((set_busy True s)\<lparr>spawn_clr := base_color_of col (spawn_clr s)\<rparr>)
      = base_spawn_pose w s"
    by (simp add: base_spawn_pose_def input_x_def input_y_def output_x_def output_y_def
          mps_pose_def station_defs Let_def)
  moreover have "spawn_clr (set_busy True s) = spawn_clr s" by (simp add: station_defs)
  ultimately show ?thesis using assms
    by (simp add: dispense_base_def Let_def station_defs)
qed

text \<open>The new workpiece is put half its height above the belt, within the tolerance of the
  middle.\<close>

lemma base_spawn_pose_in_middle:
  assumes "gz_dist w = euclid" and "0 \<le> puck_height s" and "puck_height s / 2 < detect_tolerance s"
  shows "puck_in_middle w s (base_spawn_pose w s)"
proof -
  have "sqrt (puck_height s / 2 * (puck_height s / 2)) = puck_height s / 2"
    using assms(2) by (simp only: real_sqrt_abs2)
  then show ?thesis using assms(1,3)
    by (simp add: puck_in_middle_def base_spawn_pose_def middle_pose_def euclid_def Pose3d_def
          del: times_divide_times_eq times_divide_eq_left times_divide_eq_right)
qed

lemma base_announced:
  assumes "spawning s = n" and "n \<noteq> []" and "n \<in> set (gz_models w)"
    and "puck_in_middle w s (gz_pose w n)"
  shows "wp_in_middle (Base_on_new_puck w \<lparr>np_puck_name = n, np_gps_topic = g\<rparr> s) = Some n
    \<and> spawning (Base_on_new_puck w \<lparr>np_puck_name = n, np_gps_topic = g\<rparr> s) = []
    \<and> \<not> busy_in (Base_on_new_puck w \<lparr>np_puck_name = n, np_gps_topic = g\<rparr> s)
    \<and> puck_subs (Base_on_new_puck w \<lparr>np_puck_name = n, np_gps_topic = g\<rparr> s) = puck_subs s @ [g]"
proof -
  have "puck_in_middle w (s\<lparr>puck_subs := puck_subs s @ [g]\<rparr>) (gz_pose w n)"
    using assms(4)
    by (simp add: puck_in_middle_def middle_pose_def input_x_def input_y_def output_x_def
          output_y_def mps_pose_def Let_def)
  then show ?thesis using assms(1-3)
    by (simp add: Base_on_new_puck_def on_new_puck_def model_by_name_def station_defs Let_def)
qed

text \<open>Whatever the spawning does, the geometry of the machine stays.\<close>

lemma emit_geometry:
  "puck_in_middle w (emit x s) p = puck_in_middle w s p"
  by (simp add: emit_def puck_in_middle_def middle_pose_def input_x_def input_y_def output_x_def
        output_y_def mps_pose_def Let_def)

text \<open>
  Dispensing a base, from the command to the workpiece on the belt. When the model file
  allows a workpiece to be made, the command leaves the station busy, waiting for exactly that
  name and with its registers cleared, having published one model in the color of the payload,
  half a workpiece above the middle of the belt; when that workpiece then announces itself from
  where it was put, it is in the middle and the station is no longer busy.
\<close>

theorem dispense_then_announce:
  assumes st: "station s = STATION_BASE"
    and act: "unat (action_id_in s) = STATION_BASE + OPERATION_GET_BASE"
    and ok: "spawn_puck e (base_spawn_pose w s) (base_color_of (unat (payload1_in s)) (spawn_clr s)) s
        = Inr (emit (PubFactory sdf n (base_spawn_pose w s)) s, n)"
    and n: "n \<noteq> []"
  shows "\<exists>s1. Base_process_command_in (w, e) s = Inr s1 \<and> busy_in s1 \<and> spawning s1 = n
    \<and> action_id_in s1 = 0 \<and> payload1_in s1 = 0
    \<and> trace s1 = trace s @ [OpcBusy True, Sleep 2500, PubFactory sdf n (base_spawn_pose w s),
                            OpcActionId 0, OpcPayload1 0]
    \<and> (n \<in> set (gz_models w2) \<and> puck_in_middle w2 s (gz_pose w2 n) \<longrightarrow>
        wp_in_middle (Base_on_new_puck w2 \<lparr>np_puck_name = n, np_gps_topic = g\<rparr> s1) = Some n
        \<and> \<not> busy_in (Base_on_new_puck w2 \<lparr>np_puck_name = n, np_gps_topic = g\<rparr> s1))
    \<and> (gz_dist w = euclid \<and> 0 \<le> puck_height s \<and> puck_height s / 2 < detect_tolerance s \<longrightarrow>
        puck_in_middle w s (base_spawn_pose w s))"
proof -
  let ?c = "base_color_of (unat (payload1_in s)) (spawn_clr s)"
  let ?t = "emit (Sleep 2500) ((set_busy True s)\<lparr>spawn_clr := ?c\<rparr>)"
  let ?s1 = "set_payload1 0 (set_action_id 0
      ((emit (PubFactory sdf n (base_spawn_pose w s)) ?t)\<lparr>spawning := n\<rparr>))"
  have s1: "Base_process_command_in (w, e) s = Inr ?s1"
    using dispense_base_spawned [OF spawn_puck_any_state [OF ok n]] by (simp add: base_get_base [OF st act])
  have sp: "spawning ?s1 = n" by (simp add: station_defs)
  have geo: "puck_in_middle w2 ?s1 p = puck_in_middle w2 s p" for p
    by (simp add: station_defs puck_in_middle_def middle_pose_def input_x_def input_y_def
          output_x_def output_y_def mps_pose_def Let_def)
  have "n \<in> set (gz_models w2) \<and> puck_in_middle w2 s (gz_pose w2 n) \<longrightarrow>
        wp_in_middle (Base_on_new_puck w2 \<lparr>np_puck_name = n, np_gps_topic = g\<rparr> ?s1) = Some n
        \<and> \<not> busy_in (Base_on_new_puck w2 \<lparr>np_puck_name = n, np_gps_topic = g\<rparr> ?s1)"
    using base_announced [OF sp n, of w2 g] by (auto simp: geo)
  moreover have "busy_in ?s1 \<and> action_id_in ?s1 = 0 \<and> payload1_in ?s1 = 0
    \<and> trace ?s1 = trace s @ [OpcBusy True, Sleep 2500, PubFactory sdf n (base_spawn_pose w s),
                            OpcActionId 0, OpcPayload1 0]"
    by (simp add: station_defs)
  moreover note base_spawn_pose_in_middle [of w s]
  ultimately show ?thesis using s1 sp by blast
qed

definition demo_base :: base_station where
  "demo_base = mps.extend (demo_mps\<lparr>opc_in := init_opc_side\<lparr>action_id := 101, payload1 := 1\<rparr>\<rparr>)
                 \<lparr>spawning = [], spawn_clr = NONE\<rparr>"

lemma demo_base_simps [simp]:
  "station demo_base = 100" "action_id_in demo_base = 101" "payload1_in demo_base = 1"
  "spawn_clr demo_base = NONE" "spawning demo_base = []"
  by (simp_all add: demo_base_def mps.defs)

theorem dispense_then_announce_witness:
  "\<exists>s1. Base_process_command_in (demo_world, demo_spawn) demo_base = Inr s1
    \<and> busy_in s1 \<and> spawning s1 = ''puck_42'' \<and> action_id_in s1 = 0"
proof -
  have "\<exists>s1. Base_process_command_in (demo_world, demo_spawn) demo_base = Inr s1
    \<and> busy_in s1 \<and> spawning s1 = ''puck_42'' \<and> action_id_in s1 = 0 \<and> payload1_in s1 = 0
    \<and> trace s1 = trace demo_base @ [OpcBusy True, Sleep 2500,
        PubFactory (''puck_42 1.0 0.0 0.0 1 '' @ plugin_with_color ''RED'') ''puck_42''
          (base_spawn_pose demo_world demo_base), OpcActionId 0, OpcPayload1 0]
    \<and> (''puck_42'' \<in> set (gz_models demo_world)
         \<and> puck_in_middle demo_world demo_base (gz_pose demo_world ''puck_42'') \<longrightarrow>
        wp_in_middle (Base_on_new_puck demo_world \<lparr>np_puck_name = ''puck_42'', np_gps_topic = []\<rparr> s1)
          = Some ''puck_42''
        \<and> \<not> busy_in (Base_on_new_puck demo_world \<lparr>np_puck_name = ''puck_42'', np_gps_topic = []\<rparr> s1))
    \<and> (gz_dist demo_world = euclid \<and> 0 \<le> puck_height demo_base
         \<and> puck_height demo_base / 2 < detect_tolerance demo_base \<longrightarrow>
        puck_in_middle demo_world demo_base (base_spawn_pose demo_world demo_base))"
    by (rule dispense_then_announce) (simp_all add: base_color_of_def demo_spawn_name)
  then show ?thesis by blast
qed

text \<open>
  While a base is being made, the announcement of any other workpiece (of another station's,
  say) is taken as the end of the operation: the station reports that it is not busy, although
  nothing is in the middle and it still waits for its own workpiece.
\<close>

theorem base_foreign_announcement:
  assumes "spawning s \<noteq> []" and "np_puck_name msg \<noteq> spawning s"
  shows "\<not> busy_in (Base_on_new_puck w msg s)
    \<and> spawning (Base_on_new_puck w msg s) = spawning s
    \<and> wp_in_middle (Base_on_new_puck w msg s) = wp_in_middle s"
  using assms
  by (auto simp: Base_on_new_puck_def on_new_puck_def model_by_name_def station_defs Let_def)

theorem base_foreign_announcement_witness:
  "\<not> busy_in (Base_on_new_puck demo_world \<lparr>np_puck_name = ''puck_2'', np_gps_topic = []\<rparr>
      (set_busy True (demo_base\<lparr>spawning := ''puck_42''\<rparr>)))"
  using base_foreign_announcement
    [of "set_busy True (demo_base\<lparr>spawning := ''puck_42''\<rparr>)"
        "\<lparr>np_puck_name = ''puck_2'', np_gps_topic = []\<rparr>" demo_world]
  by (simp add: station_defs)

end
