(* ===== verification/RingStation.thy ===== *)
theory RingStation
  imports MpsStation MpsAreas
begin

text \<open>
  \<open>plugins/mps/ring_station.cpp\<close>: the station that mounts rings, and the slide on which
  robots put the bases that pay for them.
\<close>

record ring_station = mps +
  wps_on_slide :: "string set"

definition RingStation_new ::
    "(string \<Rightarrow> int) \<Rightarrow> (string \<Rightarrow> real) \<Rightarrow> gz \<Rightarrow> string \<Rightarrow> machine_type_exception + ring_station" where
  "RingStation_new get_int get_float w n =
     start_server (mps.extend (Mps_new get_int get_float w n STATION_RING) \<lparr>wps_on_slide = {}\<rparr>)"

section \<open>Mounting a ring\<close>

definition mount_ring :: "gz \<Rightarrow> color \<Rightarrow> 'a mps_scheme \<Rightarrow> 'a mps_scheme" where
  "mount_ring w col s =
     (case wp_in_middle s of
        None \<Rightarrow> s
      | Some wp \<Rightarrow>
          if \<not> puck_in_middle w s (gz_pose w wp) then s
          else let s = set_busy True s;
                   cmd = \<lparr>cmd_command = ADD_RING, cmd_color = [col], cmd_puck_name = wp,
                          cmd_team_color = None\<rparr>;
                   s = emit (PubPuckCommand cmd) s;
                   s = emit (Sleep 3500) s
               in set_busy False s)"

text \<open>The color of a payload; another number leaves the local variable as it was, \<open>None\<close> here.\<close>

definition ring_color_of :: "nat \<Rightarrow> color option" where
  "ring_color_of v =
     (if v = 1 then Some BLUE else if v = 2 then Some GREEN
      else if v = 3 then Some ORANGE else if v = 4 then Some YELLOW else None)"

text \<open>
  A color that was never assigned has an indeterminate value (\<open>junk\<close>), with which the ring is
  mounted all the same.
\<close>

definition Ring_process_command_in ::
    "gz \<times> color \<Rightarrow> 'a mps_scheme \<Rightarrow> 'a mps_scheme" where
  "Ring_process_command_in wj s =
     (let w = fst wj; junk = snd wj; s = process_command_in w s; value = action_id_in s
      in if value = 0 then s
         else if calculate_station_type_from_command value \<noteq> station s then s
         else let oper = unat value - station s
              in if oper \<noteq> OPERATION_MOUNT_RING then s
                 else let feeder = payload1_in s; payload2 = payload2_in s;
                          s = set_action_id 0 s;
                          s = set_payload1 0 s;
                          s = set_payload2 0 s;
                          col = (case ring_color_of (unat payload2) of None \<Rightarrow> junk | Some c \<Rightarrow> c)
                      in if feeder \<noteq> 1 \<and> feeder \<noteq> 2 then s else mount_ring w col s)"

section \<open>The slide\<close>

definition add_base_pose :: "gz \<Rightarrow> 'a mps_scheme \<Rightarrow> pose" where
  "add_base_pose w s = get_puck_world_pose w s (- 0.25) 0 (mps_height s)"

definition puck_on_slide :: "gz \<Rightarrow> 'a mps_scheme \<Rightarrow> pose \<Rightarrow> bool" where
  "puck_on_slide w s p = (gz_dist w p (add_base_pose w s) < detect_tolerance s)"

text \<open>
  Where the \<open>k\<close>-th base on the slide is stored: three to a row, a new layer every three.
  \<open>world_->ModelByName\<close> is dereferenced, so a base that is not a model crashes the simulator.
\<close>

datatype null_dereference = Null_dereference

definition slide_pose :: "gz \<Rightarrow> 'a mps_scheme \<Rightarrow> nat \<Rightarrow> pose" where
  "slide_pose w s k =
     get_puck_world_pose w s (- 0.35) (- 0.1 * (1 + real ((k - 1) mod 3)))
       (mps_height s + 1.05 * puck_height s * real (k div 3))"

definition Ring_on_puck_msg ::
    "gz \<Rightarrow> string \<Rightarrow> pose \<Rightarrow> 'a ring_station_scheme \<Rightarrow> null_dereference + 'a ring_station_scheme" where
  "Ring_on_puck_msg w n p s =
     (let s = on_puck_msg w n p s
      in if puck_on_slide w s p \<and> n \<notin> wps_on_slide s
         then let s = s\<lparr>wps_on_slide := insert n (wps_on_slide s)\<rparr>;
                  s = set_slidecount (of_nat (card (wps_on_slide s))) s
              in case model_by_name w n of
                   None \<Rightarrow> Inl Null_dereference
                 | Some m \<Rightarrow>
                     Inr (emit (SetWorldPose m (slide_pose w s (card (wps_on_slide s)))) s)
         else Inr s)"

text \<open>The indicator lights of the station.\<close>

definition publish_indicator :: "bool \<Rightarrow> int \<Rightarrow> 'a mps_scheme \<Rightarrow> 'a mps_scheme" where
  "publish_indicator active number s =
     emit (PubVisual (empty_visual
       \<lparr>vis_parent_name := mps_name s @ ''::body'',
        vis_name := mps_name s @ ''::body::base_'' @ int_str number,
        vis_pose := Some (Pose3d (- 0.35 + real_of_int number * 0.11) 0 (belt_height s + 0.3) 0 0 0),
        vis_diffuse := Some (if active then rgb 1 0 0 else rgb 0.3 0 0)\<rparr>)) s"

section \<open>The handler contract\<close>

lemma ring_idle: "action_id_in s = 0 \<Longrightarrow> Ring_process_command_in wj s = s"
  by (simp add: Ring_process_command_in_def process_idle Let_def)

lemma ring_foreign:
  "calculate_station_type_from_command (action_id_in s) \<noteq> station s \<Longrightarrow>
   Ring_process_command_in wj s = s"
  by (simp add: Ring_process_command_in_def process_foreign Let_def)

interpretation ring_handler: station_handler
  "\<lambda>wj s. Inr (Ring_process_command_in wj s)" action_id_in station client_action
  by unfold_locales (simp_all add: ring_idle ring_foreign)

lemma ring_mount_command:
  assumes "station s = STATION_RING" and "unat (action_id_in s) = STATION_RING + OPERATION_MOUNT_RING"
  shows "Ring_process_command_in (w, junk) s =
    (let s1 = set_payload2 0 (set_payload1 0 (set_action_id 0 s));
         col = (case ring_color_of (unat (payload2_in s)) of None \<Rightarrow> junk | Some c \<Rightarrow> c)
     in if payload1_in s \<noteq> 1 \<and> payload1_in s \<noteq> 2 then s1 else mount_ring w col s1)"
proof -
  have "process_command_in w s = s"
    using assms by (intro process_own_command) (simp_all add: valid_station_def)
  moreover have "action_id_in s \<noteq> 0" using assms(2) by auto
  moreover have "calculate_station_type_from_command (action_id_in s) = 200"
    using assms by (simp add: calculate_station_type_from_command_def)
  ultimately show ?thesis using assms
    by (simp add: Ring_process_command_in_def Let_def)
qed

lemma mount_ring_frame [simp]:
  "wp_in_middle (mount_ring w c s) = wp_in_middle s"
  "action_id_in (mount_ring w c s) = action_id_in s"
  by (simp_all add: mount_ring_def station_defs Let_def split: option.split)

lemma mount_ring_publishes:
  "wp_in_middle s = Some wp \<Longrightarrow> puck_in_middle w s (gz_pose w wp) \<Longrightarrow>
   trace (mount_ring w c s) = trace s @ [OpcBusy True,
     PubPuckCommand \<lparr>cmd_command = ADD_RING, cmd_color = [c], cmd_puck_name = wp,
                     cmd_team_color = None\<rparr>, Sleep 3500, OpcBusy False]
   \<and> \<not> busy_in (mount_ring w c s)"
  by (simp add: mount_ring_def station_defs Let_def)

lemma registers_geometry:
  "puck_in_middle w (set_payload2 0 (set_payload1 0 (set_action_id 0 s))) p = puck_in_middle w s p"
  "wp_in_middle (set_payload2 0 (set_payload1 0 (set_action_id 0 s))) = wp_in_middle s"
  "trace (set_payload2 0 (set_payload1 0 (set_action_id 0 s)))
     = trace s @ [OpcActionId 0, OpcPayload1 0, OpcPayload2 0]"
  by (simp_all add: station_defs puck_in_middle_def middle_pose_def input_x_def input_y_def
        output_x_def output_y_def mps_pose_def Let_def)

text \<open>
  A mount command to a ring station with a workpiece in the middle and feeder 1 or 2 sends that
  workpiece one ring, in the color of the second payload. For a payload that is no color the
  code warns and mounts a ring anyway, in whatever color its uninitialised variable holds.
\<close>

theorem mount_ring_command:
  assumes "station s = STATION_RING" and "unat (action_id_in s) = STATION_RING + OPERATION_MOUNT_RING"
    and "payload1_in s \<in> {1, 2}" and "wp_in_middle s = Some wp"
    and "puck_in_middle w s (gz_pose w wp)"
  shows "trace (Ring_process_command_in (w, junk) s) =
      trace s @ [OpcActionId 0, OpcPayload1 0, OpcPayload2 0, OpcBusy True,
        PubPuckCommand \<lparr>cmd_command = ADD_RING,
          cmd_color = [case ring_color_of (unat (payload2_in s)) of None \<Rightarrow> junk | Some c \<Rightarrow> c],
          cmd_puck_name = wp, cmd_team_color = None\<rparr>, Sleep 3500, OpcBusy False]
    \<and> \<not> busy_in (Ring_process_command_in (w, junk) s)
    \<and> action_id_in (Ring_process_command_in (w, junk) s) = 0"
proof -
  let ?s1 = "set_payload2 0 (set_payload1 0 (set_action_id 0 s))"
  let ?c = "case ring_color_of (unat (payload2_in s)) of None \<Rightarrow> junk | Some c \<Rightarrow> c"
  have eq: "Ring_process_command_in (w, junk) s = mount_ring w ?c ?s1"
    using assms(3) by (auto simp: ring_mount_command [OF assms(1,2)] Let_def)
  have act: "action_id_in ?s1 = 0" by (simp add: station_defs)
  show ?thesis
    using mount_ring_publishes [of ?s1 wp w ?c] assms(4,5) act
    by (simp add: eq registers_geometry)
qed

definition middle_world :: gz where
  "middle_world = demo_world\<lparr>gz_pose := (\<lambda>n. if n = ''puck_1'' then Pose3d 0.025 0 0.92 0 0 0 else origin)\<rparr>"

definition demo_middle :: "nat \<Rightarrow> u16 \<Rightarrow> u16 \<Rightarrow> u16 \<Rightarrow> mps" where
  "demo_middle st a p1 p2 = demo_mps\<lparr>wp_in_input := None, wp_in_middle := Some ''puck_1'',
     station := st, opc_in := init_opc_side\<lparr>action_id := a, payload1 := p1, payload2 := p2\<rparr>\<rparr>"

lemma demo_middle_simps [simp]:
  "station (demo_middle st a p1 p2) = st" "action_id_in (demo_middle st a p1 p2) = a"
  "payload1_in (demo_middle st a p1 p2) = p1" "payload2_in (demo_middle st a p1 p2) = p2"
  "wp_in_middle (demo_middle st a p1 p2) = Some ''puck_1''"
  "wp_in_input (demo_middle st a p1 p2) = None"
  by (simp_all add: demo_middle_def)

lemma demo_puck_in_middle:
  "puck_in_middle middle_world (demo_middle st a p1 p2) (gz_pose middle_world ''puck_1'')"
  by (simp add: puck_in_middle_def middle_pose_eq middle_world_def demo_world_def demo_middle_def
        demo_mps_def Mps_new_def cfg_float_def mps_pose_def origin_def Pose3d_def)

theorem mount_ring_command_witness:
  "\<not> busy_in (Ring_process_command_in (middle_world, NONE) (demo_middle STATION_RING 203 1 2))"
  using mount_ring_command [of "demo_middle STATION_RING 203 1 2" "''puck_1''" middle_world NONE]
    demo_puck_in_middle by simp

section \<open>The slide count\<close>

lemma slide_on_puck_msg_base [simp]:
  "wps_on_slide (on_puck_msg w n p s) = wps_on_slide s"
  by (simp add: on_puck_msg_def set_ready_def emit_def)

lemma slidecount_on_puck_msg_base [simp]:
  "slidecount (opc_in (on_puck_msg w n p s)) = slidecount (opc_in s)"
  by (simp add: on_puck_msg_def set_ready_def emit_def)

definition slide_inv :: "'a ring_station_scheme \<Rightarrow> bool" where
  "slide_inv s \<longleftrightarrow> finite (wps_on_slide s)
     \<and> slidecount (opc_in s) = of_nat (card (wps_on_slide s))"

lemma slide_inv_step:
  "slide_inv s \<Longrightarrow> Ring_on_puck_msg w n p s = Inr s' \<Longrightarrow> slide_inv s'"
  by (auto simp: slide_inv_def Ring_on_puck_msg_def station_defs Let_def split: if_splits option.splits)

lemma puck_on_slide_on_puck_msg [simp]:
  "puck_on_slide w (on_puck_msg w' n p s) q = puck_on_slide w s q"
  by (simp add: on_puck_msg_def set_ready_def emit_def puck_on_slide_def add_base_pose_def
        get_puck_world_pose_def mps_pose_def Let_def)

lemma puck_on_slide_step:
  "Ring_on_puck_msg w n p s = Inr s' \<Longrightarrow> puck_on_slide w s' q = puck_on_slide w s q"
  using puck_on_slide_on_puck_msg [of w w n p s q]
  by (auto simp: Ring_on_puck_msg_def station_defs puck_on_slide_def add_base_pose_def
        get_puck_world_pose_def mps_pose_def Let_def split: if_splits option.splits)

lemma slide_step:
  "Ring_on_puck_msg w n p s = Inr s' \<Longrightarrow>
   wps_on_slide s' = wps_on_slide s \<union> (if puck_on_slide w s p then {n} else {})"
  by (auto simp: Ring_on_puck_msg_def station_defs Let_def split: if_splits option.splits)

text \<open>A run of pose messages.\<close>

fun ring_run ::
    "gz \<Rightarrow> (string \<times> pose) list \<Rightarrow> 'a ring_station_scheme \<Rightarrow> null_dereference + 'a ring_station_scheme" where
  "ring_run w [] s = Inr s"
| "ring_run w ((n, p) # ms) s = and_then (Ring_on_puck_msg w n p s) (ring_run w ms)"

lemma ring_run_inv: "slide_inv s \<Longrightarrow> ring_run w ms s = Inr s' \<Longrightarrow> slide_inv s'"
  by (induction w ms s rule: ring_run.induct) (auto simp: and_then_Inr_iff dest: slide_inv_step)

lemma ring_run_slide:
  "ring_run w ms s = Inr s' \<Longrightarrow>
   wps_on_slide s' = wps_on_slide s \<union> {n. \<exists>p. (n, p) \<in> set ms \<and> puck_on_slide w s p}"
proof (induction w ms s rule: ring_run.induct)
  case (1 w s)
  then show ?case by simp
next
  case (2 w n p ms s)
  then obtain t where t: "Ring_on_puck_msg w n p s = Inr t" "ring_run w ms t = Inr s'"
    by (auto simp: and_then_Inr_iff)
  from slide_step [OF t(1)] "2.IH" [OF t(2)] puck_on_slide_step [OF t(1)] show ?case
    by auto
qed

text \<open>
  After any run of pose messages the slide counter that the client reads is the number of
  workpieces on the slide, and these are the earlier ones and exactly those that reported a pose
  on the slide: a base is counted once however often it reports its pose, and never uncounted.
\<close>

theorem slide_counts_once:
  assumes "slide_inv s" and "ring_run w ms s = Inr s'"
  shows "slidecount (opc_in s') = of_nat (card (wps_on_slide s'))
    \<and> wps_on_slide s' = wps_on_slide s \<union> {n. \<exists>p. (n, p) \<in> set ms \<and> puck_on_slide w s p}"
  using ring_run_inv [OF assms] ring_run_slide [OF assms(2)] by (simp add: slide_inv_def)

lemma ring_on_puck_msg_total:
  "n \<in> set (gz_models w) \<Longrightarrow> \<exists>s'. Ring_on_puck_msg w n p s = Inr s'"
  by (simp add: Ring_on_puck_msg_def model_by_name_def Let_def)

definition demo_ring :: ring_station where
  "demo_ring = mps.extend demo_mps \<lparr>wps_on_slide = {}\<rparr>"

lemma demo_ring_inv: "slide_inv demo_ring"
  by (simp add: slide_inv_def demo_ring_def mps.defs demo_mps_def Mps_new_def init_opc_side_def)

text \<open>The same base reports twice that it is on the slide.\<close>

definition slide_msgs :: "(string \<times> pose) list" where
  "slide_msgs = [(''puck_1'', add_base_pose demo_world demo_ring),
     (''puck_1'', add_base_pose demo_world demo_ring)]"

lemma demo_ring_slide: "puck_on_slide demo_world demo_ring (add_base_pose demo_world demo_ring)"
  by (simp add: puck_on_slide_def demo_world_def demo_ring_def mps.defs demo_mps_def
        Mps_new_def cfg_float_def euclid_def)

theorem slide_counts_once_witness:
  "\<exists>s'. ring_run demo_world slide_msgs demo_ring = Inr s'
    \<and> slidecount (opc_in s') = 1 \<and> wps_on_slide s' = {''puck_1''}"
proof -
  let ?p = "add_base_pose demo_world demo_ring"
  have m: "''puck_1'' \<in> set (gz_models demo_world)" by (simp add: demo_world_def)
  obtain s1 where 1: "Ring_on_puck_msg demo_world ''puck_1'' ?p demo_ring = Inr s1"
    using ring_on_puck_msg_total [OF m] by blast
  obtain s2 where 2: "Ring_on_puck_msg demo_world ''puck_1'' ?p s1 = Inr s2"
    using ring_on_puck_msg_total [OF m] by blast
  have run: "ring_run demo_world slide_msgs demo_ring = Inr s2"
    using 1 2 by (simp add: slide_msgs_def)
  have "wps_on_slide demo_ring = {}" by (simp add: demo_ring_def mps.defs)
  then have "wps_on_slide s2 = {''puck_1''}"
    using slide_counts_once [OF demo_ring_inv run] demo_ring_slide by (auto simp: slide_msgs_def)
  then show ?thesis using run slide_counts_once [OF demo_ring_inv run] by simp
qed

end
