(* ===== verification/CapStation.thy ===== *)
theory CapStation
  imports MpsStation MpsAreas
begin

text \<open>
  \<open>plugins/mps/cap_station.cpp\<close>: the station that takes the cap off a workpiece, keeps it
  and mounts it on another workpiece, and that keeps a shelf of three workpieces with caps.
\<close>

record cap_station = mps +
  puck_in_shelf_left :: "string option"
  puck_in_shelf_middle :: "string option"
  puck_in_shelf_right :: "string option"
  stored_cap_color :: color
  puck_spawned_time :: real

datatype cap_error =
    Server_error machine_type_exception
  | Tag_error out_of_range
  | Spawn_error spawn_error

section \<open>The shelf\<close>

definition shelf_left_pose :: "gz \<Rightarrow> 'a mps_scheme \<Rightarrow> pose" where
  "shelf_left_pose w s = get_puck_world_pose w s (- 0.1) 0 (belt_height s + 0.005)"

definition shelf_middle_pose :: "gz \<Rightarrow> 'a mps_scheme \<Rightarrow> pose" where
  "shelf_middle_pose w s = get_puck_world_pose w s (- 0.2) 0 (belt_height s + 0.005)"

definition shelf_right_pose :: "gz \<Rightarrow> 'a mps_scheme \<Rightarrow> pose" where
  "shelf_right_pose w s = get_puck_world_pose w s (- 0.3) 0 (belt_height s + 0.005)"

definition pose_in_shelf_left :: "gz \<Rightarrow> 'a mps_scheme \<Rightarrow> pose \<Rightarrow> bool" where
  "pose_in_shelf_left w s p = pose_hit w s p (shelf_left_pose w s) 0.05"

definition pose_in_shelf_middle :: "gz \<Rightarrow> 'a mps_scheme \<Rightarrow> pose \<Rightarrow> bool" where
  "pose_in_shelf_middle w s p = pose_hit w s p (shelf_middle_pose w s) 0.05"

definition pose_in_shelf_right :: "gz \<Rightarrow> 'a mps_scheme \<Rightarrow> pose \<Rightarrow> bool" where
  "pose_in_shelf_right w s p = pose_hit w s p (shelf_right_pose w s) 0.05"

text \<open>The three calls that fill the shelf, each with its own random name.\<close>

definition fill_shelf ::
    "gz \<Rightarrow> spawn_env \<Rightarrow> spawn_env \<Rightarrow> spawn_env \<Rightarrow> 'a mps_scheme \<Rightarrow> spawn_error + 'a mps_scheme" where
  "fill_shelf w e1 e2 e3 s =
     and_then (spawn_puck e1 (shelf_left_pose w s) RED s) (\<lambda>(s, _).
     and_then (spawn_puck e2 (shelf_middle_pose w s) RED s) (\<lambda>(s, _).
     and_then (spawn_puck e3 (shelf_right_pose w s) RED s) (\<lambda>(s, _). Inr s)))"

definition CapStation_new ::
    "(string \<Rightarrow> int) \<Rightarrow> (string \<Rightarrow> real) \<Rightarrow> gz \<Rightarrow> spawn_env \<Rightarrow> spawn_env \<Rightarrow> spawn_env \<Rightarrow> string
      \<Rightarrow> cap_error + cap_station" where
  "CapStation_new get_int get_float w e1 e2 e3 n =
     and_then (map_error Server_error
        (start_server (mps.extend (Mps_new get_int get_float w n STATION_CAP)
           \<lparr>puck_in_shelf_left = None, puck_in_shelf_middle = None, puck_in_shelf_right = None,
            stored_cap_color = NONE, puck_spawned_time = gz_time w\<rparr>)))
       (\<lambda>s. and_then (map_error Spawn_error (fill_shelf w e1 e2 e3 s))
       (\<lambda>s. Inr (s\<lparr>stored_cap_color := NONE, puck_spawned_time := created_time s\<rparr>)))"

definition Cap_OnUpdate ::
    "(string \<Rightarrow> int) \<Rightarrow> gz \<Rightarrow> spawn_env \<Rightarrow> spawn_env \<Rightarrow> spawn_env
      \<Rightarrow> 'a cap_station_scheme \<Rightarrow> cap_error + 'a cap_station_scheme" where
  "Cap_OnUpdate get_int w e1 e2 e3 s =
     and_then (map_error Tag_error (OnUpdate w s)) (\<lambda>s.
       if gz_time w - puck_spawned_time s
            < real_of_int (get_int ''plugins/mps/cap-station/spawn_puck_time'')
       then Inr s
       else
         let gone = (\<lambda>puck shelf. case puck of None \<Rightarrow> None
                 | Some m \<Rightarrow> if \<not> pose_hit w s (gz_pose w m) shelf 0.1 then None else Some m);
             s = s\<lparr>puck_in_shelf_left := gone (puck_in_shelf_left s) (shelf_left_pose w s)\<rparr>;
             s = s\<lparr>puck_in_shelf_middle := gone (puck_in_shelf_middle s) (shelf_middle_pose w s)\<rparr>;
             s = s\<lparr>puck_in_shelf_right := gone (puck_in_shelf_right s) (shelf_right_pose w s)\<rparr>
         in if puck_in_shelf_right s = None \<and> puck_in_shelf_middle s = None
               \<and> puck_in_shelf_left s = None
            then and_then (map_error Spawn_error (fill_shelf w e1 e2 e3 s))
                   (\<lambda>s. Inr (s\<lparr>puck_spawned_time := gz_time w\<rparr>))
            else Inr s)"

text \<open>The color of the caps of a station, from its name: none for other names.\<close>

definition shelf_cap_colors :: "string \<Rightarrow> color list" where
  "shelf_cap_colors n =
     (if str_contains n ''CS1'' then [GREY] else if str_contains n ''CS2'' then [BLACK] else [])"

definition shelve :: "gz \<Rightarrow> string \<Rightarrow> string \<Rightarrow> 'a cap_station_scheme \<Rightarrow> 'a cap_station_scheme" where
  "shelve w puck_name model s =
     (if model = puck_name
      then let cmd = \<lparr>cmd_command = ADD_CAP, cmd_color = shelf_cap_colors (mps_name s),
                      cmd_puck_name = puck_name, cmd_team_color = None\<rparr>
           in if pose_in_shelf_left w s (gz_pose w model)
              then emit (PubPuckCommand cmd) (s\<lparr>puck_in_shelf_left := Some model\<rparr>)
              else if pose_in_shelf_middle w s (gz_pose w model)
              then emit (PubPuckCommand cmd) (s\<lparr>puck_in_shelf_middle := Some model\<rparr>)
              else if pose_in_shelf_right w s (gz_pose w model)
              then emit (PubPuckCommand cmd) (s\<lparr>puck_in_shelf_right := Some model\<rparr>)
              else s
      else s)"

definition Cap_on_new_puck :: "gz \<Rightarrow> new_puck \<Rightarrow> 'a cap_station_scheme \<Rightarrow> 'a cap_station_scheme" where
  "Cap_on_new_puck w msg s =
     fold (shelve w (np_puck_name msg)) (gz_models w) (on_new_puck msg s)"

section \<open>Caps\<close>

definition have_cap_visual :: "string \<Rightarrow> rgba \<Rightarrow> visual" where
  "have_cap_visual n c = empty_visual
     \<lparr>vis_parent_name := n @ ''::body'', vis_name := n @ ''::body::have_cap'',
      vis_diffuse := Some c\<rparr>"

definition mount_cap :: "gz \<Rightarrow> 'a cap_station_scheme \<Rightarrow> 'a cap_station_scheme" where
  "mount_cap w s =
     (case wp_in_middle s of
        None \<Rightarrow> s
      | Some wp \<Rightarrow>
          if \<not> puck_in_middle w s (gz_pose w wp) then s
          else let s = set_busy True s;
                   s = (if stored_cap_color s \<noteq> NONE
                        then let cmd_msg = \<lparr>cmd_command = ADD_CAP,
                                   cmd_color = [stored_cap_color s], cmd_puck_name = wp,
                                   cmd_team_color = None\<rparr>;
                                 s = emit (PubVisual (have_cap_visual (mps_name s) (rgb 0.3 0 0))) s;
                                 s = emit (PubPuckCommand cmd_msg) s
                             in s\<lparr>stored_cap_color := NONE\<rparr>
                        else s);
                   s = set_action_id 0 s;
                   s = set_payload1 0 s;
                   s = emit (Sleep 3500) s
               in set_busy False s)"

definition retrieve_cap :: "'a mps_scheme \<Rightarrow> 'a mps_scheme" where
  "retrieve_cap s =
     (case wp_in_middle s of
        None \<Rightarrow> s
      | Some wp \<Rightarrow>
          let s = set_busy True s;
              cmd_msg = \<lparr>cmd_command = REMOVE_CAP, cmd_color = [], cmd_puck_name = wp,
                         cmd_team_color = None\<rparr>;
              s = emit (PubPuckCommand cmd_msg) s;
              s = set_action_id 0 s;
              s = set_payload1 0 s;
              s = emit (Sleep 3500) s
          in set_busy False s)"

definition Cap_process_command_in :: "gz \<Rightarrow> 'a cap_station_scheme \<Rightarrow> 'a cap_station_scheme" where
  "Cap_process_command_in w s =
     (let s = process_command_in w s; value = action_id_in s
      in if value = 0 then s
         else if calculate_station_type_from_command value \<noteq> station s then s
         else let oper = unat value - station s
              in if oper \<noteq> OPERATION_CAP_ACTION then s
                 else let op = unat (payload1_in s)
                      in if op = OPERATION_CAP_RETRIEVE then retrieve_cap s
                         else if op = OPERATION_CAP_MOUNT then mount_cap w s
                         else s)"

definition on_puck_result :: "workpiece_result \<Rightarrow> 'a cap_station_scheme \<Rightarrow> 'a cap_station_scheme" where
  "on_puck_result result s =
     (case wp_in_middle s of
        None \<Rightarrow> s
      | Some wp \<Rightarrow>
          if res_puck_name result = wp \<and> res_color result \<noteq> NONE
          then emit (PubVisual (have_cap_visual (mps_name s) (rgb 1 0 0)))
                 (s\<lparr>stored_cap_color := res_color result\<rparr>)
          else s)"

section \<open>The handler contract\<close>

lemma cap_idle: "action_id_in s = 0 \<Longrightarrow> Cap_process_command_in w s = s"
  by (simp add: Cap_process_command_in_def process_idle Let_def)

lemma cap_foreign:
  "calculate_station_type_from_command (action_id_in s) \<noteq> station s \<Longrightarrow>
   Cap_process_command_in w s = s"
  by (simp add: Cap_process_command_in_def process_foreign Let_def)

interpretation cap_handler: station_handler
  "\<lambda>w s. Inr (Cap_process_command_in w s)" action_id_in station client_action
  by unfold_locales (simp_all add: cap_idle cap_foreign)

lemma cap_command:
  assumes "station s = STATION_CAP" and "unat (action_id_in s) = STATION_CAP + OPERATION_CAP_ACTION"
  shows "Cap_process_command_in w s =
    (if unat (payload1_in s) = OPERATION_CAP_RETRIEVE then retrieve_cap s
     else if unat (payload1_in s) = OPERATION_CAP_MOUNT then mount_cap w s else s)"
proof -
  have "process_command_in w s = s"
    using assms by (intro process_own_command) (simp_all add: valid_station_def)
  moreover have "action_id_in s \<noteq> 0" using assms(2) by auto
  moreover have "calculate_station_type_from_command (action_id_in s) = 300"
    using assms by (simp add: calculate_station_type_from_command_def)
  ultimately show ?thesis using assms
    by (simp add: Cap_process_command_in_def Let_def)
qed


section \<open>Mounting and retrieving\<close>

text \<open>What the middle position does not depend on.\<close>

lemma puck_in_middle_set_busy [simp]: "puck_in_middle w (set_busy b s) p = puck_in_middle w s p"
  by (simp add: puck_in_middle_def middle_pose_def input_x_def input_y_def output_x_def
        output_y_def mps_pose_def station_defs Let_def)

text \<open>
  Mounting a cap on the workpiece in the middle: the client sees busy first and not busy
  last; between them a stored cap is published exactly once, for that workpiece and in the
  stored color, or nothing is published when no cap is stored. Either way no cap is stored
  afterwards and the command is cleared, so a second mount adds no cap.
\<close>

theorem mount_cap_once:
  assumes "wp_in_middle s = Some wp" and "puck_in_middle w s (gz_pose w wp)"
  shows "trace (mount_cap w s) = trace s @ [OpcBusy True]
      @ (if stored_cap_color s = NONE then []
         else [PubVisual (have_cap_visual (mps_name s) (rgb 0.3 0 0)),
               PubPuckCommand \<lparr>cmd_command = ADD_CAP, cmd_color = [stored_cap_color s],
                 cmd_puck_name = wp, cmd_team_color = None\<rparr>])
      @ [OpcActionId 0, OpcPayload1 0, Sleep 3500, OpcBusy False]
    \<and> stored_cap_color (mount_cap w s) = NONE
    \<and> wp_in_middle (mount_cap w s) = Some wp
    \<and> action_id_in (mount_cap w s) = 0 \<and> \<not> busy_in (mount_cap w s)"
  using assms by (simp add: mount_cap_def station_defs Let_def)

definition demo_cap :: cap_station where
  "demo_cap = mps.extend (demo_mps\<lparr>wp_in_input := None, wp_in_middle := Some ''puck_1'',
       station := STATION_CAP, mps_name := ''C-CS1'',
       opc_in := init_opc_side\<lparr>action_id := 301, payload1 := 1\<rparr>\<rparr>)
     \<lparr>puck_in_shelf_left = None, puck_in_shelf_middle = None, puck_in_shelf_right = None,
      stored_cap_color = NONE, puck_spawned_time = 0\<rparr>"

text \<open>A world in which the workpiece lies in the middle of the machine.\<close>

definition cap_world :: gz where
  "cap_world = demo_world\<lparr>gz_pose := (\<lambda>n. if n = ''puck_1''
       then Pose3d 0.025 0 0.92 0 0 0 else origin)\<rparr>"

lemma demo_cap_simps [simp]:
  "wp_in_middle demo_cap = Some ''puck_1''" "station demo_cap = 300"
  "mps_name demo_cap = ''C-CS1''" "stored_cap_color demo_cap = NONE"
  "action_id_in demo_cap = 301" "payload1_in demo_cap = 1"
  "puck_in_shelf_left demo_cap = None" "puck_in_shelf_middle demo_cap = None"
  "puck_in_shelf_right demo_cap = None" "puck_spawned_time demo_cap = 0"
  by (simp_all add: demo_cap_def mps.defs)

lemma demo_cap_middle [simp]: "puck_in_middle cap_world demo_cap (gz_pose cap_world ''puck_1'')"
  by (simp add: puck_in_middle_def middle_pose_def input_x_def input_y_def output_x_def
        output_y_def mps_pose_def cap_world_def demo_world_def demo_cap_def mps.defs
        demo_mps_def Mps_new_def cfg_float_def Pose3d_def origin_def euclid_def)

lemma demo_cap_stored_middle [simp]:
  "puck_in_middle cap_world (demo_cap\<lparr>stored_cap_color := c\<rparr>) (gz_pose cap_world ''puck_1'')"
  using demo_cap_middle
  by (simp add: puck_in_middle_def middle_pose_def input_x_def input_y_def output_x_def
        output_y_def mps_pose_def Let_def)

theorem mount_cap_once_witness:
  "stored_cap_color (mount_cap cap_world (demo_cap\<lparr>stored_cap_color := GREY\<rparr>)) = NONE
   \<and> length (trace (mount_cap cap_world (demo_cap\<lparr>stored_cap_color := GREY\<rparr>)))
      = length (trace demo_cap) + 7"
  using mount_cap_once [of "demo_cap\<lparr>stored_cap_color := GREY\<rparr>" "''puck_1''" cap_world] by simp

text \<open>
  A cap is stored only from a result that names the workpiece in the middle and carries a
  color; every other result, in particular the one without a cap and the one of another
  station's workpiece, leaves the station as it is.
\<close>

theorem on_puck_result_stores:
  "stored_cap_color (on_puck_result r s) =
     (if wp_in_middle s = Some (res_puck_name r) \<and> res_color r \<noteq> NONE
      then res_color r else stored_cap_color s)
   \<and> (wp_in_middle s \<noteq> Some (res_puck_name r) \<or> res_color r = NONE \<longrightarrow> on_puck_result r s = s)
   \<and> opc_in (on_puck_result r s) = opc_in s"
proof (cases "wp_in_middle s")
  case None
  then show ?thesis by (simp add: on_puck_result_def)
next
  case (Some wp)
  show ?thesis
  proof (cases "res_puck_name r = wp \<and> res_color r \<noteq> NONE")
    case True
    with Some show ?thesis by (simp add: on_puck_result_def emit_def)
  next
    case False
    with Some have "on_puck_result r s = s" by (simp only: on_puck_result_def option.case if_False)
    with Some False show ?thesis by auto
  qed
qed

theorem on_puck_result_stores_witness:
  "on_puck_result \<lparr>res_color = NONE, res_puck_name = ''puck_1''\<rparr> demo_cap = demo_cap"
  by (rule on_puck_result_stores [THEN conjunct2, THEN conjunct1, THEN mp]) simp

section \<open>The shelf is refilled\<close>

definition shelf_gone :: "gz \<Rightarrow> 'a mps_scheme \<Rightarrow> string option \<Rightarrow> pose \<Rightarrow> bool" where
  "shelf_gone w s puck shelf \<longleftrightarrow>
     (case puck of None \<Rightarrow> True | Some m \<Rightarrow> \<not> pose_hit w s (gz_pose w m) shelf 0.1)"

definition shelf_empty :: "gz \<Rightarrow> 'a cap_station_scheme \<Rightarrow> bool" where
  "shelf_empty w s \<longleftrightarrow>
     shelf_gone w s (puck_in_shelf_left s) (shelf_left_pose w s)
     \<and> shelf_gone w s (puck_in_shelf_middle s) (shelf_middle_pose w s)
     \<and> shelf_gone w s (puck_in_shelf_right s) (shelf_right_pose w s)"

lemma shelf_pose_emit [simp]:
  "get_puck_world_pose w (emit e s) x y h = get_puck_world_pose w s x y h"
  "belt_height (emit e s) = belt_height s"
  by (simp_all add: get_puck_world_pose_def mps_pose_def emit_def)

lemma shelf_pose_update [simp]:
  "get_puck_world_pose w (s\<lparr>puck_in_shelf_left := m\<rparr>) x y h = get_puck_world_pose w s x y h"
  "get_puck_world_pose w (s\<lparr>puck_in_shelf_middle := m\<rparr>) x y h = get_puck_world_pose w s x y h"
  "get_puck_world_pose w (s\<lparr>puck_in_shelf_right := m\<rparr>) x y h = get_puck_world_pose w s x y h"
  "pose_hit w (s\<lparr>puck_in_shelf_left := m\<rparr>) p q t = pose_hit w s p q t"
  "pose_hit w (s\<lparr>puck_in_shelf_middle := m\<rparr>) p q t = pose_hit w s p q t"
  by (simp_all add: get_puck_world_pose_def mps_pose_def pose_hit_def)

lemma shelf_poses_update [simp]:
  "shelf_left_pose w (s\<lparr>puck_in_shelf_left := m\<rparr>) = shelf_left_pose w s"
  "shelf_middle_pose w (s\<lparr>puck_in_shelf_left := m\<rparr>) = shelf_middle_pose w s"
  "shelf_right_pose w (s\<lparr>puck_in_shelf_left := m\<rparr>) = shelf_right_pose w s"
  "shelf_left_pose w (s\<lparr>puck_in_shelf_middle := m\<rparr>) = shelf_left_pose w s"
  "shelf_middle_pose w (s\<lparr>puck_in_shelf_middle := m\<rparr>) = shelf_middle_pose w s"
  "shelf_right_pose w (s\<lparr>puck_in_shelf_middle := m\<rparr>) = shelf_right_pose w s"
  "shelf_left_pose w (s\<lparr>puck_in_shelf_right := m\<rparr>) = shelf_left_pose w s"
  "shelf_middle_pose w (s\<lparr>puck_in_shelf_right := m\<rparr>) = shelf_middle_pose w s"
  "shelf_right_pose w (s\<lparr>puck_in_shelf_right := m\<rparr>) = shelf_right_pose w s"
  by (simp_all add: shelf_left_pose_def shelf_middle_pose_def shelf_right_pose_def)

lemma shelf_poses_emit [simp]:
  "shelf_left_pose w (emit e s) = shelf_left_pose w s"
  "shelf_middle_pose w (emit e s) = shelf_middle_pose w s"
  "shelf_right_pose w (emit e s) = shelf_right_pose w s"
  by (simp_all add: shelf_left_pose_def shelf_middle_pose_def shelf_right_pose_def)

lemma fill_shelf_emits:
  assumes "\<forall>p t. spawn_puck e1 p RED (t :: 'a mps_scheme) = Inr (emit (PubFactory m1 n1 p) t, n1)"
    and "\<forall>p t. spawn_puck e2 p RED (t :: 'a mps_scheme) = Inr (emit (PubFactory m2 n2 p) t, n2)"
    and "\<forall>p t. spawn_puck e3 p RED (t :: 'a mps_scheme) = Inr (emit (PubFactory m3 n3 p) t, n3)"
  shows "fill_shelf w e1 e2 e3 (s :: 'a mps_scheme) =
    Inr (emit (PubFactory m3 n3 (shelf_right_pose w s))
      (emit (PubFactory m2 n2 (shelf_middle_pose w s))
        (emit (PubFactory m1 n1 (shelf_left_pose w s)) s)))"
  using assms by (simp add: fill_shelf_def)

text \<open>
  The shelf is refilled exactly when the time has come and every workpiece the station knows
  on the shelf has been taken away: then three workpieces are made, one for each place, and
  the clock starts anew. Otherwise none is made, and before the time nothing changes at all.
\<close>

theorem Cap_OnUpdate_refills:
  assumes "grabbed_tags s"
    and "\<forall>p t. spawn_puck e1 p RED (t :: 'a cap_station_scheme) = Inr (emit (PubFactory m1 n1 p) t, n1)"
    and "\<forall>p t. spawn_puck e2 p RED (t :: 'a cap_station_scheme) = Inr (emit (PubFactory m2 n2 p) t, n2)"
    and "\<forall>p t. spawn_puck e3 p RED (t :: 'a cap_station_scheme) = Inr (emit (PubFactory m3 n3 p) t, n3)"
  shows "(if gz_time w - puck_spawned_time s
            < real_of_int (get_int ''plugins/mps/cap-station/spawn_puck_time'')
      then Cap_OnUpdate get_int w e1 e2 e3 s = Inr s
      else \<exists>s'. Cap_OnUpdate get_int w e1 e2 e3 (s :: 'a cap_station_scheme) = Inr s'
        \<and> (if shelf_empty w s
           then trace s' = trace s @ [PubFactory m1 n1 (shelf_left_pose w s),
                  PubFactory m2 n2 (shelf_middle_pose w s),
                  PubFactory m3 n3 (shelf_right_pose w s)]
                \<and> puck_spawned_time s' = gz_time w
           else trace s' = trace s \<and> puck_spawned_time s' = puck_spawned_time s))"
proof -
  note fill = fill_shelf_emits [OF assms(2-4)]
  have upd: "OnUpdate w s = Inr s" using assms(1) by (simp add: OnUpdate_def)
  show ?thesis
  proof (cases "gz_time w - puck_spawned_time s
            < real_of_int (get_int ''plugins/mps/cap-station/spawn_puck_time'')")
    case True
    then show ?thesis by (simp add: Cap_OnUpdate_def upd)
  next
    case late: False
    show ?thesis
    proof (cases "shelf_empty w s")
      case True
      then show ?thesis using late
        by (auto simp: Cap_OnUpdate_def upd fill shelf_empty_def shelf_gone_def Let_def
              split: option.splits) (simp_all add: emit_def)
    next
      case False
      then show ?thesis using late
        by (auto simp: Cap_OnUpdate_def upd shelf_empty_def shelf_gone_def Let_def
              split: option.splits)
    qed
  qed
qed

theorem Cap_OnUpdate_refills_witness:
  "\<exists>s'. Cap_OnUpdate cfg_int cap_world demo_spawn demo_spawn demo_spawn
          (demo_cap\<lparr>grabbed_tags := True\<rparr>) = Inr s'
      \<and> length (trace s') = length (trace demo_cap) + 3"
proof -
  let ?s = "demo_cap\<lparr>grabbed_tags := True\<rparr>"
  have "shelf_empty cap_world ?s" by (simp add: shelf_empty_def shelf_gone_def)
  moreover have "\<not> gz_time cap_world - puck_spawned_time ?s
      < real_of_int (cfg_int ''plugins/mps/cap-station/spawn_puck_time'')"
    by (simp add: cap_world_def demo_world_def cfg_int_def)
  moreover have "\<exists>m n. \<forall>p t. spawn_puck demo_spawn p RED (t :: cap_station)
      = Inr (emit (PubFactory m n p) t, n)"
    using demo_spawn_name by blast
  then obtain m n where sp: "\<forall>p t. spawn_puck demo_spawn p RED (t :: cap_station)
      = Inr (emit (PubFactory m n p) t, n)" by blast
  ultimately show ?thesis
    using Cap_OnUpdate_refills [OF _ sp sp sp, of ?s cap_world cfg_int] by force
qed

end
