(* ===== verification/DeliveryStation.thy ===== *)
theory DeliveryStation
  imports MpsStation MpsAreas
begin

text \<open>
  \<open>plugins/mps/delivery_station.cpp\<close>: the station that takes the finished product at its
  input, moves it off the belt and tells the workpiece that it has been delivered.
\<close>

definition DeliveryStation_new ::
    "(string \<Rightarrow> int) \<Rightarrow> (string \<Rightarrow> real) \<Rightarrow> gz \<Rightarrow> string \<Rightarrow> machine_type_exception + mps" where
  "DeliveryStation_new get_int get_float w n =
     start_server (Mps_new get_int get_float w n STATION_DELIVERY)"

text \<open>The team of a machine, from the first character of its name (\<open>name_[0]\<close>, which is the
  terminating 0 for an empty name).\<close>

definition team_of_name :: "string \<Rightarrow> team option" where
  "team_of_name n =
     (case n of [] \<Rightarrow> None
      | c # _ \<Rightarrow> if c = CHR ''C'' then Some CYAN
                 else if c = CHR ''M'' then Some MAGENTA else None)"

definition deliver_product :: "gz \<Rightarrow> 'a mps_scheme \<Rightarrow> 'a mps_scheme" where
  "deliver_product w s =
     (let slot = payload1_in s
      in if slot \<noteq> 1 \<and> slot \<noteq> 2 \<and> slot \<noteq> 3 then s
         else case wp_in_input s of
           None \<Rightarrow> s
         | Some wp \<Rightarrow>
             let s = set_busy True s;
                 s = set_action_id 0 s;
                 s = set_payload1 0 s;
                 s = emit (Sleep 3500) s;
                 s = emit (SetWorldPose wp (get_puck_world_pose w s 0.3 (- 0.2) (- 1))) s;
                 cmd_msg = \<lparr>cmd_command = DELIVER, cmd_color = [], cmd_puck_name = wp,
                            cmd_team_color = team_of_name (mps_name s)\<rparr>;
                 s = emit (PubPuckCommand cmd_msg) s;
                 s = s\<lparr>wp_in_input := None\<rparr>
             in set_busy False s)"

definition Delivery_process_command_in :: "gz \<Rightarrow> 'a mps_scheme \<Rightarrow> 'a mps_scheme" where
  "Delivery_process_command_in w s =
     (let s = process_command_in w s; value = action_id_in s
      in if value = 0 then s
         else if calculate_station_type_from_command value \<noteq> station s then s
         else let oper = unat value - station s
              in if oper = OPERATION_DELIVER then deliver_product w s else s)"

lemma delivery_idle: "action_id_in s = 0 \<Longrightarrow> Delivery_process_command_in w s = s"
  by (simp add: Delivery_process_command_in_def process_idle Let_def)

lemma delivery_foreign:
  "calculate_station_type_from_command (action_id_in s) \<noteq> station s \<Longrightarrow>
   Delivery_process_command_in w s = s"
  by (simp add: Delivery_process_command_in_def process_foreign Let_def)

interpretation delivery_handler: station_handler
  "\<lambda>w s. Inr (Delivery_process_command_in w s)" action_id_in station client_action
  by unfold_locales (simp_all add: delivery_idle delivery_foreign)

lemma delivery_command:
  assumes "station s = STATION_DELIVERY" and "unat (action_id_in s) = STATION_DELIVERY + OPERATION_DELIVER"
  shows "Delivery_process_command_in w s = deliver_product w s"
proof -
  have "process_command_in w s = s"
    using assms by (intro process_own_command) (simp_all add: valid_station_def)
  moreover have "action_id_in s \<noteq> 0" using assms(2) by auto
  moreover have "calculate_station_type_from_command (action_id_in s) = 400"
    using assms by (simp add: calculate_station_type_from_command_def)
  ultimately show ?thesis using assms
    by (simp add: Delivery_process_command_in_def Let_def)
qed

text \<open>
  A delivery command with a valid slot and a workpiece at the input moves exactly that
  workpiece off the belt and sends it, and nobody else, one DELIVER command for the team in
  the machine's name; afterwards the input is free, the registers are cleared and the station
  is not busy. With another slot number, or with no workpiece, nothing at all happens and the
  command stays in its register.
\<close>

theorem delivery_correct:
  assumes "station s = STATION_DELIVERY" and "unat (action_id_in s) = STATION_DELIVERY + OPERATION_DELIVER"
  shows "(case wp_in_input s of
      Some wp \<Rightarrow>
        if payload1_in s \<in> {1, 2, 3}
        then trace (Delivery_process_command_in w s) =
               trace s @ [OpcBusy True, OpcActionId 0, OpcPayload1 0, Sleep 3500,
                 SetWorldPose wp (get_puck_world_pose w s 0.3 (- 0.2) (- 1)),
                 PubPuckCommand \<lparr>cmd_command = DELIVER, cmd_color = [], cmd_puck_name = wp,
                                 cmd_team_color = team_of_name (mps_name s)\<rparr>, OpcBusy False]
             \<and> wp_in_input (Delivery_process_command_in w s) = None
             \<and> action_id_in (Delivery_process_command_in w s) = 0
             \<and> \<not> busy_in (Delivery_process_command_in w s)
        else Delivery_process_command_in w s = s
    | None \<Rightarrow> Delivery_process_command_in w s = s)"
proof -
  have geo: "get_puck_world_pose w (emit x t) a b c = get_puck_world_pose w t a b c"
    "get_puck_world_pose w (set_payload1 v t) a b c = get_puck_world_pose w t a b c"
    "get_puck_world_pose w (set_action_id v t) a b c = get_puck_world_pose w t a b c"
    "get_puck_world_pose w (set_busy y t) a b c = get_puck_world_pose w t a b c"
    for x t a b c v y
    by (simp_all add: get_puck_world_pose_def mps_pose_def station_defs)
  show ?thesis
    unfolding delivery_command [OF assms] deliver_product_def Let_def
    by (auto simp: geo split: option.splits) (simp_all add: station_defs)
qed

definition demo_delivery :: mps where
  "demo_delivery = demo_mps\<lparr>station := STATION_DELIVERY, mps_name := ''M-DS'',
     opc_in := init_opc_side\<lparr>action_id := 401, payload1 := 2\<rparr>\<rparr>"

theorem delivery_correct_witness:
  "wp_in_input (Delivery_process_command_in demo_world demo_delivery) = None
   \<and> \<not> busy_in (Delivery_process_command_in demo_world demo_delivery)"
proof -
  have "station demo_delivery = STATION_DELIVERY"
    and "unat (action_id_in demo_delivery) = STATION_DELIVERY + OPERATION_DELIVER"
    and "wp_in_input demo_delivery = Some ''puck_1''" and "payload1_in demo_delivery = 2"
    by (simp_all add: demo_delivery_def)
  with delivery_correct [of demo_delivery demo_world] show ?thesis by simp
qed

end
