(* ===== verification/StorageStation.thy ===== *)
theory StorageStation
  imports MpsStation MpsAreas
begin

text \<open>
  \<open>plugins/mps/storage_station.cpp\<close>: a rack of 48 places. The configuration says which places
  hold a workpiece at the start and what it is made of; the workpieces are made ten seconds
  after the station, and when one of them announces itself the station tells it its rings and
  its cap. An access outside the array, which the code does not check, is an error here.
\<close>

section \<open>State\<close>

text \<open>\<open>class Storage\<close>: one place of the rack.\<close>

record storage_slot =
  slot_puck :: string
  slot_x :: int
  slot_y :: int
  slot_z :: int
  has_puck :: bool
  base_clr :: color
  ring_clrs :: "color list"
  cap_clr :: color

record storage_station = mps +
  storage :: "storage_slot list"
  pucks_spawned :: bool
  storage_cnt :: int
  shelf_pos_x :: real
  shelf_pos_y :: real
  puck_on_conveyor :: string

datatype storage_error =
    SS_server machine_type_exception
  | SS_tag out_of_range
  | SS_spawn spawn_error
  | SS_at
  | SS_index int
  | SS_null_model string

definition SLOT_X_COUNT :: int where "SLOT_X_COUNT = 2"
definition SLOT_Y_COUNT :: int where "SLOT_Y_COUNT = 4"
definition SLOT_Z_COUNT :: int where "SLOT_Z_COUNT = 6"
definition STORAGE_SIZE :: nat where "STORAGE_SIZE = 48"

lemmas slot_numbers [simp] =
  SLOT_X_COUNT_def SLOT_Y_COUNT_def SLOT_Z_COUNT_def STORAGE_SIZE_def

definition getStorageIndex :: "int \<Rightarrow> int \<Rightarrow> int \<Rightarrow> int" where
  "getStorageIndex x y z = z * SLOT_X_COUNT * SLOT_Y_COUNT + y * SLOT_X_COUNT + x"

definition get_slot_World_position :: "'a storage_station_scheme \<Rightarrow> u32 \<Rightarrow> u32 \<Rightarrow> u32 \<Rightarrow> pose" where
  "get_slot_World_position s sx sy sz =
     (let sz = sz + 1; sy = sy + 1; sx = sx + 1;
          x = shelf_pos_x s + real (unat sx) * 0.1 + real (unat sz) * 0.4;
          y = shelf_pos_y s + real (unat sy) * 0.2;
          z = puck_height s * 0.5
      in Pose3d x y z 0 0 0)"

text \<open>\<open>storage_[index]\<close>, with the bound that the array has.\<close>

definition storage_at :: "'a storage_station_scheme \<Rightarrow> int \<Rightarrow> storage_error + storage_slot" where
  "storage_at s i = (if 0 \<le> i \<and> i < int (length (storage s)) then Inr (storage s ! nat i)
                     else Inl (SS_index i))"

definition storage_put ::
    "int \<Rightarrow> storage_slot \<Rightarrow> 'a storage_station_scheme \<Rightarrow> 'a storage_station_scheme" where
  "storage_put i slot s = s\<lparr>storage := (storage s)[nat i := slot]\<rparr>"

section \<open>Configuration\<close>

definition base_clr_of :: "string \<Rightarrow> color option" where
  "base_clr_of c = (if c = ''BLACK'' then Some BLACK else if c = ''SILVER'' then Some SILVER
                    else if c = ''RED'' then Some RED else None)"

definition ring_clr_of :: "string \<Rightarrow> color option" where
  "ring_clr_of c = (if c = ''YELLOW'' then Some YELLOW else if c = ''ORANGE'' then Some ORANGE
                    else if c = ''GREEN'' then Some GREEN else if c = ''BLUE'' then Some BLUE
                    else None)"

definition cap_clr_of :: "string \<Rightarrow> color option" where
  "cap_clr_of c = (if c = ''BLACK'' then Some BLACK else if c = ''GRAY'' then Some GREY
                   else if c = [] then Some NONE else None)"

text \<open>\<open>(int)slotpos.at(i) - '0'\<close>, where \<open>char\<close> is a signed byte.\<close>

definition slot_digit :: "string \<Rightarrow> nat \<Rightarrow> storage_error + int" where
  "slot_digit slotpos i =
     (if i < length slotpos then Inr (sint (of_char (slotpos ! i) :: 8 word) - 48) else Inl SS_at)"

text \<open>The assignments to one place; an unknown color leaves the field as it is.\<close>

definition configure_slot ::
    "string list \<Rightarrow> int \<Rightarrow> int \<Rightarrow> int \<Rightarrow> storage_slot \<Rightarrow> storage_error + storage_slot" where
  "configure_slot puck_cfg x y z slot =
     (if puck_cfg = [] then Inl SS_at
      else
        let slot = slot\<lparr>slot_x := x, slot_y := y, slot_z := z\<rparr>;
            slot = (case base_clr_of (puck_cfg ! 0) of None \<Rightarrow> slot | Some c \<Rightarrow> slot\<lparr>base_clr := c\<rparr>);
            last = length puck_cfg - 1;
            slot = (if last > 1
                    then slot\<lparr>ring_clrs := ring_clrs slot
                           @ List.map_filter (\<lambda>j. ring_clr_of (puck_cfg ! j)) [1..<last]\<rparr>
                    else slot);
            slot = (case cap_clr_of (puck_cfg ! last) of None \<Rightarrow> slot | Some c \<Rightarrow> slot\<lparr>cap_clr := c\<rparr>)
        in Inr (slot\<lparr>has_puck := True\<rparr>))"

definition init_slot ::
    "(string \<Rightarrow> string list) \<Rightarrow> string \<Rightarrow> 'a storage_station_scheme
      \<Rightarrow> storage_error + 'a storage_station_scheme" where
  "init_slot get_strings slotpos s =
     (let puck_cfg = get_strings (''plugins/mps/storage-station/slot'' @ slotpos)
      in and_then (slot_digit slotpos 0) (\<lambda>x.
         and_then (slot_digit slotpos 1) (\<lambda>y.
         and_then (slot_digit slotpos 2) (\<lambda>z.
           let index = getStorageIndex x y z
           in and_then (storage_at s index) (\<lambda>slot.
              and_then (configure_slot puck_cfg x y z slot) (\<lambda>slot.
                Inr (storage_put index slot s)))))))"

fun init_slots ::
    "(string \<Rightarrow> string list) \<Rightarrow> string list \<Rightarrow> 'a storage_station_scheme
      \<Rightarrow> storage_error + 'a storage_station_scheme" where
  "init_slots get_strings [] s = Inr s"
| "init_slots get_strings (p # ps) s =
     and_then (init_slot get_strings p s) (init_slots get_strings ps)"

definition init_storage ::
    "(string \<Rightarrow> string list) \<Rightarrow> 'a storage_station_scheme \<Rightarrow> storage_error + 'a storage_station_scheme" where
  "init_storage get_strings s =
     init_slots get_strings (get_strings ''plugins/mps/storage-station/slots'') s"

text \<open>The constructor: \<open>junk\<close> is what the array holds before (its integers and colors are not
  initialised).\<close>

definition StorageStation_new ::
    "(string \<Rightarrow> int) \<Rightarrow> (string \<Rightarrow> real) \<Rightarrow> (string \<Rightarrow> string list) \<Rightarrow> (nat \<Rightarrow> storage_slot) \<Rightarrow> gz
      \<Rightarrow> string \<Rightarrow> storage_error + storage_station" where
  "StorageStation_new get_int get_float get_strings junk w n =
     and_then (map_error SS_server (start_server (Mps_new get_int get_float w n STATION_STORAGE)))
       (\<lambda>s. init_storage get_strings
          (mps.extend s
             \<lparr>storage = map (\<lambda>i. (junk i)\<lparr>slot_puck := [], has_puck := False, ring_clrs := []\<rparr>)
                            [0..<STORAGE_SIZE],
              pucks_spawned = False, storage_cnt = 0, shelf_pos_x = 10,
              shelf_pos_y = (if str_contains (mps_name s) ''M-'' then 0 else 10),
              puck_on_conveyor = []\<rparr>))"

section \<open>Operations\<close>

definition Storage_process_command_in :: "'a storage_station_scheme \<Rightarrow> 'a storage_station_scheme" where
  "Storage_process_command_in s = s"

text \<open>The loop over the array that makes the workpieces; \<open>e i\<close> is what is outside the program
  in round \<open>i\<close>.\<close>

fun spawn_slots ::
    "(nat \<Rightarrow> spawn_env) \<Rightarrow> nat list \<Rightarrow> 'a storage_station_scheme
      \<Rightarrow> storage_error + 'a storage_station_scheme" where
  "spawn_slots e [] s = Inr s"
| "spawn_slots e (i # is) s =
     (let slot = storage s ! i
      in if has_puck slot
         then and_then (map_error SS_spawn (spawn_puck (e i)
                (get_slot_World_position s (word_of_int (slot_x slot)) (word_of_int (slot_y slot))
                   (word_of_int (slot_z slot))) (base_clr slot) s))
              (\<lambda>(s, puck_name). spawn_slots e is
                 (if puck_name = [] then s
                  else s\<lparr>storage := (storage s)[i := (storage s ! i)\<lparr>slot_puck := puck_name\<rparr>]\<rparr>))
         else spawn_slots e is s)"

definition Storage_OnUpdate ::
    "gz \<Rightarrow> (nat \<Rightarrow> spawn_env) \<Rightarrow> 'a storage_station_scheme
      \<Rightarrow> storage_error + 'a storage_station_scheme" where
  "Storage_OnUpdate w e s =
     and_then (map_error SS_tag (OnUpdate w s)) (\<lambda>s.
       if gz_time w - created_time s > 10 \<and> \<not> pucks_spawned s
       then and_then (spawn_slots e [0..<STORAGE_SIZE] s) (\<lambda>s. Inr (s\<lparr>pucks_spawned := True\<rparr>))
       else Inr s)"

definition Storage_on_puck_msg ::
    "gz \<Rightarrow> string \<Rightarrow> pose \<Rightarrow> 'a storage_station_scheme \<Rightarrow> 'a storage_station_scheme" where
  "Storage_on_puck_msg w name p s =
     (if name = puck_on_conveyor s \<and> \<not> puck_msg_in_input w s p
      then s\<lparr>puck_on_conveyor := []\<rparr> else s)"

definition addCap :: "string \<Rightarrow> color \<Rightarrow> 'a mps_scheme \<Rightarrow> 'a mps_scheme" where
  "addCap puck clr s =
     emit (PubPuckCommand \<lparr>cmd_command = ADD_CAP, cmd_color = [clr], cmd_puck_name = puck,
                           cmd_team_color = None\<rparr>) s"

definition addRings :: "string \<Rightarrow> color list \<Rightarrow> 'a mps_scheme \<Rightarrow> 'a mps_scheme" where
  "addRings puck_name clr_list s =
     fold (\<lambda>clr. emit (PubPuckCommand \<lparr>cmd_command = ADD_RING, cmd_color = [clr],
                         cmd_puck_name = puck_name, cmd_team_color = None\<rparr>)) clr_list s"

definition store_puck ::
    "string \<Rightarrow> u32 \<Rightarrow> u32 \<Rightarrow> u32 \<Rightarrow> 'a storage_station_scheme
      \<Rightarrow> storage_error + 'a storage_station_scheme" where
  "store_puck puck_name x y z s =
     (let index = getStorageIndex (sint x) (sint y) (sint z)
      in and_then (storage_at s index) (\<lambda>slot.
           if slot_puck slot = puck_name then Inr s
           else if slot_puck slot \<noteq> [] then Inr s
           else Inr (storage_put index (slot\<lparr>slot_puck := puck_name\<rparr>)
                      (s\<lparr>storage_cnt := storage_cnt s + 1\<rparr>))))"

definition retrieve_puck ::
    "gz \<Rightarrow> u32 \<Rightarrow> u32 \<Rightarrow> u32 \<Rightarrow> 'a storage_station_scheme
      \<Rightarrow> storage_error + 'a storage_station_scheme" where
  "retrieve_puck w x y z s =
     (let index = getStorageIndex (sint x) (sint y) (sint z)
      in and_then (storage_at s index) (\<lambda>slot.
           if slot_puck slot = [] then Inr s
           else case model_by_name w (slot_puck slot) of
             None \<Rightarrow> Inl (SS_null_model (slot_puck slot))
           | Some m \<Rightarrow>
               let s = emit (SetWorldPose m (input_pose w s)) s;
                   s = s\<lparr>puck_on_conveyor := slot_puck slot\<rparr>;
                   s = storage_put index (slot\<lparr>slot_puck := [], has_puck := False\<rparr>) s
               in Inr (s\<lparr>storage_cnt := storage_cnt s - 1\<rparr>)))"

definition Storage_on_new_puck ::
    "gz \<Rightarrow> new_puck \<Rightarrow> 'a storage_station_scheme \<Rightarrow> storage_error + 'a storage_station_scheme" where
  "Storage_on_new_puck w msg s =
     (case find (\<lambda>i. slot_puck (storage s ! i) = np_puck_name msg) [0..<STORAGE_SIZE] of
        None \<Rightarrow> Inr s
      | Some i \<Rightarrow>
          let slot = storage s ! i;
              s = on_new_puck msg s;
              s = addRings (slot_puck slot) (ring_clrs slot) s
          in case model_by_name w (np_puck_name msg) of
               None \<Rightarrow> Inl (SS_null_model (np_puck_name msg))
             | Some puck \<Rightarrow>
                 store_puck puck (word_of_int (slot_x slot)) (word_of_int (slot_y slot))
                   (word_of_int (slot_z slot)) (addCap puck (cap_clr slot) s))"

text \<open>The command handler does nothing, which is within the contract.\<close>

interpretation storage_handler: station_handler
  "\<lambda>w s. Inr (Storage_process_command_in s)" action_id_in station client_action
  by unfold_locales (simp_all add: Storage_process_command_in_def)


section \<open>Places and indices\<close>

text \<open>The six places that \<open>cfg/config.yaml\<close> fills.\<close>

definition config_slots :: "string list" where
  "config_slots = [''000'', ''100'', ''200'', ''300'', ''400'', ''500'']"

definition slot_index :: "string \<Rightarrow> storage_error + int" where
  "slot_index p =
     and_then (slot_digit p 0) (\<lambda>x. and_then (slot_digit p 1) (\<lambda>y.
     and_then (slot_digit p 2) (\<lambda>z. Inr (getStorageIndex x y z))))"

lemma getStorageIndex_eq: "getStorageIndex x y z = 8 * z + 2 * y + x"
  by (simp add: getStorageIndex_def)

lemma slot_index_digits:
  assumes "x < 10" and "y < 10" and "z < 10"
  shows "slot_index [char_of (48 + x), char_of (48 + y), char_of (48 + z :: nat)]
       = Inr (getStorageIndex (int x) (int y) (int z))"
proof -
  have "sint (of_nat (48 + d) :: 8 word) - 48 = int d" if "d < 10" for d :: nat
  proof -
    have "sint (word_of_int (48 + int d) :: 8 word) = 48 + int d"
      using that by (subst int_word_sint) simp
    then show ?thesis by simp
  qed
  moreover have "(of_char (char_of (48 + d) :: char) :: 8 word) = of_nat (48 + d)"
    if "d < 10" for d :: nat
  proof -
    have "(of_char (char_of (48 + d :: nat) :: char) :: 8 word)
        = of_nat (of_char (char_of (48 + d :: nat) :: char))"
      by (simp only: of_nat_of_char)
    also have "(of_char (char_of (48 + d :: nat) :: char) :: nat) = 48 + d"
      using that by (simp only: of_char_of) simp
    finally show ?thesis .
  qed
  ultimately show ?thesis
    using assms by (simp add: slot_index_def slot_digit_def del: of_nat_add of_nat_numeral)
qed

text \<open>
  The index of a place is a bijection between the coordinates of the rack (two columns, four
  rows, six levels) and the positions of the array; the six places of the shipped
  configuration, whose first coordinate runs to 5, still have six different indices, but
  outside the rack different coordinates share an index, as (2,0,0) and (0,1,0) do.
\<close>

theorem storage_index_bijective:
  "bij_betw (\<lambda>(x, y, z). getStorageIndex x y z)
     ({0..<SLOT_X_COUNT} \<times> {0..<SLOT_Y_COUNT} \<times> {0..<SLOT_Z_COUNT}) {0..<int STORAGE_SIZE}
   \<and> map slot_index config_slots = map Inr [0, 1, 2, 3, 4, 5]
   \<and> getStorageIndex 2 0 0 = getStorageIndex 0 1 0"
proof (intro conjI)
  have inj: "x = x' \<and> y = y' \<and> z = z'"
    if "getStorageIndex x y z = getStorageIndex x' y' z'" "x \<in> {0..<2}" "x' \<in> {0..<2}"
      "y \<in> {0..<4}" "y' \<in> {0..<4}" for x y z x' y' z' :: int
  proof -
    from that have "8 * z + 2 * y + x = 8 * z' + 2 * y' + x'" by (simp add: getStorageIndex_eq)
    with that show ?thesis by auto presburger+
  qed
  have surj: "\<exists>x\<in>{0..<2}. \<exists>y\<in>{0..<4}. \<exists>z\<in>{0..<6}. i = getStorageIndex x y z"
    if "i \<in> {0..<48}" for i :: int
  proof -
    have "i = getStorageIndex (i mod 2) (i div 2 mod 4) (i div 8)"
      unfolding getStorageIndex_eq by presburger
    moreover have "i mod 2 \<in> {0..<2}" "i div 2 mod 4 \<in> {0..<4}" "i div 8 \<in> {0..<6}"
      using that by auto
    ultimately show ?thesis by blast
  qed
  show "bij_betw (\<lambda>(x, y, z). getStorageIndex x y z)
     ({0..<SLOT_X_COUNT} \<times> {0..<SLOT_Y_COUNT} \<times> {0..<SLOT_Z_COUNT}) {0..<int STORAGE_SIZE}"
    unfolding bij_betw_def
  proof
    show "inj_on (\<lambda>(x, y, z). getStorageIndex x y z)
     ({0..<SLOT_X_COUNT} \<times> {0..<SLOT_Y_COUNT} \<times> {0..<SLOT_Z_COUNT})"
    proof (rule inj_onI)
      fix p q :: "int \<times> int \<times> int"
      assume p: "p \<in> {0..<SLOT_X_COUNT} \<times> {0..<SLOT_Y_COUNT} \<times> {0..<SLOT_Z_COUNT}"
        and q: "q \<in> {0..<SLOT_X_COUNT} \<times> {0..<SLOT_Y_COUNT} \<times> {0..<SLOT_Z_COUNT}"
        and eq: "(\<lambda>(x, y, z). getStorageIndex x y z) p = (\<lambda>(x, y, z). getStorageIndex x y z) q"
      obtain x y z x' y' z' where [simp]: "p = (x, y, z)" "q = (x', y', z')"
        by (cases p, cases q) auto
      have "x = x' \<and> y = y' \<and> z = z'"
        by (rule inj) (use p q eq in simp_all)
      then show "p = q" by simp
    qed
    show "(\<lambda>(x, y, z). getStorageIndex x y z) `
     ({0..<SLOT_X_COUNT} \<times> {0..<SLOT_Y_COUNT} \<times> {0..<SLOT_Z_COUNT}) = {0..<int STORAGE_SIZE}"
    proof (intro set_eqI iffI)
      fix i
      assume "i \<in> {0..<int STORAGE_SIZE}"
      then have "i \<in> {0..<48}" by simp
      from surj [OF this] show "i \<in> (\<lambda>(x, y, z). getStorageIndex x y z) `
         ({0..<SLOT_X_COUNT} \<times> {0..<SLOT_Y_COUNT} \<times> {0..<SLOT_Z_COUNT})"
        by (auto simp: image_iff)
    qed (auto simp: getStorageIndex_eq)
  qed
  show "map slot_index config_slots = map Inr [0, 1, 2, 3, 4, 5]"
    by code_simp
  show "getStorageIndex 2 0 0 = getStorageIndex 0 1 0"
    by (simp add: getStorageIndex_eq)
qed

section \<open>The rack is consistent\<close>

text \<open>
  Every place that has, or is to get, a workpiece carries its own coordinates.
\<close>

definition slot_ok :: "int \<Rightarrow> storage_slot \<Rightarrow> bool" where
  "slot_ok i slot \<longleftrightarrow>
     (has_puck slot \<or> slot_puck slot \<noteq> [] \<longrightarrow>
        getStorageIndex (slot_x slot) (slot_y slot) (slot_z slot) = i
        \<and> {slot_x slot, slot_y slot, slot_z slot} \<subseteq> {- 1000..1000})"

definition storage_ok :: "'a storage_station_scheme \<Rightarrow> bool" where
  "storage_ok s \<longleftrightarrow> length (storage s) = STORAGE_SIZE
     \<and> (\<forall>i<STORAGE_SIZE. slot_ok (int i) (storage s ! i))"

lemma storage_okI:
  "length (storage s) = 48 \<Longrightarrow> (\<And>i. i < 48 \<Longrightarrow> slot_ok (int i) (storage s ! i)) \<Longrightarrow> storage_ok s"
  by (simp add: storage_ok_def)

lemma storage_okD:
  assumes "storage_ok s"
  shows "length (storage s) = 48" and "i < 48 \<Longrightarrow> slot_ok (int i) (storage s ! i)"
  using assms by (simp_all add: storage_ok_def)

lemma storage_put_simps [simp]:
  "storage (storage_put i slot s) = (storage s)[nat i := slot]"
  "storage_cnt (storage_put i slot s) = storage_cnt s"
  "trace (storage_put i slot s) = trace s"
  by (simp_all add: storage_put_def)

lemma storage_ok_update:
  assumes "length xs = 48" and "\<forall>i<48. slot_ok (int i) (xs ! i)" and "slot_ok (int j) slot"
  shows "\<forall>i<48. slot_ok (int i) (xs[j := slot] ! i)"
proof (intro allI impI)
  fix i :: nat
  assume "i < 48"
  with assms show "slot_ok (int i) (xs[j := slot] ! i)" by (cases "i = j") simp_all
qed

lemma storage_ok_put:
  "storage_ok s \<Longrightarrow> 0 \<le> i \<Longrightarrow> slot_ok i slot \<Longrightarrow> storage_ok (storage_put i slot s)"
  using storage_ok_update [of "storage s" "nat i" slot] by (simp add: storage_ok_def)

lemma storage_at_Inr: "storage_at s i = Inr slot \<longleftrightarrow>
    0 \<le> i \<and> i < int (length (storage s)) \<and> slot = storage s ! nat i"
  by (auto simp: storage_at_def)

lemma storage_emit [simp]:
  "storage (emit x s) = storage s" "storage_cnt (emit x s) = storage_cnt s"
  "storage_ok (emit x s) = storage_ok s"
  by (simp_all add: emit_def storage_ok_def)

lemma storage_ok_cong: "storage s = storage t \<Longrightarrow> storage_ok s = storage_ok t"
  by (simp add: storage_ok_def)

lemma sint_word_slot: "x \<in> {- 1000..1000} \<Longrightarrow> sint (word_of_int x :: u32) = x"
  by (subst int_word_sint) simp

lemma configure_slot_ok:
  assumes "configure_slot cfg x y z slot = Inr slot'" and "getStorageIndex x y z = i"
    and "{x, y, z} \<subseteq> {- 1000..1000}"
  shows "slot_ok i slot'"
proof -
  have "slot_x slot' = x \<and> slot_y slot' = y \<and> slot_z slot' = z"
    using assms(1)
    by (auto simp: configure_slot_def Let_def split: if_splits option.splits)
  then show ?thesis using assms(2,3) by (simp add: slot_ok_def)
qed

lemma slot_digit_range:
  assumes "slot_digit p i = Inr x" shows "x \<in> {- 1000..1000}"
proof -
  have "x = sint (of_char (p ! i) :: 8 word) - 48" using assms by (simp add: slot_digit_def split: if_splits)
  moreover have "- 128 \<le> sint (of_char (p ! i) :: 8 word)" "sint (of_char (p ! i) :: 8 word) < 128"
    using sint_greater_eq [of "of_char (p ! i) :: 8 word"] sint_less [of "of_char (p ! i) :: 8 word"]
    by simp_all
  ultimately show ?thesis by simp
qed

lemma init_slot_ok: "init_slot g p s = Inr s' \<Longrightarrow> storage_ok s \<Longrightarrow> storage_ok s'"
  unfolding init_slot_def Let_def
  by (auto simp: and_then_Inr_iff storage_at_Inr
        intro!: storage_ok_put configure_slot_ok dest: slot_digit_range)

lemma init_slots_ok: "init_slots g ps s = Inr s' \<Longrightarrow> storage_ok s \<Longrightarrow> storage_ok s'"
  by (induction g ps s rule: init_slots.induct) (auto simp: and_then_Inr_iff dest: init_slot_ok)

lemma spawn_puck_storage:
  fixes s :: "'a storage_station_scheme"
  assumes "spawn_puck e p c s = Inr (s', n)"
  shows "storage s' = storage s"
  by (rule spawn_puck_cases [of e p c s]) (use assms in auto)

lemma spawn_slots_ok:
  "spawn_slots e is s = Inr s' \<Longrightarrow> storage_ok s \<Longrightarrow> set is \<subseteq> {0..<48} \<Longrightarrow> storage_ok s'"
proof (induction e "is" s rule: spawn_slots.induct)
  case (1 e s)
  then show ?case by simp
next
  case (2 e i "is" s)
  show ?case
  proof (cases "has_puck (storage s ! i)")
    case False
    with 2 show ?thesis by (simp add: Let_def)
  next
    case True
    with "2.prems" obtain s1 n where sp: "spawn_puck (e i)
        (get_slot_World_position s (word_of_int (slot_x (storage s ! i)))
          (word_of_int (slot_y (storage s ! i))) (word_of_int (slot_z (storage s ! i))))
        (base_clr (storage s ! i)) s = Inr (s1, n)"
      and rest: "spawn_slots e is (if n = [] then s1
         else s1\<lparr>storage := (storage s1)[i := (storage s1 ! i)\<lparr>slot_puck := n\<rparr>]\<rparr>) = Inr s'"
      by (auto simp: Let_def and_then_Inr_iff)
    from spawn_puck_storage [OF sp] have st: "storage s1 = storage s" .
    have "storage_ok (if n = [] then s1
         else s1\<lparr>storage := (storage s1)[i := (storage s1 ! i)\<lparr>slot_puck := n\<rparr>]\<rparr>)"
    proof -
      have "slot_ok (int i) ((storage s ! i)\<lparr>slot_puck := n\<rparr>)"
        using "2.prems"(2,3) True by (simp add: storage_ok_def slot_ok_def)
      then show ?thesis
        using "2.prems"(2) st storage_ok_update [of "storage s" i] by (simp add: storage_ok_def)
    qed
    from "2.IH"(1) [OF refl True rest this] "2.prems"(3) show ?thesis by simp
  qed
qed

lemma grabTag_storage:
  "grabTag w l t j (s :: 'a storage_station_scheme) = Inr s' \<Longrightarrow> storage s' = storage s"
  by (auto simp: grabTag_def split: sum.splits option.splits)

lemma OnUpdate_storage:
  "OnUpdate w (s :: 'a storage_station_scheme) = Inr s' \<Longrightarrow> storage s' = storage s"
  by (auto simp: OnUpdate_def dest!: grabTag_storage split: if_splits sum.splits)

lemma Storage_OnUpdate_ok: "Storage_OnUpdate w e s = Inr s' \<Longrightarrow> storage_ok s \<Longrightarrow> storage_ok s'"
proof -
  assume upd: "Storage_OnUpdate w e s = Inr s'" and ok: "storage_ok s"
  then obtain s1 where s1: "OnUpdate w s = Inr s1"
    and c: "s1 = s' \<or> (\<exists>s2. spawn_slots e [0..<48] s1 = Inr s2 \<and> s' = s2\<lparr>pucks_spawned := True\<rparr>)"
    by (auto simp: Storage_OnUpdate_def and_then_Inr_iff split: if_splits)
  have ok1: "storage_ok s1" using ok OnUpdate_storage [OF s1] storage_ok_cong by blast
  from c show "storage_ok s'"
  proof
    assume "\<exists>s2. spawn_slots e [0..<48] s1 = Inr s2 \<and> s' = s2\<lparr>pucks_spawned := True\<rparr>"
    then obtain s2 where s2: "spawn_slots e [0..<48] s1 = Inr s2" and s': "s' = s2\<lparr>pucks_spawned := True\<rparr>"
      by blast
    have "storage_ok s2" by (rule spawn_slots_ok [OF s2 ok1]) simp
    then show ?thesis using s' by (simp add: storage_ok_def)
  qed (use ok1 in simp)
qed

lemma storage_fold_rings [simp]:
  "storage (addRings n cs s) = storage s" "trace (addRings n cs s) = trace s @
     map (\<lambda>c. PubPuckCommand \<lparr>cmd_command = ADD_RING, cmd_color = [c], cmd_puck_name = n,
                cmd_team_color = None\<rparr>) cs"
  unfolding addRings_def by (induction cs arbitrary: s) (simp_all add: emit_def)

lemma store_puck_ok:
  assumes "storage_ok s" and "slot_ok (int i) (storage s ! i)" and "i < 48"
    and "slot_puck (storage s ! i) = n" and "n \<noteq> []"
  shows "store_puck n (word_of_int (slot_x (storage s ! i))) (word_of_int (slot_y (storage s ! i)))
           (word_of_int (slot_z (storage s ! i))) s = Inr s"
proof -
  have ix: "getStorageIndex (slot_x (storage s ! i)) (slot_y (storage s ! i)) (slot_z (storage s ! i)) = int i"
    and rng: "slot_x (storage s ! i) \<in> {- 1000..1000}" "slot_y (storage s ! i) \<in> {- 1000..1000}"
      "slot_z (storage s ! i) \<in> {- 1000..1000}"
    using assms(2,4,5) by (simp_all add: slot_ok_def)
  show ?thesis
    using assms(3-5) storage_okD(1) [OF assms(1)]
    by (simp add: store_puck_def Let_def sint_word_slot [OF rng(1)] sint_word_slot [OF rng(2)]
          sint_word_slot [OF rng(3)] ix storage_at_def)
qed

lemma on_new_puck_storage [simp]:
  "storage (on_new_puck m s) = storage s" "trace (on_new_puck m s) = trace s"
  by (simp_all add: on_new_puck_def)

text \<open>What the announcement of a workpiece of the rack does.\<close>

lemma Storage_on_new_puck_found:
  assumes "storage_ok s" and "find (\<lambda>i. slot_puck (storage s ! i) = n) [0..<48] = Some i"
    and "n \<noteq> []" and "n \<in> set (gz_models w)"
  shows "Storage_on_new_puck w \<lparr>np_puck_name = n, np_gps_topic = g\<rparr> s =
    Inr (addCap n (cap_clr (storage s ! i)) (addRings n (ring_clrs (storage s ! i))
          (on_new_puck \<lparr>np_puck_name = n, np_gps_topic = g\<rparr> s)))"
proof -
  let ?m = "\<lparr>np_puck_name = n, np_gps_topic = g\<rparr>"
  let ?s = "addCap n (cap_clr (storage s ! i)) (addRings n (ring_clrs (storage s ! i)) (on_new_puck ?m s))"
  have i: "i < 48" "slot_puck (storage s ! i) = n" using find_Some_first [OF assms(2)] by auto
  have st: "storage ?s = storage s" by (simp add: addCap_def)
  then have ok: "storage_ok ?s" using assms(1) storage_ok_cong by blast
  have "store_puck n (word_of_int (slot_x (storage s ! i))) (word_of_int (slot_y (storage s ! i)))
           (word_of_int (slot_z (storage s ! i))) ?s = Inr ?s"
    using store_puck_ok [OF ok, of i n] storage_okD(2) [OF assms(1) i(1)] i assms(3) by (simp add: st)
  then show ?thesis
    using assms(2,4) i by (simp add: Storage_on_new_puck_def model_by_name_def Let_def)
qed

lemma retrieve_puck_ok:
  assumes "storage_ok s" and "retrieve_puck w x y z s = Inr s'"
  shows "storage_ok s'"
proof -
  have "slot_ok i (slot\<lparr>slot_puck := [], has_puck := False\<rparr>)" for i slot
    by (simp add: slot_ok_def)
  moreover have "storage_ok (t\<lparr>storage_cnt := c\<rparr>) = storage_ok t"
    "storage_ok (t\<lparr>puck_on_conveyor := q\<rparr>) = storage_ok t" for t :: "'a storage_station_scheme" and c q
    by (simp_all add: storage_ok_def)
  ultimately show ?thesis
    using assms
    by (auto simp: retrieve_puck_def Let_def and_then_Inr_iff storage_at_Inr
          split: if_splits option.splits intro!: storage_ok_put)
qed

text \<open>
  The rack stays consistent: the constructor (whatever the uninitialised memory holds, and
  for every configuration it accepts), the update with its spawning loop, the announcement of
  a workpiece with a name and the retrieval of a workpiece keep every occupied place at the
  index of the coordinates it carries.
\<close>

theorem storage_invariant:
  "(StorageStation_new gi gf gs junk w n = Inr s0 \<longrightarrow> storage_ok s0)
   \<and> (storage_ok s \<longrightarrow>
        (Storage_OnUpdate w e s = Inr s1 \<longrightarrow> storage_ok s1)
        \<and> (np_puck_name msg \<noteq> [] \<and> Storage_on_new_puck w msg s = Inr s2 \<longrightarrow> storage_ok s2)
        \<and> (retrieve_puck w x y z s = Inr s3 \<longrightarrow> storage_ok s3))"
proof (intro conjI impI)
  assume "StorageStation_new gi gf gs junk w n = Inr s0"
  then obtain t where t: "init_slots gs (gs ''plugins/mps/storage-station/slots'') t = Inr s0"
    and st: "storage t = map (\<lambda>i. (junk i)\<lparr>slot_puck := [], has_puck := False, ring_clrs := []\<rparr>) [0..<48]"
    by (auto simp: StorageStation_new_def init_storage_def and_then_Inr_iff mps.defs)
  have "storage_ok t" by (rule storage_okI) (simp_all add: st slot_ok_def)
  with t show "storage_ok s0" by (rule init_slots_ok)
next
  assume "storage_ok s" "Storage_OnUpdate w e s = Inr s1"
  then show "storage_ok s1" by (blast intro: Storage_OnUpdate_ok)
next
  assume ok: "storage_ok s" and m: "np_puck_name msg \<noteq> [] \<and> Storage_on_new_puck w msg s = Inr s2"
  obtain n g where msg: "msg = \<lparr>np_puck_name = n, np_gps_topic = g\<rparr>" by (cases msg) auto
  show "storage_ok s2"
  proof (cases "find (\<lambda>i. slot_puck (storage s ! i) = n) [0..<48]")
    case None
    with m ok msg show ?thesis by (simp add: Storage_on_new_puck_def)
  next
    case (Some i)
    from m msg Some have "n \<in> set (gz_models w)"
      by (auto simp: Storage_on_new_puck_def model_by_name_def Let_def split: if_splits)
    from Storage_on_new_puck_found [OF ok Some _ this] m msg
    have "storage s2 = storage s" by (auto simp: addCap_def)
    with ok storage_ok_cong show ?thesis by blast
  qed
next
  assume "storage_ok s" "retrieve_puck w x y z s = Inr s3"
  then show "storage_ok s3" by (rule retrieve_puck_ok)
qed

text \<open>A rack with one workpiece at (1, 2, 3).\<close>

definition empty_slot :: storage_slot where
  "empty_slot = \<lparr>slot_puck = [], slot_x = 0, slot_y = 0, slot_z = 0, has_puck = False,
     base_clr = RED, ring_clrs = [], cap_clr = NONE\<rparr>"

definition full_slot :: storage_slot where
  "full_slot = \<lparr>slot_puck = ''puck_1'', slot_x = 1, slot_y = 2, slot_z = 3, has_puck = True,
     base_clr = RED, ring_clrs = [BLUE, GREEN], cap_clr = GREY\<rparr>"

definition demo_storage :: storage_station where
  "demo_storage = mps.extend demo_mps
     \<lparr>storage = (replicate 48 empty_slot)[29 := full_slot], pucks_spawned = True,
      storage_cnt = 0, shelf_pos_x = 10, shelf_pos_y = 10, puck_on_conveyor = []\<rparr>"

lemma storage_demo [simp]:
  "storage demo_storage = (replicate 48 empty_slot)[29 := full_slot]"
  "storage_cnt demo_storage = 0" "trace demo_storage = trace demo_mps"
  by (simp_all add: demo_storage_def mps.defs)

lemma demo_storage_ok: "storage_ok demo_storage"
proof (rule storage_okI)
  fix i :: nat
  assume "i < 48"
  then show "slot_ok (int i) (storage demo_storage ! i)"
    by (cases "i = 29") (simp_all add: slot_ok_def full_slot_def empty_slot_def getStorageIndex_eq)
qed simp

theorem storage_invariant_witness:
  "\<exists>s3. retrieve_puck demo_world 1 2 3 demo_storage = Inr s3 \<and> storage_ok s3"
proof -
  have "\<exists>s3. retrieve_puck demo_world 1 2 3 demo_storage = Inr s3"
    by (simp add: retrieve_puck_def storage_at_def getStorageIndex_eq full_slot_def
          model_by_name_def demo_world_def)
  then obtain s3 where s3: "retrieve_puck demo_world 1 2 3 demo_storage = Inr s3" by blast
  with demo_storage_ok show ?thesis
    using storage_invariant [where s = demo_storage and w = demo_world and x = 1 and y = 2
        and z = 3 and ?s3.0 = s3] by blast
qed

text \<open>
  When a workpiece of the rack announces itself, the station tells it exactly the rings of
  its place, in the configured order and from the bottom up, and after them one cap, and the
  rack stays as it is: the workpiece is found to be stored already. A workpiece with a name
  that no place carries is ignored.
\<close>

theorem storage_announcement:
  assumes "storage_ok s" and "n \<noteq> []" and "n \<in> set (gz_models w)"
  shows "(case find (\<lambda>i. slot_puck (storage s ! i) = n) [0..<STORAGE_SIZE] of
      None \<Rightarrow> Storage_on_new_puck w \<lparr>np_puck_name = n, np_gps_topic = g\<rparr> s = Inr s
    | Some i \<Rightarrow> \<exists>s'. Storage_on_new_puck w \<lparr>np_puck_name = n, np_gps_topic = g\<rparr> s = Inr s'
        \<and> trace s' = trace s
            @ map (\<lambda>c. PubPuckCommand \<lparr>cmd_command = ADD_RING, cmd_color = [c],
                        cmd_puck_name = n, cmd_team_color = None\<rparr>) (ring_clrs (storage s ! i))
            @ [PubPuckCommand \<lparr>cmd_command = ADD_CAP, cmd_color = [cap_clr (storage s ! i)],
                 cmd_puck_name = n, cmd_team_color = None\<rparr>]
        \<and> storage s' = storage s \<and> puck_subs s' = puck_subs s @ [g])"
proof (cases "find (\<lambda>i. slot_puck (storage s ! i) = n) [0..<48]")
  case None
  then show ?thesis by (simp add: Storage_on_new_puck_def)
next
  case (Some i)
  have subs: "puck_subs (addCap a c t) = puck_subs t" "puck_subs (addRings a cs t) = puck_subs t"
    for a c cs and t :: "'a storage_station_scheme"
    unfolding addRings_def addCap_def by (induction cs arbitrary: t) (simp_all add: emit_def)
  have tr: "trace (addCap a c t) = trace t @ [PubPuckCommand \<lparr>cmd_command = ADD_CAP,
       cmd_color = [c], cmd_puck_name = a, cmd_team_color = None\<rparr>]"
    and st: "storage (addCap a c t) = storage t" for a c and t :: "'a storage_station_scheme"
    by (simp_all add: addCap_def emit_def)
  show ?thesis
    unfolding STORAGE_SIZE_def Some option.case Storage_on_new_puck_found [OF assms(1) Some assms(2,3)]
    by (simp add: subs tr st) (simp add: on_new_puck_def)
qed

theorem storage_announcement_witness:
  "\<exists>s'. Storage_on_new_puck demo_world \<lparr>np_puck_name = ''puck_1'', np_gps_topic = []\<rparr> demo_storage = Inr s'
     \<and> length (trace s') = length (trace demo_mps) + 3"
proof -
  have "find (\<lambda>i. slot_puck (storage demo_storage ! i) = ''puck_1'') [0..<STORAGE_SIZE] = Some 29"
    unfolding STORAGE_SIZE_def storage_demo by code_simp
  moreover have "ring_clrs (storage demo_storage ! 29) = [BLUE, GREEN]" by (simp add: full_slot_def)
  ultimately show ?thesis
    using storage_announcement [OF demo_storage_ok, of "''puck_1''" demo_world "[]"]
    by (auto simp: demo_world_def)
qed

text \<open>
  A retrieval from an occupied place moves that workpiece to the input and empties the place
  for good: a second retrieval from the same coordinates changes nothing. The counter of
  stored workpieces, which the announcements never count up, goes down with every retrieval.
\<close>

theorem retrieve_puck_once:
  assumes "storage_at s (getStorageIndex (sint x) (sint y) (sint z)) = Inr slot"
    and "slot_puck slot \<noteq> []" and "slot_puck slot \<in> set (gz_models w)"
  shows "\<exists>s'. retrieve_puck w x y z s = Inr s'
    \<and> trace s' = trace s @ [SetWorldPose (slot_puck slot) (input_pose w s)]
    \<and> puck_on_conveyor s' = slot_puck slot
    \<and> storage_cnt s' = storage_cnt s - 1
    \<and> storage_at s' (getStorageIndex (sint x) (sint y) (sint z))
        = Inr (slot\<lparr>slot_puck := [], has_puck := False\<rparr>)
    \<and> retrieve_puck w x y z s' = Inr s'"
proof -
  let ?i = "getStorageIndex (sint x) (sint y) (sint z)"
  have i: "0 \<le> ?i" "?i < int (length (storage s))" using assms(1) by (simp_all add: storage_at_Inr)
  then have len: "nat ?i < length (storage s)" by linarith
  show ?thesis
    using i len assms
    by (simp add: retrieve_puck_def model_by_name_def storage_at_def storage_put_def emit_def)
qed

theorem retrieve_puck_once_witness:
  "\<exists>s'. retrieve_puck demo_world 1 2 3 demo_storage = Inr s' \<and> storage_cnt s' = - 1"
proof -
  have "storage_at demo_storage (getStorageIndex (sint (1 :: u32)) (sint (2 :: u32)) (sint (3 :: u32)))
      = Inr full_slot"
    by (simp add: storage_at_def getStorageIndex_eq)
  from retrieve_puck_once [OF this, of demo_world] show ?thesis
    by (auto simp: full_slot_def demo_world_def)
qed

end
