(* ===== verification/Puck.thy ===== *)
theory Puck
  imports Gazebo
begin

text \<open>
  \<open>plugins/puck/puck.cpp\<close>: the plugin of one workpiece. It announces itself once, and it turns
  the commands of the machines into rings, a cap, a result message or a delivery.
\<close>

section \<open>State\<close>

text \<open>The enumerations and the message of \<open>llsf_msgs\<close> that a delivery uses.\<close>

datatype base_color = BASE_RED | BASE_BLACK | BASE_SILVER
datatype ring_color = RING_BLUE | RING_GREEN | RING_ORANGE | RING_YELLOW
datatype cap_color = CAP_BLACK | CAP_GREY

record delivery =
  dlv_team :: "team option"
  dlv_base :: "base_color option"
  dlv_rings :: "ring_color list"
  dlv_cap :: "cap_color option"

datatype puck_effect =
    PuckVisual visual
  | PuckAnnounce new_puck
  | PuckResult workpiece_result
  | PuckDelivery delivery

text \<open>
  \<open>pk_radius\<close> is half the extent of the model's bounding box, \<open>pk_cfg\<close> is
  \<open>config->get_float\<close>. \<open>cap_color_\<close> is not initialised by the code; its initial value is a
  parameter of \<open>Puck_Load\<close>.
\<close>

record puck =
  pk_name :: string
  pk_radius :: real
  pk_cfg :: "string \<Rightarrow> real"
  announced :: bool
  ring_count :: nat
  have_cap :: bool
  pk_cap_color :: color
  pk_base_color :: color
  ring_colors :: "color list"
  pk_trace :: "puck_effect list"

datatype puck_error = Color_index nat

definition RING_HEIGHT :: "puck \<Rightarrow> real" where
  "RING_HEIGHT p = pk_cfg p ''plugins/puck/ring_height''"
definition CAP_HEIGHT :: "puck \<Rightarrow> real" where
  "CAP_HEIGHT p = pk_cfg p ''plugins/puck/cap_height''"
definition WORKPIECE_HEIGHT :: "puck \<Rightarrow> real" where
  "WORKPIECE_HEIGHT p = pk_cfg p ''plugins/puck/workpiece_height''"

definition puck_emit :: "puck_effect \<Rightarrow> puck \<Rightarrow> puck" where
  "puck_emit e p = p\<lparr>pk_trace := pk_trace p @ [e]\<rparr>"

lemma puck_emit_simps [simp]:
  "pk_name (puck_emit e p) = pk_name p" "ring_count (puck_emit e p) = ring_count p"
  "ring_colors (puck_emit e p) = ring_colors p" "have_cap (puck_emit e p) = have_cap p"
  "pk_cap_color (puck_emit e p) = pk_cap_color p" "pk_base_color (puck_emit e p) = pk_base_color p"
  "announced (puck_emit e p) = announced p" "pk_cfg (puck_emit e p) = pk_cfg p"
  "pk_radius (puck_emit e p) = pk_radius p" "pk_trace (puck_emit e p) = pk_trace p @ [e]"
  by (simp_all add: puck_emit_def)

text \<open>\<open>baseColor\<close> of the model file, if it has that element.\<close>

definition base_color_of_sdf :: "string option \<Rightarrow> color" where
  "base_color_of_sdf sdf =
     (case sdf of
        None \<Rightarrow> RED
      | Some config_color \<Rightarrow>
          if config_color = ''RED'' then RED
          else if config_color = ''BLACK'' then BLACK
          else if config_color = ''SILVER'' then SILVER
          else RED)"

definition Puck_Load ::
    "(string \<Rightarrow> real) \<Rightarrow> real \<Rightarrow> color \<Rightarrow> string \<Rightarrow> string option \<Rightarrow> puck" where
  "Puck_Load get_float radius junk n sdf =
     \<lparr>pk_name = n, pk_radius = radius, pk_cfg = get_float, announced = False, ring_count = 0,
      have_cap = False, pk_cap_color = junk, pk_base_color = base_color_of_sdf sdf,
      ring_colors = [], pk_trace = []\<rparr>"

definition Puck_OnUpdate :: "puck \<Rightarrow> puck" where
  "Puck_OnUpdate p =
     (if \<not> announced p
      then (puck_emit (PuckAnnounce \<lparr>np_puck_name = pk_name p,
              np_gps_topic = ''~/'' @ pk_name p @ ''/gazsim/gps/''\<rparr>) p)\<lparr>announced := True\<rparr>
      else p)"

section \<open>Visuals\<close>

definition diffuse_of :: "color \<Rightarrow> rgba" where
  "diffuse_of clr =
     (case clr of
        RED \<Rightarrow> rgb 1 0 0 | BLUE \<Rightarrow> rgb 0 0 1 | GREEN \<Rightarrow> rgb 0 1 0 | BLACK \<Rightarrow> rgb 0 0 0
      | YELLOW \<Rightarrow> rgb 255 255 0 | ORANGE \<Rightarrow> rgb 255 127 0 | _ \<Rightarrow> rgb 0.2 0.2 0.2)"

definition emissive_of :: "color \<Rightarrow> rgba" where
  "emissive_of clr =
     (case clr of
        RED \<Rightarrow> rgb 0 0 0 | BLUE \<Rightarrow> rgb 0 0 0 | GREEN \<Rightarrow> rgb 0 0 0 | BLACK \<Rightarrow> (0, 0, 0, 0)
      | YELLOW \<Rightarrow> rgb 0 0 0 | ORANGE \<Rightarrow> rgb 0 0 0 | _ \<Rightarrow> (0.2, 0.2, 0.2, 0.2))"

definition ambient_of :: "color \<Rightarrow> rgba" where
  "ambient_of clr =
     (case clr of
        RED \<Rightarrow> rgb 1 0 0 | BLUE \<Rightarrow> rgb 0 0 1 | GREEN \<Rightarrow> rgb 0 1 0 | BLACK \<Rightarrow> (0, 0, 0, 0)
      | YELLOW \<Rightarrow> rgb 1 1 0 | ORANGE \<Rightarrow> rgb 1 0.5 0 | _ \<Rightarrow> (0.2, 0.2, 0.2, 0.2))"

definition create_visual_msg :: "string \<Rightarrow> real \<Rightarrow> color \<Rightarrow> puck \<Rightarrow> visual" where
  "create_visual_msg element_name element_height clr p =
     (let vis_middle = WORKPIECE_HEIGHT p / 2 + real (ring_count p) * RING_HEIGHT p
                         + element_height / 2
      in empty_visual
           \<lparr>vis_parent_name := pk_name p @ ''::cylinder'',
            vis_name := pk_name p @ ''::cylinder::'' @ element_name,
            vis_cast_shadows := Some False,
            vis_cylinder := Some (pk_radius p, element_height),
            vis_diffuse := Some (diffuse_of clr),
            vis_emissive := Some (emissive_of clr),
            vis_ambient := Some (ambient_of clr),
            vis_pose := Some (Pose3d 0 0 vis_middle 0 0 0)\<rparr>)"

section \<open>Operations\<close>

definition add_ring :: "color \<Rightarrow> puck \<Rightarrow> puck" where
  "add_ring clr p =
     (let ring_name = ''ring_'' @ dec_str (ring_count p);
          visual_msg = create_visual_msg ring_name (RING_HEIGHT p) clr p;
          p = p\<lparr>ring_colors := ring_colors p @ [clr]\<rparr>;
          p = puck_emit (PuckVisual visual_msg) p
      in p\<lparr>ring_count := ring_count p + 1\<rparr>)"

definition add_cap :: "color \<Rightarrow> puck \<Rightarrow> puck" where
  "add_cap clr p =
     (puck_emit (PuckVisual (create_visual_msg ''cap'' (CAP_HEIGHT p) clr p)) p)
       \<lparr>have_cap := True, pk_cap_color := clr\<rparr>"

definition remove_cap :: "puck \<Rightarrow> puck" where
  "remove_cap p =
     (let vis_msg = (create_visual_msg ''cap'' (CAP_HEIGHT p) RED p)\<lparr>vis_visible := Some False\<rparr>;
          p = puck_emit (PuckVisual vis_msg) p;
          p = puck_emit (PuckResult \<lparr>res_color = pk_cap_color p, res_puck_name = pk_name p\<rparr>) p
      in p\<lparr>have_cap := False\<rparr>)"

definition delivered_base :: "color \<Rightarrow> base_color option" where
  "delivered_base c = (case c of RED \<Rightarrow> Some BASE_RED | BLACK \<Rightarrow> Some BASE_BLACK
     | SILVER \<Rightarrow> Some BASE_SILVER | _ \<Rightarrow> None)"

definition delivered_ring :: "color \<Rightarrow> ring_color option" where
  "delivered_ring c = (case c of GREEN \<Rightarrow> Some RING_GREEN | BLUE \<Rightarrow> Some RING_BLUE
     | YELLOW \<Rightarrow> Some RING_YELLOW | ORANGE \<Rightarrow> Some RING_ORANGE | _ \<Rightarrow> None)"

definition delivered_cap :: "color \<Rightarrow> cap_color option" where
  "delivered_cap c = (case c of GREY \<Rightarrow> Some CAP_GREY | BLACK \<Rightarrow> Some CAP_BLACK | _ \<Rightarrow> None)"

text \<open>
  \<open>deliver\<close> reads \<open>ring_colors_[i]\<close> for the indices below \<open>ring_count_\<close>; reading beyond the end
  is an error here.
\<close>

fun ring_list :: "color list \<Rightarrow> nat list \<Rightarrow> puck_error + ring_color list" where
  "ring_list cs [] = Inr []"
| "ring_list cs (i # is) =
     (if i < length cs
      then and_then (ring_list cs is) (\<lambda>rs.
             Inr (case delivered_ring (cs ! i) of None \<Rightarrow> rs | Some r \<Rightarrow> r # rs))
      else Inl (Color_index i))"

definition deliver :: "team \<Rightarrow> puck \<Rightarrow> puck_error + puck" where
  "deliver team p =
     and_then (ring_list (ring_colors p) [0..<ring_count p]) (\<lambda>rs.
       Inr (puck_emit (PuckDelivery
         \<lparr>dlv_team = Some team, dlv_base = delivered_base (pk_base_color p), dlv_rings = rs,
          dlv_cap = (if have_cap p then delivered_cap (pk_cap_color p) else None)\<rparr>) p))"

text \<open>\<open>cmd->color(0)\<close> needs a first color. An unset \<open>team_color\<close> reads as the first
  enumerator.\<close>

definition cmd_team :: "workpiece_command \<Rightarrow> team" where
  "cmd_team cmd = (case cmd_team_color cmd of None \<Rightarrow> CYAN | Some t \<Rightarrow> t)"

definition on_command_msg :: "workpiece_command \<Rightarrow> puck \<Rightarrow> puck_error + puck" where
  "on_command_msg cmd p =
     (if cmd_puck_name cmd \<noteq> pk_name p then Inr p
      else case cmd_command cmd of
        ADD_RING \<Rightarrow> Inr (fold add_ring (cmd_color cmd) p)
      | ADD_CAP \<Rightarrow> (case cmd_color cmd of [] \<Rightarrow> Inl (Color_index 0) | c # _ \<Rightarrow> Inr (add_cap c p))
      | REMOVE_CAP \<Rightarrow>
          if have_cap p then Inr (remove_cap p)
          else Inr (puck_emit (PuckResult \<lparr>res_color = NONE, res_puck_name = pk_name p\<rparr>) p)
      | DELIVER \<Rightarrow> deliver (cmd_team cmd) p)"

fun run_commands :: "workpiece_command list \<Rightarrow> puck \<Rightarrow> puck_error + puck" where
  "run_commands [] p = Inr p"
| "run_commands (c # cs) p = and_then (on_command_msg c p) (run_commands cs)"

lemma run_commands_append:
  "run_commands (xs @ ys) p = and_then (run_commands xs p) (run_commands ys)"
proof (induction xs arbitrary: p)
  case (Cons a xs)
  then show ?case by (cases "on_command_msg a p") simp_all
qed simp

section \<open>The invariant\<close>

definition puck_ok :: "puck \<Rightarrow> bool" where
  "puck_ok p \<longleftrightarrow> ring_count p = length (ring_colors p)
                 \<and> pk_base_color p \<in> {RED, BLACK, SILVER}"

lemma add_ring_simps [simp]:
  "ring_colors (add_ring c p) = ring_colors p @ [c]"
  "ring_count (add_ring c p) = Suc (ring_count p)"
  "have_cap (add_ring c p) = have_cap p"
  "pk_cap_color (add_ring c p) = pk_cap_color p"
  "pk_base_color (add_ring c p) = pk_base_color p"
  "pk_name (add_ring c p) = pk_name p"
  "pk_cfg (add_ring c p) = pk_cfg p"
  "announced (add_ring c p) = announced p"
  "pk_trace (add_ring c p) = pk_trace p @ [PuckVisual
     (create_visual_msg (''ring_'' @ dec_str (ring_count p)) (RING_HEIGHT p) c p)]"
  by (simp_all add: add_ring_def Let_def create_visual_msg_def)

lemma add_rings_simps [simp]:
  "ring_colors (fold add_ring cs p) = ring_colors p @ cs"
  "ring_count (fold add_ring cs p) = ring_count p + length cs"
  "have_cap (fold add_ring cs p) = have_cap p"
  "pk_cap_color (fold add_ring cs p) = pk_cap_color p"
  "pk_base_color (fold add_ring cs p) = pk_base_color p"
  "pk_name (fold add_ring cs p) = pk_name p"
  by (induction cs arbitrary: p) simp_all

lemma add_cap_simps [simp]:
  "ring_colors (add_cap c p) = ring_colors p" "ring_count (add_cap c p) = ring_count p"
  "have_cap (add_cap c p)" "pk_cap_color (add_cap c p) = c"
  "pk_base_color (add_cap c p) = pk_base_color p" "pk_name (add_cap c p) = pk_name p"
  by (simp_all add: add_cap_def)

lemma remove_cap_simps [simp]:
  "ring_colors (remove_cap p) = ring_colors p" "ring_count (remove_cap p) = ring_count p"
  "\<not> have_cap (remove_cap p)" "pk_cap_color (remove_cap p) = pk_cap_color p"
  "pk_base_color (remove_cap p) = pk_base_color p" "pk_name (remove_cap p) = pk_name p"
  by (simp_all add: remove_cap_def Let_def)

lemma ring_list_total:
  "set is \<subseteq> {0..<length cs} \<Longrightarrow>
   ring_list cs is = Inr (List.map_filter (\<lambda>i. delivered_ring (cs ! i)) is)"
  by (induction "is") (auto simp: map_filter_simps split: option.splits)

lemma map_filter_nth:
  "List.map_filter (\<lambda>i. f (cs ! i)) [0..<length cs] = List.map_filter f cs"
proof -
  have "List.map_filter (\<lambda>i. f (cs ! i)) xs = List.map_filter f (map (\<lambda>i. cs ! i) xs)" for xs
    by (induction xs) (simp_all add: map_filter_simps split: option.splits)
  then show ?thesis by (simp only: map_nth)
qed

lemma ring_list_ok: "puck_ok p \<Longrightarrow>
   ring_list (ring_colors p) [0..<ring_count p] = Inr (List.map_filter delivered_ring (ring_colors p))"
  by (subst ring_list_total) (auto simp: puck_ok_def map_filter_nth)

lemma puck_ok_emit [simp]: "puck_ok (puck_emit e p) = puck_ok p"
  by (simp add: puck_ok_def)

lemma deliver_ok:
  assumes "puck_ok p"
  shows "deliver team p = Inr (puck_emit (PuckDelivery
         \<lparr>dlv_team = Some team, dlv_base = delivered_base (pk_base_color p),
          dlv_rings = List.map_filter delivered_ring (ring_colors p),
          dlv_cap = (if have_cap p then delivered_cap (pk_cap_color p) else None)\<rparr>) p)"
  by (simp add: deliver_def ring_list_ok [OF assms])

text \<open>The commands that a workpiece can carry out: a cap needs a color.\<close>

definition cmd_ok :: "workpiece_command \<Rightarrow> bool" where
  "cmd_ok c = (cmd_command c = ADD_CAP \<longrightarrow> cmd_color c \<noteq> [])"

section \<open>The product\<close>

text \<open>
  What a workpiece is to the rest of the system: its base, its rings from the bottom up and
  its cap, and how the commands change it. The commands that change nothing about it are the
  delivery and those for another workpiece.
\<close>

record product =
  base :: color
  rings :: "color list"
  cap :: "color option"

definition product_of :: "puck \<Rightarrow> product" where
  "product_of p = \<lparr>base = pk_base_color p, rings = ring_colors p,
                   cap = (if have_cap p then Some (pk_cap_color p) else None)\<rparr>"

definition product_step :: "string \<Rightarrow> workpiece_command \<Rightarrow> product \<Rightarrow> product" where
  "product_step n c x =
     (if cmd_puck_name c \<noteq> n then x
      else case cmd_command c of
        ADD_RING \<Rightarrow> x\<lparr>rings := rings x @ cmd_color c\<rparr>
      | ADD_CAP \<Rightarrow> x\<lparr>cap := Some (hd (cmd_color c))\<rparr>
      | REMOVE_CAP \<Rightarrow> x\<lparr>cap := None\<rparr>
      | DELIVER \<Rightarrow> x)"

text \<open>What a command makes the workpiece say: the result of a removal, or the delivery.\<close>

definition product_says :: "string \<Rightarrow> workpiece_command \<Rightarrow> product \<Rightarrow> puck_effect list" where
  "product_says n c x =
     (if cmd_puck_name c \<noteq> n then []
      else case cmd_command c of
        REMOVE_CAP \<Rightarrow> [PuckResult \<lparr>res_color = (case cap x of None \<Rightarrow> NONE | Some k \<Rightarrow> k),
                                   res_puck_name = n\<rparr>]
      | DELIVER \<Rightarrow> [PuckDelivery \<lparr>dlv_team = Some (cmd_team c), dlv_base = delivered_base (base x),
                       dlv_rings = List.map_filter delivered_ring (rings x),
                       dlv_cap = Option.bind (cap x) delivered_cap\<rparr>]
      | _ \<Rightarrow> [])"

definition is_visual :: "puck_effect \<Rightarrow> bool" where
  "is_visual e = (case e of PuckVisual v \<Rightarrow> True | _ \<Rightarrow> False)"

definition said :: "puck \<Rightarrow> puck_effect list" where
  "said p = filter (\<lambda>e. \<not> is_visual e) (pk_trace p)"

lemma said_emit [simp]: "said (puck_emit e p) = said p @ (if is_visual e then [] else [e])"
  by (simp add: said_def)

lemma said_updates [simp]:
  "said (p\<lparr>have_cap := b\<rparr>) = said p" "said (p\<lparr>pk_cap_color := c\<rparr>) = said p"
  "said (p\<lparr>ring_count := n\<rparr>) = said p" "said (p\<lparr>ring_colors := cs\<rparr>) = said p"
  "said (p\<lparr>announced := b\<rparr>) = said p"
  by (simp_all add: said_def)

lemma said_rings [simp]: "said (fold add_ring cs p) = said p"
  by (induction cs arbitrary: p) (simp_all add: add_ring_def Let_def is_visual_def)

lemma command_foreign: "cmd_puck_name c \<noteq> pk_name p \<Longrightarrow> on_command_msg c p = Inr p"
  by (simp add: on_command_msg_def)

lemma command_correct:
  assumes "puck_ok p" and "cmd_ok c"
  shows "\<exists>p'. on_command_msg c p = Inr p' \<and> puck_ok p' \<and> pk_name p' = pk_name p
    \<and> product_of p' = product_step (pk_name p) c (product_of p)
    \<and> said p' = said p @ product_says (pk_name p) c (product_of p)"
proof (cases "cmd_puck_name c = pk_name p")
  case False
  with assms show ?thesis
    by (simp add: command_foreign product_step_def product_says_def)
next
  case own: True
  show ?thesis
  proof (cases "cmd_command c")
    case ADD_RING
    with own assms show ?thesis
      by (simp add: on_command_msg_def product_step_def product_says_def product_of_def puck_ok_def)
  next
    case ADD_CAP
    with assms obtain k ks where k: "cmd_color c = k # ks" by (cases "cmd_color c") (auto simp: cmd_ok_def)
    with own ADD_CAP assms show ?thesis
      by (simp add: on_command_msg_def product_step_def product_says_def product_of_def puck_ok_def)
         (simp add: add_cap_def is_visual_def)
  next
    case REMOVE_CAP
    have "said (remove_cap p) = said p @ [PuckResult \<lparr>res_color = pk_cap_color p, res_puck_name = pk_name p\<rparr>]"
      by (simp add: remove_cap_def Let_def is_visual_def)
    with own REMOVE_CAP assms show ?thesis
      by (cases "have_cap p")
         (simp_all add: on_command_msg_def product_step_def product_says_def product_of_def
            puck_ok_def is_visual_def)
  next
    case DELIVER
    with own assms show ?thesis
      by (simp add: on_command_msg_def product_step_def product_says_def product_of_def
            deliver_ok [OF assms(1)] is_visual_def)
  qed
qed

text \<open>
  The contract between the machines, which send commands, and whatever carries them out: each
  command that is in order succeeds and acts on the product as the specification says.
\<close>

locale workpiece =
  fixes exec :: "workpiece_command \<Rightarrow> 'p \<Rightarrow> 'e + 'p"
    and ok :: "'p \<Rightarrow> bool"
    and called :: "'p \<Rightarrow> string"
    and prod_of :: "'p \<Rightarrow> product"
  assumes exec_ok: "ok p \<Longrightarrow> cmd_ok c \<Longrightarrow> \<exists>p'. exec c p = Inr p' \<and> ok p' \<and> called p' = called p
      \<and> prod_of p' = product_step (called p) c (prod_of p)"
    and exec_foreign: "cmd_puck_name c \<noteq> called p \<Longrightarrow> exec c p = Inr p"
begin

lemma exec_run:
  "ok p \<Longrightarrow> list_all cmd_ok cs \<Longrightarrow>
   \<exists>p'. foldl (\<lambda>r c. and_then r (exec c)) (Inr p) cs = Inr p' \<and> ok p' \<and> called p' = called p
      \<and> prod_of p' = fold (product_step (called p)) cs (prod_of p)"
proof (induction cs arbitrary: p)
  case (Cons c cs)
  from exec_ok [OF Cons.prems(1), of c] Cons.prems(2)
  obtain p1 where p1: "exec c p = Inr p1" "ok p1" "called p1 = called p"
      "prod_of p1 = product_step (called p) c (prod_of p)" by auto
  from Cons.IH [OF p1(2)] Cons.prems(2) p1 show ?case by auto
qed simp

lemma exec_run_foreign:
  "\<forall>c\<in>set cs. cmd_puck_name c \<noteq> called p \<Longrightarrow>
   foldl (\<lambda>r c. and_then r (exec c)) (Inr p) cs = Inr p"
  by (induction cs) (simp_all add: exec_foreign)

end

interpretation puck_wp: workpiece on_command_msg puck_ok pk_name product_of
proof
  fix p :: puck and c
  assume "puck_ok p" and "cmd_ok c"
  then show "\<exists>p'. on_command_msg c p = Inr p' \<and> puck_ok p' \<and> pk_name p' = pk_name p
      \<and> product_of p' = product_step (pk_name p) c (product_of p)"
    using command_correct by blast
qed (rule command_foreign)

lemma foldl_and_then_Inl: "foldl (\<lambda>r c. and_then r (f c)) (Inl e) cs = Inl e"
  by (induction cs) simp_all

lemma run_commands_foldl:
  "run_commands cs p = foldl (\<lambda>r c. and_then r (on_command_msg c)) (Inr p) cs"
proof (induction cs arbitrary: p)
  case (Cons c cs)
  then show ?case by (cases "on_command_msg c p") (simp_all add: foldl_and_then_Inl)
qed simp

lemmas run_commands_correct = puck_wp.exec_run [folded run_commands_foldl]
lemmas run_commands_foreign = puck_wp.exec_run_foreign [folded run_commands_foldl]

lemma Puck_Load_simps [simp]:
  "pk_name (Puck_Load f r j n sdf) = n"
  "product_of (Puck_Load f r j n sdf) = \<lparr>base = base_color_of_sdf sdf, rings = [], cap = None\<rparr>"
  "puck_ok (Puck_Load f r j n sdf)"
  by (auto simp: Puck_Load_def product_of_def puck_ok_def base_color_of_sdf_def split: option.splits)

text \<open>
  C3 The plugin implements the product: a command whose cap, if it adds one, has a color never
  fails, changes base, rings and cap as the specification says (and nothing if it is for
  another workpiece), and apart from visuals publishes exactly the removed cap's color (or
  none) or the delivery of the product.
\<close>

theorem puck_refines_product:
  assumes "puck_ok p" and "cmd_ok c"
  shows "\<exists>p'. on_command_msg c p = Inr p' \<and> puck_ok p' \<and> pk_name p' = pk_name p
    \<and> product_of p' = product_step (pk_name p) c (product_of p)
    \<and> said p' = said p @ product_says (pk_name p) c (product_of p)"
  using assms by (rule command_correct)

definition cfg_puck :: "string \<Rightarrow> real" where
  "cfg_puck k = (if k = ''plugins/puck/ring_height'' then 0.008
                 else if k = ''plugins/puck/cap_height'' then 0.004
                 else if k = ''plugins/puck/workpiece_height'' then 0.0225 else 0)"

definition demo_puck :: puck where
  "demo_puck = Puck_Load cfg_puck 0.02 NONE ''puck_1'' (Some ''BLACK'')"

definition demo_cmd :: "command \<Rightarrow> color list \<Rightarrow> workpiece_command" where
  "demo_cmd k cs = \<lparr>cmd_command = k, cmd_color = cs, cmd_puck_name = ''puck_1'',
                    cmd_team_color = Some MAGENTA\<rparr>"

theorem puck_refines_product_witness:
  "\<exists>p'. on_command_msg (demo_cmd ADD_CAP [GREY]) demo_puck = Inr p'
     \<and> product_of p' = \<lparr>base = BLACK, rings = [], cap = Some GREY\<rparr>"
  using puck_refines_product [of demo_puck "demo_cmd ADD_CAP [GREY]"]
  by (auto simp: demo_puck_def demo_cmd_def cmd_ok_def product_step_def base_color_of_sdf_def)

text \<open>
  From loading to delivery: after any sequence of commands that the workpiece can carry out,
  a delivery publishes the base of the model file, all rings in the order in which they came
  and the last cap that was added and not removed, for the commanding team.
\<close>

theorem delivery_reports_product:
  assumes "list_all cmd_ok cs" and "cmd_command d = DELIVER" and "cmd_puck_name d = n"
  shows "\<exists>p p'. run_commands cs (Puck_Load f r j n sdf) = Inr p \<and> on_command_msg d p = Inr p'
    \<and> (let x = fold (product_step n) cs \<lparr>base = base_color_of_sdf sdf, rings = [], cap = None\<rparr>
       in pk_trace p' = pk_trace p @ [PuckDelivery
            \<lparr>dlv_team = Some (cmd_team d), dlv_base = delivered_base (base x),
             dlv_rings = List.map_filter delivered_ring (rings x),
             dlv_cap = Option.bind (cap x) delivered_cap\<rparr>])"
proof -
  from run_commands_correct [OF _ assms(1), of "Puck_Load f r j n sdf"]
  obtain p where p: "run_commands cs (Puck_Load f r j n sdf) = Inr p" "puck_ok p" "pk_name p = n"
      "product_of p = fold (product_step n) cs \<lparr>base = base_color_of_sdf sdf, rings = [], cap = None\<rparr>"
    by auto
  show ?thesis
    using assms p(1-3) unfolding Let_def p(4) [symmetric]
    by (simp add: on_command_msg_def deliver_ok [OF p(2)] product_of_def)
qed

theorem delivery_reports_product_witness:
  "\<exists>p p'. run_commands [demo_cmd ADD_RING [BLUE, GREEN], demo_cmd ADD_CAP [BLACK]] demo_puck = Inr p
     \<and> on_command_msg (demo_cmd DELIVER []) p = Inr p'
     \<and> last (pk_trace p') = PuckDelivery \<lparr>dlv_team = Some MAGENTA, dlv_base = Some BASE_BLACK,
          dlv_rings = [RING_BLUE, RING_GREEN], dlv_cap = Some CAP_BLACK\<rparr>"
  using delivery_reports_product [of "[demo_cmd ADD_RING [BLUE, GREEN], demo_cmd ADD_CAP [BLACK]]"
      "demo_cmd DELIVER []" "''puck_1''" cfg_puck "0.02" NONE "Some ''BLACK''"]
  unfolding demo_puck_def [symmetric]
  by (auto simp: demo_cmd_def cmd_ok_def product_step_def base_color_of_sdf_def cmd_team_def
        delivered_base_def delivered_ring_def delivered_cap_def map_filter_simps)

section \<open>Announcement\<close>

text \<open>
  However often the simulator updates a workpiece, it announces itself exactly once, under its
  own name and with the topic of its position.
\<close>

theorem announced_once:
  "pk_trace ((Puck_OnUpdate ^^ Suc k) (Puck_Load f r j n sdf)) =
     [PuckAnnounce \<lparr>np_puck_name = n, np_gps_topic = ''~/'' @ n @ ''/gazsim/gps/''\<rparr>]"
proof -
  let ?p = "Puck_OnUpdate (Puck_Load f r j n sdf)"
  have "(Puck_OnUpdate ^^ Suc k) (Puck_Load f r j n sdf) = ?p"
    by (induction k) (simp_all add: Puck_OnUpdate_def)
  then show ?thesis by (simp add: Puck_OnUpdate_def Puck_Load_def puck_emit_def)
qed

section \<open>The stack\<close>

text \<open>The lower and the upper end of a visual of a workpiece.\<close>

definition vis_bottom :: "visual \<Rightarrow> real" where
  "vis_bottom v = (case (vis_pose v, vis_cylinder v) of
      (Some p, Some (r, l)) \<Rightarrow> pos_z p - l / 2 | _ \<Rightarrow> 0)"

definition vis_top :: "visual \<Rightarrow> real" where
  "vis_top v = (case (vis_pose v, vis_cylinder v) of
      (Some p, Some (r, l)) \<Rightarrow> pos_z p + l / 2 | _ \<Rightarrow> 0)"

lemma visual_ends:
  "vis_bottom (create_visual_msg e h c p) = WORKPIECE_HEIGHT p / 2 + real (ring_count p) * RING_HEIGHT p"
  "vis_top (create_visual_msg e h c p) = WORKPIECE_HEIGHT p / 2 + real (ring_count p) * RING_HEIGHT p + h"
  by (simp_all add: vis_bottom_def vis_top_def create_visual_msg_def Pose3d_def)

text \<open>
  The stack has no gaps and no overlaps: the visual of the next ring starts exactly where that
  of the last ring ends, the first starts on top of the base, and a cap added last starts on
  the top ring. Names of rings are numbered upwards.
\<close>

theorem rings_stack:
  "vis_bottom (create_visual_msg e (RING_HEIGHT p) c' (add_ring c p))
     = vis_top (create_visual_msg e' (RING_HEIGHT p) c p)
   \<and> vis_bottom (create_visual_msg ''cap'' (CAP_HEIGHT p) k (fold add_ring cs (Puck_Load f r j n sdf)))
     = f ''plugins/puck/workpiece_height'' / 2 + real (length cs) * f ''plugins/puck/ring_height''
   \<and> pk_trace (add_ring c p) = pk_trace p @ [PuckVisual
       (create_visual_msg (''ring_'' @ dec_str (ring_count p)) (RING_HEIGHT p) c p)]"
proof -
  have cfg: "pk_cfg (fold add_ring cs q) = pk_cfg q" for cs and q
    by (induction cs arbitrary: q) simp_all
  show ?thesis
    by (simp add: visual_ends RING_HEIGHT_def WORKPIECE_HEIGHT_def cfg algebra_simps)
       (simp add: Puck_Load_def)
qed

end
