(* ===== verification/Gripper.thy ===== *)
theory Gripper
  imports MpsAreas
begin

text \<open>
  \<open>plugins/gripper/gripper.cpp\<close>: the gripper of a robot. Commands are queued when they arrive
  and carried out one per update of the simulator; closing takes the nearest workpiece within
  reach, teleports it into the gripper and attaches it by a joint; every change is reported to
  the robot and, as a joint message, to the machines.
\<close>

section \<open>State\<close>

datatype ActionOnUpdate = NOTHING | OPEN | CLOSE | MOVE

text \<open>\<open>JointMsg name id child_id child\<close>; its parent id is its id.\<close>

datatype gripper_effect =
    HasPuck int
  | JointMsg string nat nat string
  | MovePuck string pose
  | JointAttach string string
  | JointDetach

text \<open>\<open>joint_id\<close> and \<open>model_ids\<close> are the ids that the simulator has given to the joint and to
  the models; \<open>grab_area\<close> is the configured radius; \<open>joint_links\<close> is what the joint links.\<close>

record gripper =
  gripper_name :: string
  gripper_model :: string
  joint_id :: nat
  model_ids :: "string \<Rightarrow> nat"
  grab_area :: real
  gripped_puck :: "string option"
  last_action :: ActionOnUpdate
  message_queue :: "ActionOnUpdate list"
  joint_links :: "(string \<times> string) option"
  gripper_trace :: "gripper_effect list"

datatype gripper_error = Null_gripper_link

definition Gripper_Load :: "(string \<Rightarrow> real) \<Rightarrow> nat \<Rightarrow> (string \<Rightarrow> nat) \<Rightarrow> string \<Rightarrow> gripper" where
  "Gripper_Load get_float jid ids n =
     \<lparr>gripper_name = n, gripper_model = n, joint_id = jid, model_ids = ids,
      grab_area = get_float ''plugins/gripper/radius-grab-area'', gripped_puck = None,
      last_action = NOTHING, message_queue = [], joint_links = None, gripper_trace = []\<rparr>"

definition gripper_emit :: "gripper_effect \<Rightarrow> gripper \<Rightarrow> gripper" where
  "gripper_emit e g = g\<lparr>gripper_trace := gripper_trace g @ [e]\<rparr>"

section \<open>Searching\<close>

definition gripper_link_name :: string where "gripper_link_name = ''gripper::link''"

text \<open>The exact link if the model has it, else the first link in which \<open>rfind\<close> finds the name;
  the start of \<open>rfind\<close> wraps around for a shorter name, in which nothing is found.\<close>

definition getGripperLink :: "gz \<Rightarrow> gripper \<Rightarrow> string option" where
  "getGripperLink w g =
     (let links = gz_links w (gripper_model g)
      in if gripper_link_name \<in> set links then Some gripper_link_name
         else find (\<lambda>l. str_rfind gripper_link_name l (length l - length gripper_link_name) \<noteq> None)
                links)"

text \<open>\<open>fnmatch("puck*", name, FNM_CASEFOLD) == 0\<close>.\<close>

definition to_lower :: "char \<Rightarrow> char" where
  "to_lower c = (let k = of_char c :: nat in if 65 \<le> k \<and> k \<le> 90 then char_of (k + 32) else c)"

definition is_puck_name :: "string \<Rightarrow> bool" where
  "is_puck_name n \<longleftrightarrow> map to_lower (take 4 n) = ''puck''"

definition DBL_MAX :: real where "DBL_MAX = (2 - 1 / 2 ^ 52) * 2 ^ 1023"

text \<open>The loop over the models: the nearest one so far and its distance.\<close>

fun nearest_loop ::
    "gz \<Rightarrow> pose \<Rightarrow> string list \<Rightarrow> string option \<times> real \<Rightarrow> string option \<times> real" where
  "nearest_loop w gripper_pose [] acc = acc"
| "nearest_loop w gripper_pose (tmp # ms) (nearest, distance) =
     nearest_loop w gripper_pose ms
       (if is_puck_name tmp
        then let tmpDistance = gz_dist w gripper_pose (gz_pose w tmp)
             in if tmpDistance < distance then (Some tmp, tmpDistance) else (nearest, distance)
        else (nearest, distance))"

definition getNearestPuck :: "gz \<Rightarrow> gripper \<Rightarrow> gripper_error + string option" where
  "getNearestPuck w g =
     (case getGripperLink w g of
        None \<Rightarrow> Inl Null_gripper_link
      | Some l \<Rightarrow>
          let r = nearest_loop w (gz_link_pose w l) (gz_models w) (None, DBL_MAX)
          in Inr (case fst r of
               None \<Rightarrow> None
             | Some nearest \<Rightarrow> if snd r < grab_area g then Some nearest else None))"

section \<open>Actions\<close>

text \<open>Only called with a gripped workpiece when \<open>has_puck\<close> is true.\<close>

definition sendHasPuck :: "bool \<Rightarrow> gripper \<Rightarrow> gripper" where
  "sendHasPuck has_puck g =
     (let g = gripper_emit (HasPuck (if has_puck then 1 else 0)) g
      in case (has_puck, gripped_puck g) of
           (True, Some p) \<Rightarrow> gripper_emit (JointMsg (gripper_name g) (joint_id g) (model_ids g p) p) g
         | _ \<Rightarrow> gripper_emit (JointMsg (gripper_name g) (joint_id g) 0 []) g)"

definition setPuckPose :: "gz \<Rightarrow> gripper \<Rightarrow> gripper_error + gripper" where
  "setPuckPose w g =
     (case gripped_puck g of
        None \<Rightarrow> Inr g
      | Some p \<Rightarrow>
          (case getGripperLink w g of
             None \<Rightarrow> Inl Null_gripper_link
           | Some l \<Rightarrow> Inr (gripper_emit (MovePuck p (gz_link_pose w l)) g)))"

definition close_gripper :: "gz \<Rightarrow> gripper \<Rightarrow> gripper_error + gripper" where
  "close_gripper w g =
     (if gripped_puck g \<noteq> None then Inr (sendHasPuck True g)
      else and_then (getNearestPuck w g) (\<lambda>nearest.
        let g = g\<lparr>gripped_puck := nearest\<rparr>
        in case nearest of
             None \<Rightarrow> Inr g
           | Some p \<Rightarrow>
               and_then (setPuckPose w g) (\<lambda>g.
                 case getGripperLink w g of
                   None \<Rightarrow> Inr g
                 | Some gripperLink \<Rightarrow>
                     (case getLinkEndingWith w p ''cylinder'' of
                        None \<Rightarrow> Inr g
                      | Some puckLink \<Rightarrow>
                          let g = gripper_emit (JointAttach gripperLink puckLink) g;
                              g = g\<lparr>joint_links := Some (gripperLink, puckLink)\<rparr>
                          in Inr (sendHasPuck True g)))))"

definition open_gripper :: "gripper \<Rightarrow> gripper" where
  "open_gripper g =
     (if gripped_puck g = None then g
      else let g = gripper_emit JointDetach g;
               g = g\<lparr>joint_links := None\<rparr>;
               g = g\<lparr>gripped_puck := None\<rparr>
           in sendHasPuck False g)"

definition Gripper_OnUpdate :: "gz \<Rightarrow> gripper \<Rightarrow> gripper_error + gripper" where
  "Gripper_OnUpdate w g =
     (case message_queue g of
        [] \<Rightarrow> Inr g
      | action # q \<Rightarrow>
          let g = g\<lparr>message_queue := q\<rparr>
          in case action of
               CLOSE \<Rightarrow> close_gripper w g
             | OPEN \<Rightarrow> Inr (open_gripper g)
             | _ \<Rightarrow> Inr (g\<lparr>last_action := NOTHING\<rparr>))"

definition Gripper_Reset :: "gripper \<Rightarrow> gripper" where
  "Gripper_Reset g = open_gripper g"

definition on_set_gripper_msg :: "int \<Rightarrow> gripper \<Rightarrow> gripper" where
  "on_set_gripper_msg data g =
     (if data = 0 then g\<lparr>message_queue := message_queue g @ [CLOSE]\<rparr>
      else if data = 1 then g\<lparr>message_queue := message_queue g @ [OPEN]\<rparr>
      else if data = 2 then g\<lparr>message_queue := message_queue g @ [MOVE]\<rparr>
      else g)"

section \<open>The nearest workpiece\<close>

lemma nearest_loop_spec:
  "nearest_loop w q ms (n, d) = (n', d') \<Longrightarrow>
   d' \<le> d \<and> (\<forall>m\<in>set ms. is_puck_name m \<longrightarrow> d' \<le> gz_dist w q (gz_pose w m))
   \<and> (n' = n \<and> d' = d \<or>
      (\<exists>m\<in>set ms. is_puck_name m \<and> n' = Some m \<and> d' = gz_dist w q (gz_pose w m)))"
proof (induction ms arbitrary: n d)
  case Nil
  then show ?case by simp
next
  case (Cons a ms)
  let ?step = "is_puck_name a \<and> gz_dist w q (gz_pose w a) < d"
  show ?case
  proof (cases ?step)
    case True
    with Cons.prems have "nearest_loop w q ms (Some a, gz_dist w q (gz_pose w a)) = (n', d')"
      by (simp add: Let_def)
    from Cons.IH [OF this] True show ?thesis by auto
  next
    case False
    with Cons.prems have "nearest_loop w q ms (n, d) = (n', d')"
      by (auto simp: Let_def split: if_splits)
    from Cons.IH [OF this] False show ?thesis by auto
  qed
qed

text \<open>
  Closing looks for the nearest workpiece and takes it only within reach: a result is a
  workpiece of the world, strictly within the grab radius, and no workpiece is closer; without
  a result every workpiece is out of reach.
\<close>

theorem getNearestPuck_correct:
  assumes "getGripperLink w g = Some l" and "grab_area g \<le> DBL_MAX"
  shows "\<exists>r. getNearestPuck w g = Inr r
    \<and> (case r of
         Some m \<Rightarrow> m \<in> set (gz_models w) \<and> is_puck_name m
           \<and> gz_dist w (gz_link_pose w l) (gz_pose w m) < grab_area g
           \<and> (\<forall>m'\<in>set (gz_models w). is_puck_name m' \<longrightarrow>
                gz_dist w (gz_link_pose w l) (gz_pose w m) \<le> gz_dist w (gz_link_pose w l) (gz_pose w m'))
       | None \<Rightarrow> \<forall>m\<in>set (gz_models w). is_puck_name m \<longrightarrow>
                grab_area g \<le> gz_dist w (gz_link_pose w l) (gz_pose w m))"
proof -
  obtain n d where r: "nearest_loop w (gz_link_pose w l) (gz_models w) (None, DBL_MAX) = (n, d)"
    by fastforce
  have eq: "getNearestPuck w g =
      Inr (case n of None \<Rightarrow> None | Some m \<Rightarrow> if d < grab_area g then Some m else None)"
    using assms(1) r by (simp add: getNearestPuck_def Let_def split: option.splits)
  from nearest_loop_spec [OF r] assms(2) show ?thesis
    unfolding eq by (cases n) (auto split: if_splits)
qed

definition grip_world :: gz where
  "grip_world = demo_world\<lparr>gz_links := (\<lambda>m. if m = ''robotino'' then [''gripper::link'']
      else [''cylinder'']), gz_pose := (\<lambda>n. if n = ''puck_2'' then origin else Pose3d 1 0 0 0 0 0)\<rparr>"

definition cfg_grip :: "string \<Rightarrow> real" where
  "cfg_grip k = (if k = ''plugins/gripper/radius-grab-area'' then 0.1 else 0)"

definition demo_gripper :: gripper where
  "demo_gripper = Gripper_Load cfg_grip 7 (\<lambda>n. length n) ''robotino''"

lemma demo_gripper_simps [simp]:
  "gripped_puck demo_gripper = None" "message_queue demo_gripper = []" "joint_id demo_gripper = 7"
  "gripper_trace demo_gripper = []" "joint_links demo_gripper = None" "grab_area demo_gripper = 0.1"
  "gripper_model demo_gripper = ''robotino''"
  by (simp_all add: demo_gripper_def Gripper_Load_def cfg_grip_def)

lemma demo_gripper_link: "getGripperLink grip_world demo_gripper = Some ''gripper::link''"
  by (simp add: getGripperLink_def grip_world_def gripper_link_name_def)

lemma DBL_MAX_large: "0.1 \<le> DBL_MAX"
proof -
  have "(1 :: real) \<le> (2 - 1 / 2 ^ 52) * 2 ^ 1023"
    using one_le_power [of "2 :: real" 1023] by (simp add: field_simps)
  then show ?thesis by (simp add: DBL_MAX_def)
qed

lemma demo_puck_names: "is_puck_name ''puck_1'' \<and> is_puck_name ''puck_2''"
  by code_simp

theorem getNearestPuck_correct_witness:
  "\<exists>r. getNearestPuck grip_world demo_gripper = Inr r \<and> r \<noteq> None"
proof -
  have d: "gz_dist grip_world (gz_link_pose grip_world ''gripper::link'') (gz_pose grip_world ''puck_2'') < 0.1"
    by (simp add: grip_world_def demo_world_def euclid_def Pose3d_def origin_def)
  have m: "''puck_2'' \<in> set (gz_models grip_world)" by (simp add: grip_world_def demo_world_def)
  show ?thesis
    using getNearestPuck_correct [OF demo_gripper_link] DBL_MAX_large d m demo_puck_names
    by (fastforce split: option.splits)
qed

text \<open>
  The search for the gripper's link: the exact name wins; otherwise the first link of the
  model is taken whose name contains \<open>gripper::link\<close> anywhere, so that the start index of the
  backwards search does not restrict it to the end of the name.
\<close>

theorem getGripperLink_finds:
  "(getGripperLink w g = None \<longleftrightarrow>
      (\<forall>l\<in>set (gz_links w (gripper_model g)). \<not> sublist gripper_link_name l))
   \<and> (\<forall>l. getGripperLink w g = Some l \<longrightarrow>
        l \<in> set (gz_links w (gripper_model g)) \<and> sublist gripper_link_name l
        \<and> (gripper_link_name \<in> set (gz_links w (gripper_model g)) \<longrightarrow> l = gripper_link_name))"
proof -
  have "(str_rfind gripper_link_name l (length l - length gripper_link_name) = None)
      = (\<not> sublist gripper_link_name l)" for l
    by (auto simp: str_rfind_def str_rfind_from_None sublist_iff_prefix_drop)
  then have rfind: "(str_rfind gripper_link_name l (length l - length gripper_link_name) \<noteq> None)
      = sublist gripper_link_name l" for l by (simp only: not_not)
  let ?L = "gz_links w (gripper_model g)"
  have eq: "getGripperLink w g =
      (if gripper_link_name \<in> set ?L then Some gripper_link_name
       else find (\<lambda>l. sublist gripper_link_name l) ?L)"
    by (simp only: getGripperLink_def Let_def rfind)
  show ?thesis
  proof (cases "gripper_link_name \<in> set ?L")
    case True
    moreover have "sublist gripper_link_name gripper_link_name" by (rule sublist_order.order_refl)
    ultimately show ?thesis unfolding eq by (metis option.distinct(1) option.inject)
  next
    case False
    have "find (\<lambda>l. sublist gripper_link_name l) ?L = None \<longleftrightarrow> (\<forall>l\<in>set ?L. \<not> sublist gripper_link_name l)"
      by (auto simp only: find_None_iff)
    with False show ?thesis unfolding eq by (metis find_Some_first)
  qed
qed

theorem getGripperLink_finds_witness:
  "getGripperLink grip_world demo_gripper \<noteq> None"
  using getGripperLink_finds [of grip_world demo_gripper]
  by (auto simp: grip_world_def gripper_link_name_def)

section \<open>What the machines hear\<close>

text \<open>The joint messages of a trace, as the machines get them.\<close>

definition joint_msgs :: "gripper_effect list \<Rightarrow> (nat \<times> string) list" where
  "joint_msgs es = List.map_filter
     (\<lambda>e. case e of JointMsg n jid cid child \<Rightarrow> Some (jid, child) | _ \<Rightarrow> None) es"

lemma joint_msgs_simps [simp]:
  "joint_msgs [] = []" "joint_msgs (xs @ ys) = joint_msgs xs @ joint_msgs ys"
  "joint_msgs (JointMsg n j i c # es) = (j, c) # joint_msgs es"
  "joint_msgs (HasPuck b # es) = joint_msgs es" "joint_msgs (MovePuck m q # es) = joint_msgs es"
  "joint_msgs (JointAttach l k # es) = joint_msgs es" "joint_msgs (JointDetach # es) = joint_msgs es"
  by (simp_all add: joint_msgs_def map_filter_def)

lemma last_child_snoc [simp]:
  "last_child (ms @ [(i, c)]) j = (if i = j then Some c else last_child ms j)"
  by (induction ms j rule: last_child.induct) (auto split: option.splits)

text \<open>
  A gripper is in order when a workpiece is gripped exactly if the joint is attached, and what
  it last reported about its joint is the gripped workpiece or nothing.
\<close>

definition gripper_ok :: "gripper \<Rightarrow> bool" where
  "gripper_ok g \<longleftrightarrow>
     (gripped_puck g = None \<longleftrightarrow> joint_links g = None)
     \<and> (\<forall>j. j \<noteq> joint_id g \<longrightarrow> last_child (joint_msgs (gripper_trace g)) j = None)
     \<and> (case gripped_puck g of
          Some p \<Rightarrow> p \<noteq> [] \<and> last_child (joint_msgs (gripper_trace g)) (joint_id g) = Some p
        | None \<Rightarrow> last_child (joint_msgs (gripper_trace g)) (joint_id g) \<in> {None, Some []})"

text \<open>Every workpiece of the world has the link that the gripper attaches itself to.\<close>

definition pucks_have_cylinder :: "gz \<Rightarrow> bool" where
  "pucks_have_cylinder w \<longleftrightarrow>
     list_all (\<lambda>m. is_puck_name m \<longrightarrow> getLinkEndingWith w m ''cylinder'' \<noteq> None) (gz_models w)"

lemma gripper_emit_simps [simp]:
  "gripped_puck (gripper_emit e g) = gripped_puck g" "joint_id (gripper_emit e g) = joint_id g"
  "joint_links (gripper_emit e g) = joint_links g" "gripper_trace (gripper_emit e g) = gripper_trace g @ [e]"
  "gripper_name (gripper_emit e g) = gripper_name g" "model_ids (gripper_emit e g) = model_ids g"
  "gripper_model (gripper_emit e g) = gripper_model g" "message_queue (gripper_emit e g) = message_queue g"
  by (simp_all add: gripper_emit_def)

lemma sendHasPuck_simps [simp]:
  "gripped_puck (sendHasPuck b g) = gripped_puck g" "joint_id (sendHasPuck b g) = joint_id g"
  "joint_links (sendHasPuck b g) = joint_links g" "message_queue (sendHasPuck b g) = message_queue g"
  "gripper_model (sendHasPuck b g) = gripper_model g"
  "joint_msgs (gripper_trace (sendHasPuck b g)) = joint_msgs (gripper_trace g)
     @ [(joint_id g, case (b, gripped_puck g) of (True, Some p) \<Rightarrow> p | _ \<Rightarrow> [])]"
  by (simp_all add: sendHasPuck_def Let_def split: option.splits bool.splits)

lemma nearest_is_puck:
  assumes "getNearestPuck w g = Inr (Some p)"
  shows "p \<in> set (gz_models w) \<and> is_puck_name p"
proof -
  from assms obtain l where l: "getGripperLink w g = Some l"
    by (auto simp: getNearestPuck_def split: option.splits)
  obtain n d where r: "nearest_loop w (gz_link_pose w l) (gz_models w) (None, DBL_MAX) = (n, d)"
    by fastforce
  from assms l r have "n = Some p"
    by (auto simp: getNearestPuck_def Let_def split: option.splits if_splits)
  with nearest_loop_spec [OF r] show ?thesis by auto
qed

lemma getGripperLink_update [simp]:
  "getGripperLink w (g\<lparr>gripped_puck := x\<rparr>) = getGripperLink w g"
  "getGripperLink w (gripper_emit e g) = getGripperLink w g"
  by (simp_all add: getGripperLink_def gripper_emit_def)

text \<open>What closing an empty gripper comes to.\<close>

lemma close_empty:
  assumes "gripped_puck g = None" and "getNearestPuck w g = Inr (Some p)"
  obtains l where "getGripperLink w g = Some l"
    and "close_gripper w g =
      (let g1 = gripper_emit (MovePuck p (gz_link_pose w l)) (g\<lparr>gripped_puck := Some p\<rparr>)
       in case getLinkEndingWith w p ''cylinder'' of
            None \<Rightarrow> Inr g1
          | Some k \<Rightarrow> Inr (sendHasPuck True
              ((gripper_emit (JointAttach l k) g1)\<lparr>joint_links := Some (l, k)\<rparr>)))"
proof -
  from assms obtain l where l: "getGripperLink w g = Some l"
    by (auto simp: getNearestPuck_def split: option.splits)
  with assms have "close_gripper w g =
      (let g1 = gripper_emit (MovePuck p (gz_link_pose w l)) (g\<lparr>gripped_puck := Some p\<rparr>)
       in case getLinkEndingWith w p ''cylinder'' of
            None \<Rightarrow> Inr g1
          | Some k \<Rightarrow> Inr (sendHasPuck True
              ((gripper_emit (JointAttach l k) g1)\<lparr>joint_links := Some (l, k)\<rparr>)))"
    by (simp add: close_gripper_def setPuckPose_def Let_def split: option.splits)
  with l show thesis by (rule that)
qed

lemma is_puck_name_nonempty: "is_puck_name p \<Longrightarrow> p \<noteq> []"
  by (auto simp: is_puck_name_def)

lemma gripper_ok_held:
  "gripper_ok g \<Longrightarrow> gripped_puck g = Some p \<Longrightarrow> gripper_ok (sendHasPuck True g)"
  by (auto simp: gripper_ok_def)

lemma close_gripper_ok:
  assumes "gripper_ok g" and "pucks_have_cylinder w" and "close_gripper w g = Inr g'"
  shows "gripper_ok g'"
proof (cases "gripped_puck g")
  case (Some p)
  with assms gripper_ok_held show ?thesis by (auto simp: close_gripper_def)
next
  case None
  with assms(3) obtain r where r: "getNearestPuck w g = Inr r"
    by (auto simp: close_gripper_def and_then_Inr_iff)
  show ?thesis
  proof (cases r)
    case None
    with \<open>gripped_puck g = None\<close> r assms show ?thesis
      by (auto simp: close_gripper_def gripper_ok_def)
  next
    case (Some p)
    from nearest_is_puck r Some have p: "p \<in> set (gz_models w)" "is_puck_name p" by auto
    then obtain k where k: "getLinkEndingWith w p ''cylinder'' = Some k"
      using assms(2) by (auto simp: pucks_have_cylinder_def list_all_iff)
    from close_empty [OF None, of w p] r Some obtain l where
      "close_gripper w g = (let g1 = gripper_emit (MovePuck p (gz_link_pose w l)) (g\<lparr>gripped_puck := Some p\<rparr>)
       in case getLinkEndingWith w p ''cylinder'' of
            None \<Rightarrow> Inr g1
          | Some k \<Rightarrow> Inr (sendHasPuck True
              ((gripper_emit (JointAttach l k) g1)\<lparr>joint_links := Some (l, k)\<rparr>)))" by auto
    with assms(1,3) k is_puck_name_nonempty [OF p(2)] None show ?thesis
      by (auto simp: Let_def gripper_ok_def)
  qed
qed

lemma open_gripper_ok: "gripper_ok g \<Longrightarrow> gripper_ok (open_gripper g)"
  by (auto simp: open_gripper_def Let_def gripper_ok_def)

lemma gripper_ok_queue [simp]:
  "gripper_ok (g\<lparr>message_queue := q\<rparr>) = gripper_ok g" "gripper_ok (g\<lparr>last_action := a\<rparr>) = gripper_ok g"
  by (simp_all add: gripper_ok_def split: option.split)

text \<open>The events of a gripper's life: a message, an update, a reset.\<close>

datatype gripper_event = SetGripper int | Update gz | Reset_gripper

definition gripper_step :: "gripper_event \<Rightarrow> gripper \<Rightarrow> gripper_error + gripper" where
  "gripper_step ev g =
     (case ev of
        SetGripper d \<Rightarrow> Inr (on_set_gripper_msg d g)
      | Update w \<Rightarrow> Gripper_OnUpdate w g
      | Reset_gripper \<Rightarrow> Inr (Gripper_Reset g))"

fun gripper_run :: "gripper_event list \<Rightarrow> gripper \<Rightarrow> gripper_error + gripper" where
  "gripper_run [] g = Inr g"
| "gripper_run (e # es) g = and_then (gripper_step e g) (gripper_run es)"

definition event_ok :: "gripper_event \<Rightarrow> bool" where
  "event_ok ev = (case ev of Update w \<Rightarrow> pucks_have_cylinder w | _ \<Rightarrow> True)"

lemma gripper_step_ok:
  assumes "gripper_ok g" and "event_ok ev" and "gripper_step ev g = Inr g'"
  shows "gripper_ok g'"
proof (cases ev)
  case (SetGripper d)
  with assms show ?thesis by (auto simp: gripper_step_def on_set_gripper_msg_def)
next
  case Reset_gripper
  with assms show ?thesis by (auto simp: gripper_step_def Gripper_Reset_def open_gripper_ok)
next
  case (Update w)
  have "gripper_ok g'" if "close_gripper w (g\<lparr>message_queue := q\<rparr>) = Inr g'" for q
    using that Update assms(1,2) by (intro close_gripper_ok [OF _ _ that]) (simp_all add: event_ok_def)
  with Update assms show ?thesis
    by (auto simp: gripper_step_def Gripper_OnUpdate_def Let_def open_gripper_ok
          split: list.splits ActionOnUpdate.splits)
qed

lemma gripper_run_ok:
  "gripper_ok g \<Longrightarrow> list_all event_ok es \<Longrightarrow> gripper_run es g = Inr g' \<Longrightarrow> gripper_ok g'"
  by (induction es arbitrary: g) (auto simp: and_then_Inr_iff intro: gripper_step_ok)

text \<open>
  C39 A machine that hears every joint message of a gripper knows what it holds: after any run of
  messages, updates and resets from the start, in worlds whose workpieces have a cylinder
  link, the machine takes a workpiece to be held exactly if the gripper grips it, and the
  joint is attached exactly if something is gripped.
\<close>

theorem machines_know_the_grip:
  assumes "gripper_run es (Gripper_Load f jid ids n) = Inr g" and "list_all event_ok es"
    and "hold_pucks s = []" and "p \<noteq> []"
  shows "(is_puck_hold (on_joint_msgs (joint_msgs (gripper_trace g)) s) p \<longleftrightarrow> gripped_puck g = Some p)
    \<and> (gripped_puck g = None \<longleftrightarrow> joint_links g = None)"
proof -
  have "gripper_ok (Gripper_Load f jid ids n)" by (simp add: gripper_ok_def Gripper_Load_def)
  from gripper_run_ok [OF this assms(2,1)] have ok: "gripper_ok g" .
  have d: "distinct (map fst (hold_pucks s))" using assms(3) by simp
  have "is_puck_hold (on_joint_msgs (joint_msgs (gripper_trace g)) s) p
      \<longleftrightarrow> (\<exists>j. last_child (joint_msgs (gripper_trace g)) j = Some p)"
    using on_joint_msgs_map [of "joint_msgs (gripper_trace g)" s] assms(3)
      on_joint_msgs_distinct [OF d, of "joint_msgs (gripper_trace g)"]
    by (auto simp: held_iff_map_of split: option.splits)
  also have "\<dots> \<longleftrightarrow> gripped_puck g = Some p"
  proof
    assume "\<exists>j. last_child (joint_msgs (gripper_trace g)) j = Some p"
    then obtain j where j: "last_child (joint_msgs (gripper_trace g)) j = Some p" ..
    with ok have "j = joint_id g" by (auto simp: gripper_ok_def)
    with j ok assms(4) show "gripped_puck g = Some p"
      by (auto simp: gripper_ok_def split: option.splits)
  qed (use ok in \<open>auto simp: gripper_ok_def\<close>)
  finally show ?thesis using ok by (simp add: gripper_ok_def)
qed

text \<open>A run in which the gripper closes around the second workpiece.\<close>

definition demo_held :: gripper where
  "demo_held = demo_gripper\<lparr>gripped_puck := Some ''puck_2'', joint_links := Some (''gripper::link'', ''cylinder''),
     gripper_trace := [MovePuck ''puck_2'' (gz_link_pose grip_world ''gripper::link''),
       JointAttach ''gripper::link'' ''cylinder'', HasPuck 1, JointMsg ''robotino'' 7 6 ''puck_2'']\<rparr>"

lemma demo_nearest: "getNearestPuck grip_world demo_gripper = Inr (Some ''puck_2'')"
proof -
  have n1: "is_puck_name ''puck_1''" and n2: "is_puck_name ''puck_2''" using demo_puck_names by simp_all
  have d1: "gz_dist grip_world (gz_link_pose grip_world ''gripper::link'') (gz_pose grip_world ''puck_1'') = 1"
    and d2: "gz_dist grip_world (gz_link_pose grip_world ''gripper::link'') (gz_pose grip_world ''puck_2'') = 0"
    by (simp_all add: grip_world_def demo_world_def euclid_def Pose3d_def origin_def)
  have m: "gz_models grip_world = [''puck_1'', ''puck_2'']" by (simp add: grip_world_def demo_world_def)
  have big: "0 < DBL_MAX" using DBL_MAX_large by simp
  show ?thesis
    using big by (simp add: getNearestPuck_def demo_gripper_link Let_def m n1 n2 d1 d2)
qed

lemma demo_grip_run:
  "gripper_run [SetGripper 0, Update grip_world] demo_gripper = Inr demo_held"
proof -
  let ?g = "demo_gripper\<lparr>message_queue := [CLOSE]\<rparr>"
  have q: "demo_gripper\<lparr>message_queue := []\<rparr> = demo_gripper"
    by (simp add: demo_gripper_def Gripper_Load_def)
  have cyl: "getLinkEndingWith grip_world ''puck_2'' ''cylinder'' = Some ''cylinder''"
    by (simp add: getLinkEndingWith_def grip_world_def ends_with_def)
  obtain l where l: "getGripperLink grip_world demo_gripper = Some l"
    and c: "close_gripper grip_world demo_gripper =
      (let g1 = gripper_emit (MovePuck ''puck_2'' (gz_link_pose grip_world l))
                 (demo_gripper\<lparr>gripped_puck := Some ''puck_2''\<rparr>)
       in case getLinkEndingWith grip_world ''puck_2'' ''cylinder'' of
            None \<Rightarrow> Inr g1
          | Some k \<Rightarrow> Inr (sendHasPuck True
              ((gripper_emit (JointAttach l k) g1)\<lparr>joint_links := Some (l, k)\<rparr>)))"
    using close_empty [of demo_gripper grip_world "''puck_2''"] demo_nearest by auto
  have "close_gripper grip_world demo_gripper = Inr demo_held"
    using l demo_gripper_link
    unfolding c cyl demo_held_def
    by (simp add: Let_def sendHasPuck_def gripper_emit_def)
       (simp add: demo_gripper_def Gripper_Load_def)
  then show ?thesis
    by (simp add: gripper_step_def on_set_gripper_msg_def Gripper_OnUpdate_def Let_def q)
qed

lemma grip_world_cylinders: "event_ok (Update grip_world)"
  by (simp add: event_ok_def pucks_have_cylinder_def grip_world_def demo_world_def
        getLinkEndingWith_def ends_with_def)

theorem machines_know_the_grip_witness:
  "is_puck_hold (on_joint_msgs (joint_msgs (gripper_trace demo_held)) demo_mps) ''puck_2''"
proof -
  have run: "gripper_run [SetGripper 0, Update grip_world]
      (Gripper_Load cfg_grip 7 (\<lambda>n. length n) ''robotino'') = Inr demo_held"
    using demo_grip_run by (simp add: demo_gripper_def)
  have h: "hold_pucks demo_mps = []" by (simp add: demo_mps_def Mps_new_def)
  have e: "list_all event_ok [SetGripper 0, Update grip_world]"
    using grip_world_cylinders by (simp add: event_ok_def)
  have "gripped_puck demo_held = Some ''puck_2''" by (simp add: demo_held_def)
  with machines_know_the_grip [OF run e h, of "''puck_2''"] show ?thesis by simp
qed

text \<open>
  A workpiece without a cylinder link is a trap: closing on it moves it into the gripper but
  attaches nothing and reports nothing, and yet the gripper counts it as gripped, so that the
  next close reports to the robot and to the machines a workpiece that no joint holds.
\<close>

theorem close_without_cylinder:
  assumes "gripped_puck g = None" and "getNearestPuck w g = Inr (Some p)"
    and "getLinkEndingWith w p ''cylinder'' = None"
  shows "\<exists>g'. close_gripper w g = Inr g' \<and> gripped_puck g' = Some p \<and> joint_links g' = joint_links g
    \<and> joint_msgs (gripper_trace g') = joint_msgs (gripper_trace g)
    \<and> close_gripper w g' = Inr (sendHasPuck True g')
    \<and> joint_msgs (gripper_trace (sendHasPuck True g'))
        = joint_msgs (gripper_trace g) @ [(joint_id g, p)]
    \<and> joint_links (sendHasPuck True g') = joint_links g"
proof -
  from close_empty [OF assms(1,2)] obtain l where
    c: "close_gripper w g = Inr (gripper_emit (MovePuck p (gz_link_pose w l)) (g\<lparr>gripped_puck := Some p\<rparr>))"
    unfolding assms(3) Let_def option.case by blast
  have again: "gripped_puck h \<noteq> None \<Longrightarrow> close_gripper w h = Inr (sendHasPuck True h)" for h
    by (simp add: close_gripper_def)
  show ?thesis unfolding c by (simp add: again)
qed

theorem close_without_cylinder_witness:
  "\<exists>g'. close_gripper (grip_world\<lparr>gz_links := (\<lambda>m. [''gripper::link''])\<rparr>) demo_gripper = Inr g'
     \<and> gripped_puck g' = Some ''puck_2'' \<and> joint_links g' = None"
proof -
  let ?w = "grip_world\<lparr>gz_links := (\<lambda>m. [''gripper::link''])\<rparr>"
  have same: "gz_dist ?w = gz_dist grip_world" "gz_pose ?w = gz_pose grip_world"
      "gz_link_pose ?w = gz_link_pose grip_world" "gz_models ?w = gz_models grip_world" by simp_all
  have loop: "nearest_loop ?w q ms a = nearest_loop grip_world q ms a" for q ms a
    by (induction ms arbitrary: a) (auto simp: same Let_def)
  have link: "getGripperLink ?w demo_gripper = Some ''gripper::link''"
    by (simp add: getGripperLink_def gripper_link_name_def)
  have "getNearestPuck ?w demo_gripper = getNearestPuck grip_world demo_gripper"
    by (simp only: getNearestPuck_def link demo_gripper_link loop same)
  then have near: "getNearestPuck ?w demo_gripper = Inr (Some ''puck_2'')" by (simp add: demo_nearest)
  have "getLinkEndingWith ?w ''puck_2'' ''cylinder'' = None"
    by (simp add: getLinkEndingWith_def ends_with_def)
  from close_without_cylinder [OF _ near this] show ?thesis by auto
qed

end
