(* ===== verification/MpsPlacement.thy ===== *)
theory MpsPlacement
  imports Gazebo OpcUaConfig
begin

text \<open>
  \<open>plugins/mps-placement/mps_placement.cpp\<close>: when the game has started, the world plugin makes
  the machines where the referee box wants them, each once; and
  \<open>plugins/mps/mps_loader.cpp\<close>, which picks the station class from the name of the model.
\<close>

section \<open>Zones\<close>

text \<open>
  The enumeration \<open>llsf_msgs::Zone\<close>: a side of the field, a column from 1 to 7 and a row from 1
  to 8, and the name of the enumerator.
\<close>

record zone =
  zone_side :: team
  zone_col :: nat
  zone_row :: nat

definition zone_ok :: "zone \<Rightarrow> bool" where
  "zone_ok z \<longleftrightarrow> 1 \<le> zone_col z \<and> zone_col z \<le> 7 \<and> 1 \<le> zone_row z \<and> zone_row z \<le> 8"

definition Zone_Name :: "zone \<Rightarrow> string" where
  "Zone_Name z = (case zone_side z of CYAN \<Rightarrow> ''C_Z'' | MAGENTA \<Rightarrow> ''M_Z'')
     @ [char_of (48 + zone_col z), char_of (48 + zone_row z)]"

text \<open>The entries of a message \<open>MachineInfo\<close> that are read; \<open>name()\<close> of an entry without a name
  is the empty string.\<close>

record machine_msg =
  mm_name :: "string option"
  mm_zone :: "zone option"
  mm_rotation :: nat

datatype game_phase = PRE_GAME | SETUP | EXPLORATION | PRODUCTION | POST_GAME

section \<open>State\<close>

datatype placement_effect = PlaceFactory string string pose

record placement =
  pl_cfg :: "string \<Rightarrow> real"
  pl_models :: "string \<Rightarrow> string option"
  machines_placed :: bool
  is_game_started :: bool
  placed_machines :: "string list"
  pl_trace :: "placement_effect list"

text \<open>\<open>pl_models\<close> gives the content of the model file of a type, if it can be opened.\<close>

definition Placement_Load :: "(string \<Rightarrow> real) \<Rightarrow> (string \<Rightarrow> string option) \<Rightarrow> placement" where
  "Placement_Load cfg models =
     \<lparr>pl_cfg = cfg, pl_models = models, machines_placed = False, is_game_started = False,
      placed_machines = [], pl_trace = []\<rparr>"

definition MPS_COUNT :: nat where "MPS_COUNT = 14"

definition Placement_Reset :: "placement \<Rightarrow> placement" where
  "Placement_Reset s = s\<lparr>machines_placed := False\<rparr>"

definition mps_is_placed :: "string \<Rightarrow> placement \<Rightarrow> bool" where
  "mps_is_placed n s = list_ex (\<lambda>m. n = m) (placed_machines s)"

section \<open>Placing\<close>

definition zone_coords :: "(string \<Rightarrow> real) \<Rightarrow> string \<Rightarrow> (real \<times> real) option" where
  "zone_coords cfg z =
     (let offset_x = cfg ''plugins/mps-placement/zone_width'' * 0.5;
          offset_y = cfg ''plugins/mps-placement/zone_height'' * 0.5;
          x = real (of_char (z ! 3)) - 48;
          y = real (of_char (z ! 4)) - 48
      in if z ! 0 = CHR ''C'' then Some (x - offset_x, y - offset_y)
         else if z ! 0 = CHR ''M'' then Some ((x - offset_x) * -1, y - offset_y)
         else None)"

definition mps_type_of_name :: "string \<Rightarrow> string option" where
  "mps_type_of_name n =
     (if str_contains n ''BS'' then Some ''mps_base''
      else if str_contains n ''CS'' then Some ''mps_cap''
      else if str_contains n ''RS'' then Some ''mps_ring''
      else if str_contains n ''DS'' then Some ''mps_delivery''
      else if str_contains n ''SS'' then Some ''mps_storage''
      else None)"

definition mps_orientation :: "nat \<Rightarrow> real" where
  "mps_orientation rotation = pi * real rotation / 180 - pi / 2"

text \<open>One machine of the message, up to the three points where the function returns: \<open>None\<close>.\<close>

definition place_machine :: "string \<Rightarrow> zone \<Rightarrow> nat \<Rightarrow> placement \<Rightarrow> placement option" where
  "place_machine mps_name z rotation s =
     (case zone_coords (pl_cfg s) (Zone_Name z) of
        None \<Rightarrow> None
      | Some (coord_x, coord_y) \<Rightarrow>
          (case mps_type_of_name mps_name of
             None \<Rightarrow> None
           | Some mps_type \<Rightarrow>
               (case pl_models s mps_type of
                  None \<Rightarrow> None
                | Some raw_sdf \<Rightarrow>
                    (case str_find mps_type raw_sdf of
                       None \<Rightarrow> None
                     | Some name_pos \<Rightarrow>
                         let new_sdf = str_splice name_pos (length mps_type) mps_name raw_sdf
                         in Some (s\<lparr>pl_trace := pl_trace s @ [PlaceFactory new_sdf mps_name
                                      (Pose3d coord_x coord_y 0 0 0 (mps_orientation rotation))],
                                    placed_machines := placed_machines s @ [mps_name]\<rparr>)))))"

text \<open>The loop; the flag says that the function returned from within it.\<close>

fun place_machines :: "machine_msg list \<Rightarrow> placement \<Rightarrow> bool \<times> placement" where
  "place_machines [] s = (False, s)"
| "place_machines (m # ms) s =
     (let mps_name = (case mm_name m of None \<Rightarrow> [] | Some n \<Rightarrow> n)
      in if mps_is_placed mps_name s then place_machines ms s
         else if mm_name m = None then place_machines ms s
         else case mm_zone m of
           None \<Rightarrow> place_machines ms s
         | Some z \<Rightarrow>
             (case place_machine mps_name z (mm_rotation m) s of
                None \<Rightarrow> (True, s)
              | Some s' \<Rightarrow> place_machines ms s'))"

definition on_machine_info_msg :: "real \<Rightarrow> machine_msg list \<Rightarrow> placement \<Rightarrow> placement" where
  "on_machine_info_msg sim_time msg s =
     (if machines_placed s \<or> \<not> is_game_started s
         \<or> sim_time < pl_cfg s ''plugins/mps-placement/wait_time_before_placement''
      then s
      else case place_machines msg s of
             (returned, s) \<Rightarrow>
               if returned then s
               else if length (placed_machines s) \<noteq> MPS_COUNT then s
               else s\<lparr>machines_placed := True\<rparr>)"

definition on_game_state_msg :: "game_phase \<Rightarrow> placement \<Rightarrow> placement" where
  "on_game_state_msg phase s =
     (if \<not> is_game_started s \<and> phase \<noteq> PRE_GAME then s\<lparr>is_game_started := True\<rparr> else s)"

section \<open>The loader\<close>

datatype station_class =
  BaseStation_class | StorageStation_class | CapStation_class | RingStation_class
| DeliveryStation_class

definition MpsLoader_Load :: "string \<Rightarrow> station_class option" where
  "MpsLoader_Load n =
     (if str_contains n ''BS'' then Some BaseStation_class
      else if str_contains n ''SS'' then Some StorageStation_class
      else if str_contains n ''CS'' then Some CapStation_class
      else if str_contains n ''RS'' then Some RingStation_class
      else if str_contains n ''DS'' then Some DeliveryStation_class
      else None)"

text \<open>The station number that the constructor of a class sets, and the type that its model has.\<close>

definition class_station :: "station_class \<Rightarrow> nat" where
  "class_station c = (case c of BaseStation_class \<Rightarrow> STATION_BASE | RingStation_class \<Rightarrow> STATION_RING
     | CapStation_class \<Rightarrow> STATION_CAP | DeliveryStation_class \<Rightarrow> STATION_DELIVERY
     | StorageStation_class \<Rightarrow> STATION_STORAGE)"

definition class_type :: "station_class \<Rightarrow> string" where
  "class_type c = (case c of BaseStation_class \<Rightarrow> ''mps_base'' | RingStation_class \<Rightarrow> ''mps_ring''
     | CapStation_class \<Rightarrow> ''mps_cap'' | DeliveryStation_class \<Rightarrow> ''mps_delivery''
     | StorageStation_class \<Rightarrow> ''mps_storage'')"

text \<open>
  For every machine of the game, the plugin that places it and the plugin that runs in it
  agree: the model that is spawned is that of the class that the loader makes for the name,
  although they test the names in different orders. A name with the letters of two types is
  decided differently by the two.
\<close>

theorem loader_agrees_with_placement:
  "(\<forall>n\<in>set mps_names. \<exists>c. MpsLoader_Load n = Some c \<and> mps_type_of_name n = Some (class_type c)
       \<and> (\<exists>u. get_URI (class_station c) = Inr u))
   \<and> MpsLoader_Load ''CSS'' = Some StorageStation_class \<and> mps_type_of_name ''CSS'' = Some ''mps_cap''"
proof (intro conjI ballI)
  fix n
  assume n: "n \<in> set mps_names"
  let ?ok = "\<lambda>n. case MpsLoader_Load n of None \<Rightarrow> False
      | Some c \<Rightarrow> mps_type_of_name n = Some (class_type c)
           \<and> (case get_URI (class_station c) of Inl e \<Rightarrow> False | Inr u \<Rightarrow> True)"
  have "list_all ?ok mps_names" by code_simp
  with n have "?ok n" unfolding list_all_iff by (rule bspec [rotated])
  then show "\<exists>c. MpsLoader_Load n = Some c \<and> mps_type_of_name n = Some (class_type c)
       \<and> (\<exists>u. get_URI (class_station c) = Inr u)"
    by (auto split: option.splits sum.splits)
qed code_simp+

theorem loader_agrees_with_placement_witness:
  "mps_type_of_name ''C-CS1'' = Some ''mps_cap''"
proof -
  have m: "''C-CS1'' \<in> set mps_names" by (simp add: mps_names_def)
  have "MpsLoader_Load ''C-CS1'' = Some CapStation_class" by code_simp
  with loader_agrees_with_placement m show ?thesis by (fastforce simp: class_type_def)
qed

section \<open>What is placed\<close>

datatype placement_event =
    MachineInfo real "machine_msg list"
  | GameState game_phase
  | ResetEvent

definition placement_step :: "placement_event \<Rightarrow> placement \<Rightarrow> placement" where
  "placement_step ev s =
     (case ev of
        MachineInfo t msg \<Rightarrow> on_machine_info_msg t msg s
      | GameState p \<Rightarrow> on_game_state_msg p s
      | ResetEvent \<Rightarrow> Placement_Reset s)"

definition placed_names :: "placement_effect list \<Rightarrow> string list" where
  "placed_names es = map (\<lambda>e. case e of PlaceFactory sdf n p \<Rightarrow> n) es"

definition placement_ok :: "placement \<Rightarrow> bool" where
  "placement_ok s \<longleftrightarrow> placed_names (pl_trace s) = placed_machines s \<and> distinct (placed_machines s)
     \<and> (\<not> is_game_started s \<longrightarrow> pl_trace s = [])"

lemma mps_is_placed_iff: "mps_is_placed n s \<longleftrightarrow> n \<in> set (placed_machines s)"
  by (auto simp: mps_is_placed_def list_ex_iff)

lemma place_machine_Some:
  assumes "place_machine n z r s = Some s'"
  obtains sdf p where
    "s' = s\<lparr>pl_trace := pl_trace s @ [PlaceFactory sdf n p],
            placed_machines := placed_machines s @ [n]\<rparr>"
  using assms by (auto simp: place_machine_def Let_def split: option.splits)

text \<open>A state extends another when it has placed more machines, each once.\<close>

definition extends :: "placement \<Rightarrow> placement \<Rightarrow> bool" where
  "extends s s' \<longleftrightarrow> (\<exists>es. pl_trace s' = pl_trace s @ es
      \<and> placed_machines s' = placed_machines s @ placed_names es)"

lemma extends_refl: "extends s s"
  by (auto simp: extends_def placed_names_def)

lemma extends_trans: "extends s t \<Longrightarrow> extends t u \<Longrightarrow> extends s u"
  by (auto simp: extends_def placed_names_def)

lemma place_machines_ok:
  "placement_ok s \<Longrightarrow> is_game_started s \<Longrightarrow> place_machines ms s = (b, s') \<Longrightarrow>
   placement_ok s' \<and> extends s s' \<and> is_game_started s' \<and> machines_placed s' = machines_placed s"
proof (induction ms s rule: place_machines.induct)
  case (1 s)
  then show ?case by (auto simp: extends_refl)
next
  case (2 m ms s)
  define n where "n = (case mm_name m of None \<Rightarrow> [] | Some n \<Rightarrow> n)"
  show ?case
  proof (cases "mps_is_placed n s \<or> mm_name m = None \<or> mm_zone m = None")
    case True
    with 2 show ?thesis
      by (auto simp: n_def Let_def split: option.splits if_splits)
  next
    case False
    then obtain k z where k: "mm_name m = Some k" and z: "mm_zone m = Some z" by auto
    have nk: "n = k" by (simp add: n_def k)
    show ?thesis
    proof (cases "place_machine n z (mm_rotation m) s")
      case None
      with False z "2.prems" have "s' = s"
        by (auto simp: n_def Let_def split: option.splits if_splits)
      with "2.prems" show ?thesis by (simp add: extends_refl)
    next
      case (Some s1)
      from Some obtain sdf p where s1: "s1 = s\<lparr>pl_trace := pl_trace s @ [PlaceFactory sdf n p],
            placed_machines := placed_machines s @ [n]\<rparr>" by (rule place_machine_Some)
      have ok1: "placement_ok s1" and st1: "is_game_started s1"
        using "2.prems"(1,2) False unfolding s1
        by (simp_all add: placement_ok_def placed_names_def mps_is_placed_iff)
      have rest: "place_machines ms s1 = (b, s')"
        using "2.prems"(3) False z Some by (simp add: k nk)
      have "extends s s1" by (auto simp: extends_def s1 placed_names_def)
      moreover have "placement_ok s' \<and> extends s1 s' \<and> is_game_started s'
          \<and> machines_placed s' = machines_placed s1"
        using "2.IH"(4) [OF n_def _ _ z Some ok1 st1 rest] False by simp
      ultimately show ?thesis using extends_trans by (auto simp: s1)
    qed
  qed
qed

lemma placement_ok_flags [simp]:
  "placement_ok (s\<lparr>machines_placed := b\<rparr>) = placement_ok s"
  "extends s (t\<lparr>machines_placed := b\<rparr>) = extends s t"
  by (simp_all add: placement_ok_def extends_def)

lemma placement_step_ok:
  assumes "placement_ok s"
  shows "placement_ok (placement_step ev s) \<and> extends s (placement_step ev s)"
proof (cases ev)
  case (MachineInfo t msg)
  obtain b s' where r: "place_machines msg s = (b, s')" by fastforce
  with place_machines_ok [OF assms _ r] MachineInfo assms show ?thesis
    by (auto simp: placement_step_def on_machine_info_msg_def extends_refl)
next
  case (GameState p)
  with assms show ?thesis
    by (auto simp: placement_step_def on_game_state_msg_def placement_ok_def extends_def placed_names_def)
next
  case ResetEvent
  with assms show ?thesis
    by (simp add: placement_step_def Placement_Reset_def extends_refl)
qed

lemma placement_run_ok:
  "placement_ok s \<Longrightarrow> placement_ok (fold placement_step evs s) \<and> extends s (fold placement_step evs s)"
proof (induction evs arbitrary: s)
  case (Cons e evs)
  from placement_step_ok [OF Cons.prems, of e] Cons.IH [of "placement_step e s"] show ?case
    by (auto intro: extends_trans)
qed (simp add: extends_refl)

lemma Placement_Load_ok: "placement_ok (Placement_Load cfg models)"
  by (simp add: placement_ok_def Placement_Load_def placed_names_def)

text \<open>
  Whatever messages arrive in whatever order, and however often the world is reset, every
  machine is placed at most once, the list of placed machines is exactly what has been
  published, in order, and nothing is published before the game has started.
\<close>

theorem placed_at_most_once:
  "placed_names (pl_trace (fold placement_step evs (Placement_Load cfg models)))
     = placed_machines (fold placement_step evs (Placement_Load cfg models))
   \<and> distinct (placed_machines (fold placement_step evs (Placement_Load cfg models)))
   \<and> (is_game_started (fold placement_step evs (Placement_Load cfg models))
      \<or> pl_trace (fold placement_step evs (Placement_Load cfg models)) = [])"
  using placement_run_ok [OF Placement_Load_ok, of evs cfg models] by (auto simp: placement_ok_def)

text \<open>
  A reset does not make the machines again: after it, no sequence of messages places a
  machine that had been placed before, because the list of placed machines survives.
\<close>

theorem reset_never_replaces:
  assumes "n \<in> set (placed_machines (fold placement_step evs (Placement_Load cfg models)))"
  shows "\<exists>es. pl_trace (fold placement_step later
            (Placement_Reset (fold placement_step evs (Placement_Load cfg models))))
        = pl_trace (fold placement_step evs (Placement_Load cfg models)) @ es
      \<and> n \<notin> set (placed_names es)"
proof -
  let ?s = "fold placement_step evs (Placement_Load cfg models)"
  have "placement_ok (Placement_Reset ?s)"
    using placement_run_ok [OF Placement_Load_ok, of evs cfg models] by (simp add: Placement_Reset_def)
  from placement_run_ok [OF this, of later] obtain es where
    "pl_trace (fold placement_step later (Placement_Reset ?s)) = pl_trace ?s @ es"
    "placed_machines (fold placement_step later (Placement_Reset ?s)) = placed_machines ?s @ placed_names es"
    "distinct (placed_machines (fold placement_step later (Placement_Reset ?s)))"
    by (auto simp: extends_def Placement_Reset_def placement_ok_def)
  with assms show ?thesis by auto
qed

section \<open>Where it is placed\<close>

definition unit_zones :: "(string \<Rightarrow> real) \<Rightarrow> bool" where
  "unit_zones cfg \<longleftrightarrow> cfg ''plugins/mps-placement/zone_width'' = 1
                    \<and> cfg ''plugins/mps-placement/zone_height'' = 1"

lemma zone_coords_eq:
  assumes "zone_ok z" and "unit_zones cfg"
  shows "zone_coords cfg (Zone_Name z) =
    Some ((case zone_side z of CYAN \<Rightarrow> real (zone_col z) - 1 / 2
                             | MAGENTA \<Rightarrow> 1 / 2 - real (zone_col z)),
          real (zone_row z) - 1 / 2)"
proof -
  have d: "(of_char (char_of (48 + k) :: char) :: nat) = 48 + k" if "k < 10" for k :: nat
    using that by (simp only: of_char_of) simp
  have "zone_col z < 10" "zone_row z < 10" using assms(1) by (simp_all add: zone_ok_def)
  note d [OF this(1)] d [OF this(2)]
  then show ?thesis using assms(2)
    by (cases "zone_side z")
       (simp_all add: zone_coords_def Zone_Name_def Let_def unit_zones_def)
qed

text \<open>
  With the zones of one metre that the configuration sets, a machine is placed in the middle
  of its zone: cyan machines right of the line and magenta machines left of it, all within the
  field, and machines in different zones at least one metre apart in one direction.
\<close>

theorem zones_apart:
  assumes "zone_ok z" and "zone_ok z'" and "z \<noteq> z'" and "unit_zones cfg"
  shows "\<exists>x y x' y'. zone_coords cfg (Zone_Name z) = Some (x, y)
    \<and> zone_coords cfg (Zone_Name z') = Some (x', y')
    \<and> (1 \<le> \<bar>x - x'\<bar> \<or> 1 \<le> \<bar>y - y'\<bar>)
    \<and> (0 < x \<longleftrightarrow> zone_side z = CYAN) \<and> 1 / 2 \<le> \<bar>x\<bar> \<and> \<bar>x\<bar> \<le> 13 / 2 \<and> 1 / 2 \<le> y \<and> y \<le> 15 / 2"
proof -
  have apart: "zone_side z \<noteq> zone_side z' \<or> zone_col z \<noteq> zone_col z' \<or> zone_row z \<noteq> zone_row z'"
    using assms(3) by (metis zone.equality old.unit.exhaust)
  have far: "1 \<le> \<bar>real a - real b\<bar>" if "a \<noteq> b" for a b :: nat
    using that by linarith
  have "1 \<le> zone_col z" "zone_col z \<le> 7" "1 \<le> zone_row z" "zone_row z \<le> 8" "1 \<le> zone_col z'"
    using assms(1,2) by (simp_all add: zone_ok_def)
  then have b: "1 \<le> real (zone_col z)" "real (zone_col z) \<le> 7" "1 \<le> real (zone_row z)"
      "real (zone_row z) \<le> 8" "1 \<le> real (zone_col z')" by simp_all
  show ?thesis
    unfolding zone_coords_eq [OF assms(1,4)] zone_coords_eq [OF assms(2,4)]
    using apart far [of "zone_col z" "zone_col z'"] far [of "zone_row z" "zone_row z'"] b
    by (cases "zone_side z"; cases "zone_side z'") (auto simp: abs_if split: if_splits)
qed

definition cfg_placement :: "string \<Rightarrow> real" where
  "cfg_placement k = (if k = ''plugins/mps-placement/wait_time_before_placement'' then 15 else 1)"

theorem zones_apart_witness:
  "\<exists>x y x' y'. zone_coords cfg_placement (Zone_Name \<lparr>zone_side = CYAN, zone_col = 7, zone_row = 8\<rparr>) = Some (x, y)
     \<and> zone_coords cfg_placement (Zone_Name \<lparr>zone_side = MAGENTA, zone_col = 7, zone_row = 8\<rparr>) = Some (x', y')
     \<and> (1 \<le> \<bar>x - x'\<bar> \<or> 1 \<le> \<bar>y - y'\<bar>)"
  using zones_apart [of "\<lparr>zone_side = CYAN, zone_col = 7, zone_row = 8\<rparr>"
      "\<lparr>zone_side = MAGENTA, zone_col = 7, zone_row = 8\<rparr>" cfg_placement]
  by (auto simp: zone_ok_def unit_zones_def cfg_placement_def)

section \<open>Completeness\<close>

text \<open>An entry for which a machine can be made.\<close>

definition placeable :: "placement \<Rightarrow> machine_msg \<Rightarrow> bool" where
  "placeable s m \<longleftrightarrow>
     (case (mm_name m, mm_zone m) of
        (Some n, Some z) \<Rightarrow> zone_ok z
          \<and> (case mps_type_of_name n of None \<Rightarrow> False
             | Some t \<Rightarrow> (case pl_models s t of None \<Rightarrow> False | Some sdf \<Rightarrow> sublist t sdf))
      | _ \<Rightarrow> False)"

lemma placeable_cong: "pl_models s = pl_models t \<Longrightarrow> placeable s m = placeable t m"
  unfolding placeable_def by (erule subst) (rule refl)

lemma place_machine_placeable:
  assumes "placeable s m"
  obtains n z s' where "mm_name m = Some n" "mm_zone m = Some z"
    "place_machine n z r s = Some s'" "placed_machines s' = placed_machines s @ [n]"
    "pl_models s' = pl_models s" "pl_cfg s' = pl_cfg s"
proof -
  from assms obtain n z t sdf where m: "mm_name m = Some n" "mm_zone m = Some z" "zone_ok z"
      "mps_type_of_name n = Some t" "pl_models s t = Some sdf" "sublist t sdf"
    by (auto simp: placeable_def split: option.splits)
  obtain i where i: "str_find t sdf = Some i"
    using m(6) str_find_None_iff [of t sdf] by auto
  have "zone_coords (pl_cfg s) (Zone_Name z) \<noteq> None"
    by (cases "zone_side z") (simp_all add: zone_coords_def Zone_Name_def Let_def)
  with m i that show thesis by (auto simp: place_machine_def Let_def)
qed

lemma place_machines_complete:
  "\<forall>m\<in>set ms. placeable s m \<Longrightarrow> distinct (map mm_name ms) \<Longrightarrow>
   (\<forall>m\<in>set ms. \<forall>n. mm_name m = Some n \<longrightarrow> n \<notin> set (placed_machines s)) \<Longrightarrow>
   \<exists>s'. place_machines ms s = (False, s')
      \<and> placed_machines s' = placed_machines s @ map (the \<circ> mm_name) ms"
proof (induction ms arbitrary: s)
  case Nil
  then show ?case by simp
next
  case (Cons m ms)
  from Cons.prems(1) have "placeable s m" by simp
  then obtain n z s1 where m: "mm_name m = Some n" "mm_zone m = Some z"
      "place_machine n z (mm_rotation m) s = Some s1" "placed_machines s1 = placed_machines s @ [n]"
      "pl_models s1 = pl_models s" "pl_cfg s1 = pl_cfg s"
    by (rule place_machine_placeable)
  have new: "\<not> mps_is_placed n s" using Cons.prems(3) m(1) by (auto simp: mps_is_placed_iff)
  have pl: "\<forall>m\<in>set ms. placeable s1 m" using Cons.prems(1) placeable_cong [OF m(5)] by simp
  have di: "distinct (map mm_name ms)" using Cons.prems(2) by simp
  have fr: "\<forall>m'\<in>set ms. \<forall>k. mm_name m' = Some k \<longrightarrow> k \<notin> set (placed_machines s1)"
    using Cons.prems(2,3) m(1,4) by (auto simp: image_iff)
  from Cons.IH [OF pl di fr] m new show ?case by auto
qed

text \<open>
  When the game has started and the time has come, one message with the fourteen machines,
  each with a different name of a known type, a zone and a model file that has the type's
  name, places all of them in the order of the message, and the plugin is done: later messages
  place nothing.
\<close>

theorem all_machines_placed:
  assumes "is_game_started s" and "\<not> machines_placed s" and "placed_machines s = []"
    and "pl_cfg s ''plugins/mps-placement/wait_time_before_placement'' \<le> t"
    and "length msg = MPS_COUNT" and "\<forall>m\<in>set msg. placeable s m" and "distinct (map mm_name msg)"
  shows "machines_placed (on_machine_info_msg t msg s)
    \<and> placed_machines (on_machine_info_msg t msg s) = map (the \<circ> mm_name) msg
    \<and> on_machine_info_msg t' msg' (on_machine_info_msg t msg s) = on_machine_info_msg t msg s"
proof -
  from place_machines_complete [OF assms(6,7)] assms(3) obtain s' where
    s': "place_machines msg s = (False, s')" "placed_machines s' = map (the \<circ> mm_name) msg" by auto
  have "on_machine_info_msg t msg s = s'\<lparr>machines_placed := True\<rparr>"
    using assms s' by (simp add: on_machine_info_msg_def)
  then show ?thesis using s' by (simp add: on_machine_info_msg_def)
qed

text \<open>The fourteen machines of the game, all of them somewhere.\<close>

definition demo_msgs :: "machine_msg list" where
  "demo_msgs = map (\<lambda>n. \<lparr>mm_name = Some n,
     mm_zone = Some \<lparr>zone_side = CYAN, zone_col = 1, zone_row = 1\<rparr>, mm_rotation = 90\<rparr>) mps_names"

definition demo_models :: "string \<Rightarrow> string option" where
  "demo_models t = Some (''<model name='' @ t)"

lemma demo_models_sublist: "\<exists>sdf. demo_models t = Some sdf \<and> sublist t sdf"
  unfolding demo_models_def by (blast intro: sublist_append_leftI)

definition demo_placement :: placement where
  "demo_placement = (Placement_Load cfg_placement demo_models)
     \<lparr>is_game_started := True\<rparr>"

lemma demo_msgs_placeable: "\<forall>m\<in>set demo_msgs. placeable demo_placement m"
proof
  fix m
  assume "m \<in> set demo_msgs"
  then obtain n where n: "n \<in> set mps_names" and m: "m = \<lparr>mm_name = Some n,
     mm_zone = Some \<lparr>zone_side = CYAN, zone_col = 1, zone_row = 1\<rparr>, mm_rotation = 90\<rparr>"
    by (auto simp: demo_msgs_def)
  have "list_all (\<lambda>n. mps_type_of_name n \<noteq> None) mps_names" by code_simp
  with n obtain t where t: "mps_type_of_name n = Some t" by (auto simp: list_all_iff)
  obtain sdf where "demo_models t = Some sdf" "sublist t sdf" using demo_models_sublist by blast
  then show "placeable demo_placement m"
    by (simp add: m placeable_def t zone_ok_def demo_placement_def Placement_Load_def)
qed

theorem all_machines_placed_witness:
  "machines_placed (on_machine_info_msg 20 demo_msgs demo_placement)
   \<and> placed_machines (on_machine_info_msg 20 demo_msgs demo_placement) = mps_names"
proof -
  have "distinct (map mm_name demo_msgs)" "map (the \<circ> mm_name) demo_msgs = mps_names"
      "length demo_msgs = MPS_COUNT"
    by (simp_all add: demo_msgs_def mps_names_def MPS_COUNT_def)
  with all_machines_placed [of demo_placement 20 demo_msgs 0 "[]"] demo_msgs_placeable show ?thesis
    by (simp add: demo_placement_def Placement_Load_def cfg_placement_def)
qed

theorem reset_never_replaces_witness:
  "\<exists>es. pl_trace (fold placement_step [MachineInfo 30 demo_msgs]
      (Placement_Reset (fold placement_step [GameState SETUP, MachineInfo 20 demo_msgs]
         (Placement_Load cfg_placement demo_models))))
    = pl_trace (fold placement_step [GameState SETUP, MachineInfo 20 demo_msgs]
         (Placement_Load cfg_placement demo_models)) @ es
    \<and> ''C-BS'' \<notin> set (placed_names es)"
proof (rule reset_never_replaces)
  let ?l = "Placement_Load cfg_placement demo_models"
  have "fold placement_step [GameState SETUP, MachineInfo 20 demo_msgs] ?l
      = on_machine_info_msg 20 demo_msgs demo_placement"
    by (simp add: placement_step_def on_game_state_msg_def demo_placement_def Placement_Load_def)
  moreover have "placed_machines (on_machine_info_msg 20 demo_msgs demo_placement) = mps_names"
  proof -
    obtain s' where "place_machines demo_msgs demo_placement = (False, s')"
        "placed_machines s' = map (the \<circ> mm_name) demo_msgs"
      using place_machines_complete [OF demo_msgs_placeable]
      by (auto simp: demo_msgs_def mps_names_def demo_placement_def Placement_Load_def)
    then show ?thesis
      by (simp add: on_machine_info_msg_def demo_placement_def Placement_Load_def cfg_placement_def
            demo_msgs_def mps_names_def MPS_COUNT_def)
  qed
  ultimately show "''C-BS'' \<in> set (placed_machines
      (fold placement_step [GameState SETUP, MachineInfo 20 demo_msgs] ?l))"
    by (simp add: mps_names_def)
qed

end
