(* ===== verification/Machines.thy ===== *)
theory Machines
  imports Prelude
begin

text \<open>
  \<open>libs/utils/llsf/machines.cpp\<close>: the numbers of the machines of the older games and their
  names, for the two assignments that the enumeration \<open>MachineAssignment\<close> has. An exception is
  an error value with its message.
\<close>

datatype MachineAssignment = ASSIGNMENT_2013 | ASSIGNMENT_2014

datatype machine_exception = Unknown_machine_type string | Unknown_machine_number u32

definition names_2013 :: "(string \<times> u32) list" where
  "names_2013 =
    [(''M1'', 0), (''M2'', 1), (''M3'', 2), (''M4'', 3), (''M5'', 4), (''M6'', 5), (''M7'', 6),
     (''M8'', 7), (''M9'', 8), (''M10'', 9), (''D1'', 10), (''D2'', 11), (''D3'', 12),
     (''TST'', 13), (''R1'', 14), (''R2'', 15)]"

definition names_2014 :: "(string \<times> u32) list" where
  "names_2014 =
    [(''M1'', 0), (''M2'', 1), (''M3'', 2), (''M4'', 3), (''M5'', 4), (''M6'', 5), (''M7'', 6),
     (''M8'', 7), (''M9'', 8), (''M10'', 9), (''M11'', 10), (''M12'', 11), (''D1'', 12),
     (''D2'', 13), (''D3'', 14), (''R1'', 15), (''M13'', 16), (''M14'', 17), (''M15'', 18),
     (''M16'', 19), (''M17'', 20), (''M18'', 21), (''M19'', 22), (''M20'', 23), (''M21'', 24),
     (''M22'', 25), (''M23'', 26), (''M24'', 27), (''D4'', 28), (''D5'', 29), (''D6'', 30),
     (''R2'', 31)]"

text \<open>The chain of comparisons, in the order of the source.\<close>

definition to_machine :: "string \<Rightarrow> MachineAssignment \<Rightarrow> machine_exception + u32" where
  "to_machine machine_name a =
     (case map_of (case a of ASSIGNMENT_2013 \<Rightarrow> names_2013 | ASSIGNMENT_2014 \<Rightarrow> names_2014)
             machine_name of
        None \<Rightarrow> Inl (Unknown_machine_type machine_name)
      | Some k \<Rightarrow> Inr k)"

text \<open>The \<open>switch\<close> over the number, its own table in the source.\<close>

definition numbers_2013 :: "(u32 \<times> string) list" where
  "numbers_2013 =
    [(0, ''M1''), (1, ''M2''), (2, ''M3''), (3, ''M4''), (4, ''M5''), (5, ''M6''), (6, ''M7''),
     (7, ''M8''), (8, ''M9''), (9, ''M10''), (10, ''D1''), (11, ''D2''), (12, ''D3''),
     (13, ''TST''), (14, ''R1''), (15, ''R2'')]"

definition numbers_2014 :: "(u32 \<times> string) list" where
  "numbers_2014 =
    [(0, ''M1''), (1, ''M2''), (2, ''M3''), (3, ''M4''), (4, ''M5''), (5, ''M6''), (6, ''M7''),
     (7, ''M8''), (8, ''M9''), (9, ''M10''), (10, ''M11''), (11, ''M12''), (12, ''D1''),
     (13, ''D2''), (14, ''D3''), (15, ''R1''), (16, ''M13''), (17, ''M14''), (18, ''M15''),
     (19, ''M16''), (20, ''M17''), (21, ''M18''), (22, ''M19''), (23, ''M20''), (24, ''M21''),
     (25, ''M22''), (26, ''M23''), (27, ''M24''), (28, ''D4''), (29, ''D5''), (30, ''D6''),
     (31, ''R2'')]"

definition machine_to_string :: "u32 \<Rightarrow> MachineAssignment \<Rightarrow> machine_exception + string" where
  "machine_to_string machine a =
     (case map_of (case a of ASSIGNMENT_2013 \<Rightarrow> numbers_2013 | ASSIGNMENT_2014 \<Rightarrow> numbers_2014)
             machine of
        None \<Rightarrow> Inl (Unknown_machine_number machine)
      | Some n \<Rightarrow> Inr n)"

text \<open>Two association lists that are each other's inverse.\<close>

lemma map_of_swap:
  assumes "distinct (map fst xs)" and "distinct (map snd xs)"
  shows "map_of xs k = Some v \<longleftrightarrow> map_of (map prod.swap xs) v = Some k"
proof -
  have "distinct (map fst (map prod.swap xs))" using assms(2) by (simp add: comp_def)
  then show ?thesis
    using assms(1) by (force simp: map_of_eq_Some_iff)
qed

lemma machine_tables:
  "numbers_2013 = map prod.swap names_2013" "numbers_2014 = map prod.swap names_2014"
  by (simp_all add: numbers_2013_def names_2013_def numbers_2014_def names_2014_def)

lemma machine_tables_distinct:
  "distinct (map fst names_2013)" "distinct (map snd names_2013)"
  "distinct (map fst names_2014)" "distinct (map snd names_2014)"
  by (simp_all add: names_2013_def names_2014_def)

lemma words_below: "m < 2 ^ 32 \<Longrightarrow> {k :: u32. k < word_of_nat m} = word_of_nat ` {..<m}"
proof (intro set_eqI iffI)
  fix k :: u32
  assume m: "m < 2 ^ 32" and "k \<in> {k. k < word_of_nat m}"
  then have "unat k < m" by (simp add: word_less_nat_alt unat_of_nat)
  then show "k \<in> word_of_nat ` {..<m}" by (intro image_eqI [of _ _ "unat k"]) auto
next
  fix k :: u32
  assume m: "m < 2 ^ 32" and "k \<in> word_of_nat ` {..<m}"
  then show "k \<in> {k. k < word_of_nat m}" by (auto simp: word_less_nat_alt unat_of_nat)
qed

lemma numbers_below:
  "fst ` set numbers_2013 = {k. k < 16}" "fst ` set numbers_2014 = {k. k < 32}"
  using words_below [of 16] words_below [of 32]
  by (simp_all add: numbers_2013_def numbers_2014_def lessThan_nat_numeral lessThan_Suc insert_commute)

lemma to_machine_Inr:
  "to_machine n a = Inr k \<longleftrightarrow>
     map_of (case a of ASSIGNMENT_2013 \<Rightarrow> names_2013 | ASSIGNMENT_2014 \<Rightarrow> names_2014) n = Some k"
  by (simp add: to_machine_def split: option.splits)

lemma machine_to_string_Inr:
  "machine_to_string k a = Inr n \<longleftrightarrow>
     map_of (case a of ASSIGNMENT_2013 \<Rightarrow> numbers_2013 | ASSIGNMENT_2014 \<Rightarrow> numbers_2014) k = Some n"
  by (simp add: machine_to_string_def split: option.splits)

lemma map_of_defined: "(\<exists>v. map_of xs k = Some v) \<longleftrightarrow> k \<in> fst ` set xs"
  by (metis domIff dom_map_of_conv_image_fst not_None_eq)

text \<open>
  Names and numbers of the machines are in one-to-one correspondence under each assignment:
  translating in one direction succeeds with a result exactly if the other direction
  translates it back, and the numbers are exactly those below 16 or 32.
\<close>

theorem machine_names_roundtrip:
  "(to_machine n a = Inr k \<longleftrightarrow> machine_to_string k a = Inr n)
   \<and> ((\<exists>n. machine_to_string k a = Inr n)
      \<longleftrightarrow> k < (case a of ASSIGNMENT_2013 \<Rightarrow> 16 | ASSIGNMENT_2014 \<Rightarrow> 32))"
proof
  show "to_machine n a = Inr k \<longleftrightarrow> machine_to_string k a = Inr n"
    unfolding to_machine_Inr machine_to_string_Inr
    by (cases a) (simp_all only: MachineAssignment.case machine_tables
         map_of_swap [OF machine_tables_distinct(1,2)] map_of_swap [OF machine_tables_distinct(3,4)])
  show "(\<exists>n. machine_to_string k a = Inr n)
      \<longleftrightarrow> k < (case a of ASSIGNMENT_2013 \<Rightarrow> 16 | ASSIGNMENT_2014 \<Rightarrow> 32)"
    unfolding machine_to_string_Inr map_of_defined
    by (cases a) (simp_all add: numbers_below)
qed

end
