(* ===== verification/LightControl.thy ===== *)
theory LightControl
  imports Gazebo
begin

text \<open>
  \<open>plugins/light-control/light_control.cpp\<close>: the signal light on a machine. Messages set the
  wanted states of three lamps; twice a second the plugin publishes the visual of every lamp
  whose state has changed. \<open>change_light\<close> gets the states by reference and changes both of them.
\<close>

section \<open>State\<close>

datatype LightState = OFF | ON | BLINK

text \<open>\<open>enum Color\<close> of this plugin.\<close>

datatype lamp = Lamp_RED | Lamp_YELLOW | Lamp_GREEN

datatype instruct_set =
    INSTRUCT_MACHINE_SET_SIGNAL_LIGHT | INSTRUCT_MACHINE_MOVE_CONVEYOR
  | INSTRUCT_MACHINE_STOP_CONVEYOR | INSTRUCT_MACHINE_WAIT_FOR_PICKUP
  | INSTRUCT_MACHINE_BS | INSTRUCT_MACHINE_SS | INSTRUCT_MACHINE_RS | INSTRUCT_MACHINE_CS
  | INSTRUCT_MACHINE_DS | INSTRUCT_MACHINE_PULL_MSGS_FROM_MPS | INSTRUCT_MACHINE_RESET

text \<open>The message; an unset \<open>light_state\<close> reads as three first enumerators.\<close>

record instruct_msg =
  im_machine :: string
  im_set :: instruct_set
  im_light :: "(LightState \<times> LightState \<times> LightState) option"

definition im_states :: "instruct_msg \<Rightarrow> LightState \<times> LightState \<times> LightState" where
  "im_states m = (case im_light m of None \<Rightarrow> (OFF, OFF, OFF) | Some l \<Rightarrow> l)"

record light_control =
  machine_name :: string
  light_state :: "lamp \<Rightarrow> LightState"
  prev_light_state :: "lamp \<Rightarrow> LightState"
  last_sent_time :: real
  light_trace :: "(lamp \<times> visual) list"

definition LightControl_Load :: "real \<Rightarrow> string \<Rightarrow> light_control" where
  "LightControl_Load sim_time machine =
     \<lparr>machine_name = machine, light_state = (\<lambda>l. OFF), prev_light_state = (\<lambda>l. ON),
      last_sent_time = sim_time, light_trace = []\<rparr>"

section \<open>Operations\<close>

definition on_light_msg :: "instruct_msg \<Rightarrow> light_control \<Rightarrow> light_control" where
  "on_light_msg msg c =
     (if im_set msg \<noteq> INSTRUCT_MACHINE_SET_SIGNAL_LIGHT \<and> im_machine msg \<noteq> machine_name c then c
      else case im_states msg of
        (r, y, g) \<Rightarrow> c\<lparr>light_state := (light_state c)(Lamp_RED := r, Lamp_YELLOW := y, Lamp_GREEN := g)\<rparr>)"

text \<open>The visual of a lamp.\<close>

definition lamp_height :: "lamp \<Rightarrow> real" where
  "lamp_height l = (case l of Lamp_RED \<Rightarrow> 0.085 | Lamp_YELLOW \<Rightarrow> 0.051 | Lamp_GREEN \<Rightarrow> 0.017)"

definition lamp_suffix :: "lamp \<Rightarrow> string" where
  "lamp_suffix l = (case l of Lamp_RED \<Rightarrow> ''::redon'' | Lamp_YELLOW \<Rightarrow> ''::yellowon''
                    | Lamp_GREEN \<Rightarrow> ''::greenon'')"

definition lamp_diffuse :: "lamp \<Rightarrow> rgba" where
  "lamp_diffuse l = (case l of Lamp_RED \<Rightarrow> (0.8, 0, 0, 0.8) | Lamp_YELLOW \<Rightarrow> (0.9, 0.7, 0, 0.8)
                     | Lamp_GREEN \<Rightarrow> (0, 0.8, 0, 0.8))"

definition lamp_emissive_on :: "lamp \<Rightarrow> rgba" where
  "lamp_emissive_on l = (case l of Lamp_RED \<Rightarrow> (1, 0.3, 0.3, 1) | Lamp_YELLOW \<Rightarrow> (1, 0.9, 0.3, 1)
                         | Lamp_GREEN \<Rightarrow> (0.3, 1, 0.3, 1))"

definition lamp_visual :: "string \<Rightarrow> lamp \<Rightarrow> LightState \<Rightarrow> visual" where
  "lamp_visual machine l st =
     (let parent_link = machine @ ''::light_signals::link'';
          v = empty_visual
            \<lparr>vis_cylinder := Some (0.02, 0.034), vis_cast_shadows := Some False,
             vis_parent_name := parent_link, vis_name := parent_link @ lamp_suffix l,
             vis_pose := Some (Pose3d 0 0 (lamp_height l) 0 0 0),
             vis_diffuse := Some (lamp_diffuse l)\<rparr>
      in if st = ON
         then v\<lparr>vis_visible := Some True, vis_emissive := Some (lamp_emissive_on l)\<rparr>
         else v\<lparr>vis_visible := Some False, vis_emissive := Some (0, 0, 0, 0),
                vis_ambient := Some (lamp_diffuse l)\<rparr>)"

text \<open>\<open>fmod(time, 1)\<close>, for a time that is not negative.\<close>

definition blink_state :: "real \<Rightarrow> LightState" where
  "blink_state time = (if 0.5 \<le> frac time then OFF else ON)"

definition change_light :: "real \<Rightarrow> lamp \<Rightarrow> light_control \<Rightarrow> light_control" where
  "change_light time l c =
     (let state = light_state c l; prev_state = prev_light_state c l
      in if state \<noteq> BLINK \<and> state = prev_state then c
         else let prev_state = state;
                  state = (if state = BLINK then blink_state time else state)
              in c\<lparr>light_state := (light_state c)(l := state),
                   prev_light_state := (prev_light_state c)(l := prev_state),
                   light_trace := light_trace c @ [(l, lamp_visual (machine_name c) l state)]\<rparr>)"

definition Light_OnUpdate :: "real \<Rightarrow> light_control \<Rightarrow> light_control" where
  "Light_OnUpdate time c =
     (if time < 20 then c
      else if time - last_sent_time c < 0.5 then c
      else let c = c\<lparr>last_sent_time := time\<rparr>;
               c = change_light time Lamp_RED c;
               c = change_light time Lamp_YELLOW c
           in change_light time Lamp_GREEN c)"

section \<open>Which messages count\<close>

text \<open>
  The guard lets too much through: a message is ignored only if it is neither about signal
  lights nor for this machine. A signal-light message for another machine sets the lamps, and
  so does any instruction for this machine, which switches them off when it has no lights.
\<close>

theorem on_light_msg_guard:
  "(im_set m \<noteq> INSTRUCT_MACHINE_SET_SIGNAL_LIGHT \<and> im_machine m \<noteq> machine_name c \<longrightarrow>
        on_light_msg m c = c)
   \<and> (im_set m = INSTRUCT_MACHINE_SET_SIGNAL_LIGHT \<or> im_machine m = machine_name c \<longrightarrow>
        (light_state (on_light_msg m c) Lamp_RED, light_state (on_light_msg m c) Lamp_YELLOW,
         light_state (on_light_msg m c) Lamp_GREEN) = im_states m)
   \<and> prev_light_state (on_light_msg m c) = prev_light_state c"
  by (auto simp: on_light_msg_def split: prod.splits)

definition demo_light :: light_control where
  "demo_light = LightControl_Load 0 ''C-BS''"

theorem on_light_msg_guard_witness:
  "light_state (on_light_msg \<lparr>im_machine = ''M-RS1'', im_set = INSTRUCT_MACHINE_SET_SIGNAL_LIGHT,
       im_light = Some (ON, OFF, BLINK)\<rparr> demo_light) Lamp_RED = ON
   \<and> machine_name demo_light = ''C-BS''"
  using on_light_msg_guard [of "\<lparr>im_machine = ''M-RS1'', im_set = INSTRUCT_MACHINE_SET_SIGNAL_LIGHT,
       im_light = Some (ON, OFF, BLINK)\<rparr>" demo_light]
  by (simp add: im_states_def demo_light_def LightControl_Load_def)

section \<open>What is shown\<close>

text \<open>Whether a lamp was last shown lit.\<close>

definition shown :: "lamp \<Rightarrow> (lamp \<times> visual) list \<Rightarrow> bool option" where
  "shown l tr = (case find (\<lambda>(k, v). k = l) (rev tr) of None \<Rightarrow> None | Some (k, v) \<Rightarrow> vis_visible v)"

lemma shown_snoc [simp]:
  "shown l (tr @ [(k, v)]) = (if k = l then vis_visible v else shown l tr)"
  by (simp add: shown_def)

lemma lamp_visual_visible [simp]: "vis_visible (lamp_visual m l st) = Some (st = ON)"
  by (simp add: lamp_visual_def Let_def)

lemma blink_not_BLINK [simp]: "blink_state t \<noteq> BLINK"
  by (simp add: blink_state_def)

lemma change_light_simps [simp]:
  "light_state (change_light t l c) k =
     (if k = l \<and> light_state c l = BLINK then blink_state t else light_state c k)"
  "prev_light_state (change_light t l c) k = (if k = l then light_state c l else prev_light_state c k)"
  "machine_name (change_light t l c) = machine_name c"
  "last_sent_time (change_light t l c) = last_sent_time c"
  by (auto simp: change_light_def Let_def)

lemma shown_change_light:
  "shown k (light_trace (change_light t l c)) =
     (if k = l \<and> (light_state c l = BLINK \<or> light_state c l \<noteq> prev_light_state c l)
      then Some ((if light_state c l = BLINK then blink_state t else light_state c l) = ON)
      else shown k (light_trace c))"
  by (auto simp: change_light_def Let_def)

text \<open>An update in which something may be sent.\<close>

definition sends_at :: "real \<Rightarrow> light_control \<Rightarrow> bool" where
  "sends_at t c \<longleftrightarrow> 20 \<le> t \<and> 0.5 \<le> t - last_sent_time c"

lemma Light_OnUpdate_eq:
  "Light_OnUpdate t c =
     (if sends_at t c
      then change_light t Lamp_GREEN (change_light t Lamp_YELLOW
             (change_light t Lamp_RED (c\<lparr>last_sent_time := t\<rparr>)))
      else c)"
  by (auto simp: Light_OnUpdate_def sends_at_def Let_def)

lemma update_simps:
  assumes "sends_at t c"
  shows "light_state (Light_OnUpdate t c) l =
      (if light_state c l = BLINK then blink_state t else light_state c l)"
    and "prev_light_state (Light_OnUpdate t c) l = light_state c l"
    and "last_sent_time (Light_OnUpdate t c) = t"
    and "shown l (light_trace (Light_OnUpdate t c)) =
      (if light_state c l = BLINK \<or> light_state c l \<noteq> prev_light_state c l
       then Some ((if light_state c l = BLINK then blink_state t else light_state c l) = ON)
       else shown l (light_trace c))"
  using assms by (cases l; simp add: Light_OnUpdate_eq shown_change_light)+

datatype light_event = LightMsg instruct_msg | LightUpdate real

definition light_step :: "light_event \<Rightarrow> light_control \<Rightarrow> light_control" where
  "light_step ev c = (case ev of LightMsg m \<Rightarrow> on_light_msg m c | LightUpdate t \<Rightarrow> Light_OnUpdate t c)"

text \<open>
  A lamp is in step when it was shown in its previous state (in either half of the second, if
  that was \<open>BLINK\<close>), or has not been shown and has the initial previous state.
\<close>

definition lamp_ok :: "lamp \<Rightarrow> light_control \<Rightarrow> bool" where
  "lamp_ok l c \<longleftrightarrow>
     (case shown l (light_trace c) of
        None \<Rightarrow> prev_light_state c l = ON
      | Some b \<Rightarrow> prev_light_state c l = BLINK \<or> b = (prev_light_state c l = ON))"

lemma lamp_ok_update: "lamp_ok l c \<Longrightarrow> lamp_ok l (Light_OnUpdate t c)"
proof (cases "sends_at t c")
  case True
  then show "lamp_ok l c \<Longrightarrow> ?thesis"
    by (auto simp: lamp_ok_def update_simps split: option.splits)
next
  case False
  then show "lamp_ok l c \<Longrightarrow> ?thesis" by (simp add: Light_OnUpdate_eq)
qed

lemma lamp_ok_step: "lamp_ok l c \<Longrightarrow> lamp_ok l (light_step ev c)"
  by (cases ev) (auto simp: light_step_def lamp_ok_update,
      auto simp: lamp_ok_def on_light_msg_def split: prod.splits option.splits)

lemma lamp_ok_run: "lamp_ok l c \<Longrightarrow> lamp_ok l (fold light_step evs c)"
  by (induction evs arbitrary: c) (simp_all add: lamp_ok_step)

text \<open>
  In every history of messages and updates, after an update that sends each lamp is shown as
  its state says: lit if and only if the state is \<open>ON\<close>, where a blinking lamp counts as the
  half of the second it is in. The one exception is a lamp that has never been shown: if it
  was already wanted lit before the first update that sends, it is not shown at all, because
  the initial previous state is \<open>ON\<close>.
\<close>

theorem shown_follows_state:
  assumes "sends_at t (fold light_step evs (LightControl_Load t0 n))"
  shows "shown l (light_trace (Light_OnUpdate t (fold light_step evs (LightControl_Load t0 n))))
      = (if shown l (light_trace (fold light_step evs (LightControl_Load t0 n))) = None
            \<and> light_state (fold light_step evs (LightControl_Load t0 n)) l = ON
         then None
         else Some (light_state (Light_OnUpdate t (fold light_step evs (LightControl_Load t0 n))) l = ON))"
proof -
  have "lamp_ok l (LightControl_Load t0 n)"
    by (simp add: lamp_ok_def LightControl_Load_def shown_def)
  then have "lamp_ok l (fold light_step evs (LightControl_Load t0 n))" by (rule lamp_ok_run)
  then show ?thesis
    by (auto simp: lamp_ok_def update_simps [OF assms] split: option.splits)
qed

theorem shown_follows_state_witness:
  "shown Lamp_RED (light_trace (Light_OnUpdate 20 (fold light_step
      [LightMsg \<lparr>im_machine = ''C-BS'', im_set = INSTRUCT_MACHINE_SET_SIGNAL_LIGHT,
         im_light = Some (ON, OFF, OFF)\<rparr>] (LightControl_Load 0 ''C-BS'')))) = None"
  by (subst shown_follows_state)
     (simp_all add: sends_at_def LightControl_Load_def light_step_def on_light_msg_def im_states_def
        shown_def)

section \<open>Blinking\<close>

text \<open>A number of updates one after the other.\<close>

definition light_updates :: "real list \<Rightarrow> light_control \<Rightarrow> light_control" where
  "light_updates ts c = fold Light_OnUpdate ts c"

lemma steady_updates:
  "light_state c l \<noteq> BLINK \<Longrightarrow> shown l (light_trace c) = Some (light_state c l = ON) \<Longrightarrow>
   light_state (light_updates ts c) l = light_state c l
   \<and> shown l (light_trace (light_updates ts c)) = Some (light_state c l = ON)"
  unfolding light_updates_def
proof (induction ts arbitrary: c)
  case Nil
  then show ?case by simp
next
  case (Cons t ts)
  show ?case
  proof (cases "sends_at t c")
    case True
    have "light_state (Light_OnUpdate t c) l = light_state c l"
      and "shown l (light_trace (Light_OnUpdate t c)) = Some (light_state c l = ON)"
      using Cons.prems by (simp_all add: update_simps [OF True])
    with Cons.IH [of "Light_OnUpdate t c"] Cons.prems show ?thesis by simp
  next
    case False
    with Cons show ?thesis by (simp add: Light_OnUpdate_eq)
  qed
qed

text \<open>
  A lamp that is told to blink does not: the first update that sends resolves the state by
  the clock and, because it is passed by reference, overwrites the wish; however often and
  whenever the lamp is updated after that, it stays in the half-second that it was first
  resolved to, until the next message.
\<close>

theorem blinking_stops:
  assumes "light_state c l = BLINK" and "sends_at t c"
  shows "light_state (Light_OnUpdate t c) l = blink_state t
    \<and> light_state (light_updates ts (Light_OnUpdate t c)) l = blink_state t
    \<and> shown l (light_trace (light_updates ts (Light_OnUpdate t c))) = Some (blink_state t = ON)"
proof -
  have "light_state (Light_OnUpdate t c) l = blink_state t"
    and "shown l (light_trace (Light_OnUpdate t c)) = Some (blink_state t = ON)"
    using assms(1) by (simp_all add: update_simps [OF assms(2)])
  with steady_updates [of "Light_OnUpdate t c" l ts] show ?thesis by simp
qed

theorem blinking_stops_witness:
  "light_state (light_updates [21.2, 21.9, 22.6]
      (Light_OnUpdate 20.6 (demo_light\<lparr>light_state := (\<lambda>l. BLINK)\<rparr>))) Lamp_GREEN = OFF"
proof -
  have "frac (20.6 :: real) = 0.6"
    by (rule frac_unique_iff [THEN iffD2]) (auto simp: Ints_def intro: exI [of _ "20 :: int"])
  then have "blink_state 20.6 = OFF" by (simp add: blink_state_def)
  with blinking_stops [of "demo_light\<lparr>light_state := (\<lambda>l. BLINK)\<rparr>" Lamp_GREEN "20.6" "[21.2, 21.9, 22.6]"]
  show ?thesis by (simp add: sends_at_def demo_light_def LightControl_Load_def)
qed

end
