(* ===== verification/LightSignalDetection.thy ===== *)
theory LightSignalDetection
  imports LightControl
begin

text \<open>
  \<open>plugins/light-signal-detection/light-signal-detection.cpp\<close>: the simulated detection of the
  signal light in front of a robot. A machine message picks the nearest light and stores its
  lamps; while a light is in view the plugin reports it periodically, with a counter of how
  long it has been steady.
\<close>

section \<open>State\<close>

text \<open>An entry of \<open>MachineInfo\<close>: the name and the light specifications, color and state.\<close>

record light_machine =
  lm_name :: string
  lm_lights :: "(lamp \<times> LightState) list"

record light_report =
  rep_visible :: bool
  rep_history :: int
  rep_lights :: "(lamp \<times> LightState) list"

record light_detection =
  det_cfg :: "string \<Rightarrow> real"
  det_model :: string
  robot_pose :: pose
  det_state :: "lamp \<Rightarrow> LightState"
  det_visible :: bool
  visibility_history :: int
  visible_since :: real
  det_last_sent :: real
  det_trace :: "light_report list"

definition Detection_Load :: "(string \<Rightarrow> real) \<Rightarrow> gz \<Rightarrow> string \<Rightarrow> light_detection" where
  "Detection_Load cfg w n =
     \<lparr>det_cfg = cfg, det_model = n, robot_pose = gz_pose w n, det_state = (\<lambda>l. OFF),
      det_visible = False, visibility_history = -1, visible_since = 0,
      det_last_sent = gz_time w, det_trace = []\<rparr>"

abbreviation det_radius :: "light_detection \<Rightarrow> real" where
  "det_radius d \<equiv> det_cfg d ''plugins/light-signal-detection/radius-detection-area''"
abbreviation det_rel_x :: "light_detection \<Rightarrow> real" where
  "det_rel_x d \<equiv> det_cfg d ''plugins/light-signal-detection/search-area-rel-x''"
abbreviation det_rel_y :: "light_detection \<Rightarrow> real" where
  "det_rel_y d \<equiv> det_cfg d ''plugins/light-signal-detection/search-area-rel-y''"
abbreviation det_interval :: "light_detection \<Rightarrow> real" where
  "det_interval d \<equiv> det_cfg d ''plugins/light-signal-detection/send-interval''"
abbreviation det_increase :: "light_detection \<Rightarrow> real" where
  "det_increase d \<equiv>
     det_cfg d ''plugins/light-signal-detection/visibility-history-increase-per-second''"

section \<open>Operations\<close>

text \<open>\<open>has_conn\<close> is whether the publisher has connections.\<close>

definition send_light_detection :: "bool \<Rightarrow> light_detection \<Rightarrow> light_detection" where
  "send_light_detection has_conn d =
     (if has_conn
      then d\<lparr>det_trace := det_trace d @
        [\<lparr>rep_visible = det_visible d, rep_history = visibility_history d,
          rep_lights = [(Lamp_RED, det_state d Lamp_RED), (Lamp_YELLOW, det_state d Lamp_YELLOW),
                        (Lamp_GREEN, det_state d Lamp_GREEN)]\<rparr>]\<rparr>
      else d)"

definition Detection_OnUpdate :: "bool \<Rightarrow> gz \<Rightarrow> light_detection \<Rightarrow> light_detection" where
  "Detection_OnUpdate has_conn w d =
     (let d = d\<lparr>robot_pose := gz_pose w (det_model d)\<rparr>; time = gz_time w
      in if time - det_last_sent d > det_interval d \<and> det_visible d
         then send_light_detection has_conn
                (d\<lparr>det_last_sent := time,
                   visibility_history := trunc_int ((time - visible_since d) * det_increase d)\<rparr>)
         else d)"

fun save_lights :: "(lamp \<times> LightState) list \<Rightarrow> (lamp \<Rightarrow> LightState) \<Rightarrow> lamp \<Rightarrow> LightState" where
  "save_lights [] st = st"
| "save_lights ((l, x) # ls) st = save_lights ls (st(l := x))"

definition save_light_signal :: "light_machine \<Rightarrow> light_detection \<Rightarrow> light_detection" where
  "save_light_signal m d = d\<lparr>det_state := save_lights (lm_lights m) (\<lambda>l. OFF)\<rparr>"

definition look_pos :: "light_detection \<Rightarrow> real \<times> real" where
  "look_pos d =
     (let p = robot_pose d; ori = rot_yaw p
      in (pos_x p + cos ori * det_rel_x d - sin ori * det_rel_y d,
          pos_y p + sin ori * det_rel_x d + cos ori * det_rel_y d))"

text \<open>The distance of a machine's light from the point the robot looks at, at the light's own
  height; \<open>None\<close> when the world has no such light.\<close>

definition light_dist :: "gz \<Rightarrow> light_detection \<Rightarrow> light_machine \<Rightarrow> real option" where
  "light_dist w d m =
     (let light_link_name = lm_name m @ ''::light_signals::link''
      in if gz_has_base w light_link_name
         then let light_pose = gz_link_pose w light_link_name; (x, y) = look_pos d
              in Some (gz_dist w light_pose (Pose3d x y (pos_z light_pose) 0 0 0))
         else None)"

text \<open>The loop over the machines: \<open>None\<close> when it returned from the function.\<close>

fun nearest_light ::
    "gz \<Rightarrow> light_detection \<Rightarrow> light_machine list \<Rightarrow> light_machine option \<times> real
      \<Rightarrow> (light_machine option \<times> real) option" where
  "nearest_light w d [] acc = Some acc"
| "nearest_light w d (m # ms) (nearest, min_dist) =
     (case light_dist w d m of
        None \<Rightarrow> None
      | Some dst \<Rightarrow>
          nearest_light w d ms (if dst < min_dist then (Some m, dst) else (nearest, min_dist)))"

definition on_machine_info :: "bool \<Rightarrow> gz \<Rightarrow> light_machine list \<Rightarrow> light_detection \<Rightarrow> light_detection" where
  "on_machine_info has_conn w msg d =
     (case nearest_light w d msg (None, 1000000) of
        None \<Rightarrow> d
      | Some (nearest, min_dist) \<Rightarrow>
          (case (nearest, min_dist < det_radius d) of
             (Some m, True) \<Rightarrow>
               let d' = save_light_signal m d
               in if \<not> det_visible d \<or> det_state d Lamp_RED \<noteq> det_state d' Lamp_RED
                     \<or> det_state d Lamp_YELLOW \<noteq> det_state d' Lamp_YELLOW
                     \<or> det_state d Lamp_GREEN \<noteq> det_state d' Lamp_GREEN
                  then d'\<lparr>det_visible := True, visibility_history := 0, visible_since := gz_time w\<rparr>
                  else d'
           | _ \<Rightarrow> send_light_detection has_conn (d\<lparr>det_visible := False, visibility_history := -1\<rparr>)))"

section \<open>The nearest light\<close>

lemma nearest_light_spec:
  "nearest_light w d ms (n, r) = Some (n', r') \<Longrightarrow>
   r' \<le> r
   \<and> (\<forall>m\<in>set ms. \<exists>x. light_dist w d m = Some x \<and> r' \<le> x)
   \<and> (n' = n \<and> r' = r \<or> (\<exists>m\<in>set ms. n' = Some m \<and> light_dist w d m = Some r'))"
proof (induction ms arbitrary: n r)
  case Nil
  then show ?case by simp
next
  case (Cons a ms)
  then obtain x where x: "light_dist w d a = Some x" by (auto split: option.splits)
  with Cons.prems have "nearest_light w d ms (if x < r then (Some a, x) else (n, r)) = Some (n', r')"
    by simp
  then show ?case using x by (cases "x < r") (fastforce dest: Cons.IH)+
qed

lemma nearest_light_total:
  "\<forall>m\<in>set ms. light_dist w d m \<noteq> None \<Longrightarrow> \<exists>a. nearest_light w d ms acc = Some a"
proof (induction ms arbitrary: acc)
  case (Cons m ms)
  then show ?case by (cases acc) auto
qed simp

lemma nearest_light_missing:
  "\<exists>m\<in>set ms. light_dist w d m = None \<Longrightarrow> nearest_light w d ms acc = None"
proof (induction ms arbitrary: acc)
  case (Cons m ms)
  then show ?case by (cases acc) (auto split: option.splits)
qed simp

lemma last_lamp:
  "save_lights ls st l = (case map_of (rev ls) l of None \<Rightarrow> st l | Some x \<Rightarrow> x)"
proof (induction ls arbitrary: st)
  case Nil
  then show ?case by simp
next
  case (Cons p ls)
  obtain k x where "p = (k, x)" by fastforce
  then show ?case by (auto simp: Cons.IH map_add_def split: option.split)
qed

text \<open>
  What a machine message does, when every machine in it has its light in the world: a light
  is in view afterwards if and only if some machine's light is within the radius, and then the
  stored lamps are those of a machine whose light is nearest, the last specification of each
  lamp counting and lamps that are not mentioned being off; otherwise a report without a light
  goes out at once.
\<close>

theorem on_machine_info_nearest:
  assumes "\<forall>m\<in>set msg. light_dist w d m \<noteq> None" and "det_radius d \<le> 1000000"
  shows "(det_visible (on_machine_info has_conn w msg d)
            \<longleftrightarrow> (\<exists>m\<in>set msg. \<exists>x. light_dist w d m = Some x \<and> x < det_radius d))
    \<and> (det_visible (on_machine_info has_conn w msg d) \<longrightarrow>
        (\<exists>m\<in>set msg. \<exists>x. light_dist w d m = Some x \<and> x < det_radius d
           \<and> (\<forall>m'\<in>set msg. \<exists>x'. light_dist w d m' = Some x' \<and> x \<le> x')
           \<and> det_state (on_machine_info has_conn w msg d)
               = (\<lambda>l. case map_of (rev (lm_lights m)) l of None \<Rightarrow> OFF | Some s \<Rightarrow> s)))
    \<and> (\<not> det_visible (on_machine_info has_conn w msg d) \<and> has_conn \<longrightarrow>
        rep_visible (last (det_trace (on_machine_info has_conn w msg d))) = False
        \<and> rep_history (last (det_trace (on_machine_info has_conn w msg d))) = -1)"
proof -
  obtain n r where nr: "nearest_light w d msg (None, 1000000) = Some (n, r)"
    using nearest_light_total [OF assms(1)] by (metis surj_pair)
  note spec = nearest_light_spec [OF nr]
  show ?thesis
  proof (cases "r < det_radius d")
    case True
    with spec assms(2) obtain m where m: "m \<in> set msg" "n = Some m" "light_dist w d m = Some r"
      by fastforce
    have vis: "det_visible (on_machine_info has_conn w msg d)"
      and st: "det_state (on_machine_info has_conn w msg d) = save_lights (lm_lights m) (\<lambda>l. OFF)"
      using True m nr by (simp_all add: on_machine_info_def save_light_signal_def Let_def)
    show ?thesis unfolding st using vis spec m True by (auto simp: last_lamp fun_eq_iff)
  next
    case False
    then have "on_machine_info has_conn w msg d
        = send_light_detection has_conn (d\<lparr>det_visible := False, visibility_history := -1\<rparr>)"
      using nr by (simp add: on_machine_info_def split: option.splits)
    moreover have "\<not> (\<exists>m\<in>set msg. \<exists>x. light_dist w d m = Some x \<and> x < det_radius d)"
      using spec False by fastforce
    ultimately show ?thesis by (auto simp: send_light_detection_def)
  qed
qed

definition cfg_detection :: "string \<Rightarrow> real" where
  "cfg_detection k =
     (if k = ''plugins/light-signal-detection/radius-detection-area'' then 0.4
      else if k = ''plugins/light-signal-detection/search-area-rel-x'' then 0.6
      else if k = ''plugins/light-signal-detection/search-area-rel-y'' then 0.4
      else if k = ''plugins/light-signal-detection/send-interval'' then 0.5
      else 30)"

definition light_world :: gz where
  "light_world = \<lparr>gz_dist = euclid, gz_models = [], gz_has_base = (\<lambda>n. True),
     gz_pose = (\<lambda>n. Pose3d 0 0 0 0 0 0), gz_links = (\<lambda>n. []),
     gz_link_pose = (\<lambda>n. Pose3d 0.6 0.4 1 0 0 0), gz_time = 100\<rparr>"

definition demo_detection :: light_detection where
  "demo_detection = Detection_Load cfg_detection light_world ''robotino''"

definition demo_light_machine :: light_machine where
  "demo_light_machine = \<lparr>lm_name = ''C-BS'', lm_lights = [(Lamp_RED, ON), (Lamp_GREEN, BLINK)]\<rparr>"

lemma demo_light_dist: "light_dist light_world demo_detection demo_light_machine = Some 0"
  by (simp add: light_dist_def look_pos_def demo_detection_def Detection_Load_def light_world_def
        cfg_detection_def Pose3d_def euclid_def)

theorem on_machine_info_nearest_witness:
  "det_visible (on_machine_info True light_world [demo_light_machine] demo_detection)
   \<and> det_state (on_machine_info True light_world [demo_light_machine] demo_detection) Lamp_RED = ON"
proof -
  have r: "det_radius demo_detection = 0.4"
    by (simp add: demo_detection_def Detection_Load_def cfg_detection_def)
  show ?thesis
    using on_machine_info_nearest [of "[demo_light_machine]" light_world demo_detection True]
      demo_light_dist
    by (auto simp: r demo_light_machine_def)
qed

text \<open>
  One machine without a light in the world blinds the robot: a message that mentions it is
  dropped as a whole, wherever in the list it stands.
\<close>

theorem missing_light_drops_message:
  assumes "\<exists>m\<in>set msg. \<not> gz_has_base w (lm_name m @ ''::light_signals::link'')"
  shows "on_machine_info has_conn w msg d = d"
proof -
  from assms have "\<exists>m\<in>set msg. light_dist w d m = None" by (auto simp: light_dist_def Let_def)
  from nearest_light_missing [OF this] show ?thesis by (simp add: on_machine_info_def)
qed

theorem missing_light_drops_message_witness:
  "on_machine_info True (light_world\<lparr>gz_has_base := (\<lambda>n. n = ''C-BS::light_signals::link'')\<rparr>)
     [demo_light_machine, demo_light_machine\<lparr>lm_name := ''M-BS''\<rparr>] demo_detection = demo_detection"
  by (rule missing_light_drops_message) (simp add: demo_light_machine_def)

section \<open>The history\<close>

datatype detection_event = Info bool gz "light_machine list" | Tick bool gz

definition detection_step :: "detection_event \<Rightarrow> light_detection \<Rightarrow> light_detection" where
  "detection_step ev d =
     (case ev of Info c w msg \<Rightarrow> on_machine_info c w msg d | Tick c w \<Rightarrow> Detection_OnUpdate c w d)"

definition detection_ok :: "light_detection \<Rightarrow> bool" where
  "detection_ok d \<longleftrightarrow>
     (\<not> det_visible d \<longrightarrow> visibility_history d = -1)
     \<and> list_all (\<lambda>r. length (rep_lights r) = 3 \<and> (\<not> rep_visible r \<longrightarrow> rep_history r = -1)) (det_trace d)"

lemma detection_ok_send:
  "detection_ok d \<Longrightarrow> detection_ok (send_light_detection c d)"
  by (auto simp: detection_ok_def send_light_detection_def)

lemma detection_ok_step: "detection_ok d \<Longrightarrow> detection_ok (detection_step ev d)"
proof (cases ev)
  case (Tick c w)
  then show "detection_ok d \<Longrightarrow> ?thesis"
    by (auto simp: detection_step_def Detection_OnUpdate_def Let_def intro!: detection_ok_send)
       (auto simp: detection_ok_def)
next
  case (Info c w msg)
  assume ok: "detection_ok d"
  show ?thesis
  proof (cases "nearest_light w d msg (None, 1000000)")
    case None
    with ok Info show ?thesis by (simp add: detection_step_def on_machine_info_def)
  next
    case (Some a)
    obtain n r where a: "a = (n, r)" by fastforce
    have hidden: "detection_ok (send_light_detection c (d\<lparr>det_visible := False, visibility_history := -1\<rparr>))"
      using ok by (intro detection_ok_send) (simp add: detection_ok_def)
    show ?thesis
      using ok Info Some hidden unfolding a
      by (auto simp: detection_step_def on_machine_info_def save_light_signal_def Let_def
            split: option.splits bool.splits) (auto simp: detection_ok_def)
  qed
qed

text \<open>
  In every history of messages and updates, a report that says that no light is visible has
  the history -1, and every report, visible or not, carries all three lamps.
\<close>

theorem reports_well_formed:
  "list_all (\<lambda>r. length (rep_lights r) = 3 \<and> (rep_visible r \<or> rep_history r = -1))
     (det_trace (fold detection_step evs (Detection_Load cfg w n)))"
proof -
  have run: "detection_ok d \<Longrightarrow> detection_ok (fold detection_step evs d)" for d
    by (induction evs arbitrary: d) (simp_all add: detection_ok_step)
  have "detection_ok (Detection_Load cfg w n)"
    by (simp add: detection_ok_def Detection_Load_def)
  from run [OF this] show ?thesis
    by (simp add: detection_ok_def list_all_iff) blast
qed

end
