(* ===== verification/KeyMap.thy ===== *)
theory KeyMap
  imports Prelude "HOL-Library.Char_ord" "HOL-Library.List_Lexorder"
begin

text \<open>
  \<open>std::map\<close> as the code uses it: a lookup, an insertion that replaces, an erasure, and an
  iteration in the order of the keys. The contents are the list of the pairs in that order.
\<close>

fun map_put :: "'k::linorder \<Rightarrow> 'v \<Rightarrow> ('k \<times> 'v) list \<Rightarrow> ('k \<times> 'v) list" where
  "map_put k v [] = [(k, v)]"
| "map_put k v (e # m) =
     (if fst e < k then e # map_put k v m
      else if fst e = k then (k, v) # m
      else (k, v) # e # m)"

definition map_del :: "'k \<Rightarrow> ('k \<times> 'v) list \<Rightarrow> ('k \<times> 'v) list" where
  "map_del k m = filter (\<lambda>e. fst e \<noteq> k) m"

definition map_ok :: "('k::linorder \<times> 'v) list \<Rightarrow> bool" where
  "map_ok m \<longleftrightarrow> sorted_wrt (<) (map fst m)"

section \<open>The interface\<close>

locale std_map =
  fixes get :: "'m \<Rightarrow> 'k \<Rightarrow> 'v option"
    and put :: "'k \<Rightarrow> 'v \<Rightarrow> 'm \<Rightarrow> 'm"
    and del :: "'k \<Rightarrow> 'm \<Rightarrow> 'm"
    and ok :: "'m \<Rightarrow> bool"
  assumes get_put: "ok m \<Longrightarrow> get (put k v m) = (get m)(k \<mapsto> v)"
    and get_del: "ok m \<Longrightarrow> get (del k m) = (get m)(k := None)"
    and ok_put: "ok m \<Longrightarrow> ok (put k v m)"
    and ok_del: "ok m \<Longrightarrow> ok (del k m)"
begin

definition put_all :: "('k \<times> 'v) list \<Rightarrow> 'm \<Rightarrow> 'm" where
  "put_all xs m = fold (\<lambda>(k, v). put k v) xs m"

lemma put_all_ok: "ok m \<Longrightarrow> ok (put_all xs m)"
  unfolding put_all_def by (induction xs arbitrary: m) (auto simp: ok_put)

lemma get_put_all: "ok m \<Longrightarrow> get (put_all xs m) = get m ++ map_of (rev xs)"
  unfolding put_all_def
proof (induction xs arbitrary: m)
  case Nil
  then show ?case by simp
next
  case (Cons e xs)
  then show ?case by (cases e) (simp add: ok_put get_put map_add_def fun_eq_iff split: option.splits)
qed

lemma put_other: "ok m \<Longrightarrow> k' \<noteq> k \<Longrightarrow> get (put k v m) k' = get m k'"
  by (simp add: get_put)

lemma del_put: "ok m \<Longrightarrow> get (del k (put k v m)) = get (del k m)"
  by (simp add: get_put get_del ok_put)

lemma put_twice: "ok m \<Longrightarrow> get (put k v (put k u m)) = get (put k v m)"
  by (simp add: get_put ok_put)

end

section \<open>The sorted list of pairs keeps it\<close>

lemma map_of_put: "map_of (map_put k v m) = (map_of m)(k \<mapsto> v)"
  by (induction m) (auto simp: fun_eq_iff)

lemma map_of_del: "map_of (map_del k m) = (map_of m)(k := None)"
  unfolding map_del_def by (induction m) (auto simp: fun_eq_iff)

lemma map_put_keys: "fst ` set (map_put k v m) = insert k (fst ` set m)"
  by (induction m) auto

lemma map_ok_simps [simp]:
  "map_ok []" "map_ok (e # m) \<longleftrightarrow> (\<forall>x\<in>set m. fst e < fst x) \<and> map_ok m"
  by (auto simp: map_ok_def)

lemma map_ok_put: "map_ok m \<Longrightarrow> map_ok (map_put k v m)"
proof (induction m)
  case Nil
  then show ?case by simp
next
  case (Cons e m)
  have keys: "fst e < fst x" if "x \<in> set (map_put k v m)" "fst e < k" for x
  proof -
    have "fst x \<in> insert k (fst ` set m)" using map_put_keys [of k v m] that(1) by blast
    with Cons.prems that(2) show ?thesis by auto
  qed
  consider "fst e < k" | "fst e = k" | "k < fst e" by (rule linorder_cases [of "fst e" k])
  then show ?case
  proof cases
    case 1
    with Cons keys show ?thesis by simp
  next
    case 2
    with Cons.prems show ?thesis by simp
  next
    case 3
    with Cons.prems have "\<forall>x\<in>set m. k < fst x" by (auto intro: less_trans)
    with 3 Cons show ?thesis by simp
  qed
qed

lemma map_ok_del: "map_ok m \<Longrightarrow> map_ok (map_del k m)"
  unfolding map_del_def by (induction m) auto

lemma map_ok_distinct: "map_ok m \<Longrightarrow> distinct (map fst m)"
  by (induction m) auto

lemma map_del_absent: "map_of m k = None \<Longrightarrow> map_del k m = m"
  unfolding map_del_def by (induction m) (auto split: if_splits)

lemma map_put_nonempty [simp]: "map_put k v m \<noteq> []"
  by (cases m) auto

text \<open>What is inserted is there, and everything else is what was there.\<close>

lemma set_map_put:
  "map_ok m \<Longrightarrow> set (map_put k v m) = insert (k, v) {e \<in> set m. fst e \<noteq> k}"
  by (induction m) auto

interpretation smap: std_map map_of map_put map_del map_ok
  by unfold_locales (simp_all add: map_of_put map_of_del map_ok_put map_ok_del)

end
