(* ===== verification/ConfigScalar.thy ===== *)
theory ConfigScalar
  imports Prelude
begin

text \<open>
  \<open>libs/config/yaml_node.h\<close> (namespace \<open>yaml_utils\<close>), \<open>libs/utils/misc/string_conversions.cpp\<close>
  and \<open>libs/utils/misc/string_split.h\<close>: what the configuration does with single strings. A
  \<open>char\<close> is compared by its code; the conversion of integers is the extraction of an
  \<open>std::stringstream\<close> whose base is detected from the prefix (\<open>unsetf(std::ios::dec)\<close>).
\<close>

section \<open>Characters and truth values\<close>

definition code_of :: "char \<Rightarrow> nat" where
  "code_of c = of_char c"

definition IsLower :: "char \<Rightarrow> bool" where
  "IsLower ch \<longleftrightarrow> 97 \<le> code_of ch \<and> code_of ch \<le> 122"

definition IsUpper :: "char \<Rightarrow> bool" where
  "IsUpper ch \<longleftrightarrow> 65 \<le> code_of ch \<and> code_of ch \<le> 90"

definition ToLower :: "char \<Rightarrow> char" where
  "ToLower ch = (if IsUpper ch then char_of (code_of ch + 97 - 65) else ch)"

definition str_tolower :: "string \<Rightarrow> string" where
  "str_tolower s = map ToLower s"

definition IsEntirely :: "string \<Rightarrow> (char \<Rightarrow> bool) \<Rightarrow> bool" where
  "IsEntirely s f = list_all f s"

definition IsFlexibleCase :: "string \<Rightarrow> bool" where
  "IsFlexibleCase s =
     (case s of [] \<Rightarrow> True
      | c # rest \<Rightarrow> if IsEntirely s IsLower then True
          else IsUpper c \<and> (IsEntirely rest IsLower \<or> IsEntirely rest IsUpper))"

definition bool_names :: "(string \<times> string) list" where
  "bool_names = [(''y'', ''n''), (''yes'', ''no''), (''true'', ''false''), (''on'', ''off'')]"

fun scan_bool_names :: "string \<Rightarrow> (string \<times> string) list \<Rightarrow> bool option" where
  "scan_bool_names input [] = None"
| "scan_bool_names input ((truename, falsename) # names) =
     (if truename = str_tolower input then Some True
      else if falsename = str_tolower input then Some False
      else scan_bool_names input names)"

definition convert_bool :: "string \<Rightarrow> bool option" where
  "convert_bool input =
     (if \<not> IsFlexibleCase input then None else scan_bool_names input bool_names)"

definition bool_str :: "bool \<Rightarrow> string" where
  "bool_str b = (if b then ''true'' else ''false'')"

definition convert_string :: "string \<Rightarrow> string option" where
  "convert_string input = Some input"

section \<open>Integers\<close>

definition is_space :: "char \<Rightarrow> bool" where
  "is_space c \<longleftrightarrow> code_of c = 32 \<or> (9 \<le> code_of c \<and> code_of c \<le> 13)"

definition digit_val :: "char \<Rightarrow> nat option" where
  "digit_val c =
     (let k = code_of c
      in if 48 \<le> k \<and> k \<le> 57 then Some (k - 48)
         else if 97 \<le> k \<and> k \<le> 102 then Some (k - 87)
         else if 65 \<le> k \<and> k \<le> 70 then Some (k - 55)
         else None)"

definition is_digit :: "nat \<Rightarrow> char \<Rightarrow> bool" where
  "is_digit b c = (case digit_val c of None \<Rightarrow> False | Some d \<Rightarrow> d < b)"

definition digits_val :: "nat \<Rightarrow> string \<Rightarrow> int" where
  "digits_val b ds = foldl (\<lambda>v c. v * int b + int (the (digit_val c))) 0 ds"

text \<open>White space, a sign, a prefix that gives the base, digits; the rest stays in the stream.\<close>

definition skip_sign :: "string \<Rightarrow> bool \<times> string" where
  "skip_sign s = (case s of [] \<Rightarrow> (False, s)
     | c # t \<Rightarrow> if c = CHR ''-'' then (True, t) else if c = CHR ''+'' then (False, t) else (False, s))"

definition detect_base :: "string \<Rightarrow> nat \<times> string" where
  "detect_base s = (case s of [] \<Rightarrow> (10, s)
     | c # t \<Rightarrow> if c \<noteq> CHR ''0'' then (10, s)
         else case t of [] \<Rightarrow> (8, s)
           | x # u \<Rightarrow> if x = CHR ''x'' \<or> x = CHR ''X'' then (16, u) else (8, s))"

definition read_integer :: "string \<Rightarrow> (bool \<times> int \<times> string) option" where
  "read_integer input =
     (let (neg, s) = skip_sign (dropWhile is_space input);
          (b, s) = detect_base s;
          ds = takeWhile (is_digit b) s
      in if ds = [] then None else Some (neg, digits_val b ds, dropWhile (is_digit b) s))"

text \<open>
  An unsigned target takes a minus sign and wraps around; a value out of range, or anything but
  white space behind the number, is a failure.
\<close>

definition convert_uint :: "string \<Rightarrow> u32 option" where
  "convert_uint input =
     (case read_integer input of
        None \<Rightarrow> None
      | Some (neg, v, rest) \<Rightarrow>
          if v < 2 ^ 32 \<and> list_all is_space rest
          then Some (word_of_int (if neg then - v else v)) else None)"

definition convert_int :: "string \<Rightarrow> int option" where
  "convert_int input =
     (case read_integer input of
        None \<Rightarrow> None
      | Some (neg, v, rest) \<Rightarrow>
          if (if neg then v \<le> 2 ^ 31 else v < 2 ^ 31) \<and> list_all is_space rest
          then Some (if neg then - v else v) else None)"

section \<open>Splitting and joining\<close>

text \<open>\<open>std::getline\<close> until the stream is empty; empty items are left out.\<close>

function str_split :: "char \<Rightarrow> string \<Rightarrow> string list" where
  "str_split d s =
     (if s = [] then []
      else let item = takeWhile (\<lambda>c. c \<noteq> d) s; rest = dropWhile (\<lambda>c. c \<noteq> d) s
           in (if item \<noteq> [] then [item] else [])
              @ (case rest of [] \<Rightarrow> [] | c # r \<Rightarrow> str_split d r))"
  by pat_completeness auto
termination
proof (relation "measure (\<lambda>(d, s). length s)", goal_cases)
  case 1
  show ?case by simp
next
  case (2 d s x xa x21 x22)
  then have "Suc (length x22) \<le> length s"
    using length_dropWhile_le [of "\<lambda>c. c \<noteq> d" s] by (metis length_Cons)
  then show ?case by simp
qed

declare str_split.simps [simp del]

fun str_join_from :: "bool \<Rightarrow> string \<Rightarrow> string list \<Rightarrow> string" where
  "str_join_from first delim [] = []"
| "str_join_from first delim (x # xs) =
     (if first then [] else delim) @ x @ str_join_from False delim xs"

definition str_join :: "string \<Rightarrow> string list \<Rightarrow> string" where
  "str_join delim l = str_join_from True delim l"

section \<open>Case and trimming\<close>

definition find_first_not_of :: "char \<Rightarrow> string \<Rightarrow> nat option" where
  "find_first_not_of c s = find (\<lambda>i. s ! i \<noteq> c) [0..<length s]"

definition find_last_not_of :: "char \<Rightarrow> string \<Rightarrow> nat option" where
  "find_last_not_of c s = find (\<lambda>i. s ! i \<noteq> c) (rev [0..<length s])"

text \<open>\<open>s.length() - 1\<close> of an empty string is the greatest \<open>size_type\<close>: all of the string.\<close>

definition trim :: "string \<Rightarrow> string" where
  "trim s =
     (let p1 = find_first_not_of (CHR '' '') s; p2 = find_last_not_of (CHR '' '') s;
          pos = (case p1 of None \<Rightarrow> 0 | Some i \<Rightarrow> i);
          len = (case p2 of None \<Rightarrow> (if s = [] then 0 else length s - 1)
                 | Some j \<Rightarrow> j - pos + 1)
      in take len (drop pos s))"

definition str_to_bool :: "string \<Rightarrow> bool" where
  "str_to_bool s \<longleftrightarrow> s = ''true'' \<or> s = ''yes'' \<or> s = ''1''"

section \<open>Numbers and their decimal representation\<close>

definition digit_char :: "nat \<Rightarrow> char" where
  "digit_char d = char_of (48 + d)"

lemma dec_str_digit_chars:
  "dec_str n = (if n < 10 then [digit_char n] else dec_str (n div 10) @ [digit_char (n mod 10)])"
  by (subst dec_str.simps) (simp add: digit_char_def)

lemma dec_str_nonempty [simp]: "dec_str n \<noteq> []"
  by (subst dec_str_digit_chars) simp

lemma code_digit [simp]: "n < 10 \<Longrightarrow> code_of (digit_char n) = 48 + n"
  by (simp add: code_of_def digit_char_def)

lemma digit_val_dec [simp]: "n < 10 \<Longrightarrow> digit_val (digit_char n) = Some n"
  by (simp add: digit_val_def Let_def)

lemma is_digit_dec [simp]: "n < 10 \<Longrightarrow> is_digit b (digit_char n) = (n < b)"
  by (simp add: is_digit_def)

lemma dec_str_digits: "list_all (is_digit 10) (dec_str n)"
  by (induction n rule: dec_str.induct) (subst dec_str_digit_chars, auto)

lemma digits_val_snoc [simp]:
  "digits_val b (xs @ [c]) = digits_val b xs * int b + int (the (digit_val c))"
  by (simp add: digits_val_def)

lemma digits_val_dec: "digits_val 10 (dec_str n) = int n"
proof (induction n rule: dec_str.induct)
  case (1 n)
  show ?case
  proof (cases "n < 10")
    case True
    then show ?thesis by (subst dec_str_digit_chars) (simp add: digits_val_def)
  next
    case False
    then have "digits_val 10 (dec_str n) = int (n div 10) * 10 + int (n mod 10)"
      using "1.IH" [OF False] by (subst dec_str_digit_chars) simp
    also have "\<dots> = int (n div 10 * 10 + n mod 10)"
      by (simp only: of_nat_add of_nat_mult of_nat_numeral)
    finally show ?thesis by (simp only: div_mult_mod_eq)
  qed
qed

text \<open>The first digit is not zero unless the number is.\<close>

lemma dec_str_head: "\<exists>d ds. dec_str n = digit_char d # ds \<and> d < 10 \<and> (0 < n \<longrightarrow> 0 < d)"
proof (induction n rule: dec_str.induct)
  case (1 n)
  show ?case
  proof (cases "n < 10")
    case True
    then show ?thesis by (subst dec_str_digit_chars) auto
  next
    case False
    then have "dec_str n = dec_str (n div 10) @ [digit_char (n mod 10)]"
      by (subst dec_str_digit_chars) simp
    moreover have "0 < n div 10" using False by simp
    ultimately show ?thesis using "1.IH" [OF False] by auto
  qed
qed

lemma code_of_simps: "code_of (CHR ''0'') = 48" "code_of (CHR ''-'') = 45" "code_of (CHR ''+'') = 43"
  by (simp_all add: code_of_def)

lemma digit_char_neq: "d < 10 \<Longrightarrow> code_of c \<noteq> 48 + d \<Longrightarrow> digit_char d \<noteq> c"
  using code_digit by blast

lemma digit_char_0: "digit_char 0 = CHR ''0''"
proof -
  have "char_of (of_char (CHR ''0'') :: nat) = CHR ''0''" by (rule char_of_char)
  then show ?thesis by (simp add: digit_char_def)
qed

lemma dec_str_0: "dec_str 0 = ''0''"
  by (subst dec_str_digit_chars) (simp add: digit_char_0)

lemma detect_base_dec: "detect_base (dec_str n) = (if n = 0 then 8 else 10, dec_str n)"
proof (cases "n = 0")
  case True
  with dec_str_0 show ?thesis by (simp add: detect_base_def)
next
  case False
  then obtain d ds where d: "dec_str n = digit_char d # ds" "d < 10" "0 < d"
    using dec_str_head by blast
  have "digit_char d \<noteq> CHR ''0''"
    by (rule digit_char_neq) (simp_all add: code_of_simps d(2,3))
  with d(1) False show ?thesis by (simp add: detect_base_def)
qed

lemma takeWhile_all: "list_all P xs \<Longrightarrow> takeWhile P xs = xs \<and> dropWhile P xs = []"
  by (simp add: list_all_iff)

lemma scan_dec:
  assumes "detect_base (dec_str n) = (b, s)"
  shows "takeWhile (is_digit b) s = dec_str n" and "dropWhile (is_digit b) s = []"
    and "digits_val b (dec_str n) = int n"
proof -
  have b: "b = (if n = 0 then 8 else 10)" and s: "s = dec_str n"
    using assms by (simp_all add: detect_base_dec)
  note zero = dec_str_0
  have val: "digit_val (CHR ''0'') = Some 0" by (simp add: digit_val_def code_of_def)
  then have "is_digit 8 (CHR ''0'')" by (simp add: is_digit_def)
  then have all: "list_all (is_digit b) (dec_str n)" using b dec_str_digits by (simp add: zero)
  then show "takeWhile (is_digit b) s = dec_str n" "dropWhile (is_digit b) s = []"
    using takeWhile_all s by blast+
  show "digits_val b (dec_str n) = int n"
    using b digits_val_dec val by (simp add: zero digits_val_def)
qed

lemma read_integer_after_sign:
  assumes "skip_sign (dropWhile is_space s) = (neg, dec_str n)"
  shows "read_integer s = Some (neg, int n, [])"
proof -
  obtain b t where bt: "detect_base (dec_str n) = (b, t)" by (cases "detect_base (dec_str n)")
  show ?thesis
    by (simp only: read_integer_def assms bt scan_dec [OF bt] Let_def prod.case dec_str_nonempty if_False)
qed

lemma read_integer_dec: "read_integer (dec_str n) = Some (False, int n, [])"
proof -
  obtain d ds where d: "dec_str n = digit_char d # ds" "d < 10"
    using dec_str_head by blast
  have "\<not> is_space (digit_char d)"
    using d(2) by (simp add: is_space_def)
  moreover have "digit_char d \<noteq> CHR ''-''" "digit_char d \<noteq> CHR ''+''"
    by (rule digit_char_neq; simp add: code_of_simps d(2))+
  ultimately have "skip_sign (dropWhile is_space (dec_str n)) = (False, dec_str n)"
    by (simp only: d(1) skip_sign_def dropWhile.simps list.case if_False)
  then show ?thesis by (rule read_integer_after_sign)
qed

lemma read_integer_neg: "read_integer (CHR ''-'' # dec_str n) = Some (True, int n, [])"
proof -
  have "\<not> is_space (CHR ''-'')" by (simp add: is_space_def code_of_def)
  then have "skip_sign (dropWhile is_space (CHR ''-'' # dec_str n)) = (True, dec_str n)"
    by (simp add: skip_sign_def)
  then show ?thesis by (rule read_integer_after_sign)
qed

lemma integer_text_spec:
  fixes w :: u32 and i :: int
  shows "convert_uint (dec_str (unat w)) = Some w"
    and "convert_int (dec_str (unat w)) = (if uint w < 2 ^ 31 then Some (uint w) else None)"
    and "- (2 ^ 31) \<le> i \<Longrightarrow> i < 2 ^ 31 \<Longrightarrow> convert_int (int_str i) = Some i"
    and "- (2 ^ 31) \<le> i \<Longrightarrow> i < 2 ^ 31 \<Longrightarrow> convert_uint (int_str i) = Some (word_of_int i)"
proof -
  have "uint w < 2 ^ 32" using uint_lt2p [of w] by simp
  then show "convert_uint (dec_str (unat w)) = Some w"
    by (simp add: convert_uint_def read_integer_dec)
  show "convert_int (dec_str (unat w)) = (if uint w < 2 ^ 31 then Some (uint w) else None)"
    by (simp add: convert_int_def read_integer_dec)
next
  assume i: "- (2 ^ 31) \<le> i" "i < 2 ^ 31"
  show "convert_int (int_str i) = Some i"
    using i by (simp add: convert_int_def int_str_def read_integer_dec read_integer_neg)
  show "convert_uint (int_str i) = Some (word_of_int i)"
    using i by (simp add: convert_uint_def int_str_def read_integer_dec read_integer_neg)
qed

text \<open>
  What is written is read back: the decimal text of an unsigned number converts to that
  number, the text of a signed number to that number, and the text of a signed number also to
  an unsigned one, modulo the word size, so a minus sign does not make that conversion fail. The
  text of an unsigned number with its top bit set is no signed number.
\<close>

theorem integer_text_roundtrip:
  fixes w :: u32 and i :: int
  shows "convert_uint (dec_str (unat w)) = Some w
    \<and> convert_int (dec_str (unat w)) = (if uint w < 2 ^ 31 then Some (uint w) else None)
    \<and> (- (2 ^ 31) \<le> i \<and> i < 2 ^ 31 \<longrightarrow>
         convert_int (int_str i) = Some i \<and> convert_uint (int_str i) = Some (word_of_int i))"
  using integer_text_spec by blast

theorem integer_text_roundtrip_witness: "convert_int (int_str (- 42)) = Some (- 42)"
  using integer_text_roundtrip [of 0 "- 42"] by simp

section \<open>Truth values\<close>

lemma code_ToLower: "code_of (ToLower c) = (if IsUpper c then code_of c + 32 else code_of c)"
  by (simp add: ToLower_def code_of_def IsUpper_def)

lemma ToLower_lower: "IsLower c \<Longrightarrow> ToLower c = c"
  by (simp add: ToLower_def IsLower_def IsUpper_def)

lemma upper_again: "IsUpper c \<Longrightarrow> char_of (code_of (ToLower c) - 32) = c"
  by (simp add: code_ToLower) (simp add: code_of_def)

text \<open>A word in lower case, with a capital, and in upper case.\<close>

definition spellings :: "string \<Rightarrow> string list" where
  "spellings w = (let up = map (\<lambda>c. char_of (code_of c - 32)) w
     in [w, take 1 up @ drop 1 w, up])"

definition truth_words :: "bool \<Rightarrow> string list" where
  "truth_words b = concat (map spellings
     (if b then [''y'', ''yes'', ''true'', ''on''] else [''n'', ''no'', ''false'', ''off'']))"

lemma truth_words_eq:
  "truth_words True = [''y'', ''Y'', ''Y'', ''yes'', ''Yes'', ''YES'', ''true'', ''True'', ''TRUE'',
     ''on'', ''On'', ''ON'']"
  "truth_words False = [''n'', ''N'', ''N'', ''no'', ''No'', ''NO'', ''false'', ''False'', ''FALSE'',
     ''off'', ''Off'', ''OFF'']"
  by code_simp+

text \<open>A word of flexible case is one of the spellings of its lower-case form.\<close>

lemma flexible_spelling:
  assumes "IsFlexibleCase s"
  shows "s \<in> set (spellings (str_tolower s))"
proof (cases s)
  case Nil
  then show ?thesis by (simp add: spellings_def str_tolower_def)
next
  case (Cons c r)
  have lower: "map ToLower t = t" if "list_all IsLower t" for t
    using that by (induction t) (simp_all add: ToLower_lower)
  have upper: "map ((\<lambda>c. char_of (code_of c - 32)) \<circ> ToLower) t = t" if "list_all IsUpper t" for t
    using that by (induction t) (simp_all add: upper_again)
  consider "list_all IsLower s" | "IsUpper c" "list_all IsLower r" | "IsUpper c" "list_all IsUpper r"
    using assms Cons by (auto simp: IsFlexibleCase_def IsEntirely_def split: if_splits)
  then show ?thesis
  proof cases
    case 1
    then show ?thesis by (simp add: spellings_def str_tolower_def lower Let_def)
  next
    case 2
    then show ?thesis by (simp add: Cons spellings_def str_tolower_def lower upper_again)
  next
    case 3
    then show ?thesis using upper by (simp add: Cons spellings_def str_tolower_def upper_again)
  qed
qed

lemma scan_bool_names_Some:
  "scan_bool_names s names = Some b \<Longrightarrow>
   \<exists>(t, f) \<in> set names. str_tolower s = (if b then t else f)"
  by (induction names) (auto split: if_splits)

lemma convert_bool_iff_words: "convert_bool s = Some b \<longleftrightarrow> s \<in> set (truth_words b)"
proof
  assume "convert_bool s = Some b"
  then have "IsFlexibleCase s" and "scan_bool_names s bool_names = Some b"
    by (simp_all add: convert_bool_def split: if_splits)
  then show "s \<in> set (truth_words b)"
    using flexible_spelling [of s] scan_bool_names_Some [of s bool_names b]
    by (auto simp: truth_words_def bool_names_def)
next
  have "list_all (\<lambda>s. convert_bool s = Some True) (truth_words True)"
    "list_all (\<lambda>s. convert_bool s = Some False) (truth_words False)"
    by (simp_all add: truth_words_eq convert_bool_def bool_names_def IsFlexibleCase_def IsEntirely_def
        str_tolower_def ToLower_def IsLower_def IsUpper_def code_of_def char_of_def bit_0)
  then have "list_all (\<lambda>s. convert_bool s = Some b) (truth_words b)" by (cases b) simp_all
  then show "s \<in> set (truth_words b) \<Longrightarrow> convert_bool s = Some b" by (simp add: list_all_iff)
qed

text \<open>
  Exactly the words of the YAML table are truth values, each in lower case, with a capital
  first letter or in upper case; a word in any other mixture of cases, and every other string,
  is none.
\<close>

theorem convert_bool_words:
  "convert_bool s = Some b \<longleftrightarrow> s \<in> set (truth_words b)"
  by (rule convert_bool_iff_words)

text \<open>The two texts that the configuration writes for a truth value are read as that value.\<close>

lemma convert_bool_str: "convert_bool (bool_str b) = Some b"
  by (simp add: convert_bool_iff_words bool_str_def truth_words_eq)

section \<open>Paths\<close>

lemma str_split_Nil [simp]: "str_split d [] = []"
  by (subst str_split.simps) simp

lemma str_split_delim [simp]: "str_split d (d # s) = str_split d s"
  by (subst str_split.simps) simp

lemma takeWhile_item:
  "d \<notin> set x \<Longrightarrow> takeWhile (\<lambda>c. c \<noteq> d) (x @ d # t) = x \<and> dropWhile (\<lambda>c. c \<noteq> d) (x @ d # t) = d # t"
  "d \<notin> set x \<Longrightarrow> takeWhile (\<lambda>c. c \<noteq> d) x = x \<and> dropWhile (\<lambda>c. c \<noteq> d) x = []"
  by (induction x) auto

lemma str_split_item:
  assumes "d \<notin> set x" and "x \<noteq> []"
  shows "str_split d (x @ d # t) = x # str_split d t" and "str_split d x = [x]"
proof -
  show "str_split d (x @ d # t) = x # str_split d t"
    using assms takeWhile_item(1) [OF assms(1), of t] by (subst str_split.simps) simp
  show "str_split d x = [x]"
    by (subst str_split.simps)
      (simp only: takeWhile_item(2) [OF assms(1)] assms(2) Let_def if_False list.case simp_thms
        if_True append.simps)
qed

text \<open>A path is what its parts are, and the delimiter between them.\<close>

lemma str_split_append: "str_split d (s @ d # t) = str_split d s @ str_split d t"
proof (induction d s rule: str_split.induct)
  case (1 d s)
  show ?case
  proof (cases "d \<in> set s")
    case False
    then show ?thesis
      using str_split_item [of d s] by (cases "s = []") auto
  next
    case True
    then obtain x r where s: "s = x @ d # r" and x: "d \<notin> set x"
      using split_list_first by metis
    then have "s \<noteq> []" "dropWhile (\<lambda>c. c \<noteq> d) s = d # r"
      using takeWhile_item(1) [OF x, of r] by auto
    then have IH: "str_split d (r @ d # t) = str_split d r @ str_split d t"
      using "1.IH" by blast
    show ?thesis
      using IH x str_split_item [of d x] by (cases "x = []") (simp_all add: s)
  qed
qed

lemma str_split_parts: "p \<in> set (str_split d s) \<Longrightarrow> p \<noteq> [] \<and> d \<notin> set p"
proof (induction d s rule: str_split.induct)
  case (1 d s)
  show ?case
  proof (cases "d \<in> set s")
    case False
    then show ?thesis using "1.prems" str_split_item(2) [of d s] by (cases "s = []") auto
  next
    case True
    then obtain x r where s: "s = x @ d # r" and x: "d \<notin> set x"
      using split_list_first by metis
    then have "s \<noteq> []" "dropWhile (\<lambda>c. c \<noteq> d) s = d # r"
      using takeWhile_item(1) [OF x, of r] by auto
    then have IH: "p \<in> set (str_split d r) \<Longrightarrow> p \<noteq> [] \<and> d \<notin> set p"
      using "1.IH" by blast
    show ?thesis
      using IH x "1.prems" str_split_item(1) [of d x r] by (cases "x = []") (auto simp: s)
  qed
qed

definition path_parts_ok :: "char \<Rightarrow> string list \<Rightarrow> bool" where
  "path_parts_ok d ps \<longleftrightarrow> (\<forall>p\<in>set ps. p \<noteq> [] \<and> d \<notin> set p)"

lemma str_split_join_from:
  "path_parts_ok d ps \<Longrightarrow> str_split d (str_join_from first [d] ps) = ps"
proof (induction ps arbitrary: first)
  case Nil
  then show ?case by simp
next
  case (Cons p ps)
  then have p: "d \<notin> set p" "p \<noteq> []" and IH: "str_split d (str_join_from False [d] ps) = ps"
    by (simp_all add: path_parts_ok_def)
  have "str_split d (p @ str_join_from False [d] ps) = p # ps"
  proof (cases ps)
    case Nil
    with p show ?thesis by (simp add: str_split_item)
  next
    case (Cons q qs)
    with p IH show ?thesis by (simp add: str_split_item)
  qed
  then show ?case by simp
qed

text \<open>
  Splitting and joining: every part of a split path is a nonempty string without the
  delimiter; such parts, joined by the delimiter, are split into themselves; and leading, trailing
  and doubled delimiters make no difference.
\<close>

theorem path_split_join:
  "path_parts_ok d (str_split d s)
   \<and> (path_parts_ok d ps \<longrightarrow> str_split d (str_join [d] ps) = ps)
   \<and> str_split d (str_join [d] (str_split d s)) = str_split d s
   \<and> str_split d (s @ d # t) = str_split d s @ str_split d t"
  using str_split_parts str_split_join_from str_split_append
  by (simp add: path_parts_ok_def str_join_def)

theorem path_split_join_witness:
  "str_split (CHR ''/'') (str_join ''/'' [''plugins'', ''mps'']) = [''plugins'', ''mps'']"
  using path_split_join [of "CHR ''/''" "[]" "[''plugins'', ''mps'']"]
  by (simp add: path_parts_ok_def)

section \<open>Trimming\<close>

lemma find_skip: "\<forall>x\<in>set xs. \<not> P x \<Longrightarrow> P y \<Longrightarrow> find P (xs @ y # ys) = Some y"
  by (induction xs) auto

lemma upt_around: "i < n \<Longrightarrow> [0..<n] = [0..<i] @ i # [Suc i..<n]"
  by (metis less_imp_add_positive upt_add_eq_append upt_conv_Cons zero_le)

lemma find_first_not_of_eq:
  "i < length s \<Longrightarrow> s ! i \<noteq> c \<Longrightarrow> (\<And>j. j < i \<Longrightarrow> s ! j = c) \<Longrightarrow> find_first_not_of c s = Some i"
  unfolding find_first_not_of_def by (subst upt_around [of i]) (auto intro!: find_skip)

lemma find_last_not_of_eq:
  "i < length s \<Longrightarrow> s ! i \<noteq> c \<Longrightarrow> (\<And>j. i < j \<Longrightarrow> j < length s \<Longrightarrow> s ! j = c) \<Longrightarrow>
   find_last_not_of c s = Some i"
  unfolding find_last_not_of_def by (subst upt_around [of i]) (auto intro!: find_skip)

text \<open>
  Trimming takes exactly the blanks off both ends of a text that has something else; of a
  text of blanks only it takes one and leaves the others.
\<close>

theorem trim_blanks:
  "(m \<noteq> [] \<and> hd m \<noteq> CHR '' '' \<and> last m \<noteq> CHR '' '' \<longrightarrow>
      trim (replicate a (CHR '' '') @ m @ replicate b (CHR '' '')) = m)
   \<and> trim (replicate n (CHR '' '')) = replicate (n - 1) (CHR '' '')"
proof (intro conjI impI)
  assume m: "m \<noteq> [] \<and> hd m \<noteq> CHR '' '' \<and> last m \<noteq> CHR '' ''"
  let ?s = "replicate a (CHR '' '') @ m @ replicate b (CHR '' '')"
  let ?l = "a + length m - 1"
  have len: "0 < length m" using m by simp
  have "?s ! a \<noteq> CHR '' ''" using m len by (simp add: nth_append flip: hd_conv_nth)
  moreover have "?s ! j = CHR '' ''" if "j < a" for j using that by (simp add: nth_append)
  ultimately have first: "find_first_not_of (CHR '' '') ?s = Some a"
    using len by (intro find_first_not_of_eq) simp_all
  have l: "\<not> ?l < a" "?l - a = length m - 1" using len by linarith+
  have in_s: "?l < length ?s" unfolding length_append length_replicate using len by linarith
  have "?s ! ?l = m ! (length m - 1)" using len by (simp only: nth_append length_replicate l if_False) simp
  then have "?s ! ?l \<noteq> CHR '' ''" using m last_conv_nth [of m] by simp
  moreover have "?s ! j = CHR '' ''" if "?l < j" "j < length ?s" for j
    using that by (auto simp: nth_append)
  ultimately have last: "find_last_not_of (CHR '' '') ?s = Some ?l"
    using in_s by (intro find_last_not_of_eq) simp_all
  show "trim ?s = m" using len by (simp add: trim_def first last)
next
  have "find_first_not_of (CHR '' '') (replicate n (CHR '' '')) = None"
    "find_last_not_of (CHR '' '') (replicate n (CHR '' '')) = None"
    by (auto simp: find_first_not_of_def find_last_not_of_def find_None_iff)
  then show "trim (replicate n (CHR '' '')) = replicate (n - 1) (CHR '' '')"
    by (simp add: trim_def)
qed

theorem trim_blanks_witness: "trim (replicate 2 (CHR '' '') @ ''x y'' @ replicate 1 (CHR '' '')) = ''x y''"
  using trim_blanks [of "''x y''" 2 1 0] by simp

end
