(* ===== verification/ConfigTree.thy ===== *)
theory ConfigTree
  imports KeyMap ConfigScalar
begin

text \<open>
  \<open>libs/config/yaml_node.h\<close>, class \<open>YamlConfigurationNode\<close>: the tree of configuration values. A
  node owns its children, so the tree is a value; an operation that changes a node behind a
  pointer rebuilds the path to it. An operation that may throw after it has changed something
  returns the changed tree and the exception. The conversion to \<open>float\<close> rounds and asks yaml-cpp
  for the names of infinities, so \<open>convert_float\<close> is a parameter.
\<close>

datatype node_type = Type_NONE | Type_UINT32 | Type_INT32 | Type_FLOAT | Type_BOOL | Type_STRING
  | Type_MAP | Type_SEQUENCE | Type_UNKNOWN

fun type_to_string :: "node_type \<Rightarrow> string" where
  "type_to_string Type_NONE = ''NONE''"
| "type_to_string Type_UINT32 = ''unsigned int''"
| "type_to_string Type_INT32 = ''int''"
| "type_to_string Type_FLOAT = ''float''"
| "type_to_string Type_BOOL = ''bool''"
| "type_to_string Type_STRING = ''string''"
| "type_to_string Type_SEQUENCE = ''SEQUENCE''"
| "type_to_string Type_MAP = ''MAP''"
| "type_to_string Type_UNKNOWN = ''UNKNOWN''"

datatype cnode = CNode
  (node_name: string) (node_type: node_type) (scalar_value: string)
  (children: "(string \<times> cnode) list") (list_values: "string list") (is_default: bool)

datatype cfg_error =
    Entry_not_found string
  | Erase_non_leaf
  | Set_non_leaf string
  | Scalar_with_non_scalar string
  | Value_is_list string
  | Value_error string
  | Not_a_list string

section \<open>Nodes\<close>

definition root_node :: cnode where
  "root_node = CNode ''root'' Type_UNKNOWN [] [] [] False"

definition new_node :: "string \<Rightarrow> cnode" where
  "new_node n = CNode n Type_NONE [] [] [] False"

text \<open>The copy constructors take everything but the children.\<close>

definition copy_node :: "cnode \<Rightarrow> cnode" where
  "copy_node n = CNode (node_name n) (node_type n) (scalar_value n) [] (list_values n) (is_default n)"

fun with_type :: "node_type \<Rightarrow> cnode \<Rightarrow> cnode" where
  "with_type t (CNode n _ s cs l d) = CNode n t s cs l d"

fun with_scalar :: "string \<Rightarrow> cnode \<Rightarrow> cnode" where
  "with_scalar s (CNode n t _ cs l d) = CNode n t s cs l d"

fun with_children :: "(string \<times> cnode) list \<Rightarrow> cnode \<Rightarrow> cnode" where
  "with_children cs (CNode n t s _ l d) = CNode n t s cs l d"

fun with_list :: "string list \<Rightarrow> cnode \<Rightarrow> cnode" where
  "with_list l (CNode n t s cs _ d) = CNode n t s cs l d"

definition add_child :: "string \<Rightarrow> cnode \<Rightarrow> cnode \<Rightarrow> cnode" where
  "add_child p c n = with_children (map_put p c (children n)) (with_type Type_MAP n)"

definition child :: "cnode \<Rightarrow> string \<Rightarrow> cnode option" where
  "child n p = map_of (children n) p"

definition has_children :: "cnode \<Rightarrow> bool" where
  "has_children n \<longleftrightarrow> children n \<noteq> []"

definition is_scalar :: "cnode \<Rightarrow> bool" where
  "is_scalar n \<longleftrightarrow> node_type n \<in> {Type_UINT32, Type_INT32, Type_FLOAT, Type_BOOL, Type_STRING}"

section \<open>Values\<close>

text \<open>The template parameter \<open>T\<close> is the conversion from the text.\<close>

definition get_value :: "(string \<Rightarrow> 'v option) \<Rightarrow> cnode \<Rightarrow> cfg_error + 'v" where
  "get_value conv n =
     (if node_type n = Type_SEQUENCE then Inl (Value_is_list (node_name n))
      else case conv (scalar_value n) of
             None \<Rightarrow> Inl (Value_error (node_name n)) | Some v \<Rightarrow> Inr v)"

fun convert_all :: "(string \<Rightarrow> 'v option) \<Rightarrow> string list \<Rightarrow> 'v list option" where
  "convert_all conv [] = Some []"
| "convert_all conv (x # xs) =
     (case conv x of None \<Rightarrow> None | Some v \<Rightarrow> map_option (\<lambda>vs. v # vs) (convert_all conv xs))"

definition get_list :: "(string \<Rightarrow> 'v option) \<Rightarrow> cnode \<Rightarrow> cfg_error + 'v list" where
  "get_list conv n =
     (if node_type n \<noteq> Type_SEQUENCE then Inl (Not_a_list (node_name n))
      else case convert_all conv (list_values n) of
             None \<Rightarrow> Inl (Value_error (node_name n)) | Some vs \<Rightarrow> Inr vs)"

definition get_list_size :: "cnode \<Rightarrow> cfg_error + nat" where
  "get_list_size n =
     (if node_type n \<noteq> Type_SEQUENCE then Inl (Not_a_list (node_name n))
      else Inr (length (list_values n)))"

definition is_type :: "(string \<Rightarrow> 'v option) \<Rightarrow> cnode \<Rightarrow> bool" where
  "is_type conv n =
     (if node_type n = Type_SEQUENCE
      then (case list_values n of [] \<Rightarrow> False | x # _ \<Rightarrow> conv x \<noteq> None)
      else conv (scalar_value n) \<noteq> None)"

definition get_float :: "(string \<Rightarrow> real option) \<Rightarrow> cnode \<Rightarrow> cfg_error + real" where
  "get_float convert_float n = get_value convert_float n"

definition get_uint :: "cnode \<Rightarrow> cfg_error + u32" where "get_uint n = get_value convert_uint n"
definition get_int :: "cnode \<Rightarrow> cfg_error + int" where "get_int n = get_value convert_int n"
definition get_bool :: "cnode \<Rightarrow> cfg_error + bool" where "get_bool n = get_value convert_bool n"
definition get_string :: "cnode \<Rightarrow> cfg_error + string" where "get_string n = get_value convert_string n"

definition determine_scalar_type :: "(string \<Rightarrow> real option) \<Rightarrow> cnode \<Rightarrow> cfg_error + node_type" where
  "determine_scalar_type convert_float n =
     (if is_type convert_uint n
      then and_then (get_int n) (\<lambda>v. Inr (if 0 \<le> v then Type_UINT32 else Type_INT32))
      else if is_type convert_int n then Inr Type_INT32
      else if is_type convert_float n then Inr Type_FLOAT
      else if is_type convert_bool n then Inr Type_BOOL
      else if is_type convert_string n then Inr Type_STRING
      else Inr Type_UNKNOWN)"

definition quoted :: "string \<Rightarrow> string" where
  "quoted s = '' '' @ [CHR 34] @ s @ [CHR 34]"

definition get_list_as_string :: "(string \<Rightarrow> real option) \<Rightarrow> cnode \<Rightarrow> cfg_error + string" where
  "get_list_as_string convert_float n =
     (if node_type n \<noteq> Type_SEQUENCE then Inl (Not_a_list (node_name n))
      else if list_values n = [] then Inr []
      else and_then (determine_scalar_type convert_float n) (\<lambda>t.
        Inr (if t = Type_STRING then concat (map quoted (list_values n))
             else str_join '' '' (list_values n))))"

text \<open>The scalar is stored before its type is determined, which may throw.\<close>

definition set_scalar ::
    "(string \<Rightarrow> real option) \<Rightarrow> string \<Rightarrow> cnode \<Rightarrow> cnode \<times> cfg_error option" where
  "set_scalar convert_float s n =
     (let n = with_scalar s n
      in case determine_scalar_type convert_float n of
           Inl e \<Rightarrow> (n, Some e) | Inr t \<Rightarrow> (with_type t n, None))"

definition set_scalar_list :: "string list \<Rightarrow> cnode \<Rightarrow> cnode" where
  "set_scalar_list l n = with_type Type_SEQUENCE (with_list l n)"

section \<open>Paths\<close>

definition path_step :: "string \<Rightarrow> string \<Rightarrow> string" where
  "path_step path pel = path @ ''/'' @ pel"

fun find_queue :: "string list \<Rightarrow> string \<Rightarrow> cnode \<Rightarrow> cfg_error + cnode" where
  "find_queue [] path n = Inr n"
| "find_queue (pel # q) path n =
     (let path = path_step path pel
      in case child n pel of None \<Rightarrow> Inl (Entry_not_found path) | Some c \<Rightarrow> find_queue q path c)"

definition find_path :: "string \<Rightarrow> cnode \<Rightarrow> cfg_error + cnode" where
  "find_path p n = find_queue (str_split (CHR ''/'') p) [] n"

text \<open>
  \<open>find_or_insert\<close> followed by what the caller does with the node: the change is written back
  along the path.
\<close>

fun find_or_insert ::
    "string list \<Rightarrow> (cnode \<Rightarrow> cnode \<times> 'e option) \<Rightarrow> cnode \<Rightarrow> cnode \<times> 'e option" where
  "find_or_insert [] f n = f n"
| "find_or_insert (pel # q) f n =
     (let n = (case child n pel of None \<Rightarrow> add_child pel (new_node pel) n | Some _ \<Rightarrow> n);
          c = the (child n pel);
          (c', e) = find_or_insert q f c
      in (with_children (map_put pel c' (children n)) n, e))"

definition set_value ::
    "(string \<Rightarrow> real option) \<Rightarrow> string \<Rightarrow> string \<Rightarrow> cnode \<Rightarrow> cnode \<times> cfg_error option" where
  "set_value convert_float path text n =
     find_or_insert (str_split (CHR ''/'') path)
       (\<lambda>n. if has_children n then (n, Some (Set_non_leaf path)) else set_scalar convert_float text n) n"

definition set_list :: "string \<Rightarrow> string list \<Rightarrow> cnode \<Rightarrow> cnode \<times> cfg_error option" where
  "set_list path texts n =
     find_or_insert (str_split (CHR ''/'') path)
       (\<lambda>n. if has_children n then (n, Some (Set_non_leaf path)) else (set_scalar_list texts n, None)) n"

text \<open>
  \<open>erase\<close>: the flag says whether the caller's stack goes on, that is, whether the node is to be
  erased from its parent. The children are erased by the name of the node.
\<close>

fun erase_queue :: "string list \<Rightarrow> string \<Rightarrow> cnode \<Rightarrow> cfg_error + cnode \<times> bool" where
  "erase_queue [] path n = (if has_children n then Inl Erase_non_leaf else Inr (n, True))"
| "erase_queue (pel # q) path n =
     (let path = path_step path pel
      in case child n pel of
           None \<Rightarrow> Inl (Entry_not_found path)
         | Some c \<Rightarrow> and_then (erase_queue q path c) (\<lambda>(c', gone).
             if gone
             then let n = with_children (map_del (node_name c') (children n)) n
                  in Inr (n, \<not> has_children n)
             else Inr (with_children (map_put pel c' (children n)) n, False)))"

definition erase_path :: "string \<Rightarrow> cnode \<Rightarrow> cfg_error + cnode" where
  "erase_path p n = and_then (erase_queue (str_split (CHR ''/'') p) [] n) (\<lambda>(n, _). Inr n)"

text \<open>\<open>set_default\<close> finds the node; its assignment is \<open>is_default_ = is_default_\<close>.\<close>

definition set_default :: "string \<Rightarrow> bool \<Rightarrow> cnode \<Rightarrow> cfg_error + cnode" where
  "set_default p b n = and_then (find_path p n) (\<lambda>_. Inr n)"

section \<open>Whole trees\<close>

lemma children_size: "size_list (size_prod (\<lambda>_. 0) size) (children n) < size n"
  by (cases n) simp

lemma children_size_le: "size_list (size_prod (\<lambda>_. 0) size) (children n) \<le> Suc (size n + k)"
  using children_size [of n] by linarith

lemma children_size2: "Suc (2 * size_list (size_prod (\<lambda>_. 0) size) (children n)) < 2 * size n"
  using children_size [of n] by linarith

function (sequential) merge_node ::
    "(string \<Rightarrow> real option) \<Rightarrow> cnode \<Rightarrow> cnode \<Rightarrow> cnode \<times> cfg_error option"
  and merge_into :: "(string \<Rightarrow> real option) \<Rightarrow> cnode \<Rightarrow> cnode \<Rightarrow> cnode \<times> cfg_error option"
  and merge_children ::
    "(string \<Rightarrow> real option) \<Rightarrow> cnode \<Rightarrow> (string \<times> cnode) list \<Rightarrow> cnode \<times> cfg_error option" where
  "merge_node cf this n =
     (if node_name n = ''root'' then merge_into cf this n
      else let add_to = (case child this (node_name n) of None \<Rightarrow> copy_node n | Some c \<Rightarrow> c);
               (c', e) = merge_into cf add_to n
           in (with_children (map_put (node_name n) c' (children this)) this, e))"
| "merge_into cf add_to n =
     (if is_scalar add_to
      then if \<not> is_scalar n then (add_to, Some (Scalar_with_non_scalar (node_name add_to)))
           else set_scalar cf (scalar_value n) add_to
      else merge_children cf add_to (children n))"
| "merge_children cf add_to [] = (add_to, None)"
| "merge_children cf add_to ((k, c) # cs) =
     (case merge_node cf add_to c of
        (add_to, Some e) \<Rightarrow> (add_to, Some e)
      | (add_to, None) \<Rightarrow> merge_children cf add_to cs)"
  by pat_completeness auto
termination
  by (relation "measure (\<lambda>x. case x of
        Inl (_, _, n) \<Rightarrow> 2 * size n + 1
      | Inr (Inl (_, _, n)) \<Rightarrow> 2 * size n
      | Inr (Inr (_, _, cs)) \<Rightarrow> 2 * size_list (size_prod (\<lambda>_. 0) size) cs + 1)")
    (auto simp: children_size2)

text \<open>
  \<open>enum_leafs\<close> over the children that are left, with the map that the calls share.
\<close>

function (sequential) enum_children ::
    "string \<Rightarrow> (string \<times> cnode) list \<Rightarrow> (string \<times> cnode) list \<Rightarrow> (string \<times> cnode) list" where
  "enum_children pre [] nodes = nodes"
| "enum_children pre ((k, c) # cs) nodes =
     (let path = path_step pre k
      in enum_children pre cs
           (if has_children c then enum_children path (children c) nodes else map_put path c nodes))"
  by pat_completeness auto
termination
  by (relation "measure (\<lambda>(_, cs, _). size_list (size_prod (\<lambda>_. 0) size) cs)")
    (simp_all add: children_size_le less_Suc_eq_le)

definition enum_leafs :: "cnode \<Rightarrow> (string \<times> cnode) list" where
  "enum_leafs n = enum_children [] (children n) []"

text \<open>\<open>operator!=\<close> compares neither the children nor the lists.\<close>

definition node_differs :: "cnode \<Rightarrow> cnode \<Rightarrow> bool" where
  "node_differs a b \<longleftrightarrow> node_name a \<noteq> node_name b \<or> node_type a \<noteq> node_type b
     \<or> scalar_value a \<noteq> scalar_value b"

definition tree_diff :: "cnode \<Rightarrow> cnode \<Rightarrow> string list" where
  "tree_diff a b =
     (let na = enum_leafs a; nb = enum_leafs b
      in map fst (filter (\<lambda>(p, x). case map_of nb p of None \<Rightarrow> True | Some y \<Rightarrow> node_differs x y) na)
         @ map fst (filter (\<lambda>(p, y). map_of na p = None) nb))"

text \<open>\<open>emit\<close>: the calls to the emitter of yaml-cpp.\<close>

datatype emitted = BeginMap | EndMap | Key string | Value string

function (sequential) emit_node :: "cnode \<Rightarrow> emitted list"
  and emit_children :: "(string \<times> cnode) list \<Rightarrow> emitted list" where
  "emit_node n = (if has_children n then BeginMap # emit_children (children n) @ [EndMap] else [])"
| "emit_children [] = []"
| "emit_children ((k, c) # cs) =
     (if has_children c then Key k # emit_node c else [Key k, Value (scalar_value c)])
     @ emit_children cs"
  by pat_completeness auto
termination
  by (relation "measure (\<lambda>x. case x of Inl n \<Rightarrow> 2 * size n
        | Inr cs \<Rightarrow> 2 * size_list (size_prod (\<lambda>_. 0) size) cs + 1)")
    (auto simp: children_size2)

declare merge_node.simps [simp del] and merge_into.simps [simp del]

end
