(* ===== verification/ConfigTreeProps.thy ===== *)
theory ConfigTreeProps
  imports ConfigTree
begin

text \<open>
  Properties of the configuration tree of \<open>ConfigTree\<close>: what a well-formed tree is and that every
  operation keeps it, and what the operations do to the nodes at the paths of the tree.
\<close>

section \<open>Well-formed trees and lookup\<close>

definition part_ok :: "string \<Rightarrow> bool" where
  "part_ok p \<longleftrightarrow> p \<noteq> [] \<and> CHR ''/'' \<notin> set p"

text \<open>
  The children are sorted by key, a key is a part of a path and the name of its node, and a
  scalar has no children.
\<close>

fun tree_ok :: "cnode \<Rightarrow> bool" where
  "tree_ok (CNode n t s cs l d) \<longleftrightarrow> map_ok cs \<and> (is_scalar (CNode n t s cs l d) \<longrightarrow> cs = [])
     \<and> (\<forall>e\<in>set cs. part_ok (fst e) \<and> node_name (snd e) = fst e \<and> tree_ok (snd e))"

primrec lookup :: "cnode \<Rightarrow> string list \<Rightarrow> cnode option" where
  "lookup n [] = Some n"
| "lookup n (p # q) = (case child n p of None \<Rightarrow> None | Some c \<Rightarrow> lookup c q)"

text \<open>The fields after an update.\<close>

lemma with_simps [simp]:
  "node_name (with_type t n) = node_name n" "node_type (with_type t n) = t"
  "scalar_value (with_type t n) = scalar_value n" "children (with_type t n) = children n"
  "list_values (with_type t n) = list_values n"
  "node_name (with_scalar s n) = node_name n" "node_type (with_scalar s n) = node_type n"
  "scalar_value (with_scalar s n) = s" "children (with_scalar s n) = children n"
  "list_values (with_scalar s n) = list_values n"
  "node_name (with_children cs n) = node_name n" "node_type (with_children cs n) = node_type n"
  "scalar_value (with_children cs n) = scalar_value n" "children (with_children cs n) = cs"
  "list_values (with_children cs n) = list_values n"
  "node_name (with_list l n) = node_name n" "node_type (with_list l n) = node_type n"
  "scalar_value (with_list l n) = scalar_value n" "children (with_list l n) = children n"
  "list_values (with_list l n) = l"
  by (cases n; simp)+

lemma node_simps [simp]:
  "children (new_node p) = []" "node_name (new_node p) = p" "node_type (new_node p) = Type_NONE"
  "children (copy_node n) = []" "node_name (copy_node n) = node_name n"
  "node_type (copy_node n) = node_type n" "scalar_value (copy_node n) = scalar_value n"
  "list_values (copy_node n) = list_values n"
  "node_name (add_child p c n) = node_name n"
  "node_type (add_child p c n) = Type_MAP" "scalar_value (add_child p c n) = scalar_value n"
  "list_values (add_child p c n) = list_values n"
  by (simp_all add: new_node_def copy_node_def add_child_def)

lemma tree_ok_iff:
  "tree_ok n \<longleftrightarrow> map_ok (children n) \<and> (is_scalar n \<longrightarrow> children n = [])
     \<and> (\<forall>(k, c)\<in>set (children n). part_ok k \<and> node_name c = k \<and> tree_ok c)"
  by (cases n) (simp add: case_prod_beta)

lemma tree_ok_child:
  "tree_ok n \<Longrightarrow> child n p = Some c \<Longrightarrow> part_ok p \<and> node_name c = p \<and> tree_ok c"
  by (auto simp: child_def tree_ok_iff [of n] dest: map_of_SomeD)

lemma child_with [simp]:
  "child (with_children cs n) p = map_of cs p" "child (with_type t n) p = child n p"
  "child (with_scalar s n) p = child n p" "child (with_list l n) p = child n p"
  "child (new_node k) p = None" "child (copy_node n) p = None"
  "child (add_child k c n) p = (if p = k then Some c else child n p)"
  by (simp_all add: child_def add_child_def map_of_put)

lemma map_of_children: "map_of (children n) = child n"
  by (simp add: child_def fun_eq_iff)

lemma is_scalar_cong: "node_type a = node_type b \<Longrightarrow> is_scalar a = is_scalar b"
  by (simp add: is_scalar_def)

lemma tree_ok_same_shape:
  assumes "tree_ok n" and "children n' = children n" and "is_scalar n' \<Longrightarrow> children n = []"
  shows "tree_ok n'"
proof -
  have "map_ok (children n)" "\<forall>(k, c)\<in>set (children n). part_ok k \<and> node_name c = k \<and> tree_ok c"
    using assms(1) tree_ok_iff [of n] by blast+
  with assms(2,3) show ?thesis by (subst tree_ok_iff) auto
qed

lemma tree_ok_new: "tree_ok (new_node p)" and tree_ok_copy: "tree_ok (copy_node n)"
  by (subst tree_ok_iff, simp)+

text \<open>Putting a well-formed child under its name.\<close>

lemma is_scalar_with_children [simp]: "is_scalar (with_children cs n) = is_scalar n"
  by (rule is_scalar_cong) simp

lemma tree_ok_with_children:
  "tree_ok (with_children cs n) \<longleftrightarrow> map_ok cs \<and> (is_scalar n \<longrightarrow> cs = [])
     \<and> (\<forall>(k, c)\<in>set cs. part_ok k \<and> node_name c = k \<and> tree_ok c)"
  using tree_ok_iff [of "with_children cs n"] by simp

lemma tree_ok_put:
  assumes "tree_ok n" and "tree_ok c" and "node_name c = p" and "part_ok p"
    and "\<not> is_scalar n"
  shows "tree_ok (with_children (map_put p c (children n)) n)"
proof -
  have n: "map_ok (children n)"
    "\<forall>(k, c)\<in>set (children n). part_ok k \<and> node_name c = k \<and> tree_ok c"
    using assms(1) tree_ok_iff [of n] by blast+
  show ?thesis
    unfolding tree_ok_with_children set_map_put [OF n(1)]
    using n(2) assms(2-5) map_ok_put [OF n(1)] by auto
qed

lemma tree_ok_del:
  assumes "tree_ok n"
  shows "tree_ok (with_children (map_del p (children n)) n)"
proof -
  have n: "map_ok (children n)" "is_scalar n \<longrightarrow> children n = []"
    "\<forall>(k, c)\<in>set (children n). part_ok k \<and> node_name c = k \<and> tree_ok c"
    using assms tree_ok_iff [of n] by blast+
  have "set (map_del p (children n)) \<subseteq> set (children n)" by (auto simp: map_del_def)
  moreover have "children n = [] \<Longrightarrow> map_del p (children n) = []" by (simp add: map_del_def)
  ultimately show ?thesis
    unfolding tree_ok_with_children using n map_ok_del [OF n(1)] by blast
qed

lemma tree_ok_add_child:
  assumes "tree_ok n" and "tree_ok c" and "node_name c = p" and "part_ok p"
  shows "tree_ok (add_child p c n)"
proof -
  have "tree_ok (with_type Type_MAP n)"
    by (rule tree_ok_same_shape [OF assms(1)]) (simp_all add: is_scalar_def)
  then show ?thesis
    using tree_ok_put [of "with_type Type_MAP n" c p] assms
    by (simp add: add_child_def is_scalar_def)
qed

lemma set_scalar_simps:
  "children (fst (set_scalar cf s n)) = children n"
  "node_name (fst (set_scalar cf s n)) = node_name n"
  "scalar_value (fst (set_scalar cf s n)) = s"
  "list_values (fst (set_scalar cf s n)) = list_values n"
  by (simp_all add: set_scalar_def Let_def split: sum.split)

section \<open>Finding\<close>

lemma find_queue_eq: "find_queue q path n = Inr c \<longleftrightarrow> lookup n q = Some c"
  by (induction q arbitrary: n path) (auto simp: Let_def split: option.split)

lemma find_path_eq: "find_path p n = Inr c \<longleftrightarrow> lookup n (str_split (CHR ''/'') p) = Some c"
  by (simp add: find_path_def find_queue_eq)

lemma find_queue_error: "find_queue q path n = Inl e \<Longrightarrow> lookup n q = None"
  by (metis find_queue_eq not_None_eq sum.distinct(1))

lemma lookup_Cons_Some: "lookup n (p # q) = Some d \<longleftrightarrow> (\<exists>c. child n p = Some c \<and> lookup c q = Some d)"
  by (auto split: option.split)

lemma lookup_append: "lookup n (p @ q) = (case lookup n p of None \<Rightarrow> None | Some c \<Rightarrow> lookup c q)"
  by (induction p arbitrary: n) (auto split: option.split)

lemma lookup_ok: "tree_ok n \<Longrightarrow> lookup n q = Some c \<Longrightarrow> tree_ok c \<and> list_all part_ok q"
  by (induction q arbitrary: n) (auto split: option.splits dest: tree_ok_child)

lemma split_parts_ok: "list_all part_ok (str_split (CHR ''/'') p)"
  using str_split_parts by (auto simp: list_all_iff part_ok_def)

section \<open>Changing a node at a path\<close>

lemma lookup_leaf: "children n = [] \<Longrightarrow> q \<noteq> [] \<Longrightarrow> lookup n q = None"
  by (cases q) (simp_all add: child_def)

definition node_at :: "cnode \<Rightarrow> string list \<Rightarrow> cnode" where
  "node_at n ps = (case lookup n ps of None \<Rightarrow> new_node (last ps) | Some c \<Rightarrow> c)"

text \<open>The node with its child at \<open>pel\<close>, made if it is missing.\<close>

definition with_child :: "string \<Rightarrow> cnode \<Rightarrow> cnode" where
  "with_child pel n = (case child n pel of None \<Rightarrow> add_child pel (new_node pel) n | Some _ \<Rightarrow> n)"

lemma with_child_simps:
  "child (with_child pel n) p = (if p = pel then Some (case child n pel of None \<Rightarrow> new_node pel | Some c \<Rightarrow> c)
     else child n p)"
  "node_name (with_child pel n) = node_name n"
  by (auto simp: with_child_def split: option.split)

lemma find_or_insert_Cons:
  "find_or_insert (pel # q) f n =
     (let (c', e) = find_or_insert q f (case child n pel of None \<Rightarrow> new_node pel | Some c \<Rightarrow> c)
      in (with_children (map_put pel c' (children (with_child pel n))) (with_child pel n), e))"
  unfolding find_or_insert.simps with_child_def [symmetric] Let_def
  by (simp add: with_child_simps)

declare find_or_insert.simps(2) [simp del]

lemma lookup_new: "lookup (new_node p) q = (if q = [] then Some (new_node p) else None)"
  by (cases q) simp_all

lemma node_at_Cons:
  "q \<noteq> [] \<Longrightarrow> node_at n (p # q) = node_at (case child n p of None \<Rightarrow> new_node p | Some c \<Rightarrow> c) q"
  "node_at n [p] = (case child n p of None \<Rightarrow> new_node p | Some c \<Rightarrow> c)"
  by (auto simp: node_at_def lookup_new split: option.split)

lemma find_or_insert_lookup:
  assumes "ps \<noteq> []"
  shows "lookup (fst (find_or_insert ps f n)) (ps @ r) = lookup (fst (f (node_at n ps))) r
    \<and> snd (find_or_insert ps f n) = snd (f (node_at n ps))"
  using assms
proof (induction ps arbitrary: n)
  case Nil
  then show ?case by simp
next
  case (Cons p ps)
  let ?c = "case child n p of None \<Rightarrow> new_node p | Some c \<Rightarrow> c"
  show ?case
  proof (cases "ps = []")
    case True
    then show ?thesis by (simp add: find_or_insert_Cons node_at_Cons map_of_put case_prod_beta)
  next
    case False
    with Cons.IH [of ?c] show ?thesis
      by (simp add: find_or_insert_Cons node_at_Cons map_of_put case_prod_beta)
  qed
qed

text \<open>Everywhere off the path nothing changes.\<close>

lemma find_or_insert_frame:
  assumes "\<not> prefix q ps" and "\<not> prefix ps q"
  shows "lookup (fst (find_or_insert ps f n)) q = lookup n q"
  using assms
proof (induction ps arbitrary: n q)
  case Nil
  then show ?case by simp
next
  case (Cons p ps)
  then obtain p' q' where q: "q = p' # q'" by (cases q) auto
  show ?case
  proof (cases "p' = p")
    case False
    then show ?thesis
      by (simp add: q find_or_insert_Cons map_of_put map_of_children with_child_simps case_prod_beta)
  next
    case True
    with Cons.prems have n: "\<not> prefix q' ps" "\<not> prefix ps q'" by (simp_all add: q)
    then have "q' \<noteq> []" by auto
    with Cons.IH [OF n] True show ?thesis
      by (simp add: q find_or_insert_Cons map_of_put case_prod_beta lookup_new split: option.split)
  qed
qed

text \<open>A change that keeps the name and the shape of a node keeps the tree well formed.\<close>

lemma find_or_insert_ok:
  assumes "tree_ok n" and "list_all part_ok ps"
    and f: "\<And>c. tree_ok c \<Longrightarrow> tree_ok (fst (f c)) \<and> node_name (fst (f c)) = node_name c"
  shows "tree_ok (fst (find_or_insert ps f n)) \<and> node_name (fst (find_or_insert ps f n)) = node_name n"
  using assms(1,2)
proof (induction ps arbitrary: n)
  case Nil
  then show ?case using f by simp
next
  case (Cons p ps)
  let ?c = "case child n p of None \<Rightarrow> new_node p | Some c \<Rightarrow> c"
  have c: "tree_ok ?c" "node_name ?c = p"
    using tree_ok_child [OF Cons.prems(1)] by (auto simp: tree_ok_new split: option.split)
  have p: "part_ok p" "list_all part_ok ps" using Cons.prems(2) by simp_all
  have w: "tree_ok (with_child p n)"
    using Cons.prems(1) p tree_ok_add_child [OF Cons.prems(1) tree_ok_new _ p(1)]
    by (simp add: with_child_def split: option.split)
  have "children (with_child p n) \<noteq> []"
    using with_child_simps(1) [of p n p] by (auto simp: child_def)
  then have "\<not> is_scalar (with_child p n)" using w tree_ok_iff by blast
  moreover have "tree_ok (fst (find_or_insert ps f ?c))" "node_name (fst (find_or_insert ps f ?c)) = p"
    using Cons.IH [OF c(1) p(2)] c(2) by simp_all
  ultimately show ?case
    using tree_ok_put [OF w _ _ p(1)]
    by (simp add: find_or_insert_Cons case_prod_beta with_child_simps)
qed

lemma is_type_string: "node_type n \<noteq> Type_SEQUENCE \<Longrightarrow> is_type convert_string n"
  by (simp add: is_type_def convert_string_def)

text \<open>A scalar type is found whenever nothing is thrown, for an empty list the type unknown.\<close>

lemma determine_cases:
  "determine_scalar_type cf n = Inr t \<Longrightarrow>
   t \<in> {Type_UINT32, Type_INT32, Type_FLOAT, Type_BOOL, Type_STRING, Type_UNKNOWN}"
  by (auto simp: determine_scalar_type_def and_then_Inr_iff split: if_splits)

lemma set_scalar_type:
  "set_scalar cf v_str n = (n', None) \<Longrightarrow> node_type n' \<noteq> Type_SEQUENCE"
  using determine_cases [of cf "with_scalar v_str n"]
  by (auto simp: set_scalar_def Let_def split: sum.splits)

lemma tree_ok_set_scalar: "tree_ok n \<Longrightarrow> \<not> has_children n \<Longrightarrow> tree_ok (fst (set_scalar cf v_str n))"
  by (erule tree_ok_same_shape) (simp_all add: set_scalar_simps has_children_def)

text \<open>What \<open>set_value\<close> does to the node it reaches.\<close>

definition value_setter :: "(string \<Rightarrow> real option) \<Rightarrow> string \<Rightarrow> string \<Rightarrow> cnode \<Rightarrow> cnode \<times> cfg_error option" where
  "value_setter cf path v_str n =
     (if has_children n then (n, Some (Set_non_leaf path)) else set_scalar cf v_str n)"

lemma set_value_eq:
  "set_value cf path v_str n = find_or_insert (str_split (CHR ''/'') path) (value_setter cf path v_str) n"
  by (simp add: set_value_def value_setter_def [abs_def])

lemma value_setter_ok:
  "tree_ok c \<Longrightarrow> tree_ok (fst (value_setter cf path v_str c)) \<and> node_name (fst (value_setter cf path v_str c)) = node_name c"
  by (simp add: value_setter_def tree_ok_set_scalar set_scalar_simps)

lemma value_setter_below:
  assumes "r \<noteq> []"
  shows "lookup (fst (value_setter cf path v_str (node_at n ps))) r = lookup n (ps @ r)"
proof (cases "lookup n ps")
  case None
  then show ?thesis using assms
    by (simp add: lookup_append node_at_def value_setter_def has_children_def lookup_leaf set_scalar_simps)
next
  case (Some c)
  then show ?thesis using assms
    by (cases "has_children c") (simp_all add: lookup_append node_at_def value_setter_def
        has_children_def lookup_leaf set_scalar_simps)
qed

lemma set_value_at:
  assumes "str_split (CHR ''/'') path = ps" and "ps \<noteq> []"
  shows "find_path path (fst (set_value cf path v_str n)) = Inr (fst (value_setter cf path v_str (node_at n ps)))
    \<and> snd (set_value cf path v_str n) = snd (value_setter cf path v_str (node_at n ps))"
  using find_or_insert_lookup [OF assms(2), of "value_setter cf path v_str" n "[]"]
  by (simp add: find_path_eq assms(1) set_value_eq)

text \<open>
  C8 Writing a value: the tree stays well formed and nothing changes at any path that is not on
  the way. At a node with children the call throws and changes nothing there; otherwise the path
  then leads to a leaf with the written text, and unless the type could not be determined it is
  read back by every conversion as what that conversion makes of the text.
\<close>

theorem set_value_find:
  assumes "tree_ok n" and "str_split (CHR ''/'') path = ps" and "ps \<noteq> []"
    and "set_value cf path v_str n = (n', e)"
  shows "tree_ok n' \<and> (\<forall>q. \<not> prefix q ps \<longrightarrow> lookup n' q = lookup n q)
    \<and> (if \<exists>c. lookup n ps = Some c \<and> has_children c
        then e = Some (Set_non_leaf path) \<and> lookup n' ps = lookup n ps
        else \<exists>c. find_path path n' = Inr c \<and> scalar_value c = v_str \<and> \<not> has_children c
          \<and> (e = None \<longrightarrow> get_value conv c =
               (case conv v_str of None \<Rightarrow> Inl (Value_error (node_name c)) | Some v \<Rightarrow> Inr v)))"
proof -
  let ?f = "value_setter cf path v_str"
  have n': "n' = fst (find_or_insert ps ?f n)" and e: "e = snd (?f (node_at n ps))"
    using assms(2,4) find_or_insert_lookup [OF assms(3), of ?f n] by (simp_all add: set_value_eq)
  have parts: "list_all part_ok ps" using split_parts_ok assms(2) by blast
  have ok: "tree_ok n'"
    using find_or_insert_ok [OF assms(1) parts, of ?f] value_setter_ok by (simp add: n')
  have frame: "lookup n' q = lookup n q" if q: "\<not> prefix q ps" for q
  proof (cases "prefix ps q")
    case True
    then obtain r where "q = ps @ r" by (auto simp: prefix_def)
    with q show ?thesis
      using find_or_insert_lookup [OF assms(3), of ?f n r] value_setter_below [of r cf path v_str n ps]
      by (cases "r = []") (simp_all add: n')
  next
    case False
    with q show ?thesis by (simp add: n' find_or_insert_frame)
  qed
  have there: "lookup n' ps = Some (fst (?f (node_at n ps)))"
    using find_or_insert_lookup [OF assms(3), of ?f n "[]"] by (simp add: n')
  show ?thesis
  proof (cases "\<exists>c. lookup n ps = Some c \<and> has_children c")
    case True
    then have "?f (node_at n ps) = (node_at n ps, Some (Set_non_leaf path))"
      "lookup n ps = Some (node_at n ps)"
      by (auto simp: value_setter_def node_at_def)
    with True ok frame there e show ?thesis by simp
  next
    case False
    then have "\<not> has_children (node_at n ps)"
      by (auto simp: node_at_def has_children_def split: option.split)
    then have f: "?f (node_at n ps) = set_scalar cf v_str (node_at n ps)"
      and leaf: "\<not> has_children (fst (?f (node_at n ps)))"
      by (simp_all add: value_setter_def has_children_def set_scalar_simps)
    have "node_type (fst (?f (node_at n ps))) \<noteq> Type_SEQUENCE" if "e = None"
      using that e set_scalar_type [of cf v_str "node_at n ps" "fst (?f (node_at n ps))"]
      by (simp add: f prod_eq_iff)
    moreover have "find_path path n' = Inr (fst (?f (node_at n ps)))"
      using there assms(2) by (simp add: find_path_eq)
    ultimately show ?thesis
      using ok frame False leaf by (auto simp: f get_value_def set_scalar_simps)
  qed
qed

text \<open>A small configuration.\<close>

definition no_float :: "string \<Rightarrow> real option" where
  "no_float s = None"

definition demo_tree :: cnode where
  "demo_tree = CNode ''root'' Type_UNKNOWN []
     [(''mps'', CNode ''mps'' Type_MAP []
        [(''name'', CNode ''name'' Type_STRING ''C-BS'' [] [] False),
         (''tags'', CNode ''tags'' Type_SEQUENCE [] [] [''1'', ''2''] False)] [] False)] [] False"

lemma demo_tree_ok: "tree_ok demo_tree"
  by (simp add: demo_tree_def part_ok_def is_scalar_def)

lemma demo_path: "str_split (CHR ''/'') ''mps/name'' = [''mps'', ''name'']"
  by code_simp

lemma demo_lookup: "lookup demo_tree [''mps'', ''name''] = Some (CNode ''name'' Type_STRING ''C-BS'' [] [] False)"
  by (simp add: demo_tree_def child_def)

theorem set_value_find_witness:
  "\<exists>n' e c. set_value no_float ''mps/name'' ''42'' demo_tree = (n', e) \<and> tree_ok n'
     \<and> find_path ''mps/name'' n' = Inr c \<and> scalar_value c = ''42''"
proof -
  obtain n' e where r: "set_value no_float ''mps/name'' ''42'' demo_tree = (n', e)" by fastforce
  show ?thesis
    using set_value_find [OF demo_tree_ok demo_path _ r, where conv = convert_int] demo_lookup r
    by (auto simp: has_children_def)
qed

section \<open>Erasing\<close>

definition leaf_at :: "cnode \<Rightarrow> string list \<Rightarrow> cnode \<Rightarrow> bool" where
  "leaf_at n q c \<longleftrightarrow> q \<noteq> [] \<and> lookup n q = Some c \<and> \<not> has_children c"

lemma leaf_at_Cons:
  "leaf_at n (p # q) c \<longleftrightarrow> (\<exists>d. child n p = Some d \<and> (if q = [] then d = c \<and> \<not> has_children c else leaf_at d q c))"
  by (auto simp: leaf_at_def split: option.split)

lemma has_children_iff: "has_children n \<longleftrightarrow> (\<exists>p c. child n p = Some c)"
proof (cases "children n")
  case Nil
  then show ?thesis by (simp add: has_children_def child_def)
next
  case (Cons e cs)
  then have "child n (fst e) = Some (snd e)" by (cases e) (simp add: child_def)
  then show ?thesis using Cons by (auto simp: has_children_def)
qed

lemma leaf_below: "has_children n \<Longrightarrow> tree_ok n \<Longrightarrow> \<exists>q c. leaf_at n q c"
proof (induction n rule: measure_induct_rule [of size])
  case (less n)
  then obtain e cs where cs: "children n = e # cs" by (cases "children n") (auto simp: has_children_def)
  then have c: "child n (fst e) = Some (snd e)" by (cases e) (simp add: child_def)
  have "size (snd e) < size n" using cs by (cases n; cases e) simp
  moreover have "tree_ok (snd e)" using tree_ok_child [OF less.prems(2) c] by blast
  ultimately have "\<exists>q c. leaf_at (snd e) q c" if "has_children (snd e)" using less.IH that by blast
  then show ?case
    using c by (cases "has_children (snd e)") (metis leaf_at_Cons leaf_at_def)+
qed

text \<open>
  One level of \<open>erase\<close>: the leaves that remain are the others, and the flag says that none is
  left, in which case the caller erases the node.
\<close>

lemma erase_queue_correct:
  assumes "tree_ok n" and "erase_queue q path n = Inr (n', gone)"
  shows "tree_ok n' \<and> node_name n' = node_name n \<and> (gone \<longleftrightarrow> \<not> has_children n')
    \<and> (\<forall>r c. leaf_at n' r c \<longleftrightarrow> leaf_at n r c \<and> r \<noteq> q)
    \<and> (\<exists>c. lookup n q = Some c \<and> \<not> has_children c)"
  using assms
proof (induction q arbitrary: n path n' gone)
  case Nil
  then show ?case by (auto split: if_splits simp: leaf_at_def)
next
  case (Cons p q)
  obtain c where c: "child n p = Some c"
    using Cons.prems(2) by (auto simp: Let_def split: option.splits)
  then obtain cg where rec0: "erase_queue q (path_step path p) c = Inr cg"
    using Cons.prems(2) by (auto simp: Let_def and_then_Inr_iff)
  obtain c' g where cg: "cg = (c', g)" by (cases cg)
  note rec = rec0 [unfolded cg]
  have res: "(n', gone) = (if g then (with_children (map_del (node_name c') (children n)) n,
          \<not> has_children (with_children (map_del (node_name c') (children n)) n))
        else (with_children (map_put p c' (children n)) n, False))"
    using Cons.prems(2) c rec by (auto simp: Let_def split: if_splits)
  have ok: "tree_ok c" "node_name c = p" "part_ok p" using tree_ok_child [OF Cons.prems(1) c] by simp_all
  note IH = Cons.IH [OF ok(1) rec]
  have scal: "\<not> is_scalar n" using Cons.prems(1) c tree_ok_iff [of n] by (auto simp: child_def)
  show ?case
  proof (cases g)
    case True
    then have n': "n' = with_children (map_del p (children n)) n" "gone = (\<not> has_children n')"
      using res IH ok by auto
    have ch: "child n' k = (if k = p then None else child n k)" for k
      by (simp add: n'(1) map_of_del map_of_children)
    have "\<not> has_children c'" using IH True by simp
    then have none: "\<not> leaf_at c' r d" for r d
      by (cases r) (auto simp: leaf_at_Cons has_children_iff, simp add: leaf_at_def)
    have "leaf_at n' r d \<longleftrightarrow> leaf_at n r d \<and> r \<noteq> p # q" for r d
    proof (cases r)
      case Nil
      then show ?thesis by (simp add: leaf_at_def)
    next
      case (Cons k r')
      have "leaf_at c r' d \<Longrightarrow> r' = q" using none IH by blast
      moreover have "r' = [] \<Longrightarrow> \<not> has_children c \<Longrightarrow> q = []"
        using rec c by (cases q) (auto simp: has_children_iff Let_def)
      ultimately show ?thesis using c by (auto simp: Cons leaf_at_Cons ch)
    qed
    moreover have "tree_ok n'" using tree_ok_del [OF Cons.prems(1)] by (simp add: n'(1))
    moreover have "node_name n' = node_name n" by (simp add: n'(1))
    ultimately show ?thesis using n'(2) IH c by simp
  next
    case False
    then have n': "n' = with_children (map_put p c' (children n)) n" "gone = False"
      using res by simp_all
    have ch: "child n' k = (if k = p then Some c' else child n k)" for k
      by (simp add: n'(1) map_of_put map_of_children)
    have hc: "has_children c'" using IH False by simp
    have "has_children c"
      using leaf_below [OF hc] IH by (metis leaf_at_def lookup_leaf has_children_def option.distinct(1))
    then have "leaf_at n' r d \<longleftrightarrow> leaf_at n r d \<and> r \<noteq> p # q" for r d
      using c hc IH by (cases r) (auto simp: leaf_at_Cons ch leaf_at_def [of _ "[]"])
    moreover have "tree_ok n'"
      using tree_ok_put [OF Cons.prems(1) _ _ ok(3) scal] IH ok by (simp add: n'(1))
    moreover have "has_children n'" by (simp add: n'(1) has_children_def)
    ultimately show ?thesis using n' IH c by simp
  qed
qed

lemma erase_queue_outcome:
  "case lookup n q of
     None \<Rightarrow> \<exists>p. erase_queue q path n = Inl (Entry_not_found p)
   | Some c \<Rightarrow> if has_children c then erase_queue q path n = Inl Erase_non_leaf
       else \<exists>r. erase_queue q path n = Inr r"
proof (induction q arbitrary: n path)
  case Nil
  then show ?case by auto
next
  case (Cons p q)
  show ?case
  proof (cases "child n p")
    case None
    then show ?thesis by simp
  next
    case (Some c)
    with Cons [where n = c and path = "path_step path p"] show ?thesis
      by (auto simp: Let_def split: option.splits if_splits)
  qed
qed

text \<open>
  C9 Erasing a value: it succeeds exactly at a leaf, and then the leaves of the tree are those it
  had without this one, because a node whose last child goes is erased with it; a path into
  nothing and a node with children are two different exceptions.
\<close>

theorem erase_path_leafs:
  assumes "tree_ok n" and "str_split (CHR ''/'') path = ps" and "ps \<noteq> []"
  shows "(case lookup n ps of
      None \<Rightarrow> \<exists>p. erase_path path n = Inl (Entry_not_found p)
    | Some c \<Rightarrow> if has_children c then erase_path path n = Inl Erase_non_leaf
        else \<exists>n'. erase_path path n = Inr n' \<and> tree_ok n'
          \<and> (\<forall>r d. leaf_at n' r d \<longleftrightarrow> leaf_at n r d \<and> r \<noteq> ps))"
proof -
  note out = erase_queue_outcome [where n = n and q = ps and path = "[]"]
  show ?thesis
  proof (cases "lookup n ps")
    case None
    with out show ?thesis by (auto simp: erase_path_def assms(2))
  next
    case (Some c)
    show ?thesis
    proof (cases "has_children c")
      case True
      with Some out show ?thesis by (simp add: erase_path_def assms(2))
    next
      case False
      with Some out obtain n' g where r: "erase_queue ps [] n = Inr (n', g)"
        by auto
      from erase_queue_correct [OF assms(1) r] r Some False show ?thesis
        by (simp add: erase_path_def assms(2))
    qed
  qed
qed

theorem erase_path_leafs_witness:
  "\<exists>n'. erase_path ''mps/name'' demo_tree = Inr n' \<and> tree_ok n'
     \<and> \<not> (\<exists>c. leaf_at n' [''mps'', ''name''] c)"
  using erase_path_leafs [OF demo_tree_ok demo_path] demo_lookup by (auto simp: has_children_def)

section \<open>The leaves in order\<close>

definition path_string :: "string list \<Rightarrow> string" where
  "path_string q = concat (map (\<lambda>p. ''/'' @ p) q)"

lemma path_string_Cons: "path_string (p # q) = ''/'' @ p @ path_string q"
  by (simp add: path_string_def)

lemma path_string_Nil: "path_string [] = []"
  by (simp add: path_string_def)

lemma split_path_string: "list_all part_ok q \<Longrightarrow> str_split (CHR ''/'') (path_string q) = q"
proof (induction q)
  case Nil
  then show ?case by (simp add: path_string_def)
next
  case (Cons p q)
  then have p: "CHR ''/'' \<notin> set p" "p \<noteq> []" and IH: "str_split (CHR ''/'') (path_string q) = q"
    by (simp_all add: part_ok_def)
  show ?case
    using p IH by (cases q) (simp_all add: path_string_Cons path_string_def str_split_item)
qed

lemma path_string_inj:
  "list_all part_ok q \<Longrightarrow> list_all part_ok r \<Longrightarrow> path_string q = path_string r \<Longrightarrow> q = r"
  by (metis split_path_string)

text \<open>The pairs that \<open>enum_leafs\<close> inserts, in the order of the calls.\<close>

function (sequential) leaf_list :: "string \<Rightarrow> (string \<times> cnode) list \<Rightarrow> (string \<times> cnode) list" where
  "leaf_list pre [] = []"
| "leaf_list pre ((k, c) # cs) =
     (if has_children c then leaf_list (path_step pre k) (children c) else [(path_step pre k, c)])
     @ leaf_list pre cs"
  by pat_completeness auto
termination
  by (relation "measure (\<lambda>(_, cs). size_list (size_prod (\<lambda>_. 0) size) cs)")
    (simp_all add: children_size_le less_Suc_eq_le)

lemma enum_children_puts: "enum_children pre cs m = smap.put_all (leaf_list pre cs) m"
  by (induction pre cs m rule: enum_children.induct) (simp_all add: smap.put_all_def Let_def)

lemma leaf_list_iff:
  assumes "\<forall>(k, c)\<in>set cs. tree_ok c" and "map_ok cs"
  shows "(p, d) \<in> set (leaf_list pre cs) \<longleftrightarrow>
    (\<exists>k c r. map_of cs k = Some c \<and> p = pre @ path_string (k # r)
       \<and> lookup c r = Some d \<and> \<not> has_children d)"
  using assms
proof (induction pre cs rule: leaf_list.induct)
  case (1 pre)
  then show ?case by simp
next
  case (2 pre k c cs)
  have "tree_ok c" using "2.prems" by simp
  then have c: "\<forall>(k, c)\<in>set (children c). tree_ok c" "map_ok (children c)"
    by (auto simp: tree_ok_iff [of c])
  have other: "map_of cs k = None"
    using "2.prems"(2) by (auto simp: map_of_eq_None_iff)
  have head: "(p, d) \<in> set (if has_children c then leaf_list (path_step pre k) (children c)
        else [(path_step pre k, c)]) \<longleftrightarrow>
      (\<exists>r. p = pre @ path_string (k # r) \<and> lookup c r = Some d \<and> \<not> has_children d)"
  proof (cases "has_children c")
    case False
    then have "lookup c r = Some d \<longleftrightarrow> r = [] \<and> d = c" for r
      using lookup_leaf [of c r] by (cases "r = []") (auto simp: has_children_def)
    then show ?thesis using False
      by (auto simp: path_step_def path_string_def)
  next
    case True
    have "(p, d) \<in> set (leaf_list (path_step pre k) (children c)) \<longleftrightarrow>
        (\<exists>k' c' r. child c k' = Some c' \<and> p = path_step pre k @ path_string (k' # r)
          \<and> lookup c' r = Some d \<and> \<not> has_children d)"
      using "2.IH"(1) [OF True c] by (simp add: child_def)
    also have "\<dots> \<longleftrightarrow> (\<exists>r. r \<noteq> [] \<and> p = pre @ path_string (k # r) \<and> lookup c r = Some d \<and> \<not> has_children d)"
    proof -
      have "(\<exists>r. r \<noteq> [] \<and> p = pre @ path_string (k # r) \<and> lookup c r = Some d \<and> \<not> has_children d)
        \<longleftrightarrow> (\<exists>k' r. p = pre @ path_string (k # k' # r) \<and> lookup c (k' # r) = Some d \<and> \<not> has_children d)"
        by (metis list.distinct(1) neq_Nil_conv)
      also have "\<dots> \<longleftrightarrow> (\<exists>k' c' r. child c k' = Some c' \<and> p = path_step pre k @ path_string (k' # r)
          \<and> lookup c' r = Some d \<and> \<not> has_children d)"
        unfolding lookup_Cons_Some path_step_def path_string_Cons by auto
      finally show ?thesis by blast
    qed
    also have "\<dots> \<longleftrightarrow> (\<exists>r. p = pre @ path_string (k # r) \<and> lookup c r = Some d \<and> \<not> has_children d)"
      using True by (metis lookup.simps(1) option.inject)
    finally show ?thesis using True by simp
  qed
  define X where "X k' c' \<longleftrightarrow> (\<exists>r. p = pre @ path_string (k' # r) \<and> lookup c' r = Some d
      \<and> \<not> has_children d)" for k' c'
  have tail: "(p, d) \<in> set (leaf_list pre cs) \<longleftrightarrow> (\<exists>k c. map_of cs k = Some c \<and> X k c)"
    using "2.IH"(2) "2.prems" by (simp add: X_def)
  have keys: "map_of ((k, c) # cs) k' = Some c' \<longleftrightarrow> k' = k \<and> c' = c \<or> map_of cs k' = Some c'" for k' c'
    using other by auto
  have "(p, d) \<in> set (leaf_list pre ((k, c) # cs)) \<longleftrightarrow> X k c \<or> (\<exists>k c. map_of cs k = Some c \<and> X k c)"
    by (simp only: leaf_list.simps set_append Un_iff head tail X_def)
  also have "\<dots> \<longleftrightarrow> (\<exists>k' c'. map_of ((k, c) # cs) k' = Some c' \<and> X k' c')"
    by (simp only: keys) blast
  finally have "(p, d) \<in> set (leaf_list pre ((k, c) # cs)) \<longleftrightarrow>
    (\<exists>k' c'. map_of ((k, c) # cs) k' = Some c' \<and> X k' c')" .
  then show ?case by (simp only: X_def ex_simps)
qed

lemma leaf_at_child:
  "(\<exists>q. p = path_string q \<and> leaf_at n q d) \<longleftrightarrow>
   (\<exists>k c r. child n k = Some c \<and> p = path_string (k # r) \<and> lookup c r = Some d \<and> \<not> has_children d)"
proof -
  have "leaf_at n (k # r) d \<longleftrightarrow> (\<exists>c. child n k = Some c \<and> lookup c r = Some d) \<and> \<not> has_children d" for k r
    by (simp only: leaf_at_def lookup_Cons_Some) simp
  moreover have "\<not> leaf_at n [] d" by (simp add: leaf_at_def)
  ultimately show ?thesis by (metis neq_Nil_conv)
qed

lemma leaf_list_root:
  assumes "tree_ok n"
  shows "(p, d) \<in> set (leaf_list [] (children n)) \<longleftrightarrow> (\<exists>q. p = path_string q \<and> leaf_at n q d)"
proof -
  have "\<forall>(k, c)\<in>set (children n). tree_ok c" "map_ok (children n)"
    using assms by (auto simp: tree_ok_iff [of n])
  from leaf_list_iff [OF this, of p d "[]"] show ?thesis
    unfolding append.simps map_of_children leaf_at_child by blast
qed

lemma leaf_det: "leaf_at n q c \<Longrightarrow> leaf_at n q d \<Longrightarrow> c = d"
  by (simp add: leaf_at_def)

lemma leaf_unique:
  "tree_ok n \<Longrightarrow> leaf_at n q c \<Longrightarrow> leaf_at n r d \<Longrightarrow> path_string q = path_string r \<Longrightarrow> q = r \<and> c = d"
  by (metis leaf_at_def lookup_ok option.inject path_string_inj)

lemma enum_leafs_spec:
  assumes "tree_ok n"
  shows "map_ok (enum_leafs n)
    \<and> (map_of (enum_leafs n) p = Some c \<longleftrightarrow> (\<exists>q. p = path_string q \<and> leaf_at n q c))"
proof -
  let ?l = "leaf_list [] (children n)"
  have ok: "map_ok (enum_leafs n)"
    by (simp add: enum_leafs_def enum_children_puts smap.put_all_ok)
  have m: "map_of (enum_leafs n) = map_of (rev ?l)"
    by (simp add: enum_leafs_def enum_children_puts smap.get_put_all)
  have "map_of (rev ?l) p = Some c \<longleftrightarrow> (p, c) \<in> set ?l"
  proof
    show "map_of (rev ?l) p = Some c \<Longrightarrow> (p, c) \<in> set ?l" by (auto dest: map_of_SomeD)
  next
    assume "(p, c) \<in> set ?l"
    then obtain d where d: "map_of (rev ?l) p = Some d"
      by (metis set_rev weak_map_of_SomeI)
    then have "(p, d) \<in> set ?l" by (auto dest: map_of_SomeD)
    with \<open>(p, c) \<in> set ?l\<close> have "c = d"
      using leaf_unique [OF assms] by (metis leaf_list_root [OF assms])
    with d show "map_of (rev ?l) p = Some c" by simp
  qed
  with ok m leaf_list_root [OF assms] show ?thesis by simp
qed

text \<open>
  The list of the leaves: \<open>enum_leafs\<close> holds exactly the leaves of the tree, each under its
  path and once, in the order of the paths.
\<close>

theorem enum_leafs_correct:
  assumes "tree_ok n"
  shows "map_ok (enum_leafs n)
    \<and> (map_of (enum_leafs n) p = Some c \<longleftrightarrow> (\<exists>q. p = path_string q \<and> leaf_at n q c))"
  using assms by (rule enum_leafs_spec)

lemma demo_leaf: "leaf_at demo_tree [''mps'', ''name''] (CNode ''name'' Type_STRING ''C-BS'' [] [] False)"
  using demo_lookup by (simp add: leaf_at_def has_children_def)

theorem enum_leafs_correct_witness:
  "map_of (enum_leafs demo_tree) ''/mps/name'' = Some (CNode ''name'' Type_STRING ''C-BS'' [] [] False)"
proof -
  have "path_string [''mps'', ''name''] = ''/mps/name''" by (simp add: path_string_def)
  then show ?thesis
    using enum_leafs_correct [OF demo_tree_ok, of "''/mps/name''"] demo_leaf by metis
qed

lemma map_of_enum_leafs:
  assumes "tree_ok n" and "list_all part_ok q"
  shows "map_of (enum_leafs n) (path_string q) = Some c \<longleftrightarrow> leaf_at n q c"
  using enum_leafs_spec [OF assms(1), of "path_string q" c] path_string_inj [OF assms(2)]
  by (metis assms(1) leaf_at_def lookup_ok)

text \<open>
  The difference of two trees: it lists exactly the paths of the leaves that only one of them
  has and of those that differ in name, type or scalar, and nothing for a tree and itself.
\<close>

theorem tree_diff_correct:
  assumes "tree_ok a" and "tree_ok b"
  shows "set (tree_diff a b) = path_string ` {q.
      (\<exists>c. leaf_at a q c) \<noteq> (\<exists>d. leaf_at b q d)
      \<or> (\<exists>c d. leaf_at a q c \<and> leaf_at b q d \<and> node_differs c d)}
    \<and> tree_diff a a = []"
proof -
  define D where "D q \<longleftrightarrow> (\<exists>c. leaf_at a q c) \<noteq> (\<exists>d. leaf_at b q d)
      \<or> (\<exists>c d. leaf_at a q c \<and> leaf_at b q d \<and> node_differs c d)" for q
  have mem: "(p, c) \<in> set (enum_leafs n) \<longleftrightarrow> map_of (enum_leafs n) p = Some c" if "tree_ok n" for n p c
    using enum_leafs_spec [OF that] map_ok_distinct by (metis map_of_eq_Some_iff)
  have iff: "p \<in> set (tree_diff a b) \<longleftrightarrow>
      (case map_of (enum_leafs a) p of None \<Rightarrow> map_of (enum_leafs b) p \<noteq> None
       | Some c \<Rightarrow> (case map_of (enum_leafs b) p of None \<Rightarrow> True | Some d \<Rightarrow> node_differs c d))" for p
    by (force simp: tree_diff_def Let_def image_iff mem [OF assms(1)] mem [OF assms(2)]
        split: option.splits)
  have valid: "path_string q \<in> set (tree_diff a b) \<longleftrightarrow> D q" if "list_all part_ok q" for q
  proof -
    note A = map_of_enum_leafs [OF assms(1) that] and B = map_of_enum_leafs [OF assms(2) that]
    show ?thesis
    proof (cases "map_of (enum_leafs a) (path_string q)")
      case None
      then have "\<not> (\<exists>c. leaf_at a q c)" using A by (metis option.distinct(1))
      moreover have "map_of (enum_leafs b) (path_string q) \<noteq> None \<longleftrightarrow> (\<exists>d. leaf_at b q d)"
        using B by (metis not_None_eq)
      ultimately show ?thesis unfolding iff D_def using None by auto
    next
      case (Some c)
      then have c: "leaf_at a q c" using A by blast
      show ?thesis
      proof (cases "map_of (enum_leafs b) (path_string q)")
        case None
        then have "\<not> (\<exists>d. leaf_at b q d)" using B by (metis option.distinct(1))
        with c Some None show ?thesis unfolding iff D_def by auto
      next
        case (Some d)
        then have d: "leaf_at b q d" using B by blast
        have "D q \<longleftrightarrow> node_differs c d" unfolding D_def using c d leaf_det by blast
        then show ?thesis unfolding iff
          by (simp only: Some \<open>map_of (enum_leafs a) (path_string q) = Some c\<close> option.case)
      qed
    qed
  qed
  have parts: "list_all part_ok q" if "D q" for q
    using that assms unfolding D_def by (metis leaf_at_def lookup_ok)
  have "\<exists>q. p = path_string q \<and> list_all part_ok q" if "p \<in> set (tree_diff a b)" for p
  proof -
    have "\<exists>n c. tree_ok n \<and> map_of (enum_leafs n) p = Some c"
      using that assms unfolding iff by (cases "map_of (enum_leafs a) p") auto
    then obtain n c where n: "tree_ok n" "map_of (enum_leafs n) p = Some c" by blast
    then obtain q where "p = path_string q" "leaf_at n q c" using enum_leafs_spec [OF n(1)] by blast
    then show ?thesis using lookup_ok [OF n(1)] by (auto simp: leaf_at_def)
  qed
  then have "set (tree_diff a b) = path_string ` Collect D"
    using valid parts by blast
  moreover have "tree_diff a a = []"
    by (auto simp: tree_diff_def Let_def mem [OF assms(1)] node_differs_def filter_empty_conv
        split: option.splits)
  ultimately show ?thesis unfolding D_def by blast
qed

text \<open>The demo tree with another name, another list and a new value.\<close>

definition demo_tree2 :: cnode where
  "demo_tree2 = CNode ''root'' Type_UNKNOWN []
     [(''mps'', CNode ''mps'' Type_MAP []
        [(''name'', CNode ''name'' Type_STRING ''C-RS1'' [] [] False),
         (''tags'', CNode ''tags'' Type_SEQUENCE [] [] [''3''] False)] [] False)] [] False"

lemma demo_tree2_ok: "tree_ok demo_tree2"
  by (simp add: demo_tree2_def part_ok_def is_scalar_def)

theorem tree_diff_correct_witness:
  "''/mps/name'' \<in> set (tree_diff demo_tree demo_tree2)"
proof -
  have "path_string [''mps'', ''name''] = ''/mps/name''" by (simp add: path_string_def)
  moreover have "leaf_at demo_tree2 [''mps'', ''name''] (CNode ''name'' Type_STRING ''C-RS1'' [] [] False)"
    by (simp add: leaf_at_def demo_tree2_def child_def has_children_def)
  ultimately show ?thesis
    using tree_diff_correct [OF demo_tree_ok demo_tree2_ok] demo_leaf
    by (force simp: node_differs_def image_iff)
qed

text \<open>A list that has changed is not seen: only the name is reported.\<close>

lemma tree_diff_ignores_lists: "tree_diff demo_tree demo_tree2 = [''/mps/name'']"
  by code_simp

section \<open>Types\<close>

lemma digits_val_nonneg: "0 \<le> digits_val b ds"
proof (induction ds rule: rev_induct)
  case (snoc d ds)
  then show ?case by simp
qed (simp add: digits_val_def)

text \<open>A text that is a signed number is an unsigned one too, modulo the word size.\<close>

lemma int_text_is_uint:
  assumes "convert_int s = Some v"
  shows "convert_uint s = Some (word_of_int v)" and "- (2 ^ 31) \<le> v" and "v < 2 ^ 31"
proof -
  obtain neg k rest where r: "read_integer s = Some (neg, k, rest)" "list_all is_space rest"
    "if neg then k \<le> 2 ^ 31 else k < 2 ^ 31" "v = (if neg then - k else k)"
    using assms by (auto simp: convert_int_def split: option.splits prod.splits if_splits)
  have "0 \<le> k" using r(1) digits_val_nonneg
    by (auto simp: read_integer_def Let_def split: prod.splits if_splits)
  with r show "convert_uint s = Some (word_of_int v)" "- (2 ^ 31) \<le> v" "v < 2 ^ 31"
    by (auto simp: convert_uint_def split: if_splits)
qed

lemma truth_word_no_number:
  assumes "s \<in> set (truth_words b)"
  shows "convert_uint s = None" and "convert_int s = None"
proof -
  have "list_all (\<lambda>s. read_integer s = None) (truth_words True @ truth_words False)"
    unfolding truth_words_eq by code_simp
  then have "read_integer s = None" using assms by (cases b) (auto simp: list_all_iff)
  then show "convert_uint s = None" "convert_int s = None"
    by (simp_all add: convert_uint_def convert_int_def)
qed

text \<open>What the type of a node promises of its value \<open>s\<close>: which of the getters can read it, and as what.\<close>

definition type_holds :: "(string \<Rightarrow> real option) \<Rightarrow> cnode \<Rightarrow> bool" where
  "type_holds cf n \<longleftrightarrow>
     (let no_int = (\<forall>v. get_int n \<noteq> Inr v) \<and> (\<forall>u. get_uint n \<noteq> Inr u);
          no_float = (\<forall>x. get_float cf n \<noteq> Inr x)
      in case node_type n of
           Type_UINT32 \<Rightarrow> \<exists>v. 0 \<le> v \<and> v < 2 ^ 31 \<and> get_int n = Inr v \<and> get_uint n = Inr (word_of_int v)
         | Type_INT32 \<Rightarrow> \<exists>v. - (2 ^ 31) \<le> v \<and> v < 0 \<and> get_int n = Inr v \<and> get_uint n = Inr (word_of_int v)
         | Type_FLOAT \<Rightarrow> (\<exists>x. get_float cf n = Inr x) \<and> no_int
         | Type_BOOL \<Rightarrow> (\<exists>b. get_bool n = Inr b \<and> scalar_value n \<in> set (truth_words b)) \<and> no_int \<and> no_float
         | Type_STRING \<Rightarrow> no_int \<and> no_float \<and> (\<forall>b. get_bool n \<noteq> Inr b)
         | _ \<Rightarrow> False)"

lemma type_with [simp]:
  "node_type (with_type t n) = t" "scalar_value (with_type t n) = scalar_value n"
  "node_name (with_type t n) = node_name n" "node_type (with_scalar s n) = node_type n"
  "scalar_value (with_scalar s n) = s" "node_name (with_scalar s n) = node_name n"
  by (cases n; simp)+

lemma type_outcome:
  assumes "node_type n \<noteq> Type_SEQUENCE"
  shows "determine_scalar_type cf n =
     (case convert_int (scalar_value n) of
        Some v \<Rightarrow> Inr (if 0 \<le> v then Type_UINT32 else Type_INT32)
      | None \<Rightarrow> if convert_uint (scalar_value n) \<noteq> None then Inl (Value_error (node_name n))
          else Inr (if cf (scalar_value n) \<noteq> None then Type_FLOAT
            else if convert_bool (scalar_value n) \<noteq> None then Type_BOOL else Type_STRING))"
  using assms int_text_is_uint(1) [of "scalar_value n"]
  by (auto simp: determine_scalar_type_def is_type_def get_int_def get_value_def convert_string_def
      split: option.splits)

lemma type_holds_set:
  assumes "node_type n \<noteq> Type_SEQUENCE" and "determine_scalar_type cf n = Inr t"
  shows "type_holds cf (with_type t n)"
proof (cases "convert_int (scalar_value n)")
  case (Some v)
  note u = int_text_is_uint [OF Some]
  have "t = (if 0 \<le> v then Type_UINT32 else Type_INT32)" using assms Some by (simp add: type_outcome)
  then show ?thesis using Some u
    by (auto simp: type_holds_def get_int_def get_uint_def get_value_def)
next
  case None
  have u: "convert_uint (scalar_value n) = None"
    and t: "t = (if cf (scalar_value n) \<noteq> None then Type_FLOAT
            else if convert_bool (scalar_value n) \<noteq> None then Type_BOOL else Type_STRING)"
    using assms None by (auto simp: type_outcome split: if_splits)
  show ?thesis
  proof (cases "cf (scalar_value n)")
    case (Some x)
    then show ?thesis using None u t
      by (simp add: type_holds_def get_int_def get_uint_def get_float_def get_value_def)
  next
    case f: None
    show ?thesis
    proof (cases "convert_bool (scalar_value n)")
      case (Some b)
      then show ?thesis using None u t f convert_bool_iff_words [of "scalar_value n" b]
        by (simp add: type_holds_def get_int_def get_uint_def get_float_def get_bool_def get_value_def)
    next
      case b: None
      then show ?thesis using None u t f
        by (simp add: type_holds_def get_int_def get_uint_def get_float_def get_bool_def get_value_def)
    qed
  qed
qed

text \<open>
  C40 Types of scalars. When a text has been set as the value of a node that is no list, the type of the node
  says what can be read from it: \<open>Type_UINT32\<close> that the signed and the unsigned getter give the same
  number below \<open>2 ^ 31\<close>, \<open>Type_INT32\<close> that the signed getter gives a negative number (and the unsigned one
  that number modulo the word size), \<open>Type_FLOAT\<close>, \<open>Type_BOOL\<close> and \<open>Type_STRING\<close> that the value can be read so and in
  none of the ways before it. The call throws exactly for an unsigned number that is no signed one, and then
  the value has been stored all the same. So the text of an unsigned number from \<open>2 ^ 31\<close> on throws, and that of a smaller one,
  of a negative number and of a truth value (which is no number for the conversion \<open>cf\<close> to \<open>float\<close>) is typed as such. For a non-empty list of unsigned numbers, which can be
  read as such, the text of the list cannot be made.
\<close>

theorem scalar_types_hold:
  assumes "set_scalar cf s n = (n', err)" and "node_type n \<noteq> Type_SEQUENCE"
  shows "get_string n' = Inr s
    \<and> (if err = None then type_holds cf n'
       else err = Some (Value_error (node_name n)) \<and> node_type n' = node_type n)
    \<and> (err \<noteq> None \<longleftrightarrow> (\<exists>u. get_uint n' = Inr u) \<and> (\<forall>v. get_int n' \<noteq> Inr v))
    \<and> (\<forall>u. s = dec_str (unat u) \<longrightarrow> get_uint n' = Inr u
         \<and> (if uint u < 2 ^ 31 then err = None \<and> node_type n' = Type_UINT32 else err \<noteq> None))
    \<and> (\<forall>i. s = int_str i \<and> - (2 ^ 31) \<le> i \<and> i < 0 \<longrightarrow> err = None \<and> node_type n' = Type_INT32 \<and> get_int n' = Inr i)
    \<and> (\<forall>b. s \<in> set (truth_words b) \<and> cf s = None \<longrightarrow> err = None \<and> node_type n' = Type_BOOL \<and> get_bool n' = Inr b)
    \<and> (\<forall>m us. node_type m = Type_SEQUENCE \<and> list_values m = map (dec_str \<circ> unat) us \<and> us \<noteq> [] \<longrightarrow>
         get_list convert_uint m = Inr (us :: u32 list) \<and> get_list_as_string cf m = Inl (Value_is_list (node_name m)))"
proof (intro conjI allI impI)
  let ?n = "with_scalar s n"
  have set: "(n', err) = (case determine_scalar_type cf ?n of Inl e \<Rightarrow> (?n, Some e) | Inr t \<Rightarrow> (with_type t ?n, None))"
    using assms(1) by (simp add: set_scalar_def Let_def)
  note out = type_outcome [of ?n cf, simplified, OF assms(2)]
  have t: "node_type n' \<noteq> Type_SEQUENCE" and v: "scalar_value n' = s"
    using set assms(2) out by (auto split: sum.splits option.splits if_splits)
  have get: "get_value c n' = (case c s of None \<Rightarrow> Inl (Value_error (node_name n')) | Some x \<Rightarrow> Inr x)" for c :: "string \<Rightarrow> 'x option"
    using t v by (simp add: get_value_def)
  have get': "get_int n' = Inr i \<longleftrightarrow> convert_int s = Some i" "get_uint n' = Inr u \<longleftrightarrow> convert_uint s = Some u"
    "get_bool n' = Inr b \<longleftrightarrow> convert_bool s = Some b" for i u b
    using t v by (auto simp: get_int_def get_uint_def get_bool_def get_value_def split: option.splits)
  show "get_string n' = Inr s" using t v by (simp add: get_string_def get_value_def convert_string_def)
  show "if err = None then type_holds cf n' else err = Some (Value_error (node_name n)) \<and> node_type n' = node_type n"
  proof (cases "determine_scalar_type cf ?n")
    case (Inl e)
    then show ?thesis using set out by (simp split: option.splits if_splits)
  next
    case (Inr t)
    then show ?thesis using set type_holds_set [of ?n cf t] assms(2) by simp
  qed
  have err: "err \<noteq> None \<longleftrightarrow> convert_int s = None \<and> convert_uint s \<noteq> None"
    using set out by (auto split: option.splits if_splits)
  then show "err \<noteq> None \<longleftrightarrow> (\<exists>u. get_uint n' = Inr u) \<and> (\<forall>v. get_int n' \<noteq> Inr v)"
    by (auto simp: get')
  have ty: "node_type n' = t" if "err = None" "determine_scalar_type cf ?n = Inr t" for t
    using set that by simp
  show "get_uint n' = Inr u" if "s = dec_str (unat u)" for u
    using that integer_text_spec(1) [of u] by (simp add: get')
  show "if uint u < 2 ^ 31 then err = None \<and> node_type n' = Type_UINT32 else err \<noteq> None"
    if "s = dec_str (unat u)" for u :: u32
  proof -
    have c: "convert_int s = (if uint u < 2 ^ 31 then Some (uint u) else None)" "convert_uint s = Some u"
      using that integer_text_spec(1,2) [of u] by simp_all
    show ?thesis
    proof (cases "uint u < 2 ^ 31")
      case True
      then have "determine_scalar_type cf ?n = Inr Type_UINT32" using c out by simp
      moreover have "err = None" using c err True by simp
      ultimately show ?thesis using ty True by simp
    next
      case False
      then show ?thesis using c err by simp
    qed
  qed
  show "err = None" "node_type n' = Type_INT32" "get_int n' = Inr i"
    if "s = int_str i \<and> - (2 ^ 31) \<le> i \<and> i < 0" for i
    using that integer_text_spec(3) [of i] err ty out by (simp_all add: get')
  show "err = None" "node_type n' = Type_BOOL" "get_bool n' = Inr b"
    if "s \<in> set (truth_words b) \<and> cf s = None" for b
  proof -
    have "convert_uint s = None" "convert_int s = None" "convert_bool s = Some b"
      using that truth_word_no_number convert_bool_iff_words by auto
    with that show "err = None" "node_type n' = Type_BOOL" "get_bool n' = Inr b"
      using err ty out by (auto simp: get')
  qed
  fix m :: cnode and us :: "u32 list"
  assume m: "node_type m = Type_SEQUENCE \<and> list_values m = map (dec_str \<circ> unat) us \<and> us \<noteq> []"
  have "convert_all convert_uint (map (dec_str \<circ> unat) us) = Some us"
    by (induction us) (simp_all add: integer_text_spec(1))
  then show "get_list convert_uint m = Inr us" using m by (simp add: get_list_def)
  show "get_list_as_string cf m = Inl (Value_is_list (node_name m))"
    using m integer_text_spec(1)
    by (cases us) (simp_all add: get_list_as_string_def determine_scalar_type_def is_type_def get_int_def get_value_def)
qed

theorem scalar_types_hold_witness:
  "(\<exists>n' err. set_scalar no_float (dec_str (2 ^ 31)) (CNode ''port'' Type_UINT32 ''5'' [] [] False) = (n', err)
      \<and> err \<noteq> None \<and> get_uint n' = Inr (2 ^ 31))
   \<and> (\<exists>n' err. set_scalar no_float ''Yes'' (CNode ''port'' Type_UINT32 ''5'' [] [] False) = (n', err)
      \<and> node_type n' = Type_BOOL \<and> get_bool n' = Inr True)"
proof -
  let ?n = "CNode ''port'' Type_UINT32 ''5'' [] [] False"
  have n: "node_type ?n \<noteq> Type_SEQUENCE" by simp
  obtain n1 e1 where 1: "set_scalar no_float (dec_str (2 ^ 31)) ?n = (n1, e1)" by fastforce
  have "unat (2 ^ 31 :: u32) = 2 ^ 31" by simp
  then have "e1 \<noteq> None \<and> get_uint n1 = Inr (2 ^ 31)"
    using scalar_types_hold [OF 1 n, THEN conjunct2, THEN conjunct2, THEN conjunct2, THEN conjunct1, rule_format, of "2 ^ 31"]
    by simp
  moreover obtain n2 e2 where 2: "set_scalar no_float ''Yes'' ?n = (n2, e2)" by fastforce
  have "''Yes'' \<in> set (truth_words True)" by (simp add: truth_words_eq)
  moreover have "no_float ''Yes'' = None" by (simp add: no_float_def)
  ultimately show ?thesis using 1 2 scalar_types_hold [OF 2 n] by blast
qed

end
