(* ===== verification/ConfigMerge.thy ===== *)
theory ConfigMerge
  imports ConfigTreeProps
begin

text \<open>
  \<open>YamlConfigurationNode::operator+=\<close>, by which an included file and the host file are laid over
  the configuration. It is specified node by node: \<open>own\<close> says what a node keeps of itself.
\<close>

definition node_data :: "cnode \<Rightarrow> node_type \<times> string \<times> string list" where
  "node_data n = (node_type n, scalar_value n, list_values n)"

text \<open>A scalar takes the other scalar; every other node keeps what it is.\<close>

definition own :: "(string \<Rightarrow> real option) \<Rightarrow> cnode \<Rightarrow> cnode \<Rightarrow> cnode" where
  "own cf b c = (if is_scalar b then fst (set_scalar cf (scalar_value c) b) else b)"

definition overlaid :: "(string \<Rightarrow> real option) \<Rightarrow> cnode \<Rightarrow> cnode \<Rightarrow> string list
    \<Rightarrow> (node_type \<times> string \<times> string list) option" where
  "overlaid cf b c q = (case lookup c q of
       None \<Rightarrow> map_option node_data (lookup b q)
     | Some d \<Rightarrow> Some (node_data (own cf (case lookup b q of None \<Rightarrow> copy_node d | Some x \<Rightarrow> x) d)))"

definition merged :: "(string \<Rightarrow> real option) \<Rightarrow> cnode \<Rightarrow> cnode \<Rightarrow> cnode \<Rightarrow> bool" where
  "merged cf b c m \<longleftrightarrow> (\<forall>q. map_option node_data (lookup m q) = overlaid cf b c q)"

text \<open>No node below the root is called \<open>root\<close>.\<close>

fun no_root :: "cnode \<Rightarrow> bool" where
  "no_root (CNode n t s cs l d) \<longleftrightarrow> (\<forall>e\<in>set cs. fst e \<noteq> ''root'' \<and> no_root (snd e))"

lemma no_root_iff: "no_root n \<longleftrightarrow> (\<forall>(k, c)\<in>set (children n). k \<noteq> ''root'' \<and> no_root c)"
  by (cases n) (simp add: case_prod_beta)

definition mergeable :: "(string \<times> cnode) list \<Rightarrow> bool" where
  "mergeable cs \<longleftrightarrow> map_ok cs
     \<and> (\<forall>(k, c)\<in>set cs. part_ok k \<and> k \<noteq> ''root'' \<and> node_name c = k \<and> tree_ok c \<and> no_root c)"

lemma mergeable_children: "tree_ok n \<Longrightarrow> no_root n \<Longrightarrow> mergeable (children n)"
  unfolding mergeable_def tree_ok_iff [of n] no_root_iff [of n] by blast

definition base_of :: "cnode \<Rightarrow> string \<Rightarrow> cnode \<Rightarrow> cnode" where
  "base_of t k c = (case child t k of None \<Rightarrow> copy_node c | Some b \<Rightarrow> b)"

lemma base_of_ok: "tree_ok t \<Longrightarrow> node_name c = k \<Longrightarrow> tree_ok (base_of t k c) \<and> node_name (base_of t k c) = k"
  using tree_ok_child [of t k] by (auto simp: base_of_def tree_ok_copy split: option.split)

text \<open>From the children to the node.\<close>

lemma merged_node:
  assumes data: "node_data m = node_data (own cf b c)"
    and kids: "\<And>k. case child c k of None \<Rightarrow> child m k = child b k
      | Some d \<Rightarrow> \<exists>m'. child m k = Some m' \<and> merged cf (base_of b k d) d m'"
  shows "merged cf b c m"
  unfolding merged_def
proof
  fix q
  show "map_option node_data (lookup m q) = overlaid cf b c q"
  proof (cases q)
    case Nil
    with data show ?thesis by (simp add: overlaid_def)
  next
    case (Cons k r)
    show ?thesis
    proof (cases "child c k")
      case None
      with kids [of k] show ?thesis by (simp add: Cons overlaid_def)
    next
      case (Some d)
      with kids [of k] obtain m' where m': "child m k = Some m'" "merged cf (base_of b k d) d m'"
        by auto
      show ?thesis
      proof (cases "child b k")
        case None
        have new: "lookup (copy_node d) r = (if r = [] then Some (copy_node d) else None)"
          by (cases r) simp_all
        show ?thesis
          using m' Some None new by (auto simp: Cons merged_def overlaid_def base_of_def split: option.splits)
      next
        case (Some x)
        with m' \<open>child c k = Some d\<close> show ?thesis
          by (simp add: Cons merged_def overlaid_def base_of_def split: option.split)
      qed
    qed
  qed
qed

lemma merge_correct:
  shows "tree_ok t \<Longrightarrow> \<not> is_scalar t \<Longrightarrow> mergeable [(node_name n, n)] \<Longrightarrow> merge_node cf t n = (t', None) \<Longrightarrow>
      tree_ok t' \<and> node_name t' = node_name t \<and> node_data t' = node_data t
      \<and> (\<forall>k. k \<noteq> node_name n \<longrightarrow> child t' k = child t k)
      \<and> (\<exists>m. child t' (node_name n) = Some m \<and> merged cf (base_of t (node_name n) n) n m)"
    and "tree_ok t \<Longrightarrow> tree_ok n \<Longrightarrow> no_root n \<Longrightarrow> merge_into cf t n = (t', None) \<Longrightarrow>
      tree_ok t' \<and> node_name t' = node_name t \<and> merged cf t n t'"
    and "tree_ok t \<Longrightarrow> \<not> is_scalar t \<Longrightarrow> mergeable cs \<Longrightarrow> merge_children cf t cs = (t', None) \<Longrightarrow>
      tree_ok t' \<and> node_name t' = node_name t \<and> node_data t' = node_data t
      \<and> (\<forall>k. case map_of cs k of None \<Rightarrow> child t' k = child t k
          | Some d \<Rightarrow> \<exists>m. child t' k = Some m \<and> merged cf (base_of t k d) d m)"
proof (induction cf t n and cf t n and cf t cs arbitrary: t' and t' and t'
    rule: merge_node_merge_into_merge_children.induct)
  case (1 cf t n)
  let ?k = "node_name n"
  have n: "?k \<noteq> ''root''" "part_ok ?k" "tree_ok n" "no_root n"
    using "1.prems"(3) by (simp_all add: mergeable_def)
  have b: "tree_ok (base_of t ?k n)" "node_name (base_of t ?k n) = ?k"
    using base_of_ok [OF "1.prems"(1) refl] by simp_all
  obtain c' e where c'e: "merge_into cf (base_of t ?k n) n = (c', e)"
    by (cases "merge_into cf (base_of t ?k n) n")
  have "merge_node cf t n = (with_children (map_put ?k c' (children t)) t, e)"
    using n(1) c'e by (simp only: merge_node.simps [of cf t n] base_of_def if_False Let_def prod.case)
  then have e: "e = None" and t': "t' = with_children (map_put ?k c' (children t)) t"
    using "1.prems"(4) by simp_all
  note c' = c'e [unfolded e]
  note I = "1.IH"(2) [OF n(1) refl b(1) [unfolded base_of_def] n(3,4) c' [unfolded base_of_def],
      folded base_of_def]
  have IH: "tree_ok c'" "node_name c' = ?k" "merged cf (base_of t ?k n) n c'"
    using I b(2) by simp_all
  have "tree_ok t'" using tree_ok_put [OF "1.prems"(1) IH(1,2) n(2) "1.prems"(2)] t' by simp
  then show ?case
    using IH(3) by (simp add: t' node_data_def map_of_put map_of_children)
next
  case (2 cf t n)
  show ?case
  proof (cases "is_scalar t")
    case True
    then have r: "is_scalar n" "set_scalar cf (scalar_value n) t = (t', None)"
      using "2.prems"(4) by (auto simp: merge_into.simps [of cf t n] split: if_splits)
    then have t': "t' = fst (set_scalar cf (scalar_value n) t)" by simp
    have empty: "children t = []" "children n = []"
      using True r(1) "2.prems" tree_ok_iff by blast+
    then have "merged cf t n t'"
      by (intro merged_node) (simp_all add: t' own_def True set_scalar_simps child_def)
    moreover have "tree_ok t'"
      using tree_ok_set_scalar [OF "2.prems"(1)] empty by (simp add: t' has_children_def)
    ultimately show ?thesis by (simp add: t' set_scalar_simps)
  next
    case False
    then have r: "merge_children cf t (children n) = (t', None)"
      using "2.prems"(4) by (simp add: merge_into.simps [of cf t n])
    note IH = "2.IH" [OF False "2.prems"(1) False mergeable_children [OF "2.prems"(2,3)] r]
    have "merged cf t n t'"
      using IH False by (intro merged_node) (simp_all add: own_def child_def)
    with IH show ?thesis by simp
  qed
next
  case (3 cf t)
  then show ?case by (simp add: merge_children.simps)
next
  case (4 cf t k c cs)
  have m: "mergeable [(node_name c, c)]" "mergeable cs" "node_name c = k" "map_of cs k = None"
    using "4.prems"(3) by (auto simp: mergeable_def map_of_eq_None_iff)
  obtain t1 where t1: "merge_node cf t c = (t1, None)" and r: "merge_children cf t1 cs = (t', None)"
    using "4.prems"(4) by (auto simp: merge_children.simps split: prod.splits option.splits)
  note A = "4.IH"(1) [OF "4.prems"(1,2) m(1) t1]
  have s1: "\<not> is_scalar t1"
    using A "4.prems"(2) is_scalar_cong [of t1 t] by (simp add: node_data_def)
  have "tree_ok t1" using A by blast
  note B = "4.IH"(2) [OF t1 [symmetric] refl this s1 m(2) r]
  have here: "\<exists>x. child t1 k = Some x \<and> merged cf (base_of t k c) c x"
    using A m(3) by simp
  have kids: "case map_of cs k' of None \<Rightarrow> child t' k' = child t1 k'
      | Some d \<Rightarrow> \<exists>x. child t' k' = Some x \<and> merged cf (base_of t1 k' d) d x" for k'
    using B by (elim conjE allE)
  have there: "child t1 k' = child t k'" "base_of t1 k' d = base_of t k' d" if "k' \<noteq> k" for k' d
    using A m(3) that by (simp_all add: base_of_def)
  have "case map_of ((k, c) # cs) k' of None \<Rightarrow> child t' k' = child t k'
      | Some d \<Rightarrow> \<exists>x. child t' k' = Some x \<and> merged cf (base_of t k' d) d x" for k'
  proof (cases "k' = k")
    case True
    have "child t' k = child t1 k" using kids [of k] by (simp only: m(4) option.case)
    with here show ?thesis by (simp add: True)
  next
    case False
    note kids [of k']
    moreover have "map_of ((k, c) # cs) k' = map_of cs k'" using False by simp
    ultimately show ?thesis by (simp only: there [OF False])
  qed
  moreover have "tree_ok t' \<and> node_name t' = node_name t \<and> node_data t' = node_data t"
    using A B by simp
  ultimately show ?case by blast
qed

section \<open>Overlaying a configuration\<close>

text \<open>
  C7 Overlaying a tree that was read from a file (its root is called \<open>root\<close>): when nothing is
  thrown the result is well formed and is at every path what \<open>overlaid\<close> says. So every scalar of
  the file that meets a scalar or nothing is the value afterwards, everything the file does not
  mention stays as it was, and a node that is no scalar, a list for instance, keeps its own
  content whatever the file has there.
\<close>

theorem merge_overlays:
  assumes "tree_ok t" and "tree_ok n" and "no_root n" and "node_name n = ''root''"
    and "merge_node cf t n = (t', None)"
  shows "tree_ok t' \<and> (\<forall>q. map_option node_data (lookup t' q) = overlaid cf t n q)
    \<and> (\<forall>q d. lookup n q = Some d \<and> is_scalar d \<and> (\<forall>x. lookup t q = Some x \<longrightarrow> is_scalar x) \<longrightarrow>
         (\<exists>m. lookup t' q = Some m \<and> scalar_value m = scalar_value d))
    \<and> (\<forall>q. lookup n q = None \<longrightarrow> map_option node_data (lookup t' q) = map_option node_data (lookup t q))
    \<and> (\<forall>q x. lookup t q = Some x \<and> \<not> is_scalar x \<longrightarrow> map_option node_data (lookup t' q) = Some (node_data x))"
proof -
  have "merge_into cf t n = (t', None)" using assms(4,5) by (simp add: merge_node.simps [of cf t n])
  then have ok: "tree_ok t'" and m: "map_option node_data (lookup t' q) = overlaid cf t n q" for q
    using merge_correct(2) [OF assms(1-3)] by (auto simp: merged_def)
  have "\<exists>m. lookup t' q = Some m \<and> scalar_value m = scalar_value d"
    if "lookup n q = Some d" "is_scalar d" "\<forall>x. lookup t q = Some x \<longrightarrow> is_scalar x" for q d
  proof -
    have "is_scalar (case lookup t q of None \<Rightarrow> copy_node d | Some x \<Rightarrow> x)"
      using that is_scalar_cong [of "copy_node d" d] by (simp split: option.split)
    then show ?thesis
      using m [of q] that(1) by (auto simp: overlaid_def own_def node_data_def set_scalar_simps)
  qed
  moreover have "map_option node_data (lookup t' q) = Some (node_data x)"
    if "lookup t q = Some x" "\<not> is_scalar x" for q x
    using m [of q] that by (simp add: overlaid_def own_def split: option.split)
  moreover have "map_option node_data (lookup t' q) = map_option node_data (lookup t q)"
    if "lookup n q = None" for q
    using m [of q] that by (simp add: overlaid_def)
  ultimately show ?thesis using ok m by blast
qed

theorem merge_overlays_witness:
  "\<exists>t' m. merge_node no_float demo_tree demo_tree2 = (t', None) \<and> tree_ok t'
     \<and> lookup t' [''mps'', ''name''] = Some m \<and> scalar_value m = ''C-RS1''"
proof -
  have nr: "no_root demo_tree2" "node_name demo_tree2 = ''root''"
    by (simp_all add: demo_tree2_def)
  have l: "lookup demo_tree2 [''mps'', ''name''] = Some (CNode ''name'' Type_STRING ''C-RS1'' [] [] False)"
    by (simp add: demo_tree2_def child_def)
  have "snd (merge_node no_float demo_tree demo_tree2) = None" by code_simp
  then obtain t' where r: "merge_node no_float demo_tree demo_tree2 = (t', None)"
    by (metis prod.collapse)
  have "\<exists>m. lookup t' [''mps'', ''name''] = Some m \<and> scalar_value m = ''C-RS1''"
  proof -
    have sc: "is_scalar (CNode ''name'' Type_STRING a [] [] False)" for a by (simp add: is_scalar_def)
    have "\<forall>x. lookup demo_tree [''mps'', ''name''] = Some x \<longrightarrow> is_scalar x"
      unfolding demo_lookup using sc by simp
    then show ?thesis
      using merge_overlays [OF demo_tree_ok demo_tree2_ok nr r, THEN conjunct2, THEN conjunct2,
          THEN conjunct1, rule_format, OF conjI [OF l conjI [OF sc]]] by simp
  qed
  then show ?thesis
    using merge_overlays [OF demo_tree_ok demo_tree2_ok nr r, THEN conjunct1] r by blast
qed

text \<open>
  A key \<open>root\<close> below the root is taken for the root of a file: its children are put beside it.
\<close>

lemma merge_root_key:
  "merge_node cf root_node (CNode ''root'' Type_MAP []
      [(''root'', CNode ''root'' Type_MAP [] [(''a'', CNode ''a'' Type_STRING ''x'' [] [] False)] [] False)] [] False)
   = merge_node cf root_node (CNode ''root'' Type_MAP [] [(''a'', CNode ''a'' Type_STRING ''x'' [] [] False)] [] False)"
  by (simp add: merge_node.simps [of cf root_node] merge_node.simps [of _ _ "CNode ''root'' _ _ _ _ _"]
      merge_into.simps [of cf root_node] merge_into.simps root_node_def is_scalar_def
      merge_children.simps split: prod.split option.split)

end
