(* ===== verification/YamlConfig.thy ===== *)
theory YamlConfig
  imports ConfigMerge
begin

text \<open>
  \<open>libs/config/yaml.cpp\<close>, class \<open>YamlConfiguration\<close>: reading the configuration files, and the
  values of the configuration. Parsed documents are those of yaml-cpp, with the tag of a node; what
  the class asks of the system is a parameter: the file system, POSIX regular expressions and the
  conversion of a YAML node to a string. A key of a map is taken as its string.
\<close>

datatype ynode = Y_Null | Y_Scalar (ytag: string) (yscalar: string) | Y_Sequence "ynode list"
  | Y_Map "(string \<times> ynode) list"

datatype load_error =
    Node_error cfg_error
  | Bad_conversion
  | Bad_subscript
  | Overwrite_scalar string
  | Key_without_part
  | Port_error cfg_error
  | Port_range u32
  | Invalid_url string
  | Invalid_frame string
  | Cannot_access string
  | Parse_failed string
  | Second_host_file
  | Empty_include
  | Stat_failed string
  | Not_a_directory string
  | Opendir_failed string
  | Include_in_host

definition y_is_scalar :: "ynode \<Rightarrow> bool" where
  "y_is_scalar y = (case y of Y_Scalar _ _ \<Rightarrow> True | _ \<Rightarrow> False)"

definition y_text :: "ynode \<Rightarrow> string" where
  "y_text y = (case y of Y_Scalar _ s \<Rightarrow> s | _ \<Rightarrow> [])"

definition URL_REGEX :: string where
  "URL_REGEX = ''^(([^:/?#]+):)?(//([^/?#]*))?([^?#]*)('' @ [CHR 92] @ ''?([^#]*))?(#(.*))?''"

definition YAML_REGEX :: string where
  "YAML_REGEX = ''^[a-zA-Z0-9_-]+'' @ [CHR 92] @ ''.yaml$''"

definition FRAME_REGEX :: string where "FRAME_REGEX = ''^(/[a-zA-Z_][a-zA-Z0-9_-]*)+$''"

text \<open>The environment of the reader.\<close>

datatype directory = No_entry | No_directory | Unreadable | Directory "string list"

record yaml_env =
  convert_float :: "string \<Rightarrow> real option"
  as_string :: "ynode \<Rightarrow> string option"
  regex_match :: "string \<Rightarrow> string \<Rightarrow> bool"
  readable :: "string \<Rightarrow> bool"
  load_all :: "string \<Rightarrow> ynode list option"
  dir_at :: "string \<Rightarrow> directory"
  CONFDIR :: string

section \<open>Documents\<close>

fun all_strings :: "(ynode \<Rightarrow> string option) \<Rightarrow> ynode list \<Rightarrow> string list option" where
  "all_strings f [] = Some []"
| "all_strings f (y # ys) =
     (case f y of None \<Rightarrow> None | Some s \<Rightarrow> map_option (\<lambda>ss. s # ss) (all_strings f ys))"

text \<open>The constructor of a node from a YAML node.\<close>

definition node_of_yaml :: "yaml_env \<Rightarrow> string \<Rightarrow> ynode \<Rightarrow> load_error + cnode" where
  "node_of_yaml env name y =
     (let n = CNode name Type_UNKNOWN (y_text y) [] [] False
      in case y of
           Y_Null \<Rightarrow> Inr (with_type Type_NONE n)
         | Y_Scalar _ _ \<Rightarrow> and_then (map_error Node_error (determine_scalar_type (convert_float env) n))
             (\<lambda>t. Inr (with_type t n))
         | Y_Sequence ys \<Rightarrow> (case all_strings (as_string env) ys of
               None \<Rightarrow> Inl Bad_conversion
             | Some l \<Rightarrow> Inr (with_list l (with_type Type_SEQUENCE n)))
         | Y_Map _ \<Rightarrow> Inr (with_type Type_MAP n))"

text \<open>What the tag of a scalar asks for.\<close>

definition check_scalar :: "yaml_env \<Rightarrow> string \<Rightarrow> string \<Rightarrow> cnode \<Rightarrow> load_error option" where
  "check_scalar env tag s node =
     (if tag = ''tag:fawkesrobotics.org,cfg/tcp-port'' \<or> tag = ''tag:fawkesrobotics.org,cfg/udp-port''
      then (case get_uint node of
              Inl e \<Rightarrow> Some (Port_error e)
            | Inr p \<Rightarrow> if uint p \<le> 0 \<or> 65535 \<le> uint p then Some (Port_range p) else None)
      else if tag = ''tag:fawkesrobotics.org,cfg/url''
      then (if regex_match env URL_REGEX s then None else Some (Invalid_url s))
      else if tag = ''tag:fawkesrobotics.org,cfg/frame''
      then (if regex_match env FRAME_REGEX s then None else Some (Invalid_frame s))
      else None)"

text \<open>
  The end of the loop over a map: the key is there already, or the node made for it, with what was
  read into it, becomes a child.
\<close>

definition place_value ::
    "yaml_env \<Rightarrow> string \<Rightarrow> ynode \<Rightarrow> load_error + cnode \<times> load_error option \<Rightarrow> cnode
      \<Rightarrow> cnode \<times> load_error option" where
  "place_value env key v fresh i =
     (case child i key of
        Some tmp \<Rightarrow>
          if is_scalar tmp \<and> \<not> y_is_scalar v then (i, Some (Overwrite_scalar (node_name tmp)))
          else let (tmp, e) = set_scalar (convert_float env) (y_text v) tmp
               in (with_children (map_put key tmp (children i)) i, map_option Node_error e)
      | None \<Rightarrow>
          (case fresh of Inl e \<Rightarrow> (i, Some e) | Inr (tmp, e) \<Rightarrow> (add_child key tmp i, e)))"

definition key_path :: "string \<Rightarrow> string list" where
  "key_path key = (if CHR ''/'' \<in> set key then str_split (CHR ''/'') key else [key])"

function (sequential) read_config_doc :: "yaml_env \<Rightarrow> ynode \<Rightarrow> cnode \<Rightarrow> cnode \<times> load_error option"
  and read_entries :: "yaml_env \<Rightarrow> (string \<times> ynode) list \<Rightarrow> cnode \<Rightarrow> cnode \<times> load_error option"
  where
  "read_config_doc env (Y_Map kvs) node = read_entries env kvs node"
| "read_config_doc env (Y_Scalar tag s) node = (node, check_scalar env tag s node)"
| "read_config_doc env Y_Null node = (node, None)"
| "read_config_doc env (Y_Sequence ys) node = (node, None)"
| "read_entries env [] node = (node, None)"
| "read_entries env ((key, v) # kvs) node =
     (let pel = key_path key
      in if pel = [] then (node, Some Key_without_part)
         else let fresh = and_then (node_of_yaml env (last pel) v)
                    (\<lambda>tmp. Inr (read_config_doc env v tmp))
              in case find_or_insert (butlast pel) (place_value env (last pel) v fresh) node of
                   (node, Some e) \<Rightarrow> (node, Some e)
                 | (node, None) \<Rightarrow> read_entries env kvs node)"
  by pat_completeness auto
termination
  by (relation "measure (\<lambda>x. case x of Inl (_, y, _) \<Rightarrow> size y
        | Inr (_, kvs, _) \<Rightarrow> size_list (size_prod (\<lambda>_. 0) size) kvs)")
    auto

text \<open>A document read from nothing is read into a new node called \<open>root\<close>.\<close>

definition read_document :: "yaml_env \<Rightarrow> ynode \<Rightarrow> load_error + cnode" where
  "read_document env doc =
     (case read_config_doc env doc (new_node ''root'') of
        (n, None) \<Rightarrow> Inr n | (_, Some e) \<Rightarrow> Inl e)"

section \<open>Files\<close>

record load_entry =
  filename :: string
  ignore_missing :: bool
  is_dir :: bool

definition abs_cfg_path :: "yaml_env \<Rightarrow> string \<Rightarrow> string" where
  "abs_cfg_path env path =
     (if path \<noteq> [] \<and> hd path = CHR ''/'' then path else CONFDIR env @ ''/'' @ path)"

text \<open>
  What \<open>doc["include"]\<close> iterates over: the elements of a sequence. The entries of a map are pairs,
  and the first of them is not a string.
\<close>

fun includes_of :: "ynode \<Rightarrow> load_error + ynode list" where
  "includes_of (Y_Map kvs) =
     (case map_of kvs ''include'' of
        Some (Y_Sequence ys) \<Rightarrow> Inr ys
      | Some (Y_Map (_ # _)) \<Rightarrow> Inl Bad_conversion
      | _ \<Rightarrow> Inr [])"
| "includes_of Y_Null = Inr []"
| "includes_of (Y_Sequence _) = Inr []"
| "includes_of (Y_Scalar _ _) = Inl Bad_subscript"

definition tag_of_node :: "ynode \<Rightarrow> string" where
  "tag_of_node y = (case y of Y_Scalar t _ \<Rightarrow> t | _ \<Rightarrow> [])"

text \<open>The entries that one include pushes, in order; a host file instead.\<close>

definition read_include ::
    "yaml_env \<Rightarrow> ynode \<Rightarrow> string \<Rightarrow> load_error + load_entry list \<times> string" where
  "read_include env it host_file =
     (case as_string env it of None \<Rightarrow> Inl Bad_conversion
      | Some include \<Rightarrow>
        let ign = (tag_of_node it = ''tag:fawkesrobotics.org,cfg/ignore-missing'')
        in if tag_of_node it = ''tag:fawkesrobotics.org,cfg/host-specific''
           then (if host_file \<noteq> [] then Inl Second_host_file
                 else Inr ([], abs_cfg_path env (y_text it)))
           else if include = [] then Inl Empty_include
           else if last include = CHR ''/''
           then let dirname = abs_cfg_path env include
                in case dir_at env dirname of
                     No_entry \<Rightarrow> if ign then Inr ([], host_file) else Inl (Stat_failed dirname)
                   | No_directory \<Rightarrow> Inl (Not_a_directory dirname)
                   | Unreadable \<Rightarrow> Inl (Opendir_failed dirname)
                   | Directory names \<Rightarrow>
                       Inr (\<lparr>filename = dirname, ignore_missing = ign, is_dir = True\<rparr>
                         # map (\<lambda>f. \<lparr>filename = f, ignore_missing = ign, is_dir = False\<rparr>)
                             (sort (map (\<lambda>dn. dirname @ dn)
                               (filter (regex_match env YAML_REGEX) names))), host_file)
           else Inr ([\<lparr>filename = abs_cfg_path env include, ignore_missing = ign, is_dir = False\<rparr>],
                     host_file))"

fun read_includes ::
    "yaml_env \<Rightarrow> ynode list \<Rightarrow> load_entry list \<Rightarrow> string \<Rightarrow> load_error + load_entry list \<times> string" where
  "read_includes env [] load_queue host_file = Inr (load_queue, host_file)"
| "read_includes env (it # its) load_queue host_file =
     and_then (read_include env it host_file) (\<lambda>(es, host_file).
       read_includes env its (load_queue @ es) host_file)"

definition read_meta_doc ::
    "yaml_env \<Rightarrow> ynode \<Rightarrow> load_entry list \<Rightarrow> string \<Rightarrow> load_error + load_entry list \<times> string" where
  "read_meta_doc env doc load_queue host_file =
     and_then (includes_of doc) (\<lambda>its. read_includes env its load_queue host_file)"

text \<open>\<open>None\<close> is the null pointer: the file is missing or has no document.\<close>

definition read_yaml_file ::
    "yaml_env \<Rightarrow> string \<Rightarrow> bool \<Rightarrow> load_entry list \<Rightarrow> string
      \<Rightarrow> load_error + cnode option \<times> load_entry list \<times> string" where
  "read_yaml_file env fname ign load_queue host_file =
     (if \<not> readable env fname
      then (if ign then Inr (None, load_queue, host_file) else Inl (Cannot_access fname))
      else case load_all env fname of
             None \<Rightarrow> Inl (Parse_failed fname)
           | Some [] \<Rightarrow> Inr (None, load_queue, host_file)
           | Some [doc] \<Rightarrow> and_then (read_document env doc) (\<lambda>n. Inr (Some n, load_queue, host_file))
           | Some (meta # doc # _) \<Rightarrow>
               and_then (read_meta_doc env meta load_queue host_file) (\<lambda>(load_queue, host_file).
               and_then (read_document env doc) (\<lambda>n. Inr (Some n, load_queue, host_file))))"

text \<open>
  The loop over the load queue. It ends only if the includes do, so it is a partial function: no
  value means that it does not return.
\<close>

record load_state =
  ls_root :: cnode
  ls_queue :: "load_entry list"
  ls_host_file :: string
  ls_files :: "string list"
  ls_dirs :: "string list"

definition load_step :: "yaml_env \<Rightarrow> load_entry \<Rightarrow> load_state \<Rightarrow> load_error + load_state" where
  "load_step env qe st =
     and_then
       (if is_dir qe then Inr (st\<lparr>ls_dirs := ls_dirs st @ [filename qe]\<rparr>)
        else and_then (read_yaml_file env (filename qe) (ignore_missing qe) (ls_queue st) (ls_host_file st))
          (\<lambda>(sub_root, load_queue, host_file).
            let st = st\<lparr>ls_queue := load_queue, ls_host_file := host_file\<rparr>
            in case sub_root of
                 None \<Rightarrow> Inr st
               | Some n \<Rightarrow>
                   let st = st\<lparr>ls_files := ls_files st @ [filename qe]\<rparr>
                   in (case merge_node (convert_float env) (ls_root st) n of
                         (_, Some e) \<Rightarrow> Inl (Node_error e)
                       | (r, None) \<Rightarrow> Inr (st\<lparr>ls_root := r\<rparr>))))
       (\<lambda>st. Inr (st\<lparr>ls_queue := tl (ls_queue st)\<rparr>))"

partial_function (option) load_loop :: "yaml_env \<Rightarrow> load_state \<Rightarrow> (load_error + load_state) option" where
  "load_loop env st =
     (case ls_queue st of
        [] \<Rightarrow> Some (Inr st)
      | qe # q \<Rightarrow> (case load_step env qe st of Inl e \<Rightarrow> Some (Inl e) | Inr st \<Rightarrow> load_loop env st))"

record loaded =
  ld_root :: cnode
  ld_host_root :: cnode
  ld_host_file :: string
  ld_files :: "string list"
  ld_dirs :: "string list"

definition read_host :: "yaml_env \<Rightarrow> load_state \<Rightarrow> load_error + loaded" where
  "read_host env st =
     (if ls_host_file st = []
      then Inr \<lparr>ld_root = ls_root st, ld_host_root = root_node, ld_host_file = [],
                ld_files = ls_files st, ld_dirs = ls_dirs st\<rparr>
      else and_then (read_yaml_file env (ls_host_file st) True [] (ls_host_file st))
        (\<lambda>(host_root, host_queue, host_file).
           if host_queue \<noteq> [] then Inl Include_in_host
           else case host_root of
             None \<Rightarrow> Inr \<lparr>ld_root = ls_root st, ld_host_root = root_node, ld_host_file = host_file,
                         ld_files = ls_files st, ld_dirs = ls_dirs st\<rparr>
           | Some h \<Rightarrow>
               (case merge_node (convert_float env) (ls_root st) h of
                  (_, Some e) \<Rightarrow> Inl (Node_error e)
                | (r, None) \<Rightarrow> Inr \<lparr>ld_root = r, ld_host_root = h, ld_host_file = host_file,
                    ld_files = ls_files st @ [host_file], ld_dirs = ls_dirs st\<rparr>)))"

definition load_init :: "string \<Rightarrow> string \<Rightarrow> load_state" where
  "load_init fname host_file = \<lparr>ls_root = root_node,
     ls_queue = [\<lparr>filename = fname, ignore_missing = False, is_dir = False\<rparr>],
     ls_host_file = host_file, ls_files = [], ls_dirs = []\<rparr>"

definition read_yaml_config :: "yaml_env \<Rightarrow> string \<Rightarrow> string \<Rightarrow> (load_error + loaded) option" where
  "read_yaml_config env fname host_file =
     map_option (\<lambda>r. and_then r (read_host env)) (load_loop env (load_init fname host_file))"

section \<open>The configuration\<close>

record yaml_config =
  cfg_file :: string
  cfg_host_file :: string
  cfg_root :: cnode
  cfg_host_root :: cnode

datatype config_error =
    Config_node cfg_error
  | Config_load load_error
  | Not_found_anywhere string
  | No_host_file
  | Not_implemented
  | Invalid_iterator

definition find_config_file ::
    "yaml_env \<Rightarrow> string \<Rightarrow> string \<Rightarrow> string option \<Rightarrow> config_error + string" where
  "find_config_file env userconfdir sysconfdir file_path =
     (let file_path = (case file_path of None \<Rightarrow> ''config.yaml'' | Some f \<Rightarrow> f)
      in if file_path \<noteq> [] \<and> hd file_path = CHR ''/'' then Inr file_path
         else case find (readable env) (map (\<lambda>d. d @ ''/'' @ file_path) [userconfdir, sysconfdir]) of
                None \<Rightarrow> Inl (Not_found_anywhere file_path)
              | Some f \<Rightarrow> Inr f)"

definition load ::
    "yaml_env \<Rightarrow> string \<Rightarrow> string \<Rightarrow> string option \<Rightarrow> (config_error + yaml_config) option" where
  "load env userconfdir sysconfdir file_path =
     (case find_config_file env userconfdir sysconfdir file_path of
        Inl e \<Rightarrow> Some (Inl e)
      | Inr f \<Rightarrow> map_option (\<lambda>r. and_then (map_error Config_load r) (\<lambda>l.
          Inr \<lparr>cfg_file = f, cfg_host_file = ld_host_file l, cfg_root = ld_root l,
               cfg_host_root = ld_host_root l\<rparr>)) (read_yaml_config env f []))"

text \<open>
  A change in a watched file: the configuration is read again and replaces the old one if a leaf
  has changed; the second component is the list of the handlers' notifications. An exception is
  swallowed.
\<close>

definition fam_event :: "yaml_env \<Rightarrow> yaml_config \<Rightarrow> (yaml_config \<times> string list) option" where
  "fam_event env c =
     map_option (\<lambda>r. case r of
         Inl _ \<Rightarrow> (c, [])
       | Inr l \<Rightarrow>
           let changes = tree_diff (cfg_root c) (ld_root l)
           in if changes = [] then (c, [])
              else (c\<lparr>cfg_root := ld_root l, cfg_host_root := ld_host_root l,
                      cfg_host_file := ld_host_file l\<rparr>, changes))
       (read_yaml_config env (cfg_file c) [])"

subsection \<open>Reading values\<close>

definition exists_path :: "yaml_config \<Rightarrow> string \<Rightarrow> bool" where
  "exists_path c path = (case find_path path (cfg_root c) of Inr n \<Rightarrow> \<not> has_children n | Inl _ \<Rightarrow> False)"

definition leaf_node :: "yaml_config \<Rightarrow> string \<Rightarrow> cfg_error + cnode" where
  "leaf_node c path = and_then (find_path path (cfg_root c))
     (\<lambda>n. if has_children n then Inl (Entry_not_found path) else Inr n)"

definition cfg_get_type :: "yaml_config \<Rightarrow> string \<Rightarrow> cfg_error + string" where
  "cfg_get_type c path = and_then (leaf_node c path) (\<lambda>n. Inr (type_to_string (node_type n)))"

definition get_value_as :: "(string \<Rightarrow> 'v option) \<Rightarrow> yaml_config \<Rightarrow> string \<Rightarrow> cfg_error + 'v" where
  "get_value_as conv c path = and_then (leaf_node c path) (get_value conv)"

definition get_list_as :: "(string \<Rightarrow> 'v option) \<Rightarrow> yaml_config \<Rightarrow> string \<Rightarrow> cfg_error + 'v list" where
  "get_list_as conv c path = and_then (leaf_node c path) (get_list conv)"

definition cfg_float where "cfg_float env c path = get_value_as (convert_float env) c path"
definition cfg_uint where "cfg_uint c path = get_value_as convert_uint c path"
definition cfg_int where "cfg_int c path = get_value_as convert_int c path"
definition cfg_bool where "cfg_bool c path = get_value_as convert_bool c path"
definition cfg_string where "cfg_string c path = get_value_as convert_string c path"
definition cfg_floats where "cfg_floats env c path = get_list_as (convert_float env) c path"
definition cfg_uints where "cfg_uints c path = get_list_as convert_uint c path"
definition cfg_ints where "cfg_ints c path = get_list_as convert_int c path"
definition cfg_bools where "cfg_bools c path = get_list_as convert_bool c path"
definition cfg_strings where "cfg_strings c path = get_list_as convert_string c path"

definition cfg_is_type :: "(string \<Rightarrow> 'v option) \<Rightarrow> yaml_config \<Rightarrow> string \<Rightarrow> cfg_error + bool" where
  "cfg_is_type conv c path = and_then (leaf_node c path) (\<lambda>n. Inr (is_type conv n))"

definition cfg_is_float where "cfg_is_float env c path = cfg_is_type (convert_float env) c path"
definition cfg_is_int where "cfg_is_int c path = cfg_is_type convert_int c path"
definition cfg_is_bool where "cfg_is_bool c path = cfg_is_type convert_bool c path"
definition cfg_is_string where "cfg_is_string c path = cfg_is_type convert_string c path"

definition cfg_is_uint :: "yaml_config \<Rightarrow> string \<Rightarrow> cfg_error + bool" where
  "cfg_is_uint c path = and_then (leaf_node c path) (\<lambda>n.
     if \<not> is_type convert_uint n then Inr False
     else and_then (get_value convert_int n) (\<lambda>v. Inr (0 \<le> v)))"

definition cfg_is_list :: "yaml_config \<Rightarrow> string \<Rightarrow> cfg_error + bool" where
  "cfg_is_list c path = and_then (leaf_node c path) (\<lambda>n. Inr (node_type n = Type_SEQUENCE))"

subsection \<open>Writing values\<close>

text \<open>
  Both trees are changed, then the host file is written: what was emitted to it, if anything. An
  exception leaves what was done before it.
\<close>

type_synonym cfg_result = "yaml_config \<times> (string \<times> emitted list) option \<times> config_error option"

definition write_host_file :: "yaml_config \<Rightarrow> cfg_result" where
  "write_host_file c =
     (if cfg_host_file c = [] then (c, None, Some No_host_file)
      else (c, Some (cfg_host_file c, emit_node (cfg_host_root c)), None))"

definition set_both :: "(cnode \<Rightarrow> cnode \<times> cfg_error option) \<Rightarrow> yaml_config \<Rightarrow> cfg_result" where
  "set_both f c =
     (case f (cfg_root c) of
        (r, Some e) \<Rightarrow> (c\<lparr>cfg_root := r\<rparr>, None, Some (Config_node e))
      | (r, None) \<Rightarrow>
          let c = c\<lparr>cfg_root := r\<rparr>
          in (case f (cfg_host_root c) of
                (h, Some e) \<Rightarrow> (c\<lparr>cfg_host_root := h\<rparr>, None, Some (Config_node e))
              | (h, None) \<Rightarrow> write_host_file (c\<lparr>cfg_host_root := h\<rparr>)))"

definition cfg_set_uint :: "yaml_env \<Rightarrow> string \<Rightarrow> u32 \<Rightarrow> yaml_config \<Rightarrow> cfg_result" where
  "cfg_set_uint env path u = set_both (set_value (convert_float env) path (dec_str (unat u)))"

definition cfg_set_int :: "yaml_env \<Rightarrow> string \<Rightarrow> int \<Rightarrow> yaml_config \<Rightarrow> cfg_result" where
  "cfg_set_int env path i = set_both (set_value (convert_float env) path (int_str i))"

definition cfg_set_bool :: "yaml_env \<Rightarrow> string \<Rightarrow> bool \<Rightarrow> yaml_config \<Rightarrow> cfg_result" where
  "cfg_set_bool env path b = set_both (set_value (convert_float env) path (bool_str b))"

definition cfg_set_string :: "yaml_env \<Rightarrow> string \<Rightarrow> string \<Rightarrow> yaml_config \<Rightarrow> cfg_result" where
  "cfg_set_string env path s = set_both (set_value (convert_float env) path s)"

definition cfg_set_uints :: "string \<Rightarrow> u32 list \<Rightarrow> yaml_config \<Rightarrow> cfg_result" where
  "cfg_set_uints path us = set_both (set_list path (map (\<lambda>u. dec_str (unat u)) us))"

definition cfg_set_ints :: "string \<Rightarrow> int list \<Rightarrow> yaml_config \<Rightarrow> cfg_result" where
  "cfg_set_ints path xs = set_both (set_list path (map int_str xs))"

definition cfg_set_bools :: "string \<Rightarrow> bool list \<Rightarrow> yaml_config \<Rightarrow> cfg_result" where
  "cfg_set_bools path bs = set_both (set_list path (map bool_str bs))"

definition cfg_set_strings :: "string \<Rightarrow> string list \<Rightarrow> yaml_config \<Rightarrow> cfg_result" where
  "cfg_set_strings path ss = set_both (set_list path ss)"

text \<open>The host tree comes first here.\<close>

definition cfg_erase :: "string \<Rightarrow> yaml_config \<Rightarrow> cfg_result" where
  "cfg_erase path c =
     (case erase_path path (cfg_host_root c) of
        Inl e \<Rightarrow> (c, None, Some (Config_node e))
      | Inr h \<Rightarrow>
          let c = c\<lparr>cfg_host_root := h\<rparr>
          in (case erase_path path (cfg_root c) of
                Inl e \<Rightarrow> (c, None, Some (Config_node e))
              | Inr r \<Rightarrow> write_host_file (c\<lparr>cfg_root := r\<rparr>)))"

end
