(* ===== verification/YamlConfigProps.thy ===== *)
theory YamlConfigProps
  imports YamlConfig
begin

text \<open>
  Properties of \<open>YamlConfig\<close>: that the loading of files ends, what is read from a document, and
  that values written are the values read.
\<close>

section \<open>Includes\<close>

text \<open>What has been queued before does not matter for what a document adds.\<close>

lemma read_includes_queue:
  "read_includes env its q h = and_then (read_includes env its [] h) (\<lambda>(es, h). Inr (q @ es, h))"
proof (induction its arbitrary: q h)
  case Nil
  then show ?case by simp
next
  case (Cons it its)
  show ?case
  proof (cases "read_include env it h")
    case (Inl e)
    then show ?thesis by simp
  next
    case (Inr r)
    obtain es h' where r: "r = (es, h')" by (cases r)
    have "read_includes env its (q @ es) h' = and_then (read_includes env its es h') (\<lambda>(fs, h). Inr (q @ fs, h))"
      by (subst (1 2) Cons.IH) (cases "read_includes env its [] h'"; simp add: case_prod_beta)
    with Inr r show ?thesis by simp
  qed
qed

lemma read_meta_doc_queue:
  "read_meta_doc env doc q h = Inr (q', h') \<Longrightarrow>
   \<exists>es. q' = q @ es \<and> read_meta_doc env doc [] h = Inr (es, h')"
  using read_includes_queue [of env _ q h]
  by (auto simp: read_meta_doc_def and_then_Inr_iff split: option.splits)

text \<open>A weight of files under which every include is lighter than the file with the include.\<close>

definition entry_weight :: "(string \<Rightarrow> nat) \<Rightarrow> load_entry \<Rightarrow> nat" where
  "entry_weight w e = (if is_dir e then 1 else w (filename e))"

definition includes_descend :: "yaml_env \<Rightarrow> (string \<Rightarrow> nat) \<Rightarrow> bool" where
  "includes_descend env w \<longleftrightarrow> (\<forall>f. 0 < w f)
     \<and> (\<forall>f meta doc docs h es h'. load_all env f = Some (meta # doc # docs)
          \<and> read_meta_doc env meta [] h = Inr (es, h') \<longrightarrow> sum_list (map (entry_weight w) es) < w f)"

definition queue_weight :: "(string \<Rightarrow> nat) \<Rightarrow> load_state \<Rightarrow> nat" where
  "queue_weight w st = sum_list (map (entry_weight w) (ls_queue st))"

lemma read_yaml_file_queue:
  assumes "includes_descend env w" and "read_yaml_file env f ign q h = Inr (n, q', h')"
  shows "\<exists>es. q' = q @ es \<and> sum_list (map (entry_weight w) es) < w f"
proof -
  have pos: "0 < w f" using assms(1) by (simp add: includes_descend_def)
  consider "q' = q" | meta doc docs where "load_all env f = Some (meta # doc # docs)"
      "read_meta_doc env meta q h = Inr (q', h')"
    using assms(2) by (auto simp: read_yaml_file_def and_then_Inr_iff
        split: if_splits option.splits list.splits)
  then show ?thesis
  proof cases
    case 1
    with pos show ?thesis by simp
  next
    case 2
    with read_meta_doc_queue [OF 2(2)] assms(1) show ?thesis
      unfolding includes_descend_def by blast
  qed
qed

lemma load_step_weight:
  assumes "includes_descend env w" and "ls_queue st = qe # q" and "load_step env qe st = Inr st'"
  shows "queue_weight w st' < queue_weight w st"
proof (cases "is_dir qe")
  case True
  with assms(2,3) show ?thesis by (auto simp: load_step_def queue_weight_def entry_weight_def)
next
  case False
  from assms(3) False obtain nq where nq: "read_yaml_file env (filename qe) (ignore_missing qe)
      (ls_queue st) (ls_host_file st) = Inr nq"
    by (auto simp: load_step_def and_then_Inr_iff)
  obtain n q' h' where nq': "nq = (n, q', h')" by (cases nq)
  note r = nq [unfolded nq' assms(2)]
  have st': "ls_queue st' = tl q'"
  proof (cases n)
    case None
    with assms(3) False nq nq' show ?thesis by (auto simp: load_step_def)
  next
    case (Some c)
    obtain t e where "merge_node (convert_float env) (ls_root st) c = (t, e)"
      by (cases "merge_node (convert_float env) (ls_root st) c")
    with assms(3) False nq nq' Some show ?thesis by (cases e) (auto simp: load_step_def Let_def)
  qed
  obtain es where "q' = (qe # q) @ es" "sum_list (map (entry_weight w) es) < w (filename qe)"
    using read_yaml_file_queue [OF assms(1) r] by blast
  with st' assms(2) False show ?thesis by (simp add: queue_weight_def entry_weight_def)
qed

text \<open>
  C13 Loading ends: if the files can be given weights such that what a file includes is together
  lighter than the file, so in particular when no file reaches itself through includes, the
  configuration is read to its end or to an exception.
\<close>

theorem load_ends:
  assumes "includes_descend env w"
  shows "\<exists>r. read_yaml_config env fname h = Some r"
proof -
  have "\<exists>r. load_loop env st = Some r" for st
  proof (induction st rule: measure_induct_rule [of "queue_weight w"])
    case (less st)
    show ?case
    proof (cases "ls_queue st")
      case Nil
      then show ?thesis by (subst load_loop.simps) simp
    next
      case (Cons qe q)
      show ?thesis
      proof (cases "load_step env qe st")
        case (Inl e)
        with Cons show ?thesis by (subst load_loop.simps) simp
      next
        case (Inr st')
        with less [of st'] load_step_weight [OF assms Cons Inr] Cons show ?thesis
          by (subst load_loop.simps) simp
      qed
    qed
  qed
  then show ?thesis by (simp add: read_yaml_config_def)
qed

text \<open>An environment with a file that includes another one.\<close>

definition str_of_yaml :: "ynode \<Rightarrow> string option" where
  "str_of_yaml y = (case y of Y_Scalar _ s \<Rightarrow> Some s | _ \<Rightarrow> None)"

definition demo_env :: yaml_env where
  "demo_env = \<lparr>convert_float = no_float, as_string = str_of_yaml, regex_match = (\<lambda>_ _. True),
     readable = (\<lambda>_. True),
     load_all = (\<lambda>f. if f = ''/main'' then
         Some [Y_Map [(''include'', Y_Sequence [Y_Scalar [] ''/a''])],
               Y_Map [(''x'', Y_Scalar [] ''1''), (''y'', Y_Scalar [] ''on'')]]
       else if f = ''/a'' then Some [Y_Map [(''x'', Y_Scalar [] ''2'')]] else Some []),
     dir_at = (\<lambda>_. No_entry), CONFDIR = ''/etc''\<rparr>"

definition demo_weight :: "string \<Rightarrow> nat" where
  "demo_weight f = (if f = ''/main'' then 2 else 1)"

lemma demo_descends: "includes_descend demo_env demo_weight"
proof -
  have "sum_list (map (entry_weight demo_weight) es) < demo_weight f"
    if "load_all demo_env f = Some (meta # doc # docs)"
      and "read_meta_doc demo_env meta [] h = Inr (es, h')" for f meta doc docs h es h'
  proof -
    have f: "f = ''/main'' \<and> meta = Y_Map [(''include'', Y_Sequence [Y_Scalar [] ''/a''])]"
      using that(1) by (auto simp: demo_env_def split: if_splits)
    then have "es = [\<lparr>filename = ''/a'', ignore_missing = False, is_dir = False\<rparr>]"
      using that(2) by (auto simp: read_meta_doc_def read_include_def demo_env_def str_of_yaml_def
          tag_of_node_def abs_cfg_path_def)
    then show ?thesis using f by (simp add: demo_weight_def entry_weight_def)
  qed
  moreover have "0 < demo_weight f" for f by (simp add: demo_weight_def)
  ultimately show ?thesis unfolding includes_descend_def by blast
qed

theorem load_ends_witness: "\<exists>r. read_yaml_config demo_env ''/main'' [] = Some r"
  using load_ends [OF demo_descends] by blast

text \<open>
  A file that includes itself is read for ever: the loop has no result, and no exception tells
  of the cycle.
\<close>

theorem include_cycle_diverges:
  assumes "readable env f" and "load_all env f = Some [Y_Map [(''include'', Y_Sequence [Y_Scalar t f])], Y_Map []]"
    and "as_string env (Y_Scalar t f) = Some f" and "f \<noteq> []" and "hd f = CHR ''/''" and "last f \<noteq> CHR ''/''"
    and "t \<noteq> ''tag:fawkesrobotics.org,cfg/host-specific''"
  shows "read_yaml_config env f h = None"
proof -
  let ?e = "\<lambda>ign. \<lparr>filename = f, ignore_missing = ign, is_dir = False\<rparr>"
  have one_file: "\<exists>ign'. read_yaml_file env f ign q h = Inr (Some (new_node ''root''), q @ [?e ign'], h)"
    for q ign h
    using assms by (simp add: read_yaml_file_def read_meta_doc_def read_include_def read_document_def
        tag_of_node_def abs_cfg_path_def)
  have merge: "merge_node cf r (new_node ''root'') = (r, None)" if "\<not> is_scalar r" for cf r
    using that by (simp add: merge_node.simps [of cf r] merge_into.simps [of cf r])
  have step: "\<exists>st' ign'. load_step env (?e ign) st = Inr st' \<and> ls_queue st' = [?e ign']
      \<and> \<not> is_scalar (ls_root st')"
    if "ls_queue st = [?e ign]" "\<not> is_scalar (ls_root st)" for st ign
  proof -
    obtain ign' where "read_yaml_file env f ign [?e ign] (ls_host_file st)
        = Inr (Some (new_node ''root''), [?e ign] @ [?e ign'], ls_host_file st)"
      using one_file by blast
    then show ?thesis
      using that merge [OF that(2)] by (simp add: load_step_def Let_def)
  qed
  define cyclic where "cyclic st \<longleftrightarrow> (\<exists>ign. ls_queue st = [?e ign]) \<and> \<not> is_scalar (ls_root st)"
    for st :: load_state
  have "env' = env \<longrightarrow> \<not> cyclic st" if "load_loop env' st = Some r" for env' st r
  proof (rule load_loop.raw_induct [OF _ that])
    fix loop :: "yaml_env \<Rightarrow> load_state \<Rightarrow> (load_error + load_state) option" and env' st r
    assume IH: "\<And>env' st r. loop env' st = Some r \<Longrightarrow> env' = env \<longrightarrow> \<not> cyclic st"
      and run: "(case ls_queue st of [] \<Rightarrow> Some (Inr st)
        | qe # q \<Rightarrow> (case load_step env' qe st of Inl e \<Rightarrow> Some (Inl e)
            | Inr st \<Rightarrow> loop env' st)) = Some r"
    show "env' = env \<longrightarrow> \<not> cyclic st"
    proof (intro impI notI)
      assume "env' = env" and "cyclic st"
      then obtain ign where q: "ls_queue st = [?e ign]" "\<not> is_scalar (ls_root st)"
        by (auto simp: cyclic_def)
      obtain st' where st': "load_step env (?e ign) st = Inr st'" "cyclic st'"
        using step [OF q] by (auto simp: cyclic_def)
      then have "loop env st' = Some r" using run q \<open>env' = env\<close> by simp
      with IH st'(2) show False by blast
    qed
  qed
  moreover have "cyclic (load_init f h)"
    by (auto simp: cyclic_def load_init_def root_node_def is_scalar_def)
  ultimately have "load_loop env (load_init f h) = None"
    by (cases "load_loop env (load_init f h)") auto
  then show ?thesis by (simp add: read_yaml_config_def)
qed

definition cyclic_env :: yaml_env where
  "cyclic_env = demo_env\<lparr>load_all := (\<lambda>f. Some [Y_Map [(''include'', Y_Sequence [Y_Scalar [] f])], Y_Map []])\<rparr>"

theorem include_cycle_diverges_witness: "read_yaml_config cyclic_env ''/main'' [] = None"
  by (rule include_cycle_diverges [where t = "[]"])
    (simp_all add: cyclic_env_def demo_env_def str_of_yaml_def)

section \<open>Values written and read\<close>

lemma leaf_node_eq:
  "find_path path (cfg_root c) = Inr n \<Longrightarrow> \<not> has_children n \<Longrightarrow> leaf_node c path = Inr n"
  by (simp add: leaf_node_def)

text \<open>Writing the text of an unsigned number to a node that is no list and has no children.\<close>

lemma value_setter_uint:
  fixes u :: u32
  assumes "\<not> has_children n" and "node_type n \<noteq> Type_SEQUENCE"
  shows "scalar_value (fst (value_setter cf path (dec_str (unat u)) n)) = dec_str (unat u)"
    and "\<not> has_children (fst (value_setter cf path (dec_str (unat u)) n))"
    and "snd (value_setter cf path (dec_str (unat u)) n)
      = (if uint u < 2 ^ 31 then None else Some (Value_error (node_name n)))"
    and "node_type (fst (value_setter cf path (dec_str (unat u)) n))
      = (if uint u < 2 ^ 31 then Type_UINT32 else node_type n)"
proof -
  have "determine_scalar_type cf (with_scalar (dec_str (unat u)) n)
      = (if uint u < 2 ^ 31 then Inr Type_UINT32 else Inl (Value_error (node_name n)))"
    using assms(2) by (simp add: determine_scalar_type_def is_type_def get_int_def get_value_def
        integer_text_spec)
  then have "value_setter cf path (dec_str (unat u)) n = (if uint u < 2 ^ 31
      then (with_type Type_UINT32 (with_scalar (dec_str (unat u)) n), None)
      else (with_scalar (dec_str (unat u)) n, Some (Value_error (node_name n))))"
    using assms(1) by (simp add: value_setter_def set_scalar_def)
  then show "scalar_value (fst (value_setter cf path (dec_str (unat u)) n)) = dec_str (unat u)"
    and "\<not> has_children (fst (value_setter cf path (dec_str (unat u)) n))"
    and "snd (value_setter cf path (dec_str (unat u)) n)
      = (if uint u < 2 ^ 31 then None else Some (Value_error (node_name n)))"
    and "node_type (fst (value_setter cf path (dec_str (unat u)) n))
      = (if uint u < 2 ^ 31 then Type_UINT32 else node_type n)"
    using assms(1) by (simp_all add: has_children_def)
qed

text \<open>The nodes that a write of a value reaches in the two trees.\<close>

definition writable :: "string \<Rightarrow> cnode \<Rightarrow> bool" where
  "writable path t = (let n = node_at t (str_split (CHR ''/'') path)
     in \<not> has_children n \<and> node_type n \<noteq> Type_SEQUENCE)"

text \<open>
  C11 Writing an unsigned number to the configuration, where the path leads to no inner node and
  to no list in either tree. A number below \<open>2 ^ 31\<close> is then read back as unsigned and as signed,
  counts as unsigned, is in the host tree too, and that tree is written to the host file. A larger
  number is read back as unsigned as well, but the call throws: the host tree and the host file
  are left without it.
\<close>

theorem uint_written_is_read:
  assumes "str_split (CHR ''/'') path \<noteq> []" and "writable path (cfg_root c)"
    and "writable path (cfg_host_root c)" and "cfg_host_file c \<noteq> []"
    and "cfg_set_uint env path u c = (c', w, e)"
  shows "cfg_uint c' path = Inr u
    \<and> (if uint u < 2 ^ 31
        then e = None \<and> cfg_int c' path = Inr (uint u) \<and> cfg_is_uint c' path = Inr True
          \<and> w = Some (cfg_host_file c, emit_node (cfg_host_root c'))
          \<and> (\<exists>n. find_path path (cfg_host_root c') = Inr n \<and> get_uint n = Inr u)
        else (\<exists>n. e = Some (Config_node (Value_error n))) \<and> w = None
          \<and> cfg_host_root c' = cfg_host_root c)"
proof -
  let ?ps = "str_split (CHR ''/'') path" and ?cf = "convert_float env"
  let ?s = "\<lambda>t. set_value ?cf path (dec_str (unat u)) t"
  let ?v = "\<lambda>t. value_setter ?cf path (dec_str (unat u)) (node_at t ?ps)"
  have w1: "\<not> has_children (node_at t ?ps)" "node_type (node_at t ?ps) \<noteq> Type_SEQUENCE"
    if "t \<in> {cfg_root c, cfg_host_root c}" for t
    using that assms(2,3) by (auto simp: writable_def Let_def)
  have s: "find_path path (fst (?s t)) = Inr (fst (?v t))" "snd (?s t) = snd (?v t)" for t
    using set_value_at [OF refl assms(1)] by blast+
  have root: "cfg_root c' = fst (?s (cfg_root c))"
    using assms(5) by (auto simp: cfg_set_uint_def set_both_def write_host_file_def Let_def
        split: prod.splits option.splits if_splits)
  note v = value_setter_uint [OF w1, where cf = ?cf and path = path and u = u]
  let ?n = "fst (?v (cfg_root c))"
  have leaf: "leaf_node c' path = Inr ?n"
    using s(1) [of "cfg_root c"] v(2) [of "cfg_root c"] by (intro leaf_node_eq) (simp_all add: root)
  have n: "node_type ?n \<noteq> Type_SEQUENCE" "scalar_value ?n = dec_str (unat u)"
    using v(1,4) [of "cfg_root c"] w1 [of "cfg_root c"] by simp_all
  have uint: "cfg_uint c' path = Inr u"
    using leaf n by (simp add: cfg_uint_def get_value_as_def get_value_def integer_text_spec)
  show ?thesis
  proof (cases "uint u < 2 ^ 31")
    case True
    then have none: "snd (?s (cfg_root c)) = None" "snd (?s (cfg_host_root c)) = None"
      using v(3) [of "cfg_root c"] v(3) [of "cfg_host_root c"] by (simp_all add: s(2))
    then have res: "c' = c\<lparr>cfg_root := fst (?s (cfg_root c)), cfg_host_root := fst (?s (cfg_host_root c))\<rparr>"
      "e = None" "w = Some (cfg_host_file c, emit_node (cfg_host_root c'))"
      using assms(4,5) by (auto simp: cfg_set_uint_def set_both_def write_host_file_def Let_def
          split: prod.splits)
    have "cfg_int c' path = Inr (uint u)"
      using leaf n True by (simp add: cfg_int_def get_value_as_def get_value_def integer_text_spec)
    moreover have "cfg_is_uint c' path = Inr True"
      using leaf n True by (simp add: cfg_is_uint_def is_type_def get_value_def integer_text_spec)
    moreover have "\<exists>m. find_path path (cfg_host_root c') = Inr m \<and> get_uint m = Inr u"
      using s(1) [of "cfg_host_root c"] v(1,4) [of "cfg_host_root c"] True
      by (simp add: res(1) get_uint_def get_value_def integer_text_spec)
    ultimately show ?thesis using uint True res(2,3) by simp
  next
    case False
    then have "snd (?s (cfg_root c)) = Some (Value_error (node_name (node_at (cfg_root c) ?ps)))"
      using v(3) [of "cfg_root c"] by (simp add: s(2))
    then have "e = Some (Config_node (Value_error (node_name (node_at (cfg_root c) ?ps))))" "w = None"
      "cfg_host_root c' = cfg_host_root c"
      using assms(5) by (auto simp: cfg_set_uint_def set_both_def split: prod.splits)
    with uint False show ?thesis by simp
  qed
qed

definition demo_config :: yaml_config where
  "demo_config = \<lparr>cfg_file = ''/main'', cfg_host_file = ''/host'', cfg_root = demo_tree,
     cfg_host_root = root_node\<rparr>"

theorem uint_written_is_read_witness:
  "\<exists>c' w e. cfg_set_uint demo_env ''mps/name'' 7 demo_config = (c', w, e)
     \<and> cfg_uint c' ''mps/name'' = Inr 7 \<and> e = None"
proof -
  obtain c' w e where r: "cfg_set_uint demo_env ''mps/name'' 7 demo_config = (c', w, e)"
    by (cases "cfg_set_uint demo_env ''mps/name'' 7 demo_config")
  have "writable ''mps/name'' (cfg_root demo_config)" "writable ''mps/name'' (cfg_host_root demo_config)"
    by (simp_all add: writable_def demo_path node_at_def demo_config_def demo_tree_def root_node_def
        child_def has_children_def new_node_def)
  then show ?thesis
    using uint_written_is_read [OF _ _ _ _ r] r demo_path by (simp add: demo_config_def)
qed

end
