(* ===== verification/ConfigRead.thy ===== *)
theory ConfigRead
  imports YamlConfigProps
begin

text \<open>
  What \<open>read_config_doc\<close> makes of a document, and what becomes of a tree that is written to the
  host file and read again.
\<close>

section \<open>Plain documents\<close>

text \<open>Keys that are single parts of a path, each once in a map.\<close>

fun plain :: "ynode \<Rightarrow> bool" where
  "plain (Y_Map kvs) \<longleftrightarrow> distinct (map fst kvs)
     \<and> (\<forall>e\<in>set kvs. part_ok (fst e) \<and> fst e \<noteq> ''root'' \<and> plain (snd e))"
| "plain _ \<longleftrightarrow> True"

primrec ylookup :: "ynode \<Rightarrow> string list \<Rightarrow> ynode option" where
  "ylookup y [] = Some y"
| "ylookup y (k # q) = (case y of
     Y_Map kvs \<Rightarrow> (case map_of kvs k of None \<Rightarrow> None | Some v \<Rightarrow> ylookup v q) | _ \<Rightarrow> None)"

text \<open>The node for a place of the document: its type, text and list, without the children.\<close>

definition node_matches :: "yaml_env \<Rightarrow> ynode \<Rightarrow> cnode \<Rightarrow> bool" where
  "node_matches env y c \<longleftrightarrow> scalar_value c = y_text y \<and> (case y of
     Y_Null \<Rightarrow> node_type c = Type_NONE
   | Y_Scalar _ s \<Rightarrow> determine_scalar_type (convert_float env)
       (CNode (node_name c) Type_UNKNOWN s [] [] False) = Inr (node_type c)
   | Y_Sequence ys \<Rightarrow> node_type c = Type_SEQUENCE \<and> all_strings (as_string env) ys = Some (list_values c)
   | Y_Map _ \<Rightarrow> node_type c = Type_MAP)"

definition reads_as :: "yaml_env \<Rightarrow> ynode \<Rightarrow> cnode \<Rightarrow> bool" where
  "reads_as env y c \<longleftrightarrow> (\<forall>q. rel_option (node_matches env) (ylookup y q) (lookup c q))"

lemma key_path_part: "part_ok k \<Longrightarrow> key_path k = [k]"
  by (simp add: key_path_def part_ok_def)

lemma no_root_add_child:
  assumes "no_root c" and "no_root i" and "k \<noteq> ''root''" and "tree_ok i"
  shows "no_root (add_child k c i)"
proof -
  have "map_ok (children i)" using assms(4) by (simp add: tree_ok_iff [of i])
  from set_map_put [OF this] have s: "set (map_put k c (children i))
      = insert (k, c) {e \<in> set (children i). fst e \<noteq> k}" .
  have "children (add_child k c i) = map_put k c (children i)" by (simp add: add_child_def)
  with s assms(1-3) show ?thesis
    by (subst no_root_iff) (auto simp: no_root_iff [of i])
qed

lemma reads_as_leaf:
  assumes "node_matches env y c" and "children c = []" and "\<forall>kvs. y \<noteq> Y_Map kvs"
  shows "reads_as env y c"
  unfolding reads_as_def
proof
  fix q
  show "rel_option (node_matches env) (ylookup y q) (lookup c q)"
    using assms by (cases q) (auto simp: child_def split: ynode.split)
qed

lemma reads_as_map:
  assumes "node_matches env (Y_Map kvs) c"
    and "\<And>k. case map_of kvs k of None \<Rightarrow> child c k = None
      | Some v \<Rightarrow> \<exists>d. child c k = Some d \<and> reads_as env v d"
  shows "reads_as env (Y_Map kvs) c"
  unfolding reads_as_def
proof
  fix q
  show "rel_option (node_matches env) (ylookup (Y_Map kvs) q) (lookup c q)"
  proof (cases q)
    case Nil
    with assms(1) show ?thesis by simp
  next
    case (Cons k r)
    with assms(2) [of k] show ?thesis by (auto simp: reads_as_def split: option.splits)
  qed
qed

text \<open>The node that the constructor makes, for everything but a map the final one.\<close>

lemma node_of_yaml_simps:
  assumes "node_of_yaml env key y = Inr tmp"
  shows "node_name tmp = key" and "children tmp = []" and "tree_ok tmp" and "no_root tmp"
    and "node_matches env y tmp"
proof -
  show name: "node_name tmp = key" and kids: "children tmp = []"
    using assms by (auto simp: node_of_yaml_def Let_def and_then_Inr_iff split: ynode.splits option.splits)
  then show "tree_ok tmp" "no_root tmp" by (simp_all add: tree_ok_iff [of tmp] no_root_iff [of tmp])
  show "node_matches env y tmp"
    using assms by (auto simp: node_of_yaml_def node_matches_def y_text_def Let_def and_then_Inr_iff
        split: ynode.splits option.splits)
qed

lemma read_correct:
  shows "plain y \<Longrightarrow> node_of_yaml env key y = Inr tmp \<Longrightarrow> read_config_doc env y tmp = (c, None) \<Longrightarrow>
      tree_ok c \<and> no_root c \<and> node_name c = key \<and> reads_as env y c"
    and "plain (Y_Map kvs) \<Longrightarrow> tree_ok i \<Longrightarrow> no_root i \<Longrightarrow> \<not> is_scalar i \<Longrightarrow>
      (\<And>k. k \<in> fst ` set kvs \<Longrightarrow> child i k = None) \<Longrightarrow> read_entries env kvs i = (c, None) \<Longrightarrow>
      tree_ok c \<and> no_root c \<and> node_name c = node_name i \<and> scalar_value c = scalar_value i
      \<and> (node_type c = Type_MAP \<or> kvs = [] \<and> c = i)
      \<and> (\<forall>k. case map_of kvs k of None \<Rightarrow> child c k = child i k
          | Some v \<Rightarrow> \<exists>d. child c k = Some d \<and> reads_as env v d)"
proof (induction env y tmp and env kvs i arbitrary: key c and c
    rule: read_config_doc_read_entries.induct)
  case (1 env kvs tmp)
  note tmp = node_of_yaml_simps [OF "1.prems"(2)]
  have t: "node_type tmp = Type_MAP"
    using tmp(5) by (simp add: node_matches_def)
  then have ns: "\<not> is_scalar tmp" by (simp add: is_scalar_def)
  have none: "child tmp k = None" for k using tmp(2) by (simp add: child_def)
  have "read_entries env kvs tmp = (c, None)" using "1.prems"(3) by simp
  from "1.IH" [OF "1.prems"(1) tmp(3,4) ns none this]
  have c: "tree_ok c" "no_root c" "node_name c = node_name tmp" "scalar_value c = scalar_value tmp"
    "node_type c = Type_MAP \<or> kvs = [] \<and> c = tmp"
    "\<And>k. case map_of kvs k of None \<Rightarrow> child c k = child tmp k
        | Some v \<Rightarrow> \<exists>d. child c k = Some d \<and> reads_as env v d"
    by blast+
  have "node_matches env (Y_Map kvs) c"
    using c(4,5) t tmp(5) by (auto simp: node_matches_def)
  then have "reads_as env (Y_Map kvs) c"
  proof (rule reads_as_map)
    show "case map_of kvs k of None \<Rightarrow> child c k = None
      | Some v \<Rightarrow> \<exists>d. child c k = Some d \<and> reads_as env v d" for k
      using c(6) [of k] by (simp only: none)
  qed
  with c tmp(1) show ?case by simp
next
  case (2 env tag s tmp)
  note tmp = node_of_yaml_simps [OF "2.prems"(2)]
  have "c = tmp" using "2.prems"(3) by simp
  with tmp show ?case by (simp add: reads_as_leaf)
next
  case (3 env tmp)
  note tmp = node_of_yaml_simps [OF "3.prems"(2)]
  have "c = tmp" using "3.prems"(3) by simp
  with tmp show ?case by (simp add: reads_as_leaf)
next
  case (4 env ys tmp)
  note tmp = node_of_yaml_simps [OF "4.prems"(2)]
  have "c = tmp" using "4.prems"(3) by simp
  with tmp show ?case by (simp add: reads_as_leaf)
next
  case (5 env i)
  then show ?case by simp
next
  case (6 env k v kvs i)
  have k: "part_ok k" "k \<noteq> ''root''" "plain v" "plain (Y_Map kvs)" "k \<notin> fst ` set kvs"
    using "6.prems"(1) by auto
  have free: "child i k = None" using "6.prems"(5) by simp
  have pel: "key_path k = [k]" "[k] \<noteq> []" by (simp_all add: key_path_part k(1))
  define fresh where "fresh = and_then (node_of_yaml env k v) (\<lambda>tmp. Inr (read_config_doc env v tmp))"
  have run: "(case place_value env k v fresh i of
      (node, Some e) \<Rightarrow> (node, Some e) | (node, None) \<Rightarrow> read_entries env kvs node) = (c, None)"
    using "6.prems"(6) by (simp add: pel fresh_def Let_def)
  obtain tmp where tmp: "node_of_yaml env k v = Inr tmp"
    using run free by (cases "node_of_yaml env k v") (auto simp: fresh_def place_value_def)
  obtain d e where de: "read_config_doc env v tmp = (d, e)" by (cases "read_config_doc env v tmp")
  have e: "e = None" and rest: "read_entries env kvs (add_child k d i) = (c, None)"
    using run free by (auto simp: fresh_def place_value_def tmp de split: option.splits)
  have d: "tree_ok d" "no_root d" "node_name d = k" "reads_as env v d"
    using "6.IH"(1) [OF refl _ k(3), of k] tmp de e pel by auto
  let ?j = "add_child k d i"
  have j: "tree_ok ?j" "no_root ?j" "\<not> is_scalar ?j"
    using tree_ok_add_child [OF "6.prems"(2) d(1,3) k(1)]
      no_root_add_child [OF d(2) "6.prems"(3) k(2) "6.prems"(2)] by (simp_all add: is_scalar_def)
  have jk: "child ?j k' = None" if "k' \<in> fst ` set kvs" for k'
    using that "6.prems"(5) [of k'] k(5) by auto
  have IH: "tree_ok c \<and> no_root c \<and> node_name c = node_name ?j \<and> scalar_value c = scalar_value ?j
      \<and> (node_type c = Type_MAP \<or> kvs = [] \<and> c = ?j)
      \<and> (\<forall>k. case map_of kvs k of None \<Rightarrow> child c k = child ?j k
          | Some v \<Rightarrow> \<exists>d. child c k = Some d \<and> reads_as env v d)"
  proof (rule "6.IH"(2) [OF refl _ refl _ _ k(4) j jk rest])
    show "key_path k \<noteq> []" by (simp add: pel)
    show "(?j, None) = find_or_insert (butlast (key_path k)) (place_value env (last (key_path k)) v
        (and_then (node_of_yaml env (last (key_path k)) v) (\<lambda>tmp. Inr (read_config_doc env v tmp)))) i"
      by (simp add: pel place_value_def free tmp de e)
  qed simp_all
  have "case map_of ((k, v) # kvs) k' of None \<Rightarrow> child c k' = child i k'
      | Some v \<Rightarrow> \<exists>d. child c k' = Some d \<and> reads_as env v d" for k'
  proof (cases "k' = k")
    case True
    have "map_of kvs k = None" using k(5) by (simp add: map_of_eq_None_iff)
    moreover have "case map_of kvs k of None \<Rightarrow> child c k = child ?j k
        | Some v \<Rightarrow> \<exists>d. child c k = Some d \<and> reads_as env v d" using IH by blast
    ultimately have "child c k = Some d" by simp
    with d(4) show ?thesis by (simp add: True)
  next
    case False
    have "child ?j k' = child i k'" using False by simp
    moreover have "case map_of kvs k' of None \<Rightarrow> child c k' = child ?j k'
        | Some v \<Rightarrow> \<exists>d. child c k' = Some d \<and> reads_as env v d" using IH by blast
    moreover have "map_of ((k, v) # kvs) k' = map_of kvs k'" using False by simp
    ultimately show ?thesis by (simp only:)
  qed
  moreover have "node_type c = Type_MAP" using IH by auto
  ultimately show ?case using IH by simp
qed

lemma document_read:
  assumes "plain (Y_Map kvs)" and "read_document env (Y_Map kvs) = Inr n"
  shows "tree_ok n \<and> no_root n \<and> node_name n = ''root''
    \<and> (\<forall>q. q \<noteq> [] \<longrightarrow> rel_option (node_matches env) (ylookup (Y_Map kvs) q) (lookup n q))"
proof -
  let ?r = "new_node ''root''"
  have run: "read_entries env kvs ?r = (n, None)"
    using assms(2) by (auto simp: read_document_def split: prod.splits option.splits)
  have r: "tree_ok ?r" "no_root ?r" "\<not> is_scalar ?r" "child ?r k = None" for k
    by (simp_all add: tree_ok_new no_root_iff [of ?r] is_scalar_def)
  note N = read_correct(2) [OF assms(1) r(1-3) r(4) run]
  have n: "tree_ok n" "no_root n" "node_name n = ''root''" using N by simp_all
  have kids: "case map_of kvs k of None \<Rightarrow> child n k = None
      | Some v \<Rightarrow> \<exists>d. child n k = Some d \<and> reads_as env v d" for k
  proof -
    have "case map_of kvs k of None \<Rightarrow> child n k = child ?r k
        | Some v \<Rightarrow> \<exists>d. child n k = Some d \<and> reads_as env v d" using N by blast
    then show ?thesis by (simp only: r(4))
  qed
  have "rel_option (node_matches env) (ylookup (Y_Map kvs) q) (lookup n q)" if "q \<noteq> []" for q
  proof (cases q)
    case Nil
    with that show ?thesis by simp
  next
    case (Cons k p)
    with kids [of k] show ?thesis by (auto simp: reads_as_def split: option.splits)
  qed
  with n show ?thesis by blast
qed

text \<open>
  C10 Reading a document whose keys are single parts of paths, each once in its map: if nothing is
  thrown the tree is well formed, it has a node at a path exactly if the document has one there,
  and this node has the text, the list and the type of that place.
\<close>

theorem document_is_read:
  assumes "plain (Y_Map kvs)" and "read_document env (Y_Map kvs) = Inr n"
  shows "tree_ok n \<and> no_root n \<and> node_name n = ''root''
    \<and> (\<forall>q. q \<noteq> [] \<longrightarrow> rel_option (node_matches env) (ylookup (Y_Map kvs) q) (lookup n q))"
  using assms by (rule document_read)

definition demo_doc :: ynode where
  "demo_doc = Y_Map [(''mps'', Y_Map [(''name'', Y_Scalar [] ''C-BS''),
     (''ports'', Y_Sequence [Y_Scalar [] ''4840'', Y_Scalar [] ''4841''])])]"

theorem document_is_read_witness:
  "\<exists>n c. read_document demo_env demo_doc = Inr n \<and> lookup n [''mps'', ''name''] = Some c
     \<and> scalar_value c = ''C-BS''"
proof -
  let ?kvs = "[(''mps'', Y_Map [(''name'', Y_Scalar [] ''C-BS''),
     (''ports'', Y_Sequence [Y_Scalar [] ''4840'', Y_Scalar [] ''4841''])])]"
  have p: "plain (Y_Map ?kvs)" by (simp add: part_ok_def)
  have "case read_document demo_env demo_doc of Inl _ \<Rightarrow> False | Inr _ \<Rightarrow> True" by code_simp
  then obtain n where n: "read_document demo_env (Y_Map ?kvs) = Inr n"
    by (auto simp: demo_doc_def split: sum.splits)
  have "ylookup (Y_Map ?kvs) [''mps'', ''name''] = Some (Y_Scalar [] ''C-BS'')" by simp
  then have "rel_option (node_matches demo_env) (Some (Y_Scalar [] ''C-BS'')) (lookup n [''mps'', ''name''])"
    using document_is_read [OF p n] by (metis list.distinct(1))
  then obtain c where "lookup n [''mps'', ''name''] = Some c" "scalar_value c = ''C-BS''"
    by (auto simp: option_rel_Some1 node_matches_def y_text_def)
  with n show ?thesis unfolding demo_doc_def by blast
qed

text \<open>
  A scalar that is written to a path that has become an inner node turns it into a scalar with
  children; the overlay then drops them.
\<close>

lemma scalar_over_map_loses_children:
  "let doc = Y_Map [(''a/b'', Y_Scalar [] ''x''), (''a'', Y_Scalar [] ''y'')]
   in case read_document demo_env doc of
        Inl _ \<Rightarrow> False
      | Inr n \<Rightarrow> lookup n [''a'', ''b''] \<noteq> None
          \<and> lookup (fst (merge_node no_float root_node n)) [''a'', ''b''] = None"
  by code_simp

section \<open>Ports\<close>

lemma read_single:
  assumes "part_ok k"
  shows "read_document env (Y_Map [(k, Y_Scalar t s)]) =
    (case node_of_yaml env k (Y_Scalar t s) of Inl e \<Rightarrow> Inl e
     | Inr c \<Rightarrow> (case check_scalar env t s c of Some e \<Rightarrow> Inl e
         | None \<Rightarrow> Inr (add_child k c (new_node ''root''))))"
  by (simp add: read_document_def key_path_part [OF assms] place_value_def
      split: sum.splits option.splits prod.splits)

lemma determine_uint:
  "node_type n \<noteq> Type_SEQUENCE \<Longrightarrow> convert_uint (scalar_value n) = Some p \<Longrightarrow>
   determine_scalar_type cf n = (case convert_int (scalar_value n) of
     None \<Rightarrow> Inl (Value_error (node_name n))
   | Some v \<Rightarrow> Inr (if 0 \<le> v then Type_UINT32 else Type_INT32))"
  by (auto simp: determine_scalar_type_def is_type_def get_int_def get_value_def split: option.split)

text \<open>
  A port: a value with the tag of a port is read only if it is an unsigned number from 1 to
  65534, and then it is read as that number. A number that is no port is refused as out of range;
  this includes 65535, the greatest port there is.
\<close>

theorem port_is_checked:
  assumes "part_ok k" and "t \<in> {''tag:fawkesrobotics.org,cfg/tcp-port'', ''tag:fawkesrobotics.org,cfg/udp-port''}"
  shows "case read_document env (Y_Map [(k, Y_Scalar t s)]) of
      Inr n \<Rightarrow> \<exists>p c. convert_uint s = Some p \<and> 1 \<le> uint p \<and> uint p \<le> 65534
        \<and> lookup n [k] = Some c \<and> get_uint c = Inr p
    | Inl e \<Rightarrow> \<forall>p. convert_uint s = Some p \<and> convert_int s \<noteq> None \<longrightarrow>
        e = Port_range p \<and> (uint p = 0 \<or> 65535 \<le> uint p)"
proof -
  let ?n = "CNode k Type_UNKNOWN s [] [] False"
  have check: "check_scalar env t s c = (case get_uint c of Inl e \<Rightarrow> Some (Port_error e)
      | Inr p \<Rightarrow> if uint p \<le> 0 \<or> 65535 \<le> uint p then Some (Port_range p) else None)" for c
    using assms(2) by (auto simp: check_scalar_def split: sum.split)
  show ?thesis
  proof (cases "determine_scalar_type (convert_float env) ?n")
    case (Inl e)
    then have "node_of_yaml env k (Y_Scalar t s) = Inl (Node_error e)"
      by (simp add: node_of_yaml_def y_text_def)
    moreover have "\<not> (convert_uint s = Some p \<and> convert_int s \<noteq> None)" for p
      using Inl determine_uint [of ?n p "convert_float env"] by (cases "convert_int s") auto
    ultimately show ?thesis by (simp add: read_single [OF assms(1)])
  next
    case (Inr ty)
    let ?c = "with_type ty ?n"
    have ty: "ty \<noteq> Type_SEQUENCE" using determine_cases [OF Inr] by auto
    have node: "node_of_yaml env k (Y_Scalar t s) = Inr ?c"
      using Inr by (simp add: node_of_yaml_def y_text_def)
    have g: "get_uint ?c = (case convert_uint s of None \<Rightarrow> Inl (Value_error k) | Some p \<Rightarrow> Inr p)"
      using ty by (simp add: get_uint_def get_value_def split: option.split)
    show ?thesis
    proof (cases "convert_uint s")
      case None
      then show ?thesis using g by (simp add: read_single [OF assms(1)] node check)
    next
      case (Some p)
      have "uint p \<noteq> 0 \<longrightarrow> 1 \<le> uint p" using uint_ge_0 [of p] by linarith
      then show ?thesis using g Some
        by (simp add: read_single [OF assms(1)] node check)
    qed
  qed
qed

theorem port_is_checked_witness:
  "\<exists>n c. read_document demo_env (Y_Map [(''port'', Y_Scalar ''tag:fawkesrobotics.org,cfg/tcp-port'' ''4840'')]) = Inr n
     \<and> lookup n [''port''] = Some c \<and> get_uint c = Inr 4840"
proof -
  let ?d = "Y_Map [(''port'', Y_Scalar ''tag:fawkesrobotics.org,cfg/tcp-port'' ''4840'')]"
  have "dec_str (unat (4840 :: u32)) = ''4840''" by (simp add: dec_str.simps char_of_def bit_0)
  then have u: "convert_uint ''4840'' = Some 4840" "convert_int ''4840'' \<noteq> None"
    using integer_text_spec(1,2) [of 4840] by simp_all
  have "part_ok ''port''" by (simp add: part_ok_def)
  from port_is_checked [OF this, where t = "''tag:fawkesrobotics.org,cfg/tcp-port''"
      and env = demo_env and s = "''4840''"] u
  show ?thesis by (cases "read_document demo_env ?d") auto
qed

section \<open>The host file\<close>

text \<open>The document that \<open>emit\<close> writes.\<close>

function (sequential) doc_entries :: "(string \<times> cnode) list \<Rightarrow> (string \<times> ynode) list" where
  "doc_entries [] = []"
| "doc_entries ((k, c) # cs) =
     (k, if has_children c then Y_Map (doc_entries (children c)) else Y_Scalar [] (scalar_value c))
     # doc_entries cs"
  by pat_completeness auto
termination
  by (relation "measure (size_list (size_prod (\<lambda>_. 0) size))")
    (simp_all add: children_size_le less_Suc_eq_le)

fun tokens :: "ynode \<Rightarrow> emitted list" where
  "tokens (Y_Map kvs) = BeginMap # concat (map (\<lambda>(k, v). Key k # tokens v) kvs) @ [EndMap]"
| "tokens (Y_Scalar t s) = [Value s]"
| "tokens _ = []"

lemma emit_children_tokens:
  "emit_children cs = concat (map (\<lambda>(k, v). Key k # tokens v) (doc_entries cs))"
proof (induction cs rule: doc_entries.induct)
  case 1
  then show ?case by simp
next
  case (2 k c cs)
  then show ?case by (cases "has_children c") simp_all
qed

lemma map_of_doc_entries:
  "map_of (doc_entries cs) k = map_option (\<lambda>c. if has_children c then Y_Map (doc_entries (children c))
     else Y_Scalar [] (scalar_value c)) (map_of cs k)"
  by (induction cs rule: doc_entries.induct) auto

lemma doc_entries_keys: "map fst (doc_entries cs) = map fst cs"
  by (induction cs rule: doc_entries.induct) auto

lemma plain_doc_entries:
  assumes "mergeable cs"
  shows "plain (Y_Map (doc_entries cs))"
  using assms
proof (induction cs rule: doc_entries.induct)
  case 1
  then show ?case by simp
next
  case (2 k c cs)
  have m: "mergeable cs" "part_ok k" "k \<noteq> ''root''" "tree_ok c" "no_root c" "map_ok ((k, c) # cs)"
    using "2.prems" by (auto simp: mergeable_def)
  have "plain (if has_children c then Y_Map (doc_entries (children c)) else Y_Scalar [] (scalar_value c))"
    using "2.IH"(1) mergeable_children [OF m(4,5)] by simp
  moreover have "k \<notin> fst ` set (doc_entries cs)"
    using map_ok_distinct [OF m(6)] doc_entries_keys [of cs] by (metis distinct.simps(2) fst_conv list.simps(9) set_map)
  ultimately show ?case using "2.IH"(2) [OF m(1)] m(2,3) by simp
qed

lemma ylookup_doc_entries:
  "ylookup (if has_children c then Y_Map (doc_entries (children c)) else Y_Scalar [] (scalar_value c)) q
   = map_option (\<lambda>d. if has_children d then Y_Map (doc_entries (children d)) else Y_Scalar [] (scalar_value d))
       (lookup c q)"
proof (induction q arbitrary: c)
  case Nil
  then show ?case by simp
next
  case (Cons k q)
  show ?case
  proof (cases "has_children c")
    case True
    with Cons show ?thesis
      by (simp add: map_of_doc_entries map_of_children split: option.split)
  next
    case False
    then have "child c k = None" by (simp add: has_children_def child_def)
    with False show ?thesis by simp
  qed
qed

text \<open>
  A host tree that is written and read again: the calls to the emitter are those for the
  document of the tree, and from this document the same leaves are read with the same texts. A
  list is written as an empty text, so it comes back as no list and without its elements.
\<close>

theorem host_file_roundtrip:
  assumes "tree_ok h" and "no_root h" and "has_children h"
    and "read_document env (Y_Map (doc_entries (children h))) = Inr h'"
  shows "emit_node h = tokens (Y_Map (doc_entries (children h))) \<and> tree_ok h'
    \<and> (\<forall>q. ((\<exists>c. leaf_at h q c) \<longleftrightarrow> (\<exists>c'. leaf_at h' q c'))
      \<and> (\<forall>c c'. leaf_at h q c \<and> leaf_at h' q c' \<longrightarrow>
           scalar_value c' = scalar_value c \<and> node_type c' \<noteq> Type_SEQUENCE))"
proof -
  let ?y = "\<lambda>d. if has_children d then Y_Map (doc_entries (children d)) else Y_Scalar [] (scalar_value d)"
  have "plain (Y_Map (doc_entries (children h)))"
    using plain_doc_entries mergeable_children [OF assms(1,2)] by blast
  from document_read [OF this assms(4)] have h': "tree_ok h'"
    and r: "\<And>q. q \<noteq> [] \<Longrightarrow> rel_option (node_matches env) (map_option ?y (lookup h q)) (lookup h' q)"
    using ylookup_doc_entries [of h] assms(3) by (simp, metis (mono_tags, lifting))
  have there: "lookup h q = None \<longleftrightarrow> lookup h' q = None" if "q \<noteq> []" for q
    using r [OF that] by (cases "lookup h q"; cases "lookup h' q") simp_all
  have kids: "has_children d \<longleftrightarrow> has_children d'" if "q \<noteq> []" "lookup h q = Some d" "lookup h' q = Some d'" for q d d'
  proof -
    have "lookup h (q @ [k]) = child d k" "lookup h' (q @ [k]) = child d' k" for k
      using that(2,3) by (simp_all add: lookup_append split: option.split)
    with there [of "q @ [_]"] show ?thesis unfolding has_children_iff
      by (metis append_is_Nil_conv not_Cons_self2 not_None_eq)
  qed
  have leafs: "(\<exists>c. leaf_at h q c) \<longleftrightarrow> (\<exists>c'. leaf_at h' q c')" for q
    using there [of q] kids [of q] by (auto simp: leaf_at_def)
  have "scalar_value c' = scalar_value c \<and> node_type c' \<noteq> Type_SEQUENCE"
    if "leaf_at h q c" "leaf_at h' q c'" for q c c'
  proof -
    have "node_matches env (Y_Scalar [] (scalar_value c)) c'"
      using r [of q] that by (simp add: leaf_at_def)
    then show ?thesis using determine_cases by (force simp: node_matches_def y_text_def)
  qed
  moreover have "emit_node h = tokens (Y_Map (doc_entries (children h)))"
    using assms(3) by (simp add: emit_children_tokens)
  ultimately show ?thesis using h' leafs by blast
qed

definition host_tree :: cnode where
  "host_tree = CNode ''root'' Type_MAP [] [(''speed'', CNode ''speed'' Type_UINT32 ''3'' [] [] False)] [] False"

theorem host_file_roundtrip_witness:
  "\<exists>h'. read_document demo_env (Y_Map (doc_entries (children host_tree))) = Inr h'
     \<and> (\<exists>c'. leaf_at h' [''speed''] c' \<and> scalar_value c' = ''3'')"
proof -
  have ok: "tree_ok host_tree" "no_root host_tree" "has_children host_tree"
    by (simp_all add: host_tree_def part_ok_def is_scalar_def has_children_def)
  have "case read_document demo_env (Y_Map (doc_entries (children host_tree))) of Inl _ \<Rightarrow> False | Inr _ \<Rightarrow> True"
    by code_simp
  then obtain h' where h': "read_document demo_env (Y_Map (doc_entries (children host_tree))) = Inr h'"
    by (auto split: sum.splits)
  have leaf: "leaf_at host_tree [''speed''] (CNode ''speed'' Type_UINT32 ''3'' [] [] False)"
    by (simp add: leaf_at_def host_tree_def child_def has_children_def)
  note R = host_file_roundtrip [OF ok h']
  from R leaf obtain c' where c': "leaf_at h' [''speed''] c'" by blast
  with R leaf have "scalar_value c' = ''3''" by (metis cnode.sel(3))
  with c' h' show ?thesis by blast
qed

text \<open>A list in the host tree is written as an empty text.\<close>

lemma list_is_written_empty:
  "emit_node (CNode ''root'' Type_MAP [] [(''l'', CNode ''l'' Type_SEQUENCE [] [] [''1'', ''2''] False)] [] False)
   = [BeginMap, Key ''l'', Value [], EndMap]"
  by (simp add: has_children_def)

end
