(* ===== verification/ConfigIterator.thy ===== *)
theory ConfigIterator
  imports ConfigRead
begin

text \<open>
  \<open>YamlConfiguration::YamlValueIterator\<close> and the three operations of the configuration that
  return one. The nodes are the pairs of a \<open>std::map\<close> in their order; \<open>current\<close> counts up to
  their number, which is \<open>end()\<close>.
\<close>

record value_iterator =
  first :: bool
  nodes :: "(string \<times> cnode) list"
  current :: nat

definition iterator_new :: "(string \<times> cnode) list \<Rightarrow> value_iterator" where
  "iterator_new ns = \<lparr>first = True, nodes = ns, current = length ns\<rparr>"

text \<open>Incrementing the end iterator is undefined.\<close>

definition it_next :: "value_iterator \<Rightarrow> (value_iterator \<times> bool) option" where
  "it_next it =
     (if first it
      then let it = it\<lparr>first := False, current := 0\<rparr>
           in Some (it, current it \<noteq> length (nodes it))
      else if current it = length (nodes it) then None
      else let it = it\<lparr>current := current it + 1\<rparr>
           in Some (it, current it \<noteq> length (nodes it)))"

definition it_valid :: "value_iterator \<Rightarrow> bool" where
  "it_valid it \<longleftrightarrow> current it \<noteq> length (nodes it)"

text \<open>Every access to the current value first checks that there is one.\<close>

definition at_current :: "value_iterator \<Rightarrow> (string \<times> cnode \<Rightarrow> config_error + 'a) \<Rightarrow> config_error + 'a" where
  "at_current it f = (if current it = length (nodes it) then Inl Invalid_iterator
     else f (nodes it ! current it))"

definition it_path :: "value_iterator \<Rightarrow> config_error + string" where
  "it_path it = at_current it (\<lambda>(p, _). Inr p)"

definition it_type :: "value_iterator \<Rightarrow> config_error + string" where
  "it_type it = at_current it (\<lambda>(_, n). Inr (type_to_string (node_type n)))"

definition it_is_float :: "yaml_env \<Rightarrow> value_iterator \<Rightarrow> config_error + bool" where
  "it_is_float env it = at_current it (\<lambda>(_, n). Inr (is_type (convert_float env) n))"

definition it_is_uint :: "value_iterator \<Rightarrow> config_error + bool" where
  "it_is_uint it = at_current it (\<lambda>(_, n). Inr (is_type convert_uint n))"

definition it_is_int :: "value_iterator \<Rightarrow> config_error + bool" where
  "it_is_int it = at_current it (\<lambda>(_, n). Inr (is_type convert_int n))"

definition it_is_bool :: "value_iterator \<Rightarrow> config_error + bool" where
  "it_is_bool it = at_current it (\<lambda>(_, n). Inr (is_type convert_bool n))"

definition it_is_string :: "value_iterator \<Rightarrow> config_error + bool" where
  "it_is_string it = at_current it (\<lambda>(_, n). Inr (is_type convert_string n))"

definition it_is_list :: "value_iterator \<Rightarrow> config_error + bool" where
  "it_is_list it = at_current it (\<lambda>(_, n). Inr (node_type n = Type_SEQUENCE))"

definition it_get_list_size :: "value_iterator \<Rightarrow> config_error + nat" where
  "it_get_list_size it = at_current it (\<lambda>(_, n).
     if node_type n \<noteq> Type_SEQUENCE then Inl (Config_node (Not_a_list (node_name n)))
     else map_error Config_node (get_list_size n))"

definition it_get :: "(string \<Rightarrow> 'v option) \<Rightarrow> value_iterator \<Rightarrow> config_error + 'v" where
  "it_get conv it = at_current it (\<lambda>(_, n). map_error Config_node (get_value conv n))"

definition it_gets :: "(string \<Rightarrow> 'v option) \<Rightarrow> value_iterator \<Rightarrow> config_error + 'v list" where
  "it_gets conv it = at_current it (\<lambda>(_, n). map_error Config_node (get_list conv n))"

definition it_get_float where "it_get_float env it = it_get (convert_float env) it"
definition it_get_uint where "it_get_uint it = it_get convert_uint it"
definition it_get_int where "it_get_int it = it_get convert_int it"
definition it_get_bool where "it_get_bool it = it_get convert_bool it"
definition it_get_string where "it_get_string it = it_get convert_string it"
definition it_get_floats where "it_get_floats env it = it_gets (convert_float env) it"
definition it_get_uints where "it_get_uints it = it_gets convert_uint it"
definition it_get_ints where "it_get_ints it = it_gets convert_int it"
definition it_get_bools where "it_get_bools it = it_gets convert_bool it"
definition it_get_strings where "it_get_strings it = it_gets convert_string it"

definition it_get_as_string :: "yaml_env \<Rightarrow> value_iterator \<Rightarrow> config_error + string" where
  "it_get_as_string env it = at_current it (\<lambda>(_, n).
     map_error Config_node
       (if node_type n = Type_SEQUENCE then get_list_as_string (convert_float env) n
        else get_value convert_string n))"

definition it_is_default :: "value_iterator \<Rightarrow> config_error + bool" where
  "it_is_default it = at_current it (\<lambda>(_, n). Inr (is_default n))"

section \<open>The operations that return an iterator\<close>

definition cfg_get_value :: "yaml_config \<Rightarrow> string \<Rightarrow> value_iterator" where
  "cfg_get_value c path =
     (case find_path path (cfg_root c) of
        Inl _ \<Rightarrow> iterator_new []
      | Inr n \<Rightarrow> if has_children n then iterator_new [] else iterator_new [(path, n)])"

definition cfg_iterator :: "yaml_config \<Rightarrow> value_iterator" where
  "cfg_iterator c = iterator_new (enum_leafs (cfg_root c))"

definition cfg_search :: "yaml_config \<Rightarrow> string \<Rightarrow> value_iterator" where
  "cfg_search c path =
     (let tmp_path = (if path \<noteq> [] \<and> last path = CHR ''/'' then butlast path else path)
      in case find_path tmp_path (cfg_root c) of
           Inl _ \<Rightarrow> iterator_new []
         | Inr n \<Rightarrow> iterator_new (enum_children tmp_path (children n) []))"

section \<open>Iteration\<close>

text \<open>\<open>while (i->next()) visit(i->path(), ...)\<close>, with as many rounds as fuel.\<close>

fun visit :: "nat \<Rightarrow> value_iterator \<Rightarrow> (string \<times> cnode) list option" where
  "visit 0 it = None"
| "visit (Suc fuel) it =
     (case it_next it of
        None \<Rightarrow> None
      | Some (it, False) \<Rightarrow> Some []
      | Some (it, True) \<Rightarrow> map_option (\<lambda>vs. nodes it ! current it # vs) (visit fuel it))"

lemma visit_from:
  "\<not> first it \<Longrightarrow> length (nodes it) - current it = Suc k \<Longrightarrow>
   visit (Suc k) it = Some (drop (Suc (current it)) (nodes it))"
proof (induction k arbitrary: it)
  case 0
  from "0.prems"(2) have len: "length (nodes it) = Suc (current it)" by simp
  show ?case by (simp add: it_next_def Let_def "0.prems"(1) len)
next
  case (Suc k)
  let ?it = "it\<lparr>current := current it + 1\<rparr>"
  have lt: "current it + 1 < length (nodes it)" using Suc.prems(2) by simp
  have "visit (Suc k) ?it = Some (drop (Suc (current it + 1)) (nodes it))"
    using Suc.IH [of ?it] Suc.prems by simp
  moreover have "drop (Suc (current it)) (nodes it)
      = nodes it ! (current it + 1) # drop (Suc (current it + 1)) (nodes it)"
    using lt by (simp add: Cons_nth_drop_Suc)
  ultimately show ?case
    using Suc.prems lt by (subst visit.simps) (simp add: it_next_def Let_def del: visit.simps)
qed

lemma visit_all: "visit (length ns + 1) (iterator_new ns) = Some ns"
proof (cases ns)
  case Nil
  then show ?thesis by (simp add: iterator_new_def it_next_def Let_def)
next
  case (Cons e es)
  let ?it = "\<lparr>first = False, nodes = ns, current = 0\<rparr>"
  have "visit (Suc (length es)) ?it = Some es"
    using visit_from [of ?it "length es"] by (simp add: Cons)
  then show ?thesis
    by (subst Suc_eq_plus1 [symmetric], subst visit.simps)
      (simp add: Cons iterator_new_def it_next_def Let_def del: visit.simps)
qed

text \<open>
  The loop over an iterator visits every value of the map once, in the order of the paths, and
  then stops. Over the whole configuration these are its leaves; for a single path it is the value
  there, or nothing when there is none, never an exception.
\<close>

theorem iteration_is_complete:
  assumes "tree_ok (cfg_root c)"
  shows "visit (length ns + 1) (iterator_new ns) = Some ns
    \<and> (\<exists>vs. visit (length vs + 1) (cfg_iterator c) = Some vs \<and> sorted_wrt (<) (map fst vs)
        \<and> (\<forall>p d. (p, d) \<in> set vs \<longleftrightarrow> (\<exists>q. p = path_string q \<and> leaf_at (cfg_root c) q d)))
    \<and> visit 2 (cfg_get_value c path) = Some (case leaf_node c path of Inl _ \<Rightarrow> [] | Inr n \<Rightarrow> [(path, n)])"
proof -
  let ?vs = "enum_leafs (cfg_root c)"
  have ok: "map_ok ?vs" and leafs: "map_of ?vs p = Some d \<longleftrightarrow> (\<exists>q. p = path_string q \<and> leaf_at (cfg_root c) q d)" for p d
    using enum_leafs_spec [OF assms] by blast+
  have "(p, d) \<in> set ?vs \<longleftrightarrow> map_of ?vs p = Some d" for p d
    using map_of_eq_Some_iff [OF map_ok_distinct [OF ok]] by simp
  then have "visit (length ?vs + 1) (cfg_iterator c) = Some ?vs \<and> sorted_wrt (<) (map fst ?vs)
      \<and> (\<forall>p d. (p, d) \<in> set ?vs \<longleftrightarrow> (\<exists>q. p = path_string q \<and> leaf_at (cfg_root c) q d))"
    using ok leafs visit_all [of ?vs] by (simp add: cfg_iterator_def map_ok_def)
  moreover have "visit 2 (cfg_get_value c path) = Some (case leaf_node c path of Inl _ \<Rightarrow> [] | Inr n \<Rightarrow> [(path, n)])"
  proof -
    have "visit 2 (iterator_new []) = Some ([] :: (string \<times> cnode) list)"
      "visit 2 (iterator_new [(path, n)]) = Some [(path, n)]" for n
      by (simp_all add: numeral_2_eq_2 iterator_new_def it_next_def Let_def)
    then show ?thesis
      by (simp add: cfg_get_value_def leaf_node_def split: sum.split)
  qed
  ultimately show ?thesis using visit_all by blast
qed

theorem iteration_is_complete_witness:
  "\<exists>vs. visit (length vs + 1) (cfg_iterator demo_config) = Some vs
     \<and> (''/mps/name'', CNode ''name'' Type_STRING ''C-BS'' [] [] False) \<in> set vs"
proof -
  have root: "cfg_root demo_config = demo_tree" by (simp add: demo_config_def)
  then have "tree_ok (cfg_root demo_config)" by (simp add: demo_tree_ok)
  from iteration_is_complete [OF this, THEN conjunct2, THEN conjunct1] obtain vs where
    all: "visit (length vs + 1) (cfg_iterator demo_config) = Some vs"
    and mem: "\<forall>p d. (p, d) \<in> set vs \<longleftrightarrow> (\<exists>q. p = path_string q \<and> leaf_at demo_tree q d)"
    unfolding root by blast
  have p: "path_string [''mps'', ''name''] = ''/mps/name''" by (simp add: path_string_def)
  have "(''/mps/name'', CNode ''name'' Type_STRING ''C-BS'' [] [] False) \<in> set vs"
    using mem [rule_format, THEN iffD2] p [symmetric] demo_leaf by blast
  with all show ?thesis by blast
qed

end
