(* ===== verification/PbFrame.thy ===== *)
theory PbFrame
  imports KeyMap "HOL-Library.Product_Lexorder"
begin

unbundle bit_operations_syntax

text \<open>
  \<open>libs/protobuf_comm/frame_header.h\<close>, \<open>queue_entry.h\<close> and \<open>message_register.cpp\<close>: the headers of a
  message on the wire and the register that finds the type of an incoming message. A field in
  network byte order is the list of its bytes in memory. Google's protobuf library is a parameter.
\<close>

type_synonym u8 = "8 word"

section \<open>Byte order\<close>

definition htons :: "u16 \<Rightarrow> u8 list" where
  "htons w = [ucast (drop_bit 8 w), ucast w]"

definition htonl :: "u32 \<Rightarrow> u8 list" where
  "htonl w = [ucast (drop_bit 24 w), ucast (drop_bit 16 w), ucast (drop_bit 8 w), ucast w]"

definition ntohs :: "u8 list \<Rightarrow> u16" where
  "ntohs bs = foldl (\<lambda>w b. push_bit 8 w OR ucast b) 0 bs"

definition ntohl :: "u8 list \<Rightarrow> u32" where
  "ntohl bs = foldl (\<lambda>w b. push_bit 8 w OR ucast b) 0 bs"

lemma ntohs_htons [simp]: "ntohs (htons w) = w"
  unfolding ntohs_def htons_def
  by (rule bit_word_eqI) (auto simp: bit_simps)

lemma ntohl_htonl [simp]: "ntohl (htonl w) = w"
proof (rule bit_word_eqI)
  fix n assume n: "n < LENGTH(32)"
  then have d: "n - 8 < 8 \<longleftrightarrow> n < 16" "n - 16 < 8 \<longleftrightarrow> n < 24" "n - 24 < 8 \<longleftrightarrow> n < 32"
    "n - 8 < 32" "n - 16 < 32" "n - 24 < 32" by auto
  consider "n < 8" | "8 \<le> n" "n < 16" | "16 \<le> n" "n < 24" | "24 \<le> n" by linarith
  then show "bit (ntohl (htonl w)) n \<longleftrightarrow> bit w n"
    using n d by cases (simp_all add: ntohl_def htonl_def bit_simps)
qed

lemma length_hton [simp]: "length (htons v) = 2" "length (htonl w) = 4"
  by (simp_all add: htons_def htonl_def)

section \<open>Headers\<close>

datatype frame_version = PB_FRAME_V1 | PB_FRAME_V2

definition version_byte :: "frame_version \<Rightarrow> u8" where
  "version_byte v = (case v of PB_FRAME_V1 \<Rightarrow> 1 | PB_FRAME_V2 \<Rightarrow> 2)"

definition PB_ENCRYPTION_NONE :: u8 where "PB_ENCRYPTION_NONE = 0"

record frame_header =
  header_version :: u8
  cipher :: u8
  reserved_2 :: u8
  reserved_3 :: u8
  payload_size :: "u8 list"

record message_header =
  component_id :: "u8 list"
  msg_type :: "u8 list"

record frame_header_v1 =
  v1_component_id :: "u8 list"
  v1_msg_type :: "u8 list"
  v1_payload_size :: "u8 list"

text \<open>The structures are packed, so their bytes are those of their fields.\<close>

definition fh_bytes :: "frame_header \<Rightarrow> u8 list" where
  "fh_bytes h = [header_version h, cipher h, reserved_2 h, reserved_3 h] @ payload_size h"

definition mh_bytes :: "message_header \<Rightarrow> u8 list" where
  "mh_bytes h = component_id h @ msg_type h"

definition v1_bytes :: "frame_header_v1 \<Rightarrow> u8 list" where
  "v1_bytes h = v1_component_id h @ v1_msg_type h @ v1_payload_size h"

definition fh_of :: "u8 list \<Rightarrow> frame_header" where
  "fh_of bs = \<lparr>header_version = bs ! 0, cipher = bs ! 1, reserved_2 = bs ! 2, reserved_3 = bs ! 3,
     payload_size = take 4 (drop 4 bs)\<rparr>"

definition mh_of :: "u8 list \<Rightarrow> message_header" where
  "mh_of bs = \<lparr>component_id = take 2 bs, msg_type = take 2 (drop 2 bs)\<rparr>"

definition v1_of :: "u8 list \<Rightarrow> frame_header_v1" where
  "v1_of bs = \<lparr>v1_component_id = take 2 bs, v1_msg_type = take 2 (drop 2 bs),
     v1_payload_size = take 4 (drop 4 bs)\<rparr>"

definition sizeof_frame_header :: nat where "sizeof_frame_header = 8"
definition sizeof_message_header :: nat where "sizeof_message_header = 4"
definition sizeof_frame_header_v1 :: nat where "sizeof_frame_header_v1 = 8"

lemma headers_back:
  "length (payload_size h) = 4 \<Longrightarrow> fh_of (fh_bytes h @ r) = h"
  "length (component_id m) = 2 \<Longrightarrow> length (msg_type m) = 2 \<Longrightarrow> mh_of (mh_bytes m @ r) = m"
  "length (v1_component_id v) = 2 \<Longrightarrow> length (v1_msg_type v) = 2 \<Longrightarrow> length (v1_payload_size v) = 4 \<Longrightarrow>
   v1_of (v1_bytes v @ r) = v"
  by (simp_all add: fh_of_def fh_bytes_def mh_of_def mh_bytes_def v1_of_def v1_bytes_def)

section \<open>The protobuf library\<close>

text \<open>
  What the code asks of it. A message knows its type's full name and the values of its enumeration
  \<open>CompType\<close>, if there is one. \<open>pb_parse m bs n\<close> is \<open>ParseFromArray(data, n)\<close> on a message of the type
  of \<open>m\<close>, where \<open>bs\<close> are the bytes from \<open>data\<close> on that it may read.
\<close>

datatype serialized = Serialized "u8 list" | Not_serialized | Fatal string

record 'm protobuf =
  pb_name :: "'m \<Rightarrow> string"
  pb_comp_type :: "'m \<Rightarrow> (string \<times> int) list option"
  pb_new :: "'m \<Rightarrow> 'm"
  pb_serialize :: "'m \<Rightarrow> serialized"
  pb_parse :: "'m \<Rightarrow> u8 list \<Rightarrow> int \<Rightarrow> 'm option"
  pb_generated :: "string \<Rightarrow> 'm option"
  pb_imported :: "string \<Rightarrow> 'm option"

datatype pb_error =
    Already_registered u16 u16
  | Unknown_message_type
  | No_comp_type
  | No_comp_values
  | Invalid_comp_id
  | Invalid_msg_type
  | Not_registered u16 u16
  | Name_not_registered
  | Serialize_fatal string
  | Cannot_serialize
  | Parse_failed
  | Import_failed
  | Not_connected
  | No_such_client
  | Message_too_big
  | Crypto_needs_v2
  | Unknown_cipher
  | Crypto_failed string
  | Buffer_overrun

text \<open>The two kinds of exceptions of the code.\<close>

definition is_logic_error :: "pb_error \<Rightarrow> bool" where
  "is_logic_error e \<longleftrightarrow> e \<in> {No_comp_type, No_comp_values, Invalid_comp_id, Invalid_msg_type}"

section \<open>The register\<close>

record 'm message_register =
  message_by_comp_type :: "((u16 \<times> u16) \<times> 'm) list"
  message_by_typename :: "(string \<times> 'm) list"
  has_importer :: bool
  failed_to_load_types :: "(string \<times> pb_error) list"

definition MessageRegister_new :: "'m message_register" where
  "MessageRegister_new = \<lparr>message_by_comp_type = [], message_by_typename = [], has_importer = False,
     failed_to_load_types = []\<rparr>"

definition key_from_desc :: "'m protobuf \<Rightarrow> 'm \<Rightarrow> pb_error + u16 \<times> u16" where
  "key_from_desc pb m =
     (case pb_comp_type pb m of
        None \<Rightarrow> Inl No_comp_type
      | Some enum \<Rightarrow>
          (case (map_of enum ''COMP_ID'', map_of enum ''MSG_TYPE'') of
             (Some comp_id, Some typ) \<Rightarrow>
               if comp_id < 0 \<or> comp_id > 65535 then Inl Invalid_comp_id
               else if typ < 0 \<or> typ > 65535 then Inl Invalid_msg_type
               else Inr (word_of_int comp_id, word_of_int typ)
           | _ \<Rightarrow> Inl No_comp_values))"

definition create_msg :: "'m protobuf \<Rightarrow> string \<Rightarrow> 'm message_register \<Rightarrow> 'm option" where
  "create_msg pb name r =
     (case pb_generated pb name of
        Some m \<Rightarrow> Some (pb_new pb m)
      | None \<Rightarrow> if has_importer r then map_option (pb_new pb) (pb_imported pb name) else None)"

definition register_msg ::
    "'m protobuf \<Rightarrow> u16 \<times> u16 \<Rightarrow> 'm \<Rightarrow> 'm message_register \<Rightarrow> pb_error + 'm message_register" where
  "register_msg pb key m r =
     (if map_of (message_by_comp_type r) key \<noteq> None then Inl (Already_registered (fst key) (snd key))
      else Inr (r\<lparr>message_by_comp_type := map_put key m (message_by_comp_type r),
                  message_by_typename := map_put (pb_name pb m) m (message_by_typename r)\<rparr>))"

definition add_message_type ::
    "'m protobuf \<Rightarrow> string \<Rightarrow> 'm message_register \<Rightarrow> pb_error + 'm message_register" where
  "add_message_type pb name r =
     (case create_msg pb name r of
        None \<Rightarrow> Inl Unknown_message_type
      | Some m \<Rightarrow> and_then (key_from_desc pb m) (\<lambda>key. register_msg pb key m r))"

text \<open>The two templates; \<open>m\<close> is a new message of the template's type.\<close>

definition add_message_type_as ::
    "'m protobuf \<Rightarrow> 'm \<Rightarrow> u16 \<Rightarrow> u16 \<Rightarrow> 'm message_register \<Rightarrow> pb_error + 'm message_register" where
  "add_message_type_as pb m component typ r = register_msg pb (component, typ) m r"

definition add_message_type_of ::
    "'m protobuf \<Rightarrow> 'm \<Rightarrow> 'm message_register \<Rightarrow> pb_error + 'm message_register" where
  "add_message_type_of pb m r = and_then (key_from_desc pb m) (\<lambda>key. register_msg pb key m r)"

definition remove_message_type ::
    "'m protobuf \<Rightarrow> u16 \<Rightarrow> u16 \<Rightarrow> 'm message_register \<Rightarrow> 'm message_register" where
  "remove_message_type pb component typ r =
     (case map_of (message_by_comp_type r) (component, typ) of
        None \<Rightarrow> r
      | Some m \<Rightarrow> r\<lparr>message_by_typename := map_del (pb_name pb m) (message_by_typename r),
                    message_by_comp_type := map_del (component, typ) (message_by_comp_type r)\<rparr>)"

text \<open>
  The constructor with paths: the files of the readable directories in order, each with the
  messages it declares and whether they have a \<open>CompType\<close>. A file that cannot be imported gives a
  null descriptor, which is then dereferenced (\<open>Import_failed\<close>). Only the logic errors of a
  registration are caught.
\<close>

fun load_messages ::
    "'m protobuf \<Rightarrow> (string \<times> bool) list \<Rightarrow> 'm message_register \<Rightarrow> pb_error + 'm message_register" where
  "load_messages pb [] r = Inr r"
| "load_messages pb ((name, has_comp_type) # ms) r =
     (if \<not> has_comp_type then load_messages pb ms r
      else case add_message_type pb name r of
             Inr r \<Rightarrow> load_messages pb ms r
           | Inl e \<Rightarrow> if is_logic_error e
               then load_messages pb ms
                      (r\<lparr>failed_to_load_types := failed_to_load_types r @ [(name, e)]\<rparr>)
               else Inl e)"

fun load_files ::
    "'m protobuf \<Rightarrow> (string \<Rightarrow> bool) \<Rightarrow> (string \<Rightarrow> (string \<times> bool) list option) \<Rightarrow> string list
      \<Rightarrow> 'm message_register \<Rightarrow> pb_error + 'm message_register" where
  "load_files pb is_proto imp [] r = Inr r"
| "load_files pb is_proto imp (f # fs) r =
     (if is_proto f
      then (case imp f of None \<Rightarrow> Inl Import_failed
            | Some ms \<Rightarrow> and_then (load_messages pb ms r) (load_files pb is_proto imp fs))
      else load_files pb is_proto imp fs r)"

fun load_dirs ::
    "'m protobuf \<Rightarrow> (string \<Rightarrow> bool) \<Rightarrow> (string \<Rightarrow> (string \<times> bool) list option)
      \<Rightarrow> (string \<Rightarrow> string list option) \<Rightarrow> string list \<Rightarrow> 'm message_register
      \<Rightarrow> pb_error + 'm message_register" where
  "load_dirs pb is_proto imp opendir [] r = Inr r"
| "load_dirs pb is_proto imp opendir (d # ds) r =
     (case opendir d of
        None \<Rightarrow> load_dirs pb is_proto imp opendir ds r
      | Some fs \<Rightarrow> and_then (load_files pb is_proto imp fs r) (load_dirs pb is_proto imp opendir ds))"

definition MessageRegister_paths where
  "MessageRegister_paths pb is_proto imp opendir proto_path =
     load_dirs pb is_proto imp opendir proto_path (MessageRegister_new\<lparr>has_importer := True\<rparr>)"

definition new_message_for ::
    "'m protobuf \<Rightarrow> u16 \<Rightarrow> u16 \<Rightarrow> 'm message_register \<Rightarrow> pb_error + 'm" where
  "new_message_for pb component typ r =
     (case map_of (message_by_comp_type r) (component, typ) of
        None \<Rightarrow> Inl (Not_registered component typ) | Some m \<Rightarrow> Inr (pb_new pb m))"

definition new_message_for_name :: "'m protobuf \<Rightarrow> string \<Rightarrow> 'm message_register \<Rightarrow> pb_error + 'm" where
  "new_message_for_name pb name r =
     (case map_of (message_by_typename r) name of
        Some m \<Rightarrow> Inr (pb_new pb m)
      | None \<Rightarrow> (case create_msg pb name r of Some m \<Rightarrow> Inr m | None \<Rightarrow> Inl Name_not_registered))"

text \<open>\<open>serialize\<close> fills the payload size of the frame header, the message header and the data.\<close>

definition serialize ::
    "'m protobuf \<Rightarrow> u16 \<Rightarrow> u16 \<Rightarrow> 'm \<Rightarrow> frame_header \<Rightarrow> pb_error + frame_header \<times> message_header \<times> u8 list" where
  "serialize pb component typ m fh =
     (case pb_serialize pb m of
        Fatal w \<Rightarrow> Inl (Serialize_fatal w)
      | Not_serialized \<Rightarrow> Inl Cannot_serialize
      | Serialized data \<Rightarrow>
          Inr (fh\<lparr>payload_size := htonl (word_of_nat (sizeof_message_header + length data))\<rparr>,
               \<lparr>component_id = htons component, msg_type = htons typ\<rparr>, data))"

text \<open>
  \<open>deserialize\<close>: the size is an unsigned 64-bit difference that becomes an \<open>int\<close> argument; the data
  are the memory from the pointer on.
\<close>

definition data_size :: "frame_header \<Rightarrow> int" where
  "data_size fh = sint (ucast (ucast (ntohl (payload_size fh)) - (4 :: 64 word)) :: 32 word)"

definition deserialize ::
    "'m protobuf \<Rightarrow> 'm message_register \<Rightarrow> frame_header \<Rightarrow> message_header \<Rightarrow> (nat \<Rightarrow> u8) \<Rightarrow> pb_error + 'm" where
  "deserialize pb r fh mh data =
     and_then (new_message_for pb (ntohs (component_id mh)) (ntohs (msg_type mh)) r) (\<lambda>m.
       case pb_parse pb m (map data [0..<nat (data_size fh)]) (data_size fh) of
         None \<Rightarrow> Inl Parse_failed | Some m \<Rightarrow> Inr m)"

text \<open>The size of the data that the sender announced.\<close>

lemma ucast_minus_4: "(ucast (ucast (w :: 32 word) - (4 :: 64 word)) :: 32 word) = w - 4"
proof (rule word_uint_eqI)
  have "uint w < 2 ^ 32" using uint_lt2p [of w] by simp
  then have "uint (ucast w :: 64 word) = uint w" by (simp add: unsigned_ucast_eq take_bit_eq_mod)
  then have "uint (ucast w - (4 :: 64 word)) = (uint w - 4) mod 2 ^ 64"
    by (simp add: uint_word_ariths(2))
  then show "uint (ucast (ucast w - (4 :: 64 word)) :: 32 word) = uint (w - 4)"
    by (simp add: unsigned_ucast_eq take_bit_eq_mod uint_word_ariths(2) mod_mod_cancel)
qed

lemma sint_of_nat: "n < 2 ^ 31 \<Longrightarrow> sint (word_of_nat n :: 32 word) = int n"
  by (simp add: sint_uint unat_of_nat uint_nat signed_take_bit_int_eq_self)

lemma data_size_eq:
  assumes "payload_size fh = htonl (word_of_nat (sizeof_message_header + n))" and "n < 2 ^ 31"
  shows "data_size fh = int n"
proof -
  have "ntohl (payload_size fh) - 4 = (word_of_nat n :: u32)"
    by (simp add: assms(1) sizeof_message_header_def)
  then show ?thesis using sint_of_nat [OF assms(2)] by (simp add: data_size_def ucast_minus_4)
qed

text \<open>
  What a receiver makes of the data of a frame, and what it needs of the library: a parsed message
  depends on the announced bytes only.
\<close>

definition parsed :: "'m protobuf \<Rightarrow> 'm message_register \<Rightarrow> u16 \<Rightarrow> u16 \<Rightarrow> u8 list \<Rightarrow> pb_error + 'm" where
  "parsed pb r cid typ data =
     and_then (new_message_for pb cid typ r) (\<lambda>m.
       case pb_parse pb m data (int (length data)) of None \<Rightarrow> Inl Parse_failed | Some m \<Rightarrow> Inr m)"

lemma deserialize_parsed:
  assumes "payload_size fh = htonl (word_of_nat (sizeof_message_header + length ds))"
    and "length ds < 2 ^ 31" and "\<And>i. i < length ds \<Longrightarrow> data i = ds ! i"
    and "component_id mh = htons cid" and "msg_type mh = htons typ"
  shows "deserialize pb r fh mh data = parsed pb r cid typ ds"
proof -
  have "map data [0..<length ds] = ds" by (rule nth_equalityI) (simp_all add: assms(3))
  then show ?thesis
    by (simp add: deserialize_def parsed_def data_size_eq [OF assms(1,2)] assms(4,5))
qed

text \<open>A frame that announces less than a message header, and the size that the parser is then given.\<close>

lemma data_size_small:
  assumes "ntohl (payload_size fh) = word_of_nat n" and "n < 4"
  shows "data_size fh = int n - 4"
proof -
  have e: "data_size fh = sint (ntohl (payload_size fh) - 4)" by (simp only: data_size_def ucast_minus_4)
  from assms(2) consider "n = 0" | "n = 1" | "n = 2" | "n = 3" by linarith
  then show ?thesis by cases (simp_all add: e assms(1))
qed

text \<open>A type with two keys: after one is removed, the name finds neither.\<close>

lemma remove_second_key:
  assumes "map_ok (message_by_comp_type r)" and "k \<noteq> k'"
    and "register_msg pb k m r = Inr r'" and "register_msg pb k' m r' = Inr r''"
  shows "map_of (message_by_typename (remove_message_type pb (fst k') (snd k') r'')) (pb_name pb m) = None
    \<and> map_of (message_by_comp_type (remove_message_type pb (fst k') (snd k') r'')) k = Some m"
  using assms by (auto simp: register_msg_def remove_message_type_def map_of_put map_of_del split: if_splits)

section \<open>Outgoing entries\<close>

text \<open>
  The reserved bytes of the header are never written, so they are arbitrary; the other fields are
  before they are used.
\<close>

record queue_entry =
  qe_serialized :: "u8 list"
  qe_frame :: frame_header
  qe_frame_v1 :: frame_header_v1
  qe_message :: message_header
  qe_buffers :: "u8 list list"

definition QueueEntry_new :: "u8 \<times> u8 \<Rightarrow> queue_entry" where
  "QueueEntry_new junk = \<lparr>qe_serialized = [],
     qe_frame = \<lparr>header_version = version_byte PB_FRAME_V2, cipher = PB_ENCRYPTION_NONE,
                 reserved_2 = fst junk, reserved_3 = snd junk, payload_size = [0, 0, 0, 0]\<rparr>,
     qe_frame_v1 = \<lparr>v1_component_id = [0, 0], v1_msg_type = [0, 0], v1_payload_size = [0, 0, 0, 0]\<rparr>,
     qe_message = \<lparr>component_id = [0, 0], msg_type = [0, 0]\<rparr>, qe_buffers = []\<rparr>"

end
