(* ===== verification/PbStream.thy ===== *)
theory PbStream
  imports PbFrame
begin

text \<open>
  What the stream client and the sessions of the stream server have in common: an asynchronous read
  that asks for a number of bytes, a buffer that grows, and two contracts. \<open>stream_receiver\<close> says
  what a sequence of frames does to a receiver, however it is cut into pieces, and
  \<open>ordered_writer\<close> that a queue with one write in flight keeps the order of the messages.
\<close>

datatype pending_read = No_read | Read_header nat | Read_body nat

text \<open>An error code of the input and output library; no error is \<open>None\<close>.\<close>

type_synonym error_code = "string option"

text \<open>Storing the bytes read at the front of a buffer.\<close>

definition fill :: "u8 list \<Rightarrow> (nat \<Rightarrow> u8) \<Rightarrow> nat \<Rightarrow> u8" where
  "fill bs buf = (\<lambda>i. if i < length bs then bs ! i else buf i)"

lemma map_fill: "n + k \<le> length bs \<Longrightarrow> map (\<lambda>i. fill bs buf (i + k)) [0..<n] = take n (drop k bs)"
  by (rule nth_equalityI) (simp_all add: fill_def add.commute)

lemma map_fill_0: "n \<le> length bs \<Longrightarrow> map (fill bs buf) [0..<n] = take n bs"
  using map_fill [of n 0 bs buf] by simp

section \<open>Receiving frames\<close>

locale stream_receiver =
  fixes recv :: "u8 \<Rightarrow> 's \<Rightarrow> 's"
    and idle :: "'s \<Rightarrow> bool"
    and heard :: "'s \<Rightarrow> 'd list"
    and carries :: "'s \<Rightarrow> u8 list \<Rightarrow> 'd \<Rightarrow> bool"
  assumes frame_idle: "idle s \<Longrightarrow> carries s f d \<Longrightarrow> idle (fold recv f s)"
    and frame_heard: "idle s \<Longrightarrow> carries s f d \<Longrightarrow> heard (fold recv f s) = heard s @ [d]"
    and frame_carries: "idle s \<Longrightarrow> carries s f d \<Longrightarrow> carries (fold recv f s) = carries s"
    and part_heard: "idle s \<Longrightarrow> carries s f d \<Longrightarrow> strict_prefix p f \<Longrightarrow> heard (fold recv p s) = heard s"
begin

lemma frames:
  "idle s \<Longrightarrow> list_all2 (carries s) fs ds \<Longrightarrow>
   idle (fold recv (concat fs) s) \<and> heard (fold recv (concat fs) s) = heard s @ ds
   \<and> carries (fold recv (concat fs) s) = carries s"
proof (induction fs arbitrary: ds s)
  case Nil
  then show ?case by simp
next
  case (Cons f fs)
  then obtain d es where ds: "ds = d # es" "carries s f d" "list_all2 (carries s) fs es"
    by (auto simp: list_all2_Cons1)
  let ?s = "fold recv f s"
  have "list_all2 (carries ?s) fs es" using ds(3) by (simp add: frame_carries [OF Cons.prems(1) ds(2)])
  from Cons.IH [OF frame_idle [OF Cons.prems(1) ds(2)] this] show ?case
    using Cons.prems(1) ds by (simp add: frame_heard frame_carries)
qed

text \<open>A stream that ends within a frame.\<close>

lemma frames_cut:
  assumes "idle s" and "list_all2 (carries s) fs ds" and "carries s f d" and "strict_prefix p f"
  shows "heard (fold recv (concat fs @ p) s) = heard s @ ds"
  using frames [OF assms(1,2)] part_heard [of "fold recv (concat fs) s" f d p] assms(3,4) by simp

text \<open>It does not matter how the bytes are cut into pieces.\<close>

lemma pieces:
  assumes "concat ps = concat fs"
  shows "fold (fold recv) ps s = fold recv (concat fs) s"
proof -
  have "fold (fold recv) ps s = fold recv (concat ps) s" by (induction ps arbitrary: s) simp_all
  then show ?thesis by (simp add: assms)
qed

end

section \<open>Writing in order\<close>

locale ordered_writer =
  fixes inv :: "'s \<Rightarrow> bool"
    and put :: "'e \<Rightarrow> 's \<Rightarrow> 's"
    and completed :: "'s \<Rightarrow> 's"
    and active :: "'s \<Rightarrow> bool"
    and flight :: "'s \<Rightarrow> 'e option"
    and waiting :: "'s \<Rightarrow> 'e list"
    and started :: "'s \<Rightarrow> 'e list"
  assumes put_inv: "inv s \<Longrightarrow> inv (put e s)"
    and completed_inv: "inv s \<Longrightarrow> inv (completed s)"
    and put_active: "inv s \<Longrightarrow> active s \<Longrightarrow> active (put e s) \<and> flight (put e s) = flight s
      \<and> waiting (put e s) = waiting s @ [e] \<and> started (put e s) = started s"
    and put_passive: "inv s \<Longrightarrow> \<not> active s \<Longrightarrow> waiting s = [] \<Longrightarrow> active (put e s)
      \<and> flight (put e s) = Some e \<and> waiting (put e s) = [] \<and> started (put e s) = started s @ [e]"
    and completed_next: "inv s \<Longrightarrow> active s \<Longrightarrow> waiting s = e # es \<Longrightarrow> active (completed s)
      \<and> flight (completed s) = Some e \<and> waiting (completed s) = es
      \<and> started (completed s) = started s @ [e]"
    and completed_last: "inv s \<Longrightarrow> waiting s = [] \<Longrightarrow> \<not> active (completed s)
      \<and> flight (completed s) = None \<and> waiting (completed s) = [] \<and> started (completed s) = started s"
begin

text \<open>One step: a message to send, or the write in flight ends.\<close>

definition wstep :: "'e option \<Rightarrow> 's \<Rightarrow> 's" where
  "wstep x s = (case x of Some e \<Rightarrow> put e s | None \<Rightarrow> if flight s = None then s else completed s)"

definition wok :: "'s \<Rightarrow> bool" where
  "wok s \<longleftrightarrow> inv s \<and> (active s \<longleftrightarrow> flight s \<noteq> None) \<and> (\<not> active s \<longrightarrow> waiting s = [])"

lemma wok_step: "wok s \<Longrightarrow> wok (wstep x s)"
  using put_inv [of s] completed_inv [of s] put_active [of s] put_passive [of s] completed_next [of s]
    completed_last [of s]
  by (cases "waiting s") (auto simp: wok_def wstep_def split: option.splits)

lemma wstep_content:
  "wok s \<Longrightarrow> started (wstep x s) @ waiting (wstep x s)
     = started s @ waiting s @ (case x of Some e \<Rightarrow> [e] | None \<Rightarrow> [])"
  using put_active [of s] put_passive [of s] completed_next [of s] completed_last [of s]
  by (cases "waiting s"; cases "active s") (auto simp: wok_def wstep_def split: option.splits)

lemma in_order:
  "wok s \<Longrightarrow> wok (fold wstep xs s) \<and>
     started (fold wstep xs s) @ waiting (fold wstep xs s)
     = started s @ waiting s @ List.map_filter (\<lambda>x. x) xs"
proof (induction xs arbitrary: s)
  case Nil
  then show ?case by (simp add: map_filter_simps)
next
  case (Cons x xs)
  have "started (wstep x s) @ waiting (wstep x s) @ ys
      = started s @ waiting s @ (case x of Some e \<Rightarrow> [e] | None \<Rightarrow> []) @ ys" for ys
    using arg_cong [OF wstep_content [OF Cons.prems, of x], of "\<lambda>zs. zs @ ys"] by simp
  with Cons.IH [OF wok_step [OF Cons.prems]] show ?case
    by (cases x) (simp_all add: map_filter_simps)
qed

text \<open>Every message in the queue is written when enough writes end.\<close>

lemma drained:
  "wok s \<Longrightarrow> started (fold wstep (replicate (length (waiting s)) None) s) = started s @ waiting s
     \<and> waiting (fold wstep (replicate (length (waiting s)) None) s) = []"
proof (induction "waiting s" arbitrary: s)
  case Nil
  then show ?case by (metis append_Nil2 fold_simps(1) list.size(3) replicate_0)
next
  case (Cons e es)
  have "flight s \<noteq> None" using Cons.hyps(2) Cons.prems by (auto simp: wok_def)
  then have st: "wstep None s = completed s" by (auto simp: wstep_def)
  have "inv s" "active s" using Cons.hyps(2) Cons.prems by (auto simp: wok_def)
  note n = completed_next [OF this Cons.hyps(2) [symmetric]]
  from Cons.hyps(1) [of "completed s"] n wok_step [OF Cons.prems, of None] show ?case
    by (simp add: st Cons.hyps(2) [symmetric])
qed

end

end
