(* ===== verification/PbClient.thy ===== *)
theory PbClient
  imports PbStream
begin

text \<open>
  \<open>libs/protobuf_comm/client.cpp\<close>, class \<open>ProtobufStreamClient\<close>. The handlers are those of the
  asynchronous operations; what the socket does is an event. The bytes of the server arrive one
  after the other, and a read ends when it has its bytes. The trace holds the signals and the writes
  in the order in which they begin.
\<close>

datatype 'm client_effect =
    Resolve string u16
  | Connect
  | Sig_connected
  | Sig_disconnected error_code
  | Sig_rcvd u16 u16 'm
  | Sig_recv_failed u16 u16 pb_error
  | Write_start queue_entry

record 'm client =
  cl_register :: "'m message_register"
  cl_version :: frame_version
  cl_connected :: bool
  cl_socket_open :: bool
  cl_outbound_active :: bool
  cl_outbound_queue :: "queue_entry list"
  cl_in_flight :: "queue_entry option"
  cl_in_frame_header :: "u8 list"
  cl_in_data_size :: nat
  cl_in_data :: "nat \<Rightarrow> u8"
  cl_pending :: pending_read
  cl_got :: "u8 list"
  cl_trace :: "'m client_effect list"

text \<open>What is not initialised: the buffers and the reserved bytes of headers.\<close>

record junk =
  junk_data :: "nat \<Rightarrow> u8"
  junk_reserved :: "u8 \<times> u8"

definition Client_new :: "junk \<Rightarrow> 'm message_register \<Rightarrow> frame_version \<Rightarrow> 'm client" where
  "Client_new j r v = \<lparr>cl_register = r, cl_version = v, cl_connected = False, cl_socket_open = False,
     cl_outbound_active = False, cl_outbound_queue = [], cl_in_flight = None, cl_in_frame_header = [],
     cl_in_data_size = 1024, cl_in_data = junk_data j, cl_pending = No_read, cl_got = [], cl_trace = []\<rparr>"

definition cl_emit :: "'m client_effect \<Rightarrow> 'm client \<Rightarrow> 'm client" where
  "cl_emit e c = c\<lparr>cl_trace := cl_trace c @ [e]\<rparr>"

definition in_frame_header_size :: "'m client \<Rightarrow> nat" where
  "in_frame_header_size c =
     (if cl_version c = PB_FRAME_V1 then sizeof_frame_header_v1 else sizeof_frame_header)"

section \<open>Connecting\<close>

definition async_connect :: "string \<Rightarrow> u16 \<Rightarrow> 'm client \<Rightarrow> 'm client" where
  "async_connect host port c = cl_emit (Resolve host port) c"

definition disconnect_nosig :: "'m client \<Rightarrow> 'm client" where
  "disconnect_nosig c = c\<lparr>cl_socket_open := False, cl_connected := False\<rparr>"

definition disconnect :: "'m client \<Rightarrow> 'm client" where
  "disconnect c = cl_emit (Sig_disconnected None) (disconnect_nosig c)"

text \<open>A connection attempt opens the socket.\<close>

definition handle_resolve :: "error_code \<Rightarrow> 'm client \<Rightarrow> 'm client" where
  "handle_resolve err c =
     (case err of
        None \<Rightarrow> cl_emit Connect (c\<lparr>cl_socket_open := True\<rparr>)
      | Some _ \<Rightarrow> cl_emit (Sig_disconnected err) (disconnect_nosig c))"

definition start_recv :: "'m client \<Rightarrow> 'm client" where
  "start_recv c = c\<lparr>cl_pending := Read_header (in_frame_header_size c), cl_got := []\<rparr>"

definition handle_connect :: "error_code \<Rightarrow> 'm client \<Rightarrow> 'm client" where
  "handle_connect err c =
     (case err of
        None \<Rightarrow> cl_emit Sig_connected (start_recv (c\<lparr>cl_connected := True\<rparr>))
      | Some _ \<Rightarrow> cl_emit (Sig_disconnected err) (disconnect_nosig c))"

section \<open>Receiving\<close>

text \<open>\<open>realloc_ok n\<close>: the allocation of \<open>n\<close> bytes succeeds. The read is set up in any case.\<close>

definition to_read :: "'m client \<Rightarrow> nat" where
  "to_read c = unat (ntohl
     (if cl_version c = PB_FRAME_V1 then v1_payload_size (v1_of (cl_in_frame_header c))
      else payload_size (fh_of (cl_in_frame_header c))))"

definition handle_read_header :: "(nat \<Rightarrow> bool) \<Rightarrow> error_code \<Rightarrow> 'm client \<Rightarrow> 'm client" where
  "handle_read_header realloc_ok err c =
     (case err of
        None \<Rightarrow>
          let n = to_read c;
              c = (if n > cl_in_data_size c
                   then if realloc_ok n then c\<lparr>cl_in_data_size := n\<rparr>
                        else cl_emit (Sig_disconnected (Some ''not_enough_memory'')) (disconnect_nosig c)
                   else c)
          in c\<lparr>cl_pending := Read_body n, cl_got := []\<rparr>
      | Some _ \<Rightarrow> cl_emit (Sig_disconnected err) (disconnect_nosig (c\<lparr>cl_pending := No_read\<rparr>)))"

text \<open>The headers of the message that has been read, and the memory from its data on.\<close>

definition received_headers ::
    "junk \<Rightarrow> 'm client \<Rightarrow> frame_header \<times> message_header \<times> (nat \<Rightarrow> u8)" where
  "received_headers j c =
     (if cl_version c = PB_FRAME_V1
      then let h = v1_of (cl_in_frame_header c)
           in (\<lparr>header_version = version_byte PB_FRAME_V1, cipher = PB_ENCRYPTION_NONE,
                reserved_2 = fst (junk_reserved j), reserved_3 = snd (junk_reserved j),
                payload_size = htonl (ntohl (v1_payload_size h) + word_of_nat sizeof_message_header)\<rparr>,
               \<lparr>component_id = v1_component_id h, msg_type = v1_msg_type h\<rparr>,
               cl_in_data c)
      else (fh_of (cl_in_frame_header c), mh_of (map (cl_in_data c) [0..<sizeof_message_header]),
            \<lambda>i. cl_in_data c (i + sizeof_message_header)))"

definition handle_read_message ::
    "'m protobuf \<Rightarrow> junk \<Rightarrow> error_code \<Rightarrow> 'm client \<Rightarrow> 'm client" where
  "handle_read_message pb j err c =
     (case err of
        None \<Rightarrow>
          let (fh, mh, data) = received_headers j c;
              cid = ntohs (component_id mh);
              typ = ntohs (msg_type mh)
          in start_recv (cl_emit
               (case deserialize pb (cl_register c) fh mh data of
                  Inr m \<Rightarrow> Sig_rcvd cid typ m | Inl e \<Rightarrow> Sig_recv_failed cid typ e) c)
      | Some _ \<Rightarrow> cl_emit (Sig_disconnected err) (disconnect_nosig (c\<lparr>cl_pending := No_read\<rparr>)))"

text \<open>
  A byte arrives, which needs a connection: reading begins when it is made, and closing it aborts
  the read. A read of no bytes ends at once.
\<close>

definition settle :: "'m protobuf \<Rightarrow> junk \<Rightarrow> 'm client \<Rightarrow> 'm client" where
  "settle pb j c = (if cl_pending c = Read_body 0 \<and> cl_socket_open c
     then handle_read_message pb j None c else c)"

definition client_byte ::
    "'m protobuf \<Rightarrow> (nat \<Rightarrow> bool) \<Rightarrow> junk \<Rightarrow> u8 \<Rightarrow> 'm client \<Rightarrow> 'm client" where
  "client_byte pb realloc_ok j b c =
     (if \<not> (cl_connected c \<and> cl_socket_open c) then c
      else let g = cl_got c @ [b]
           in case cl_pending c of
                No_read \<Rightarrow> c
              | Read_header n \<Rightarrow>
                  if length g < n then c\<lparr>cl_got := g\<rparr>
                  else settle pb j (handle_read_header realloc_ok None (c\<lparr>cl_in_frame_header := g\<rparr>))
              | Read_body n \<Rightarrow>
                  if length g < n then c\<lparr>cl_got := g\<rparr>
                  else handle_read_message pb j None (c\<lparr>cl_in_data := fill g (cl_in_data c)\<rparr>))"

section \<open>Sending\<close>

definition start_write :: "queue_entry \<Rightarrow> 'm client \<Rightarrow> 'm client" where
  "start_write e c = cl_emit (Write_start e) (c\<lparr>cl_in_flight := Some e\<rparr>)"

definition handle_write :: "error_code \<Rightarrow> 'm client \<Rightarrow> 'm client" where
  "handle_write err c =
     (let c = c\<lparr>cl_in_flight := None\<rparr>
      in case err of
           None \<Rightarrow>
             (case cl_outbound_queue c of
                e # q \<Rightarrow> start_write e (c\<lparr>cl_outbound_queue := q\<rparr>)
              | [] \<Rightarrow> c\<lparr>cl_outbound_active := False\<rparr>)
         | Some _ \<Rightarrow> cl_emit (Sig_disconnected err) (disconnect_nosig c))"

text \<open>The entry of a message: its headers and the three buffers that are written.\<close>

definition client_entry ::
    "'m protobuf \<Rightarrow> junk \<Rightarrow> u16 \<Rightarrow> u16 \<Rightarrow> 'm \<Rightarrow> frame_version \<Rightarrow> pb_error + queue_entry" where
  "client_entry pb j cid typ m v =
     (let entry = QueueEntry_new (junk_reserved j)
      in and_then (serialize pb cid typ m (qe_frame entry)) (\<lambda>(fh, mh, data).
         let entry = entry\<lparr>qe_frame := fh, qe_message := mh, qe_serialized := data\<rparr>
         in Inr (if v = PB_FRAME_V1
              then let h = \<lparr>v1_component_id = component_id mh, v1_msg_type = msg_type mh,
                       v1_payload_size = htonl (ntohl (payload_size fh) - word_of_nat sizeof_message_header)\<rparr>
                   in entry\<lparr>qe_frame_v1 := h, qe_buffers := [v1_bytes h, [], data]\<rparr>
              else entry\<lparr>qe_buffers := [fh_bytes fh, mh_bytes mh, data]\<rparr>)))"

definition push_entry :: "queue_entry \<Rightarrow> 'm client \<Rightarrow> 'm client" where
  "push_entry e c =
     (if cl_outbound_active c then c\<lparr>cl_outbound_queue := cl_outbound_queue c @ [e]\<rparr>
      else start_write e (c\<lparr>cl_outbound_active := True\<rparr>))"

definition client_send ::
    "'m protobuf \<Rightarrow> junk \<Rightarrow> u16 \<Rightarrow> u16 \<Rightarrow> 'm \<Rightarrow> 'm client \<Rightarrow> pb_error + 'm client" where
  "client_send pb j cid typ m c =
     (if \<not> cl_connected c then Inl Not_connected
      else and_then (client_entry pb j cid typ m (cl_version c)) (\<lambda>e. Inr (push_entry e c)))"

definition client_send_msg ::
    "'m protobuf \<Rightarrow> junk \<Rightarrow> 'm \<Rightarrow> 'm client \<Rightarrow> pb_error + 'm client" where
  "client_send_msg pb j m c =
     and_then (key_from_desc pb m) (\<lambda>(cid, typ). client_send pb j cid typ m c)"

text \<open>The bytes of an entry on the wire.\<close>

definition wire :: "queue_entry \<Rightarrow> u8 list" where
  "wire e = concat (qe_buffers e)"

section \<open>Events\<close>

datatype 'm client_event =
    E_resolved error_code
  | E_connect string u16
  | E_connected error_code
  | E_byte u8
  | E_read_error string
  | E_written error_code
  | E_send u16 u16 'm
  | E_disconnect

text \<open>An event of an operation that is not pending does not happen; an exception changes nothing.\<close>

definition client_step ::
    "'m protobuf \<Rightarrow> (nat \<Rightarrow> bool) \<Rightarrow> junk \<Rightarrow> 'm client_event \<Rightarrow> 'm client \<Rightarrow> 'm client" where
  "client_step pb realloc_ok j ev c =
     (case ev of
        E_connect host port \<Rightarrow> async_connect host port c
      | E_resolved err \<Rightarrow> handle_resolve err c
      | E_connected err \<Rightarrow> handle_connect err c
      | E_byte b \<Rightarrow> client_byte pb realloc_ok j b c
      | E_read_error w \<Rightarrow> (case cl_pending c of
            No_read \<Rightarrow> c
          | Read_header n \<Rightarrow> handle_read_header realloc_ok (Some w) c
          | Read_body n \<Rightarrow> handle_read_message pb j (Some w) c)
      | E_written err \<Rightarrow> if cl_in_flight c = None then c else handle_write err c
      | E_send cid typ m \<Rightarrow> (case client_send pb j cid typ m c of Inl _ \<Rightarrow> c | Inr c \<Rightarrow> c)
      | E_disconnect \<Rightarrow> disconnect c)"

end
