(* ===== verification/PbClientProps.thy ===== *)
theory PbClientProps
  imports PbClient
begin

text \<open>
  Properties of the stream client: what a stream of frames makes it signal, in which order its
  messages are written, and what a failed write leaves behind.
\<close>

section \<open>Frames\<close>

text \<open>The bytes of a message with the given data on the wire.\<close>

definition frame_bytes :: "frame_version \<Rightarrow> u8 \<times> u8 \<Rightarrow> u16 \<Rightarrow> u16 \<Rightarrow> u8 list \<Rightarrow> u8 list" where
  "frame_bytes v r cid typ data =
     (if v = PB_FRAME_V1 then htons cid @ htons typ @ htonl (word_of_nat (length data)) @ data
      else [2, 0, fst r, snd r] @ htonl (word_of_nat (sizeof_message_header + length data))
           @ htons cid @ htons typ @ data)"

lemma client_entry_wire:
  "client_entry pb j cid typ m v = Inr e \<Longrightarrow>
   \<exists>data. pb_serialize pb m = Serialized data \<and> wire e = frame_bytes v (junk_reserved j) cid typ data"
  by (auto simp: client_entry_def serialize_def wire_def QueueEntry_new_def fh_bytes_def mh_bytes_def
      v1_bytes_def frame_bytes_def version_byte_def PB_ENCRYPTION_NONE_def Let_def split: serialized.splits if_splits)

text \<open>The header of a frame and the rest, which is read second.\<close>

definition frame_head :: "frame_version \<Rightarrow> u8 \<times> u8 \<Rightarrow> u16 \<Rightarrow> u16 \<Rightarrow> u8 list \<Rightarrow> u8 list" where
  "frame_head v r cid typ data = take 8 (frame_bytes v r cid typ data)"

definition frame_rest :: "frame_version \<Rightarrow> u16 \<Rightarrow> u16 \<Rightarrow> u8 list \<Rightarrow> u8 list" where
  "frame_rest v cid typ data = (if v = PB_FRAME_V1 then data else htons cid @ htons typ @ data)"

lemma frame_parts: "frame_bytes v r cid typ data = frame_head v r cid typ data @ frame_rest v cid typ data"
  by (simp add: frame_bytes_def frame_head_def frame_rest_def)

lemma length_frame_head [simp]: "length (frame_head v r cid typ data) = 8"
  by (simp add: frame_head_def frame_bytes_def)

lemma length_frame_bytes: "length (frame_bytes v r cid typ data) = 8 + length (frame_rest v cid typ data)"
  by (simp add: frame_parts)

section \<open>Receiving\<close>

lemma in_frame_header_size_8 [simp]: "in_frame_header_size c = 8"
  by (simp add: in_frame_header_size_def sizeof_frame_header_v1_def sizeof_frame_header_def)

lemma bytes_of_header:
  "cl_connected c \<Longrightarrow> cl_socket_open c \<Longrightarrow> cl_pending c = Read_header n \<Longrightarrow> length (cl_got c) + length bs < n \<Longrightarrow>
   fold (client_byte pb ro j) bs c = c\<lparr>cl_got := cl_got c @ bs\<rparr>"
  by (induction bs arbitrary: c) (simp_all add: client_byte_def)

lemma bytes_of_body:
  "cl_connected c \<Longrightarrow> cl_socket_open c \<Longrightarrow> cl_pending c = Read_body n \<Longrightarrow> length (cl_got c) + length bs < n \<Longrightarrow>
   fold (client_byte pb ro j) bs c = c\<lparr>cl_got := cl_got c @ bs\<rparr>"
  by (induction bs arbitrary: c) (simp_all add: client_byte_def)

lemma header_read:
  assumes "cl_connected c" and "cl_socket_open c" and "cl_pending c = Read_header (length bs)" and "cl_got c = []" and "bs \<noteq> []"
  shows "fold (client_byte pb ro j) bs c
    = settle pb j (handle_read_header ro None (c\<lparr>cl_got := butlast bs, cl_in_frame_header := bs\<rparr>))"
proof (cases bs rule: rev_cases)
  case (snoc xs x)
  then show ?thesis using bytes_of_header [of c "length bs" xs pb ro j] assms by (simp add: client_byte_def)
qed (use assms in simp)

lemma body_read:
  assumes "cl_connected c" and "cl_socket_open c" and "cl_pending c = Read_body (length bs)" and "cl_got c = []" and "bs \<noteq> []"
  shows "fold (client_byte pb ro j) bs c
    = handle_read_message pb j None (c\<lparr>cl_got := butlast bs, cl_in_data := fill bs (cl_in_data c)\<rparr>)"
proof (cases bs rule: rev_cases)
  case (snoc xs x)
  then show ?thesis using bytes_of_body [of c "length bs" xs pb ro j] assms by (simp add: client_byte_def)
qed (use assms in simp)

text \<open>What makes a client ready for a frame, and what it signals when one has arrived.\<close>

definition client_idle :: "'m client \<Rightarrow> bool" where
  "client_idle c \<longleftrightarrow> cl_connected c \<and> cl_socket_open c \<and> cl_pending c = Read_header 8 \<and> cl_got c = []"

definition receive_signal :: "'m protobuf \<Rightarrow> 'm message_register \<Rightarrow> u16 \<Rightarrow> u16 \<Rightarrow> u8 list \<Rightarrow> 'm client_effect" where
  "receive_signal pb r cid typ data =
     (case parsed pb r cid typ data of Inr m \<Rightarrow> Sig_rcvd cid typ m | Inl e \<Rightarrow> Sig_recv_failed cid typ e)"

lemma to_read_head:
  assumes "length data + 4 < 2 ^ 31" and "cl_in_frame_header c = frame_head (cl_version c) r cid typ data"
  shows "to_read c = length (frame_rest (cl_version c) cid typ data)"
proof -
  have "unat (word_of_nat n :: u32) = n" if "n < 2 ^ 31" for n using that by (simp add: unat_of_nat)
  from this [of "length data"] this [of "sizeof_message_header + length data"] show ?thesis
    using assms(1) by (simp add: to_read_def assms(2) frame_head_def frame_bytes_def frame_rest_def
        v1_of_def fh_of_def sizeof_message_header_def del: of_nat_add)
qed

lemma message_read:
  assumes "length data + 4 < 2 ^ 31" and "cl_in_frame_header c = frame_head (cl_version c) r cid typ data"
    and "cl_in_data c = fill (frame_rest (cl_version c) cid typ data) buf"
  shows "handle_read_message pb j None c
    = start_recv (cl_emit (receive_signal pb (cl_register c) cid typ data) c)"
proof -
  obtain fh mh ds where h: "received_headers j c = (fh, mh, ds)" by (cases "received_headers j c") auto
  have sz: "payload_size fh = htonl (word_of_nat (sizeof_message_header + length data))"
    using h assms(2) by (auto simp: received_headers_def frame_head_def frame_bytes_def v1_of_def fh_of_def
        Let_def add.commute split: if_splits)
  have ids: "component_id mh = htons cid \<and> msg_type mh = htons typ"
    using h assms(2,3) by (auto simp: received_headers_def frame_head_def frame_bytes_def frame_rest_def
        v1_of_def mh_of_def map_fill_0 sizeof_message_header_def Let_def split: if_splits)
  have "ds i = data ! i" if "i < length data" for i
  proof -
    have "ds = (if cl_version c = PB_FRAME_V1 then cl_in_data c else (\<lambda>i. cl_in_data c (i + 4)))"
      using h by (auto simp: received_headers_def Let_def sizeof_message_header_def split: if_splits)
    then show ?thesis using that by (simp add: assms(3) frame_rest_def fill_def nth_append)
  qed
  from deserialize_parsed [OF sz _ this, of mh cid "typ" pb "cl_register c"] ids assms(1)
  have "deserialize pb (cl_register c) fh mh ds = parsed pb (cl_register c) cid typ data" by simp
  then show ?thesis using ids by (simp add: handle_read_message_def h receive_signal_def)
qed

text \<open>The client after the header of a frame, when the read of the rest is set up.\<close>

definition after_head :: "u8 list \<Rightarrow> nat \<Rightarrow> 'm client \<Rightarrow> 'm client" where
  "after_head h n c = c\<lparr>cl_in_frame_header := h, cl_pending := Read_body n, cl_got := [],
     cl_in_data_size := (if n > cl_in_data_size c then n else cl_in_data_size c)\<rparr>"

lemma head_read:
  assumes "client_idle c" and "length data + 4 < 2 ^ 31"
    and "ro (length (frame_rest (cl_version c) cid typ data))"
  shows "fold (client_byte pb ro j) (frame_head (cl_version c) r cid typ data) c
    = settle pb j (after_head (frame_head (cl_version c) r cid typ data)
        (length (frame_rest (cl_version c) cid typ data)) c)"
proof -
  let ?h = "frame_head (cl_version c) r cid typ data"
  have ne: "?h \<noteq> []" using length_frame_head [of "cl_version c" r cid "typ" data] by force
  let ?c = "c\<lparr>cl_got := butlast ?h, cl_in_frame_header := ?h\<rparr>"
  have n: "to_read ?c = length (frame_rest (cl_version c) cid typ data)"
    using to_read_head [OF assms(2), of ?c r cid "typ"] by simp
  have "handle_read_header ro None ?c
      = after_head ?h (length (frame_rest (cl_version c) cid typ data)) c"
    using assms(3) by (simp add: handle_read_header_def after_head_def Let_def n)
  then show ?thesis
    using header_read [of c ?h pb ro j] assms(1) ne by (simp add: client_idle_def)
qed

lemma frame_read:
  assumes "client_idle c" and "length data + 4 < 2 ^ 31"
    and "ro (length (frame_rest (cl_version c) cid typ data))"
  shows "\<exists>c'. fold (client_byte pb ro j) (frame_bytes (cl_version c) r cid typ data) c
      = start_recv (cl_emit (receive_signal pb (cl_register c) cid typ data) c')
    \<and> cl_connected c' \<and> cl_socket_open c' \<and> cl_version c' = cl_version c \<and> cl_register c' = cl_register c
    \<and> cl_trace c' = cl_trace c"
proof -
  let ?h = "frame_head (cl_version c) r cid typ data" and ?b = "frame_rest (cl_version c) cid typ data"
  let ?c = "after_head ?h (length ?b) c"
  have c: "cl_connected ?c" "cl_socket_open ?c" "cl_version ?c = cl_version c" "cl_register ?c = cl_register c"
    "cl_trace ?c = cl_trace c" "cl_in_frame_header ?c = ?h" "cl_pending ?c = Read_body (length ?b)"
    "cl_got ?c = []"
    using assms(1) by (simp_all add: after_head_def client_idle_def)
  have "\<exists>g. fold (client_byte pb ro j) (frame_bytes (cl_version c) r cid typ data) c
      = handle_read_message pb j None (?c\<lparr>cl_got := g, cl_in_data := fill ?b (cl_in_data ?c)\<rparr>)"
  proof (cases "?b = []")
    case True
    then have "fill ?b (cl_in_data ?c) = cl_in_data ?c" by (simp add: fill_def)
    then have "?c = ?c\<lparr>cl_got := [], cl_in_data := fill ?b (cl_in_data ?c)\<rparr>" using c(8) by simp
    then show ?thesis
      using True c(2,7) head_read [where ro = ro, OF assms, of pb j r]
      by (intro exI [of _ "[]"]) (simp add: frame_parts settle_def)
  next
    case False
    have "settle pb j ?c = ?c" using False c(7) by (simp add: settle_def)
    then show ?thesis
      using body_read [OF c(1,2,7,8) False, of pb ro j] head_read [where ro = ro, OF assms, of pb j r]
      by (intro exI [of _ "butlast ?b"]) (simp add: frame_parts)
  qed
  then obtain g where "fold (client_byte pb ro j) (frame_bytes (cl_version c) r cid typ data) c
      = handle_read_message pb j None (?c\<lparr>cl_got := g, cl_in_data := fill ?b (cl_in_data ?c)\<rparr>)" by blast
  then show ?thesis
    using message_read [OF assms(2), of "?c\<lparr>cl_got := g, cl_in_data := fill ?b (cl_in_data ?c)\<rparr>" r cid "typ"] c
    by (intro exI [of _ "?c\<lparr>cl_got := g, cl_in_data := fill ?b (cl_in_data ?c)\<rparr>"]) simp
qed

section \<open>The client as a receiver\<close>

definition is_receive :: "'m client_effect \<Rightarrow> bool" where
  "is_receive e = (case e of Sig_rcvd _ _ _ \<Rightarrow> True | Sig_recv_failed _ _ _ \<Rightarrow> True | _ \<Rightarrow> False)"

definition client_heard :: "'m client \<Rightarrow> 'm client_effect list" where
  "client_heard c = filter is_receive (cl_trace c)"

text \<open>A frame of the client's version of the header, not too large and with enough memory.\<close>

definition client_carries ::
    "'m protobuf \<Rightarrow> (nat \<Rightarrow> bool) \<Rightarrow> 'm client \<Rightarrow> u8 list \<Rightarrow> 'm client_effect \<Rightarrow> bool" where
  "client_carries pb ro c f d \<longleftrightarrow> (\<exists>r cid typ data. f = frame_bytes (cl_version c) r cid typ data
     \<and> length data + 4 < 2 ^ 31 \<and> ro (length (frame_rest (cl_version c) cid typ data))
     \<and> d = receive_signal pb (cl_register c) cid typ data)"

lemma is_receive_signal [simp]: "is_receive (receive_signal pb r cid typ data)"
  by (simp add: is_receive_def receive_signal_def split: sum.splits)

lemma client_frame:
  assumes "client_idle c" and "client_carries pb ro c f d"
  shows "client_idle (fold (client_byte pb ro j) f c)"
    and "client_heard (fold (client_byte pb ro j) f c) = client_heard c @ [d]"
    and "client_carries pb ro (fold (client_byte pb ro j) f c) = client_carries pb ro c"
proof -
  obtain r cid ty data where f: "f = frame_bytes (cl_version c) r cid ty data"
    "length data + 4 < 2 ^ 31" "ro (length (frame_rest (cl_version c) cid ty data))"
    "d = receive_signal pb (cl_register c) cid ty data"
    using assms(2) by (auto simp: client_carries_def)
  obtain c' where c': "fold (client_byte pb ro j) f c = start_recv (cl_emit d c')"
    "cl_connected c'" "cl_socket_open c'" "cl_version c' = cl_version c" "cl_register c' = cl_register c"
    "cl_trace c' = cl_trace c"
    using frame_read [where ro = ro, OF assms(1) f(2,3), of pb j r] f(1,4) by auto
  show "client_idle (fold (client_byte pb ro j) f c)"
    using c' by (simp add: client_idle_def start_recv_def cl_emit_def)
  show "client_heard (fold (client_byte pb ro j) f c) = client_heard c @ [d]"
    using c' f(4) by (simp add: client_heard_def start_recv_def cl_emit_def)
  show "client_carries pb ro (fold (client_byte pb ro j) f c) = client_carries pb ro c"
    using c' by (simp add: client_carries_def fun_eq_iff start_recv_def cl_emit_def)
qed

lemma client_part:
  assumes "client_idle c" and "client_carries pb ro c f d" and "strict_prefix p f"
  shows "client_heard (fold (client_byte pb ro j) p c) = client_heard c"
proof -
  obtain r cid ty data where f: "f = frame_bytes (cl_version c) r cid ty data"
    "length data + 4 < 2 ^ 31" "ro (length (frame_rest (cl_version c) cid ty data))"
    using assms(2) by (auto simp: client_carries_def)
  let ?h = "frame_head (cl_version c) r cid ty data" and ?b = "frame_rest (cl_version c) cid ty data"
  have c: "cl_connected c" "cl_socket_open c" "cl_pending c = Read_header 8" "cl_got c = []"
    using assms(1) by (simp_all add: client_idle_def)
  obtain z zs where z: "f = p @ z # zs" using assms(3) by (auto elim!: strict_prefixE')
  show ?thesis
  proof (cases "length p < 8")
    case True
    then show ?thesis using bytes_of_header [OF c(1-3), of p pb ro j] c(4) by (simp add: client_heard_def)
  next
    case False
    let ?q = "drop 8 p" and ?c = "after_head ?h (length ?b) c"
    have "take 8 p = take 8 f" using False z by simp
    then have h: "p = ?h @ ?q" using f(1) by (metis append_take_drop_id frame_head_def)
    have "length (p @ z # zs) = 8 + length ?b" using z f(1) by (metis length_frame_bytes)
    then have q: "length ?q < length ?b" using False by simp
    then have "settle pb j ?c = ?c" by (auto simp: settle_def after_head_def)
    moreover have "fold (client_byte pb ro j) ?q ?c = ?c\<lparr>cl_got := cl_got ?c @ ?q\<rparr>"
      using q c by (intro bytes_of_body) (simp_all add: after_head_def)
    ultimately show ?thesis
      using head_read [where ro = ro, OF assms(1) f(2,3), of pb j r]
      by (subst h) (simp add: client_heard_def after_head_def)
  qed
qed

interpretation client_receiver: stream_receiver "client_byte pb ro j" client_idle client_heard
    "client_carries pb ro" for pb ro j
  by unfold_locales (rule client_frame client_part; assumption)+

section \<open>The client as a writer\<close>

definition client_started :: "'m client \<Rightarrow> queue_entry list" where
  "client_started c = List.map_filter (\<lambda>e. case e of Write_start x \<Rightarrow> Some x | _ \<Rightarrow> None) (cl_trace c)"

lemmas client_write_defs = push_entry_def handle_write_def start_write_def cl_emit_def client_started_def

interpretation client_writer: ordered_writer "\<lambda>_. True" push_entry "handle_write None" cl_outbound_active
    cl_in_flight cl_outbound_queue client_started
  by unfold_locales (simp_all add: client_write_defs Let_def map_filter_simps List.map_filter_def)

text \<open>The state of a writer between two events, as long as no write has failed.\<close>

definition client_writer_ok :: "'m client \<Rightarrow> bool" where
  "client_writer_ok c \<longleftrightarrow> (cl_outbound_active c \<longleftrightarrow> cl_in_flight c \<noteq> None)
     \<and> (\<not> cl_outbound_active c \<longrightarrow> cl_outbound_queue c = [])"

lemma client_wok: "client_writer.wok c = client_writer_ok c"
  by (simp add: client_writer.wok_def client_writer_ok_def)

definition writer_view :: "'m client \<Rightarrow> bool \<times> queue_entry option \<times> queue_entry list \<times> queue_entry list" where
  "writer_view c = (cl_outbound_active c, cl_in_flight c, cl_outbound_queue c, client_started c)"

lemma started_emit [simp]:
  "client_started (cl_emit e c) = client_started c @ (case e of Write_start x \<Rightarrow> [x] | _ \<Rightarrow> [])"
  by (cases e) (simp_all add: client_started_def cl_emit_def List.map_filter_def)

lemma started_receive [simp]:
  "(case receive_signal pb r cid typ data of Write_start x \<Rightarrow> [x] | _ \<Rightarrow> []) = []"
  by (simp add: receive_signal_def split: sum.splits)

lemma started_update [simp]:
  "client_started (cl_connected_update f c) = client_started c"
  "client_started (cl_socket_open_update f c) = client_started c"
  "client_started (cl_in_flight_update f' c) = client_started c"
  "client_started (cl_in_frame_header_update g c) = client_started c"
  "client_started (cl_in_data_size_update h c) = client_started c"
  "client_started (cl_in_data_update k c) = client_started c"
  "client_started (cl_pending_update l c) = client_started c"
  "client_started (cl_got_update g c) = client_started c"
  by (simp_all add: client_started_def)

lemma view_emit: "(\<forall>x. e \<noteq> Write_start x) \<Longrightarrow> writer_view (cl_emit e c) = writer_view c"
  by (cases e) (simp_all add: writer_view_def cl_emit_def client_started_def List.map_filter_def)

lemma view_message: "writer_view (handle_read_message pb j err c) = writer_view c"
proof (cases err)
  case None
  obtain fh mh ds where h: "received_headers j c = (fh, mh, ds)" by (cases "received_headers j c") auto
  have "writer_view (start_recv c') = writer_view c'" for c' :: "'a client"
    by (simp add: writer_view_def start_recv_def)
  then show ?thesis by (simp add: None handle_read_message_def h view_emit Let_def split: sum.split)
qed (simp add: handle_read_message_def view_emit, simp add: writer_view_def disconnect_nosig_def)

lemma view_header: "writer_view (handle_read_header ro err c) = writer_view c"
  by (cases err) (simp_all add: handle_read_header_def writer_view_def disconnect_nosig_def cl_emit_def
      client_started_def List.map_filter_def Let_def)

text \<open>Only sending and the end of a write touch the writer.\<close>

lemma view_step:
  "(\<forall>cid ty m. ev \<noteq> E_send cid ty m) \<Longrightarrow> (\<forall>err. ev \<noteq> E_written err) \<Longrightarrow>
   writer_view (client_step pb ro j ev c) = writer_view c"
proof (cases ev)
  case (E_byte b)
  have upd: "writer_view (cl_got_update f c) = writer_view c" "writer_view (cl_in_frame_header_update f c) = writer_view c"
    "writer_view (cl_in_data_update f' c) = writer_view c" for f f' by (simp_all add: writer_view_def)
  show ?thesis
    by (simp add: E_byte client_step_def client_byte_def settle_def view_message view_header upd Let_def
        split: pending_read.split)
next
  case (E_resolved err)
  then show ?thesis
    by (cases err) (simp_all add: client_step_def handle_resolve_def view_emit,
      simp_all add: writer_view_def disconnect_nosig_def)
next
  case (E_connected err)
  then show ?thesis
    by (cases err) (simp_all add: client_step_def handle_connect_def view_emit,
      simp_all add: writer_view_def disconnect_nosig_def start_recv_def)
next
  case (E_read_error w)
  then show ?thesis by (simp add: client_step_def view_message view_header split: pending_read.split)
next
  case (E_connect h p)
  then show ?thesis by (simp add: client_step_def async_connect_def view_emit)
next
  case E_disconnect
  then show ?thesis by (simp add: client_step_def disconnect_def view_emit)
    (simp add: writer_view_def disconnect_nosig_def)
qed simp_all

definition client_run ::
    "'m protobuf \<Rightarrow> (nat \<Rightarrow> bool) \<Rightarrow> junk \<Rightarrow> 'm client_event list \<Rightarrow> 'm client \<Rightarrow> 'm client" where
  "client_run pb ro j evs c = fold (client_step pb ro j) evs c"

text \<open>The entries of the messages that were accepted for sending, in order.\<close>

definition accepted :: "'m protobuf \<Rightarrow> junk \<Rightarrow> 'm client_event \<Rightarrow> 'm client \<Rightarrow> queue_entry list" where
  "accepted pb j ev c =
     (case ev of
        E_send cid typ m \<Rightarrow>
          (case client_entry pb j cid typ m (cl_version c) of
             Inr e \<Rightarrow> if cl_connected c then [e] else [] | Inl _ \<Rightarrow> [])
      | _ \<Rightarrow> [])"

fun accepted_run ::
    "'m protobuf \<Rightarrow> (nat \<Rightarrow> bool) \<Rightarrow> junk \<Rightarrow> 'm client_event list \<Rightarrow> 'm client \<Rightarrow> queue_entry list" where
  "accepted_run pb ro j [] c = []"
| "accepted_run pb ro j (ev # evs) c =
     accepted pb j ev c @ accepted_run pb ro j evs (client_step pb ro j ev c)"

lemma view_cong:
  "writer_view c' = writer_view c \<Longrightarrow> client_writer_ok c \<Longrightarrow> client_writer_ok c'
     \<and> client_started c' @ cl_outbound_queue c' = client_started c @ cl_outbound_queue c"
  by (simp add: writer_view_def client_writer_ok_def)

text \<open>One event, as long as no write fails.\<close>

lemma step_in_order:
  assumes "client_writer_ok c" and "\<forall>w. ev \<noteq> E_written (Some w)"
  shows "client_writer_ok (client_step pb ro j ev c)
    \<and> client_started (client_step pb ro j ev c) @ cl_outbound_queue (client_step pb ro j ev c)
      = client_started c @ cl_outbound_queue c @ accepted pb j ev c"
proof -
  have w: "client_writer_ok (client_writer.wstep x c) \<and>
    client_started (client_writer.wstep x c) @ cl_outbound_queue (client_writer.wstep x c)
      = client_started c @ cl_outbound_queue c @ (case x of Some e \<Rightarrow> [e] | None \<Rightarrow> [])" for x
    using client_writer.wok_step [of c x] client_writer.wstep_content [of c x] assms(1)
    by (simp add: client_wok)
  show ?thesis
  proof (cases "\<exists>cid ty m. ev = E_send cid ty m")
    case True
    then obtain cid ty m where ev: "ev = E_send cid ty m" by blast
    show ?thesis using w [of "Some (projr (client_entry pb j cid ty m (cl_version c)))"] assms(1)
      by (cases "client_entry pb j cid ty m (cl_version c)")
        (auto simp: ev client_step_def client_send_def accepted_def client_writer.wstep_def)
  next
    case False
    show ?thesis
    proof (cases "\<exists>err. ev = E_written err")
      case True
      then have ev: "ev = E_written None" using assms(2) by (metis option.exhaust)
      show ?thesis using w [of None] assms(1)
        by (simp add: ev client_step_def accepted_def client_writer.wstep_def)
    next
      case F: False
      then have "accepted pb j ev c = []" using False by (cases ev) (auto simp: accepted_def)
      then show ?thesis using view_cong [OF view_step assms(1)] False F by simp
    qed
  qed
qed

lemma run_in_order:
  "client_writer_ok c \<Longrightarrow> (\<forall>w. E_written (Some w) \<notin> set evs) \<Longrightarrow>
   client_writer_ok (client_run pb ro j evs c)
   \<and> client_started (client_run pb ro j evs c) @ cl_outbound_queue (client_run pb ro j evs c)
     = client_started c @ cl_outbound_queue c @ accepted_run pb ro j evs c"
proof (induction evs arbitrary: c)
  case Nil
  then show ?case by (simp add: client_run_def)
next
  case (Cons ev evs)
  have nw: "\<forall>w. ev \<noteq> E_written (Some w)" using Cons.prems(2) by auto
  have s: "client_writer_ok (client_step pb ro j ev c)"
    "client_started (client_step pb ro j ev c) @ cl_outbound_queue (client_step pb ro j ev c) @ ys
      = client_started c @ cl_outbound_queue c @ accepted pb j ev c @ ys" for ys
    using step_in_order [OF Cons.prems(1) nw, of pb ro j] by (simp_all flip: append_assoc)
  have "\<forall>w. E_written (Some w) \<notin> set evs" using Cons.prems(2) by simp
  from Cons.IH [OF s(1) this] show ?case by (simp add: client_run_def s(2))
qed

lemma client_run_append: "client_run pb ro j (xs @ ys) c = client_run pb ro j ys (client_run pb ro j xs c)"
  by (simp add: client_run_def)

lemma written_steps:
  "fold (client_step pb ro j) (replicate n (E_written None)) c = fold client_writer.wstep (replicate n None) c"
  by (induction n arbitrary: c) (simp_all add: client_step_def client_writer.wstep_def)

section \<open>What the client does\<close>

definition demo_pb :: "u8 list protobuf" where
  "demo_pb = \<lparr>pb_name = (\<lambda>_. ''llsf_msgs.MachineInfo''),
     pb_comp_type = (\<lambda>_. Some [(''COMP_ID'', 2000), (''MSG_TYPE'', 13)]), pb_new = (\<lambda>_. []),
     pb_serialize = Serialized, pb_parse = (\<lambda>_ bs n. Some bs),
     pb_generated = (\<lambda>_. Some []), pb_imported = (\<lambda>_. None)\<rparr>"

definition demo_junk :: junk where
  "demo_junk = \<lparr>junk_data = (\<lambda>_. 0), junk_reserved = (7, 9)\<rparr>"

definition demo_register :: "u8 list message_register" where
  "demo_register = MessageRegister_new\<lparr>message_by_comp_type := [((2000, 13), [])],
     message_by_typename := [(''llsf_msgs.MachineInfo'', [])]\<rparr>"

definition demo_client :: "frame_version \<Rightarrow> u8 list client" where
  "demo_client v = client_run demo_pb (\<lambda>_. True) demo_junk
     [E_connect ''localhost'' 4444, E_resolved None, E_connected None] (Client_new demo_junk demo_register v)"

lemmas demo_client_defs = demo_client_def client_run_def client_step_def async_connect_def
  handle_resolve_def handle_connect_def cl_emit_def start_recv_def Client_new_def client_send_def
  push_entry_def start_write_def

lemma demo_client_simps [simp]:
  "client_idle (demo_client v)" "cl_version (demo_client v) = v"
  "cl_register (demo_client v) = demo_register" "client_heard (demo_client v) = []"
  "cl_connected (demo_client v)" "client_writer_ok (demo_client v)" "client_started (demo_client v) = []"
  "cl_outbound_queue (demo_client v) = []"
  by (simp_all add: demo_client_defs client_idle_def client_heard_def
      is_receive_def client_writer_ok_def client_started_def List.map_filter_def)

lemma demo_entry: "\<exists>e. client_entry demo_pb demo_junk cid ty m v = Inr e"
  by (simp add: client_entry_def serialize_def demo_pb_def Let_def)

lemma demo_parsed: "parsed demo_pb demo_register 2000 13 data = Inr data"
  by (simp add: parsed_def new_message_for_def demo_register_def demo_pb_def MessageRegister_new_def)

text \<open>
  C15 A stream of frames, cut into pieces in any way and ending within a frame: the client signals for
  every complete frame, in order, either the message with its component and type, or, when the type
  is not registered or the data cannot be parsed, the failure; nothing for the frame that is cut off;
  and it goes on reading after a failure. This holds for both versions of the header.
\<close>

theorem client_hears_frames:
  assumes "client_idle c" and "list_all2 (client_carries pb ro c) fs ds"
    and "client_carries pb ro c f d" and "strict_prefix p f" and "concat pieces = concat fs @ p"
  shows "client_heard (fold (fold (client_byte pb ro j)) pieces c) = client_heard c @ ds"
  using client_receiver.frames_cut [OF assms(1-4), of j]
    client_receiver.pieces [of pieces "fs @ [p]", where s = c and pb = pb and ro = ro and j = j] assms(5)
  by simp

theorem client_hears_frames_witness:
  "client_heard (fold (fold (client_byte demo_pb (\<lambda>_. True) demo_junk))
     [take 5 (frame_bytes PB_FRAME_V2 (0, 0) 2000 13 [1, 2, 3]),
      drop 5 (frame_bytes PB_FRAME_V2 (0, 0) 2000 13 [1, 2, 3]) @ [2]] (demo_client PB_FRAME_V2))
   = [Sig_rcvd 2000 13 [1, 2, 3]]"
proof -
  let ?f = "frame_bytes PB_FRAME_V2 (0, 0) 2000 13 [1, 2, 3 :: u8]" and ?c = "demo_client PB_FRAME_V2"
  have carry: "client_carries demo_pb (\<lambda>_. True) ?c ?f (Sig_rcvd 2000 13 [1, 2, 3])"
    unfolding client_carries_def
    by (rule exI [of _ "(0, 0)"], rule exI [of _ 2000], rule exI [of _ 13], rule exI [of _ "[1, 2, 3]"])
      (simp add: receive_signal_def demo_parsed)
  have pre: "strict_prefix [2] ?f" by (simp add: frame_bytes_def htonl_def htons_def)
  have all: "list_all2 (client_carries demo_pb (\<lambda>_. True) ?c) [?f] [Sig_rcvd 2000 13 [1, 2, 3]]"
    using carry by simp
  show ?thesis
    using client_hears_frames [OF _ all carry pre, of "[take 5 ?f, drop 5 ?f @ [2]]" demo_junk]
    by (simp del: append_assoc flip: append_assoc)
qed

text \<open>
  C16 The messages of a client are written in the order in which they were accepted, each once and
  at most one at a time: after any events without a failed write, what has been handed to the socket
  and what waits in the queue are together the accepted messages, and as many completed writes as
  there are waiting messages empty the queue. A message is accepted exactly when the client is
  connected and the message can be serialized.
\<close>

theorem client_writes_in_order:
  assumes "client_writer_ok c" and "\<forall>w. E_written (Some w) \<notin> set evs"
    and "c' = client_run pb ro j evs c" and "n = length (cl_outbound_queue c')"
  shows "client_started c' @ cl_outbound_queue c'
      = client_started c @ cl_outbound_queue c @ accepted_run pb ro j evs c
    \<and> (cl_outbound_queue c' \<noteq> [] \<longrightarrow> cl_in_flight c' \<noteq> None)
    \<and> client_started (client_run pb ro j (replicate n (E_written None)) c')
      = client_started c @ cl_outbound_queue c @ accepted_run pb ro j evs c"
proof -
  have run: "client_writer_ok c'" "client_started c' @ cl_outbound_queue c'
      = client_started c @ cl_outbound_queue c @ accepted_run pb ro j evs c"
    using run_in_order [OF assms(1,2), of pb ro j] by (simp_all add: assms(3))
  have "client_started (client_run pb ro j (replicate n (E_written None)) c') = client_started c' @ cl_outbound_queue c'"
    unfolding client_run_def written_steps assms(4)
    using client_writer.drained [of c'] run(1) by (simp only: client_wok)
  with run show ?thesis by (auto simp: client_writer_ok_def)
qed

theorem client_writes_in_order_witness:
  "client_started (client_run demo_pb (\<lambda>_. True) demo_junk
     ([E_send 2000 13 [1], E_send 2000 13 [2]] @ [E_written None]) (demo_client PB_FRAME_V1))
   = map (\<lambda>x. projr (client_entry demo_pb demo_junk 2000 13 [x] PB_FRAME_V1)) [1, 2]"
proof -
  let ?evs = "[E_send 2000 13 [1], E_send 2000 13 [2 :: u8]]" and ?c = "demo_client PB_FRAME_V1"
  note e = demo_entry [of 2000 13 "[1]" PB_FRAME_V1] demo_entry [of 2000 13 "[2]" PB_FRAME_V1]
  have acc: "accepted_run demo_pb (\<lambda>_. True) demo_junk ?evs ?c
      = map (\<lambda>x. projr (client_entry demo_pb demo_junk 2000 13 [x] PB_FRAME_V1)) [1, 2]"
    using e by (auto simp: accepted_def demo_client_defs)
  have q: "length (cl_outbound_queue (client_run demo_pb (\<lambda>_. True) demo_junk ?evs ?c)) = 1"
    using e by (auto simp: demo_client_defs)
  show ?thesis
    using client_writes_in_order [of ?c ?evs, OF _ _ refl q [symmetric]]
    unfolding client_run_append acc by simp
qed

text \<open>
  After a write has failed the client is dead for sending: whatever happens then, also when it
  connects again and reports that it is connected, no message is ever handed to the socket. The
  failure clears neither the queue nor the flag that says that a write is in progress.
\<close>

theorem client_dead_after_write_error:
  assumes "client_writer_ok c" and "cl_in_flight c \<noteq> None"
    and "c' = client_step pb ro j (E_written (Some w)) c"
  shows "client_started (client_run pb ro j evs c') = client_started c'"
proof -
  have "cl_outbound_active c' \<and> cl_in_flight c' = None"
    using assms by (simp add: client_step_def handle_write_def client_writer_ok_def cl_emit_def disconnect_nosig_def)
  then show ?thesis
  proof (induction evs arbitrary: c')
    case Nil
    then show ?case by (simp add: client_run_def)
  next
    case (Cons ev evs)
    let ?c = "client_step pb ro j ev c'"
    have "cl_outbound_active ?c \<and> cl_in_flight ?c = None \<and> client_started ?c = client_started c'"
    proof (cases "(\<exists>cid ty m. ev = E_send cid ty m) \<or> (\<exists>err. ev = E_written err)")
      case True
      then show ?thesis using Cons.prems
        by (auto simp: client_step_def client_send_def push_entry_def client_started_def
            split: sum.splits if_splits simp: and_then_Inr_iff)
    next
      case False
      then show ?thesis using view_step [of ev pb ro j c'] Cons.prems by (simp add: writer_view_def)
    qed
    with Cons.IH [of ?c] show ?case by (simp add: client_run_def)
  qed
qed

theorem client_dead_after_write_error_witness:
  "\<exists>c'. c' = client_run demo_pb (\<lambda>_. True) demo_junk [E_send 2000 13 [1], E_written (Some ''reset'')]
           (demo_client PB_FRAME_V2)
     \<and> client_started (client_run demo_pb (\<lambda>_. True) demo_junk
         [E_resolved None, E_connected None, E_send 2000 13 [2]] c') = client_started c'"
proof -
  let ?c = "client_step demo_pb (\<lambda>_. True) demo_junk (E_send 2000 13 [1]) (demo_client PB_FRAME_V2)"
  have "cl_in_flight ?c \<noteq> None \<and> client_writer_ok ?c"
    using demo_entry [of 2000 13 "[1]" PB_FRAME_V2] by (auto simp: demo_client_defs client_writer_ok_def)
  then show ?thesis
    using client_dead_after_write_error [of ?c, OF _ _ refl, of demo_pb "\<lambda>_. True" demo_junk
      "[E_resolved None, E_connected None, E_send 2000 13 [2]]" "''reset''"]
    unfolding client_run_def by simp
qed

end
