(* ===== verification/PbServer.thy ===== *)
theory PbServer
  imports PbClientProps
begin

text \<open>
  \<open>libs/protobuf_comm/server.cpp\<close>: the class \<open>ProtobufStreamServer\<close> and its sessions. The objects of
  the sessions are a list, a pointer to a session is an index, and \<open>sessions_\<close> maps client numbers
  to pointers. A session records what it asks of its server and of its socket (\<open>s_calls\<close>), and
  \<open>on_session\<close> lets the server act on it. An object that nothing refers to any more stays in the
  list; nothing happens to it.
\<close>

section \<open>Sessions\<close>

datatype 'm session_call =
    Call_rcvd u16 u16 'm
  | Call_recv_failed u16 u16 pb_error
  | Call_disconnected error_code
  | Call_write queue_entry

record 'm session =
  s_id :: u32
  s_socket_open :: bool
  s_outbound_active :: bool
  s_outbound_queue :: "queue_entry list"
  s_in_flight :: "queue_entry option"
  s_in_frame_header :: "u8 list"
  s_in_data_size :: nat
  s_in_data :: "nat \<Rightarrow> u8"
  s_pending :: pending_read
  s_got :: "u8 list"
  s_calls :: "'m session_call list"

definition Session_new :: "junk \<Rightarrow> u32 \<Rightarrow> 'm session" where
  "Session_new j i = \<lparr>s_id = i, s_socket_open = False, s_outbound_active = False, s_outbound_queue = [],
     s_in_flight = None, s_in_frame_header = [], s_in_data_size = 1024, s_in_data = junk_data j,
     s_pending = No_read, s_got = [], s_calls = []\<rparr>"

definition s_call :: "'m session_call \<Rightarrow> 'm session \<Rightarrow> 'm session" where
  "s_call e s = s\<lparr>s_calls := s_calls s @ [e]\<rparr>"

definition start_read :: "'m session \<Rightarrow> 'm session" where
  "start_read s = s\<lparr>s_pending := Read_header sizeof_frame_header, s_got := []\<rparr>"

definition session_disconnect :: "'m session \<Rightarrow> 'm session" where
  "session_disconnect s = s\<lparr>s_socket_open := False\<rparr>"

text \<open>When the allocation fails the server is told, and the read is set up all the same.\<close>

definition session_read_header :: "(nat \<Rightarrow> bool) \<Rightarrow> error_code \<Rightarrow> 'm session \<Rightarrow> 'm session" where
  "session_read_header realloc_ok err s =
     (case err of
        None \<Rightarrow>
          let n = unat (ntohl (payload_size (fh_of (s_in_frame_header s))));
              s = (if n > s_in_data_size s
                   then if realloc_ok n then s\<lparr>s_in_data_size := n\<rparr>
                        else s_call (Call_disconnected (Some ''not_enough_memory'')) s
                   else s)
          in s\<lparr>s_pending := Read_body n, s_got := []\<rparr>
      | Some _ \<Rightarrow> s_call (Call_disconnected err) (s\<lparr>s_pending := No_read\<rparr>))"

definition session_read_message ::
    "'m protobuf \<Rightarrow> 'm message_register \<Rightarrow> error_code \<Rightarrow> 'm session \<Rightarrow> 'm session" where
  "session_read_message pb r err s =
     (case err of
        None \<Rightarrow>
          let mh = mh_of (map (s_in_data s) [0..<sizeof_message_header]);
              cid = ntohs (component_id mh);
              typ = ntohs (msg_type mh)
          in start_read (s_call
               (case deserialize pb r (fh_of (s_in_frame_header s)) mh
                       (\<lambda>i. s_in_data s (i + sizeof_message_header)) of
                  Inr m \<Rightarrow> Call_rcvd cid typ m | Inl e \<Rightarrow> Call_recv_failed cid typ e) s)
      | Some _ \<Rightarrow> s_call (Call_disconnected err) (s\<lparr>s_pending := No_read\<rparr>))"

definition session_settle :: "'m protobuf \<Rightarrow> 'm message_register \<Rightarrow> 'm session \<Rightarrow> 'm session" where
  "session_settle pb r s = (if s_pending s = Read_body 0 \<and> s_socket_open s
     then session_read_message pb r None s else s)"

definition session_byte ::
    "'m protobuf \<Rightarrow> 'm message_register \<Rightarrow> (nat \<Rightarrow> bool) \<Rightarrow> u8 \<Rightarrow> 'm session \<Rightarrow> 'm session" where
  "session_byte pb r realloc_ok b s =
     (if \<not> s_socket_open s then s
      else let g = s_got s @ [b]
           in case s_pending s of
                No_read \<Rightarrow> s
              | Read_header n \<Rightarrow>
                  if length g < n then s\<lparr>s_got := g\<rparr>
                  else session_settle pb r (session_read_header realloc_ok None (s\<lparr>s_in_frame_header := g\<rparr>))
              | Read_body n \<Rightarrow>
                  if length g < n then s\<lparr>s_got := g\<rparr>
                  else session_read_message pb r None (s\<lparr>s_in_data := fill g (s_in_data s)\<rparr>))"

definition session_start_write :: "queue_entry \<Rightarrow> 'm session \<Rightarrow> 'm session" where
  "session_start_write e s = s_call (Call_write e) (s\<lparr>s_in_flight := Some e\<rparr>)"

definition session_written :: "error_code \<Rightarrow> 'm session \<Rightarrow> 'm session" where
  "session_written err s =
     (let s = s\<lparr>s_in_flight := None\<rparr>
      in case err of
           None \<Rightarrow>
             (case s_outbound_queue s of
                e # q \<Rightarrow> session_start_write e (s\<lparr>s_outbound_queue := q\<rparr>)
              | [] \<Rightarrow> s\<lparr>s_outbound_active := False\<rparr>)
         | Some _ \<Rightarrow> s_call (Call_disconnected err) s)"

definition session_push :: "queue_entry \<Rightarrow> 'm session \<Rightarrow> 'm session" where
  "session_push e s =
     (if s_outbound_active s then s\<lparr>s_outbound_queue := s_outbound_queue s @ [e]\<rparr>
      else session_start_write e (s\<lparr>s_outbound_active := True\<rparr>))"

definition session_entry :: "'m protobuf \<Rightarrow> junk \<Rightarrow> u16 \<Rightarrow> u16 \<Rightarrow> 'm \<Rightarrow> pb_error + queue_entry" where
  "session_entry pb j cid typ m =
     (let entry = QueueEntry_new (junk_reserved j)
      in and_then (serialize pb cid typ m (qe_frame entry)) (\<lambda>(fh, mh, data).
         Inr (entry\<lparr>qe_frame := fh, qe_message := mh, qe_serialized := data,
                    qe_buffers := [fh_bytes fh, mh_bytes mh, data]\<rparr>)))"

definition session_send ::
    "'m protobuf \<Rightarrow> junk \<Rightarrow> u16 \<Rightarrow> u16 \<Rightarrow> 'm \<Rightarrow> 'm session \<Rightarrow> pb_error + 'm session" where
  "session_send pb j cid typ m s = and_then (session_entry pb j cid typ m) (\<lambda>e. Inr (session_push e s))"

section \<open>The server\<close>

datatype 'm server_effect =
    Sv_connected u32
  | Sv_disconnected u32 error_code
  | Sv_rcvd u32 u16 u16 'm
  | Sv_recv_failed u32 u16 u16 pb_error

record 'm server =
  sv_register :: "'m message_register"
  sv_next_cid :: u32
  sv_objects :: "'m session list"
  sv_sessions :: "(u32 \<times> nat) list"
  sv_accepting :: nat
  sv_trace :: "'m server_effect list"

definition sv_emit :: "'m server_effect \<Rightarrow> 'm server \<Rightarrow> 'm server" where
  "sv_emit e sv = sv\<lparr>sv_trace := sv_trace sv @ [e]\<rparr>"

definition start_accept :: "junk \<Rightarrow> 'm server \<Rightarrow> 'm server" where
  "start_accept j sv = sv\<lparr>sv_objects := sv_objects sv @ [Session_new j (sv_next_cid sv)],
     sv_next_cid := sv_next_cid sv + 1, sv_accepting := length (sv_objects sv)\<rparr>"

definition Server_new :: "junk \<Rightarrow> 'm message_register \<Rightarrow> 'm server" where
  "Server_new j r = start_accept j \<lparr>sv_register = r, sv_next_cid = 1, sv_objects = [], sv_sessions = [],
     sv_accepting = 0, sv_trace = []\<rparr>"

text \<open>
  The new session starts: its socket is the accepted connection. \<open>start_session\<close> asks the socket for
  its remote end, which throws when the peer has gone already; nothing catches that exception, so
  the program ends there and has no further events.
\<close>

definition handle_accept :: "junk \<Rightarrow> error_code \<Rightarrow> 'm server \<Rightarrow> 'm server" where
  "handle_accept j err sv =
     start_accept j
       (if err = None
        then let p = sv_accepting sv;
                 s = (sv_objects sv ! p)\<lparr>s_socket_open := True\<rparr>;
                 sv = sv_emit (Sv_connected (s_id s))
                        (sv\<lparr>sv_sessions := map_put (s_id s) p (sv_sessions sv)\<rparr>)
             in sv\<lparr>sv_objects := (sv_objects sv)[p := start_read s]\<rparr>
        else sv)"

definition disconnected :: "u32 \<Rightarrow> error_code \<Rightarrow> 'm server \<Rightarrow> 'm server" where
  "disconnected i err sv =
     sv_emit (Sv_disconnected i err) (sv\<lparr>sv_sessions := map_del i (sv_sessions sv)\<rparr>)"

definition parent_call :: "u32 \<Rightarrow> 'm session_call \<Rightarrow> 'm server \<Rightarrow> 'm server" where
  "parent_call i c sv =
     (case c of
        Call_rcvd cid typ m \<Rightarrow> sv_emit (Sv_rcvd i cid typ m) sv
      | Call_recv_failed cid typ e \<Rightarrow> sv_emit (Sv_recv_failed i cid typ e) sv
      | Call_disconnected err \<Rightarrow> disconnected i err sv
      | Call_write _ \<Rightarrow> sv)"

text \<open>An operation of a session, and what it then asks of the server.\<close>

definition on_session :: "nat \<Rightarrow> ('m session \<Rightarrow> 'm session) \<Rightarrow> 'm server \<Rightarrow> 'm server" where
  "on_session p f sv =
     (let s = sv_objects sv ! p; s' = f s
      in fold (parent_call (s_id s)) (drop (length (s_calls s)) (s_calls s'))
           (sv\<lparr>sv_objects := (sv_objects sv)[p := s']\<rparr>))"

definition server_send ::
    "'m protobuf \<Rightarrow> junk \<Rightarrow> u32 \<Rightarrow> u16 \<Rightarrow> u16 \<Rightarrow> 'm \<Rightarrow> 'm server \<Rightarrow> pb_error + 'm server" where
  "server_send pb j client cid typ m sv =
     (case map_of (sv_sessions sv) client of
        None \<Rightarrow> Inl No_such_client
      | Some p \<Rightarrow> and_then (session_send pb j cid typ m (sv_objects sv ! p)) (\<lambda>s.
          Inr (on_session p (\<lambda>_. s) sv)))"

definition server_send_msg ::
    "'m protobuf \<Rightarrow> junk \<Rightarrow> u32 \<Rightarrow> 'm \<Rightarrow> 'm server \<Rightarrow> pb_error + 'm server" where
  "server_send_msg pb j client m sv =
     and_then (key_from_desc pb m) (\<lambda>(cid, typ). server_send pb j client cid typ m sv)"

text \<open>An exception ends the loop; what was sent before stays sent.\<close>

fun send_each ::
    "(u32 \<Rightarrow> 'm server \<Rightarrow> pb_error + 'm server) \<Rightarrow> u32 list \<Rightarrow> 'm server \<Rightarrow> 'm server \<times> pb_error option" where
  "send_each f [] sv = (sv, None)"
| "send_each f (i # is) sv =
     (case f i sv of Inl e \<Rightarrow> (sv, Some e) | Inr sv \<Rightarrow> send_each f is sv)"

definition send_to_all ::
    "'m protobuf \<Rightarrow> junk \<Rightarrow> u16 \<Rightarrow> u16 \<Rightarrow> 'm \<Rightarrow> 'm server \<Rightarrow> 'm server \<times> pb_error option" where
  "send_to_all pb j cid typ m sv =
     send_each (\<lambda>i. server_send pb j i cid typ m) (map fst (sv_sessions sv)) sv"

definition send_to_all_msg ::
    "'m protobuf \<Rightarrow> junk \<Rightarrow> 'm \<Rightarrow> 'm server \<Rightarrow> 'm server \<times> pb_error option" where
  "send_to_all_msg pb j m sv =
     send_each (\<lambda>i. server_send_msg pb j i m) (map fst (sv_sessions sv)) sv"

definition server_disconnect :: "u32 \<Rightarrow> 'm server \<Rightarrow> 'm server" where
  "server_disconnect client sv =
     (case map_of (sv_sessions sv) client of
        None \<Rightarrow> sv | Some p \<Rightarrow> on_session p session_disconnect sv)"

section \<open>Events\<close>

datatype 'm server_event =
    V_accepted error_code
  | V_byte nat u8
  | V_read_error nat string
  | V_written nat error_code
  | V_send u32 u16 u16 'm
  | V_send_to_all u16 u16 'm
  | V_disconnect u32

definition server_step ::
    "'m protobuf \<Rightarrow> (nat \<Rightarrow> bool) \<Rightarrow> junk \<Rightarrow> 'm server_event \<Rightarrow> 'm server \<Rightarrow> 'm server" where
  "server_step pb realloc_ok j ev sv =
     (case ev of
        V_accepted err \<Rightarrow> handle_accept j err sv
      | V_byte p b \<Rightarrow> if p < length (sv_objects sv)
          then on_session p (session_byte pb (sv_register sv) realloc_ok b) sv else sv
      | V_read_error p w \<Rightarrow> if p < length (sv_objects sv)
          then (case s_pending (sv_objects sv ! p) of
                  No_read \<Rightarrow> sv
                | Read_header _ \<Rightarrow> on_session p (session_read_header realloc_ok (Some w)) sv
                | Read_body _ \<Rightarrow> on_session p (session_read_message pb (sv_register sv) (Some w)) sv)
          else sv
      | V_written p err \<Rightarrow> if p < length (sv_objects sv) \<and> s_in_flight (sv_objects sv ! p) \<noteq> None
          then on_session p (session_written err) sv else sv
      | V_send client cid typ m \<Rightarrow> (case server_send pb j client cid typ m sv of Inl _ \<Rightarrow> sv | Inr sv \<Rightarrow> sv)
      | V_send_to_all cid typ m \<Rightarrow> fst (send_to_all pb j cid typ m sv)
      | V_disconnect client \<Rightarrow> server_disconnect client sv)"

end
