(* ===== verification/PbServerProps.thy ===== *)
theory PbServerProps
  imports PbServer
begin

text \<open>
  Properties of the stream server. A session reads and writes like a client of the second version
  (\<open>as_client\<close>), so it inherits what is proved of the client; bytes of different clients may arrive
  interleaved. The last part composes a client with the server.
\<close>

section \<open>A session is a client\<close>

definition call_effect :: "'m session_call \<Rightarrow> 'm client_effect" where
  "call_effect e = (case e of
     Call_rcvd cid typ m \<Rightarrow> Sig_rcvd cid typ m
   | Call_recv_failed cid typ x \<Rightarrow> Sig_recv_failed cid typ x
   | Call_disconnected err \<Rightarrow> Sig_disconnected err
   | Call_write x \<Rightarrow> Write_start x)"

definition as_client :: "'m message_register \<Rightarrow> 'm session \<Rightarrow> 'm client" where
  "as_client r s = \<lparr>cl_register = r, cl_version = PB_FRAME_V2, cl_connected = s_socket_open s,
     cl_socket_open = s_socket_open s, cl_outbound_active = s_outbound_active s,
     cl_outbound_queue = s_outbound_queue s, cl_in_flight = s_in_flight s,
     cl_in_frame_header = s_in_frame_header s, cl_in_data_size = s_in_data_size s,
     cl_in_data = s_in_data s, cl_pending = s_pending s, cl_got = s_got s,
     cl_trace = map call_effect (s_calls s)\<rparr>"

lemma as_client_message:
  "as_client r (session_read_message pb r None s) = handle_read_message pb j None (as_client r s)"
  by (simp add: session_read_message_def handle_read_message_def received_headers_def as_client_def
      s_call_def cl_emit_def start_read_def start_recv_def call_effect_def Let_def
      sizeof_frame_header_def split: sum.split)

lemma as_client_header:
  "as_client r (session_read_header (\<lambda>_. True) None s) = handle_read_header (\<lambda>_. True) None (as_client r s)"
  by (simp add: session_read_header_def handle_read_header_def as_client_def to_read_def Let_def)

lemma as_client_byte:
  "as_client r (session_byte pb r (\<lambda>_. True) b s) = client_byte pb (\<lambda>_. True) j b (as_client r s)"
proof -
  have upd: "as_client r (s\<lparr>s_got := g\<rparr>) = (as_client r s)\<lparr>cl_got := g\<rparr>"
    "as_client r (s\<lparr>s_in_frame_header := g\<rparr>) = (as_client r s)\<lparr>cl_in_frame_header := g\<rparr>"
    "as_client r (s\<lparr>s_in_data := h\<rparr>) = (as_client r s)\<lparr>cl_in_data := h\<rparr>" for g h and s :: "'a session"
    by (simp_all add: as_client_def)
  have same: "cl_connected (as_client r s) = s_socket_open s" "cl_socket_open (as_client r s) = s_socket_open s"
    "cl_pending (as_client r s) = s_pending s" "cl_got (as_client r s) = s_got s"
    "cl_in_data (as_client r s) = s_in_data s" for s :: "'a session"
    by (simp_all add: as_client_def)
  have settle: "as_client r (session_settle pb r s) = settle pb j (as_client r s)" for s
    by (simp add: session_settle_def settle_def same as_client_message [where j = j])
  show ?thesis
    by (simp add: session_byte_def client_byte_def same upd settle as_client_header
        as_client_message [where j = j] Let_def split: pending_read.split)
qed

lemma as_client_bytes:
  "as_client r (fold (session_byte pb r (\<lambda>_. True)) bs s)
   = fold (client_byte pb (\<lambda>_. True) j) bs (as_client r s)"
  by (induction bs arbitrary: s) (simp_all add: as_client_byte [where j = j])

lemma as_client_writer:
  "as_client r (session_push e s) = push_entry e (as_client r s)"
  "as_client r (session_written None s) = handle_write None (as_client r s)"
  by (simp_all add: session_push_def push_entry_def session_written_def handle_write_def
      session_start_write_def start_write_def s_call_def cl_emit_def as_client_def call_effect_def
      Let_def split: list.split)

lemma session_entry_client:
  "session_entry pb j cid typ m = client_entry pb j cid typ m PB_FRAME_V2"
  by (auto simp: session_entry_def client_entry_def Let_def and_then_def split: sum.split)

abbreviation enough :: "nat \<Rightarrow> bool" where "enough \<equiv> \<lambda>_. True"

text \<open>So a session is a receiver and a writer as well.\<close>

interpretation session_receiver: stream_receiver "session_byte pb r enough"
    "\<lambda>s. client_idle (as_client r s)" "\<lambda>s. client_heard (as_client r s)"
    "\<lambda>s. client_carries pb enough (as_client r s)" for pb r
proof (unfold_locales, goal_cases)
  case (1 s f d)
  then show ?case using client_frame(1) by (simp add: as_client_bytes [where j = undefined])
next
  case (2 s f d)
  then show ?case using client_frame(2) by (simp add: as_client_bytes [where j = undefined])
next
  case (3 s f d)
  then show ?case using client_frame(3) by (simp add: as_client_bytes [where j = undefined])
next
  case (4 s f d p)
  then show ?case using client_part by (simp add: as_client_bytes [where j = undefined])
qed

definition session_started :: "'m session \<Rightarrow> queue_entry list" where
  "session_started s = List.map_filter (\<lambda>e. case e of Call_write x \<Rightarrow> Some x | _ \<Rightarrow> None) (s_calls s)"

interpretation session_writer: ordered_writer "\<lambda>_. True" session_push "session_written None" s_outbound_active
    s_in_flight s_outbound_queue session_started
  by unfold_locales (simp_all add: session_push_def session_written_def session_start_write_def s_call_def
      session_started_def Let_def List.map_filter_def)

section \<open>Bytes of many clients\<close>

text \<open>What the server signals of a client's messages.\<close>

definition is_heard :: "u32 \<Rightarrow> 'm server_effect \<Rightarrow> bool" where
  "is_heard i e = (case e of Sv_rcvd k _ _ _ \<Rightarrow> k = i | Sv_recv_failed k _ _ _ \<Rightarrow> k = i | _ \<Rightarrow> False)"

definition server_heard :: "u32 \<Rightarrow> 'm server \<Rightarrow> 'm server_effect list" where
  "server_heard i sv = filter (is_heard i) (sv_trace sv)"

definition from_client :: "u32 \<Rightarrow> 'm client_effect \<Rightarrow> 'm server_effect" where
  "from_client i e = (case e of
     Sig_rcvd cid typ m \<Rightarrow> Sv_rcvd i cid typ m
   | Sig_recv_failed cid typ x \<Rightarrow> Sv_recv_failed i cid typ x
   | _ \<Rightarrow> Sv_connected i)"

lemma parent_call_fields [simp]:
  "sv_objects (parent_call i c sv) = sv_objects sv" "sv_register (parent_call i c sv) = sv_register sv"
  by (cases c; simp add: parent_call_def sv_emit_def disconnected_def)+

lemma parent_calls_fields [simp]:
  "sv_objects (fold (parent_call i) cs sv) = sv_objects sv"
  "sv_register (fold (parent_call i) cs sv) = sv_register sv"
  by (induction cs arbitrary: sv) simp_all

lemma parent_call_heard:
  "server_heard k (parent_call i c sv) = server_heard k sv
     @ (if k = i then map (from_client i) (filter is_receive [call_effect c]) else [])"
  by (cases c) (auto simp: parent_call_def sv_emit_def disconnected_def server_heard_def is_heard_def
      from_client_def is_receive_def call_effect_def)

lemma parent_calls_heard:
  "server_heard k (fold (parent_call i) cs sv) = server_heard k sv
     @ (if k = i then map (from_client i) (filter is_receive (map call_effect cs)) else [])"
proof (induction cs arbitrary: sv)
  case (Cons c cs)
  then show ?case by (cases "k = i") (simp_all add: parent_call_heard)
qed simp

lemma message_calls:
  "\<exists>es. s_calls (session_read_message pb r err s) = s_calls s @ es"
  "s_id (session_read_message pb r err s) = s_id s"
  by (cases err; simp add: session_read_message_def s_call_def start_read_def Let_def)+

lemma header_calls:
  "\<exists>es. s_calls (session_read_header ro err s) = s_calls s @ es"
  "s_id (session_read_header ro err s) = s_id s"
  by (cases err; simp add: session_read_header_def s_call_def Let_def)+

lemma byte_calls:
  "\<exists>es. s_calls (session_byte pb r ro b s) = s_calls s @ es" "s_id (session_byte pb r ro b s) = s_id s"
proof -
  have settle: "\<exists>es. s_calls (session_settle pb r s) = s_calls s @ es" "s_id (session_settle pb r s) = s_id s" for s
    by (auto simp: session_settle_def message_calls(2) intro: message_calls(1))
  obtain es where es: "s_calls (session_read_header ro None (s\<lparr>s_in_frame_header := s_got s @ [b]\<rparr>)) = s_calls s @ es"
    using header_calls(1) [of ro None "s\<lparr>s_in_frame_header := s_got s @ [b]\<rparr>"] by auto
  obtain fs where fs: "s_calls (session_settle pb r
      (session_read_header ro None (s\<lparr>s_in_frame_header := s_got s @ [b]\<rparr>))) = s_calls s @ es @ fs"
    using settle(1) [of "session_read_header ro None (s\<lparr>s_in_frame_header := s_got s @ [b]\<rparr>)"] es by auto
  show "\<exists>es. s_calls (session_byte pb r ro b s) = s_calls s @ es"
    using fs message_calls(1) [of pb r None "s\<lparr>s_in_data := fill (s_got s @ [b]) (s_in_data s)\<rparr>"]
    by (auto simp: session_byte_def Let_def split: pending_read.split)
  show "s_id (session_byte pb r ro b s) = s_id s"
    by (simp add: session_byte_def Let_def settle(2) header_calls(2) message_calls(2) split: pending_read.split)
qed

lemma as_client_heard: "client_heard (as_client r s) = filter is_receive (map call_effect (s_calls s))"
  by (simp add: client_heard_def as_client_def)

text \<open>One byte for the session \<open>q\<close>, seen from the session \<open>p\<close>.\<close>

lemma byte_step:
  assumes "distinct (map s_id (sv_objects sv))" and "p < length (sv_objects sv)"
    and "sv' = server_step pb enough j (V_byte q b) sv"
  shows "map s_id (sv_objects sv') = map s_id (sv_objects sv)" and "sv_register sv' = sv_register sv"
    and "sv_objects sv' ! p = (if q = p then session_byte pb (sv_register sv) enough b (sv_objects sv ! p)
           else sv_objects sv ! p)"
    and "\<exists>new. client_heard (as_client r (sv_objects sv' ! p)) = client_heard (as_client r (sv_objects sv ! p)) @ new
          \<and> server_heard (s_id (sv_objects sv ! p)) sv'
            = server_heard (s_id (sv_objects sv ! p)) sv @ map (from_client (s_id (sv_objects sv ! p))) new"
proof -
  have inj: "s_id (sv_objects sv ! q) = s_id (sv_objects sv ! p) \<longleftrightarrow> q = p" if "q < length (sv_objects sv)"
    using assms(1,2) that by (simp add: distinct_conv_nth) metis
  let ?s = "sv_objects sv ! q" and ?f = "session_byte pb (sv_register sv) enough b"
  obtain es where es: "s_calls (?f ?s) = s_calls ?s @ es" using byte_calls(1) by metis
  show "map s_id (sv_objects sv') = map s_id (sv_objects sv)"
    by (auto simp: assms(3) server_step_def on_session_def map_update byte_calls(2) Let_def list_update_same_conv)
  show "sv_register sv' = sv_register sv" by (simp add: assms(3) server_step_def on_session_def Let_def)
  show at: "sv_objects sv' ! p = (if q = p then session_byte pb (sv_register sv) enough b (sv_objects sv ! p)
      else sv_objects sv ! p)"
    using assms(2) by (simp add: assms(3) server_step_def on_session_def Let_def)
  show "\<exists>new. client_heard (as_client r (sv_objects sv' ! p)) = client_heard (as_client r (sv_objects sv ! p)) @ new
      \<and> server_heard (s_id (sv_objects sv ! p)) sv'
        = server_heard (s_id (sv_objects sv ! p)) sv @ map (from_client (s_id (sv_objects sv ! p))) new"
  proof (cases "q = p")
    case True
    have "server_heard (s_id ?s) (sv\<lparr>sv_objects := x\<rparr>) = server_heard (s_id ?s) sv" for x
      by (simp add: server_heard_def)
    then show ?thesis using es assms(2) True
      by (simp add: at as_client_heard)
        (simp add: assms(3) server_step_def on_session_def parent_calls_heard Let_def)
  next
    case False
    then have "server_heard (s_id (sv_objects sv ! p)) sv' = server_heard (s_id (sv_objects sv ! p)) sv"
      using inj by (simp add: assms(3) server_step_def on_session_def parent_calls_heard Let_def)
        (auto simp: server_heard_def)
    then show ?thesis using False by (simp add: at)
  qed
qed

definition server_bytes ::
    "'m protobuf \<Rightarrow> (nat \<Rightarrow> bool) \<Rightarrow> junk \<Rightarrow> (nat \<times> u8) list \<Rightarrow> 'm server \<Rightarrow> 'm server" where
  "server_bytes pb ro j es sv = fold (\<lambda>(q, b). server_step pb ro j (V_byte q b)) es sv"

lemma bytes_for_session:
  assumes "distinct (map s_id (sv_objects sv))" and "p < length (sv_objects sv)"
    and "sv' = server_bytes pb enough j es sv"
  shows "sv_objects sv' ! p
      = fold (session_byte pb (sv_register sv) enough) (map snd (filter (\<lambda>e. fst e = p) es)) (sv_objects sv ! p)
    \<and> (\<exists>new. client_heard (as_client r (sv_objects sv' ! p)) = client_heard (as_client r (sv_objects sv ! p)) @ new
        \<and> server_heard (s_id (sv_objects sv ! p)) sv'
          = server_heard (s_id (sv_objects sv ! p)) sv @ map (from_client (s_id (sv_objects sv ! p))) new)"
  using assms
proof (induction es arbitrary: sv)
  case Nil
  then show ?case by (simp add: server_bytes_def)
next
  case (Cons e es)
  obtain q b where e: "e = (q, b)" by (cases e)
  let ?sv = "server_step pb enough j (V_byte q b) sv"
  note st = byte_step [where pb = pb and j = j and q = q and b = b, OF Cons.prems(1,2) refl]
  have len: "length (sv_objects ?sv) = length (sv_objects sv)" using st(1) by (rule map_eq_imp_length_eq)
  have id: "s_id (sv_objects ?sv ! p) = s_id (sv_objects sv ! p)"
    using st(3) byte_calls(2) by (simp split: if_splits)
  have eq: "sv' = server_bytes pb enough j es ?sv" using Cons.prems(3) by (simp add: server_bytes_def e)
  have wf: "distinct (map s_id (sv_objects ?sv))" "p < length (sv_objects ?sv)"
    using Cons.prems(1,2) by (simp_all add: st(1) len)
  have IH: "sv_objects sv' ! p
      = fold (session_byte pb (sv_register sv) enough) (map snd (filter (\<lambda>e. fst e = p) es)) (sv_objects ?sv ! p)"
    "\<exists>new. client_heard (as_client r (sv_objects sv' ! p)) = client_heard (as_client r (sv_objects ?sv ! p)) @ new
        \<and> server_heard (s_id (sv_objects sv ! p)) sv'
          = server_heard (s_id (sv_objects sv ! p)) ?sv @ map (from_client (s_id (sv_objects sv ! p))) new"
    using Cons.IH [OF wf eq] unfolding st(2) id by blast+
  from IH(2) st(4) [of r] obtain new1 new2 where
    "client_heard (as_client r (sv_objects sv' ! p))
      = client_heard (as_client r (sv_objects sv ! p)) @ new1 @ new2"
    "server_heard (s_id (sv_objects sv ! p)) sv'
      = server_heard (s_id (sv_objects sv ! p)) sv @ map (from_client (s_id (sv_objects sv ! p))) (new1 @ new2)"
    by (metis append_assoc map_append)
  with IH(1) show ?case by (auto simp: e st(3))
qed

section \<open>From a client to the server\<close>

text \<open>
  What the protobuf library promises for a message: it can be serialized, and parsing the bytes on
  a registered prototype of its type gives it back. The size keeps within the signed 32-bit argument.
\<close>

definition faithful :: "'m protobuf \<Rightarrow> 'm message_register \<Rightarrow> u16 \<times> u16 \<times> 'm \<Rightarrow> bool" where
  "faithful pb r x = (case x of (cid, typ, m) \<Rightarrow>
     (case pb_serialize pb m of
        Serialized data \<Rightarrow> length data + 4 < 2 ^ 31 \<and> parsed pb r cid typ data = Inr m | _ \<Rightarrow> False))"

definition entry_of :: "'m protobuf \<Rightarrow> junk \<Rightarrow> u16 \<times> u16 \<times> 'm \<Rightarrow> queue_entry \<Rightarrow> bool" where
  "entry_of pb j x e = (case x of (cid, typ, m) \<Rightarrow> client_entry pb j cid typ m PB_FRAME_V2 = Inr e)"

definition signal_of :: "u16 \<times> u16 \<times> 'm \<Rightarrow> 'm client_effect" where
  "signal_of x = (case x of (cid, typ, m) \<Rightarrow> Sig_rcvd cid typ m)"

lemma entry_carries:
  assumes "faithful pb (cl_register c) x" and "entry_of pb j x e" and "cl_version c = PB_FRAME_V2"
  shows "client_carries pb enough c (wire e) (signal_of x)"
proof -
  obtain cid ty m where x: "x = (cid, ty, m)" by (cases x)
  obtain data where data: "pb_serialize pb m = Serialized data"
    "wire e = frame_bytes PB_FRAME_V2 (junk_reserved j) cid ty data"
    using client_entry_wire assms(2) by (force simp: entry_of_def x)
  then have "receive_signal pb (cl_register c) cid ty data = signal_of x" "length data + 4 < 2 ^ 31"
    using assms(1) by (simp_all add: faithful_def x receive_signal_def signal_of_def)
  then show ?thesis using data(2) assms(3) unfolding client_carries_def by metis
qed

lemma entries_carry:
  "\<forall>x\<in>set xs. faithful pb (cl_register c) x \<Longrightarrow> list_all2 (entry_of pb j) xs es \<Longrightarrow>
   cl_version c = PB_FRAME_V2 \<Longrightarrow> list_all2 (client_carries pb enough c) (map wire es) (map signal_of xs)"
  by (induction xs arbitrary: es) (auto simp: list_all2_Cons1 intro: entry_carries)

lemma bytes_from_client:
  assumes "distinct (map s_id (sv_objects sv))" and "p < length (sv_objects sv)"
    and "client_idle (as_client r (sv_objects sv ! p))" and "sv_register sv = r"
    and "\<forall>x\<in>set msgs. faithful pb r x" and "list_all2 (entry_of pb j) msgs entries"
    and "map snd (filter (\<lambda>e. fst e = p) es) = concat (map wire entries)"
    and "i = s_id (sv_objects sv ! p)"
  shows "server_heard i (server_bytes pb enough j' es sv)
    = server_heard i sv @ map (\<lambda>(cid, typ, m). Sv_rcvd i cid typ m) msgs"
proof -
  let ?s = "sv_objects sv ! p" and ?sv = "server_bytes pb enough j' es sv"
  have c: "cl_register (as_client r ?s) = r" "cl_version (as_client r ?s) = PB_FRAME_V2"
    by (simp_all add: as_client_def)
  have "list_all2 (client_carries pb enough (as_client r ?s)) (map wire entries) (map signal_of msgs)"
    using entries_carry [of msgs pb "as_client r ?s" j entries] assms(5,6) c by simp
  from session_receiver.frames [OF assms(3) this]
  have heard: "client_heard (as_client r (fold (session_byte pb r enough) (concat (map wire entries)) ?s))
      = client_heard (as_client r ?s) @ map signal_of msgs" by blast
  note b = bytes_for_session [OF assms(1,2) refl, of pb j' es r]
  from b have at: "sv_objects ?sv ! p = fold (session_byte pb r enough) (concat (map wire entries)) ?s"
    by (simp add: assms(4,7))
  from b obtain new where "client_heard (as_client r (sv_objects ?sv ! p)) = client_heard (as_client r ?s) @ new"
    "server_heard i ?sv = server_heard i sv @ map (from_client i) new" by (auto simp: assms(8))
  then have "server_heard i ?sv = server_heard i sv @ map (from_client i) (map signal_of msgs)"
    using heard by (simp add: at)
  then show ?thesis by (simp add: from_client_def signal_of_def comp_def split_def)
qed

text \<open>
  C14 What a client has written arrives: if the bytes that the server reads from one of its sessions
  are those that the client has handed to its socket, the server signals exactly the client's
  messages with their components and types, in their order and for the number of that client; the
  bytes may come in any pieces and between those of other clients. This needs of the protobuf
  library that each message can be serialized and is parsed back by the type registered for it.
\<close>

theorem messages_arrive:
  assumes "distinct (map s_id (sv_objects sv))" and "p < length (sv_objects sv)"
    and "client_idle (as_client (sv_register sv) (sv_objects sv ! p))"
    and "\<forall>x\<in>set msgs. faithful pb (sv_register sv) x"
    and "list_all2 (entry_of pb j) msgs (client_started c)"
    and "map snd (filter (\<lambda>e. fst e = p) es) = concat (map wire (client_started c))"
    and "i = s_id (sv_objects sv ! p)"
  shows "server_heard i (server_bytes pb enough j' es sv)
    = server_heard i sv @ map (\<lambda>(cid, typ, m). Sv_rcvd i cid typ m) msgs"
  by (rule bytes_from_client [OF assms(1-3) refl assms(4-7)])

definition demo_server :: "u8 list server" where
  "demo_server = handle_accept demo_junk None (handle_accept demo_junk None (Server_new demo_junk demo_register))"

lemma demo_server_eq:
  "demo_server = \<lparr>sv_register = demo_register, sv_next_cid = 4,
     sv_objects = [start_read ((Session_new demo_junk 1)\<lparr>s_socket_open := True\<rparr>),
                   start_read ((Session_new demo_junk 2)\<lparr>s_socket_open := True\<rparr>), Session_new demo_junk 3],
     sv_sessions = [(1, 0), (2, 1)], sv_accepting = 2, sv_trace = [Sv_connected 1, Sv_connected 2]\<rparr>"
  by (simp add: demo_server_def Server_new_def handle_accept_def start_accept_def sv_emit_def Let_def
      Session_new_def start_read_def)

lemma demo_faithful: "length m < 2 ^ 31 - 4 \<Longrightarrow> faithful demo_pb demo_register (2000, 13, m)"
  using demo_parsed [of m] by (simp add: faithful_def) (simp add: demo_pb_def)

definition demo_sending :: "u8 list client" where
  "demo_sending = client_run demo_pb enough demo_junk
     [E_send 2000 13 [1], E_send 2000 13 [2, 3], E_written None] (demo_client PB_FRAME_V2)"

lemma demo_sending_entries:
  "list_all2 (entry_of demo_pb demo_junk) [(2000, 13, [1]), (2000, 13, [2, 3])] (client_started demo_sending)"
  using demo_entry [of 2000 13 "[1]" PB_FRAME_V2] demo_entry [of 2000 13 "[2, 3]" PB_FRAME_V2]
  by (auto simp: demo_sending_def demo_client_defs handle_write_def client_started_def
      List.map_filter_def entry_of_def)

theorem messages_arrive_witness:
  "\<exists>es. server_heard 1 (server_bytes demo_pb enough demo_junk es demo_server)
      = [Sv_rcvd 1 2000 13 [1], Sv_rcvd 1 2000 13 [2, 3]]"
proof -
  let ?bs = "concat (map wire (client_started demo_sending))"
  let ?es = "concat (map (\<lambda>b. [(0 :: nat, b), (1, 77)]) ?bs)"
  have "map snd (filter (\<lambda>e. fst e = 0) (concat (map (\<lambda>b. [(0 :: nat, b), (1, 77)]) bs))) = bs" for bs :: "u8 list"
    by (induction bs) simp_all
  then have es: "map snd (filter (\<lambda>e. fst e = 0) ?es) = ?bs" .
  have sv: "distinct (map s_id (sv_objects demo_server))" "0 < length (sv_objects demo_server)"
    "client_idle (as_client (sv_register demo_server) (sv_objects demo_server ! 0))"
    "1 = s_id (sv_objects demo_server ! 0)" "server_heard 1 demo_server = []"
    by (simp_all add: demo_server_eq start_read_def Session_new_def client_idle_def as_client_def
        sizeof_frame_header_def server_heard_def is_heard_def)
  have "\<forall>x\<in>set [(2000, 13, [1]), (2000, 13, [2, 3])]. faithful demo_pb (sv_register demo_server) x"
    using demo_faithful by (simp add: demo_server_eq)
  from messages_arrive [OF sv(1-3) this demo_sending_entries es sv(4), of demo_junk] sv(5)
  show ?thesis by auto
qed

section \<open>The table of sessions\<close>

text \<open>
  Numbers are given to the objects in the order in which they are made; the last object waits for a
  connection, and the table maps the number of an object to it.
\<close>

definition server_ok :: "'m server \<Rightarrow> bool" where
  "server_ok sv \<longleftrightarrow> sv_objects sv \<noteq> [] \<and> sv_accepting sv = length (sv_objects sv) - 1
     \<and> map s_id (sv_objects sv) = map word_of_nat [1..<Suc (length (sv_objects sv))]
     \<and> sv_next_cid sv = word_of_nat (Suc (length (sv_objects sv)))
     \<and> map_ok (sv_sessions sv)
     \<and> (\<forall>i p. map_of (sv_sessions sv) i = Some p \<longrightarrow>
          p < length (sv_objects sv) \<and> s_id (sv_objects sv ! p) = i)"

lemma server_ok_shrink:
  assumes "server_ok sv" and "map s_id (sv_objects sv') = map s_id (sv_objects sv)"
    and "sv_accepting sv' = sv_accepting sv" and "sv_next_cid sv' = sv_next_cid sv"
    and "map_ok (sv_sessions sv')"
    and "\<And>i p. map_of (sv_sessions sv') i = Some p \<Longrightarrow> map_of (sv_sessions sv) i = Some p"
  shows "server_ok sv'"
proof -
  have len: "length (sv_objects sv') = length (sv_objects sv)" using assms(2) by (rule map_eq_imp_length_eq)
  have "s_id (sv_objects sv' ! p) = s_id (sv_objects sv ! p)" if "p < length (sv_objects sv)" for p
    using arg_cong [OF assms(2), of "\<lambda>xs. xs ! p"] that len by simp
  then have tbl: "p < length (sv_objects sv) \<and> s_id (sv_objects sv' ! p) = i"
    if "map_of (sv_sessions sv') i = Some p" for i p
    using assms(1) assms(6) [OF that] by (simp add: server_ok_def)
  have "sv_objects sv' \<noteq> []" using assms(1) len by (auto simp: server_ok_def)
  then show ?thesis using assms(1,5) tbl by (simp add: server_ok_def assms(2-4) len del: upt_Suc)
qed

lemma parent_call_table:
  assumes "map_ok (sv_sessions sv)"
  shows "map_ok (sv_sessions (parent_call i c sv))"
    and "map_of (sv_sessions (parent_call i c sv)) k = Some q \<Longrightarrow> map_of (sv_sessions sv) k = Some q"
    and "sv_accepting (parent_call i c sv) = sv_accepting sv"
    and "sv_next_cid (parent_call i c sv) = sv_next_cid sv"
proof -
  show "map_ok (sv_sessions (parent_call i c sv))"
    using assms by (cases c) (simp_all add: parent_call_def sv_emit_def disconnected_def map_ok_del)
  show "map_of (sv_sessions sv) k = Some q" if "map_of (sv_sessions (parent_call i c sv)) k = Some q"
    using assms that
    by (cases c; cases "k = i") (simp_all add: parent_call_def sv_emit_def disconnected_def map_of_del)
  show "sv_accepting (parent_call i c sv) = sv_accepting sv" "sv_next_cid (parent_call i c sv) = sv_next_cid sv"
    by (cases c; simp add: parent_call_def sv_emit_def disconnected_def)+
qed

lemma parent_calls_table:
  "map_ok (sv_sessions sv) \<Longrightarrow> map_ok (sv_sessions (fold (parent_call i) cs sv))
     \<and> (\<forall>k q. map_of (sv_sessions (fold (parent_call i) cs sv)) k = Some q \<longrightarrow> map_of (sv_sessions sv) k = Some q)
     \<and> sv_accepting (fold (parent_call i) cs sv) = sv_accepting sv
     \<and> sv_next_cid (fold (parent_call i) cs sv) = sv_next_cid sv"
proof (induction cs arbitrary: sv)
  case (Cons c cs)
  note t = parent_call_table [OF Cons.prems, where i = i and c = c]
  from Cons.IH [OF t(1)] t(2-4) show ?case by simp
qed simp

lemma on_session_ok:
  assumes "server_ok sv" and "\<And>s. s_id (f s) = s_id s"
  shows "server_ok (on_session p f sv)"
proof (rule server_ok_shrink [OF assms(1)])
  let ?sv = "sv\<lparr>sv_objects := (sv_objects sv)[p := f (sv_objects sv ! p)]\<rparr>"
  have "map_ok (sv_sessions ?sv)" using assms(1) by (simp add: server_ok_def)
  note t = parent_calls_table [OF this]
  show "map s_id (sv_objects (on_session p f sv)) = map s_id (sv_objects sv)"
    by (cases "p < length (sv_objects sv)")
      (simp_all add: on_session_def Let_def map_update assms(2) list_update_same_conv list_update_beyond)
  show "sv_accepting (on_session p f sv) = sv_accepting sv" "sv_next_cid (on_session p f sv) = sv_next_cid sv"
    "map_ok (sv_sessions (on_session p f sv))"
    using t by (simp_all add: on_session_def Let_def)
  show "map_of (sv_sessions sv) i = Some q" if "map_of (sv_sessions (on_session p f sv)) i = Some q" for i q
    using t that by (simp add: on_session_def Let_def)
qed

lemma push_id: "s_id (session_push e s) = s_id s"
  by (simp add: session_push_def session_start_write_def s_call_def)

lemma send_push:
  "server_send pb j client cid ty m sv = Inr sv' \<Longrightarrow> \<exists>p e. map_of (sv_sessions sv) client = Some p
     \<and> session_entry pb j cid ty m = Inr e \<and> sv' = on_session p (session_push e) sv"
  by (auto simp: server_send_def session_send_def and_then_Inr_iff on_session_def Let_def split: option.splits)

lemma server_send_ok:
  assumes "server_ok sv" and "server_send pb j client cid ty m sv = Inr sv'"
  shows "server_ok sv'"
proof -
  obtain p e where "sv' = on_session p (session_push e) sv" using send_push [OF assms(2)] by blast
  then show ?thesis using on_session_ok [OF assms(1), of "session_push e", OF push_id] by simp
qed

lemma send_each_ok:
  "server_ok sv \<Longrightarrow> server_ok (fst (send_each (\<lambda>i. server_send pb j i cid ty m) is sv))"
  by (induction "is" arbitrary: sv) (auto intro: server_send_ok split: sum.split)

lemma start_accept_ok:
  assumes "server_ok sv"
  shows "server_ok (start_accept j sv)"
proof -
  let ?n = "length (sv_objects sv)"
  have "[1..<Suc (Suc ?n)] = [1..<Suc ?n] @ [Suc ?n]" by simp
  then show ?thesis using assms
    by (simp add: server_ok_def start_accept_def Session_new_def nth_append add.commute less_Suc_eq del: upt_Suc)
qed

lemma server_ok_step:
  assumes "server_ok sv"
  shows "server_ok (server_step pb ro j ev sv)"
proof (cases ev)
  case (V_accepted err)
  let ?p = "sv_accepting sv"
  have p: "?p < length (sv_objects sv)" using assms by (simp add: server_ok_def)
  let ?s = "start_read ((sv_objects sv ! ?p)\<lparr>s_socket_open := True\<rparr>)"
  have idr: "s_id (start_read s) = s_id s" for s :: "'a session" by (simp add: start_read_def)
  have id: "s_id ?s = s_id (sv_objects sv ! ?p)" by (simp add: idr)
  have ids: "map s_id ((sv_objects sv)[?p := ?s]) = map s_id (sv_objects sv)"
    using p id by (simp add: map_update list_update_same_conv)
  have "s_id ((sv_objects sv)[?p := ?s] ! q) = s_id (sv_objects sv ! q)" if "q < length (sv_objects sv)" for q
    using that id by (cases "q = ?p") simp_all
  then have "server_ok (sv_emit (Sv_connected i) (sv\<lparr>sv_sessions := map_put (s_id (sv_objects sv ! ?p)) ?p (sv_sessions sv)\<rparr>)
      \<lparr>sv_objects := (sv_objects sv)[?p := ?s]\<rparr>)" for i
    using assms ids p
    by (auto simp: server_ok_def sv_emit_def map_of_put map_ok_put idr Suc_le_eq split: if_splits)
  then show ?thesis using assms
    by (auto simp: V_accepted server_step_def handle_accept_def sv_emit_def Let_def intro!: start_accept_ok)
next
  case (V_byte p b)
  then show ?thesis using assms by (simp add: server_step_def on_session_ok byte_calls(2))
next
  case (V_read_error p w)
  then show ?thesis using assms
    by (simp add: server_step_def on_session_ok header_calls(2) message_calls(2) split: pending_read.split)
next
  case (V_written p err)
  have "s_id (session_written err s) = s_id s" for s :: "'a session"
    by (simp add: session_written_def session_start_write_def s_call_def Let_def split: option.split list.split)
  then show ?thesis using assms by (simp add: V_written server_step_def on_session_ok)
next
  case (V_send i cid ty m)
  then show ?thesis using assms by (auto simp: server_step_def intro: server_send_ok split: sum.split)
next
  case (V_send_to_all cid ty m)
  then show ?thesis using assms by (simp add: server_step_def send_to_all_def send_each_ok)
next
  case (V_disconnect i)
  then show ?thesis using assms
    by (auto simp: server_step_def server_disconnect_def session_disconnect_def intro!: on_session_ok
        split: option.split)
qed

lemma server_ok_new: "server_ok (Server_new j r)"
  by (simp add: server_ok_def Server_new_def start_accept_def Session_new_def)

lemma server_ok_run: "server_ok sv \<Longrightarrow> server_ok (fold (server_step pb ro j) evs sv)"
  by (induction evs arbitrary: sv) (simp_all add: server_ok_step)

lemma server_ok_distinct:
  assumes "server_ok sv" and "length (sv_objects sv) < 2 ^ 32"
  shows "distinct (map s_id (sv_objects sv))"
proof -
  have "inj_on (word_of_nat :: nat \<Rightarrow> u32) {1..<Suc (length (sv_objects sv))}"
    using assms(2) by (intro inj_onI) (auto simp: word_of_nat_eq_iff take_bit_eq_mod)
  then show ?thesis using assms(1) by (simp add: server_ok_def distinct_map del: upt_Suc)
qed

text \<open>
  C17 Clients and numbers: after any events the table maps the number of every connected client to the
  session that was made with this number, and as long as fewer than \<open>2 ^ 32\<close> sessions have been made
  no two sessions have the same number, so a message to a client goes to its own socket only.
\<close>

theorem server_table_correct:
  assumes "sv = fold (server_step pb ro j) evs (Server_new j r)"
    and "length (sv_objects sv) < 2 ^ 32" and "map_of (sv_sessions sv) i = Some p"
  shows "p < length (sv_objects sv) \<and> s_id (sv_objects sv ! p) = i
    \<and> distinct (map s_id (sv_objects sv))
    \<and> (\<forall>cid ty m sv'. server_send pb j i cid ty m sv = Inr sv' \<longrightarrow>
         (\<exists>e. sv_objects sv' ! p = session_push e (sv_objects sv ! p))
         \<and> (\<forall>q. q < length (sv_objects sv) \<and> s_id (sv_objects sv ! q) \<noteq> i \<longrightarrow> sv_objects sv' ! q = sv_objects sv ! q))"
proof -
  have ok: "server_ok sv" using server_ok_run [OF server_ok_new] by (simp add: assms(1))
  then have p: "p < length (sv_objects sv)" "s_id (sv_objects sv ! p) = i"
    using assms(3) by (simp_all add: server_ok_def)
  have "(\<exists>e. sv_objects sv' ! p = session_push e (sv_objects sv ! p))
      \<and> (\<forall>q. q < length (sv_objects sv) \<and> s_id (sv_objects sv ! q) \<noteq> i \<longrightarrow> sv_objects sv' ! q = sv_objects sv ! q)"
    if snd: "server_send pb j i cid ty m sv = Inr sv'" for cid ty m sv'
  proof -
    obtain e where e: "sv' = on_session p (session_push e) sv" using send_push [OF snd] assms(3) by auto
    have "sv_objects sv' = (sv_objects sv)[p := session_push e (sv_objects sv ! p)]"
      by (simp add: e on_session_def Let_def)
    then show ?thesis using p by (auto simp: nth_list_update)
  qed
  then show ?thesis using p server_ok_distinct [OF ok assms(2)] by blast
qed

theorem server_table_correct_witness:
  "\<exists>p. p < length (sv_objects demo_server) \<and> s_id (sv_objects demo_server ! p) = 2"
proof -
  have "demo_server = fold (server_step demo_pb enough demo_junk) [V_accepted None, V_accepted None]
      (Server_new demo_junk demo_register)"
    by (simp add: demo_server_def server_step_def)
  moreover have "length (sv_objects demo_server) < 2 ^ 32" "map_of (sv_sessions demo_server) 2 = Some 1"
    by (simp_all add: demo_server_eq)
  ultimately show ?thesis using server_table_correct by blast
qed

text \<open>A session that fails to read and to write reports its client as disconnected twice.\<close>

lemma disconnected_twice:
  assumes "p < length (sv_objects sv)" and "s_pending (sv_objects sv ! p) = Read_header n"
    and "s_in_flight (sv_objects sv ! p) = Some e"
  shows "sv_trace (fold (server_step pb ro j) [V_read_error p w, V_written p (Some w')] sv)
    = sv_trace sv @ [Sv_disconnected (s_id (sv_objects sv ! p)) (Some w),
                     Sv_disconnected (s_id (sv_objects sv ! p)) (Some w')]"
  using assms
  by (simp add: server_step_def on_session_def session_read_header_def session_written_def s_call_def
      parent_call_def disconnected_def sv_emit_def Let_def)

section \<open>Reading into the buffer\<close>

text \<open>A session never waits for more bytes than its buffer has.\<close>

definition session_fits :: "'m session \<Rightarrow> bool" where
  "session_fits s \<longleftrightarrow> (\<forall>n. s_pending s = Read_body n \<longrightarrow> n \<le> s_in_data_size s \<and> length (s_got s) \<le> n)"

lemma fits_message: "session_fits (session_read_message pb r err s)"
  by (cases err) (simp_all add: session_fits_def session_read_message_def s_call_def start_read_def Let_def)

lemma fits_header: "session_fits (session_read_header enough err s)"
  by (cases err) (simp_all add: session_fits_def session_read_header_def s_call_def Let_def)

lemma fits_byte:
  assumes "session_fits s"
  shows "session_fits (session_byte pb r enough b s)"
proof -
  have settle: "session_fits (session_settle pb r s)" if "session_fits s" for s
    using that by (simp add: session_settle_def fits_message)
  show ?thesis
    using assms settle [OF fits_header, of None]
    by (simp add: session_byte_def fits_message Let_def split: pending_read.split)
      (simp add: session_fits_def)
qed

lemma fits_push: "session_fits s \<Longrightarrow> session_fits (session_push e s)"
  by (simp add: session_fits_def session_push_def session_start_write_def s_call_def)

lemma fits_written: "session_fits s \<Longrightarrow> session_fits (session_written err s)"
  by (cases err)
    (simp_all add: session_fits_def session_written_def session_start_write_def s_call_def Let_def
      split: list.split)

lemma fits_disconnect: "session_fits s \<Longrightarrow> session_fits (session_disconnect s)"
  by (simp add: session_fits_def session_disconnect_def)

lemma fits_start: "session_fits (start_read s)" "session_fits (Session_new j i)"
  by (simp_all add: session_fits_def start_read_def Session_new_def)

definition all_fit :: "'m server \<Rightarrow> bool" where
  "all_fit sv \<longleftrightarrow> (\<forall>s\<in>set (sv_objects sv). session_fits s)"

lemma all_fit_on:
  assumes "all_fit sv" and "\<And>s. session_fits s \<Longrightarrow> session_fits (f s)"
  shows "all_fit (on_session p f sv)"
proof (cases "p < length (sv_objects sv)")
  case True
  then have "session_fits (f (sv_objects sv ! p))" using assms by (simp add: all_fit_def)
  then show ?thesis using assms(1) set_update_subset_insert [of "sv_objects sv" p "f (sv_objects sv ! p)"]
    by (auto simp: all_fit_def on_session_def Let_def)
next
  case False
  then show ?thesis using assms(1) by (simp add: all_fit_def on_session_def Let_def list_update_beyond)
qed

lemma all_fit_send:
  assumes "all_fit sv" and "server_send pb j client cid ty m sv = Inr sv'"
  shows "all_fit sv'"
  using send_push [OF assms(2)] all_fit_on [OF assms(1)] fits_push by blast

lemma all_fit_send_each:
  "all_fit sv \<Longrightarrow> all_fit (fst (send_each (\<lambda>i. server_send pb j i cid ty m) is sv))"
  by (induction "is" arbitrary: sv) (auto intro: all_fit_send split: sum.split)

lemma all_fit_accept: "all_fit sv \<Longrightarrow> all_fit (handle_accept j err sv)"
  by (auto simp: all_fit_def handle_accept_def start_accept_def sv_emit_def Let_def fits_start
      dest!: subsetD [OF set_update_subset_insert])

lemma all_fit_step:
  assumes "all_fit sv"
  shows "all_fit (server_step pb enough j ev sv)"
proof (cases ev)
  case (V_read_error p w)
  then show ?thesis using assms
    by (simp add: server_step_def all_fit_on fits_header fits_message split: pending_read.split)
next
  case (V_disconnect i)
  then show ?thesis using assms
    by (simp add: server_step_def server_disconnect_def all_fit_on fits_disconnect split: option.split)
qed (use assms in \<open>simp_all add: server_step_def all_fit_accept all_fit_on fits_byte fits_written
      all_fit_send_each send_to_all_def all_fit_send split: sum.split\<close>)

lemma all_fit_run:
  "all_fit sv \<Longrightarrow> all_fit (fold (server_step pb enough j) evs sv)"
  by (induction evs arbitrary: sv) (simp_all add: all_fit_step)

lemma all_fit_new: "all_fit (Server_new j r)"
  by (simp add: all_fit_def Server_new_def start_accept_def fits_start)

text \<open>Bytes that do not complete what is waited for are only collected.\<close>

lemma bytes_collected:
  assumes "p < length (sv_objects sv)" and "s_socket_open (sv_objects sv ! p)"
    and "s_pending (sv_objects sv ! p) = Read_header n \<or> s_pending (sv_objects sv ! p) = Read_body n"
    and "length (s_got (sv_objects sv ! p)) + length bs < n"
  shows "server_bytes pb ro j (map (Pair p) bs) sv
    = sv\<lparr>sv_objects := (sv_objects sv)[p := (sv_objects sv ! p)\<lparr>s_got := s_got (sv_objects sv ! p) @ bs\<rparr>]\<rparr>"
  using assms
proof (induction bs arbitrary: sv)
  case Nil
  then show ?case by (simp add: server_bytes_def)
next
  case (Cons b bs)
  let ?sv = "sv\<lparr>sv_objects := (sv_objects sv)[p := (sv_objects sv ! p)\<lparr>s_got := s_got (sv_objects sv ! p) @ [b]\<rparr>]\<rparr>"
  have "server_step pb ro j (V_byte p b) sv = ?sv"
    using Cons.prems by (auto simp: server_step_def on_session_def session_byte_def Let_def)
  then have "server_bytes pb ro j (map (Pair p) (b # bs)) sv = server_bytes pb ro j (map (Pair p) bs) ?sv"
    by (simp add: server_bytes_def)
  also have "\<dots> = ?sv\<lparr>sv_objects := (sv_objects ?sv)[p := (sv_objects ?sv ! p)\<lparr>s_got := s_got (sv_objects ?sv ! p) @ bs\<rparr>]\<rparr>"
    by (rule Cons.IH) (use Cons.prems in simp_all)
  finally show ?case using Cons.prems(1) by simp
qed

lemma server_bytes_snoc:
  "server_bytes pb ro j (es @ [(p, b)]) sv = server_step pb ro j (V_byte p b) (server_bytes pb ro j es sv)"
  by (simp add: server_bytes_def)

text \<open>The header of a message that is too large, when the allocation fails.\<close>

lemma header_without_memory:
  assumes p: "p < length (sv_objects sv)" and s: "s = sv_objects sv ! p"
    and "s_socket_open s" and "s_pending s = Read_header (length h)" and "s_got s = []" and "h \<noteq> []"
    and n: "n = unat (ntohl (payload_size (fh_of h)))" and "s_in_data_size s < n" and "\<not> ro n"
  shows "server_bytes pb ro j (map (Pair p) h) sv
    = disconnected (s_id s) (Some ''not_enough_memory'') (sv\<lparr>sv_objects := (sv_objects sv)[p :=
        s\<lparr>s_in_frame_header := h, s_calls := s_calls s @ [Call_disconnected (Some ''not_enough_memory'')],
          s_pending := Read_body n, s_got := []\<rparr>]\<rparr>)"
proof -
  obtain xs x where h: "h = xs @ [x]" using \<open>h \<noteq> []\<close> by (metis rev_exhaust)
  have xs: "server_bytes pb ro j (map (Pair p) xs) sv = sv\<lparr>sv_objects := (sv_objects sv)[p := s\<lparr>s_got := xs\<rparr>]\<rparr>"
    using bytes_collected [of p sv "length h" xs pb ro j] assms by (simp add: h)
  have "server_bytes pb ro j (map (Pair p) h) sv
      = server_step pb ro j (V_byte p x) (sv\<lparr>sv_objects := (sv_objects sv)[p := s\<lparr>s_got := xs\<rparr>]\<rparr>)"
    by (simp add: h server_bytes_snoc xs)
  moreover have "session_byte pb (sv_register sv) ro x (s\<lparr>s_got := xs\<rparr>)
      = s\<lparr>s_in_frame_header := h, s_calls := s_calls s @ [Call_disconnected (Some ''not_enough_memory'')],
          s_pending := Read_body n, s_got := []\<rparr>"
  proof -
    have "session_read_header ro None (s\<lparr>s_got := xs, s_in_frame_header := h\<rparr>)
      = s\<lparr>s_in_frame_header := h, s_calls := s_calls s @ [Call_disconnected (Some ''not_enough_memory'')],
          s_pending := Read_body n, s_got := []\<rparr>" (is "_ = ?t")
      using assms(8,9) by (simp add: session_read_header_def s_call_def n [symmetric] Let_def)
    moreover have "session_settle pb (sv_register sv) ?t = ?t"
      using assms(8) by (simp add: session_settle_def)
    ultimately show ?thesis using assms(3,4) by (simp add: session_byte_def h Let_def)
  qed
  ultimately show ?thesis using p
    by (simp add: server_step_def on_session_def parent_call_def Let_def)
qed

text \<open>The bytes of a message are put into the buffer, whatever its size.\<close>

lemma body_is_copied:
  assumes "p < length (sv_objects sv)" and "s_socket_open (sv_objects sv ! p)"
    and "s_pending (sv_objects sv ! p) = Read_body (length bs)" and "s_got (sv_objects sv ! p) = []"
    and "bs \<noteq> []" and "k < length bs"
  shows "s_in_data (sv_objects (server_bytes pb ro j (map (Pair p) bs) sv) ! p) k = bs ! k"
proof -
  obtain xs x where bs: "bs = xs @ [x]" using \<open>bs \<noteq> []\<close> by (metis rev_exhaust)
  let ?s = "sv_objects sv ! p"
  have xs: "server_bytes pb ro j (map (Pair p) xs) sv = sv\<lparr>sv_objects := (sv_objects sv)[p := ?s\<lparr>s_got := xs\<rparr>]\<rparr>"
    using bytes_collected [of p sv "length bs" xs pb ro j] assms by (simp add: bs)
  have "server_bytes pb ro j (map (Pair p) bs) sv
      = server_step pb ro j (V_byte p x) (sv\<lparr>sv_objects := (sv_objects sv)[p := ?s\<lparr>s_got := xs\<rparr>]\<rparr>)"
    by (simp add: bs server_bytes_snoc xs)
  also have "sv_objects \<dots> ! p = session_read_message pb (sv_register sv) None
      (?s\<lparr>s_got := xs, s_in_data := fill bs (s_in_data ?s)\<rparr>)"
    using assms(1-3) by (simp add: server_step_def on_session_def session_byte_def bs Let_def)
  finally show ?thesis using assms(6)
    by (simp add: session_read_message_def s_call_def start_read_def fill_def Let_def split: sum.split)
qed

lemma header_overruns:
  assumes "server_ok sv" and "p < length (sv_objects sv)" and "s = sv_objects sv ! p" and "s_socket_open s"
    and "s_got s = []" and "s_pending s = Read_header sizeof_frame_header"
    and "length h = sizeof_frame_header" and "length bs = unat (ntohl (payload_size (fh_of h)))"
    and "s_in_data_size s < length bs" and "\<not> ro (length bs)"
    and "sv1 = server_bytes pb ro j (map (Pair p) h) sv"
    and "sv2 = server_bytes pb ro j (map (Pair p) bs) sv1"
  shows "sv_trace sv1 = sv_trace sv @ [Sv_disconnected (s_id s) (Some ''not_enough_memory'')]
      \<and> map_of (sv_sessions sv1) (s_id s) = None
      \<and> s_socket_open (sv_objects sv1 ! p) \<and> s_in_data_size (sv_objects sv1 ! p) = s_in_data_size s
      \<and> \<not> session_fits (sv_objects sv1 ! p)
      \<and> (\<forall>k<length bs. s_in_data (sv_objects sv2 ! p) k = bs ! k)"
proof -
  have ok: "map_ok (sv_sessions sv)" using assms(1) by (simp add: server_ok_def)
  have "h \<noteq> []" using assms(7) by (auto simp: sizeof_frame_header_def)
  have "sv1 = disconnected (s_id s) (Some ''not_enough_memory'') (sv\<lparr>sv_objects := (sv_objects sv)[p :=
        s\<lparr>s_in_frame_header := h, s_calls := s_calls s @ [Call_disconnected (Some ''not_enough_memory'')],
          s_pending := Read_body (length bs), s_got := []\<rparr>]\<rparr>)"
    unfolding assms(11)
    by (rule header_without_memory) (use assms \<open>h \<noteq> []\<close> in simp_all)
  note d = this [unfolded disconnected_def sv_emit_def]
  have "s_in_data (sv_objects sv2 ! p) k = bs ! k" if "k < length bs" for k
    unfolding assms(12) by (rule body_is_copied) (use assms(2,4) that in \<open>auto simp: d\<close>)
  then show ?thesis using assms(2,4,9) ok by (simp add: d session_fits_def map_of_del)
qed

text \<open>
  C18 Buffers: as long as every allocation succeeds, after any events no session of a server waits
  for a message that is larger than its buffer. One failed allocation is enough to break this. Take
  any state of the server and a session that is open and waits for a header. The header announces
  more bytes than the buffer has, and the allocation of so many fails: then the client is reported
  as disconnected and its number is forgotten, but the socket stays open, the buffer keeps its size,
  and the next bytes are put into it up to the announced number, beyond its end.
\<close>

theorem session_buffer_bounds:
  "(sv = fold (server_step pb enough j) evs (Server_new j r) \<and> p < length (sv_objects sv) \<longrightarrow>
      session_fits (sv_objects sv ! p))
   \<and> (sv = fold (server_step pb ro j) evs (Server_new j r) \<and> p < length (sv_objects sv)
        \<and> s = sv_objects sv ! p \<and> s_socket_open s \<and> s_got s = []
        \<and> s_pending s = Read_header sizeof_frame_header \<and> length h = sizeof_frame_header
        \<and> length bs = unat (ntohl (payload_size (fh_of h))) \<and> s_in_data_size s < length bs
        \<and> \<not> ro (length bs)
        \<and> sv1 = server_bytes pb ro j (map (Pair p) h) sv
        \<and> sv2 = server_bytes pb ro j (map (Pair p) bs) sv1 \<longrightarrow>
      sv_trace sv1 = sv_trace sv @ [Sv_disconnected (s_id s) (Some ''not_enough_memory'')]
      \<and> map_of (sv_sessions sv1) (s_id s) = None
      \<and> s_socket_open (sv_objects sv1 ! p) \<and> s_in_data_size (sv_objects sv1 ! p) = s_in_data_size s
      \<and> \<not> session_fits (sv_objects sv1 ! p)
      \<and> (\<forall>k<length bs. s_in_data (sv_objects sv2 ! p) k = bs ! k))"
  (is "?small \<and> (?large \<longrightarrow> ?overrun)")
proof
  show ?small
    using all_fit_run [OF all_fit_new] nth_mem unfolding all_fit_def by blast
  show "?large \<longrightarrow> ?overrun"
  proof
    assume large: ?large
    then have "server_ok sv" using server_ok_run [OF server_ok_new] by blast
    then show ?overrun
      by (rule header_overruns [where ro = ro and pb = pb and j = j]) (use large in blast)+
  qed
qed

text \<open>A client announces 1025 bytes and the server has no memory for them.\<close>

theorem session_buffer_bounds_witness:
  "\<exists>sv. sv_trace sv = [Sv_connected 1, Sv_connected 2, Sv_disconnected 1 (Some ''not_enough_memory'')]
     \<and> s_in_data_size (sv_objects sv ! 0) = 1024
     \<and> s_in_data (sv_objects (server_bytes demo_pb (\<lambda>n. n < 1025) demo_junk
         (map (Pair 0) (replicate 1025 7)) sv) ! 0) 1024 = 7"
proof -
  let ?sv = "fold (server_step demo_pb (\<lambda>n. n < 1025) demo_junk) [V_accepted None, V_accepted None]
      (Server_new demo_junk demo_register)"
  let ?h = "[2, 0, 0, 0, 0, 0, 4, 1] :: u8 list"
  have sv: "?sv = demo_server" by (simp add: demo_server_def server_step_def)
  have "unat (ntohl (payload_size (fh_of ?h))) = 1025"
    by (simp add: fh_of_def ntohl_def)
  then have "0 < length (sv_objects ?sv) \<and> s_socket_open (sv_objects ?sv ! 0) \<and> s_got (sv_objects ?sv ! 0) = []
      \<and> s_pending (sv_objects ?sv ! 0) = Read_header sizeof_frame_header \<and> length ?h = sizeof_frame_header
      \<and> length (replicate 1025 (7 :: u8)) = unat (ntohl (payload_size (fh_of ?h)))
      \<and> s_in_data_size (sv_objects ?sv ! 0) < length (replicate 1025 (7 :: u8))
      \<and> \<not> length (replicate 1025 (7 :: u8)) < 1025"
    unfolding sv by (simp add: demo_server_eq start_read_def Session_new_def sizeof_frame_header_def)
  with session_buffer_bounds [THEN conjunct2, of ?sv demo_pb "\<lambda>n. n < 1025" demo_junk
      "[V_accepted None, V_accepted None]" demo_register 0 "sv_objects ?sv ! 0" ?h
      "replicate 1025 7" "server_bytes demo_pb (\<lambda>n. n < 1025) demo_junk (map (Pair 0) ?h) ?sv"
      "server_bytes demo_pb (\<lambda>n. n < 1025) demo_junk (map (Pair 0) (replicate 1025 7))
         (server_bytes demo_pb (\<lambda>n. n < 1025) demo_junk (map (Pair 0) ?h) ?sv)"]
  have w: "sv_trace (server_bytes demo_pb (\<lambda>n. n < 1025) demo_junk (map (Pair 0) ?h) ?sv)
        = sv_trace ?sv @ [Sv_disconnected (s_id (sv_objects ?sv ! 0)) (Some ''not_enough_memory'')]"
      "s_in_data_size (sv_objects (server_bytes demo_pb (\<lambda>n. n < 1025) demo_junk (map (Pair 0) ?h) ?sv) ! 0)
        = s_in_data_size (sv_objects ?sv ! 0)"
      "\<forall>k<1025. s_in_data (sv_objects (server_bytes demo_pb (\<lambda>n. n < 1025) demo_junk (map (Pair 0) (replicate 1025 7))
         (server_bytes demo_pb (\<lambda>n. n < 1025) demo_junk (map (Pair 0) ?h) ?sv)) ! 0) k = replicate 1025 7 ! k"
    by simp_all
  have "sv_trace ?sv = [Sv_connected 1, Sv_connected 2]" "s_id (sv_objects ?sv ! 0) = 1"
    "s_in_data_size (sv_objects ?sv ! 0) = 1024"
    unfolding sv by (simp_all add: demo_server_eq start_read_def Session_new_def)
  moreover have "s_in_data (sv_objects (server_bytes demo_pb (\<lambda>n. n < 1025) demo_junk (map (Pair 0) (replicate 1025 7))
         (server_bytes demo_pb (\<lambda>n. n < 1025) demo_junk (map (Pair 0) ?h) ?sv)) ! 0) 1024 = 7"
    using w(3) [THEN spec, of 1024] by simp
  ultimately show ?thesis using w(1,2)
    by (intro exI [of _ "server_bytes demo_pb (\<lambda>n. n < 1025) demo_junk (map (Pair 0) ?h) ?sv"])
      (simp only: append.simps)
qed

end
