(* ===== verification/PbCrypto.thy ===== *)
theory PbCrypto
  imports PbFrame
begin

text \<open>
  \<open>libs/protobuf_comm/crypto.cpp\<close>: the classes \<open>BufferEncryptor\<close> and \<open>BufferDecryptor\<close> and the tables
  of ciphers. OpenSSL is a parameter. What a call writes into a buffer of the caller is returned,
  also when a later call fails.
\<close>

section \<open>The library\<close>

datatype evp_cipher = EVP_aes_128_ecb | EVP_aes_128_cbc | EVP_aes_256_ecb | EVP_aes_256_cbc

text \<open>A failed call is \<open>None\<close>. The length that the library gets for a ciphertext is a signed number.\<close>

record 'x openssl =
  short_name :: "evp_cipher \<Rightarrow> string"
  long_name :: "evp_cipher \<Rightarrow> string"
  iv_length :: "evp_cipher \<Rightarrow> nat"
  block_size :: "evp_cipher \<Rightarrow> nat"
  bytes_to_key :: "evp_cipher \<Rightarrow> u8 list \<Rightarrow> u8 list option"
  sha256 :: "u8 list \<Rightarrow> u8 list option"
  encrypt_init :: "evp_cipher \<Rightarrow> u8 list \<Rightarrow> u8 list \<Rightarrow> 'x option"
  encrypt_update :: "'x \<Rightarrow> u8 list \<Rightarrow> ('x \<times> u8 list) option"
  encrypt_final :: "'x \<Rightarrow> u8 list option"
  decrypt_init :: "evp_cipher \<Rightarrow> u8 list \<Rightarrow> u8 list \<Rightarrow> 'x option"
  decrypt_update :: "'x \<Rightarrow> u8 list \<Rightarrow> int \<Rightarrow> ('x \<times> u8 list) option"
  decrypt_final :: "'x \<Rightarrow> u8 list option"

section \<open>Ciphers\<close>

definition PB_ENCRYPTION_AES_128_ECB :: u8 where "PB_ENCRYPTION_AES_128_ECB = 1"
definition PB_ENCRYPTION_AES_128_CBC :: u8 where "PB_ENCRYPTION_AES_128_CBC = 2"
definition PB_ENCRYPTION_AES_256_ECB :: u8 where "PB_ENCRYPTION_AES_256_ECB = 3"
definition PB_ENCRYPTION_AES_256_CBC :: u8 where "PB_ENCRYPTION_AES_256_CBC = 4"

lemmas cipher_numbers = PB_ENCRYPTION_AES_128_ECB_def PB_ENCRYPTION_AES_128_CBC_def
  PB_ENCRYPTION_AES_256_ECB_def PB_ENCRYPTION_AES_256_CBC_def PB_ENCRYPTION_NONE_def

definition cipher_by_id :: "u8 \<Rightarrow> pb_error + evp_cipher" where
  "cipher_by_id i =
     (if i = PB_ENCRYPTION_AES_128_ECB then Inr EVP_aes_128_ecb
      else if i = PB_ENCRYPTION_AES_128_CBC then Inr EVP_aes_128_cbc
      else if i = PB_ENCRYPTION_AES_256_ECB then Inr EVP_aes_256_ecb
      else if i = PB_ENCRYPTION_AES_256_CBC then Inr EVP_aes_256_cbc
      else Inl Unknown_cipher)"

definition cipher_name_by_id :: "'x openssl \<Rightarrow> u8 \<Rightarrow> pb_error + string" where
  "cipher_name_by_id lib i =
     (if i = PB_ENCRYPTION_AES_128_ECB then Inr (short_name lib EVP_aes_128_ecb)
      else if i = PB_ENCRYPTION_AES_128_CBC then Inr (short_name lib EVP_aes_128_cbc)
      else if i = PB_ENCRYPTION_AES_256_ECB then Inr (short_name lib EVP_aes_256_ecb)
      else if i = PB_ENCRYPTION_AES_256_CBC then Inr (short_name lib EVP_aes_256_cbc)
      else Inl Unknown_cipher)"

definition cipher_name_to_id :: "'x openssl \<Rightarrow> string \<Rightarrow> pb_error + u8" where
  "cipher_name_to_id lib name =
     (if name = long_name lib EVP_aes_128_ecb then Inr PB_ENCRYPTION_AES_128_ECB
      else if name = long_name lib EVP_aes_128_cbc then Inr PB_ENCRYPTION_AES_128_CBC
      else if name = long_name lib EVP_aes_256_ecb then Inr PB_ENCRYPTION_AES_256_ECB
      else if name = long_name lib EVP_aes_256_cbc then Inr PB_ENCRYPTION_AES_256_CBC
      else Inl Unknown_cipher)"

definition cipher_by_name :: "'x openssl \<Rightarrow> string \<Rightarrow> pb_error + evp_cipher" where
  "cipher_by_name lib name =
     (if name = long_name lib EVP_aes_128_ecb then Inr EVP_aes_128_ecb
      else if name = long_name lib EVP_aes_128_cbc then Inr EVP_aes_128_cbc
      else if name = long_name lib EVP_aes_256_ecb then Inr EVP_aes_256_ecb
      else if name = long_name lib EVP_aes_256_cbc then Inr EVP_aes_256_cbc
      else Inl Unknown_cipher)"

lemma cipher_tables_agree: "cipher_name_to_id lib name = Inr i \<Longrightarrow> cipher_by_id i = cipher_by_name lib name"
  by (auto simp: cipher_name_to_id_def cipher_by_id_def cipher_by_name_def cipher_numbers split: if_splits)

lemma cipher_id_nonzero: "cipher_name_to_id lib name = Inr i \<Longrightarrow> i \<noteq> PB_ENCRYPTION_NONE"
  by (auto simp: cipher_name_to_id_def cipher_numbers split: if_splits)

lemma cipher_defined: "cipher_by_name lib name = Inr c \<longleftrightarrow>
    (\<exists>i. cipher_name_to_id lib name = Inr i \<and> cipher_by_id i = Inr c)"
  by (auto simp: cipher_name_to_id_def cipher_by_id_def cipher_by_name_def cipher_numbers split: if_splits)

section \<open>Encryption\<close>

record encryptor =
  enc_cipher :: evp_cipher
  enc_cipher_id :: u8
  enc_key :: "u8 list"
  enc_iv :: "64 word"

text \<open>\<open>rand\<close> is the random initialisation vector, if there is one.\<close>

definition BufferEncryptor_new ::
    "'x openssl \<Rightarrow> u8 list \<Rightarrow> string \<Rightarrow> (64 word) option \<Rightarrow> pb_error + encryptor" where
  "BufferEncryptor_new lib key cipher_name rand =
     and_then (cipher_by_name lib cipher_name) (\<lambda>c.
     and_then (cipher_name_to_id lib cipher_name) (\<lambda>i.
       case bytes_to_key lib c key of
         None \<Rightarrow> Inl (Crypto_failed ''Failed to generate key'')
       | Some k \<Rightarrow>
           (case rand of
              None \<Rightarrow> Inl (Crypto_failed ''Failed to generate IV'')
            | Some iv \<Rightarrow> Inr \<lparr>enc_cipher = c, enc_cipher_id = i, enc_key = k, enc_iv = iv\<rparr>)))"

text \<open>The bytes of the counter in memory, on a little-endian machine.\<close>

definition iv_bytes :: "64 word \<Rightarrow> u8 list" where
  "iv_bytes w = map (\<lambda>i. ucast (drop_bit (8 * i) w)) [0..<8]"

text \<open>The hash that starts with the initialisation vector; without a vector it is not computed.\<close>

definition next_iv :: "'x openssl \<Rightarrow> evp_cipher \<Rightarrow> encryptor \<Rightarrow> (pb_error + u8 list) \<times> encryptor" where
  "next_iv lib c e =
     (if iv_length lib c > 0
      then let e = e\<lparr>enc_iv := enc_iv e + 1\<rparr>
           in (case sha256 lib (iv_bytes (enc_iv e)) of
                 None \<Rightarrow> Inl (Crypto_failed ''Failed to generate IV'') | Some h \<Rightarrow> Inr h, e)
      else (Inr [], e))"

definition cipher_text :: "'x openssl \<Rightarrow> evp_cipher \<Rightarrow> u8 list \<Rightarrow> u8 list \<Rightarrow> u8 list \<Rightarrow> pb_error + u8 list" where
  "cipher_text lib c key iv plain =
     (case encrypt_init lib c key iv of
        None \<Rightarrow> Inl (Crypto_failed ''Could not initialize cipher context'')
      | Some ctx \<Rightarrow>
          (case encrypt_update lib ctx plain of
             None \<Rightarrow> Inl (Crypto_failed ''EncryptUpdate failed'')
           | Some (ctx, out) \<Rightarrow>
               (case encrypt_final lib ctx of
                  None \<Rightarrow> Inl (Crypto_failed ''EncryptFinal failed'')
                | Some out' \<Rightarrow> Inr (out @ out'))))"

text \<open>
  \<open>n\<close> is the size of the caller's buffer, into which vector and ciphertext are written and which is
  then cut to their length.
\<close>

definition encrypt :: "'x openssl \<Rightarrow> u8 list \<Rightarrow> nat \<Rightarrow> encryptor \<Rightarrow> (pb_error + u8 list) \<times> encryptor" where
  "encrypt lib plain n e =
     (case cipher_by_id (enc_cipher_id e) of
        Inl err \<Rightarrow> (Inl err, e)
      | Inr c \<Rightarrow>
          let (h, e) = next_iv lib c e
          in (and_then h (\<lambda>iv_hash.
                and_then (cipher_text lib c (enc_key e) iv_hash plain) (\<lambda>out.
                  if iv_length lib c + length out > n then Inl Buffer_overrun
                  else Inr (take (iv_length lib c) iv_hash @ out))), e))"

definition encrypted_buffer_size :: "'x openssl \<Rightarrow> nat \<Rightarrow> encryptor \<Rightarrow> pb_error + nat" where
  "encrypted_buffer_size lib plain_length e =
     and_then (cipher_by_id (enc_cipher_id e)) (\<lambda>c.
       Inr ((plain_length div block_size lib c + 1) * block_size lib c + iv_length lib c))"

section \<open>Decryption\<close>

record decryptor =
  dec_key :: "u8 list"
  dec_keys :: "(u8 \<times> u8 list) list"

definition BufferDecryptor_new :: "u8 list \<Rightarrow> decryptor" where
  "BufferDecryptor_new key = \<lparr>dec_key = key, dec_keys = []\<rparr>"

definition generate_key :: "'x openssl \<Rightarrow> u8 \<Rightarrow> decryptor \<Rightarrow> pb_error + decryptor" where
  "generate_key lib i d =
     and_then (cipher_by_id i) (\<lambda>c.
       case bytes_to_key lib c (dec_key d) of
         None \<Rightarrow> Inl (Crypto_failed ''Failed to generate key'')
       | Some k \<Rightarrow> Inr (d\<lparr>dec_keys := map_put i k (dec_keys d)\<rparr>))"

text \<open>The size without the vector, an unsigned difference that becomes an \<open>int\<close> argument.\<close>

definition cipher_size :: "nat \<Rightarrow> nat \<Rightarrow> int" where
  "cipher_size n iv_size = sint (ucast (word_of_nat n - word_of_nat iv_size :: 64 word) :: 32 word)"

text \<open>The number of plain bytes or the error, and the bytes that were written to the caller's buffer.\<close>

definition plain_text ::
    "'x openssl \<Rightarrow> evp_cipher \<Rightarrow> u8 list \<Rightarrow> u8 list \<Rightarrow> u8 list \<Rightarrow> int \<Rightarrow> (pb_error + nat) \<times> u8 list" where
  "plain_text lib c key iv enc n =
     (case decrypt_init lib c key iv of
        None \<Rightarrow> (Inl (Crypto_failed ''Could not initialize cipher context''), [])
      | Some ctx \<Rightarrow>
          (case decrypt_update lib ctx enc n of
             None \<Rightarrow> (Inl (Crypto_failed ''DecryptUpdate failed''), [])
           | Some (ctx, out) \<Rightarrow>
               (case decrypt_final lib ctx of
                  None \<Rightarrow> (Inl (Crypto_failed ''DecryptFinal failed''), out)
                | Some out' \<Rightarrow> (Inr (length (out @ out')), out @ out'))))"

definition decrypt ::
    "'x openssl \<Rightarrow> u8 \<Rightarrow> (nat \<Rightarrow> u8) \<Rightarrow> nat \<Rightarrow> decryptor \<Rightarrow> ((pb_error + nat) \<times> u8 list) \<times> decryptor" where
  "decrypt lib i enc enc_size d =
     (case (if map_of (dec_keys d) i = None then generate_key lib i d else Inr d) of
        Inl err \<Rightarrow> ((Inl err, []), d)
      | Inr d \<Rightarrow>
          (case cipher_by_id i of
             Inl err \<Rightarrow> ((Inl err, []), d)
           | Inr c \<Rightarrow>
               let n = cipher_size enc_size (iv_length lib c)
               in (plain_text lib c (the (map_of (dec_keys d) i)) (map enc [0..<iv_length lib c])
                     (map (\<lambda>k. enc (k + iv_length lib c)) [0..<nat n]) n, d)))"

section \<open>Decryption undoes encryption\<close>

text \<open>
  What the code relies on: the padded length, a digest that is long enough for a vector, and that
  decryption with the same key and vector gives the plain text back.
\<close>

definition evp_ok :: "'x openssl \<Rightarrow> bool" where
  "evp_ok lib \<longleftrightarrow> (\<forall>c. block_size lib c > 0) \<and> (\<forall>c bs h. sha256 lib bs = Some h \<longrightarrow> iv_length lib c \<le> length h)
     \<and> (\<forall>c k iv p x x' q q'. encrypt_init lib c k iv = Some x \<and> encrypt_update lib x p = Some (x', q)
          \<and> encrypt_final lib x' = Some q' \<longrightarrow>
          length (q @ q') = (length p div block_size lib c + 1) * block_size lib c
          \<and> (\<exists>y y' r r'. decrypt_init lib c k (take (iv_length lib c) iv) = Some y
               \<and> decrypt_update lib y (q @ q') (int (length (q @ q'))) = Some (y', r)
               \<and> decrypt_final lib y' = Some r' \<and> r @ r' = p))"

lemma cipher_text_back:
  assumes "evp_ok lib" and "cipher_text lib c k iv p = Inr out"
  shows "length out = (length p div block_size lib c + 1) * block_size lib c"
    and "plain_text lib c k (take (iv_length lib c) iv) out (int (length out)) = (Inr (length p), p)"
proof -
  obtain x x' q q' where e: "encrypt_init lib c k iv = Some x" "encrypt_update lib x p = Some (x', q)"
    "encrypt_final lib x' = Some q'" "out = q @ q'"
    using assms(2) by (auto simp: cipher_text_def split: option.splits)
  have l: "length (q @ q') = (length p div block_size lib c + 1) * block_size lib c
      \<and> (\<exists>y y' r r'. decrypt_init lib c k (take (iv_length lib c) iv) = Some y
           \<and> decrypt_update lib y (q @ q') (int (length (q @ q'))) = Some (y', r)
           \<and> decrypt_final lib y' = Some r' \<and> r @ r' = p)"
    using assms(1) e(1-3) unfolding evp_ok_def by blast
  then show "length out = (length p div block_size lib c + 1) * block_size lib c" using e(4) by simp
  from l obtain y y' r r' where d: "decrypt_init lib c k (take (iv_length lib c) iv) = Some y"
    "decrypt_update lib y (q @ q') (int (length (q @ q'))) = Some (y', r)" "decrypt_final lib y' = Some r'"
    "p = r @ r'" by blast
  then show "plain_text lib c k (take (iv_length lib c) iv) out (int (length out)) = (Inr (length p), p)"
    using e(4) by (simp add: plain_text_def)
qed

lemma cipher_size_eq:
  assumes "iv_size \<le> n" and "n < 2 ^ 31"
  shows "cipher_size n iv_size = int (n - iv_size)"
proof -
  have "(word_of_nat n - word_of_nat iv_size :: 64 word) = word_of_nat (n - iv_size)"
    using assms(1) by simp
  moreover have "(ucast (word_of_nat (n - iv_size) :: 64 word) :: u32) = word_of_nat (n - iv_size)"
    by (simp add: unsigned_of_nat word_of_nat_eq_iff take_bit_take_bit)
  ultimately show ?thesis using assms sint_of_nat [of "n - iv_size"]
    by (simp add: cipher_size_def del: of_nat_diff)
qed

text \<open>The keys that both sides derive from the same secret.\<close>

definition encryptor_ok :: "'x openssl \<Rightarrow> u8 list \<Rightarrow> encryptor \<Rightarrow> bool" where
  "encryptor_ok lib key e \<longleftrightarrow> cipher_by_id (enc_cipher_id e) = Inr (enc_cipher e)
     \<and> bytes_to_key lib (enc_cipher e) key = Some (enc_key e)"

definition decryptor_ok :: "'x openssl \<Rightarrow> u8 list \<Rightarrow> decryptor \<Rightarrow> bool" where
  "decryptor_ok lib key d \<longleftrightarrow> dec_key d = key \<and> (\<forall>i k. map_of (dec_keys d) i = Some k \<longrightarrow>
     (\<exists>c. cipher_by_id i = Inr c \<and> bytes_to_key lib c key = Some k))"

lemma encryptor_ok_new:
  assumes "BufferEncryptor_new lib key name rand = Inr e"
  shows "encryptor_ok lib key e"
proof -
  obtain c i where c: "cipher_by_name lib name = Inr c" "cipher_name_to_id lib name = Inr i"
    using assms by (cases "cipher_by_name lib name"; cases "cipher_name_to_id lib name")
      (simp_all add: BufferEncryptor_new_def)
  then show ?thesis using assms cipher_tables_agree [OF c(2)]
    by (cases "bytes_to_key lib c key"; cases rand)
      (auto simp: BufferEncryptor_new_def encryptor_ok_def)
qed

lemma decryptor_ok_new: "decryptor_ok lib key (BufferDecryptor_new key)"
  by (simp add: decryptor_ok_def BufferDecryptor_new_def)

lemma next_iv_ok: "next_iv lib c e = (h, e') \<Longrightarrow> encryptor_ok lib key e \<Longrightarrow> encryptor_ok lib key e'
    \<and> enc_cipher_id e' = enc_cipher_id e"
  by (auto simp: next_iv_def encryptor_ok_def Let_def split: if_splits)

lemma encrypt_ok:
  assumes "encryptor_ok lib key e" and "encrypt lib plain n e = (r, e')"
  shows "encryptor_ok lib key e' \<and> enc_cipher_id e' = enc_cipher_id e"
proof -
  obtain h e'' where h: "next_iv lib (enc_cipher e) e = (h, e'')" by fastforce
  then have "e' = e''" using assms by (simp add: encrypt_def encryptor_ok_def)
  then show ?thesis using next_iv_ok [OF h assms(1)] by simp
qed

text \<open>The buffer that the caller makes is large enough.\<close>

lemma encrypt_parts:
  assumes "evp_ok lib" and "encryptor_ok lib key e" and "encrypt lib plain n e = (Inr enc, e')"
  obtains h out where "iv_length lib (enc_cipher e) \<le> length h"
    and "cipher_text lib (enc_cipher e) (enc_key e) h plain = Inr out"
    and "enc = take (iv_length lib (enc_cipher e)) h @ out"
proof -
  let ?c = "enc_cipher e"
  obtain h e'' where h: "next_iv lib ?c e = (h, e'')" by fastforce
  have k: "enc_key e'' = enc_key e" using h by (auto simp: next_iv_def Let_def split: if_splits)
  obtain hh out where o: "h = Inr hh" "cipher_text lib ?c (enc_key e) hh plain = Inr out"
    "enc = take (iv_length lib ?c) hh @ out"
    using assms(2,3) h k by (auto simp: encrypt_def encryptor_ok_def and_then_Inr_iff split: if_splits)
  have "iv_length lib ?c \<le> length hh"
    using h o(1) assms(1) by (auto simp: next_iv_def evp_ok_def Let_def split: if_splits option.splits)
  with o show thesis using that by blast
qed

lemma encrypt_never_overruns:
  assumes "evp_ok lib" and "encryptor_ok lib key e" and "encrypted_buffer_size lib (length plain) e = Inr n"
  shows "fst (encrypt lib plain n e) \<noteq> Inl Buffer_overrun"
proof
  assume a: "fst (encrypt lib plain n e) = Inl Buffer_overrun"
  let ?c = "enc_cipher e"
  obtain h e'' where h: "next_iv lib ?c e = (h, e'')" by fastforce
  have n: "n = (length plain div block_size lib ?c + 1) * block_size lib ?c + iv_length lib ?c"
    using assms(2,3) by (simp add: encrypted_buffer_size_def encryptor_ok_def)
  from a have "(\<exists>hh out. h = Inr hh \<and> cipher_text lib ?c (enc_key e'') hh plain = Inr out
      \<and> iv_length lib ?c + length out > n) \<or> h = Inl Buffer_overrun
      \<or> (\<exists>hh. cipher_text lib ?c (enc_key e'') hh plain = Inl Buffer_overrun)"
    using assms(2) h by (auto simp: encrypt_def encryptor_ok_def and_then_def split: sum.splits if_splits)
  moreover have "h \<noteq> Inl Buffer_overrun" "cipher_text lib ?c k hh plain \<noteq> Inl Buffer_overrun" for k hh
    using h by (auto simp: next_iv_def cipher_text_def Let_def split: if_splits option.splits)
  ultimately show False using cipher_text_back(1) [OF assms(1)] n by fastforce
qed

lemma decrypt_encrypt:
  assumes "evp_ok lib" and "encryptor_ok lib key e" and "decryptor_ok lib key d"
    and "encrypt lib plain n e = (Inr enc, e')" and "length enc < 2 ^ 31"
    and "\<And>k. k < length enc \<Longrightarrow> buf k = enc ! k"
  shows "\<exists>d'. decrypt lib (enc_cipher_id e) buf (length enc) d = ((Inr (length plain), plain), d')
    \<and> decryptor_ok lib key d'"
proof -
  let ?c = "enc_cipher e"
  obtain h out where o: "iv_length lib ?c \<le> length h"
    "cipher_text lib ?c (enc_key e) h plain = Inr out" "enc = take (iv_length lib ?c) h @ out"
    using encrypt_parts [OF assms(1,2,4)] by blast
  have len: "length enc = iv_length lib ?c + length out" using o(1,3) by simp
  have size: "cipher_size (length enc) (iv_length lib ?c) = int (length out)"
    using cipher_size_eq [of "iv_length lib ?c" "length enc"] assms(5) len by simp
  have iv: "map buf [0..<iv_length lib ?c] = take (iv_length lib ?c) h"
    using assms(6) len o(1,3) by (intro nth_equalityI) (simp_all add: nth_append)
  have body: "map (\<lambda>k. buf (k + iv_length lib ?c)) [0..<length out] = out"
    using assms(6) len o(1,3) by (intro nth_equalityI) (simp_all add: nth_append)
  have id: "cipher_by_id (enc_cipher_id e) = Inr ?c" "bytes_to_key lib ?c key = Some (enc_key e)"
    using assms(2) by (simp_all add: encryptor_ok_def)
  define d' where "d' = (if map_of (dec_keys d) (enc_cipher_id e) = None
     then d\<lparr>dec_keys := map_put (enc_cipher_id e) (enc_key e) (dec_keys d)\<rparr> else d)"
  have gen: "(if map_of (dec_keys d) (enc_cipher_id e) = None then generate_key lib (enc_cipher_id e) d else Inr d) = Inr d'"
    using assms(3) id by (simp add: d'_def generate_key_def decryptor_ok_def)
  have "k = enc_key e" if "map_of (dec_keys d) (enc_cipher_id e) = Some k" for k
  proof -
    have "\<exists>c. cipher_by_id (enc_cipher_id e) = Inr c \<and> bytes_to_key lib c key = Some k"
      using assms(3) that by (simp add: decryptor_ok_def)
    then show ?thesis using id by simp
  qed
  then have key: "map_of (dec_keys d') (enc_cipher_id e) = Some (enc_key e)"
    by (auto simp: d'_def map_of_put)
  have "decryptor_ok lib key d'"
    using assms(3) id by (auto simp: d'_def map_of_put decryptor_ok_def split: if_splits)
  moreover have "decrypt lib (enc_cipher_id e) buf (length enc) d = ((Inr (length plain), plain), d')"
    using cipher_text_back(2) [OF assms(1) o(2)]
    by (simp only: decrypt_def gen sum.case id size iv nat_int body Let_def key option.sel)
  ultimately show ?thesis by blast
qed

end
