(* ===== verification/PbPeer.thy ===== *)
theory PbPeer
  imports PbClient PbCrypto
begin

text \<open>
  \<open>libs/protobuf_comm/peer.cpp\<close>: the class \<open>ProtobufBroadcastPeer\<close>, which sends and receives
  datagrams. The handlers are functions of the peer, arriving datagrams and the ends of
  asynchronous operations are events, and the trace holds signals and the datagrams that are sent.
  An operation that can throw returns the exception beside the state that it leaves behind.
\<close>

type_synonym endpoint = "u32 \<times> u16"

definition max_packet_length :: nat where "max_packet_length = 1024"

section \<open>State\<close>

datatype recv_error =
    Encrypted_unexpected
  | Plain_unexpected
  | Decryption_fail pb_error
  | Deserialization_fail pb_error
  | Invalid_size
  | General_recv_error

text \<open>\<open>P_send\<close>: the entry that was taken from the queue and the datagram that is written for it.\<close>

datatype 'm peer_effect =
    P_rcvd_raw endpoint frame_header "u8 list"
  | P_rcvd endpoint u16 u16 'm
  | P_recv_error endpoint recv_error
  | P_send_error string
  | P_send endpoint queue_entry "u8 list"

text \<open>
  \<open>crypto_\<close> is true exactly when encryptor and decryptor exist (\<open>p_crypt\<close>). \<open>p_target\<close>: the pending
  receive operation fills the buffer for encrypted data. \<open>p_listens\<close>: something is connected to
  the signal for received messages.
\<close>

record 'm peer =
  p_register :: "'m message_register"
  p_version :: frame_version
  p_filter_self :: bool
  p_listens :: bool
  p_local_endpoints :: "endpoint list"
  p_crypt :: "(encryptor \<times> decryptor) option"
  p_crypto_buf :: bool
  p_target :: bool
  p_in_data :: "nat \<Rightarrow> u8"
  p_enc_in_data :: "nat \<Rightarrow> u8"
  p_in_endpoint :: endpoint
  p_outbound_active :: bool
  p_outbound_queue :: "queue_entry list"
  p_in_flight :: "queue_entry option"
  p_outbound_endpoint :: endpoint
  p_trace :: "'m peer_effect list"

definition p_emit :: "'m peer_effect \<Rightarrow> 'm peer \<Rightarrow> 'm peer" where
  "p_emit e p = p\<lparr>p_trace := p_trace p @ [e]\<rparr>"

definition p_crypto :: "'m peer \<Rightarrow> bool" where
  "p_crypto p \<longleftrightarrow> p_crypt p \<noteq> None"

section \<open>Setting up\<close>

text \<open>
  The interfaces of the host in their order, without address, of another family or with the bytes
  of an IPv4 address. No list at all when they cannot be read.
\<close>

definition determine_local_endpoints ::
    "(bool \<times> u8 list) option list option \<Rightarrow> u16 \<Rightarrow> endpoint list \<Rightarrow> endpoint list" where
  "determine_local_endpoints ifaces port eps =
     sort (eps @ (case ifaces of
        None \<Rightarrow> []
      | Some is \<Rightarrow> List.map_filter (\<lambda>i. case i of
            Some (inet, addr) \<Rightarrow> if inet then Some (ntohl addr, port) else None | None \<Rightarrow> None) is))"

definition setup_crypto ::
    "'x openssl \<Rightarrow> u8 list \<Rightarrow> string \<Rightarrow> (64 word) option \<Rightarrow> 'm peer \<Rightarrow> 'm peer \<times> pb_error option" where
  "setup_crypto lib key cipher_name rand p =
     (if p_version p = PB_FRAME_V1 then (p, Some Crypto_needs_v2)
      else let p = p\<lparr>p_crypt := None, p_crypto_buf := False\<rparr>
           in if key \<noteq> [] \<and> cipher_name \<noteq> []
              then (case BufferEncryptor_new lib key cipher_name rand of
                      Inl e \<Rightarrow> (p, Some e)
                    | Inr enc \<Rightarrow> (p\<lparr>p_crypt := Some (enc, BufferDecryptor_new key)\<rparr>, None))
              else (p, None))"

definition set_filter_self :: "bool \<Rightarrow> 'm peer \<Rightarrow> 'm peer" where
  "set_filter_self b p = p\<lparr>p_filter_self := b\<rparr>"

definition peer_start_recv :: "'m peer \<Rightarrow> 'm peer" where
  "peer_start_recv p = p\<lparr>p_crypto_buf := p_crypto p, p_target := p_crypto p\<rparr>"

text \<open>The name of the receiver is being resolved, so sending starts as active.\<close>

definition Peer_new ::
    "'x openssl \<Rightarrow> junk \<Rightarrow> 'm message_register \<Rightarrow> frame_version \<Rightarrow> (bool \<times> u8 list) option list option \<Rightarrow> u16
      \<Rightarrow> u8 list \<Rightarrow> string \<Rightarrow> (64 word) option \<Rightarrow> pb_error + 'm peer" where
  "Peer_new lib j r v ifaces port crypto_key cipher_name rand =
     (let p = \<lparr>p_register = r, p_version = v, p_filter_self = True, p_listens = False,
               p_local_endpoints = determine_local_endpoints ifaces port [], p_crypt = None,
               p_crypto_buf = False, p_target = False, p_in_data = junk_data j,
               p_enc_in_data = junk_data j, p_in_endpoint = (0, 0), p_outbound_active = True,
               p_outbound_queue = [], p_in_flight = None, p_outbound_endpoint = (0, 0), p_trace = []\<rparr>;
          (p, err) = (if crypto_key \<noteq> [] then setup_crypto lib crypto_key cipher_name rand p else (p, None))
      in case err of Some e \<Rightarrow> Inl e | None \<Rightarrow> Inr (peer_start_recv p))"

section \<open>Sending\<close>

definition peer_entry ::
    "'m protobuf \<Rightarrow> junk \<Rightarrow> u16 \<Rightarrow> u16 \<Rightarrow> 'm \<Rightarrow> frame_version \<Rightarrow> pb_error + queue_entry" where
  "peer_entry pb j cid typ m v =
     (let entry = QueueEntry_new (junk_reserved j)
      in and_then (serialize pb cid typ m (qe_frame entry)) (\<lambda>(fh, mh, data).
         let entry = entry\<lparr>qe_frame := fh, qe_message := mh, qe_serialized := data\<rparr>
         in if length data > max_packet_length then Inl Message_too_big
            else Inr (if v = PB_FRAME_V1
              then let h = \<lparr>v1_component_id = component_id mh, v1_msg_type = msg_type mh,
                       v1_payload_size = payload_size fh\<rparr>
                   in entry\<lparr>qe_frame_v1 := h, qe_buffers := [v1_bytes h, [], data]\<rparr>
              else entry\<lparr>qe_buffers := [fh_bytes fh, mh_bytes mh, data]\<rparr>)))"

definition raw_entry :: "frame_header \<Rightarrow> u8 list \<Rightarrow> queue_entry" where
  "raw_entry fh data = (QueueEntry_new (0, 0))\<lparr>qe_frame := fh, qe_serialized := data,
     qe_buffers := [fh_bytes fh, [], data]\<rparr>"

text \<open>
  With encryption, everything after the frame header becomes one encrypted buffer; the first buffer
  refers to the header, so it changes with it.
\<close>

definition encrypt_entry ::
    "'x openssl \<Rightarrow> encryptor \<Rightarrow> queue_entry \<Rightarrow> (pb_error + queue_entry) \<times> encryptor" where
  "encrypt_entry lib enc entry =
     (let plain = qe_buffers entry ! 1 @ qe_buffers entry ! 2
      in case encrypted_buffer_size lib (length plain) enc of
           Inl e \<Rightarrow> (Inl e, enc)
         | Inr n \<Rightarrow>
             let (r, enc) = encrypt lib plain n enc
             in (and_then r (\<lambda>msg.
                   let fh = (qe_frame entry)\<lparr>payload_size := htonl (word_of_nat (length msg)),
                              cipher := enc_cipher_id enc\<rparr>
                   in Inr (entry\<lparr>qe_frame := fh, qe_buffers := [fh_bytes fh, msg, []]\<rparr>)), enc))"

definition start_send :: "'x openssl \<Rightarrow> 'm peer \<Rightarrow> 'm peer \<times> pb_error option" where
  "start_send lib p =
     (case p_outbound_queue p of
        [] \<Rightarrow> (p, None)
      | entry # q \<Rightarrow>
          if p_outbound_active p then (p, None)
          else
            let p = p\<lparr>p_outbound_active := True, p_outbound_queue := q\<rparr>;
                (r, p) = (case p_crypt p of
                    None \<Rightarrow> (Inr entry, p)
                  | Some (enc, dec) \<Rightarrow>
                      let (r, enc) = encrypt_entry lib enc entry in (r, p\<lparr>p_crypt := Some (enc, dec)\<rparr>))
            in case r of
                 Inl e \<Rightarrow> (p, Some e)
               | Inr written \<Rightarrow>
                   (p_emit (P_send (p_outbound_endpoint p) entry (wire written)) (p\<lparr>p_in_flight := Some entry\<rparr>),
                    None))"

definition push_and_send :: "'x openssl \<Rightarrow> queue_entry \<Rightarrow> 'm peer \<Rightarrow> 'm peer \<times> pb_error option" where
  "push_and_send lib entry p = start_send lib (p\<lparr>p_outbound_queue := p_outbound_queue p @ [entry]\<rparr>)"

definition peer_send ::
    "'x openssl \<Rightarrow> 'm protobuf \<Rightarrow> junk \<Rightarrow> u16 \<Rightarrow> u16 \<Rightarrow> 'm \<Rightarrow> 'm peer \<Rightarrow> 'm peer \<times> pb_error option" where
  "peer_send lib pb j cid typ m p =
     (case peer_entry pb j cid typ m (p_version p) of
        Inl e \<Rightarrow> (p, Some e) | Inr entry \<Rightarrow> push_and_send lib entry p)"

definition send_raw :: "'x openssl \<Rightarrow> frame_header \<Rightarrow> u8 list \<Rightarrow> 'm peer \<Rightarrow> 'm peer \<times> pb_error option" where
  "send_raw lib fh data p = push_and_send lib (raw_entry fh data) p"

definition peer_send_msg ::
    "'x openssl \<Rightarrow> 'm protobuf \<Rightarrow> junk \<Rightarrow> 'm \<Rightarrow> 'm peer \<Rightarrow> 'm peer \<times> pb_error option" where
  "peer_send_msg lib pb j m p =
     (case key_from_desc pb m of
        Inl e \<Rightarrow> (p, Some e) | Inr (cid, typ) \<Rightarrow> peer_send lib pb j cid typ m p)"

definition handle_sent :: "'x openssl \<Rightarrow> error_code \<Rightarrow> 'm peer \<Rightarrow> 'm peer \<times> pb_error option" where
  "handle_sent lib err p =
     (let p = p\<lparr>p_in_flight := None, p_outbound_active := False\<rparr>
      in start_send lib
           (case err of None \<Rightarrow> p | Some _ \<Rightarrow> p_emit (P_send_error ''Sending message failed'') p))"

definition peer_handle_resolve ::
    "'x openssl \<Rightarrow> error_code \<Rightarrow> endpoint \<Rightarrow> 'm peer \<Rightarrow> 'm peer \<times> pb_error option" where
  "peer_handle_resolve lib err ep p =
     start_send lib
       (case err of
          None \<Rightarrow> p\<lparr>p_outbound_active := False, p_outbound_endpoint := ep\<rparr>
        | Some _ \<Rightarrow> p_emit (P_send_error ''Resolving endpoint failed'') p)"

section \<open>Receiving\<close>

definition in_buffer :: "'m peer \<Rightarrow> nat \<Rightarrow> u8" where
  "in_buffer p = (if p_crypto_buf p then p_enc_in_data p else p_in_data p)"

text \<open>Storing bytes in a buffer from an offset on.\<close>

definition store_from :: "nat \<Rightarrow> u8 list \<Rightarrow> (nat \<Rightarrow> u8) \<Rightarrow> nat \<Rightarrow> u8" where
  "store_from k bs buf = (\<lambda>i. if k \<le> i \<and> i < k + length bs then bs ! (i - k) else buf i)"

definition recv_error :: "recv_error \<Rightarrow> 'm peer \<Rightarrow> 'm peer" where
  "recv_error e p = p_emit (P_recv_error (p_in_endpoint p) e) p"

text \<open>
  The check of header and encryption. Both mismatches are signalled, and then the function goes
  on. Encrypted data are decrypted into the other buffer, behind a copy of the header.
\<close>

definition recv_decrypt ::
    "'x openssl \<Rightarrow> frame_header \<Rightarrow> nat \<Rightarrow> 'm peer \<Rightarrow> frame_header \<times> nat \<times> 'm peer" where
  "recv_decrypt lib fh n p =
     (if \<not> p_crypto_buf p \<and> cipher fh \<noteq> PB_ENCRYPTION_NONE
      then (fh, n, recv_error Encrypted_unexpected p)
      else if p_crypto_buf p \<and> cipher fh = PB_ENCRYPTION_NONE
      then (fh, n, recv_error Plain_unexpected p)
      else if p_crypto_buf p \<and> cipher fh \<noteq> PB_ENCRYPTION_NONE
      then (case p_crypt p of
              None \<Rightarrow> (fh, n, p)
            | Some (enc, dec) \<Rightarrow>
                let p = p\<lparr>p_in_data := fill (map (p_enc_in_data p) [0..<sizeof_frame_header]) (p_in_data p)\<rparr>;
                    ((r, out), dec) = decrypt lib (cipher fh)
                      (\<lambda>i. p_enc_in_data p (i + sizeof_frame_header)) (n - sizeof_frame_header) dec;
                    p = p\<lparr>p_crypt := Some (enc, dec),
                          p_in_data := store_from sizeof_frame_header out (p_in_data p)\<rparr>
                in case r of
                     Inr k \<Rightarrow> (fh\<lparr>payload_size := htonl (word_of_nat k)\<rparr>, k + sizeof_frame_header, p)
                   | Inl e \<Rightarrow> (fh, 0, recv_error (Decryption_fail e) p))
      else (fh, n, p))"

text \<open>The message in the buffer for plain data, and the signal for it.\<close>

definition recv_headers :: "frame_header \<Rightarrow> 'm peer \<Rightarrow> frame_header \<times> message_header \<times> (nat \<Rightarrow> u8)" where
  "recv_headers fh p =
     (if p_version p = PB_FRAME_V1
      then let h = v1_of (map (p_in_data p) [0..<sizeof_frame_header_v1])
           in (fh\<lparr>payload_size := htonl (ntohl (payload_size fh) + word_of_nat sizeof_message_header)\<rparr>,
               \<lparr>component_id = v1_component_id h, msg_type = v1_msg_type h\<rparr>,
               \<lambda>i. p_in_data p (i + sizeof_frame_header_v1))
      else (fh, mh_of (map (\<lambda>i. p_in_data p (i + sizeof_frame_header)) [0..<sizeof_message_header]),
            \<lambda>i. p_in_data p (i + (sizeof_frame_header + sizeof_message_header))))"

definition recv_deliver :: "'m protobuf \<Rightarrow> frame_header \<Rightarrow> 'm peer \<Rightarrow> 'm peer" where
  "recv_deliver pb fh p =
     (let (fh, mh, data) = recv_headers fh p;
          cid = ntohs (component_id mh);
          typ = ntohs (msg_type mh)
      in case deserialize pb (p_register p) fh mh data of
           Inr m \<Rightarrow> p_emit (P_rcvd (p_in_endpoint p) cid typ m) p
         | Inl e \<Rightarrow> recv_error (Deserialization_fail e) p)"

definition expected_min_size :: "'m peer \<Rightarrow> nat" where
  "expected_min_size p =
     (if p_version p = PB_FRAME_V1 then sizeof_frame_header_v1
      else sizeof_frame_header + sizeof_message_header)"

text \<open>The frame header of the datagram, the raw signal and the decryption.\<close>

definition recv_frame ::
    "'x openssl \<Rightarrow> junk \<Rightarrow> nat \<Rightarrow> 'm peer \<Rightarrow> frame_header \<times> nat \<times> 'm peer" where
  "recv_frame lib j n p =
     (if p_version p = PB_FRAME_V1
      then (\<lparr>header_version = version_byte PB_FRAME_V1, cipher = PB_ENCRYPTION_NONE,
             reserved_2 = fst (junk_reserved j), reserved_3 = snd (junk_reserved j),
             payload_size = v1_payload_size (v1_of (map (p_in_data p) [0..<sizeof_frame_header_v1]))\<rparr>, n, p)
      else let fh = fh_of (map (in_buffer p) [0..<sizeof_frame_header]);
               p = p_emit (P_rcvd_raw (p_in_endpoint p) fh
                     (map (\<lambda>i. in_buffer p (i + sizeof_frame_header)) [0..<n - sizeof_frame_header])) p
           in if p_listens p then recv_decrypt lib fh n p else (fh, n, p))"

text \<open>
  The headers of both versions have the same size. The endpoints are sorted, so the binary search
  finds exactly what is among them.
\<close>

definition handle_recv ::
    "'x openssl \<Rightarrow> 'm protobuf \<Rightarrow> junk \<Rightarrow> error_code \<Rightarrow> nat \<Rightarrow> 'm peer \<Rightarrow> 'm peer" where
  "handle_recv lib pb j err n p =
     peer_start_recv
       (if err = None \<and> n \<ge> expected_min_size p
        then let (fh, n, p) = recv_frame lib j n p
             in if p_listens p
                then if n = sizeof_frame_header + unat (ntohl (payload_size fh))
                     then if \<not> p_filter_self p \<or> p_in_endpoint p \<notin> set (p_local_endpoints p)
                          then recv_deliver pb fh p else p
                     else recv_error Invalid_size p
                else p
        else recv_error General_recv_error p)"

section \<open>Events\<close>

text \<open>A datagram that is larger than the buffer is cut.\<close>

definition arrive :: "endpoint \<Rightarrow> u8 list \<Rightarrow> 'm peer \<Rightarrow> 'm peer" where
  "arrive ep bs p =
     (let bs = take max_packet_length bs; p = p\<lparr>p_in_endpoint := ep\<rparr>
      in if p_target p then p\<lparr>p_enc_in_data := fill bs (p_enc_in_data p)\<rparr>
         else p\<lparr>p_in_data := fill bs (p_in_data p)\<rparr>)"

definition receive ::
    "'x openssl \<Rightarrow> 'm protobuf \<Rightarrow> junk \<Rightarrow> endpoint \<Rightarrow> u8 list \<Rightarrow> 'm peer \<Rightarrow> 'm peer" where
  "receive lib pb j ep bs p =
     handle_recv lib pb j None (length (take max_packet_length bs)) (arrive ep bs p)"

datatype 'm peer_event =
    D_resolved error_code endpoint
  | D_datagram endpoint "u8 list"
  | D_recv_error string
  | D_sent error_code
  | D_send u16 u16 'm
  | D_send_raw frame_header "u8 list"
  | D_setup_crypto "u8 list" string "(64 word) option"
  | D_filter_self bool

definition peer_step ::
    "'x openssl \<Rightarrow> 'm protobuf \<Rightarrow> junk \<Rightarrow> 'm peer_event \<Rightarrow> 'm peer \<Rightarrow> 'm peer" where
  "peer_step lib pb j ev p =
     (case ev of
        D_resolved err ep \<Rightarrow> fst (peer_handle_resolve lib err ep p)
      | D_datagram ep bs \<Rightarrow> receive lib pb j ep bs p
      | D_recv_error w \<Rightarrow> handle_recv lib pb j (Some w) 0 p
      | D_sent err \<Rightarrow> if p_in_flight p = None then p else fst (handle_sent lib err p)
      | D_send cid typ m \<Rightarrow> fst (peer_send lib pb j cid typ m p)
      | D_send_raw fh data \<Rightarrow> fst (send_raw lib fh data p)
      | D_setup_crypto key cipher_name rand \<Rightarrow> fst (setup_crypto lib key cipher_name rand p)
      | D_filter_self b \<Rightarrow> set_filter_self b p)"

end
