(* ===== verification/PbPeerProps.thy ===== *)
theory PbPeerProps
  imports PbPeer PbClientProps
begin

text \<open>
  Properties of the peer: which datagrams become messages, what a peer with encryption makes of a
  plain datagram, and the order in which datagrams are sent.
\<close>

section \<open>Datagrams\<close>

text \<open>A peer that waits for a datagram and has something connected to its signal.\<close>

definition peer_ready :: "'m peer \<Rightarrow> bool" where
  "peer_ready p \<longleftrightarrow> p_listens p \<and> p_crypto_buf p = p_crypto p \<and> p_target p = p_crypto p"

definition hears :: "endpoint \<Rightarrow> 'm peer \<Rightarrow> bool" where
  "hears ep p \<longleftrightarrow> p_filter_self p \<longrightarrow> ep \<notin> set (p_local_endpoints p)"

definition message_signal :: "'m protobuf \<Rightarrow> 'm message_register \<Rightarrow> endpoint \<Rightarrow> u16 \<Rightarrow> u16 \<Rightarrow> u8 list \<Rightarrow> 'm peer_effect" where
  "message_signal pb r ep cid typ data =
     (case parsed pb r cid typ data of
        Inr m \<Rightarrow> P_rcvd ep cid typ m | Inl e \<Rightarrow> P_recv_error ep (Deserialization_fail e))"

definition message_bytes :: "u16 \<Rightarrow> u16 \<Rightarrow> u8 list \<Rightarrow> u8 list" where
  "message_bytes cid typ data = htons cid @ htons typ @ data"

lemma length_message_bytes [simp]: "length (message_bytes cid typ data) = 4 + length data"
  by (simp add: message_bytes_def)

lemma recv_deliver_message:
  assumes "p_version p = PB_FRAME_V2" and "payload_size fh = htonl (word_of_nat (4 + length data))"
    and "length data < 2 ^ 31"
    and "\<And>i. i < 4 + length data \<Longrightarrow> p_in_data p (i + 8) = message_bytes cid typ data ! i"
  shows "recv_deliver pb fh p = p_emit (message_signal pb (p_register p) (p_in_endpoint p) cid typ data) p"
proof -
  have m: "map (\<lambda>i. p_in_data p (i + sizeof_frame_header)) [0..<sizeof_message_header] = htons cid @ htons typ"
  proof (rule nth_equalityI)
    fix i assume "i < length (map (\<lambda>i. p_in_data p (i + sizeof_frame_header)) [0..<sizeof_message_header])"
    then have i: "i < 4" by (simp add: sizeof_message_header_def)
    then show "map (\<lambda>i. p_in_data p (i + sizeof_frame_header)) [0..<sizeof_message_header] ! i
        = (htons cid @ htons typ) ! i"
      using assms(4) [of i] by (auto simp: sizeof_frame_header_def sizeof_message_header_def
          message_bytes_def nth_append)
  qed (simp add: sizeof_message_header_def)
  have d: "p_in_data p (i + (sizeof_frame_header + sizeof_message_header)) = data ! i" if "i < length data" for i
    using assms(4) [of "i + 4"] that
    by (simp add: sizeof_frame_header_def sizeof_message_header_def message_bytes_def nth_append add.commute)
  have "payload_size fh = htonl (word_of_nat (sizeof_message_header + length data))"
    using assms(2) by (simp add: sizeof_message_header_def)
  then have "deserialize pb (p_register p) fh \<lparr>component_id = htons cid, msg_type = htons typ\<rparr>
      (\<lambda>i. p_in_data p (i + (sizeof_frame_header + sizeof_message_header)))
      = parsed pb (p_register p) cid typ data"
    using assms(3) d by (intro deserialize_parsed) simp_all
  then show ?thesis
    by (simp add: recv_deliver_def recv_headers_def assms(1) m mh_of_def message_signal_def
        recv_error_def split: sum.split)
qed

text \<open>The size that a frame announces.\<close>

lemma announced: "n < 2 ^ 32 \<Longrightarrow> unat (ntohl (htonl (word_of_nat n :: u32))) = n"
  by (simp add: unat_of_nat)

text \<open>A datagram in the buffer that is being filled.\<close>

lemma arrived:
  assumes "peer_ready p" and "length bs \<le> 1024"
  shows "peer_ready (arrive ep bs p)" and "in_buffer (arrive ep bs p) = fill bs (in_buffer p)"
    and "p_in_endpoint (arrive ep bs p) = ep" and "p_version (arrive ep bs p) = p_version p"
    and "p_register (arrive ep bs p) = p_register p" and "p_trace (arrive ep bs p) = p_trace p"
    and "p_crypt (arrive ep bs p) = p_crypt p" and "hears ep' (arrive ep bs p) = hears ep' p"
    and "p_listens (arrive ep bs p)" and "p_crypto_buf (arrive ep bs p) = p_crypto p"
  using assms by (auto simp: arrive_def peer_ready_def in_buffer_def p_crypto_def hears_def
      max_packet_length_def Let_def)

lemma header_of_bytes: "8 \<le> length bs \<Longrightarrow> map (fill bs buf) [0..<sizeof_frame_header] = take 8 bs"
  by (simp add: map_fill_0 sizeof_frame_header_def)

text \<open>What follows the check of the header, when the datagram has the announced size.\<close>

definition deliver_if :: "'m protobuf \<Rightarrow> frame_header \<Rightarrow> 'm peer \<Rightarrow> 'm peer" where
  "deliver_if pb fh p = (if hears (p_in_endpoint p) p then recv_deliver pb fh p else p)"

lemma handle_recv_frame:
  assumes "expected_min_size p \<le> n" and "recv_frame lib j n p = (fh, k, p')" and "p_listens p'"
    and "k = 8 + unat (ntohl (payload_size fh))"
  shows "handle_recv lib pb j None n p = peer_start_recv (deliver_if pb fh p')"
  using assms by (simp add: handle_recv_def deliver_if_def hears_def sizeof_frame_header_def)

section \<open>Plain datagrams\<close>

definition raw_signal :: "endpoint \<Rightarrow> u8 list \<Rightarrow> 'm peer_effect" where
  "raw_signal ep bs = P_rcvd_raw ep (fh_of (take 8 bs)) (drop 8 bs)"

lemma recv_frame_plain:
  assumes "peer_ready p" and "\<not> p_crypto p" and "p_version p = PB_FRAME_V2"
    and "12 \<le> length bs" and "length bs \<le> 1024" and "bs ! 1 = 0"
  shows "recv_frame lib j (length bs) (arrive ep bs p)
    = (fh_of (take 8 bs), length bs, p_emit (raw_signal ep bs) (arrive ep bs p))"
proof -
  let ?p = "arrive ep bs p"
  note a = arrived [where ep = ep, OF assms(1,5)]
  have h: "map (in_buffer ?p) [0..<sizeof_frame_header] = take 8 bs"
    using header_of_bytes [of bs] assms(4) by (simp add: a(2))
  have b: "map (\<lambda>i. in_buffer ?p (i + sizeof_frame_header)) [0..<length bs - sizeof_frame_header] = drop 8 bs"
    using assms(4) by (simp add: a(2) map_fill sizeof_frame_header_def)
  have c: "cipher (fh_of (take 8 bs)) = PB_ENCRYPTION_NONE"
    using assms(4,6) by (simp add: fh_of_def PB_ENCRYPTION_NONE_def)
  show ?thesis
    using assms(2,3) a(3,4,9,10) c
    by (simp add: recv_frame_def h b recv_decrypt_def raw_signal_def p_emit_def Let_def)
qed

lemma receive_plain:
  assumes "peer_ready p" and "\<not> p_crypto p" and "p_version p = PB_FRAME_V2" and "hears ep p"
    and "bs = frame_bytes PB_FRAME_V2 r cid typ data" and "length data \<le> 1012"
  shows "p_trace (receive lib pb j ep bs p)
      = p_trace p @ [raw_signal ep bs, message_signal pb (p_register p) ep cid typ data]"
    and "peer_ready (receive lib pb j ep bs p)"
proof -
  have len: "length bs = 12 + length data" by (simp add: assms(5) frame_bytes_def)
  then have l: "12 \<le> length bs" "length bs \<le> 1024" using assms(6) by simp_all
  have c: "bs ! 1 = 0" by (simp add: assms(5) frame_bytes_def)
  let ?p = "p_emit (raw_signal ep bs) (arrive ep bs p)" and ?fh = "fh_of (take 8 bs)"
  note a = arrived [where ep = ep, OF assms(1) l(2)]
  have f: "recv_frame lib j (length bs) (arrive ep bs p) = (?fh, length bs, ?p)"
    by (rule recv_frame_plain [OF assms(1-3) l c])
  have size: "payload_size ?fh = htonl (word_of_nat (4 + length data))"
    by (simp add: assms(5) frame_bytes_def fh_of_def sizeof_message_header_def)
  then have n: "length bs = 8 + unat (ntohl (payload_size ?fh))"
    using announced [of "4 + length data"] assms(6) len by (simp del: of_nat_add)
  have d8: "drop 8 bs = message_bytes cid typ data"
    by (simp add: assms(5) frame_bytes_def message_bytes_def)
  have buf: "p_in_data ?p = fill bs (p_in_data p)"
    using a(2) assms(1,2) by (auto simp: p_emit_def in_buffer_def peer_ready_def arrive_def Let_def p_crypto_def)
  have "p_in_data ?p (i + 8) = message_bytes cid typ data ! i" if "i < 4 + length data" for i
    using that len arg_cong [OF d8, of "\<lambda>xs. xs ! i"] by (simp add: buf fill_def add.commute)
  then have d: "recv_deliver pb ?fh ?p = p_emit (message_signal pb (p_register ?p) (p_in_endpoint ?p) cid typ data) ?p"
    using assms(3,6) size a(4) by (intro recv_deliver_message) (simp_all add: p_emit_def)
  have e: "receive lib pb j ep bs p = peer_start_recv (deliver_if pb ?fh ?p)"
    using handle_recv_frame [OF _ f _ n, of pb] l a(4,9) assms(3)
    by (simp add: receive_def max_packet_length_def expected_min_size_def sizeof_frame_header_def
        sizeof_message_header_def p_emit_def)
  have h: "hears (p_in_endpoint ?p) ?p" using a(3,8) assms(4) by (simp add: p_emit_def hears_def)
  show "p_trace (receive lib pb j ep bs p)
      = p_trace p @ [raw_signal ep bs, message_signal pb (p_register p) ep cid typ data]"
    using a(3,5,6) h by (simp add: e deliver_if_def d) (simp add: p_emit_def peer_start_recv_def)
  show "peer_ready (receive lib pb j ep bs p)"
    using a(1) h by (simp add: e deliver_if_def d)
      (simp add: p_emit_def peer_start_recv_def peer_ready_def p_crypto_def)
qed

section \<open>Encrypted datagrams\<close>

lemma cipher_not_none: "encryptor_ok lib key e \<Longrightarrow> enc_cipher_id e \<noteq> PB_ENCRYPTION_NONE"
  by (auto simp: encryptor_ok_def cipher_by_id_def cipher_numbers)

lemma enc_longer:
  assumes "evp_ok lib" and "encryptor_ok lib key e" and "encrypt lib plain n e = (Inr enc, e')"
  shows "length plain < length enc"
proof -
  let ?b = "block_size lib (enc_cipher e)"
  obtain h out where o: "cipher_text lib (enc_cipher e) (enc_key e) h plain = Inr out"
    "enc = take (iv_length lib (enc_cipher e)) h @ out"
    using encrypt_parts [OF assms] by blast
  have "0 < ?b" using assms(1) by (simp add: evp_ok_def)
  then have "length plain < (length plain div ?b + 1) * ?b"
    by (metis add.commute dividend_less_times_div mult.commute mult_Suc_right Suc_eq_plus1)
  then show ?thesis using cipher_text_back(1) [OF assms(1) o(1)] o(2) by simp
qed

definition encrypted_frame :: "frame_header \<Rightarrow> encryptor \<Rightarrow> u8 list \<Rightarrow> u8 list" where
  "encrypted_frame fh e enc =
     fh_bytes (fh\<lparr>payload_size := htonl (word_of_nat (length enc)), cipher := enc_cipher_id e\<rparr>) @ enc"

lemma encrypted_frame_parts:
  "length (encrypted_frame fh e enc) = 8 + length enc"
  "drop 8 (encrypted_frame fh e enc) = enc"
  "fh_of (take 8 (encrypted_frame fh e enc))
   = fh\<lparr>payload_size := htonl (word_of_nat (length enc)), cipher := enc_cipher_id e\<rparr>"
  by (simp_all add: encrypted_frame_def fh_bytes_def fh_of_def)

lemma recv_frame_encrypted:
  assumes "peer_ready p" and "p_crypt p = Some (e', d)" and "p_version p = PB_FRAME_V2"
    and "evp_ok lib" and "encryptor_ok lib key e" and "decryptor_ok lib key d"
    and "encrypt lib plain n e = (Inr enc, e'')" and "bs = encrypted_frame fh e enc"
    and "length bs \<le> 1024"
  shows "\<exists>d'. decryptor_ok lib key d' \<and> recv_frame lib j (length bs) (arrive ep bs p)
    = ((fh_of (take 8 bs))\<lparr>payload_size := htonl (word_of_nat (length plain))\<rparr>, length plain + 8,
       (p_emit (raw_signal ep bs) (arrive ep bs p))
         \<lparr>p_in_data := store_from 8 plain (fill (take 8 bs) (p_in_data p)), p_crypt := Some (e', d')\<rparr>)"
proof -
  let ?p = "arrive ep bs p"
  have cr: "p_crypto p" using assms(2) by (simp add: p_crypto_def)
  note a = arrived [where ep = ep, OF assms(1,9)]
  have len: "length bs = 8 + length enc" by (simp add: assms(8) encrypted_frame_parts)
  have eb: "p_enc_in_data ?p = fill bs (p_enc_in_data p)" "p_in_data ?p = p_in_data p"
    using assms(1,9) cr by (simp_all add: arrive_def peer_ready_def max_packet_length_def Let_def)
  have h: "map (fill bs buf) [0..<sizeof_frame_header] = take 8 bs" for buf
    using header_of_bytes [of bs] len by simp
  have b: "map (\<lambda>i. in_buffer ?p (i + sizeof_frame_header)) [0..<length bs - sizeof_frame_header] = drop 8 bs"
    using len by (simp add: a(2) map_fill sizeof_frame_header_def)
  have c: "cipher (fh_of (take 8 bs)) = enc_cipher_id e" by (simp add: assms(8) encrypted_frame_parts)
  have body: "p_enc_in_data ?p (k + sizeof_frame_header) = enc ! k" if "k < length enc" for k
    using that len arg_cong [OF encrypted_frame_parts(2) [of fh e enc], of "\<lambda>xs. xs ! k"]
    by (simp add: eb(1), simp add: fill_def sizeof_frame_header_def assms(8) add.commute)
  have l31: "length enc < 2 ^ 31" using assms(9) len by simp
  obtain d' where d': "decrypt lib (enc_cipher_id e) (\<lambda>i. p_enc_in_data ?p (i + sizeof_frame_header))
      (length enc) d = ((Inr (length plain), plain), d')" "decryptor_ok lib key d'"
    using decrypt_encrypt [OF assms(4-7) l31 body] by auto
  have n: "length bs - sizeof_frame_header = length enc" using len by (simp add: sizeof_frame_header_def)
  let ?q = "p_emit (raw_signal ep bs) ?p" and ?fh = "fh_of (take 8 bs)"
  have "recv_frame lib j (length bs) ?p = recv_decrypt lib ?fh (length bs) ?q"
    using assms(3) by (simp add: recv_frame_def a(3,4,9) b raw_signal_def p_emit_def Let_def)
      (simp add: a(2) h)
  moreover have q: "p_crypto_buf ?q" "p_crypt ?q = Some (e', d)" "p_enc_in_data ?q = p_enc_in_data ?p"
    "p_in_data ?q = p_in_data p" using assms(2) cr a(7,10) eb(2) by (simp_all add: p_emit_def)
  have hdr: "map (p_enc_in_data ?p) [0..<sizeof_frame_header] = take 8 bs" by (simp only: eb(1) h)
  have "recv_decrypt lib ?fh (length bs) ?q = (?fh\<lparr>payload_size := htonl (word_of_nat (length plain))\<rparr>,
      length plain + sizeof_frame_header, ?q\<lparr>p_in_data := fill (take 8 bs) (p_in_data p), p_crypt := Some (e', d'),
      p_in_data := store_from sizeof_frame_header plain (fill (take 8 bs) (p_in_data p))\<rparr>)"
    using cipher_not_none [OF assms(5)]
    by (simp add: recv_decrypt_def q c n d'(1) hdr Let_def)
  ultimately show ?thesis using d'(2) by (auto simp: sizeof_frame_header_def)
qed

lemma receive_encrypted:
  assumes "peer_ready p" and "p_crypt p = Some (e', d)" and "p_version p = PB_FRAME_V2" and "hears ep p"
    and "evp_ok lib" and "encryptor_ok lib key e" and "decryptor_ok lib key d"
    and "encrypt lib (message_bytes cid typ data) n e = (Inr enc, e'')" and "bs = encrypted_frame fh e enc"
    and "length bs \<le> 1024"
  shows "\<exists>d'. decryptor_ok lib key d'
    \<and> p_trace (receive lib pb j ep bs p)
      = p_trace p @ [raw_signal ep bs, message_signal pb (p_register p) ep cid typ data]
    \<and> peer_ready (receive lib pb j ep bs p) \<and> p_crypt (receive lib pb j ep bs p) = Some (e', d')
    \<and> p_version (receive lib pb j ep bs p) = PB_FRAME_V2
    \<and> p_register (receive lib pb j ep bs p) = p_register p
    \<and> (\<forall>ep'. hears ep' (receive lib pb j ep bs p) = hears ep' p)
    \<and> (\<forall>i < 4 + length data. p_in_data (receive lib pb j ep bs p) (i + 8) = message_bytes cid typ data ! i)"
proof -
  note a = arrived [where ep = ep, OF assms(1,10)]
  have len: "length bs = 8 + length enc" by (simp add: assms(9) encrypted_frame_parts)
  have long: "4 + length data < length enc" using enc_longer [OF assms(5,6,8)] by simp
  let ?fh = "(fh_of (take 8 bs))\<lparr>payload_size := htonl (word_of_nat (4 + length data))\<rparr>"
  obtain d' p' where f: "decryptor_ok lib key d'"
    "recv_frame lib j (length bs) (arrive ep bs p) = (?fh, 4 + length data + 8, p')"
    "p' = (p_emit (raw_signal ep bs) (arrive ep bs p))
         \<lparr>p_in_data := store_from 8 (message_bytes cid typ data) (fill (take 8 bs) (p_in_data p)),
          p_crypt := Some (e', d')\<rparr>"
    using recv_frame_encrypted [OF assms(1-3,5-10), of j ep] by auto
  have n: "4 + length data + 8 = 8 + unat (ntohl (payload_size ?fh))"
    using announced [of "4 + length data"] long len assms(10) by (simp del: of_nat_add)
  have buf: "p_in_data p' (i + 8) = message_bytes cid typ data ! i" if "i < 4 + length data" for i
    using that by (simp add: f(3) store_from_def)
  have fields: "p_version p' = PB_FRAME_V2" "p_listens p'" "p_register p' = p_register p" "p_in_endpoint p' = ep"
    "p_trace p' = p_trace p @ [raw_signal ep bs]" "p_crypt p' = Some (e', d')"
    and hears': "hears ep' p' = hears ep' p" for ep'
    using a assms(3) by (simp_all add: f(3) p_emit_def hears_def)
  have d: "recv_deliver pb ?fh p' = p_emit (message_signal pb (p_register p') (p_in_endpoint p') cid typ data) p'"
    using long len assms(10) fields(1) buf by (intro recv_deliver_message) simp_all
  have e: "receive lib pb j ep bs p = peer_start_recv (p_emit (message_signal pb (p_register p') ep cid typ data) p')"
    using handle_recv_frame [OF _ f(2) fields(2) n, of pb] len long a(4) assms(3,4,10) fields(4) hears' d
    by (simp add: receive_def max_packet_length_def expected_min_size_def sizeof_frame_header_def
        sizeof_message_header_def deliver_if_def)
  show ?thesis
    using f(1) fields hears' buf
    by (intro exI [of _ d'])
      (simp add: e p_emit_def peer_start_recv_def peer_ready_def p_crypto_def hears_def)
qed

lemma receive_crypt_none:
  assumes "p_crypt p = None"
  shows "p_crypt (receive lib pb j ep bs p) = None"
proof -
  have "p_crypt (snd (snd (recv_frame lib j n q))) = None" if "p_crypt q = None" for n q
    using that by (simp add: recv_frame_def recv_decrypt_def recv_error_def p_emit_def Let_def)
  then have "p_crypt q' = None" if "recv_frame lib j n q = (fh, k, q')" "p_crypt q = None" for n q fh k q'
    using that by (metis snd_conv)
  moreover have "p_crypt (recv_deliver pb fh q) = p_crypt q" for fh q
    by (simp add: recv_deliver_def recv_error_def p_emit_def split: prod.split sum.split)
  moreover have "p_crypt (arrive ep bs p) = None" using assms by (simp add: arrive_def Let_def)
  ultimately show ?thesis
    by (auto simp: receive_def handle_recv_def peer_start_recv_def recv_error_def p_emit_def split: prod.split)
qed

section \<open>From sender to receiver\<close>

lemma peer_entry_wire:
  "peer_entry pb j cid typ m v = Inr e \<Longrightarrow>
   \<exists>data. pb_serialize pb m = Serialized data \<and> length data \<le> 1024
     \<and> wire e = (if v = PB_FRAME_V1
         then htons cid @ htons typ @ htonl (word_of_nat (4 + length data)) @ data
         else frame_bytes PB_FRAME_V2 (junk_reserved j) cid typ data)
     \<and> (v \<noteq> PB_FRAME_V1 \<longrightarrow> qe_buffers e ! 1 @ qe_buffers e ! 2 = message_bytes cid typ data)"
  by (auto simp: peer_entry_def serialize_def wire_def QueueEntry_new_def fh_bytes_def mh_bytes_def
      v1_bytes_def frame_bytes_def version_byte_def PB_ENCRYPTION_NONE_def message_bytes_def
      max_packet_length_def sizeof_message_header_def Let_def split: serialized.splits if_splits)

text \<open>Both peers send plain data, or both have keys that come from the same secret.\<close>

definition same_secret :: "'x openssl \<Rightarrow> u8 list \<Rightarrow> 'm peer \<Rightarrow> 'm peer \<Rightarrow> bool" where
  "same_secret lib key s r \<longleftrightarrow>
     (case (p_crypt s, p_crypt r) of
        (None, None) \<Rightarrow> True
      | (Some (e, _), Some (_, d)) \<Rightarrow> evp_ok lib \<and> encryptor_ok lib key e \<and> decryptor_ok lib key d
      | _ \<Rightarrow> False)"

lemma sent_plain:
  assumes "p_crypt s = None" and "\<not> p_outbound_active s" and "p_outbound_queue s = []"
    and "peer_entry pb j cid typ m (p_version s) = Inr entry"
  shows "peer_send lib pb j cid typ m s
    = (p_emit (P_send (p_outbound_endpoint s) entry (wire entry))
        (s\<lparr>p_outbound_active := True, p_in_flight := Some entry\<rparr>), None)"
  using assms by (simp add: peer_send_def push_and_send_def start_send_def p_emit_def Let_def)

lemma sent_encrypted:
  assumes "p_crypt s = Some (e, d)" and "\<not> p_outbound_active s" and "p_outbound_queue s = []"
    and "peer_entry pb j cid typ m (p_version s) = Inr entry"
    and "peer_send lib pb j cid typ m s = (s', None)"
  obtains n enc e' where "encrypt lib (qe_buffers entry ! 1 @ qe_buffers entry ! 2) n e = (Inr enc, e')"
    and "enc_cipher_id e' = enc_cipher_id e \<longrightarrow> p_trace s' = p_trace s @
      [P_send (p_outbound_endpoint s) entry (encrypted_frame (qe_frame entry) e enc)]"
    and "p_crypt s' = Some (e', d)"
proof -
  obtain r e' where r: "encrypt_entry lib e entry = (r, e')" by (cases "encrypt_entry lib e entry") auto
  then obtain w where w: "r = Inr w" using assms
    by (cases r) (auto simp: peer_send_def push_and_send_def start_send_def Let_def)
  obtain n where n: "encrypted_buffer_size lib (length (qe_buffers entry ! 1 @ qe_buffers entry ! 2)) e = Inr n"
    using r w by (auto simp: encrypt_entry_def split: sum.splits)
  obtain rr e'' where rr: "encrypt lib (qe_buffers entry ! 1 @ qe_buffers entry ! 2) n e = (rr, e'')" by fastforce
  then obtain enc where enc: "rr = Inr enc" "e'' = e'" "w = entry\<lparr>qe_frame := (qe_frame entry)\<lparr>payload_size :=
      htonl (word_of_nat (length enc)), cipher := enc_cipher_id e'\<rparr>, qe_buffers := [fh_bytes ((qe_frame entry)
      \<lparr>payload_size := htonl (word_of_nat (length enc)), cipher := enc_cipher_id e'\<rparr>), enc, []]\<rparr>"
    using r w n by (cases rr) (auto simp: encrypt_entry_def Let_def)
  have "wire w = encrypted_frame (qe_frame entry) e enc" if "enc_cipher_id e' = enc_cipher_id e"
    using that by (simp add: enc(3) wire_def encrypted_frame_def)
  then show thesis using that [of n enc e'] rr enc(1,2) r w assms
    by (auto simp: peer_send_def push_and_send_def start_send_def p_emit_def Let_def)
qed

text \<open>
  C19 A message that a peer sends over version 2 of the header, plain or encrypted with a key from the
  same secret, is signalled by every receiving peer with the same numbers and the parsed message, if
  its datagram fits in the receiver's buffer; afterwards both are ready for the next one.
\<close>

theorem datagram_arrives:
  assumes "peer_ready r" and "hears ep r" and "p_version r = PB_FRAME_V2" and "p_version s = PB_FRAME_V2"
    and "same_secret lib key s r" and "\<not> p_outbound_active s" and "p_outbound_queue s = []"
    and "pb_serialize pb m = Serialized data" and "parsed pb (p_register r) cid ty data = Inr m'"
    and "peer_send lib pb j cid ty m s = (s', None)"
  shows "\<exists>entry bs. p_trace s' = p_trace s @ [P_send (p_outbound_endpoint s) entry bs]
    \<and> (length bs \<le> 1024 \<longrightarrow>
         p_trace (receive lib pb j' ep bs r) = p_trace r @ [raw_signal ep bs, P_rcvd ep cid ty m']
         \<and> peer_ready (receive lib pb j' ep bs r) \<and> same_secret lib key s' (receive lib pb j' ep bs r))"
proof -
  obtain entry where entry: "peer_entry pb j cid ty m (p_version s) = Inr entry"
    using assms(10) by (cases "peer_entry pb j cid ty m (p_version s)") (simp_all add: peer_send_def)
  have w: "wire entry = frame_bytes PB_FRAME_V2 (junk_reserved j) cid ty data"
    "qe_buffers entry ! 1 @ qe_buffers entry ! 2 = message_bytes cid ty data"
    using peer_entry_wire [OF entry] assms(4,8) by auto
  have sig: "message_signal pb (p_register r) ep cid ty data = P_rcvd ep cid ty m'"
    by (simp add: message_signal_def assms(9))
  show ?thesis
  proof (cases "p_crypt s")
    case None
    then have cr: "p_crypt r = None" "\<not> p_crypto r"
      using assms(5) by (auto simp: same_secret_def p_crypto_def split: option.splits)
    have s': "p_trace s' = p_trace s @ [P_send (p_outbound_endpoint s) entry (wire entry)]" "p_crypt s' = None"
      using sent_plain [OF None assms(6,7) entry, of lib] assms(10) None by (auto simp: p_emit_def)
    have "p_trace (receive lib pb j' ep (wire entry) r) = p_trace r @ [raw_signal ep (wire entry), P_rcvd ep cid ty m']
        \<and> peer_ready (receive lib pb j' ep (wire entry) r)" if "length (wire entry) \<le> 1024"
    proof -
      have "length data \<le> 1012" using that by (simp add: w(1) frame_bytes_def)
      note rp = receive_plain [where lib = lib and pb = pb and j = j', OF assms(1) cr(2) assms(3,2) w(1) this]
      show ?thesis using rp(1) rp(2) by (simp add: sig)
    qed
    moreover have "p_crypt (receive lib pb j' ep (wire entry) r) = None" using cr(1) receive_crypt_none by blast
    ultimately show ?thesis using s' by (intro exI [of _ entry] exI [of _ "wire entry"]) (simp add: same_secret_def)
  next
    case (Some ed)
    then obtain e d e' d' where c: "p_crypt s = Some (e, d)" "p_crypt r = Some (e', d')"
      "evp_ok lib" "encryptor_ok lib key e" "decryptor_ok lib key d'"
      using assms(5) by (cases ed) (auto simp: same_secret_def split: option.splits)
    from sent_encrypted [OF c(1) assms(6,7) entry assms(10)]
    obtain n enc e2 where e2: "encrypt lib (message_bytes cid ty data) n e = (Inr enc, e2)"
      "enc_cipher_id e2 = enc_cipher_id e \<longrightarrow> p_trace s' = p_trace s @
        [P_send (p_outbound_endpoint s) entry (encrypted_frame (qe_frame entry) e enc)]"
      "p_crypt s' = Some (e2, d)" unfolding w(2) by metis
    note k = encrypt_ok [OF c(4) e2(1)]
    let ?bs = "encrypted_frame (qe_frame entry) e enc"
    have "p_trace (receive lib pb j' ep ?bs r) = p_trace r @ [raw_signal ep ?bs, P_rcvd ep cid ty m']
        \<and> peer_ready (receive lib pb j' ep ?bs r) \<and> same_secret lib key s' (receive lib pb j' ep ?bs r)"
      if "length ?bs \<le> 1024"
      using receive_encrypted [OF assms(1) c(2) assms(3,2) c(3-5) e2(1) refl that, of pb j'] k e2(3) c(3)
      by (auto simp: same_secret_def sig)
    then show ?thesis using e2(2) k by blast
  qed
qed

section \<open>Datagrams that are refused\<close>

text \<open>
  The payload size of version 1 counts the message header, which is not sent, and the receiver adds
  it once more.
\<close>

lemma receive_v1:
  assumes "peer_ready p" and "p_crypt p = None" and "p_version p = PB_FRAME_V1" and "bs = a @ b @ htonl w @ data"
    and "length a = 2" and "length b = 2" and "min 1024 (length bs) \<noteq> 8 + unat w"
  shows "p_trace (receive lib pb j ep bs p) = p_trace p @ [P_recv_error ep Invalid_size]"
proof -
  let ?bs = "take 1024 bs" and ?p = "arrive ep bs p"
  have cr: "\<not> p_target p" "\<not> p_crypto_buf p" "p_listens p"
    using assms(1,2) by (simp_all add: peer_ready_def p_crypto_def)
  have len: "length bs = 8 + length data" by (simp add: assms(4-6))
  have p: "p_in_data ?p = fill ?bs (p_in_data p)" "p_version ?p = PB_FRAME_V1" "p_listens ?p"
    "p_trace ?p = p_trace p" "p_in_endpoint ?p = ep"
    using cr assms(3) by (simp_all add: arrive_def max_packet_length_def Let_def)
  have "map (p_in_data ?p) [0..<sizeof_frame_header_v1] = take 8 bs"
    using len by (simp add: p(1) map_fill_0 sizeof_frame_header_v1_def)
  then have sz: "v1_payload_size (v1_of (map (p_in_data ?p) [0..<sizeof_frame_header_v1])) = htonl w"
    by (simp add: assms(4-6) v1_of_def)
  have "length ?bs \<ge> expected_min_size ?p" using len p(2) by (simp add: expected_min_size_def sizeof_frame_header_v1_def)
  then show ?thesis using assms(7) len
    by (simp add: receive_def handle_recv_def recv_frame_def min.commute max_packet_length_def sz [unfolded p(1)] p recv_error_def
        p_emit_def peer_start_recv_def sizeof_frame_header_def)
qed

text \<open>
  Two peers that use version 1 of the frame header do not understand each other: whatever message
  the one sends, the other refuses its datagram for its size.
\<close>

theorem v1_peers_reject:
  assumes "peer_entry pb j cid ty m PB_FRAME_V1 = Inr entry"
    and "peer_ready p" and "p_crypt p = None" and "p_version p = PB_FRAME_V1"
  shows "p_trace (receive lib pb j' ep (wire entry) p) = p_trace p @ [P_recv_error ep Invalid_size]"
proof -
  obtain data where d: "length data \<le> 1024"
    "wire entry = htons cid @ htons ty @ htonl (word_of_nat (4 + length data)) @ data"
    using peer_entry_wire [OF assms(1)] by auto
  have "unat (word_of_nat (4 + length data) :: u32) = 4 + length data" using d(1)
    by (simp add: unat_of_nat del: of_nat_add)
  then have "min 1024 (length (wire entry)) \<noteq> 8 + unat (word_of_nat (4 + length data) :: u32)"
    using d(2) by simp
  from receive_v1 [OF assms(2-4) d(2) _ _ this] show ?thesis by simp
qed

text \<open>
  Sizes: \<open>send\<close> accepts messages of up to 1024 bytes, but a datagram has twelve bytes more and the
  receiver's buffer has 1024 bytes: a message of 1013 to 1024 bytes is sent and then refused by every
  receiver, and a larger one is refused by the sender.
\<close>

theorem datagram_size_limits:
  assumes "pb_serialize pb m = Serialized data" and "peer_ready p" and "p_crypt p = None"
    and "p_version p = PB_FRAME_V2" and "hears ep p"
  shows "if length data \<le> 1024
    then \<exists>entry. peer_entry pb j cid ty m PB_FRAME_V2 = Inr entry
      \<and> p_trace (receive lib pb j' ep (wire entry) p) = p_trace p @
          (if length data \<le> 1012
           then [raw_signal ep (wire entry), message_signal pb (p_register p) ep cid ty data]
           else [raw_signal ep (take 1024 (wire entry)), P_recv_error ep Invalid_size])
    else peer_entry pb j cid ty m PB_FRAME_V2 = Inl Message_too_big"
proof (cases "length data \<le> 1024")
  case True
  obtain entry where e: "peer_entry pb j cid ty m PB_FRAME_V2 = Inr entry"
    using assms(1) True by (simp add: peer_entry_def serialize_def max_packet_length_def Let_def)
  have w: "wire entry = frame_bytes PB_FRAME_V2 (junk_reserved j) cid ty data"
    using peer_entry_wire [OF e] assms(1) by auto
  have cr: "\<not> p_crypto p" using assms(3) by (simp add: p_crypto_def)
  show ?thesis
  proof (cases "length data \<le> 1012")
    case le: True
    note rp = receive_plain(1) [where lib = lib and pb = pb and j = j', OF assms(2) cr assms(4,5) w le]
    then show ?thesis using True le e by simp
  next
    case False
    let ?bs = "take 1024 (wire entry)"
    have len: "length ?bs = 1024" "length (wire entry) = 12 + length data" using False w by (simp_all add: frame_bytes_def)
    have c: "?bs ! 1 = 0" using w by (simp add: frame_bytes_def)
    have cut: "receive lib pb j' ep (wire entry) p = handle_recv lib pb j' None (length ?bs) (arrive ep ?bs p)"
      by (simp add: receive_def arrive_def max_packet_length_def)
    have f: "recv_frame lib j' (length ?bs) (arrive ep ?bs p)
        = (fh_of (take 8 ?bs), length ?bs, p_emit (raw_signal ep ?bs) (arrive ep ?bs p))"
      using len(1) c by (intro recv_frame_plain [OF assms(2) cr assms(4)]) simp_all
    note a = arrived [where ep = ep, OF assms(2) eq_refl [OF len(1)]]
    have "payload_size (fh_of (take 8 (wire entry))) = htonl (word_of_nat (4 + length data))"
      by (simp add: w frame_bytes_def fh_of_def sizeof_message_header_def)
    then have n: "unat (ntohl (payload_size (fh_of (take 8 (wire entry))))) = 4 + length data"
      using announced [of "4 + length data"] True by (simp del: of_nat_add)
    have m: "expected_min_size (arrive ep ?bs p) \<le> length ?bs"
      using len(1) by (simp add: expected_min_size_def sizeof_frame_header_def sizeof_message_header_def
          sizeof_frame_header_v1_def)
    have "p_trace (receive lib pb j' ep (wire entry) p) = p_trace p @ [raw_signal ep ?bs, P_recv_error ep Invalid_size]"
      using m False len(1) a(3,6,9)
      by (simp add: cut handle_recv_def f [unfolded len(1)] n sizeof_frame_header_def)
        (simp add: recv_error_def p_emit_def peer_start_recv_def)
    then show ?thesis using True False e by simp
  qed
qed (use assms(1) in \<open>simp add: peer_entry_def serialize_def max_packet_length_def Let_def\<close>)

section \<open>Replayed messages\<close>

lemma receive_forged:
  assumes "peer_ready p" and "p_crypt p = Some (e, d)" and "p_version p = PB_FRAME_V2" and "hears ep p"
    and "forged = [v, 0, x, y] @ htonl (word_of_nat (4 + length data)) @ rest" and "length rest = 4 + length data"
    and "length data \<le> 1012"
    and "\<And>i. i < 4 + length data \<Longrightarrow> p_in_data p (i + 8) = message_bytes cid typ data ! i"
  shows "p_trace (receive lib pb j ep forged p) = p_trace p @
    [raw_signal ep forged, P_recv_error ep Plain_unexpected, message_signal pb (p_register p) ep cid typ data]"
proof -
  have len: "length forged = 12 + length data" by (simp add: assms(5,6))
  then have l: "length forged \<le> 1024" using assms(7) by simp
  have cr: "p_crypto p" using assms(2) by (simp add: p_crypto_def)
  let ?p = "arrive ep forged p" and ?fh = "fh_of (take 8 forged)"
  note a = arrived [where ep = ep, OF assms(1) l]
  have h: "map (fill forged buf) [0..<sizeof_frame_header] = take 8 forged" for buf
    using header_of_bytes [of forged] len by simp
  have b: "map (\<lambda>i. in_buffer ?p (i + sizeof_frame_header)) [0..<length forged - sizeof_frame_header] = drop 8 forged"
    using len by (simp add: a(2) map_fill sizeof_frame_header_def)
  have c: "cipher ?fh = PB_ENCRYPTION_NONE" by (simp add: assms(5) fh_of_def PB_ENCRYPTION_NONE_def)
  let ?q = "recv_error Plain_unexpected (p_emit (raw_signal ep forged) ?p)"
  have f: "recv_frame lib j (length forged) ?p = (?fh, length forged, ?q)"
    using assms(3) a(3,4,9,10) cr c
    by (simp add: recv_frame_def b raw_signal_def p_emit_def recv_decrypt_def Let_def) (simp add: a(2) h c)
  have size: "payload_size ?fh = htonl (word_of_nat (4 + length data))" by (simp add: assms(5) fh_of_def)
  then have n: "length forged = 8 + unat (ntohl (payload_size ?fh))"
    using announced [of "4 + length data"] assms(7) len by (simp del: of_nat_add)
  have q: "p_version ?q = PB_FRAME_V2" "p_listens ?q" "p_in_endpoint ?q = ep" "p_register ?q = p_register p"
    "p_trace ?q = p_trace p @ [raw_signal ep forged, P_recv_error ep Plain_unexpected]" "hears ep ?q"
    using a assms(3,4) by (simp_all add: recv_error_def p_emit_def hears_def)
  have "p_in_data ?q = p_in_data p"
    using assms(1) cr by (simp add: recv_error_def p_emit_def arrive_def peer_ready_def Let_def)
  then have d: "recv_deliver pb ?fh ?q = p_emit (message_signal pb (p_register ?q) (p_in_endpoint ?q) cid typ data) ?q"
    using size assms(7,8) q(1) by (intro recv_deliver_message) simp_all
  have "receive lib pb j ep forged p = peer_start_recv (deliver_if pb ?fh ?q)"
    using handle_recv_frame [OF _ f q(2) n, of pb] len l a(4) assms(3)
    by (simp add: receive_def max_packet_length_def expected_min_size_def sizeof_frame_header_def
        sizeof_message_header_def)
  then show ?thesis
    using q by (simp add: deliver_if_def d) (simp add: p_emit_def peer_start_recv_def)
qed

text \<open>
  C20 Encryption does not authenticate: after a peer has received an encrypted message, a plain
  datagram of the same size from anywhere, with any content behind its header, makes it signal an
  error and then the old message once more, as if it came from the new sender.
\<close>

theorem plain_datagram_replays:
  assumes "peer_ready r" and "p_crypt r = Some (e', d)" and "p_version r = PB_FRAME_V2"
    and "hears ep r" and "hears ep' r" and "evp_ok lib" and "encryptor_ok lib key e" and "decryptor_ok lib key d"
    and "encrypt lib (message_bytes cid ty data) n e = (Inr enc, e'')" and "bs = encrypted_frame fh e enc"
    and "length bs \<le> 1024" and "parsed pb (p_register r) cid ty data = Inr m"
    and "forged = [v, 0, x, y] @ htonl (word_of_nat (4 + length data)) @ rest" and "length rest = 4 + length data"
  shows "p_trace (receive lib pb j ep' forged (receive lib pb j ep bs r)) = p_trace r @
    [raw_signal ep bs, P_rcvd ep cid ty m,
     raw_signal ep' forged, P_recv_error ep' Plain_unexpected, P_rcvd ep' cid ty m]"
proof -
  have sig: "message_signal pb (p_register r) ep cid ty data = P_rcvd ep cid ty m" for ep
    by (simp add: message_signal_def assms(12))
  let ?r = "receive lib pb j ep bs r"
  obtain d' where r: "p_trace ?r = p_trace r @ [raw_signal ep bs, P_rcvd ep cid ty m]" "peer_ready ?r"
    "p_crypt ?r = Some (e', d')" "p_version ?r = PB_FRAME_V2" "p_register ?r = p_register r" "hears ep' ?r"
    "\<And>i. i < 4 + length data \<Longrightarrow> p_in_data ?r (i + 8) = message_bytes cid ty data ! i"
    using receive_encrypted [where j = j and pb = pb, OF assms(1-4,6-11)] assms(5)
    unfolding sig by blast
  have "length data \<le> 1012"
    using enc_longer [OF assms(6,7,9)] assms(11) by (simp add: assms(10) encrypted_frame_parts)
  from receive_forged [where j = j and pb = pb and lib = lib, OF r(2-4,6) assms(13,14) this r(7)]
  show ?thesis by (simp add: r(1,5) sig)
qed

section \<open>Sending in order\<close>

definition peer_started :: "'m peer \<Rightarrow> queue_entry list" where
  "peer_started p = List.map_filter (\<lambda>e. case e of P_send _ x _ \<Rightarrow> Some x | _ \<Rightarrow> None) (p_trace p)"

text \<open>Encryption that does not fail.\<close>

definition evp_total :: "'x openssl \<Rightarrow> bool" where
  "evp_total lib \<longleftrightarrow> (\<forall>bs. sha256 lib bs \<noteq> None) \<and> (\<forall>c k iv. encrypt_init lib c k iv \<noteq> None)
     \<and> (\<forall>x bs. encrypt_update lib x bs \<noteq> None) \<and> (\<forall>x. encrypt_final lib x \<noteq> None)"

definition sends_ok :: "'x openssl \<Rightarrow> 'm peer \<Rightarrow> bool" where
  "sends_ok lib p \<longleftrightarrow> (case map_option fst (p_crypt p) of None \<Rightarrow> True
     | Some e \<Rightarrow> evp_ok lib \<and> evp_total lib \<and> (\<exists>key. encryptor_ok lib key e))"

lemma encrypt_entry_works:
  assumes "evp_ok lib" and "evp_total lib" and "encryptor_ok lib key e"
  shows "\<exists>w e'. encrypt_entry lib e entry = (Inr w, e') \<and> encryptor_ok lib key e'"
proof -
  let ?pl = "qe_buffers entry ! 1 @ qe_buffers entry ! 2"
  have id: "cipher_by_id (enc_cipher_id e) = Inr (enc_cipher e)" using assms(3) by (simp add: encryptor_ok_def)
  then obtain n where n: "encrypted_buffer_size lib (length ?pl) e = Inr n" by (simp add: encrypted_buffer_size_def)
  obtain d where d: "sha256 lib (iv_bytes (enc_iv e + 1)) = Some d" 
    using assms(2) unfolding evp_total_def by (metis option.exhaust surj_pair)
  obtain h e'' where h: "next_iv lib (enc_cipher e) e = (Inr h, e'')"
    by (cases "iv_length lib (enc_cipher e) > 0") (simp_all add: next_iv_def d)
  obtain x where x: "encrypt_init lib (enc_cipher e) (enc_key e'') h = Some x" 
    using assms(2) unfolding evp_total_def by (metis option.exhaust surj_pair)
  obtain x' o1 where x': "encrypt_update lib x ?pl = Some (x', o1)" 
    using assms(2) unfolding evp_total_def by (metis option.exhaust surj_pair)
  obtain o2 where o2: "encrypt_final lib x' = Some o2" 
    using assms(2) unfolding evp_total_def by (metis option.exhaust surj_pair)
  have out: "cipher_text lib (enc_cipher e) (enc_key e'') h ?pl = Inr (o1 @ o2)" by (simp only: cipher_text_def x x' o2 option.case prod.case)
  have "fst (encrypt lib ?pl n e) \<noteq> Inl Buffer_overrun" by (rule encrypt_never_overruns [OF assms(1,3) n])
  then obtain enc where enc: "encrypt lib ?pl n e = (Inr enc, e'')"
    using id h out by (auto simp: encrypt_def split: if_splits)
  show ?thesis using encrypt_ok [OF assms(3) enc] 
    by (simp add: encrypt_entry_def n [simplified] enc [simplified] Let_def)
qed

text \<open>The message at the head of the queue is written when nothing else is.\<close>

lemma start_send_works:
  assumes "sends_ok lib p" and "p_outbound_queue p = e # q" and "\<not> p_outbound_active p"
  shows "\<exists>bs c. start_send lib p = (p_emit (P_send (p_outbound_endpoint p) e bs)
      (p\<lparr>p_outbound_active := True, p_outbound_queue := q, p_crypt := c, p_in_flight := Some e\<rparr>), None)
    \<and> sends_ok lib (p\<lparr>p_crypt := c\<rparr>)"
proof (cases "p_crypt p")
  case None
  then show ?thesis using assms
    by (intro exI [of _ "wire e"] exI [of _ None], cases p) (simp add: start_send_def Let_def sends_ok_def)
next
  case (Some ed)
  then obtain en d where c: "p_crypt p = Some (en, d)" by (cases ed) auto
  then obtain key where k: "evp_ok lib" "evp_total lib" "encryptor_ok lib key en"
    using assms(1) by (auto simp: sends_ok_def)
  obtain w en' where w: "encrypt_entry lib en e = (Inr w, en')" "encryptor_ok lib key en'"
    using encrypt_entry_works [OF k] by blast
  show ?thesis using assms(2,3) k w
    by (intro exI [of _ "wire w"] exI [of _ "Some (en', d)"])
      (auto simp: start_send_def Let_def sends_ok_def c p_emit_def)
qed

lemma sends_ok_cong: "p_crypt p = p_crypt p' \<Longrightarrow> sends_ok lib p = sends_ok lib p'"
  by (simp add: sends_ok_def)

lemma start_send_stops:
  "p_outbound_active p \<or> p_outbound_queue p = [] \<Longrightarrow> start_send lib p = (p, None)"
  by (auto simp: start_send_def split: list.split)

lemma started_p_emit [simp]:
  "peer_started (p_emit e p) = peer_started p @ (case e of P_send _ x _ \<Rightarrow> [x] | _ \<Rightarrow> [])"
  by (cases e) (simp_all add: peer_started_def p_emit_def List.map_filter_def)

lemma peer_started_cong: "p_trace p = p_trace p' \<Longrightarrow> peer_started p = peer_started p'"
  by (simp add: peer_started_def)

text \<open>A peer that has ended a write, and one that has something to write.\<close>

definition write_ended :: "error_code \<Rightarrow> 'm peer \<Rightarrow> 'm peer" where
  "write_ended err p =
     (let p = p\<lparr>p_in_flight := None, p_outbound_active := False\<rparr>
      in case err of None \<Rightarrow> p | Some _ \<Rightarrow> p_emit (P_send_error ''Sending message failed'') p)"

lemma handle_sent_ended: "handle_sent lib err p = start_send lib (write_ended err p)"
  by (simp add: handle_sent_def write_ended_def Let_def)

lemma write_ended_simps [simp]:
  "p_outbound_queue (write_ended err p) = p_outbound_queue p" "\<not> p_outbound_active (write_ended err p)"
  "p_in_flight (write_ended err p) = None" "p_crypt (write_ended err p) = p_crypt p"
  "peer_started (write_ended err p) = peer_started p"
  by (cases err; simp add: write_ended_def p_emit_def peer_started_def List.map_filter_def)+

lemma sent_next:
  assumes "sends_ok lib p" and "p_outbound_queue p = e # q"
  shows "sends_ok lib (fst (handle_sent lib err p)) \<and> p_outbound_active (fst (handle_sent lib err p))
    \<and> p_in_flight (fst (handle_sent lib err p)) = Some e \<and> p_outbound_queue (fst (handle_sent lib err p)) = q
    \<and> peer_started (fst (handle_sent lib err p)) = peer_started p @ [e]"
proof -
  let ?q = "write_ended err p"
  have q: "sends_ok lib ?q" "p_outbound_queue ?q = e # q" "\<not> p_outbound_active ?q"
    using assms by (simp_all add: sends_ok_def)
  obtain bs c where r: "start_send lib ?q = (p_emit (P_send (p_outbound_endpoint ?q) e bs)
      (?q\<lparr>p_outbound_active := True, p_outbound_queue := q, p_crypt := c, p_in_flight := Some e\<rparr>), None)"
    "sends_ok lib (?q\<lparr>p_crypt := c\<rparr>)"
    using start_send_works [OF q] by blast
  have "peer_started (?q\<lparr>p_outbound_active := True, p_outbound_queue := q, p_crypt := c, p_in_flight := Some e\<rparr>) = peer_started p"
    by (subst write_ended_simps(5) [symmetric, of _ err], rule peer_started_cong) simp
  then show ?thesis using r(2)
    by (simp only: handle_sent_ended r(1) fst_conv started_p_emit) (simp add: p_emit_def sends_ok_def)
qed

lemma sent_last:
  assumes "p_outbound_queue p = []"
  shows "\<not> p_outbound_active (fst (handle_sent lib err p))
    \<and> p_in_flight (fst (handle_sent lib err p)) = None \<and> p_outbound_queue (fst (handle_sent lib err p)) = []
    \<and> peer_started (fst (handle_sent lib err p)) = peer_started p
    \<and> sends_ok lib (fst (handle_sent lib err p)) = sends_ok lib p"
  using assms by (simp add: handle_sent_ended start_send_stops sends_ok_def)

lemma pushed:
  assumes "sends_ok lib p"
  shows "if p_outbound_active p
    then push_and_send lib e p = (p\<lparr>p_outbound_queue := p_outbound_queue p @ [e]\<rparr>, None)
    else p_outbound_queue p = [] \<longrightarrow> (\<exists>p'. push_and_send lib e p = (p', None) \<and> sends_ok lib p'
      \<and> p_outbound_active p' \<and> p_in_flight p' = Some e \<and> p_outbound_queue p' = []
      \<and> peer_started p' = peer_started p @ [e])"
proof (cases "p_outbound_active p")
  case False
  let ?p = "p\<lparr>p_outbound_queue := [e]\<rparr>"
  have q: "sends_ok lib ?p" "p_outbound_queue ?p = e # []" "\<not> p_outbound_active ?p"
    using assms False by (simp_all add: sends_ok_def)
  obtain bs c where r: "start_send lib ?p = (p_emit (P_send (p_outbound_endpoint ?p) e bs)
      (?p\<lparr>p_outbound_active := True, p_outbound_queue := [], p_crypt := c, p_in_flight := Some e\<rparr>), None)"
    "sends_ok lib (?p\<lparr>p_crypt := c\<rparr>)"
    using start_send_works [OF q] by blast
  then show ?thesis using False
    by (auto simp: push_and_send_def sends_ok_def p_emit_def peer_started_def List.map_filter_def)
qed (simp add: push_and_send_def start_send_stops)

interpretation peer_writer: ordered_writer "sends_ok lib" "\<lambda>e p. fst (push_and_send lib e p)"
    "\<lambda>p. fst (handle_sent lib err p)" p_outbound_active p_in_flight p_outbound_queue peer_started for lib err
proof (unfold_locales, goal_cases)
  case (1 p e)
  show ?case
  proof (cases "p_outbound_active p \<or> p_outbound_queue p = []")
    case True
    then show ?thesis using pushed [OF 1, of e] 1 by (auto simp: sends_ok_def split: if_splits)
  next
    case False
    then obtain f q where "p_outbound_queue p = f # q" by (cases "p_outbound_queue p") auto
    then have q: "p_outbound_queue (p\<lparr>p_outbound_queue := p_outbound_queue p @ [e]\<rparr>) = f # q @ [e]" by simp
    have "sends_ok lib (p\<lparr>p_outbound_queue := p_outbound_queue p @ [e]\<rparr>)" using 1 by (simp add: sends_ok_def)
    from start_send_works [OF this q] False show ?thesis
      by (auto simp: push_and_send_def p_emit_def sends_ok_def)
  qed
next
  case (2 p)
  then show ?case using sent_next [OF 2] sent_last by (cases "p_outbound_queue p") blast+
next
  case (3 p e)
  then show ?case using pushed [OF 3(1), of e] by (simp add: peer_started_def)
next
  case (4 p e)
  then show ?case using pushed [OF 4(1), of e] by auto
next
  case (5 p e q)
  then show ?case using sent_next by blast
next
  case (6 p)
  then show ?case using sent_last by blast
qed

text \<open>Receiving does not touch what is sent.\<close>

definition sender_view where
  "sender_view p = (p_outbound_active p, p_in_flight p, p_outbound_queue p, peer_started p, p_version p,
     map_option fst (p_crypt p))"

lemma view_p_emit: "(\<forall>ep x bs. e \<noteq> P_send ep x bs) \<Longrightarrow> sender_view (p_emit e p) = sender_view p"
  by (cases e) (simp_all add: sender_view_def p_emit_def peer_started_def List.map_filter_def)

lemma view_recv_error [simp]: "sender_view (recv_error e p) = sender_view p"
  by (simp add: recv_error_def view_p_emit)

lemma view_deliver: "sender_view (recv_deliver pb fh p) = sender_view p"
  by (simp add: recv_deliver_def view_p_emit split: prod.split sum.split)

lemma view_update [simp]:
  "sender_view (p_in_data_update f p) = sender_view p"
  "sender_view (p_enc_in_data_update f p) = sender_view p"
  "sender_view (p_in_endpoint_update g p) = sender_view p"
  "sender_view (p_filter_self_update h p) = sender_view p"
  "sender_view (p_crypto_buf_update h p) = sender_view p"
  "sender_view (p_target_update h p) = sender_view p"
  by (simp_all add: sender_view_def peer_started_def)

lemma view_crypt: "p_crypt p = Some (e, d) \<Longrightarrow> sender_view (p\<lparr>p_crypt := Some (e, d')\<rparr>) = sender_view p"
  by (simp add: sender_view_def peer_started_def)

lemma view_decrypt: "recv_decrypt lib fh n p = (fh', n', p') \<Longrightarrow> sender_view p' = sender_view p"
  by (auto simp: recv_decrypt_def view_crypt Let_def split: if_splits option.splits prod.splits sum.splits)

lemma view_frame: "recv_frame lib j n p = (fh, n', p') \<Longrightarrow> sender_view p' = sender_view p"
  by (auto simp: recv_frame_def view_p_emit Let_def dest: view_decrypt split: if_splits)

lemma view_recv: "sender_view (handle_recv lib pb j err n p) = sender_view p"
proof -
  have st: "sender_view (peer_start_recv q) = sender_view q" for q :: "'a peer"
    by (simp add: peer_start_recv_def)
  obtain fh n' p' where f: "recv_frame lib j n p = (fh, n', p')" by (cases "recv_frame lib j n p") auto
  show ?thesis using view_frame [OF f] by (simp add: handle_recv_def st f view_deliver)
qed

lemma view_receive: "sender_view (receive lib pb j ep bs p) = sender_view p"
  by (simp add: receive_def view_recv arrive_def Let_def)

text \<open>The messages that a call of \<open>send\<close> or \<open>send_raw\<close> accepts.\<close>

definition peer_accepted :: "'m protobuf \<Rightarrow> junk \<Rightarrow> frame_version \<Rightarrow> 'm peer_event \<Rightarrow> queue_entry list" where
  "peer_accepted pb j v ev =
     (case ev of
        D_send cid typ m \<Rightarrow> (case peer_entry pb j cid typ m v of Inr e \<Rightarrow> [e] | Inl _ \<Rightarrow> [])
      | D_send_raw fh data \<Rightarrow> [raw_entry fh data]
      | _ \<Rightarrow> [])"

text \<open>Resolving the receiver and changing the key are done before.\<close>

definition plain_event :: "'m peer_event \<Rightarrow> bool" where
  "plain_event ev = (case ev of D_resolved _ _ \<Rightarrow> False | D_setup_crypto _ _ _ \<Rightarrow> False | _ \<Rightarrow> True)"

definition peer_wok :: "'x openssl \<Rightarrow> 'm peer \<Rightarrow> bool" where
  "peer_wok lib p \<longleftrightarrow> sends_ok lib p \<and> (p_outbound_active p \<longleftrightarrow> p_in_flight p \<noteq> None)
     \<and> (\<not> p_outbound_active p \<longrightarrow> p_outbound_queue p = [])"

lemma peer_writer_wok: "ordered_writer.wok (sends_ok lib) p_outbound_active p_in_flight p_outbound_queue = peer_wok lib"
  by (simp add: peer_writer.wok_def peer_wok_def fun_eq_iff)

lemma view_wok: "sender_view p' = sender_view p \<Longrightarrow> peer_wok lib p \<Longrightarrow> peer_wok lib p'
    \<and> peer_started p' @ p_outbound_queue p' = peer_started p @ p_outbound_queue p \<and> p_version p' = p_version p"
  by (auto simp: sender_view_def peer_wok_def sends_ok_def)

lemma version_start_send [simp]: "p_version (fst (start_send lib p)) = p_version p"
  by (auto simp: start_send_def p_emit_def Let_def split: list.split option.split sum.split prod.split)

lemma version_sending [simp]:
  "p_version (fst (push_and_send lib e p)) = p_version p" "p_version (fst (handle_sent lib err p)) = p_version p"
  by (simp_all add: push_and_send_def handle_sent_def p_emit_def Let_def split: option.split)

lemma peer_step_in_order:
  fixes lib :: "'x openssl"
  assumes "peer_wok lib p" and "plain_event ev"
  shows "peer_wok lib (peer_step lib pb j ev p)
    \<and> peer_started (peer_step lib pb j ev p) @ p_outbound_queue (peer_step lib pb j ev p)
      = peer_started p @ p_outbound_queue p @ peer_accepted pb j (p_version p) ev
    \<and> p_version (peer_step lib pb j ev p) = p_version p"
proof -
  have w: "peer_wok lib (peer_writer.wstep TYPE('x) lib err x p)
    \<and> peer_started (peer_writer.wstep TYPE('x) lib err x p) @ p_outbound_queue (peer_writer.wstep TYPE('x) lib err x p)
      = peer_started p @ p_outbound_queue p @ (case x of Some e \<Rightarrow> [e] | None \<Rightarrow> [])" for x err
    using peer_writer.wok_step [of lib p err x] peer_writer.wstep_content [of lib p err x] assms(1)
    by (simp only: peer_writer_wok)
  note put = w [of None "Some e" for e, unfolded peer_writer.wstep_def, simplified]
  show ?thesis
  proof (cases ev)
    case (D_send cid ty m)
    show ?thesis using put assms(1)
      by (cases "peer_entry pb j cid ty m (p_version p)")
        (simp_all add: D_send peer_step_def peer_send_def peer_accepted_def)
  next
    case (D_send_raw fh data)
    show ?thesis using put by (simp add: D_send_raw peer_step_def send_raw_def peer_accepted_def)
  next
    case (D_sent err)
    show ?thesis using w [of err None] assms(1)
      by (simp add: D_sent peer_step_def peer_accepted_def peer_writer.wstep_def)
  next
    case (D_datagram ep bs)
    show ?thesis using view_wok [OF view_receive assms(1)] by (simp add: D_datagram peer_step_def peer_accepted_def)
  next
    case (D_recv_error w)
    show ?thesis using view_wok [OF view_recv assms(1)] by (simp add: D_recv_error peer_step_def peer_accepted_def)
  next
    case (D_filter_self b)
    show ?thesis using view_wok [OF _ assms(1), of "set_filter_self b p"]
      by (simp add: D_filter_self peer_step_def peer_accepted_def set_filter_self_def)
  qed (use assms(2) in \<open>simp_all add: plain_event_def\<close>)
qed

text \<open>
  A peer writes its messages in the order in which they were accepted, one at a time and none
  twice, whatever arrives in between; a failed write is signalled and the next message is written,
  so the messages that are not yet written are those in the queue.
\<close>

theorem peer_writes_in_order:
  assumes "peer_wok lib p" and "\<forall>ev \<in> set evs. plain_event ev"
    and "p' = fold (peer_step lib pb j) evs p"
  shows "peer_started p' @ p_outbound_queue p'
      = peer_started p @ p_outbound_queue p @ concat (map (peer_accepted pb j (p_version p)) evs)
    \<and> (p_outbound_queue p' \<noteq> [] \<longrightarrow> p_in_flight p' \<noteq> None)"
proof -
  have "peer_wok lib (fold (peer_step lib pb j) evs p)
    \<and> peer_started (fold (peer_step lib pb j) evs p) @ p_outbound_queue (fold (peer_step lib pb j) evs p)
      = peer_started p @ p_outbound_queue p @ concat (map (peer_accepted pb j (p_version p)) evs)"
    using assms(1,2)
  proof (induction evs arbitrary: p)
    case (Cons ev evs)
    from Cons.prems(2) have "plain_event ev" "\<forall>e \<in> set evs. plain_event e" by simp_all
    note s = peer_step_in_order [OF Cons.prems(1) this(1), of pb j] and t = this(2)
    have "peer_started (peer_step lib pb j ev p) @ p_outbound_queue (peer_step lib pb j ev p) @ ys
        = peer_started p @ p_outbound_queue p @ peer_accepted pb j (p_version p) ev @ ys" for ys
      using s by (simp flip: append_assoc)
    then show ?case using Cons.IH [OF conjunct1 [OF s] t] s by simp
  qed simp
  then show ?thesis by (auto simp: assms(3) peer_wok_def)
qed

text \<open>
  When the name of the receiver cannot be resolved, nothing is ever sent: whatever happens, as long
  as no resolution succeeds, every message that is accepted stays in the queue.
\<close>

theorem resolve_failure_blocks:
  assumes "Peer_new lib j r v ifaces port key cipher_name rand = Inr p"
    and "\<forall>ev \<in> set evs. \<forall>ep. ev \<noteq> D_resolved None ep" and "p' = fold (peer_step lib pb j) evs p"
  shows "peer_started p' = [] \<and> p_in_flight p' = None
    \<and> p_outbound_queue p' = concat (map (peer_accepted pb j v) evs)"
proof -
  have blocked: "p_outbound_active (fold (peer_step lib pb j) evs p) \<and> peer_started (fold (peer_step lib pb j) evs p) = peer_started p
      \<and> p_in_flight (fold (peer_step lib pb j) evs p) = None
      \<and> p_outbound_queue (fold (peer_step lib pb j) evs p)
        = p_outbound_queue p @ concat (map (peer_accepted pb j (p_version p)) evs)"
    if "p_outbound_active p" "p_in_flight p = None" for p
    using assms(2) that
  proof (induction evs arbitrary: p)
    case (Cons ev evs)
    let ?q = "peer_step lib pb j ev p"
    have q: "p_outbound_active ?q \<and> p_in_flight ?q = None \<and> peer_started ?q = peer_started p
      \<and> p_version ?q = p_version p
      \<and> p_outbound_queue ?q = p_outbound_queue p @ peer_accepted pb j (p_version p) ev"
    proof (cases ev)
      case (D_resolved err ep)
      then show ?thesis using Cons.prems
        by (cases err) (auto simp: peer_step_def peer_handle_resolve_def start_send_stops p_emit_def
            peer_accepted_def peer_started_def List.map_filter_def)
    next
      case (D_send cid ty m)
      then show ?thesis using Cons.prems
        by (cases "peer_entry pb j cid ty m (p_version p)")
          (auto simp: peer_step_def peer_send_def push_and_send_def start_send_stops peer_accepted_def peer_started_def)
    next
      case (D_send_raw fh data)
      then show ?thesis using Cons.prems
        by (auto simp: peer_step_def send_raw_def push_and_send_def start_send_stops peer_accepted_def peer_started_def)
    next
      case (D_setup_crypto k c rand)
      then show ?thesis using Cons.prems
        by (auto simp: peer_step_def setup_crypto_def Let_def peer_accepted_def peer_started_def split: sum.split)
    next
      case (D_datagram ep bs)
      then show ?thesis using Cons.prems view_receive [of lib pb j ep bs p]
        by (simp add: peer_step_def peer_accepted_def sender_view_def)
    next
      case (D_recv_error w)
      then show ?thesis using Cons.prems view_recv [of lib pb j "Some w" 0 p]
        by (simp add: peer_step_def peer_accepted_def sender_view_def)
    qed (use Cons.prems in \<open>simp_all add: peer_step_def peer_accepted_def set_filter_self_def peer_started_def\<close>)
    with Cons.prems Cons.IH [of ?q] show ?case by simp
  qed simp
  have "p_outbound_active p \<and> p_in_flight p = None \<and> peer_started p = [] \<and> p_outbound_queue p = [] \<and> p_version p = v"
    using assms(1) by (auto simp: Peer_new_def setup_crypto_def peer_start_recv_def peer_started_def Let_def
        map_filter_simps split: if_splits sum.splits option.splits)
  then show ?thesis using blocked [of p] by (simp add: assms(3))
qed

section \<open>A small library and its peers\<close>

definition demo_cbc :: "evp_cipher \<Rightarrow> bool" where
  "demo_cbc c \<longleftrightarrow> c = EVP_aes_128_cbc \<or> c = EVP_aes_256_cbc"

definition demo_ctx :: "evp_cipher \<Rightarrow> u8 list \<Rightarrow> u8 list \<Rightarrow> u8" where
  "demo_ctx c k iv = (if demo_cbc c then hd k XOR (if iv = [] then 0 else hd iv) else hd k)"

definition demo_lib :: "u8 openssl" where
  "demo_lib = \<lparr>short_name = (\<lambda>c. case c of EVP_aes_128_ecb \<Rightarrow> ''AES-128-ECB'' | EVP_aes_128_cbc \<Rightarrow> ''AES-128-CBC''
       | EVP_aes_256_ecb \<Rightarrow> ''AES-256-ECB'' | EVP_aes_256_cbc \<Rightarrow> ''AES-256-CBC''),
     long_name = (\<lambda>c. case c of EVP_aes_128_ecb \<Rightarrow> ''aes-128-ecb'' | EVP_aes_128_cbc \<Rightarrow> ''aes-128-cbc''
       | EVP_aes_256_ecb \<Rightarrow> ''aes-256-ecb'' | EVP_aes_256_cbc \<Rightarrow> ''aes-256-cbc''),
     iv_length = (\<lambda>c. if demo_cbc c then 1 else 0), block_size = (\<lambda>_. 1),
     bytes_to_key = (\<lambda>_ k. Some (take 1 (k @ [3]))), sha256 = (\<lambda>bs. Some (replicate 32 (bs ! 0))),
     encrypt_init = (\<lambda>c k iv. Some (demo_ctx c k iv)),
     encrypt_update = (\<lambda>x bs. Some (x, map (\<lambda>b. b XOR x) bs)), encrypt_final = (\<lambda>_. Some [1]),
     decrypt_init = (\<lambda>c k iv. Some (demo_ctx c k iv)),
     decrypt_update = (\<lambda>x bs _. Some (x, map (\<lambda>b. b XOR x) (butlast bs))), decrypt_final = (\<lambda>_. Some [])\<rparr>"

lemma demo_evp_ok: "evp_ok demo_lib"
proof -
  have iv: "demo_ctx c k (take (if demo_cbc c then 1 else 0) iv) = demo_ctx c k iv" for c k iv
    by (cases iv) (simp_all add: demo_ctx_def)
  have x: "map ((\<lambda>b. b XOR x) \<circ> (\<lambda>b. b XOR x)) p = p" for x :: u8 and p
    by (simp add: comp_def xor.assoc)
  show ?thesis unfolding evp_ok_def demo_lib_def by (auto simp: iv x)
qed

lemma demo_evp_total: "evp_total demo_lib"
  by (simp add: evp_total_def demo_lib_def)

text \<open>The keys of the secret \<open>42\<close> with the cipher AES-128-CBC.\<close>

definition demo_encryptor :: encryptor where
  "demo_encryptor = \<lparr>enc_cipher = EVP_aes_128_cbc, enc_cipher_id = 2, enc_key = [42], enc_iv = 16\<rparr>"

lemma demo_encryptor_new: "BufferEncryptor_new demo_lib [42] ''aes-128-cbc'' (Some 16) = Inr demo_encryptor"
  by (simp add: BufferEncryptor_new_def cipher_by_name_def cipher_name_to_id_def cipher_numbers
      demo_lib_def demo_encryptor_def)

definition demo_peer :: "frame_version \<Rightarrow> (encryptor \<times> decryptor) option \<Rightarrow> u8 list peer" where
  "demo_peer v c = peer_start_recv ((projr (Peer_new demo_lib demo_junk demo_register v None 4444 [] [] None))
     \<lparr>p_listens := True, p_outbound_active := False, p_crypt := c\<rparr>)"

definition demo_header :: frame_header where
  "demo_header = qe_frame (QueueEntry_new (0, 0))"

abbreviation demo_keys :: "(encryptor \<times> decryptor) option" where
  "demo_keys \<equiv> Some (demo_encryptor, BufferDecryptor_new [42])"

lemmas demo_peer_defs = demo_peer_def Peer_new_def peer_start_recv_def determine_local_endpoints_def Let_def

lemma demo_peer_simps [simp]:
  "peer_ready (demo_peer v c)" "hears ep (demo_peer v c)" "p_version (demo_peer v c) = v"
  "p_crypt (demo_peer v c) = c" "\<not> p_outbound_active (demo_peer v c)" "p_outbound_queue (demo_peer v c) = []"
  "p_register (demo_peer v c) = demo_register" "p_trace (demo_peer v c) = []" "p_in_flight (demo_peer v c) = None"
  by (simp_all add: demo_peer_defs peer_ready_def p_crypto_def hears_def)

lemma demo_encryptor_ok: "encryptor_ok demo_lib [42] demo_encryptor"
  by (rule encryptor_ok_new [OF demo_encryptor_new])

lemma demo_peer_entry:
  "length data \<le> 1024 \<Longrightarrow> \<exists>e. peer_entry demo_pb demo_junk cid ty data v = Inr e"
  by (simp add: peer_entry_def serialize_def demo_pb_def max_packet_length_def Let_def)

lemma demo_wok: "peer_wok demo_lib (demo_peer v demo_keys)"
  using demo_evp_ok demo_evp_total demo_encryptor_ok by (auto simp: peer_wok_def sends_ok_def)

lemma demo_encrypted: "\<exists>enc e'. encrypt demo_lib (message_bytes 2000 13 [5, 6]) 9 demo_encryptor = (Inr enc, e')
    \<and> length enc = 8"
  by (simp add: encrypt_def next_iv_def cipher_by_id_def cipher_numbers cipher_text_def demo_encryptor_def
      demo_lib_def demo_cbc_def message_bytes_def htons_def)

lemma demo_encrypted_length:
  "encrypt demo_lib (message_bytes 2000 13 [5, 6]) n demo_encryptor = (Inr enc, e') \<Longrightarrow> length enc = 8"
  by (auto simp: encrypt_def next_iv_def cipher_by_id_def cipher_numbers cipher_text_def demo_encryptor_def
      demo_lib_def demo_cbc_def message_bytes_def htons_def split: if_splits)

theorem datagram_arrives_witness:
  "\<exists>bs. p_trace (receive demo_lib demo_pb demo_junk (1, 2) bs (demo_peer PB_FRAME_V2 demo_keys))
    = [raw_signal (1, 2) bs, P_rcvd (1, 2) 2000 13 [5, 6]]"
proof -
  let ?s = "demo_peer PB_FRAME_V2 demo_keys"
  obtain entry where e: "peer_entry demo_pb demo_junk 2000 13 [5, 6] PB_FRAME_V2 = Inr entry"
    using demo_peer_entry [of "[5, 6]" 2000 13 PB_FRAME_V2] by auto
  obtain s' where s': "peer_send demo_lib demo_pb demo_junk 2000 13 [5, 6] ?s = (s', None)"
    using pushed [of demo_lib ?s entry] demo_wok by (auto simp: peer_send_def e peer_wok_def)
  have sec: "same_secret demo_lib [42] ?s ?s"
    by (simp add: same_secret_def demo_evp_ok demo_encryptor_ok decryptor_ok_new)
  have ser: "pb_serialize demo_pb [5, 6] = Serialized [5, 6]" by (simp add: demo_pb_def)
  obtain en bs where r: "p_trace s' = [P_send (p_outbound_endpoint ?s) en bs]"
    "length bs \<le> 1024 \<longrightarrow> p_trace (receive demo_lib demo_pb demo_junk (1, 2) bs ?s)
      = [raw_signal (1, 2) bs, P_rcvd (1, 2) 2000 13 [5, 6]]"
    using datagram_arrives [where j' = demo_junk and ep = "(1, 2)", OF _ _ _ _ sec _ _ ser _ s', of "[5, 6]"]
    by (auto simp: demo_parsed)
  have mb: "qe_buffers entry ! 1 @ qe_buffers entry ! 2 = message_bytes 2000 13 [5, 6]"
    using peer_entry_wire [OF e] ser by auto
  obtain n enc e' where enc: "encrypt demo_lib (message_bytes 2000 13 [5, 6]) n demo_encryptor = (Inr enc, e')"
    "enc_cipher_id e' = enc_cipher_id demo_encryptor \<longrightarrow> p_trace s' = p_trace ?s @
      [P_send (p_outbound_endpoint ?s) entry (encrypted_frame (qe_frame entry) demo_encryptor enc)]"
    using sent_encrypted [OF _ _ _ _ s'] e unfolding mb [symmetric] by (metis demo_peer_simps(3-6))
  have "bs = encrypted_frame (qe_frame entry) demo_encryptor enc"
    using r(1) enc(2) encrypt_ok [OF demo_encryptor_ok enc(1)] by auto
  then have "length bs \<le> 1024" using demo_encrypted_length [OF enc(1)] by (simp add: encrypted_frame_parts(1))
  then show ?thesis using r(2) by blast
qed

theorem v1_peers_reject_witness:
  "\<exists>bs. p_trace (receive demo_lib demo_pb demo_junk (1, 2) bs (demo_peer PB_FRAME_V1 None))
    = [P_recv_error (1, 2) Invalid_size]"
proof -
  obtain entry where e: "peer_entry demo_pb demo_junk 2000 13 [5, 6] PB_FRAME_V1 = Inr entry"
    using demo_peer_entry [of "[5, 6]" 2000 13 PB_FRAME_V1] by auto
  from v1_peers_reject [OF e, of "demo_peer PB_FRAME_V1 None" demo_lib demo_junk "(1, 2)"]
  show ?thesis by auto
qed

theorem datagram_size_limits_witness:
  "\<exists>entry. peer_entry demo_pb demo_junk 2000 13 (replicate 1020 7) PB_FRAME_V2 = Inr entry
    \<and> p_trace (receive demo_lib demo_pb demo_junk (1, 2) (wire entry) (demo_peer PB_FRAME_V2 None))
      = [raw_signal (1, 2) (take 1024 (wire entry)), P_recv_error (1, 2) Invalid_size]"
proof -
  have "pb_serialize demo_pb (replicate 1020 7) = Serialized (replicate 1020 7)" by (simp add: demo_pb_def)
  from datagram_size_limits [OF this, of "demo_peer PB_FRAME_V2 None" "(1, 2)" demo_junk 2000 13 demo_lib demo_junk]
  show ?thesis by simp
qed

theorem plain_datagram_replays_witness:
  "\<exists>bs forged. p_trace (receive demo_lib demo_pb demo_junk (8, 8) forged
      (receive demo_lib demo_pb demo_junk (1, 2) bs (demo_peer PB_FRAME_V2 demo_keys)))
    = [raw_signal (1, 2) bs, P_rcvd (1, 2) 2000 13 [5, 6], raw_signal (8, 8) forged,
       P_recv_error (8, 8) Plain_unexpected, P_rcvd (8, 8) 2000 13 [5, 6]]"
proof -
  obtain enc e' where e: "encrypt demo_lib (message_bytes 2000 13 [5, 6]) 9 demo_encryptor = (Inr enc, e')" "length enc = 8"
    using demo_encrypted by blast
  let ?fh = demo_header and ?r = "demo_peer PB_FRAME_V2 demo_keys"
  have l: "length (encrypted_frame ?fh demo_encryptor enc) \<le> 1024" using e(2) by (simp add: encrypted_frame_parts)
  from plain_datagram_replays [where r = ?r and ep = "(1, 2)" and ep' = "(8, 8)" and pb = demo_pb
      and j = demo_junk and m = "[5, 6]" and rest = "replicate 6 0", OF _ demo_peer_simps(4) _ _ _ demo_evp_ok
      demo_encryptor_ok decryptor_ok_new e(1) refl l _ refl]
  have "p_trace (receive demo_lib demo_pb demo_junk (8, 8) ([0, 0, 0, 0] @ htonl (word_of_nat (4 + length [5 :: u8, 6])) @ replicate 6 0)
      (receive demo_lib demo_pb demo_junk (1, 2) (encrypted_frame ?fh demo_encryptor enc) ?r))
    = p_trace ?r @ [raw_signal (1, 2) (encrypted_frame ?fh demo_encryptor enc), P_rcvd (1, 2) 2000 13 [5, 6],
       raw_signal (8, 8) ([0, 0, 0, 0] @ htonl (word_of_nat (4 + length [5 :: u8, 6])) @ replicate 6 0),
       P_recv_error (8, 8) Plain_unexpected, P_rcvd (8, 8) 2000 13 [5, 6]]"
    by (auto simp: demo_parsed)
  then show ?thesis by (simp only: demo_peer_simps append_Nil) blast
qed

theorem peer_writes_in_order_witness:
  "peer_started (fold (peer_step demo_lib demo_pb demo_junk)
      [D_send_raw demo_header [1], D_send_raw demo_header [2], D_sent (Some ''unreachable''), D_recv_error ''error'']
      (demo_peer PB_FRAME_V2 demo_keys))
    @ p_outbound_queue (fold (peer_step demo_lib demo_pb demo_junk)
      [D_send_raw demo_header [1], D_send_raw demo_header [2], D_sent (Some ''unreachable''), D_recv_error ''error'']
      (demo_peer PB_FRAME_V2 demo_keys))
    = [raw_entry demo_header [1], raw_entry demo_header [2]]"
proof -
  let ?evs = "[D_send_raw demo_header [1], D_send_raw demo_header [2], D_sent (Some ''unreachable''), D_recv_error ''error'']
    :: u8 list peer_event list"
  have "\<forall>ev \<in> set ?evs. plain_event ev" by (simp add: plain_event_def)
  from peer_writes_in_order [where pb = demo_pb and j = demo_junk, OF demo_wok this refl, of PB_FRAME_V2, THEN conjunct1]
  show ?thesis by (simp only: demo_peer_simps) (simp add: peer_accepted_def peer_started_def map_filter_simps)
qed

theorem resolve_failure_blocks_witness:
  "p_outbound_queue (fold (peer_step demo_lib demo_pb demo_junk)
      [D_resolved (Some ''no such host'') (0, 0), D_send_raw demo_header [1], D_send_raw demo_header [2]]
      (projr (Peer_new demo_lib demo_junk demo_register PB_FRAME_V2 None 4444 [42] ''aes-128-cbc'' (Some 16))))
    = [raw_entry demo_header [1], raw_entry demo_header [2]]"
proof -
  obtain p :: "u8 list peer" where
    p: "Peer_new demo_lib demo_junk demo_register PB_FRAME_V2 None 4444 [42] ''aes-128-cbc'' (Some 16) = Inr p"
    by (simp add: Peer_new_def setup_crypto_def demo_encryptor_new Let_def)
  let ?evs = "[D_resolved (Some ''no such host'') (0, 0), D_send_raw demo_header [1], D_send_raw demo_header [2]]
    :: u8 list peer_event list"
  have "\<forall>ev \<in> set ?evs. \<forall>ep. ev \<noteq> D_resolved None ep" by simp
  from resolve_failure_blocks [OF p this refl, of demo_pb] show ?thesis
    by (simp only: p sum.sel) (simp add: peer_accepted_def)
qed

end
