(* ===== verification/RefboxComm.thy ===== *)
theory RefboxComm
  imports PbClientProps Complex_Main
begin

text \<open>
  \<open>plugins/llsf-refbox-comm\<close>: the world plugin that connects the simulation to the referee box. It
  publishes what the referee box sends and forwards what is published for the referee box. A new
  attempt to connect makes a new client; the old one is never deleted and goes on to call the
  plugin, so the state has all clients and \<open>client_\<close> is the last of them.
\<close>

section \<open>State\<close>

text \<open>
  What the plugin reads and calls: its configuration, the protobuf library with the files of message
  types, the dynamic cast to an instruction message, and the messages that it makes itself.
\<close>

record 'm rb_env =
  refbox_host :: string
  refbox_port :: u16
  reconnect_interval :: int
  reconnect_attempts :: int
  proto_dir :: string
  rb_pb :: "'m protobuf"
  rb_is_proto :: "string \<Rightarrow> bool"
  rb_import :: "string \<Rightarrow> (string \<times> bool) list option"
  rb_opendir :: "string \<Rightarrow> string list option"
  rb_is_instruct :: "'m \<Rightarrow> bool"
  rb_machine_reply :: "nat \<Rightarrow> string \<Rightarrow> 'm"
  rb_sim_time :: "int \<Rightarrow> int \<Rightarrow> real \<Rightarrow> bool \<Rightarrow> 'm"
  rb_junk :: junk
  rb_realloc :: "nat \<Rightarrow> bool"

datatype topic = Topic_machine_info | Topic_game_state | Topic_instruct_machine

record 'm refbox_comm =
  rb_proto_dirs :: "string list"
  rb_connected :: bool
  rb_connect_tries :: int
  rb_last_connect_try :: real
  rb_clients :: "'m client list"
  rb_published :: "(topic \<times> 'm) list"

section \<open>Connecting\<close>

text \<open>
  The constructor, with the environment variable \<open>GAZEBO_RCLL\<close>. The members that it does not
  initialise are set by \<open>Load\<close>.
\<close>

definition RefboxComm_new :: "'m rb_env \<Rightarrow> string option \<Rightarrow> 'm refbox_comm" where
  "RefboxComm_new env folder_path =
     \<lparr>rb_proto_dirs = (case folder_path of None \<Rightarrow> [] | Some p \<Rightarrow> [p @ proto_dir env]), rb_connected = False,
      rb_connect_tries = 0, rb_last_connect_try = 0, rb_clients = [], rb_published = []\<rparr>"

definition create_client :: "'m rb_env \<Rightarrow> 'm refbox_comm \<Rightarrow> pb_error + 'm refbox_comm" where
  "create_client env s =
     and_then (MessageRegister_paths (rb_pb env) (rb_is_proto env) (rb_import env) (rb_opendir env) (rb_proto_dirs s))
       (\<lambda>r. Inr (s\<lparr>rb_clients := rb_clients s @ [Client_new (rb_junk env) r PB_FRAME_V2]\<rparr>))"

definition current :: "'m refbox_comm \<Rightarrow> nat" where
  "current s = length (rb_clients s) - 1"

definition client_connected :: "'m refbox_comm \<Rightarrow> 'm refbox_comm" where
  "client_connected s = s\<lparr>rb_connected := True\<rparr>"

definition client_disconnected :: "error_code \<Rightarrow> 'm refbox_comm \<Rightarrow> 'm refbox_comm" where
  "client_disconnected err s = s\<lparr>rb_connected := False\<rparr>"

definition publish :: "topic \<Rightarrow> 'm \<Rightarrow> 'm refbox_comm \<Rightarrow> 'm refbox_comm" where
  "publish t m s = s\<lparr>rb_published := rb_published s @ [(t, m)]\<rparr>"

definition client_msg :: "'m rb_env \<Rightarrow> u16 \<Rightarrow> u16 \<Rightarrow> 'm \<Rightarrow> 'm refbox_comm \<Rightarrow> 'm refbox_comm" where
  "client_msg env cid typ m s =
     (let name = pb_name (rb_pb env) m
      in if name = ''llsf_msgs.MachineInfo'' then publish Topic_machine_info m s
         else if name = ''llsf_msgs.GameState'' then publish Topic_game_state m s
         else if name = ''llsf_msgs.InstructMachine''
         then if rb_is_instruct env m then publish Topic_instruct_machine m s else s
         else s)"

text \<open>The handlers that \<open>create_client\<close> connects to the signals of a client.\<close>

definition on_signal :: "'m rb_env \<Rightarrow> 'm client_effect \<Rightarrow> 'm refbox_comm \<Rightarrow> 'm refbox_comm" where
  "on_signal env e s =
     (case e of
        Sig_connected \<Rightarrow> client_connected s
      | Sig_disconnected err \<Rightarrow> client_disconnected err s
      | Sig_rcvd cid typ m \<Rightarrow> client_msg env cid typ m s
      | _ \<Rightarrow> s)"

text \<open>An operation of a client, and the handlers of what it signals.\<close>

definition on_client :: "'m rb_env \<Rightarrow> nat \<Rightarrow> ('m client \<Rightarrow> 'm client) \<Rightarrow> 'm refbox_comm \<Rightarrow> 'm refbox_comm" where
  "on_client env i f s =
     (let c = rb_clients s ! i; c' = f c
      in fold (on_signal env) (drop (length (cl_trace c)) (cl_trace c'))
           (s\<lparr>rb_clients := (rb_clients s)[i := c']\<rparr>))"

definition connect_new :: "'m rb_env \<Rightarrow> 'm refbox_comm \<Rightarrow> 'm refbox_comm \<times> pb_error option" where
  "connect_new env s =
     (case create_client env s of
        Inl e \<Rightarrow> (s, Some e)
      | Inr s \<Rightarrow> (on_client env (current s) (async_connect (refbox_host env) (refbox_port env)) s, None))"

definition RefboxComm_Load :: "'m rb_env \<Rightarrow> real \<Rightarrow> 'm refbox_comm \<Rightarrow> 'm refbox_comm \<times> pb_error option" where
  "RefboxComm_Load env time s =
     (case connect_new env (s\<lparr>rb_connected := False, rb_connect_tries := 0\<rparr>) of
        (s, None) \<Rightarrow> (s\<lparr>rb_last_connect_try := time\<rparr>, None)
      | r \<Rightarrow> r)"

definition RefboxComm_Update :: "'m rb_env \<Rightarrow> real \<Rightarrow> 'm refbox_comm \<Rightarrow> 'm refbox_comm \<times> pb_error option" where
  "RefboxComm_Update env time s =
     (if \<not> rb_connected s \<and> rb_connect_tries s < reconnect_attempts env
           \<and> time - rb_last_connect_try s > real_of_int (reconnect_interval env)
      then connect_new env (s\<lparr>rb_connect_tries := rb_connect_tries s + 1, rb_last_connect_try := time\<rparr>)
      else (s, None))"

section \<open>Forwarding\<close>

definition send_to_refbox :: "'m rb_env \<Rightarrow> 'm \<Rightarrow> 'm refbox_comm \<Rightarrow> 'm refbox_comm \<times> pb_error option" where
  "send_to_refbox env m s =
     (case client_send_msg (rb_pb env) (rb_junk env) m (rb_clients s ! current s) of
        Inl e \<Rightarrow> (s, Some e)
      | Inr c \<Rightarrow> (on_client env (current s) (\<lambda>_. c) s, None))"

text \<open>The reply of a machine is sent without a look at the connection.\<close>

definition on_machine_reply_msg ::
    "'m rb_env \<Rightarrow> nat \<Rightarrow> string \<Rightarrow> 'm refbox_comm \<Rightarrow> 'm refbox_comm \<times> pb_error option" where
  "on_machine_reply_msg env i machine s = send_to_refbox env (rb_machine_reply env i machine) s"

definition on_time_sync_msg ::
    "'m rb_env \<Rightarrow> int \<Rightarrow> int \<Rightarrow> real \<Rightarrow> bool \<Rightarrow> 'm refbox_comm \<Rightarrow> 'm refbox_comm \<times> pb_error option" where
  "on_time_sync_msg env sec nsec real_time_factor paused s =
     (if \<not> rb_connected s then (s, None)
      else send_to_refbox env (rb_sim_time env sec nsec real_time_factor paused) s)"

text \<open>The handlers for game state, phase, team name, machine state, added bases and deliveries.\<close>

definition on_set_msg :: "'m rb_env \<Rightarrow> 'm \<Rightarrow> 'm refbox_comm \<Rightarrow> 'm refbox_comm \<times> pb_error option" where
  "on_set_msg env m s = (if \<not> rb_connected s then (s, None) else send_to_refbox env m s)"

section \<open>Events\<close>

datatype 'm rb_event =
    R_update real
  | R_client nat "'m client_event"
  | R_machine_reply nat string
  | R_time_sync int int real bool
  | R_set 'm

definition rb_step :: "'m rb_env \<Rightarrow> 'm rb_event \<Rightarrow> 'm refbox_comm \<Rightarrow> 'm refbox_comm" where
  "rb_step env ev s =
     (case ev of
        R_update time \<Rightarrow> fst (RefboxComm_Update env time s)
      | R_client i e \<Rightarrow> if i < length (rb_clients s)
          then on_client env i (client_step (rb_pb env) (rb_realloc env) (rb_junk env) e) s else s
      | R_machine_reply i machine \<Rightarrow> fst (on_machine_reply_msg env i machine s)
      | R_time_sync sec nsec f paused \<Rightarrow> fst (on_time_sync_msg env sec nsec f paused s)
      | R_set m \<Rightarrow> fst (on_set_msg env m s))"

definition rb_run :: "'m rb_env \<Rightarrow> 'm rb_event list \<Rightarrow> 'm refbox_comm \<Rightarrow> 'm refbox_comm" where
  "rb_run env evs s = fold (rb_step env) evs s"

section \<open>What a step changes\<close>

lemma on_signal_frame [simp]:
  "rb_clients (on_signal env e s) = rb_clients s" "rb_connect_tries (on_signal env e s) = rb_connect_tries s"
  "rb_last_connect_try (on_signal env e s) = rb_last_connect_try s"
  by (cases e; simp add: on_signal_def client_connected_def client_disconnected_def client_msg_def publish_def Let_def)+

lemma on_signals_frame [simp]:
  "rb_clients (fold (on_signal env) es s) = rb_clients s"
  "rb_connect_tries (fold (on_signal env) es s) = rb_connect_tries s"
  "rb_last_connect_try (fold (on_signal env) es s) = rb_last_connect_try s"
  by (induction es arbitrary: s) simp_all

lemma on_client_frame [simp]:
  "rb_clients (on_client env i f s) = (rb_clients s)[i := f (rb_clients s ! i)]"
  "rb_connect_tries (on_client env i f s) = rb_connect_tries s"
  "rb_last_connect_try (on_client env i f s) = rb_last_connect_try s"
  by (simp_all add: on_client_def Let_def)

lemma connect_new_frame:
  "connect_new env s = (s', err) \<Longrightarrow> rb_connect_tries s' = rb_connect_tries s
     \<and> rb_last_connect_try s' = rb_last_connect_try s
     \<and> length (rb_clients s') \<le> Suc (length (rb_clients s))"
  by (auto simp: connect_new_def create_client_def and_then_def split: sum.splits)

lemma send_frame [simp]:
  "length (rb_clients (fst (send_to_refbox env m s))) = length (rb_clients s)"
  "rb_connect_tries (fst (send_to_refbox env m s)) = rb_connect_tries s"
  "rb_last_connect_try (fst (send_to_refbox env m s)) = rb_last_connect_try s"
  by (simp_all add: send_to_refbox_def split: sum.split)

text \<open>The times at which an attempt to connect is counted.\<close>

definition attempt :: "'m rb_env \<Rightarrow> 'm rb_event \<Rightarrow> 'm refbox_comm \<Rightarrow> real list" where
  "attempt env ev s = (if rb_connect_tries (rb_step env ev s) \<noteq> rb_connect_tries s
     then [rb_last_connect_try (rb_step env ev s)] else [])"

fun attempts :: "'m rb_env \<Rightarrow> 'm rb_event list \<Rightarrow> 'm refbox_comm \<Rightarrow> real list" where
  "attempts env [] s = []"
| "attempts env (ev # evs) s = attempt env ev s @ attempts env evs (rb_step env ev s)"

lemma update_cases:
  "(rb_step env (R_update time) s = s)
   \<or> (time - rb_last_connect_try s > real_of_int (reconnect_interval env) \<and> rb_connect_tries s < reconnect_attempts env
      \<and> rb_connect_tries (rb_step env (R_update time) s) = rb_connect_tries s + 1
      \<and> rb_last_connect_try (rb_step env (R_update time) s) = time
      \<and> length (rb_clients (rb_step env (R_update time) s)) \<le> Suc (length (rb_clients s)))"
proof -
  obtain s' err where c: "connect_new env (s\<lparr>rb_connect_tries := rb_connect_tries s + 1, rb_last_connect_try := time\<rparr>) = (s', err)"
    by fastforce
  show ?thesis using connect_new_frame [OF c] by (simp add: rb_step_def RefboxComm_Update_def c)
qed

lemma other_steps:
  "(\<forall>time. ev \<noteq> R_update time) \<Longrightarrow> rb_connect_tries (rb_step env ev s) = rb_connect_tries s
     \<and> rb_last_connect_try (rb_step env ev s) = rb_last_connect_try s
     \<and> length (rb_clients (rb_step env ev s)) = length (rb_clients s)"
  by (cases ev) (simp_all add: rb_step_def on_machine_reply_msg_def on_time_sync_msg_def on_set_msg_def)

lemma step_cases:
  "(rb_connect_tries (rb_step env ev s) = rb_connect_tries s \<and> attempt env ev s = []
      \<and> rb_last_connect_try (rb_step env ev s) = rb_last_connect_try s
      \<and> length (rb_clients (rb_step env ev s)) = length (rb_clients s))
   \<or> (\<exists>time. time - rb_last_connect_try s > real_of_int (reconnect_interval env)
      \<and> rb_connect_tries s < reconnect_attempts env
      \<and> rb_connect_tries (rb_step env ev s) = rb_connect_tries s + 1 \<and> attempt env ev s = [time]
      \<and> rb_last_connect_try (rb_step env ev s) = time
      \<and> length (rb_clients (rb_step env ev s)) \<le> Suc (length (rb_clients s)))"
proof (cases "\<exists>time. ev = R_update time")
  case True
  then obtain time where "ev = R_update time" by blast
  then show ?thesis using update_cases [of env time s] by (auto simp: attempt_def)
next
  case False
  then show ?thesis using other_steps [of ev env s] by (simp add: attempt_def)
qed

section \<open>Attempts to connect\<close>

lemma attempts_spaced:
  "successively (\<lambda>a b. b - a > real_of_int (reconnect_interval env)) (rb_last_connect_try s # attempts env evs s)"
proof (induction evs arbitrary: s)
  case (Cons ev evs)
  from step_cases [of env ev s] Cons.IH [of "rb_step env ev s"] show ?case by auto
qed simp

lemma attempts_counted:
  "int (length (attempts env evs s)) \<le> max 0 (reconnect_attempts env - rb_connect_tries s)
   \<and> length (rb_clients (rb_run env evs s)) \<le> length (rb_clients s) + length (attempts env evs s)"
proof (induction evs arbitrary: s)
  case Nil
  then show ?case by (simp add: rb_run_def)
next
  case (Cons ev evs)
  have r: "rb_run env (ev # evs) s = rb_run env evs (rb_step env ev s)" by (simp add: rb_run_def)
  from step_cases [of env ev s] Cons.IH [of "rb_step env ev s"] show ?case by (auto simp: r)
qed

text \<open>
  Attempts: after loading, any two attempts to connect are further apart than the interval, and
  over the whole life of the plugin there are at most as many as configured: the counter is never
  reset, so attempts that were successful count too, and once they are used up a lost connection
  is not made again. Every attempt leaves one client more behind.
\<close>

theorem attempts_bounded:
  assumes "RefboxComm_Load env t0 (RefboxComm_new env path) = (s, None)"
  shows "length (attempts env evs s) \<le> nat (reconnect_attempts env)
    \<and> successively (\<lambda>a b. b - a > real_of_int (reconnect_interval env)) (t0 # attempts env evs s)
    \<and> length (rb_clients (rb_run env evs s)) \<le> 1 + length (attempts env evs s)"
proof -
  have s: "rb_connect_tries s = 0 \<and> rb_last_connect_try s = t0 \<and> length (rb_clients s) \<le> 1"
    using assms connect_new_frame [of env "RefboxComm_new env path\<lparr>rb_connected := False, rb_connect_tries := 0\<rparr>"]
    by (auto simp: RefboxComm_Load_def RefboxComm_new_def split: prod.splits option.splits)
  show ?thesis using attempts_counted [of env evs s] attempts_spaced [of env s evs] s by auto
qed

section \<open>From the referee box to the simulation\<close>

text \<open>What is published for a signal of a client.\<close>

definition published_for :: "'m rb_env \<Rightarrow> 'm client_effect \<Rightarrow> (topic \<times> 'm) list" where
  "published_for env e =
     (case e of
        Sig_rcvd _ _ m \<Rightarrow>
          if pb_name (rb_pb env) m = ''llsf_msgs.MachineInfo'' then [(Topic_machine_info, m)]
          else if pb_name (rb_pb env) m = ''llsf_msgs.GameState'' then [(Topic_game_state, m)]
          else if pb_name (rb_pb env) m = ''llsf_msgs.InstructMachine'' \<and> rb_is_instruct env m
          then [(Topic_instruct_machine, m)] else []
      | _ \<Rightarrow> [])"

lemma on_signal_publishes [simp]:
  "rb_published (on_signal env e s) = rb_published s @ published_for env e"
  by (cases e) (simp_all add: on_signal_def client_connected_def client_disconnected_def client_msg_def
      publish_def published_for_def)

lemma on_signals_publish [simp]:
  "rb_published (fold (on_signal env) es s) = rb_published s @ concat (map (published_for env) es)"
  by (induction es arbitrary: s) simp_all

lemma published_not_receive: "\<not> is_receive e \<Longrightarrow> published_for env e = []"
  by (cases e) (simp_all add: published_for_def is_receive_def)

lemma published_receive: "concat (map (published_for env) es) = concat (map (published_for env) (filter is_receive es))"
  by (induction es) (simp_all add: published_not_receive)

text \<open>A byte only adds to the trace of a client.\<close>

lemma trace_emit: "prefix (cl_trace c) (cl_trace (cl_emit e c))"
  by (simp add: cl_emit_def)

lemma trace_message: "prefix (cl_trace c) (cl_trace (handle_read_message pb j err c))"
  by (cases err) (auto simp: handle_read_message_def start_recv_def cl_emit_def disconnect_nosig_def Let_def
      split: prod.split)

lemma trace_header: "prefix (cl_trace c) (cl_trace (handle_read_header ro err c))"
  by (cases err) (auto simp: handle_read_header_def cl_emit_def disconnect_nosig_def Let_def)

lemma trace_byte: "prefix (cl_trace c) (cl_trace (client_byte pb ro j b c))"
proof -
  have settle: "prefix (cl_trace c) (cl_trace (settle pb j (handle_read_header ro None (c\<lparr>cl_in_frame_header := g\<rparr>))))" for g
  proof -
    let ?h = "handle_read_header ro None (c\<lparr>cl_in_frame_header := g\<rparr>)"
    have "prefix (cl_trace c) (cl_trace ?h)" using trace_header [of "c\<lparr>cl_in_frame_header := g\<rparr>" ro None] by simp
    then show ?thesis using prefix_order.trans [OF _ trace_message [of ?h pb j None]] by (simp add: settle_def)
  qed
  have body: "prefix (cl_trace c) (cl_trace (handle_read_message pb j None (c\<lparr>cl_in_data := d\<rparr>)))" for d
    using trace_message [of "c\<lparr>cl_in_data := d\<rparr>"] by simp
  show ?thesis using settle body by (simp add: client_byte_def Let_def split: pending_read.split)
qed

lemma refbox_byte_step: "client_step pb ro j (E_byte b) = client_byte pb ro j b"
  "client_step pb ro j (E_connected err) = handle_connect err"
  by (simp_all add: client_step_def fun_eq_iff)

lemma bytes_published:
  assumes "i < length (rb_clients s)"
  shows "\<exists>es. rb_run env (map (\<lambda>b. R_client i (E_byte b)) bs) s
      = (rb_run env (map (\<lambda>b. R_client i (E_byte b)) bs) s)
          \<lparr>rb_published := rb_published s @ concat (map (published_for env) es)\<rparr>
    \<and> rb_clients (rb_run env (map (\<lambda>b. R_client i (E_byte b)) bs) s) ! i
      = fold (client_byte (rb_pb env) (rb_realloc env) (rb_junk env)) bs (rb_clients s ! i)
    \<and> cl_trace (rb_clients (rb_run env (map (\<lambda>b. R_client i (E_byte b)) bs) s) ! i) = cl_trace (rb_clients s ! i) @ es"
  using assms
proof (induction bs arbitrary: s)
  case Nil
  then show ?case by (intro exI [of _ "[]"]) (simp add: rb_run_def)
next
  case (Cons b bs)
  let ?f = "client_byte (rb_pb env) (rb_realloc env) (rb_junk env) b"
  let ?s = "on_client env i ?f s"
  obtain es where es: "cl_trace (?f (rb_clients s ! i)) = cl_trace (rb_clients s ! i) @ es"
    using trace_byte [of "rb_clients s ! i" "rb_pb env" "rb_realloc env" "rb_junk env" b] by (auto simp: prefix_def)
  have step: "rb_step env (R_client i (E_byte b)) s = ?s" using Cons.prems by (simp add: rb_step_def refbox_byte_step)
  have c: "rb_clients ?s ! i = ?f (rb_clients s ! i)" "i < length (rb_clients ?s)" using Cons.prems by simp_all
  have p: "rb_published ?s = rb_published s @ concat (map (published_for env) es)"
    by (simp add: on_client_def es Let_def)
  obtain es' where r: "rb_run env (map (\<lambda>b. R_client i (E_byte b)) bs) ?s
      = (rb_run env (map (\<lambda>b. R_client i (E_byte b)) bs) ?s)
          \<lparr>rb_published := rb_published ?s @ concat (map (published_for env) es')\<rparr>"
    "rb_clients (rb_run env (map (\<lambda>b. R_client i (E_byte b)) bs) ?s) ! i
      = fold (client_byte (rb_pb env) (rb_realloc env) (rb_junk env)) bs (rb_clients ?s ! i)"
    "cl_trace (rb_clients (rb_run env (map (\<lambda>b. R_client i (E_byte b)) bs) ?s) ! i) = cl_trace (rb_clients ?s ! i) @ es'"
    using Cons.IH [OF c(2)] by blast
  have run: "rb_run env (map (\<lambda>b. R_client i (E_byte b)) (b # bs)) s = rb_run env (map (\<lambda>b. R_client i (E_byte b)) bs) ?s"
    by (simp add: rb_run_def step)
  show ?case
    unfolding run using r p c(1) es by (intro exI [of _ "es @ es'"]) simp
qed

text \<open>
  C21 The way of a message from the referee box: when the frames of messages arrive at a connected
  client of the plugin, the machine information, game states and instructions among them are
  published on their topics in the order of the frames, and nothing else is published.
\<close>

theorem refbox_messages_published:
  assumes "i < length (rb_clients s)" and "client_idle (rb_clients s ! i)"
    and "list_all2 (client_carries (rb_pb env) (rb_realloc env) (rb_clients s ! i)) fs ds"
    and "s' = rb_run env (map (\<lambda>b. R_client i (E_byte b)) (concat fs)) s"
  shows "rb_published s' = rb_published s @ concat (map (published_for env) ds)
    \<and> client_idle (rb_clients s' ! i)"
proof -
  let ?c = "rb_clients s ! i"
  obtain es where es: "s' = s'\<lparr>rb_published := rb_published s @ concat (map (published_for env) es)\<rparr>"
    "rb_clients s' ! i = fold (client_byte (rb_pb env) (rb_realloc env) (rb_junk env)) (concat fs) ?c"
    "cl_trace (rb_clients s' ! i) = cl_trace ?c @ es"
    using bytes_published [OF assms(1), of env "concat fs"] unfolding assms(4) by blast
  note f = client_receiver.frames [OF assms(2,3), of "rb_junk env"]
  have "filter is_receive es = ds" using f es(2,3) by (simp add: client_heard_def)
  then have "rb_published s' = rb_published s @ concat (map (published_for env) ds)"
    using arg_cong [OF es(1), of rb_published] published_receive [of env es] by simp
  then show ?thesis using f es(2) by simp
qed

section \<open>To the referee box\<close>

lemma send_not_connected:
  "\<not> cl_connected (rb_clients s ! current s) \<Longrightarrow> key_from_desc (rb_pb env) m = Inr k \<Longrightarrow>
   send_to_refbox env m s = (s, Some Not_connected)"
  by (cases k) (simp add: send_to_refbox_def client_send_msg_def client_send_def)

text \<open>
  Without a connection the messages for the referee box are dropped, except for the reply of a
  machine: its handler does not look at the connection and throws.
\<close>

theorem reply_without_connection:
  assumes "\<not> rb_connected s" and "\<not> cl_connected (rb_clients s ! current s)"
    and "key_from_desc (rb_pb env) (rb_machine_reply env i machine) = Inr k"
  shows "on_machine_reply_msg env i machine s = (s, Some Not_connected)
    \<and> on_time_sync_msg env sec nsec f paused s = (s, None) \<and> on_set_msg env m s = (s, None)"
  using send_not_connected [OF assms(2,3)] assms(1)
  by (simp add: on_machine_reply_msg_def on_time_sync_msg_def on_set_msg_def)

text \<open>
  Replaced clients: when a client that has been replaced by a new attempt connects after all, the
  plugin takes itself to be connected while its new client is not. It then makes no attempt any
  more, every message for the referee box throws, and what the replaced client receives is
  published.
\<close>

theorem replaced_client_connects:
  assumes "i < current s" and "\<not> cl_connected (rb_clients s ! current s)"
    and "key_from_desc (rb_pb env) m = Inr k"
    and "s' = rb_step env (R_client i (E_connected None)) s"
  shows "rb_connected s' \<and> on_set_msg env m s' = (s', Some Not_connected)
    \<and> RefboxComm_Update env time s' = (s', None)
    \<and> (cl_socket_open (rb_clients s ! i) \<longrightarrow> client_idle (rb_clients s' ! i))"
proof -
  have i: "i < length (rb_clients s)" "current s < length (rb_clients s)" using assms(1) by (auto simp: current_def)
  have s': "s' = on_client env i (handle_connect None) s" using i(1) by (simp add: assms(4) rb_step_def refbox_byte_step)
  have con: "rb_connected s'"
    by (simp add: s' on_client_def handle_connect_def cl_emit_def start_recv_def on_signal_def client_connected_def Let_def)
  have cur: "current s' = current s" by (simp add: s' current_def)
  have "\<not> cl_connected (rb_clients s' ! current s')" using assms(1,2) i by (simp only: cur) (simp add: s')
  from send_not_connected [OF this assms(3)] have "on_set_msg env m s' = (s', Some Not_connected)"
    using con by (simp add: on_set_msg_def)
  moreover have "client_idle (rb_clients s' ! i)" if "cl_socket_open (rb_clients s ! i)"
    using that i by (simp add: s' handle_connect_def cl_emit_def start_recv_def client_idle_def)
  ultimately show ?thesis using con by (simp add: RefboxComm_Update_def)
qed

section \<open>A plugin\<close>

definition demo_env :: "u8 list rb_env" where
  "demo_env = \<lparr>refbox_host = ''localhost'', refbox_port = 4444, reconnect_interval = 5, reconnect_attempts = 10,
     proto_dir = ''/msgs'', rb_pb = demo_pb, rb_is_proto = (\<lambda>_. True),
     rb_import = (\<lambda>_. Some [(''llsf_msgs.MachineInfo'', True)]), rb_opendir = (\<lambda>_. Some [''MachineInfo.proto'']),
     rb_is_instruct = (\<lambda>_. False), rb_machine_reply = (\<lambda>i _. [word_of_nat i]), rb_sim_time = (\<lambda>_ _ _ _. [1]),
     rb_junk = demo_junk, rb_realloc = (\<lambda>_. True)\<rparr>"

definition demo_plugin :: "u8 list refbox_comm" where
  "demo_plugin = fst (RefboxComm_Load demo_env 1 (RefboxComm_new demo_env (Some ''/rcll'')))"

lemma demo_key: "key_from_desc demo_pb m = Inr (2000, 13)"
  by (simp add: key_from_desc_def demo_pb_def)

lemma demo_add: "add_message_type demo_pb name (MessageRegister_new\<lparr>has_importer := True\<rparr>)
    = Inr (demo_register\<lparr>has_importer := True\<rparr>)"
proof -
  have f: "pb_generated demo_pb n = Some []" "pb_new demo_pb m = []" "pb_name demo_pb m = ''llsf_msgs.MachineInfo''" for n m
    by (simp_all add: demo_pb_def)
  show ?thesis
    by (simp add: add_message_type_def create_msg_def f demo_key register_msg_def MessageRegister_new_def demo_register_def)
qed

lemma demo_create: "rb_proto_dirs s = [d] \<Longrightarrow>
    create_client demo_env s = Inr (s\<lparr>rb_clients := rb_clients s @ [Client_new demo_junk
      (demo_register\<lparr>has_importer := True\<rparr>) PB_FRAME_V2]\<rparr>)"
  by (simp add: create_client_def MessageRegister_paths_def demo_env_def demo_add)

lemma demo_load: "RefboxComm_Load demo_env 1 (RefboxComm_new demo_env (Some ''/rcll'')) = (demo_plugin, None)"
  by (simp add: demo_plugin_def RefboxComm_Load_def RefboxComm_new_def connect_new_def demo_create)

lemma demo_clients: "rb_clients demo_plugin = [async_connect ''localhost'' 4444
    (Client_new demo_junk (demo_register\<lparr>has_importer := True\<rparr>) PB_FRAME_V2)]"
  by (simp add: demo_plugin_def RefboxComm_Load_def RefboxComm_new_def connect_new_def demo_create current_def)
    (simp add: demo_env_def)

theorem attempts_bounded_witness:
  "length (attempts demo_env [R_update 2, R_update 7, R_update 8] demo_plugin) \<le> 10"
  using attempts_bounded [OF demo_load, of "[R_update 2, R_update 7, R_update 8]"] by (simp add: demo_env_def)

theorem reply_without_connection_witness:
  "on_machine_reply_msg demo_env 3 ''C-CS1'' demo_plugin = (demo_plugin, Some Not_connected)"
proof -
  have a: "\<not> rb_connected demo_plugin"
    by (simp add: demo_plugin_def RefboxComm_Load_def RefboxComm_new_def connect_new_def demo_create
        on_client_def async_connect_def cl_emit_def on_signal_def Let_def)
  have b: "\<not> cl_connected (rb_clients demo_plugin ! current demo_plugin)"
    by (simp add: demo_clients current_def async_connect_def cl_emit_def Client_new_def)
  have c: "key_from_desc (rb_pb demo_env) (rb_machine_reply demo_env 3 ''C-CS1'') = Inr (2000, 13)"
    by (simp add: demo_env_def demo_key)
  from reply_without_connection [OF a b c] show ?thesis by auto
qed

text \<open>A second attempt, made before the first client has connected.\<close>

definition demo_second :: "u8 list refbox_comm" where
  "demo_second = rb_step demo_env (R_update 7) demo_plugin"

lemma demo_second_eq: "current demo_second = 1 \<and> \<not> cl_connected (rb_clients demo_second ! 1)"
proof -
  have c: "reconnect_attempts demo_env = 10" "reconnect_interval demo_env = 5" by (simp_all add: demo_env_def)
  show ?thesis
    by (simp add: demo_second_def rb_step_def RefboxComm_Update_def demo_plugin_def RefboxComm_Load_def RefboxComm_new_def
      connect_new_def demo_create on_client_def async_connect_def cl_emit_def on_signal_def Let_def current_def Client_new_def c)
qed

theorem replaced_client_connects_witness:
  "snd (on_set_msg demo_env [1] (rb_step demo_env (R_client 0 (E_connected None)) demo_second)) = Some Not_connected"
  using replaced_client_connects [of 0 demo_second demo_env "[1]" "(2000, 13)", OF _ _ _ refl] demo_second_eq
  by (simp add: demo_key) (simp add: demo_env_def demo_key)

theorem refbox_messages_published_witness:
  "rb_published (rb_run demo_env (map (\<lambda>b. R_client 0 (E_byte b)) (frame_bytes PB_FRAME_V2 (0, 0) 2000 13 [1, 2]))
      (demo_plugin\<lparr>rb_clients := [demo_client PB_FRAME_V2]\<rparr>))
   = rb_published demo_plugin @ [(Topic_machine_info, [1, 2])]"
proof -
  let ?f = "frame_bytes PB_FRAME_V2 (0, 0) 2000 13 [1, 2 :: u8]" and ?s = "demo_plugin\<lparr>rb_clients := [demo_client PB_FRAME_V2]\<rparr>"
  have e: "rb_pb demo_env = demo_pb" "rb_realloc demo_env = (\<lambda>_. True)" by (simp_all add: demo_env_def)
  have "client_carries demo_pb (\<lambda>_. True) (demo_client PB_FRAME_V2) ?f (Sig_rcvd 2000 13 [1, 2])"
    unfolding client_carries_def
    by (rule exI [of _ "(0, 0)"], rule exI [of _ 2000], rule exI [of _ 13], rule exI [of _ "[1, 2]"])
      (simp add: receive_signal_def demo_parsed)
  then have "list_all2 (client_carries (rb_pb demo_env) (rb_realloc demo_env) (rb_clients ?s ! 0)) [?f] [Sig_rcvd 2000 13 [1, 2]]"
    by (simp add: e)
  from refbox_messages_published [OF _ _ this refl] show ?thesis
    by (simp add: published_for_def e) (simp add: demo_pb_def)
qed

end
