(* ===== verification/RefPtr.thy ===== *)
theory RefPtr
  imports Main "HOL-Library.Multiset"
begin

text \<open>
  \<open>libs/core/utils/refptr.h\<close>, \<open>lockptr.h\<close> and \<open>refcount.cpp\<close>: the reference counting pointers and the
  reference counting base class. Objects and counters have addresses; the heap knows which objects
  are alive, what the counters hold and which objects have been deleted, in their order. A
  modification of a counter, which the code guards with its mutex, is one step. The contract of both
  pointers is the locale \<open>shared_pointer\<close>.
\<close>

section \<open>The heap\<close>

record refheap =
  h_objects :: "nat set"
  h_counts :: "nat \<Rightarrow> int option"
  h_mutexes :: "nat set"
  h_deleted :: "nat list"
  h_next :: nat

definition empty_heap :: refheap where
  "empty_heap = \<lparr>h_objects = {}, h_counts = (\<lambda>_. None), h_mutexes = {}, h_deleted = [], h_next = 0\<rparr>"

text \<open>A new object, and the deletion of one.\<close>

definition new_object :: "refheap \<Rightarrow> nat \<times> refheap" where
  "new_object h = (h_next h, h\<lparr>h_objects := insert (h_next h) (h_objects h), h_next := h_next h + 1\<rparr>)"

definition delete_object :: "nat \<Rightarrow> refheap \<Rightarrow> refheap" where
  "delete_object a h = h\<lparr>h_objects := h_objects h - {a}, h_deleted := h_deleted h @ [a]\<rparr>"

definition count_at :: "nat \<Rightarrow> refheap \<Rightarrow> int" where
  "count_at c h = (case h_counts h c of Some n \<Rightarrow> n | None \<Rightarrow> 0)"

definition set_count :: "nat \<Rightarrow> int \<Rightarrow> refheap \<Rightarrow> refheap" where
  "set_count c n h = h\<lparr>h_counts := (h_counts h)(c \<mapsto> n)\<rparr>"

section \<open>RefPtr\<close>

record refptr =
  rp_object :: "nat option"
  rp_count :: "nat option"
  rp_mutex :: "nat option"

definition RefPtr_null :: refptr where
  "RefPtr_null = \<lparr>rp_object = None, rp_count = None, rp_mutex = None\<rparr>"

definition RefPtr_adopt :: "nat option \<Rightarrow> refheap \<Rightarrow> refptr \<times> refheap" where
  "RefPtr_adopt obj h =
     (case obj of
        None \<Rightarrow> (RefPtr_null, h)
      | Some _ \<Rightarrow>
          let c = h_next h; m = h_next h + 1
          in (\<lparr>rp_object = obj, rp_count = Some c, rp_mutex = Some m\<rparr>,
              set_count c 1 (h\<lparr>h_mutexes := insert m (h_mutexes h), h_next := h_next h + 2\<rparr>)))"

definition RefPtr_with :: "nat option \<Rightarrow> nat option \<Rightarrow> nat option \<Rightarrow> refheap \<Rightarrow> refptr \<times> refheap" where
  "RefPtr_with obj c m h =
     (\<lparr>rp_object = obj, rp_count = c, rp_mutex = m\<rparr>,
      case (obj, c, m) of
        (Some _, Some c, Some _) \<Rightarrow> set_count c (count_at c h + 1) h
      | _ \<Rightarrow> h)"

definition RefPtr_copy :: "refptr \<Rightarrow> refheap \<Rightarrow> refptr \<times> refheap" where
  "RefPtr_copy src h = RefPtr_with (rp_object src) (rp_count src) (rp_mutex src) h"

definition RefPtr_destroy :: "refptr \<Rightarrow> refheap \<Rightarrow> refheap" where
  "RefPtr_destroy p h =
     (case (rp_count p, rp_mutex p) of
        (Some c, Some m) \<Rightarrow>
          let h = set_count c (count_at c h - 1) h
          in if count_at c h = 0
             then let h = (case rp_object p of Some a \<Rightarrow> delete_object a h | None \<Rightarrow> h)
                  in h\<lparr>h_counts := (h_counts h)(c := None), h_mutexes := h_mutexes h - {m}\<rparr>
             else h
      | _ \<Rightarrow> h)"

definition RefPtr_swap :: "refptr \<Rightarrow> refptr \<Rightarrow> refptr \<times> refptr" where
  "RefPtr_swap p q = (q, p)"

definition RefPtr_assign :: "refptr \<Rightarrow> refptr \<Rightarrow> refheap \<Rightarrow> refptr \<times> refheap" where
  "RefPtr_assign this src h =
     (let (temp, h) = RefPtr_copy src h; (this, temp) = RefPtr_swap this temp
      in (this, RefPtr_destroy temp h))"

definition RefPtr_assign_object :: "refptr \<Rightarrow> nat option \<Rightarrow> refheap \<Rightarrow> refptr \<times> refheap" where
  "RefPtr_assign_object this obj h =
     (let (temp, h) = RefPtr_adopt obj h; (this, temp) = RefPtr_swap this temp
      in (this, RefPtr_destroy temp h))"

definition RefPtr_clear :: "refptr \<Rightarrow> refheap \<Rightarrow> refptr \<times> refheap" where
  "RefPtr_clear this h =
     (let (this, temp) = RefPtr_swap this RefPtr_null in (this, RefPtr_destroy temp h))"

text \<open>\<open>ok\<close>: the dynamic type of the object allows the cast.\<close>

definition RefPtr_cast_dynamic :: "bool \<Rightarrow> refptr \<Rightarrow> refheap \<Rightarrow> refptr \<times> refheap" where
  "RefPtr_cast_dynamic ok src h =
     (if rp_object src \<noteq> None \<and> ok
      then RefPtr_with (rp_object src) (rp_count src) (rp_mutex src) h
      else (RefPtr_null, h))"

definition RefPtr_cast_static :: "refptr \<Rightarrow> refheap \<Rightarrow> refptr \<times> refheap" where
  "RefPtr_cast_static src h = RefPtr_with (rp_object src) (rp_count src) (rp_mutex src) h"

definition RefPtr_eq :: "refptr \<Rightarrow> refptr \<Rightarrow> bool" where
  "RefPtr_eq p q \<longleftrightarrow> rp_object p = rp_object q"

definition RefPtr_bool :: "refptr \<Rightarrow> bool" where
  "RefPtr_bool p \<longleftrightarrow> rp_object p \<noteq> None"

section \<open>LockPtr\<close>

record lockptr = refptr +
  lp_objmutex :: "nat option"

definition LockPtr_null :: lockptr where
  "LockPtr_null = \<lparr>rp_object = None, rp_count = None, rp_mutex = None, lp_objmutex = None\<rparr>"

definition LockPtr_adopt :: "nat option \<Rightarrow> refheap \<Rightarrow> lockptr \<times> refheap" where
  "LockPtr_adopt obj h =
     (case obj of
        None \<Rightarrow> (LockPtr_null, h)
      | Some _ \<Rightarrow>
          let c = h_next h; m = h_next h + 1; om = h_next h + 2
          in (\<lparr>rp_object = obj, rp_count = Some c, rp_mutex = Some m, lp_objmutex = Some om\<rparr>,
              set_count c 1 (h\<lparr>h_mutexes := insert om (insert m (h_mutexes h)), h_next := h_next h + 3\<rparr>)))"

definition LockPtr_copy :: "lockptr \<Rightarrow> refheap \<Rightarrow> lockptr \<times> refheap" where
  "LockPtr_copy src h =
     (src, case (rp_object src, lp_objmutex src, rp_count src, rp_mutex src) of
             (Some _, Some _, Some c, Some _) \<Rightarrow> set_count c (count_at c h + 1) h
           | _ \<Rightarrow> h)"

definition LockPtr_destroy :: "lockptr \<Rightarrow> refheap \<Rightarrow> refheap" where
  "LockPtr_destroy p h =
     (case (rp_count p, rp_mutex p) of
        (Some c, Some m) \<Rightarrow>
          let h = set_count c (count_at c h - 1) h
          in if count_at c h = 0
             then let h = (case rp_object p of Some a \<Rightarrow> delete_object a h | None \<Rightarrow> h)
                  in h\<lparr>h_counts := (h_counts h)(c := None),
                       h_mutexes := h_mutexes h - {m} - (case lp_objmutex p of Some om \<Rightarrow> {om} | None \<Rightarrow> {})\<rparr>
             else h
      | _ \<Rightarrow> h)"

definition LockPtr_swap :: "lockptr \<Rightarrow> lockptr \<Rightarrow> lockptr \<times> lockptr" where
  "LockPtr_swap p q = (q, p)"

definition LockPtr_assign :: "lockptr \<Rightarrow> lockptr \<Rightarrow> refheap \<Rightarrow> lockptr \<times> refheap" where
  "LockPtr_assign this src h =
     (let (temp, h) = LockPtr_copy src h; (this, temp) = LockPtr_swap this temp
      in (this, LockPtr_destroy temp h))"

definition LockPtr_assign_object :: "lockptr \<Rightarrow> nat option \<Rightarrow> refheap \<Rightarrow> lockptr \<times> refheap" where
  "LockPtr_assign_object this obj h =
     (let (temp, h) = LockPtr_adopt obj h; (this, temp) = LockPtr_swap this temp
      in (this, LockPtr_destroy temp h))"

definition LockPtr_clear :: "lockptr \<Rightarrow> refheap \<Rightarrow> lockptr \<times> refheap" where
  "LockPtr_clear this h =
     (let (this, temp) = LockPtr_swap this LockPtr_null in (this, LockPtr_destroy temp h))"

section \<open>RefCount\<close>

text \<open>
  The count of an object of a class with the base class, whether it still exists, and whether its
  mutex is locked. An exception leaves the mutex locked.
\<close>

record refcount =
  rc_alive :: bool
  rc_refc :: nat
  rc_locked :: bool

definition RefCount_new :: refcount where
  "RefCount_new = \<lparr>rc_alive = True, rc_refc = 1, rc_locked = False\<rparr>"

text \<open>A call that waits for the mutex does not return: \<open>None\<close>. The flag says whether it throws.\<close>

definition RefCount_ref :: "refcount \<Rightarrow> (refcount \<times> bool) option" where
  "RefCount_ref r =
     (if rc_locked r then None
      else if rc_refc r = 0 then Some (r\<lparr>rc_locked := True\<rparr>, True)
      else Some (r\<lparr>rc_refc := rc_refc r + 1\<rparr>, False))"

definition RefCount_unref :: "refcount \<Rightarrow> (refcount \<times> bool) option" where
  "RefCount_unref r =
     (if rc_locked r then None
      else if rc_refc r = 0 then Some (r\<lparr>rc_locked := True\<rparr>, True)
      else let r = r\<lparr>rc_refc := rc_refc r - 1\<rparr>
           in if rc_refc r = 0 then Some (r\<lparr>rc_alive := False, rc_locked := True\<rparr>, False)
              else Some (r, False))"

section \<open>Programs over pointer variables\<close>

text \<open>
  What a program does with its variables, the list of those in scope: a new object in a new
  variable, a copy, an assignment, an assignment of a new object, \<open>clear\<close>, \<open>swap\<close> and the end of a
  variable's life. An operation on a variable that does not exist is not a program.
\<close>

datatype ptr_op =
    Create
  | Copy nat
  | Assign nat nat
  | Assign_new nat
  | Clear nat
  | Swap nat nat
  | Destroy nat

type_synonym 'p ptr_state = "'p list \<times> refheap"

fun RefPtr_step :: "ptr_op \<Rightarrow> refptr ptr_state \<Rightarrow> refptr ptr_state" where
  "RefPtr_step Create (vs, h) =
     (let (a, h) = new_object h; (p, h) = RefPtr_adopt (Some a) h in (vs @ [p], h))"
| "RefPtr_step (Copy i) (vs, h) =
     (if i < length vs then let (p, h) = RefPtr_copy (vs ! i) h in (vs @ [p], h) else (vs, h))"
| "RefPtr_step (Assign i j) (vs, h) =
     (if i < length vs \<and> j < length vs
      then let (p, h) = RefPtr_assign (vs ! i) (vs ! j) h in (vs[i := p], h) else (vs, h))"
| "RefPtr_step (Assign_new i) (vs, h) =
     (if i < length vs
      then let (a, h) = new_object h; (p, h) = RefPtr_assign_object (vs ! i) (Some a) h in (vs[i := p], h)
      else (vs, h))"
| "RefPtr_step (Clear i) (vs, h) =
     (if i < length vs then let (p, h) = RefPtr_clear (vs ! i) h in (vs[i := p], h) else (vs, h))"
| "RefPtr_step (Swap i j) (vs, h) =
     (if i < length vs \<and> j < length vs
      then let (p, q) = RefPtr_swap (vs ! i) (vs ! j) in (vs[i := p, j := q], h) else (vs, h))"
| "RefPtr_step (Destroy i) (vs, h) =
     (if i < length vs then (take i vs @ drop (Suc i) vs, RefPtr_destroy (vs ! i) h) else (vs, h))"

fun LockPtr_step :: "ptr_op \<Rightarrow> lockptr ptr_state \<Rightarrow> lockptr ptr_state" where
  "LockPtr_step Create (vs, h) =
     (let (a, h) = new_object h; (p, h) = LockPtr_adopt (Some a) h in (vs @ [p], h))"
| "LockPtr_step (Copy i) (vs, h) =
     (if i < length vs then let (p, h) = LockPtr_copy (vs ! i) h in (vs @ [p], h) else (vs, h))"
| "LockPtr_step (Assign i j) (vs, h) =
     (if i < length vs \<and> j < length vs
      then let (p, h) = LockPtr_assign (vs ! i) (vs ! j) h in (vs[i := p], h) else (vs, h))"
| "LockPtr_step (Assign_new i) (vs, h) =
     (if i < length vs
      then let (a, h) = new_object h; (p, h) = LockPtr_assign_object (vs ! i) (Some a) h in (vs[i := p], h)
      else (vs, h))"
| "LockPtr_step (Clear i) (vs, h) =
     (if i < length vs then let (p, h) = LockPtr_clear (vs ! i) h in (vs[i := p], h) else (vs, h))"
| "LockPtr_step (Swap i j) (vs, h) =
     (if i < length vs \<and> j < length vs
      then let (p, q) = LockPtr_swap (vs ! i) (vs ! j) in (vs[i := p, j := q], h) else (vs, h))"
| "LockPtr_step (Destroy i) (vs, h) =
     (if i < length vs then (take i vs @ drop (Suc i) vs, LockPtr_destroy (vs ! i) h) else (vs, h))"

section \<open>The contract of a counting pointer\<close>

text \<open>\<open>target p\<close>: the object and the counter of a pointer that is not null.\<close>

locale shared_pointer =
  fixes null :: 'p
    and adopt :: "nat option \<Rightarrow> refheap \<Rightarrow> 'p \<times> refheap"
    and copy :: "'p \<Rightarrow> refheap \<Rightarrow> 'p \<times> refheap"
    and destroy :: "'p \<Rightarrow> refheap \<Rightarrow> refheap"
    and wf :: "'p \<Rightarrow> bool"
    and target :: "'p \<Rightarrow> (nat \<times> nat) option"
  assumes null_law: "wf null \<and> target null = None"
    and adopt_law: "adopt (Some a) h = (p, h') \<Longrightarrow> wf p \<and> target p = Some (a, h_next h)
      \<and> h_next h < h_next h' \<and> h_objects h' = h_objects h \<and> h_deleted h' = h_deleted h
      \<and> h_counts h' = (h_counts h)(h_next h \<mapsto> 1)"
    and copy_law: "wf p \<Longrightarrow> copy p h = (q, h') \<Longrightarrow> wf q \<and> target q = target p
      \<and> h_next h' = h_next h \<and> h_objects h' = h_objects h \<and> h_deleted h' = h_deleted h
      \<and> h_counts h' = (case target p of None \<Rightarrow> h_counts h
           | Some (a, c) \<Rightarrow> (h_counts h)(c \<mapsto> count_at c h + 1))"
    and destroy_null: "wf p \<Longrightarrow> target p = None \<Longrightarrow> destroy p h = h"
    and destroy_last: "wf p \<Longrightarrow> target p = Some (a, c) \<Longrightarrow> count_at c h = 1 \<Longrightarrow>
      h_next (destroy p h) = h_next h \<and> h_objects (destroy p h) = h_objects h - {a}
      \<and> h_deleted (destroy p h) = h_deleted h @ [a] \<and> h_counts (destroy p h) = (h_counts h)(c := None)"
    and destroy_shared: "wf p \<Longrightarrow> target p = Some (a, c) \<Longrightarrow> count_at c h \<noteq> 1 \<Longrightarrow>
      h_next (destroy p h) = h_next h \<and> h_objects (destroy p h) = h_objects h
      \<and> h_deleted (destroy p h) = h_deleted h \<and> h_counts (destroy p h) = (h_counts h)(c \<mapsto> count_at c h - 1)"
begin

definition refs :: "nat \<Rightarrow> 'p multiset \<Rightarrow> nat" where
  "refs c M = size {#p \<in># M. map_option snd (target p) = Some c#}"

definition targets :: "'p multiset \<Rightarrow> (nat \<times> nat) set" where
  "targets M = {t. \<exists>p \<in># M. target p = Some t}"

text \<open>
  The invariant of the variables \<open>M\<close> and the heap: every counter holds the number of variables that
  share it, an object and its counter determine each other, the objects that are alive are the
  targets, and a deleted object has been deleted once.
\<close>

definition counts_exact :: "'p multiset \<Rightarrow> refheap \<Rightarrow> bool" where
  "counts_exact M h \<longleftrightarrow> (\<forall>c. h_counts h c = (if refs c M = 0 then None else Some (int (refs c M))))"

definition heap_wf :: "(nat \<times> nat) set \<Rightarrow> refheap \<Rightarrow> bool" where
  "heap_wf T h \<longleftrightarrow> h_objects h = fst ` T \<and> inj_on fst T \<and> inj_on snd T
     \<and> snd ` T \<subseteq> {..<h_next h} \<and> fst ` T \<subseteq> {..<h_next h} \<and> set (h_deleted h) \<subseteq> {..<h_next h}
     \<and> distinct (h_deleted h) \<and> set (h_deleted h) \<inter> fst ` T = {}"

definition ok :: "'p multiset \<Rightarrow> refheap \<Rightarrow> bool" where
  "ok M h \<longleftrightarrow> (\<forall>p \<in># M. wf p) \<and> counts_exact M h \<and> heap_wf (targets M) h"

lemma refs_add: "refs c (add_mset p M) = (if map_option snd (target p) = Some c then Suc (refs c M) else refs c M)"
  by (simp add: refs_def)

lemma targets_add: "targets (add_mset p M) = (case target p of None \<Rightarrow> targets M | Some t \<Rightarrow> insert t (targets M))"
  by (auto simp: targets_def split: option.splits)

lemma refs_zero_iff: "refs c M = 0 \<longleftrightarrow> c \<notin> snd ` targets M"
proof (induction M)
  case empty
  then show ?case by (simp add: refs_def targets_def)
next
  case (add p M)
  then show ?case by (auto simp: refs_add targets_add split: option.splits)
qed

lemma count_of: "counts_exact M h \<Longrightarrow> (a, c) \<in> targets M \<Longrightarrow> count_at c h = int (refs c M)"
  by (force simp: counts_exact_def count_at_def refs_zero_iff)

lemma count_of': "counts_exact M h \<Longrightarrow> (a, c) \<in> targets M \<Longrightarrow> h_counts h c = Some (int (refs c M))"
  by (force simp: counts_exact_def refs_zero_iff)

lemma ok_null: "ok M h \<Longrightarrow> wf p \<Longrightarrow> target p = None \<Longrightarrow> ok (add_mset p M) h"
  by (simp add: ok_def counts_exact_def refs_add targets_add)

lemma ok_copy:
  assumes "ok M h" and "p \<in># M" and "copy p h = (q, h')"
  shows "ok (add_mset q M) h'"
proof -
  have "wf p" using assms(1,2) by (simp add: ok_def)
  note l = copy_law [OF this assms(3)]
  show ?thesis
  proof (cases "target p")
    case None
    then have "ok M h'" using assms(1) l by (simp add: ok_def counts_exact_def heap_wf_def)
    then show ?thesis using ok_null l None by simp
  next
    case (Some ac)
    then obtain a c where t: "target p = Some (a, c)" by (cases ac) auto
    then have m: "(a, c) \<in> targets M" using assms(2) by (force simp: targets_def)
    have n: "count_at c h = int (refs c M)" using assms(1) count_of [OF _ m] by (simp add: ok_def)
    have "counts_exact (add_mset q M) h'"
      using assms(1) l t n by (simp add: ok_def counts_exact_def refs_add)
    moreover have "heap_wf (targets (add_mset q M)) h'"
      using assms(1) l t m by (simp add: ok_def heap_wf_def targets_add insert_absorb)
    ultimately show ?thesis using assms(1) l by (simp add: ok_def)
  qed
qed

lemma heap_wf_new:
  assumes "heap_wf T h" and "a = h_next h" and "c = Suc a" and "h_objects h' = insert a (h_objects h)"
    and "h_deleted h' = h_deleted h" and "c < h_next h'"
  shows "heap_wf (insert (a, c) T) h'"
proof -
  have lt: "snd ` T \<subseteq> {..<h_next h}" "fst ` T \<subseteq> {..<h_next h}" "set (h_deleted h) \<subseteq> {..<h_next h}"
    using assms(1) by (simp_all add: heap_wf_def)
  then have "a \<notin> fst ` T" "c \<notin> snd ` T" "a \<notin> set (h_deleted h)" using assms(2,3) by auto
  moreover have "snd ` T \<subseteq> {..<h_next h'}" "fst ` T \<subseteq> {..<h_next h'}" "set (h_deleted h) \<subseteq> {..<h_next h'}" "a < h_next h'"
    using lt assms(2,3,6) by auto
  ultimately show ?thesis
    using assms(1,4,5,6) by (auto simp: heap_wf_def inj_on_insert)
qed

lemma ok_adopt:
  assumes "ok M h" and "new_object h = (a, h1)" and "adopt (Some a) h1 = (p, h')"
  shows "ok (add_mset p M) h'"
proof -
  have a: "a = h_next h" and h1: "h_next h1 = Suc a" "h_objects h1 = insert a (h_objects h)"
    "h_deleted h1 = h_deleted h" "h_counts h1 = h_counts h"
    using assms(2) by (auto simp: new_object_def)
  note l = adopt_law [OF assms(3)]
  have "snd ` targets M \<subseteq> {..<h_next h}" using assms(1) by (simp add: ok_def heap_wf_def)
  then have z: "refs (Suc a) M = 0" using a by (auto simp: refs_zero_iff)
  have "counts_exact (add_mset p M) h'"
    using assms(1) l z h1 by (simp add: ok_def counts_exact_def refs_add)
  moreover have "heap_wf (targets (add_mset p M)) h'"
    using heap_wf_new [of "targets M" h a "Suc a" h'] assms(1) l a h1 by (simp add: targets_add ok_def)
  ultimately show ?thesis using assms(1) l by (simp add: ok_def)
qed

lemma ok_destroy:
  assumes "ok (add_mset p M) h"
  shows "ok M (destroy p h)"
proof (cases "target p")
  case None
  then have "destroy p h = h" using assms destroy_null by (simp add: ok_def)
  then show ?thesis using assms None by (simp add: ok_def counts_exact_def refs_add targets_add)
next
  case (Some ac)
  then obtain a c where t: "target p = Some (a, c)" by (cases ac) auto
  have w: "wf p" using assms by (simp add: ok_def)
  have ce: "counts_exact (add_mset p M) h" using assms by (simp add: ok_def)
  have hw: "heap_wf (insert (a, c) (targets M)) h" using assms t by (simp add: ok_def targets_add)
  have n: "count_at c h = int (Suc (refs c M))" using count_of [OF ce, of a c] t by (simp add: targets_add refs_add)
  show ?thesis
  proof (cases "refs c M = 0")
    case True
    note l = destroy_last [OF w t, of h, unfolded n True, simplified]
    have c: "c \<notin> snd ` targets M" using True by (simp add: refs_zero_iff)
    then have nt: "(a, c) \<notin> targets M" by force
    then have af: "a \<notin> fst ` targets M" using hw by (simp add: heap_wf_def)
    have "counts_exact M (destroy p h)" using ce l t True by (simp add: counts_exact_def refs_add)
    moreover have "heap_wf (targets M) (destroy p h)" using hw l af by (auto simp: heap_wf_def)
    ultimately show ?thesis using assms by (simp add: ok_def)
  next
    case False
    have pos: "0 < refs c M" using False by simp
    note l = destroy_shared [OF w t, of h, unfolded n, simplified, OF pos]
    obtain b where b: "(b, c) \<in> targets M" using False by (auto simp: refs_zero_iff)
    moreover have "inj_on snd (insert (a, c) (targets M))" using hw by (simp only: heap_wf_def)
    ultimately have "(b, c) = (a, c)" by (intro inj_onD [of snd "insert (a, c) (targets M)"]) auto
    then have "b = a" by simp
    then have m: "insert (a, c) (targets M) = targets M" using b by (simp add: insert_absorb)
    have "counts_exact M (destroy p h)" using ce l t False by (simp add: counts_exact_def refs_add)
    moreover have "heap_wf (targets M) (destroy p h)" using hw l by (simp add: m heap_wf_def)
    ultimately show ?thesis using assms by (simp add: ok_def)
  qed
qed

text \<open>Replacing the value of a variable by another one that is held already.\<close>

lemma ok_update:
  assumes "i < length vs" and "ok (add_mset p (mset vs)) h"
  shows "ok (mset (vs[i := p])) (destroy (vs ! i) h)"
proof (rule ok_destroy)
  have "add_mset (vs ! i) (mset (vs[i := p])) = add_mset p (mset vs)"
    using assms(1) by (simp add: mset_update)
  then show "ok (add_mset (vs ! i) (mset (vs[i := p]))) h" using assms(2) by simp
qed

lemma ok_remove:
  assumes "i < length vs" and "ok (mset vs) h"
  shows "ok (mset (take i vs @ drop (Suc i) vs)) (destroy (vs ! i) h)"
proof (rule ok_destroy)
  have "mset vs = add_mset (vs ! i) (mset (take i vs @ drop (Suc i) vs))"
    by (subst id_take_nth_drop [OF assms(1)]) simp
  then show "ok (add_mset (vs ! i) (mset (take i vs @ drop (Suc i) vs))) h" using assms(2) by simp
qed

lemma ok_swap:
  assumes "i < length vs" and "j < length vs" and "ok (mset vs) h"
  shows "ok (mset (vs[i := vs ! j, j := vs ! i])) h"
  using assms by (simp add: mset_swap)

lemma ok_empty: "ok {#} empty_heap"
  by (simp add: ok_def counts_exact_def refs_def heap_wf_def targets_def empty_heap_def)

text \<open>One operation in terms of the interface: an assignment copies, swaps and destroys the old value.\<close>

fun step :: "ptr_op \<Rightarrow> 'p ptr_state \<Rightarrow> 'p ptr_state" where
  "step Create (vs, h) = (let (a, h) = new_object h; (p, h) = adopt (Some a) h in (vs @ [p], h))"
| "step (Copy i) (vs, h) = (if i < length vs then let (p, h) = copy (vs ! i) h in (vs @ [p], h) else (vs, h))"
| "step (Assign i j) (vs, h) =
     (if i < length vs \<and> j < length vs
      then let (p, h) = copy (vs ! j) h in (vs[i := p], destroy (vs ! i) h) else (vs, h))"
| "step (Assign_new i) (vs, h) =
     (if i < length vs
      then let (a, h) = new_object h; (p, h) = adopt (Some a) h in (vs[i := p], destroy (vs ! i) h) else (vs, h))"
| "step (Clear i) (vs, h) = (if i < length vs then (vs[i := null], destroy (vs ! i) h) else (vs, h))"
| "step (Swap i j) (vs, h) =
     (if i < length vs \<and> j < length vs then (vs[i := vs ! j, j := vs ! i], h) else (vs, h))"
| "step (Destroy i) (vs, h) =
     (if i < length vs then (take i vs @ drop (Suc i) vs, destroy (vs ! i) h) else (vs, h))"

lemma ok_append: "ok (add_mset p (mset vs)) h \<Longrightarrow> ok (mset (vs @ [p])) h"
  by simp

lemma step_ok:
  assumes "ok (mset (fst s)) (snd s)"
  shows "ok (mset (fst (step op s))) (snd (step op s))"
proof -
  obtain vs h where s: "s = (vs, h)" by (cases s)
  have o: "ok (mset vs) h" using assms s by simp
  obtain a h1 where n: "new_object h = (a, h1)" by (cases "new_object h")
  obtain p h2 where ad: "adopt (Some a) h1 = (p, h2)" by (cases "adopt (Some a) h1")
  note new = ok_adopt [OF o n ad]
  have copied: "ok (add_mset (fst (copy (vs ! i) h)) (mset vs)) (snd (copy (vs ! i) h))" if "i < length vs" for i
    using ok_copy [OF o, of "vs ! i" "fst (copy (vs ! i) h)"] that by simp
  have nulled: "ok (add_mset null (mset vs)) h" using ok_null [OF o] null_law by simp
  show ?thesis
    by (cases op)
      (use s o n ad new nulled copied ok_update ok_remove ok_swap in \<open>simp_all add: split_beta\<close>)
qed

lemma run_ok: "ok (mset (fst (fold step ops ([], empty_heap)))) (snd (fold step ops ([], empty_heap)))"
proof (induction ops rule: rev_induct)
  case Nil
  then show ?case by (simp add: ok_empty)
next
  case (snoc op ops)
  then show ?case by (simp add: step_ok)
qed

text \<open>What the invariant says of the program.\<close>

lemma ok_targets: "ok (mset vs) h \<Longrightarrow> h_objects h = fst ` {t. \<exists>p \<in> set vs. target p = Some t}"
  by (simp add: ok_def heap_wf_def targets_def)

lemma ok_no_dangling: "ok (mset vs) h \<Longrightarrow> p \<in> set vs \<Longrightarrow> target p = Some (a, c) \<Longrightarrow> a \<in> h_objects h"
  by (force simp: ok_targets)

lemma ok_count:
  "ok (mset vs) h \<Longrightarrow> p \<in> set vs \<Longrightarrow> target p = Some (a, c) \<Longrightarrow>
    h_counts h c = Some (int (length (filter (\<lambda>q. map_option snd (target q) = Some c) vs)))"
  using count_of' [of "mset vs" h a c]
  by (auto simp: ok_def targets_def refs_def simp flip: mset_filter)

lemma ok_no_leak: "ok (mset vs) h \<Longrightarrow> h_objects h = {a. \<exists>p \<in> set vs. \<exists>c. target p = Some (a, c)}"
  by (force simp: ok_targets)

lemma ok_deleted: "ok (mset vs) h \<Longrightarrow> distinct (h_deleted h) \<and> set (h_deleted h) \<inter> h_objects h = {}"
  by (simp add: ok_def heap_wf_def)

lemma ok_all_gone: "ok {#} h \<Longrightarrow> h_objects h = {} \<and> h_counts h = Map.empty"
  by (auto simp: ok_def heap_wf_def targets_def counts_exact_def refs_def)

end

section \<open>Both pointers satisfy it\<close>

definition rp_target :: "('a) refptr_scheme \<Rightarrow> (nat \<times> nat) option" where
  "rp_target p = (case (rp_object p, rp_count p) of (Some a, Some c) \<Rightarrow> Some (a, c) | _ \<Rightarrow> None)"

definition RefPtr_wf :: "refptr \<Rightarrow> bool" where
  "RefPtr_wf p \<longleftrightarrow> (rp_object p = None \<longleftrightarrow> rp_count p = None) \<and> (rp_object p = None \<longleftrightarrow> rp_mutex p = None)"

definition LockPtr_wf :: "lockptr \<Rightarrow> bool" where
  "LockPtr_wf p \<longleftrightarrow> (rp_object p = None \<longleftrightarrow> rp_count p = None) \<and> (rp_object p = None \<longleftrightarrow> rp_mutex p = None)
     \<and> (rp_object p = None \<longleftrightarrow> lp_objmutex p = None)"

lemmas ptr_heap_defs = set_count_def count_at_def delete_object_def rp_target_def Let_def

interpretation refptr: shared_pointer RefPtr_null RefPtr_adopt RefPtr_copy RefPtr_destroy RefPtr_wf rp_target
  by unfold_locales
    (auto simp: RefPtr_null_def RefPtr_adopt_def RefPtr_copy_def RefPtr_with_def RefPtr_destroy_def RefPtr_wf_def
      ptr_heap_defs split: option.splits)

interpretation lockptr: shared_pointer LockPtr_null LockPtr_adopt LockPtr_copy LockPtr_destroy LockPtr_wf rp_target
  by unfold_locales
    (auto simp: LockPtr_null_def LockPtr_adopt_def LockPtr_copy_def LockPtr_destroy_def LockPtr_wf_def
      ptr_heap_defs split: option.splits)

lemma RefPtr_step_interface: "RefPtr_step = refptr.step"
proof (intro ext)
  fix op s
  show "RefPtr_step op s = refptr.step op s"
    by (cases s, cases op)
      (simp_all add: RefPtr_assign_def RefPtr_assign_object_def RefPtr_clear_def RefPtr_swap_def split_beta Let_def)
qed

lemma LockPtr_step_interface: "LockPtr_step = lockptr.step"
proof (intro ext)
  fix op s
  show "LockPtr_step op s = lockptr.step op s"
    by (cases s, cases op)
      (simp_all add: LockPtr_assign_def LockPtr_assign_object_def LockPtr_clear_def LockPtr_swap_def split_beta Let_def)
qed

definition RefPtr_run :: "ptr_op list \<Rightarrow> refptr ptr_state" where
  "RefPtr_run ops = fold RefPtr_step ops ([], empty_heap)"

definition LockPtr_run :: "ptr_op list \<Rightarrow> lockptr ptr_state" where
  "LockPtr_run ops = fold LockPtr_step ops ([], empty_heap)"

lemma RefPtr_run_ok: "refptr.ok (mset (fst (RefPtr_run ops))) (snd (RefPtr_run ops))"
  unfolding RefPtr_run_def RefPtr_step_interface by (rule refptr.run_ok)

lemma LockPtr_run_ok: "lockptr.ok (mset (fst (LockPtr_run ops))) (snd (LockPtr_run ops))"
  unfolding LockPtr_run_def LockPtr_step_interface by (rule lockptr.run_ok)

text \<open>The objects with a target and the objects of the variables are the same, and so are the counters.\<close>

lemma rp_target_objects:
  assumes "\<forall>p \<in> set vs. rp_object p = None \<longleftrightarrow> rp_count p = None"
  shows "(\<exists>p \<in> set vs. \<exists>c. rp_target p = Some (a, c)) \<longleftrightarrow> Some a \<in> rp_object ` set vs"
proof
  assume "Some a \<in> rp_object ` set vs"
  then obtain p where p: "p \<in> set vs" "rp_object p = Some a" by (metis imageE)
  then obtain c where "rp_count p = Some c" using assms by fastforce
  then show "\<exists>p \<in> set vs. \<exists>c. rp_target p = Some (a, c)" using p by (intro bexI [of _ p]) (simp_all add: rp_target_def)
qed (force simp: rp_target_def split: option.splits)

lemma rp_target_counter:
  assumes "\<forall>p \<in> set vs. rp_object p = None \<longleftrightarrow> rp_count p = None"
  shows "filter (\<lambda>p. map_option snd (rp_target p) = Some c) vs = filter (\<lambda>p. rp_count p = Some c) vs"
  using assms by (intro filter_cong refl) (auto simp: rp_target_def split: option.splits)

definition counter_value :: "nat \<Rightarrow> ('a) refptr_scheme list \<Rightarrow> int option" where
  "counter_value c vs =
     (let n = length (filter (\<lambda>p. rp_count p = Some c) vs) in if n = 0 then None else Some (int n))"

text \<open>What is promised of the variables and the heap, for either pointer.\<close>

definition owned :: "('a) refptr_scheme list \<Rightarrow> refheap \<Rightarrow> bool" where
  "owned vs h \<longleftrightarrow>
     h_objects h = {a. Some a \<in> rp_object ` set vs} \<and> h_counts h = (\<lambda>c. counter_value c vs)
     \<and> distinct (h_deleted h) \<and> set (h_deleted h) \<inter> h_objects h = {}"

lemma RefPtr_owned:
  assumes "refptr.ok (mset vs) h"
  shows "owned vs h"
proof -
  have w: "\<forall>p \<in> set vs. rp_object p = None \<longleftrightarrow> rp_count p = None"
    using assms by (simp add: refptr.ok_def RefPtr_wf_def)
  have "refptr.refs c (mset vs) = length (filter (\<lambda>p. rp_count p = Some c) vs)" for c
    by (simp only: refptr.refs_def rp_target_counter [OF w] size_mset flip: mset_filter)
  then have "h_counts h c = counter_value c vs" for c
    using assms by (simp add: refptr.ok_def refptr.counts_exact_def counter_value_def Let_def)
  then show ?thesis
    using refptr.ok_deleted [OF assms] refptr.ok_no_leak [OF assms] by (auto simp: owned_def rp_target_objects [OF w])
qed

lemma LockPtr_owned:
  assumes "lockptr.ok (mset vs) h"
  shows "owned vs h"
proof -
  have w: "\<forall>p \<in> set vs. rp_object p = None \<longleftrightarrow> rp_count p = None"
    using assms by (simp add: lockptr.ok_def LockPtr_wf_def)
  have "lockptr.refs c (mset vs) = length (filter (\<lambda>p. rp_count p = Some c) vs)" for c
    by (simp only: lockptr.refs_def rp_target_counter [OF w] size_mset flip: mset_filter)
  then have "h_counts h c = counter_value c vs" for c
    using assms by (simp add: lockptr.ok_def lockptr.counts_exact_def counter_value_def Let_def)
  then show ?thesis
    using lockptr.ok_deleted [OF assms] lockptr.ok_no_leak [OF assms] by (auto simp: owned_def rp_target_objects [OF w])
qed

text \<open>
  C31 After any program over reference counting pointers, the objects that are alive are exactly those
  some variable refers to, so no variable dangles and nothing leaks; every counter holds the number
  of the variables that share it and no other counter is left; and an object has been deleted at most
  once, and none that is alive. The same holds of lock pointers.
\<close>

theorem pointers_own_objects:
  "(case RefPtr_run ops of (vs, h) \<Rightarrow>
      h_objects h = {a. Some a \<in> rp_object ` set vs} \<and> h_counts h = (\<lambda>c. counter_value c vs)
      \<and> distinct (h_deleted h) \<and> set (h_deleted h) \<inter> h_objects h = {})
   \<and> (case LockPtr_run ops of (vs, h) \<Rightarrow>
      h_objects h = {a. Some a \<in> rp_object ` set vs} \<and> h_counts h = (\<lambda>c. counter_value c vs)
      \<and> distinct (h_deleted h) \<and> set (h_deleted h) \<inter> h_objects h = {})"
  using RefPtr_owned [OF RefPtr_run_ok [of ops]] LockPtr_owned [OF LockPtr_run_ok [of ops]]
  unfolding split_beta owned_def by (rule conjI)

text \<open>A failed call of \<open>RefCount\<close> leaves the mutex locked: no later call returns.\<close>

lemma RefCount_failure_blocks:
  "RefCount_ref r = Some (r', True) \<Longrightarrow> RefCount_ref r' = None \<and> RefCount_unref r' = None"
  by (auto simp: RefCount_ref_def RefCount_unref_def split: if_splits)

lemma RefCount_balanced:
  "\<not> rc_locked r \<Longrightarrow> 0 < rc_refc r \<Longrightarrow> Option.bind (RefCount_ref r) (\<lambda>(r', e). RefCount_unref r') = Some (r, False)"
  by (simp add: RefCount_ref_def RefCount_unref_def)

end
