(* ===== verification/Barrier.thy ===== *)
theory Barrier
  imports Main "HOL-Library.Word"
begin

text \<open>
  \<open>libs/core/threading/wait_condition.cpp\<close>, \<open>barrier.cpp\<close> and \<open>interruptible_barrier.cpp\<close>: waiting with a
  time limit, and the barriers of the framework. The calls of \<open>wait\<close> of a fixed set of threads
  are cut at the points where another thread can run: a call runs under the mutex until it waits on
  the condition, goes on under the mutex when it is woken, and reads \<open>__wait_at_barrier\<close> and \<open>__timeout\<close>
  outside of it.
\<close>

section \<open>Waiting with a time limit\<close>

definition ETIMEDOUT :: int where
  "ETIMEDOUT = 110"

text \<open>
  The absolute time a relative limit stands for, seconds and nanoseconds, in 64 bit arithmetic that
  cannot overflow; no limit when both are zero.
\<close>

definition deadline :: "int \<Rightarrow> int \<Rightarrow> 32 word \<Rightarrow> 32 word \<Rightarrow> (int \<times> int) option" where
  "deadline now_sec now_nsec sec nanosec =
     (if sec = 0 \<and> nanosec = 0 then None
      else let s = now_sec + uint sec; ns = now_nsec + uint nanosec
           in if ns \<ge> 1000000000 then Some (s + 1, ns - 1000000000) else Some (s, ns))"

text \<open>
  \<open>cond t\<close>: what \<open>pthread_cond_wait\<close> or \<open>pthread_cond_timedwait\<close> until \<open>t\<close> returns. The result is the
  error of the exception, or whether the thread has been woken up.
\<close>

definition WaitCondition_wait :: "((int \<times> int) option \<Rightarrow> int) \<Rightarrow> int + unit" where
  "WaitCondition_wait cond = (let err = cond None in if err \<noteq> 0 then Inl err else Inr ())"

definition abstimed_wait :: "((int \<times> int) option \<Rightarrow> int) \<Rightarrow> int \<Rightarrow> int \<Rightarrow> int + bool" where
  "abstimed_wait cond sec nanosec =
     (let err = cond (Some (sec, nanosec))
      in if err = ETIMEDOUT then Inr False else if err \<noteq> 0 then Inl err else Inr True)"

definition reltimed_wait ::
    "((int \<times> int) option \<Rightarrow> int) \<Rightarrow> int \<times> int \<Rightarrow> 32 word \<Rightarrow> 32 word \<Rightarrow> int + bool" where
  "reltimed_wait cond now sec nanosec =
     (case deadline (fst now) (snd now) sec nanosec of
        None \<Rightarrow> (case WaitCondition_wait cond of Inl err \<Rightarrow> Inl err | Inr _ \<Rightarrow> Inr True)
      | Some t \<Rightarrow>
          let err = cond (Some t)
          in if err = ETIMEDOUT then Inr False else if err \<noteq> 0 then Inl err else Inr True)"

section \<open>Barriers\<close>

text \<open>Where a thread is in its call of \<open>wait\<close>; \<open>In_loop\<close> says whether the wait has a time limit.\<close>

datatype phase =
    Outside
  | In_loop bool
  | Unlocked
  | At_barrier
  | Passed

text \<open>How a call of \<open>wait\<close> has ended: with its value, or with the number of threads that had arrived.\<close>

datatype outcome =
    Returned bool
  | Interrupted nat

datatype barrier_error =
    Zero_count
  | Null_passed_threads

record ibarrier =
  ib_count :: nat
  ib_left :: nat
  ib_interrupted :: bool
  ib_timeout :: bool
  ib_at_barrier :: bool
  ib_passed :: "nat list option"
  ib_phase :: "phase list"
  ib_signalled :: "nat list"
  ib_log :: "(nat \<times> outcome) list"

text \<open>
  \<open>ib_signalled\<close> are the threads that wait on the condition and have been woken by \<open>wake_all\<close> but have
  not run since.
\<close>

definition wake_all :: "ibarrier \<Rightarrow> ibarrier" where
  "wake_all b = b\<lparr>ib_signalled := filter (\<lambda>t. case ib_phase b ! t of In_loop _ \<Rightarrow> True | _ \<Rightarrow> False)
     [0..<length (ib_phase b)]\<rparr>"

text \<open>A barrier for \<open>count\<close> threads, used by \<open>n\<close> of them.\<close>

definition Barrier_new :: "nat \<Rightarrow> barrier_error + nat" where
  "Barrier_new count = (if count = 0 then Inl Zero_count else Inr count)"

definition InterruptibleBarrier_new :: "nat \<Rightarrow> nat \<Rightarrow> barrier_error + ibarrier" where
  "InterruptibleBarrier_new count n =
     (case Barrier_new count of
        Inl e \<Rightarrow> Inl e
      | Inr c \<Rightarrow> Inr \<lparr>ib_count = c, ib_left = 0, ib_interrupted = False, ib_timeout = False, ib_at_barrier = False,
          ib_passed = Some [], ib_phase = replicate n Outside, ib_signalled = [], ib_log = []\<rparr>)"

definition set_phase :: "nat \<Rightarrow> phase \<Rightarrow> ibarrier \<Rightarrow> ibarrier" where
  "set_phase t p b = b\<lparr>ib_phase := (ib_phase b)[t := p]\<rparr>"

definition ended :: "nat \<Rightarrow> outcome \<Rightarrow> ibarrier \<Rightarrow> ibarrier" where
  "ended t out b = set_phase t Outside b\<lparr>ib_log := ib_log b @ [(t, out)]\<rparr>"

text \<open>\<open>Barrier::wait\<close>, the POSIX barrier: the last of the threads releases all.\<close>

definition Barrier_wait :: "nat \<Rightarrow> ibarrier \<Rightarrow> ibarrier" where
  "Barrier_wait t b =
     (let b = set_phase t At_barrier b
      in if length (filter (\<lambda>p. p = At_barrier) (ib_phase b)) = ib_count b
         then b\<lparr>ib_phase := map (\<lambda>p. if p = At_barrier then Passed else p) (ib_phase b)\<rparr>
         else b)"

text \<open>
  The end of the section under the mutex, and the loop before it. \<open>waker\<close> is set in the call that has
  found that all threads have arrived, and such a call does not enter the loop.
\<close>

definition leave_section :: "nat \<Rightarrow> bool \<Rightarrow> bool \<Rightarrow> ibarrier \<Rightarrow> ibarrier" where
  "leave_section t waker local_timeout b =
     (let b = (if local_timeout then b\<lparr>ib_timeout := True\<rparr> else b)
      in if ib_interrupted b then ended t (Interrupted (ib_count b - ib_left b)) b
         else let b = set_phase t Unlocked b
              in if waker \<or> local_timeout then wake_all (b\<lparr>ib_at_barrier := waker\<rparr>) else b)"

definition wait_loop :: "nat \<Rightarrow> bool \<Rightarrow> bool \<Rightarrow> bool \<Rightarrow> ibarrier \<Rightarrow> ibarrier" where
  "wait_loop t timed waker local_timeout b =
     (if ib_left b \<noteq> 0 \<and> \<not> ib_interrupted b \<and> \<not> ib_timeout b \<and> \<not> local_timeout
      then set_phase t (In_loop timed) b
      else leave_section t waker local_timeout b)"

definition enter_wait :: "nat \<Rightarrow> bool \<Rightarrow> ibarrier \<Rightarrow> barrier_error + ibarrier" where
  "enter_wait t timed b =
     (if ib_left b \<noteq> 0 \<and> (ib_interrupted b \<or> ib_timeout b) then Inr (ended t (Returned True) b)
      else case ib_passed b of
        None \<Rightarrow> Inl Null_passed_threads
      | Some passed \<Rightarrow>
          let b = (if ib_left b = 0
                   then b\<lparr>ib_timeout := False, ib_interrupted := False, ib_at_barrier := False,
                          ib_left := ib_count b, ib_passed := Some []\<rparr>
                   else b);
              b = b\<lparr>ib_left := ib_left b - 1, ib_passed := map_option (\<lambda>ps. ps @ [t]) (ib_passed b)\<rparr>
          in Inr (wait_loop t timed (ib_left b = 0) False b))"

text \<open>The condition wait of a thread returns: woken, or at its time limit.\<close>

definition wake_up :: "nat \<Rightarrow> bool \<Rightarrow> bool \<Rightarrow> ibarrier \<Rightarrow> ibarrier" where
  "wake_up t timed woken b =
     wait_loop t timed False (\<not> woken) (b\<lparr>ib_signalled := removeAll t (ib_signalled b)\<rparr>)"

definition after_section :: "nat \<Rightarrow> ibarrier \<Rightarrow> ibarrier" where
  "after_section t b = (if ib_at_barrier b then Barrier_wait t b else ended t (Returned (\<not> ib_timeout b)) b)"

definition InterruptibleBarrier_interrupt :: "ibarrier \<Rightarrow> ibarrier" where
  "InterruptibleBarrier_interrupt b = wake_all (b\<lparr>ib_interrupted := True\<rparr>)"

text \<open>\<open>__passed_threads.clear()\<close> is the member of the pointer, not of the list.\<close>

definition InterruptibleBarrier_reset :: "ibarrier \<Rightarrow> ibarrier" where
  "InterruptibleBarrier_reset b =
     b\<lparr>ib_interrupted := False, ib_timeout := False, ib_left := ib_count b, ib_passed := None\<rparr>"

definition passed_threads :: "ibarrier \<Rightarrow> nat list option" where
  "passed_threads b = ib_passed b"

section \<open>Interleavings\<close>

datatype ib_event =
    Enter nat bool
  | Wake nat bool
  | Spurious nat
  | Proceed nat
  | Leave nat
  | Interrupt
  | Reset

text \<open>
  A wait returns because the thread has been signalled (\<open>Wake t True\<close>), at its time limit if it has one
  (\<open>Wake t False\<close>), or for no reason, as POSIX allows (\<open>Spurious\<close>). \<open>None\<close>: the event cannot happen in
  the state.
\<close>

fun ib_step :: "ib_event \<Rightarrow> ibarrier \<Rightarrow> (barrier_error + ibarrier) option" where
  "ib_step (Enter t timed) b =
     (if t < length (ib_phase b) \<and> ib_phase b ! t = Outside then Some (enter_wait t timed b) else None)"
| "ib_step (Wake t woken) b =
     (if t < length (ib_phase b)
      then case ib_phase b ! t of
             In_loop timed \<Rightarrow>
               if (if woken then t \<in> set (ib_signalled b) else timed) then Some (Inr (wake_up t timed woken b)) else None
           | _ \<Rightarrow> None
      else None)"
| "ib_step (Spurious t) b =
     (if t < length (ib_phase b)
      then case ib_phase b ! t of In_loop timed \<Rightarrow> Some (Inr (wake_up t timed True b)) | _ \<Rightarrow> None
      else None)"
| "ib_step (Proceed t) b =
     (if t < length (ib_phase b) \<and> ib_phase b ! t = Unlocked then Some (Inr (after_section t b)) else None)"
| "ib_step (Leave t) b =
     (if t < length (ib_phase b) \<and> ib_phase b ! t = Passed
      then Some (Inr (ended t (Returned (\<not> ib_timeout b)) b)) else None)"
| "ib_step Interrupt b = Some (Inr (InterruptibleBarrier_interrupt b))"
| "ib_step Reset b = Some (Inr (InterruptibleBarrier_reset b))"

fun ib_run :: "ib_event list \<Rightarrow> ibarrier \<Rightarrow> (barrier_error + ibarrier) option" where
  "ib_run [] b = Some (Inr b)"
| "ib_run (e # es) b = (case ib_step e b of Some (Inr b') \<Rightarrow> ib_run es b' | r \<Rightarrow> r)"

text \<open>How often a thread has called \<open>wait\<close>; events without time limits, interruption and reset.\<close>

definition calls :: "nat \<Rightarrow> ib_event list \<Rightarrow> nat" where
  "calls t es = length (filter (\<lambda>e. case e of Enter u _ \<Rightarrow> u = t | _ \<Rightarrow> False) es)"

definition calm :: "ib_event \<Rightarrow> bool" where
  "calm e = (case e of Enter _ timed \<Rightarrow> \<not> timed | Interrupt \<Rightarrow> False | Reset \<Rightarrow> False | _ \<Rightarrow> True)"

section \<open>Without time limits\<close>

text \<open>
  The invariant of \<open>n\<close> threads at a barrier for \<open>n\<close>: \<open>c t\<close> is the number of calls of \<open>t\<close>, \<open>g\<close> the number of
  rounds. While a round gathers, those that have come wait in the loop; once all have come they leave
  it one by one to meet again at the second barrier, and nobody can enter.
\<close>

definition in_loop :: "ibarrier \<Rightarrow> nat set" where
  "in_loop b = {t. t < length (ib_phase b) \<and> ib_phase b ! t = In_loop False}"

definition calm_base :: "nat \<Rightarrow> ibarrier \<Rightarrow> bool" where
  "calm_base n b \<longleftrightarrow> length (ib_phase b) = n \<and> ib_count b = n \<and> \<not> ib_interrupted b \<and> \<not> ib_timeout b
     \<and> ib_passed b \<noteq> None \<and> (\<forall>(t, out) \<in> set (ib_log b). out = Returned True)"

definition gathering :: "nat \<Rightarrow> nat \<Rightarrow> (nat \<Rightarrow> nat) \<Rightarrow> ibarrier \<Rightarrow> bool" where
  "gathering n g c b \<longleftrightarrow> (\<forall>t < n. ib_phase b ! t \<in> {Outside, In_loop False, Passed}) \<and> ib_left b < n
     \<and> card (in_loop b) = (if ib_left b = 0 then 0 else n - ib_left b)
     \<and> (\<forall>t < n. c t = (if t \<in> in_loop b then Suc g else g))"

definition releasing :: "nat \<Rightarrow> nat \<Rightarrow> (nat \<Rightarrow> nat) \<Rightarrow> ibarrier \<Rightarrow> bool" where
  "releasing n g c b \<longleftrightarrow> ib_left b = 0 \<and> ib_at_barrier b
     \<and> (\<forall>t < n. ib_phase b ! t \<in> {In_loop False, Unlocked, At_barrier}) \<and> (\<exists>t < n. ib_phase b ! t \<noteq> At_barrier)
     \<and> (\<forall>t \<in> in_loop b. t \<in> set (ib_signalled b)) \<and> (\<forall>t < n. c t = Suc g)"

definition barrier_inv :: "nat \<Rightarrow> (nat \<Rightarrow> nat) \<Rightarrow> ibarrier \<Rightarrow> bool" where
  "barrier_inv n c b \<longleftrightarrow> calm_base n b \<and> (\<exists>g. gathering n g c b \<or> releasing n g c b)"

lemma finite_in_loop [simp]: "finite (in_loop b)"
  by (simp add: in_loop_def)

lemma in_loop_less: "t \<in> in_loop b \<Longrightarrow> t < length (ib_phase b)"
  by (simp add: in_loop_def)

lemma in_loop_set:
  "t < length (ib_phase b) \<Longrightarrow> in_loop (set_phase t p b) = (if p = In_loop False then insert t (in_loop b) else in_loop b - {t})"
  by (auto simp: in_loop_def set_phase_def nth_list_update)

lemma in_loop_fields [simp]:
  "in_loop (b\<lparr>ib_left := l\<rparr>) = in_loop b" "in_loop (b\<lparr>ib_passed := ps\<rparr>) = in_loop b"
  "in_loop (b\<lparr>ib_at_barrier := f\<rparr>) = in_loop b" "in_loop (b\<lparr>ib_timeout := f\<rparr>) = in_loop b"
  "in_loop (b\<lparr>ib_interrupted := f\<rparr>) = in_loop b" "in_loop (b\<lparr>ib_log := lg\<rparr>) = in_loop b"
  "in_loop (b\<lparr>ib_signalled := ts\<rparr>) = in_loop b" "in_loop (wake_all b) = in_loop b"
  by (simp_all add: in_loop_def wake_all_def)

lemma wake_all_fields [simp]:
  "ib_count (wake_all b) = ib_count b" "ib_left (wake_all b) = ib_left b"
  "ib_interrupted (wake_all b) = ib_interrupted b" "ib_timeout (wake_all b) = ib_timeout b"
  "ib_at_barrier (wake_all b) = ib_at_barrier b" "ib_passed (wake_all b) = ib_passed b"
  "ib_phase (wake_all b) = ib_phase b" "ib_log (wake_all b) = ib_log b"
  by (simp_all add: wake_all_def)

lemma all_signalled: "t \<in> in_loop b \<Longrightarrow> t \<in> set (ib_signalled (wake_all b))"
  by (simp add: wake_all_def in_loop_def)

lemma set_phase_fields [simp]:
  "ib_count (set_phase t p b) = ib_count b" "ib_left (set_phase t p b) = ib_left b"
  "ib_interrupted (set_phase t p b) = ib_interrupted b" "ib_timeout (set_phase t p b) = ib_timeout b"
  "ib_at_barrier (set_phase t p b) = ib_at_barrier b" "ib_passed (set_phase t p b) = ib_passed b"
  "ib_phase (set_phase t p b) = (ib_phase b)[t := p]" "ib_log (set_phase t p b) = ib_log b"
  "ib_signalled (set_phase t p b) = ib_signalled b"
  by (simp_all add: set_phase_def)

text \<open>All threads of a full round wait in the loop, except the one that completes it.\<close>

lemma all_but_one:
  assumes "card (in_loop b) = n - 1" and "length (ib_phase b) = n" and "t < n" and "t \<notin> in_loop b" and "u < n" and "u \<noteq> t"
  shows "ib_phase b ! u = In_loop False"
proof -
  have "in_loop b \<subseteq> {..<n} - {t}" using assms(2,4) by (auto simp: in_loop_def)
  moreover have "card ({..<n} - {t}) = n - 1" using assms(3) by simp
  ultimately have "in_loop b = {..<n} - {t}" using assms(1) by (simp add: card_subset_eq)
  then show ?thesis using assms(5,6) by (auto simp: in_loop_def)
qed

lemma enter_gathering:
  assumes base: "calm_base n b" and g: "gathering n g c b" and t: "t < n" "ib_phase b ! t = Outside"
  shows "\<exists>b'. enter_wait t False b = Inr b' \<and> barrier_inv n (c(t := Suc (c t))) b'"
proof -
  have len: "length (ib_phase b) = n" and cnt: "ib_count b = n" and calm: "\<not> ib_interrupted b" "\<not> ib_timeout b"
    using base by (simp_all add: calm_base_def)
  obtain ps where ps: "ib_passed b = Some ps" using base by (auto simp: calm_base_def)
  define k where "k = (if ib_left b = 0 then n else ib_left b) - 1"
  define b1 where "b1 = (if ib_left b = 0 then b\<lparr>ib_timeout := False, ib_interrupted := False, ib_at_barrier := False,
    ib_left := k, ib_passed := Some [t]\<rparr> else b\<lparr>ib_left := k, ib_passed := Some (ps @ [t])\<rparr>)"
  have e: "enter_wait t False b = Inr (wait_loop t False (k = 0) False b1)"
    using ps calm by (simp add: enter_wait_def b1_def k_def cnt Let_def)
  have nl: "t \<notin> in_loop b" using t by (simp add: in_loop_def)
  have il: "in_loop b1 = in_loop b" by (simp add: b1_def)
  have ph: "ib_phase b1 = ib_phase b" "ib_left b1 = k" "\<not> ib_interrupted b1" "\<not> ib_timeout b1" "ib_passed b1 \<noteq> None"
    "ib_count b1 = n" "ib_log b1 = ib_log b"
    using calm cnt by (simp_all add: b1_def)
  have card1: "card (in_loop b) = n - 1 - k" using g t(1) by (auto simp: gathering_def k_def)
  have kn: "k < n" using g t(1) by (auto simp: gathering_def k_def)
  show ?thesis
  proof (cases "k = 0")
    case False
    then have w: "wait_loop t False (k = 0) False b1 = set_phase t (In_loop False) b1"
      by (simp add: wait_loop_def ph)
    have "gathering n g (c(t := Suc (c t))) (set_phase t (In_loop False) b1)"
      using g t nl False kn card1 len
      by (auto simp: gathering_def in_loop_set il ph nth_list_update)
    moreover have "calm_base n (set_phase t (In_loop False) b1)" using base by (simp add: calm_base_def ph)
    ultimately show ?thesis using e w by (auto simp: barrier_inv_def)
  next
    case True
    then have w: "wait_loop t False (k = 0) False b1 = wake_all (set_phase t Unlocked b1\<lparr>ib_at_barrier := True\<rparr>)"
      by (simp add: wait_loop_def leave_section_def ph)
    have others: "ib_phase b ! u = In_loop False" if "u < n" "u \<noteq> t" for u
      using all_but_one [OF _ len t(1) nl that] card1 True by simp
    then have loop: "u \<in> in_loop b" if "u < n" "u \<noteq> t" for u
      using that len by (simp add: in_loop_def)
    have "releasing n g (c(t := Suc (c t))) (wake_all (set_phase t Unlocked b1\<lparr>ib_at_barrier := True\<rparr>))"
      using g t nl others loop len
      by (auto simp: releasing_def gathering_def ph True nth_list_update all_signalled)
    moreover have "calm_base n (wake_all (set_phase t Unlocked b1\<lparr>ib_at_barrier := True\<rparr>))" using base by (simp add: calm_base_def ph)
    ultimately show ?thesis using e w True by (auto simp: barrier_inv_def)
  qed
qed

lemma ended_inv:
  assumes "calm_base n b" and "gathering n g c b" and "t < n" and "ib_phase b ! t = Passed"
  shows "barrier_inv n c (ended t (Returned (\<not> ib_timeout b)) b)"
proof -
  have "length (ib_phase b) = n" and "t \<notin> in_loop b" using assms by (auto simp: calm_base_def in_loop_def)
  then have "gathering n g c (ended t (Returned (\<not> ib_timeout b)) b)"
    using assms by (auto simp: gathering_def ended_def in_loop_set nth_list_update)
  moreover have "calm_base n (ended t (Returned (\<not> ib_timeout b)) b)"
    using assms(1) by (auto simp: calm_base_def ended_def)
  ultimately show ?thesis by (auto simp: barrier_inv_def)
qed

lemma proceed_inv:
  assumes base: "calm_base n b" and r: "releasing n g c b" and t: "t < n" "ib_phase b ! t = Unlocked"
  shows "barrier_inv n c (Barrier_wait t b)"
proof -
  define ps where "ps = (ib_phase b)[t := At_barrier]"
  have len: "length ps = n" "ib_count b = n" using base by (simp_all add: calm_base_def ps_def)
  have in_phase: "ps ! u \<in> {In_loop False, Unlocked, At_barrier}" if "u < n" for u
    using r that len by (cases "u = t") (simp_all add: releasing_def ps_def)
  show ?thesis
  proof (cases "length (filter (\<lambda>p. p = At_barrier) ps) = n")
    case True
    then have all: "ps ! u = At_barrier" if "u < n" for u
      using length_filter_less [of "ps ! u" ps "\<lambda>p. p = At_barrier"] that len True by auto
    define b' where "b' = Barrier_wait t b"
    have b': "ib_phase b' = map (\<lambda>p. if p = At_barrier then Passed else p) ps" "ib_left b' = 0"
      "calm_base n b'"
      using True len base r by (simp_all add: b'_def Barrier_wait_def Let_def ps_def calm_base_def releasing_def)
    then have "in_loop b' = {}" using all len by (auto simp: in_loop_def)
    then have "gathering n (Suc g) c b'"
      using b' all len r t by (auto simp: gathering_def releasing_def)
    then show ?thesis using b' by (auto simp: barrier_inv_def b'_def)
  next
    case False
    then have "\<exists>u < n. ps ! u \<noteq> At_barrier"
      using len by (metis (full_types) filter_True in_set_conv_nth)
    moreover have "Barrier_wait t b = set_phase t At_barrier b"
      using False len by (simp add: Barrier_wait_def Let_def ps_def)
    ultimately have "releasing n g c (Barrier_wait t b)"
      using r in_phase t(1) len by (auto simp: releasing_def ps_def in_loop_set)
    moreover have "calm_base n (Barrier_wait t b)"
      using base \<open>Barrier_wait t b = set_phase t At_barrier b\<close> by (simp add: calm_base_def)
    ultimately show ?thesis by (auto simp: barrier_inv_def)
  qed
qed

lemma gathering_signalled [simp]:
  "gathering n g c (b\<lparr>ib_signalled := ts\<rparr>) = gathering n g c b"
  "calm_base n (b\<lparr>ib_signalled := ts\<rparr>) = calm_base n b"
  by (simp_all add: gathering_def calm_base_def)

lemma wake_releasing:
  assumes "calm_base n b" and "releasing n g c b"
  shows "wake_up t timed True b = set_phase t Unlocked (b\<lparr>ib_signalled := removeAll t (ib_signalled b)\<rparr>)"
  using assms by (simp add: wake_up_def wait_loop_def leave_section_def releasing_def calm_base_def)

lemma wake_inv:
  assumes inv: "barrier_inv n c b" and t: "t < n" "ib_phase b ! t = In_loop timed"
  shows "\<not> timed \<and> barrier_inv n c (wake_up t timed True b)"
proof -
  obtain g where base: "calm_base n b" and g: "gathering n g c b \<or> releasing n g c b"
    using inv by (auto simp: barrier_inv_def)
  have nt: "\<not> timed" using g t by (auto simp: gathering_def releasing_def)
  have len: "length (ib_phase b) = n" and calm: "\<not> ib_interrupted b" "\<not> ib_timeout b"
    using base by (simp_all add: calm_base_def)
  let ?b = "b\<lparr>ib_signalled := removeAll t (ib_signalled b)\<rparr>"
  from g show ?thesis
  proof
    assume ga: "gathering n g c b"
    have "t \<in> in_loop b" using t nt len by (simp add: in_loop_def)
    then have "in_loop b \<noteq> {}" by auto
    then have "ib_left b \<noteq> 0" using ga by (auto simp: gathering_def)
    moreover have "(ib_phase b)[t := In_loop timed] = ib_phase b"
      using t len by (simp add: list_update_same_conv)
    ultimately have "wake_up t timed True b = ?b"
      using calm by (simp add: wake_up_def wait_loop_def set_phase_def)
    moreover have "barrier_inv n c ?b" using base ga by (auto simp: barrier_inv_def)
    ultimately show ?thesis using nt by simp
  next
    assume r: "releasing n g c b"
    have "releasing n g c (set_phase t Unlocked ?b)"
      using r t len by (auto simp: releasing_def nth_list_update in_loop_set)
    moreover have "calm_base n (set_phase t Unlocked ?b)" using base by (simp add: calm_base_def)
    ultimately show ?thesis using wake_releasing [OF base r] nt by (auto simp: barrier_inv_def)
  qed
qed

definition called :: "ib_event \<Rightarrow> (nat \<Rightarrow> nat) \<Rightarrow> nat \<Rightarrow> nat" where
  "called e c = (case e of Enter t _ \<Rightarrow> c(t := Suc (c t)) | _ \<Rightarrow> c)"

lemma step_inv:
  assumes inv: "barrier_inv n c b" and e: "calm e" and r: "ib_step e b = Some r"
  shows "\<exists>b'. r = Inr b' \<and> barrier_inv n (called e c) b'"
proof -
  obtain g where base: "calm_base n b" and g: "gathering n g c b \<or> releasing n g c b"
    using inv by (auto simp: barrier_inv_def)
  have len: "length (ib_phase b) = n" using base by (simp add: calm_base_def)
  show ?thesis
  proof (cases e)
    case (Enter t timed)
    then have t: "t < n" "ib_phase b ! t = Outside" "\<not> timed" and r: "r = enter_wait t False b"
      using e r len by (auto simp: calm_def split: if_splits)
    then have "gathering n g c b" using g by (auto simp: releasing_def)
    then show ?thesis using enter_gathering [OF base _ t(1,2)] r Enter by (simp add: called_def)
  next
    case (Wake t woken)
    then obtain timed where t: "t < n" "ib_phase b ! t = In_loop timed" "\<not> woken \<longrightarrow> timed"
      and r: "r = Inr (wake_up t timed woken b)"
      using r len by (cases "ib_phase b ! t") (auto split: if_splits)
    moreover have woken using wake_inv [OF inv t(1,2)] t(3) by simp
    ultimately show ?thesis using wake_inv [OF inv t(1,2)] Wake by (auto simp: called_def)
  next
    case (Spurious t)
    then obtain timed where t: "t < n" "ib_phase b ! t = In_loop timed" and r: "r = Inr (wake_up t timed True b)"
      using r len by (auto split: if_splits phase.splits)
    then show ?thesis using wake_inv [OF inv t] Spurious by (auto simp: called_def)
  next
    case (Proceed t)
    then have t: "t < n" "ib_phase b ! t = Unlocked" and r: "r = Inr (after_section t b)"
      using r len by (auto split: if_splits)
    then have rel: "releasing n g c b" using g by (auto simp: gathering_def)
    then have "after_section t b = Barrier_wait t b" by (simp add: after_section_def releasing_def)
    then show ?thesis using proceed_inv [OF base rel t] r Proceed by (simp add: called_def)
  next
    case (Leave t)
    then have t: "t < n" "ib_phase b ! t = Passed" and r: "r = Inr (ended t (Returned (\<not> ib_timeout b)) b)"
      using r len by (auto split: if_splits)
    then have "gathering n g c b" using g by (auto simp: releasing_def)
    then show ?thesis using ended_inv [OF base _ t] r Leave by (simp add: called_def)
  qed (use e in \<open>simp_all add: calm_def\<close>)
qed

lemma calls_Cons: "calls t (e # es) = called e (\<lambda>_. 0) t + calls t es"
  by (cases e) (auto simp: calls_def called_def)

lemma called_add: "called e c t = c t + called e (\<lambda>_. 0) t"
  by (cases e) (auto simp: called_def)

lemma run_inv:
  assumes "barrier_inv n c b" and "list_all calm es" and "ib_run es b = Some r"
  shows "\<exists>b'. r = Inr b' \<and> barrier_inv n (\<lambda>t. c t + calls t es) b'"
  using assms
proof (induction es arbitrary: b c)
  case Nil
  then show ?case by (auto simp: calls_def)
next
  case (Cons e es)
  then obtain r1 where r1: "ib_step e b = Some r1" by (cases "ib_step e b") auto
  obtain b1 where b1: "r1 = Inr b1" "barrier_inv n (called e c) b1"
    using step_inv [OF Cons.prems(1) _ r1] Cons.prems(2) by auto
  have "(\<lambda>t. called e c t + calls t es) = (\<lambda>t. c t + calls t (e # es))"
    by (rule ext) (simp add: calls_Cons called_add [of e c])
  then show ?case using Cons.IH [OF b1(2)] Cons.prems(2,3) r1 b1(1) by simp
qed

lemma new_inv:
  assumes "InterruptibleBarrier_new n n = Inr b"
  shows "barrier_inv n (\<lambda>_. 0) b"
proof -
  have n: "0 < n" using assms by (cases "n = 0") (auto simp: InterruptibleBarrier_new_def Barrier_new_def)
  have b: "b = \<lparr>ib_count = n, ib_left = 0, ib_interrupted = False, ib_timeout = False, ib_at_barrier = False,
      ib_passed = Some [], ib_phase = replicate n Outside, ib_signalled = [], ib_log = []\<rparr>"
    using assms n by (simp add: InterruptibleBarrier_new_def Barrier_new_def)
  then have "in_loop b = {}" by (auto simp: in_loop_def)
  then show ?thesis using n by (auto simp: barrier_inv_def calm_base_def gathering_def b)
qed

text \<open>
  C28 Without time limits, interruption and reset, the threads that a barrier counts meet: when a
  thread is out of its calls, each of the others has called as often, in every interleaving. Every
  call that has ended has returned true, and no call fails.
\<close>

theorem barrier_threads_meet:
  assumes "InterruptibleBarrier_new n n = Inr b" and "list_all calm es" and "ib_run es b = Some r"
  shows "\<exists>b'. r = Inr b'
    \<and> (\<forall>t < n. \<forall>u < n. ib_phase b' ! t = Outside \<longrightarrow> calls t es \<le> calls u es)
    \<and> (\<forall>(t, out) \<in> set (ib_log b'). out = Returned True)"
proof -
  obtain b' where r: "r = Inr b'" and inv: "barrier_inv n (\<lambda>t. calls t es) b'"
    using run_inv [OF new_inv [OF assms(1)] assms(2,3)] by auto
  have "calls t es \<le> calls u es" if "t < n" "u < n" "ib_phase b' ! t = Outside" for t u
    using inv that by (auto simp: barrier_inv_def gathering_def releasing_def in_loop_def)
  moreover have "\<forall>(t, out) \<in> set (ib_log b'). out = Returned True"
    using inv by (simp add: barrier_inv_def calm_base_def)
  ultimately show ?thesis using r by auto
qed

text \<open>
  Once all threads have called equally often, every step that is no call brings a thread closer to
  the end of its call, and while a thread is inside there is such a step without a spurious wake-up.
\<close>

definition rank :: "phase \<Rightarrow> nat" where
  "rank p = (case p of Outside \<Rightarrow> 0 | Passed \<Rightarrow> 1 | At_barrier \<Rightarrow> 2 | Unlocked \<Rightarrow> 3 | In_loop _ \<Rightarrow> 4)"

abbreviation ranks :: "ibarrier \<Rightarrow> nat" where
  "ranks b \<equiv> sum_list (map rank (ib_phase b))"

lemma rank_update:
  "t < length ps \<Longrightarrow> rank p < rank (ps ! t) \<Longrightarrow> sum_list (map rank (ps[t := p])) < sum_list (map rank ps)"
  using elem_le_sum_list [of t "map rank ps"] by (simp add: map_update sum_list_update)

lemma rank_le: "rank p \<le> 4"
  by (cases p) (simp_all add: rank_def)

lemma ranks_bound: "sum_list (map rank ps) \<le> 4 * length ps"
proof (induction ps)
  case (Cons p ps)
  then show ?case using rank_le [of p] by simp
qed simp

text \<open>With equally many calls nobody waits in a round that still gathers.\<close>

lemma equal_calls:
  assumes "calm_base n b" and ga: "gathering n g c b" and "\<forall>t < n. c t = k"
  shows "in_loop b = {}"
proof -
  have len: "length (ib_phase b) = n" using assms(1) by (simp add: calm_base_def)
  have all: "t \<in> in_loop b \<longleftrightarrow> u \<in> in_loop b" if "t < n" "u < n" for t u
  proof -
    have "c t = (if t \<in> in_loop b then Suc g else g)" "c u = (if u \<in> in_loop b then Suc g else g)"
      using ga that by (simp_all add: gathering_def)
    then show ?thesis using assms(3) that by (metis n_not_Suc_n)
  qed
  have "t \<notin> in_loop b" if "t < n" for t
  proof
    assume "t \<in> in_loop b"
    then have "in_loop b = {..<n}" using all [OF _ that] len in_loop_less [of _ b] by auto
    then have "card (in_loop b) = n" by simp
    then show False using ga that by (simp add: gathering_def split: if_splits)
  qed
  then show ?thesis using len in_loop_less [of _ b] by auto
qed

lemma proceed_rank:
  assumes "t < length (ib_phase b)" and "ib_phase b ! t = Unlocked"
  shows "ranks (Barrier_wait t b) < ranks b"
proof -
  define ps where "ps = (ib_phase b)[t := At_barrier]"
  have lt: "sum_list (map rank ps) < ranks b"
    unfolding ps_def using assms by (intro rank_update) (simp_all add: rank_def)
  have "sum_list (map (\<lambda>p. rank (if p = At_barrier then Passed else p)) ps) \<le> sum_list (map rank ps)"
    by (intro sum_list_mono) (simp add: rank_def)
  then show ?thesis using lt by (simp add: Barrier_wait_def Let_def comp_def flip: ps_def)
qed

lemma barrier_step_rank:
  assumes inv: "barrier_inv n c b" and eq: "\<forall>t < n. c t = k" and e: "calm e" "called e c = c"
    and st: "ib_step e b = Some (Inr b')"
  shows "ranks b' < ranks b"
proof -
  obtain g where base: "calm_base n b" and g: "gathering n g c b \<or> releasing n g c b"
    using inv by (auto simp: barrier_inv_def)
  have len: "length (ib_phase b) = n" using base by (simp add: calm_base_def)
  have woken: "ranks (wake_up t timed True b) < ranks b" if t: "t < n" "ib_phase b ! t = In_loop timed" for t timed
  proof -
    have nt: "\<not> timed" using wake_inv [OF inv that] by simp
    have "\<not> gathering n g c b" using equal_calls [OF base _ eq] t nt len by (auto simp: in_loop_def)
    then have "releasing n g c b" using g by blast
    then show ?thesis using t len
      by (simp add: wake_releasing [OF base]) (intro rank_update, simp_all add: rank_def)
  qed
  show ?thesis
  proof (cases e)
    case (Enter t timed)
    then show ?thesis using fun_cong [OF e(2), of t] by (simp add: called_def)
  next
    case (Wake t w)
    then obtain timed where t: "t < n" "ib_phase b ! t = In_loop timed" "\<not> w \<longrightarrow> timed"
      and b': "b' = wake_up t timed w b"
      using st len by (cases "ib_phase b ! t") (auto split: if_splits)
    moreover have w using wake_inv [OF inv t(1,2)] t(3) by simp
    ultimately show ?thesis using woken by simp
  next
    case (Spurious t)
    then show ?thesis using st len woken by (cases "ib_phase b ! t") (auto split: if_splits)
  next
    case (Proceed t)
    then have t: "t < n" "ib_phase b ! t = Unlocked" and b': "b' = after_section t b"
      using st len by (auto split: if_splits)
    then have "releasing n g c b" using g by (auto simp: gathering_def)
    then have "b' = Barrier_wait t b" by (simp add: b' after_section_def releasing_def)
    then show ?thesis using proceed_rank t len by simp
  next
    case (Leave t)
    then have t: "t < n" "ib_phase b ! t = Passed" and b': "b' = ended t (Returned (\<not> ib_timeout b)) b"
      using st len by (auto split: if_splits)
    then show ?thesis using len by (simp add: ended_def) (intro rank_update, simp_all add: rank_def)
  qed (use e in \<open>simp_all add: calm_def\<close>)
qed

text \<open>The steps of threads that are inside a call, spurious wake-ups left out.\<close>

definition goes_on :: "ib_event \<Rightarrow> bool" where
  "goes_on e = (case e of Wake _ woken \<Rightarrow> woken | Proceed _ \<Rightarrow> True | Leave _ \<Rightarrow> True | _ \<Rightarrow> False)"

lemma barrier_progress:
  assumes "barrier_inv n c b" and "\<forall>t < n. c t = k" and "t < n" and "ib_phase b ! t \<noteq> Outside"
  shows "\<exists>e. goes_on e \<and> ib_step e b \<noteq> None"
proof -
  obtain g where base: "calm_base n b" and g: "gathering n g c b \<or> releasing n g c b"
    using assms(1) by (auto simp: barrier_inv_def)
  have len: "length (ib_phase b) = n" using base by (simp add: calm_base_def)
  from g show ?thesis
  proof
    assume ga: "gathering n g c b"
    then have "ib_phase b ! t \<noteq> In_loop False"
      using equal_calls [OF base ga assms(2)] assms(3) len by (auto simp: in_loop_def)
    moreover have "ib_phase b ! t \<in> {Outside, In_loop False, Passed}" using ga assms(3) by (simp only: gathering_def)
    ultimately have "ib_phase b ! t = Passed" using assms(4) by simp
    then show ?thesis using assms(3) len by (intro exI [of _ "Leave t"]) (simp add: goes_on_def)
  next
    assume r: "releasing n g c b"
    then obtain u where u: "u < n" "ib_phase b ! u = In_loop False \<or> ib_phase b ! u = Unlocked"
      by (auto simp: releasing_def)
    show ?thesis
    proof (cases "ib_phase b ! u = Unlocked")
      case True
      then show ?thesis using u len by (intro exI [of _ "Proceed u"]) (simp add: goes_on_def)
    next
      case False
      then have "u \<in> in_loop b" using u len by (simp add: in_loop_def)
      then have "u \<in> set (ib_signalled b)" using r by (simp add: releasing_def)
      then show ?thesis using u len False by (intro exI [of _ "Wake u True"]) (auto simp: goes_on_def)
    qed
  qed
qed

lemma no_calls:
  assumes "\<forall>t. calls t (e # es) = 0"
  shows "called e c = c \<and> (\<forall>t. calls t es = 0)"
proof -
  have "\<forall>t. called e (\<lambda>_. 0) t = 0 \<and> calls t es = 0" using assms by (simp add: calls_Cons)
  then show ?thesis using called_add [of e c] by (auto simp: fun_eq_iff)
qed

lemma round_ends:
  assumes "barrier_inv n c b" and "\<forall>t < n. c t = k" and "list_all calm fs" and "\<forall>t. calls t fs = 0"
    and "ib_run fs b = Some r"
  shows "\<exists>b'. r = Inr b' \<and> barrier_inv n c b' \<and> length fs + ranks b' \<le> ranks b"
  using assms
proof (induction fs arbitrary: b)
  case (Cons e fs)
  have e: "called e c = c" "\<forall>t. calls t fs = 0" using no_calls [OF Cons.prems(4), of c] by auto
  obtain r1 where r1: "ib_step e b = Some r1" using Cons.prems(5) by (cases "ib_step e b") auto
  obtain b1 where b1: "r1 = Inr b1" "barrier_inv n c b1"
    using step_inv [OF Cons.prems(1) _ r1] Cons.prems(3) e(1) by auto
  have "ranks b1 < ranks b"
    using barrier_step_rank [OF Cons.prems(1,2) _ e(1)] Cons.prems(3) r1 b1(1) by simp
  moreover obtain b' where "r = Inr b'" "barrier_inv n c b'" "length fs + ranks b' \<le> ranks b1"
    using Cons.IH [OF b1(2) Cons.prems(2) _ e(2)] Cons.prems(3,5) r1 b1(1) by auto
  ultimately show ?case by auto
qed auto

text \<open>
  C29 Take any interleaving without time limits, interruption and reset in which all threads have
  called \<open>wait\<close> equally often. If nobody calls again, then however the threads are scheduled they take
  at most four steps each, and they stop only when all of them have returned: a state in which no
  thread can go on, if it is not woken spuriously, has all threads outside. So nobody is left behind
  at either of the two barriers, and nobody needs a spurious wake-up.
\<close>

theorem barrier_round_ends:
  assumes "InterruptibleBarrier_new n n = Inr b" and "list_all calm es" and "ib_run es b = Some (Inr b1)"
    and "\<forall>t < n. calls t es = k"
    and "list_all calm fs" and "\<forall>t. calls t fs = 0" and "ib_run fs b1 = Some r"
  shows "\<exists>b2. r = Inr b2 \<and> length fs \<le> 4 * n
    \<and> ((\<forall>e. goes_on e \<longrightarrow> ib_step e b2 = None) \<longrightarrow> (\<forall>t < n. ib_phase b2 ! t = Outside))"
proof -
  have inv: "barrier_inv n (\<lambda>t. calls t es) b1" using run_inv [OF new_inv [OF assms(1)] assms(2,3)] by auto
  obtain b2 where b2: "r = Inr b2" "barrier_inv n (\<lambda>t. calls t es) b2" "length fs + ranks b2 \<le> ranks b1"
    using round_ends [OF inv assms(4-7)] by blast
  have "length (ib_phase b1) = n" using inv by (auto simp: barrier_inv_def calm_base_def)
  then have "length fs \<le> 4 * n" using b2(3) ranks_bound [of "ib_phase b1"] by simp
  moreover have "\<forall>t < n. ib_phase b2 ! t = Outside" if "\<forall>e. goes_on e \<longrightarrow> ib_step e b2 = None"
  proof (intro allI impI, rule ccontr)
    fix t assume "t < n" and "ib_phase b2 ! t \<noteq> Outside"
    from barrier_progress [OF b2(2) assms(4) this] that show False by auto
  qed
  ultimately show ?thesis using b2(1) by blast
qed

section \<open>With time limits and reset\<close>

text \<open>
  Thread 0 reaches its time limit after thread 1, the last to arrive, has released the round and
  waits at the second barrier: thread 0 takes back \<open>__wait_at_barrier\<close> and returns.
\<close>

definition late_timeout :: "ib_event list" where
  "late_timeout = [Enter 0 True, Enter 1 False, Proceed 1, Wake 0 False, Proceed 0]"

text \<open>The states from which thread 1 never gets on, whatever thread 0 does.\<close>

definition stranded :: "ibarrier \<Rightarrow> bool" where
  "stranded b \<longleftrightarrow> ib_count b = 2 \<and> \<not> ib_at_barrier b \<and> (\<exists>p. ib_phase b = [p, At_barrier]
     \<and> (case p of
          In_loop _ \<Rightarrow> ib_left b = 1 \<or> ib_left b = 2
        | At_barrier \<Rightarrow> False | Passed \<Rightarrow> False
        | _ \<Rightarrow> ib_left b = 0 \<or> ib_left b = 2 \<or> ib_interrupted b \<or> ib_timeout b))"

lemma stranded_step:
  assumes "stranded b" and "ib_step e b = Some (Inr b')"
  shows "stranded b'"
proof -
  obtain p where p: "ib_phase b = [p, At_barrier]" and c: "ib_count b = 2" "\<not> ib_at_barrier b"
    using assms(1) by (auto simp: stranded_def)
  have less: "t < 2 \<Longrightarrow> t = 0 \<or> t = 1" for t :: nat by auto
  show ?thesis
    by (cases e; cases p)
      (use assms p c in \<open>auto simp: stranded_def enter_wait_def wake_up_def wait_loop_def leave_section_def
        after_section_def ended_def InterruptibleBarrier_interrupt_def InterruptibleBarrier_reset_def Let_def
        less_Suc_eq split: if_splits option.splits\<close>)
qed

lemma stranded_run: "stranded b \<Longrightarrow> ib_run es b = Some (Inr b') \<Longrightarrow> stranded b'"
proof (induction es arbitrary: b)
  case (Cons e es)
  then obtain b1 where "ib_step e b = Some (Inr b1)" and "ib_run es b1 = Some (Inr b')"
    by (auto split: option.splits sum.splits)
  then show ?case using Cons.IH stranded_step [OF Cons.prems(1)] by blast
qed simp

text \<open>
  C30 A time limit that is reached after the last thread has come strands that thread: there is a run
  of two threads at a barrier for two after which, whatever happens, the thread that arrived last
  never gets past the second barrier, although the other one has returned (with false). And after
  a reset every call of \<open>wait\<close> fails on the null pointer to the list of threads.
\<close>

theorem barrier_strands_and_breaks:
  "(\<exists>b b1. InterruptibleBarrier_new 2 2 = Inr b \<and> ib_run late_timeout b = Some (Inr b1)
      \<and> ib_log b1 = [(0, Returned False)] \<and> passed_threads b1 = Some [0, 1]
      \<and> (\<forall>es b2. ib_run es b1 = Some (Inr b2) \<longrightarrow> ib_phase b2 ! 1 = At_barrier))
   \<and> (\<forall>b t timed. 0 < ib_count b \<longrightarrow>
      enter_wait t timed (InterruptibleBarrier_reset b) = Inl Null_passed_threads)"
proof
  define b where "b = \<lparr>ib_count = 2, ib_left = 0, ib_interrupted = False, ib_timeout = False, ib_at_barrier = False,
    ib_passed = Some [], ib_phase = [Outside, Outside], ib_signalled = [], ib_log = []\<rparr>"
  define b1 where "b1 = \<lparr>ib_count = 2, ib_left = 0, ib_interrupted = False, ib_timeout = True, ib_at_barrier = False,
    ib_passed = Some [0, 1], ib_phase = [Outside, At_barrier], ib_signalled = [], ib_log = [(0, Returned False)]\<rparr>"
  have new: "InterruptibleBarrier_new 2 2 = Inr b"
    by (simp add: InterruptibleBarrier_new_def Barrier_new_def b_def numeral_2_eq_2)
  have run: "ib_run late_timeout b = Some (Inr b1)"
    by (simp add: late_timeout_def b_def b1_def enter_wait_def wait_loop_def leave_section_def set_phase_def
      wake_all_def upt_conv_Cons wake_up_def after_section_def Barrier_wait_def ended_def)
  have "stranded b1" by (simp add: stranded_def b1_def)
  then have "ib_phase b2 ! 1 = At_barrier" if "ib_run es b1 = Some (Inr b2)" for es b2
    using stranded_run [OF _ that] by (auto simp: stranded_def)
  then show "\<exists>b b1. InterruptibleBarrier_new 2 2 = Inr b \<and> ib_run late_timeout b = Some (Inr b1)
      \<and> ib_log b1 = [(0, Returned False)] \<and> passed_threads b1 = Some [0, 1]
      \<and> (\<forall>es b2. ib_run es b1 = Some (Inr b2) \<longrightarrow> ib_phase b2 ! 1 = At_barrier)"
    using new run by (intro exI [of _ b] exI [of _ b1]) (simp add: b1_def passed_threads_def)
  show "\<forall>b t timed. 0 < ib_count b \<longrightarrow>
      enter_wait t timed (InterruptibleBarrier_reset b) = Inl Null_passed_threads"
    by (simp add: enter_wait_def InterruptibleBarrier_reset_def)
qed

section \<open>Deadlines\<close>

text \<open>
  The deadline of a relative wait is the current time plus the limit, and the system call accepts
  it exactly if the nanoseconds of both add up to less than two seconds; a limit given in more
  nanoseconds is refused, so that the wait ends with an exception.
\<close>

theorem deadline_correct:
  assumes "0 \<le> now_nsec" and "now_nsec < 1000000000" and "deadline now_sec now_nsec sec nanosec = Some (s, ns)"
  shows "s * 1000000000 + ns = (now_sec + uint sec) * 1000000000 + now_nsec + uint nanosec
    \<and> (ns < 1000000000 \<longleftrightarrow> now_nsec + uint nanosec < 2000000000)"
  using assms by (auto simp: deadline_def Let_def split: if_splits)

theorem deadline_correct_witness:
  "deadline 10 900000000 1 200000000 = Some (12, 100000000)
   \<and> 12 * 1000000000 + 100000000 = (10 + uint (1 :: 32 word)) * 1000000000 + 900000000 + uint (200000000 :: 32 word)
   \<and> deadline 10 900000000 0 2000000000 = Some (11, 1900000000)"
proof -
  have d: "deadline 10 900000000 1 200000000 = Some (12, 100000000)"
    "deadline 10 900000000 0 2000000000 = Some (11, 1900000000)"
    by (simp_all add: deadline_def Let_def)
  then show ?thesis using deadline_correct [OF _ _ d(1)] by simp
qed

text \<open>Two threads that meet once; after that thread 0 comes again.\<close>

definition demo_meeting :: "ib_event list" where
  "demo_meeting = [Enter 0 False, Spurious 0, Enter 1 False, Proceed 1, Wake 0 True, Proceed 0, Leave 0, Leave 1]"

lemma demo_barrier: "InterruptibleBarrier_new 2 2 = Inr
    \<lparr>ib_count = 2, ib_left = 0, ib_interrupted = False, ib_timeout = False, ib_at_barrier = False,
     ib_passed = Some [], ib_phase = [Outside, Outside], ib_signalled = [], ib_log = []\<rparr>"
  by (simp add: InterruptibleBarrier_new_def Barrier_new_def numeral_2_eq_2)

lemmas ib_defs = wake_all_def upt_conv_Cons enter_wait_def wait_loop_def leave_section_def set_phase_def wake_up_def after_section_def
  Barrier_wait_def ended_def

theorem barrier_threads_meet_witness:
  "\<exists>b b'. InterruptibleBarrier_new 2 2 = Inr b \<and> ib_run (demo_meeting @ [Enter 0 False]) b = Some (Inr b')
    \<and> ib_log b' = [(0, Returned True), (1, Returned True)] \<and> ib_phase b' = [In_loop False, Outside]
    \<and> calls 1 (demo_meeting @ [Enter 0 False]) \<le> calls 0 (demo_meeting @ [Enter 0 False])"
proof -
  define b where "b = \<lparr>ib_count = 2, ib_left = 0, ib_interrupted = False, ib_timeout = False, ib_at_barrier = False,
     ib_passed = Some [], ib_phase = [Outside, Outside], ib_signalled = [], ib_log = []\<rparr>"
  have run: "\<exists>b'. ib_run (demo_meeting @ [Enter 0 False]) b = Some (Inr b')
      \<and> ib_log b' = [(0, Returned True), (1, Returned True)] \<and> ib_phase b' = [In_loop False, Outside]"
    by (simp add: demo_meeting_def b_def ib_defs)
  then obtain b' where b': "ib_run (demo_meeting @ [Enter 0 False]) b = Some (Inr b')"
    "ib_log b' = [(0, Returned True), (1, Returned True)]" "ib_phase b' = [In_loop False, Outside]" by auto
  have "list_all calm (demo_meeting @ [Enter 0 False])" by (simp add: demo_meeting_def calm_def)
  from barrier_threads_meet [OF demo_barrier [folded b_def] this b'(1)]
  have "calls 1 (demo_meeting @ [Enter 0 False]) \<le> calls 0 (demo_meeting @ [Enter 0 False])"
    using b'(3) by auto
  then show ?thesis using b' demo_barrier [folded b_def] by blast
qed

theorem barrier_round_ends_witness:
  "\<exists>b b1 b2. InterruptibleBarrier_new 2 2 = Inr b \<and> ib_run [Enter 0 False, Enter 1 False] b = Some (Inr b1)
    \<and> ib_phase b1 = [In_loop False, Unlocked]
    \<and> ib_run [Wake 0 True, Proceed 1, Proceed 0, Leave 0] b1 = Some (Inr b2)
    \<and> \<not> (\<forall>e. goes_on e \<longrightarrow> ib_step e b2 = None)"
proof -
  define b where "b = \<lparr>ib_count = 2, ib_left = 0, ib_interrupted = False, ib_timeout = False, ib_at_barrier = False,
     ib_passed = Some [], ib_phase = [Outside, Outside], ib_signalled = [], ib_log = []\<rparr>"
  have "\<exists>b1 b2. ib_run [Enter 0 False, Enter 1 False] b = Some (Inr b1) \<and> ib_phase b1 = [In_loop False, Unlocked]
      \<and> ib_run [Wake 0 True, Proceed 1, Proceed 0, Leave 0] b1 = Some (Inr b2) \<and> ib_phase b2 ! 1 = Passed"
    by (simp add: b_def ib_defs)
  then obtain b1 b2 where b1: "ib_run [Enter 0 False, Enter 1 False] b = Some (Inr b1)"
    "ib_phase b1 = [In_loop False, Unlocked]"
    and b2: "ib_run [Wake 0 True, Proceed 1, Proceed 0, Leave 0] b1 = Some (Inr b2)" "ib_phase b2 ! 1 = Passed"
    by auto
  have calm: "list_all calm [Enter 0 False, Enter 1 False]"
    "list_all calm [Wake 0 True, Proceed 1, Proceed 0, Leave 0]"
    by (simp_all add: calm_def)
  have "\<forall>t < 2. calls t [Enter 0 False, Enter 1 False] = 1"
    "\<forall>t. calls t [Wake 0 True, Proceed 1, Proceed 0, Leave 0] = 0"
    by (auto simp: calls_def less_2_cases_iff)
  from barrier_round_ends [OF demo_barrier [folded b_def] calm(1) b1(1) this(1) calm(2) this(2) b2(1)]
  have "\<not> (\<forall>e. goes_on e \<longrightarrow> ib_step e b2 = None)" using b2(2) by fastforce
  then show ?thesis using b1 b2 demo_barrier [folded b_def] by blast
qed

text \<open>The limit that strands a thread: with no other event than the two calls and the time limit.\<close>

theorem barrier_strands_witness:
  "\<exists>b b1 b2. InterruptibleBarrier_new 2 2 = Inr b \<and> ib_run late_timeout b = Some (Inr b1)
    \<and> ib_run [Enter 0 True, Wake 0 False, Proceed 0] b1 = Some (Inr b2) \<and> ib_phase b2 ! 1 = At_barrier"
proof -
  obtain b b1 where b: "InterruptibleBarrier_new 2 2 = Inr b" "ib_run late_timeout b = Some (Inr b1)"
    and st: "\<And>es b2. ib_run es b1 = Some (Inr b2) \<Longrightarrow> ib_phase b2 ! 1 = At_barrier"
    using barrier_strands_and_breaks by blast
  have be: "b = \<lparr>ib_count = 2, ib_left = 0, ib_interrupted = False, ib_timeout = False, ib_at_barrier = False,
     ib_passed = Some [], ib_phase = [Outside, Outside], ib_signalled = [], ib_log = []\<rparr>"
    using b(1) unfolding demo_barrier by simp
  have "b1 = \<lparr>ib_count = 2, ib_left = 0, ib_interrupted = False, ib_timeout = True, ib_at_barrier = False,
    ib_passed = Some [0, 1], ib_phase = [Outside, At_barrier], ib_signalled = [], ib_log = [(0, Returned False)]\<rparr>"
    using b(2) unfolding be by (simp add: late_timeout_def ib_defs)
  then have "\<exists>b2. ib_run [Enter 0 True, Wake 0 False, Proceed 0] b1 = Some (Inr b2)" by (simp add: ib_defs)
  then show ?thesis using b st by blast
qed

end
