(* ===== verification/Threads.thy ===== *)
theory Threads
  imports Main "HOL-Library.Word"
begin

unbundle bit_operations_syntax

text \<open>
  \<open>libs/core/threading/thread.cpp\<close>: a thread object, the operations other threads call on it, and the
  main loop \<open>Thread::run\<close> of the thread itself. The loop is cut at the points where it gives up a
  mutex or waits, so that the calls of other threads can come in between.
\<close>

section \<open>The thread object\<close>

datatype op_mode =
    OPMODE_CONTINUOUS
  | OPMODE_WAITFORWAKEUP

text \<open>
  Where the thread is: not running, in \<open>entry\<close>, waiting for its wake-up, before an iteration of the loop,
  in \<open>loop()\<close> with the loop mutex, after it, at the barrier, before it goes to sleep, or ended but not
  joined.
\<close>

datatype place =
    Not_running
  | In_entry
  | Sleeping
  | Ready
  | Looping
  | Looped
  | At_barrier_of nat
  | To_sleep
  | Ended

datatype thread_error =
    Started_twice
  | Cannot_start int
  | Running_opmode
  | Not_started
  | Already_prepared
  | Hold_too_late
  | Runs_with_barrier
  | Null_barrier
  | Null_mutex
  | Copied
  | No_thread_key
  | Not_main_thread

record thread =
  th_op_mode :: op_mode
  th_started :: bool
  th_cancelled :: bool
  th_detached :: bool
  th_wait :: bool
  th_delete_on_exit :: bool
  th_pending_wakeups :: "32 word"
  th_waiting_for_wakeup :: bool
  th_barrier :: "nat option"
  th_coalesce_wakeups :: bool
  th_loop_done :: bool
  th_prepfin_hold :: bool
  th_prepfin_conc_loop :: bool
  th_finalize_prepared :: bool
  th_flags :: "32 word"
  th_listeners :: "nat list"
  th_place :: place
  th_notified :: bool
  th_iterations :: nat

text \<open>
  The constructor. \<open>th_notified\<close>: the condition has been signalled since the thread went to sleep;
  \<open>th_iterations\<close>: how often \<open>loop()\<close> has been called. Both are only observed.
\<close>

definition Thread_new :: "op_mode \<Rightarrow> thread" where
  "Thread_new m =
     \<lparr>th_op_mode = m, th_started = False, th_cancelled = False, th_detached = False, th_wait = False,
      th_delete_on_exit = False, th_pending_wakeups = 0, th_waiting_for_wakeup = (m = OPMODE_WAITFORWAKEUP),
      th_barrier = None, th_coalesce_wakeups = False, th_loop_done = True, th_prepfin_hold = False,
      th_prepfin_conc_loop = False, th_finalize_prepared = False, th_flags = 0, th_listeners = [],
      th_place = Not_running, th_notified = False, th_iterations = 0\<rparr>"

text \<open>A copy is refused.\<close>

definition Thread_copy :: "thread \<Rightarrow> thread_error + thread" where
  "Thread_copy t = Inl Copied"

section \<open>Flags\<close>

definition FLAG_BAD :: "32 word" where
  "FLAG_BAD = 1"

definition set_flag :: "32 word \<Rightarrow> thread \<Rightarrow> thread" where
  "set_flag f t = t\<lparr>th_flags := th_flags t OR f\<rparr>"

definition unset_flag :: "32 word \<Rightarrow> thread \<Rightarrow> thread" where
  "unset_flag f t = t\<lparr>th_flags := th_flags t AND (0xFFFFFFFF XOR f)\<rparr>"

definition set_flags :: "32 word \<Rightarrow> thread \<Rightarrow> thread" where
  "set_flags f t = t\<lparr>th_flags := f\<rparr>"

definition flagged_bad :: "thread \<Rightarrow> bool" where
  "flagged_bad t \<longleftrightarrow> th_flags t AND FLAG_BAD \<noteq> 0"

section \<open>Settings and queries\<close>

text \<open>An operation that can throw returns the exception, if any, with the state it leaves.\<close>

definition set_opmode :: "op_mode \<Rightarrow> thread \<Rightarrow> thread_error option \<times> thread" where
  "set_opmode m t = (if th_started t then (Some Running_opmode, t) else (None, t\<lparr>th_op_mode := m\<rparr>))"

definition set_prepfin_conc_loop :: "bool \<Rightarrow> thread \<Rightarrow> thread" where
  "set_prepfin_conc_loop c t = t\<lparr>th_prepfin_conc_loop := c\<rparr>"

definition set_coalesce_wakeups :: "bool \<Rightarrow> thread \<Rightarrow> thread" where
  "set_coalesce_wakeups c t = t\<lparr>th_coalesce_wakeups := c\<rparr>"

definition set_delete_on_exit :: "bool \<Rightarrow> thread \<Rightarrow> thread" where
  "set_delete_on_exit d t = t\<lparr>th_delete_on_exit := d\<rparr>"

definition set_prepfin_hold :: "bool \<Rightarrow> thread \<Rightarrow> thread_error option \<times> thread" where
  "set_prepfin_hold hold t =
     (if hold \<and> th_finalize_prepared t then (Some Hold_too_late, t) else (None, t\<lparr>th_prepfin_hold := hold\<rparr>))"

text \<open>The loop mutex is held in \<open>loop()\<close> only; a thread that waits in it is running.\<close>

definition running :: "thread \<Rightarrow> bool" where
  "running t \<longleftrightarrow> th_place t = Looping"

definition waiting :: "thread \<Rightarrow> bool" where
  "waiting t \<longleftrightarrow> th_op_mode t = OPMODE_WAITFORWAKEUP \<and> th_waiting_for_wakeup t"

text \<open>A thread in continuous mode has no sleep mutex.\<close>

definition wakeup_pending :: "thread \<Rightarrow> thread_error + bool" where
  "wakeup_pending t = (if th_op_mode t = OPMODE_CONTINUOUS then Inl Null_mutex else Inr (0 < th_pending_wakeups t))"

section \<open>Waking up\<close>

definition wake_sleeper :: "thread \<Rightarrow> thread" where
  "wake_sleeper t =
     (if th_waiting_for_wakeup t
      then t\<lparr>th_waiting_for_wakeup := False, th_notified := (th_notified t \<or> th_place t = Sleeping)\<rparr>
      else t)"

definition wakeup :: "thread \<Rightarrow> thread_error option \<times> thread" where
  "wakeup t =
     (if th_op_mode t \<noteq> OPMODE_WAITFORWAKEUP then (None, t)
      else if th_barrier t \<noteq> None then (Some Runs_with_barrier, t)
      else (None, wake_sleeper (t\<lparr>th_pending_wakeups :=
        (if th_coalesce_wakeups t then 1 else th_pending_wakeups t + 1)\<rparr>)))"

definition wakeup_barrier :: "nat option \<Rightarrow> thread \<Rightarrow> thread_error option \<times> thread" where
  "wakeup_barrier b t =
     (if th_op_mode t \<noteq> OPMODE_WAITFORWAKEUP then (None, t)
      else if b = None then (Some Null_barrier, t)
      else if \<not> th_waiting_for_wakeup t \<and> th_barrier t \<noteq> None then (Some Runs_with_barrier, t)
      else (None, wake_sleeper (t\<lparr>th_pending_wakeups := th_pending_wakeups t + 1, th_barrier := b\<rparr>)))"

section \<open>Start and end\<close>

text \<open>\<open>err\<close>: the result of \<open>pthread_create\<close> or \<open>pthread_cancel\<close>.\<close>

definition Thread_start :: "bool \<Rightarrow> int \<Rightarrow> thread \<Rightarrow> thread_error option \<times> thread" where
  "Thread_start wait err t =
     (if th_started t then (Some Started_twice, t)
      else let t = t\<lparr>th_cancelled := False, th_detached := False, th_started := True, th_wait := wait\<rparr>
           in if err \<noteq> 0 then (Some (Cannot_start err), t) else (None, t\<lparr>th_place := In_entry\<rparr>))"

definition Thread_cancel :: "int \<Rightarrow> thread \<Rightarrow> thread" where
  "Thread_cancel err t =
     (if th_started t \<and> \<not> th_cancelled t \<and> err = 0 then t\<lparr>th_cancelled := True\<rparr> else t)"

definition Thread_detach :: "thread \<Rightarrow> thread" where
  "Thread_detach t = t\<lparr>th_detached := True\<rparr>"

text \<open>\<open>None\<close>: the call waits.\<close>

definition Thread_join :: "thread \<Rightarrow> thread option" where
  "Thread_join t =
     (if \<not> th_started t then Some t
      else if th_place t = Ended then Some (t\<lparr>th_started := False, th_place := Not_running\<rparr>)
      else None)"

text \<open>
  \<open>prepare_finalize\<close> waits while it is held back, and for the loop mutex unless it may run beside the
  loop; \<open>user\<close> is the result of \<open>prepare_finalize_user\<close>.
\<close>

definition prepare_finalize :: "bool \<Rightarrow> thread \<Rightarrow> ((thread_error + bool) \<times> thread) option" where
  "prepare_finalize user t =
     (if \<not> th_started t then Some (Inl Not_started, t)
      else if th_finalize_prepared t then Some (Inl Already_prepared, t)
      else if th_prepfin_hold t then None
      else if \<not> th_prepfin_conc_loop t \<and> running t then None
      else Some (Inr user, t\<lparr>th_finalize_prepared := True\<rparr>))"

definition cancel_finalize :: "thread \<Rightarrow> (thread_error option \<times> thread) option" where
  "cancel_finalize t =
     (if \<not> th_started t then Some (Some Not_started, t)
      else if running t then None
      else Some (None, t\<lparr>th_finalize_prepared := False\<rparr>))"

definition wait_loop_done :: "thread \<Rightarrow> thread option" where
  "wait_loop_done t = (if th_loop_done t then Some t else None)"

section \<open>The loop of the thread\<close>

text \<open>Under the sleep mutex: sleep until a wake-up is pending, and take it.\<close>

definition sleep_check :: "thread \<Rightarrow> thread" where
  "sleep_check t =
     (if th_pending_wakeups t = 0 then t\<lparr>th_waiting_for_wakeup := True, th_notified := False, th_place := Sleeping\<rparr>
      else t\<lparr>th_pending_wakeups := th_pending_wakeups t - 1, th_place := Ready\<rparr>)"

text \<open>\<open>entry\<close> up to the loop, \<open>once()\<close> included; the sleep mutex is held throughout.\<close>

definition run_begin :: "thread \<Rightarrow> thread" where
  "run_begin t = (if th_op_mode t = OPMODE_WAITFORWAKEUP then sleep_check t else t\<lparr>th_place := Ready\<rparr>)"

definition loop_begin :: "thread \<Rightarrow> thread" where
  "loop_begin t =
     (if th_finalize_prepared t then t\<lparr>th_loop_done := True, th_place := Looped\<rparr>
      else t\<lparr>th_loop_done := False, th_iterations := th_iterations t + 1, th_place := Looping\<rparr>)"

definition loop_end :: "thread \<Rightarrow> thread" where
  "loop_end t = t\<lparr>th_loop_done := True, th_place := Looped\<rparr>"

definition after_loop :: "thread \<Rightarrow> thread" where
  "after_loop t =
     (if th_op_mode t = OPMODE_WAITFORWAKEUP
      then case th_barrier t of
             Some b \<Rightarrow> t\<lparr>th_barrier := None, th_place := At_barrier_of b\<rparr>
           | None \<Rightarrow> t\<lparr>th_place := To_sleep\<rparr>
      else t\<lparr>th_place := Ready\<rparr>)"

text \<open>The thread ends: by \<open>exit\<close> in its loop, or where it can be cancelled.\<close>

definition thread_exit :: "thread \<Rightarrow> thread" where
  "thread_exit t = t\<lparr>th_cancelled := True, th_place := Ended\<rparr>"

definition can_be_cancelled :: "place \<Rightarrow> bool" where
  "can_be_cancelled p \<longleftrightarrow> p \<notin> {Not_running, Ended, In_entry}"

section \<open>Interleavings\<close>

datatype thread_event =
    Run
  | Wake_up
  | Begin
  | Finish
  | Go_on
  | Barrier_passed
  | Go_to_sleep
  | Exit
  | Cancelled
  | Call_wakeup
  | Call_wakeup_barrier "nat option"
  | Call_start bool int
  | Call_cancel int
  | Call_join
  | Call_prepare_finalize bool
  | Call_cancel_finalize
  | Call_set_prepfin_hold bool
  | Call_set_coalesce bool
  | Call_set_opmode op_mode

fun th_step :: "thread_event \<Rightarrow> thread \<Rightarrow> thread option" where
  "th_step Run t = (if th_place t = In_entry then Some (run_begin t) else None)"
| "th_step Wake_up t = (if th_place t = Sleeping then Some (sleep_check t) else None)"
| "th_step Begin t = (if th_place t = Ready then Some (loop_begin t) else None)"
| "th_step Finish t = (if th_place t = Looping then Some (loop_end t) else None)"
| "th_step Go_on t = (if th_place t = Looped then Some (after_loop t) else None)"
| "th_step Barrier_passed t =
     (case th_place t of At_barrier_of _ \<Rightarrow> Some (t\<lparr>th_place := To_sleep\<rparr>) | _ \<Rightarrow> None)"
| "th_step Go_to_sleep t = (if th_place t = To_sleep then Some (sleep_check t) else None)"
| "th_step Exit t = (if th_place t = Looping then Some (thread_exit t) else None)"
| "th_step Cancelled t =
     (if th_cancelled t \<and> can_be_cancelled (th_place t) then Some (t\<lparr>th_place := Ended\<rparr>) else None)"
| "th_step Call_wakeup t = Some (snd (wakeup t))"
| "th_step (Call_wakeup_barrier b) t = Some (snd (wakeup_barrier b t))"
| "th_step (Call_start w err) t = Some (snd (Thread_start w err t))"
| "th_step (Call_cancel err) t = Some (Thread_cancel err t)"
| "th_step Call_join t = Thread_join t"
| "th_step (Call_prepare_finalize u) t = map_option snd (prepare_finalize u t)"
| "th_step Call_cancel_finalize t = map_option snd (cancel_finalize t)"
| "th_step (Call_set_prepfin_hold h) t = Some (snd (set_prepfin_hold h t))"
| "th_step (Call_set_coalesce c) t = Some (set_coalesce_wakeups c t)"
| "th_step (Call_set_opmode m) t = Some (snd (set_opmode m t))"

fun th_run :: "thread_event list \<Rightarrow> thread \<Rightarrow> thread option" where
  "th_run [] t = Some t"
| "th_run (e # es) t = Option.bind (th_step e t) (th_run es)"

section \<open>No wake-up is lost\<close>

text \<open>
  A thread that sleeps without a signal has no wake-up pending; one that is marked as waiting does
  not run and has none pending either.
\<close>

definition sleep_ok :: "thread \<Rightarrow> bool" where
  "sleep_ok t \<longleftrightarrow> (th_place t = Sleeping \<longrightarrow> th_notified t \<or> th_waiting_for_wakeup t)
     \<and> (th_waiting_for_wakeup t \<longrightarrow> th_pending_wakeups t = 0)
     \<and> (waiting t \<longrightarrow> th_place t \<in> {Sleeping, Not_running, In_entry, Ended})
     \<and> (th_place t \<noteq> Not_running \<longrightarrow> th_started t)"

lemmas thread_ops = wakeup_def wakeup_barrier_def wake_sleeper_def Thread_start_def Thread_cancel_def Thread_join_def
  prepare_finalize_def cancel_finalize_def set_prepfin_hold_def set_coalesce_wakeups_def set_opmode_def
  sleep_check_def run_begin_def loop_begin_def loop_end_def after_loop_def thread_exit_def can_be_cancelled_def
  waiting_def Let_def

lemma sleep_ok_sleep_check: "sleep_ok t \<Longrightarrow> th_place t \<noteq> Not_running \<Longrightarrow> sleep_ok (sleep_check t)"
  by (auto simp: sleep_ok_def sleep_check_def waiting_def)

lemma sleep_ok_wake_sleeper:
  "sleep_ok t \<Longrightarrow> sleep_ok (wake_sleeper (t\<lparr>th_pending_wakeups := n, th_barrier := b\<rparr>))"
  by (auto simp: sleep_ok_def wake_sleeper_def waiting_def)

lemma sleep_ok_wake_sleeper': "sleep_ok t \<Longrightarrow> sleep_ok (wake_sleeper (t\<lparr>th_pending_wakeups := n\<rparr>))"
  using sleep_ok_wake_sleeper [of t _ n] by (auto simp: sleep_ok_def wake_sleeper_def waiting_def)

lemma sleep_ok_run_begin: "sleep_ok t \<Longrightarrow> th_place t = In_entry \<Longrightarrow> sleep_ok (run_begin t)"
  using sleep_ok_sleep_check [of t] by (auto simp: run_begin_def) (simp add: sleep_ok_def waiting_def)

text \<open>The settings do not matter to it, and neither do the events that leave the sleep alone.\<close>

lemma sleep_ok_fields [simp]:
  "sleep_ok (t\<lparr>th_prepfin_hold := h\<rparr>) \<longleftrightarrow> sleep_ok t"
  "sleep_ok (t\<lparr>th_coalesce_wakeups := h\<rparr>) \<longleftrightarrow> sleep_ok t"
  "sleep_ok (t\<lparr>th_finalize_prepared := h\<rparr>) \<longleftrightarrow> sleep_ok t"
  "sleep_ok (t\<lparr>th_cancelled := h\<rparr>) \<longleftrightarrow> sleep_ok t"
  by (simp_all add: sleep_ok_def waiting_def)

lemma sleep_ok_loop:
  "sleep_ok t \<Longrightarrow> th_place t = Ready \<Longrightarrow> sleep_ok (loop_begin t)"
  "sleep_ok t \<Longrightarrow> th_place t = Looping \<Longrightarrow> sleep_ok (loop_end t)"
  "sleep_ok t \<Longrightarrow> th_place t = Looping \<Longrightarrow> sleep_ok (thread_exit t)"
  "sleep_ok t \<Longrightarrow> th_place t = Looped \<Longrightarrow> sleep_ok (after_loop t)"
  "sleep_ok t \<Longrightarrow> th_place t = At_barrier_of b \<Longrightarrow> sleep_ok (t\<lparr>th_place := To_sleep\<rparr>)"
  "sleep_ok t \<Longrightarrow> th_place t \<noteq> Not_running \<Longrightarrow> sleep_ok (t\<lparr>th_place := Ended\<rparr>)"
  by (auto simp: sleep_ok_def loop_begin_def loop_end_def thread_exit_def after_loop_def waiting_def split: option.splits)

lemma sleep_ok_life:
  "sleep_ok t \<Longrightarrow> sleep_ok (snd (Thread_start w err t))"
  "sleep_ok t \<Longrightarrow> Thread_join t = Some t' \<Longrightarrow> sleep_ok t'"
  "sleep_ok t \<Longrightarrow> sleep_ok (snd (set_opmode m t))"
  by (auto simp: sleep_ok_def Thread_start_def Thread_join_def set_opmode_def waiting_def Let_def split: if_splits)

lemmas sleep_ok_intros = sleep_ok_sleep_check sleep_ok_run_begin sleep_ok_wake_sleeper sleep_ok_wake_sleeper' sleep_ok_loop sleep_ok_life

lemma sleep_ok_step:
  assumes "sleep_ok t" and "th_step e t = Some t'"
  shows "sleep_ok t'"
  using assms
  by (cases e) (auto simp: sleep_ok_intros wakeup_def wakeup_barrier_def Thread_cancel_def prepare_finalize_def
    cancel_finalize_def set_prepfin_hold_def set_coalesce_wakeups_def can_be_cancelled_def split: if_splits place.splits)

lemma sleep_ok_run: "sleep_ok t \<Longrightarrow> th_run es t = Some t' \<Longrightarrow> sleep_ok t'"
  by (induction es arbitrary: t) (auto simp: bind_eq_Some_conv dest: sleep_ok_step)

lemma sleep_ok_new: "sleep_ok (Thread_new m)"
  by (simp add: sleep_ok_def Thread_new_def waiting_def)

text \<open>
  C35 In every interleaving, a thread that sleeps while a wake-up is pending has been signalled since
  it went to sleep, so no wake-up is lost; and a thread that says it is waiting is not in its
  loop and not at a barrier, and has no wake-up pending.
\<close>

theorem thread_wakeup_not_lost:
  assumes "th_run es (Thread_new m) = Some t"
  shows "(th_place t = Sleeping \<and> th_pending_wakeups t \<noteq> 0 \<longrightarrow> th_notified t)
    \<and> (waiting t \<longrightarrow> th_place t \<in> {Sleeping, Not_running, In_entry, Ended} \<and> th_pending_wakeups t = 0)"
  using sleep_ok_run [OF sleep_ok_new assms] by (auto simp: sleep_ok_def waiting_def)

text \<open>How many wake-ups a run accepts.\<close>

definition accepts :: "thread_event \<Rightarrow> thread \<Rightarrow> nat" where
  "accepts e t =
     (case e of
        Call_wakeup \<Rightarrow> if fst (wakeup t) = None then 1 else 0
      | Call_wakeup_barrier b \<Rightarrow> if fst (wakeup_barrier b t) = None then 1 else 0
      | _ \<Rightarrow> 0)"

fun accepted :: "thread_event list \<Rightarrow> thread \<Rightarrow> nat" where
  "accepted [] t = 0"
| "accepted (e # es) t = accepts e t + (case th_step e t of None \<Rightarrow> 0 | Some t' \<Rightarrow> accepted es t')"

text \<open>Events that neither merge wake-ups nor stop the thread or its loop.\<close>

definition undisturbed :: "thread_event \<Rightarrow> bool" where
  "undisturbed e \<longleftrightarrow> (case e of
     Call_set_coalesce _ \<Rightarrow> False | Call_set_opmode _ \<Rightarrow> False | Call_cancel _ \<Rightarrow> False | Call_prepare_finalize _ \<Rightarrow> False
   | _ \<Rightarrow> True)"

text \<open>Every wake-up that has been taken is an iteration that has begun or is about to begin.\<close>

definition taken :: "thread \<Rightarrow> nat" where
  "taken t = th_iterations t + (if th_place t = Ready then 1 else 0)"

definition plain :: "thread \<Rightarrow> bool" where
  "plain t \<longleftrightarrow> th_op_mode t = OPMODE_WAITFORWAKEUP \<and> \<not> th_coalesce_wakeups t \<and> \<not> th_finalize_prepared t
     \<and> (th_cancelled t \<longrightarrow> th_place t \<in> {Ended, Not_running}) \<and> (th_place t \<noteq> Not_running \<longrightarrow> th_started t)"

lemma plain_step:
  assumes "plain t" and "undisturbed e" and "th_step e t = Some t'"
  shows "plain t'"
  using assms by (cases e) (auto simp: plain_def undisturbed_def thread_ops split: if_splits option.splits place.splits)

lemma unat_plus_1: "unat (w :: 32 word) + 1 < 2 ^ 32 \<Longrightarrow> unat (w + 1) = unat w + 1"
  by (simp add: unat_word_ariths)

lemma unat_minus_1: "(w :: 32 word) \<noteq> 0 \<Longrightarrow> unat (w - 1) + 1 = unat w"
  by (metis Suc_eq_plus1 Suc_pred' unat_gt_0 unat_minus_one)

lemma taken_step:
  assumes "plain t" and "undisturbed e" and "th_step e t = Some t'"
    and "unat (th_pending_wakeups t) + accepts e t < 2 ^ 32"
  shows "taken t' + unat (th_pending_wakeups t') = taken t + unat (th_pending_wakeups t) + accepts e t"
proof (cases e)
  case Wake_up
  then show ?thesis
    using assms unat_minus_1 [of "th_pending_wakeups t"] by (auto simp: accepts_def taken_def sleep_check_def split: if_splits)
next
  case Go_to_sleep
  then show ?thesis
    using assms unat_minus_1 [of "th_pending_wakeups t"] by (auto simp: accepts_def taken_def sleep_check_def split: if_splits)
next
  case Run
  then show ?thesis
    using assms unat_minus_1 [of "th_pending_wakeups t"]
    by (auto simp: accepts_def taken_def sleep_check_def run_begin_def plain_def split: if_splits)
next
  case Call_wakeup
  then show ?thesis
    using assms unat_plus_1 [of "th_pending_wakeups t"]
    by (auto simp: accepts_def taken_def wakeup_def wake_sleeper_def plain_def split: if_splits)
next
  case (Call_wakeup_barrier b)
  then show ?thesis
    using assms unat_plus_1 [of "th_pending_wakeups t"]
    by (auto simp: accepts_def taken_def wakeup_barrier_def wake_sleeper_def plain_def split: if_splits)
qed (use assms in \<open>auto simp: accepts_def taken_def plain_def undisturbed_def thread_ops
    split: if_splits option.splits place.splits\<close>)

lemma taken_run:
  assumes "plain t" and "list_all undisturbed es" and "th_run es t = Some t'"
    and "taken t + unat (th_pending_wakeups t) + accepted es t < 2 ^ 32"
  shows "taken t' + unat (th_pending_wakeups t') = taken t + unat (th_pending_wakeups t) + accepted es t"
  using assms
proof (induction es arbitrary: t)
  case (Cons e es)
  obtain t1 where t1: "th_step e t = Some t1" "th_run es t1 = Some t'"
    using Cons.prems(3) by (auto simp: bind_eq_Some_conv)
  have u: "undisturbed e" "list_all undisturbed es" using Cons.prems(2) by simp_all
  have "taken t1 + unat (th_pending_wakeups t1) = taken t + unat (th_pending_wakeups t) + accepts e t"
    using taken_step [OF Cons.prems(1) u(1) t1(1)] Cons.prems(4) by simp
  then show ?case
    using Cons.IH [OF plain_step [OF Cons.prems(1) u(1) t1(1)] u(2) t1(2)] Cons.prems(4) t1(1) by simp
qed simp

text \<open>
  While wake-ups are not merged and the thread is neither cancelled nor finalized, every accepted
  wake-up, with or without a barrier, is pending or has led to exactly one iteration of the loop.
\<close>

theorem thread_wakeups_counted:
  assumes "th_run es (Thread_new OPMODE_WAITFORWAKEUP) = Some t" and "list_all undisturbed es"
    and "accepted es (Thread_new OPMODE_WAITFORWAKEUP) < 2 ^ 32"
  shows "th_iterations t + (if th_place t = Ready then 1 else 0) + unat (th_pending_wakeups t)
    = accepted es (Thread_new OPMODE_WAITFORWAKEUP)"
  using taken_run [OF _ assms(2,1)] assms(3) by (simp add: plain_def taken_def Thread_new_def)

section \<open>Finalization\<close>

lemma prepared_step:
  assumes "th_finalize_prepared t" and "e \<noteq> Call_cancel_finalize" and "th_step e t = Some t'"
  shows "th_finalize_prepared t' \<and> th_iterations t' = th_iterations t \<and> (th_place t' = Looping \<longrightarrow> th_place t = Looping)"
  using assms by (cases e) (auto simp: thread_ops split: if_splits option.splits place.splits)

text \<open>
  After \<open>prepare_finalize\<close> has returned and until \<open>cancel_finalize\<close>, no iteration of the loop begins,
  whatever is called; and unless the preparation may run beside the loop, none is in progress.
\<close>

theorem finalized_thread_never_loops:
  assumes "prepare_finalize u t = Some (Inr r, t1)" and "th_run es t1 = Some t2" and "Call_cancel_finalize \<notin> set es"
  shows "th_iterations t2 = th_iterations t \<and> (th_prepfin_conc_loop t \<or> th_place t2 \<noteq> Looping)"
proof -
  have t1: "th_finalize_prepared t1" "th_iterations t1 = th_iterations t" "th_prepfin_conc_loop t \<or> th_place t1 \<noteq> Looping"
    using assms(1) by (auto simp: prepare_finalize_def running_def split: if_splits)
  have "th_iterations t2 = th_iterations t1 \<and> (th_place t2 = Looping \<longrightarrow> th_place t1 = Looping)"
    using t1(1) assms(2,3)
  proof (induction es arbitrary: t1)
    case (Cons e es)
    then obtain t where t: "th_step e t1 = Some t" "th_run es t = Some t2" by (auto simp: bind_eq_Some_conv)
    then show ?case using prepared_step [OF Cons.prems(1) _ t(1)] Cons.IH [of t] Cons.prems(3) by auto
  qed simp
  then show ?thesis using t1 by auto
qed

section \<open>A round with a barrier\<close>

text \<open>
  A thread that waits for its wake-up and is woken with a barrier runs its loop once and then waits
  at this barrier, and after it waits for the next wake-up. A thread that is still in its loop accepts
  such a call too, and then waits at the barrier without having begun an iteration for it.
\<close>

theorem thread_barrier_round:
  assumes "waiting t" and "th_place t = Sleeping" and "th_pending_wakeups t = 0" and "\<not> th_finalize_prepared t"
  shows "\<exists>t1 t2 t3. th_run [Call_wakeup_barrier (Some b), Wake_up, Begin, Finish, Go_on] t = Some t1
    \<and> th_place t1 = At_barrier_of b \<and> th_iterations t1 = Suc (th_iterations t) \<and> \<not> waiting t1
    \<and> th_run [Barrier_passed, Go_to_sleep] t1 = Some t2 \<and> waiting t2 \<and> th_place t2 = Sleeping \<and> th_barrier t2 = None
    \<and> th_run [Call_wakeup, Wake_up, Begin, Call_wakeup_barrier (Some b), Finish, Go_on] t2 = Some t3
    \<and> th_place t3 = At_barrier_of b \<and> th_pending_wakeups t3 = 1 \<and> th_iterations t3 = Suc (th_iterations t1)"
  using assms by (simp add: thread_ops)

section \<open>Examples\<close>

text \<open>A thread that has been started and sleeps.\<close>

definition demo_sleeper :: thread where
  "demo_sleeper =
     \<lparr>th_op_mode = OPMODE_WAITFORWAKEUP, th_started = True, th_cancelled = False, th_detached = False, th_wait = True,
      th_delete_on_exit = False, th_pending_wakeups = 0, th_waiting_for_wakeup = True,
      th_barrier = None, th_coalesce_wakeups = False, th_loop_done = True, th_prepfin_hold = False,
      th_prepfin_conc_loop = False, th_finalize_prepared = False, th_flags = 0, th_listeners = [],
      th_place = Sleeping, th_notified = False, th_iterations = 0\<rparr>"

lemma demo_sleeper_run: "th_run (Call_start True 0 # Run # es) (Thread_new OPMODE_WAITFORWAKEUP) = th_run es demo_sleeper"
  by (simp add: Thread_new_def Thread_start_def run_begin_def sleep_check_def demo_sleeper_def)

theorem thread_wakeup_not_lost_witness:
  "\<exists>t. th_run [Call_start True 0, Run, Call_wakeup] (Thread_new OPMODE_WAITFORWAKEUP) = Some t
    \<and> th_place t = Sleeping \<and> th_pending_wakeups t = 1 \<and> th_notified t"
proof -
  define t where "t = snd (wakeup demo_sleeper)"
  have r: "th_run [Call_start True 0, Run, Call_wakeup] (Thread_new OPMODE_WAITFORWAKEUP) = Some t"
    by (simp only: demo_sleeper_run) (simp add: t_def)
  have "th_place t = Sleeping" "th_pending_wakeups t = 1"
    by (simp_all add: t_def wakeup_def wake_sleeper_def demo_sleeper_def)
  then show ?thesis using thread_wakeup_not_lost [OF r] r by auto
qed

definition demo_events :: "thread_event list" where
  "demo_events = [Call_start True 0, Run, Call_wakeup, Call_wakeup_barrier (Some 7), Wake_up, Begin, Finish, Go_on]"

theorem thread_wakeups_counted_witness:
  "\<exists>t. th_run demo_events (Thread_new OPMODE_WAITFORWAKEUP) = Some t
    \<and> accepted demo_events (Thread_new OPMODE_WAITFORWAKEUP) = 2 \<and> th_place t = At_barrier_of 7
    \<and> th_iterations t + unat (th_pending_wakeups t) = 2"
proof -
  have "list_all undisturbed demo_events" by (simp add: demo_events_def undisturbed_def)
  moreover have a: "accepted demo_events (Thread_new OPMODE_WAITFORWAKEUP) = 2"
    by (simp add: demo_events_def accepts_def Thread_new_def thread_ops)
  moreover have "\<exists>t. th_run demo_events (Thread_new OPMODE_WAITFORWAKEUP) = Some t \<and> th_place t = At_barrier_of 7"
    by (simp add: demo_events_def Thread_new_def thread_ops)
  then obtain t where t: "th_run demo_events (Thread_new OPMODE_WAITFORWAKEUP) = Some t" "th_place t = At_barrier_of 7"
    by blast
  ultimately show ?thesis using thread_wakeups_counted [OF t(1)] by auto
qed

theorem finalized_thread_never_loops_witness:
  "\<exists>t1 t2. prepare_finalize True demo_sleeper = Some (Inr True, t1) \<and> th_run [Call_wakeup, Wake_up, Begin] t1 = Some t2
    \<and> th_place t2 = Looped \<and> th_iterations t2 = 0"
proof -
  obtain t1 where p: "prepare_finalize True demo_sleeper = Some (Inr True, t1)" "t1 = demo_sleeper\<lparr>th_finalize_prepared := True\<rparr>"
    by (simp add: prepare_finalize_def demo_sleeper_def running_def)
  obtain t2 where t2: "th_run [Call_wakeup, Wake_up, Begin] t1 = Some t2" "th_place t2 = Looped"
    by (simp add: p(2) demo_sleeper_def thread_ops)
  have "th_iterations t2 = th_iterations demo_sleeper"
    using finalized_thread_never_loops [OF p(1) t2(1)] by simp
  then show ?thesis using p(1) t2 by (simp add: demo_sleeper_def)
qed

theorem thread_barrier_round_witness:
  "waiting demo_sleeper \<and> (\<exists>t1 t2 t3. th_run [Call_wakeup_barrier (Some 7), Wake_up, Begin, Finish, Go_on] demo_sleeper = Some t1
    \<and> th_place t1 = At_barrier_of 7 \<and> th_iterations t1 = Suc 0
    \<and> th_run [Barrier_passed, Go_to_sleep] t1 = Some t2 \<and> waiting t2
    \<and> th_run [Call_wakeup, Wake_up, Begin, Call_wakeup_barrier (Some 7), Finish, Go_on] t2 = Some t3
    \<and> th_place t3 = At_barrier_of 7 \<and> th_pending_wakeups t3 = 1)"
proof -
  have d: "waiting demo_sleeper" "th_place demo_sleeper = Sleeping" "th_pending_wakeups demo_sleeper = 0"
    "\<not> th_finalize_prepared demo_sleeper" "th_iterations demo_sleeper = 0"
    by (simp_all add: demo_sleeper_def waiting_def)
  show ?thesis using thread_barrier_round [OF d(1-4), of 7] d(1) unfolding d(5) by blast
qed

end
