(* ===== verification/ThreadLists.thy ===== *)
theory ThreadLists
  imports Threads Barrier
begin

text \<open>
  \<open>libs/core/threading/thread_list.cpp\<close>: lists of threads that are initialized, woken up and finalized
  together. A thread is its address; the store holds the thread objects. What the callbacks of the
  threads, of the initializer and of the finalizer do is a parameter, and the operations that only
  call them return the calls in their order.
\<close>

section \<open>The list\<close>

type_synonym store = "nat \<Rightarrow> thread"

text \<open>\<open>tl_barrier\<close>: the count of the internal barrier, if one is maintained.\<close>

record thread_list =
  tl_threads :: "nat list"
  tl_sealed :: bool
  tl_barrier :: "nat option"
  tl_bad_barriers :: "(nat \<times> nat list) list"

datatype tl_error =
    Sealed
  | Empty_list
  | No_barrier
  | Wrong_count
  | Wakeup_failed
  | Bad_threads
  | Wait_interrupted
  | Hold_failed

definition unflagged :: "store \<Rightarrow> nat list \<Rightarrow> nat" where
  "unflagged s ts = length (filter (\<lambda>t. \<not> flagged_bad (s t)) ts)"

definition update_barrier :: "store \<Rightarrow> thread_list \<Rightarrow> thread_list" where
  "update_barrier s l = l\<lparr>tl_barrier := Some (1 + unflagged s (tl_threads l))\<rparr>"

definition ThreadList_new :: "bool \<Rightarrow> store \<Rightarrow> thread_list" where
  "ThreadList_new maintain s =
     (let l = \<lparr>tl_threads = [], tl_sealed = False, tl_barrier = None, tl_bad_barriers = []\<rparr>
      in if maintain then update_barrier s l else l)"

text \<open>The copy constructor and the assignment; the list that is assigned to keeps its bad barriers.\<close>

definition ThreadList_copy :: "store \<Rightarrow> thread_list \<Rightarrow> thread_list" where
  "ThreadList_copy s src =
     (let l = \<lparr>tl_threads = tl_threads src, tl_sealed = tl_sealed src, tl_barrier = None, tl_bad_barriers = []\<rparr>
      in if tl_barrier src \<noteq> None then update_barrier s l else l)"

definition ThreadList_assign :: "store \<Rightarrow> thread_list \<Rightarrow> thread_list \<Rightarrow> thread_list" where
  "ThreadList_assign s this src =
     (let l = this\<lparr>tl_threads := tl_threads src, tl_sealed := tl_sealed src, tl_barrier := None\<rparr>
      in if tl_barrier src \<noteq> None then update_barrier s l else l)"

definition seal :: "thread_list \<Rightarrow> thread_list" where
  "seal l = l\<lparr>tl_sealed := True\<rparr>"

text \<open>Every modification is refused on a sealed list, and brings the barrier up to date.\<close>

definition change :: "store \<Rightarrow> (nat list \<Rightarrow> nat list) \<Rightarrow> thread_list \<Rightarrow> tl_error + thread_list" where
  "change s f l =
     (if tl_sealed l then Inl Sealed
      else let l = l\<lparr>tl_threads := f (tl_threads l)\<rparr>
           in Inr (if tl_barrier l \<noteq> None then update_barrier s l else l))"

definition tl_push_front :: "store \<Rightarrow> nat \<Rightarrow> thread_list \<Rightarrow> tl_error + thread_list" where
  "tl_push_front s t = change s (\<lambda>ts. t # ts)"

definition tl_push_back :: "store \<Rightarrow> nat \<Rightarrow> thread_list \<Rightarrow> tl_error + thread_list" where
  "tl_push_back s t = change s (\<lambda>ts. ts @ [t])"

definition tl_clear :: "store \<Rightarrow> thread_list \<Rightarrow> tl_error + thread_list" where
  "tl_clear s = change s (\<lambda>_. [])"

definition tl_remove :: "store \<Rightarrow> nat \<Rightarrow> thread_list \<Rightarrow> tl_error + thread_list" where
  "tl_remove s t = change s (filter (\<lambda>u. u \<noteq> t))"

text \<open>Taking an element of an empty list, or one that does not exist, is undefined.\<close>

definition tl_pop_front :: "store \<Rightarrow> thread_list \<Rightarrow> tl_error + thread_list" where
  "tl_pop_front s l = (if \<not> tl_sealed l \<and> tl_threads l = [] then Inl Empty_list else change s tl l)"

definition tl_pop_back :: "store \<Rightarrow> thread_list \<Rightarrow> tl_error + thread_list" where
  "tl_pop_back s l = (if \<not> tl_sealed l \<and> tl_threads l = [] then Inl Empty_list else change s butlast l)"

definition tl_erase :: "store \<Rightarrow> nat \<Rightarrow> thread_list \<Rightarrow> tl_error + thread_list" where
  "tl_erase s i l =
     (if \<not> tl_sealed l \<and> length (tl_threads l) \<le> i then Inl Empty_list
      else change s (\<lambda>ts. take i ts @ drop (Suc i) ts) l)"

definition set_maintain_barrier :: "store \<Rightarrow> bool \<Rightarrow> thread_list \<Rightarrow> thread_list" where
  "set_maintain_barrier s m l = (let l = l\<lparr>tl_barrier := None\<rparr> in if m then update_barrier s l else l)"

section \<open>Waking up\<close>

definition on_thread :: "(thread \<Rightarrow> thread) \<Rightarrow> nat \<Rightarrow> store \<Rightarrow> store" where
  "on_thread f t s = s(t := f (s t))"

text \<open>\<open>wakeup()\<close> and \<open>wakeup(barrier)\<close>: the first thread that throws ends the loop.\<close>

fun wakeup_each :: "(thread \<Rightarrow> thread_error option \<times> thread) \<Rightarrow> nat list \<Rightarrow> store \<Rightarrow> tl_error option \<times> store" where
  "wakeup_each f [] s = (None, s)"
| "wakeup_each f (t # ts) s =
     (case f (s t) of
        (Some _, th) \<Rightarrow> (Some Wakeup_failed, s(t := th))
      | (None, th) \<Rightarrow> wakeup_each f ts (s(t := th)))"

definition tl_wakeup :: "thread_list \<Rightarrow> store \<Rightarrow> tl_error option \<times> store" where
  "tl_wakeup l = wakeup_each wakeup (tl_threads l)"

definition tl_wakeup_barrier :: "nat option \<Rightarrow> thread_list \<Rightarrow> store \<Rightarrow> tl_error option \<times> store" where
  "tl_wakeup_barrier b l = wakeup_each (wakeup_barrier b) (tl_threads l)"

text \<open>\<open>wakeup_unlocked(barrier)\<close>: the unflagged threads; whether one has thrown, and their number.\<close>

fun wakeup_unflagged :: "nat option \<Rightarrow> nat list \<Rightarrow> store \<Rightarrow> bool \<times> nat \<times> store" where
  "wakeup_unflagged b [] s = (False, 0, s)"
| "wakeup_unflagged b (t # ts) s =
     (if flagged_bad (s t) then wakeup_unflagged b ts s
      else let (exc, th) = wakeup_barrier b (s t); (failed, n, s) = wakeup_unflagged b ts (s(t := th))
           in (exc \<noteq> None \<or> failed, Suc n, s))"

definition wakeup_unlocked :: "nat \<Rightarrow> nat \<Rightarrow> thread_list \<Rightarrow> store \<Rightarrow> tl_error option \<times> store" where
  "wakeup_unlocked b count l s =
     (let (failed, n, s) = wakeup_unflagged (Some b) (tl_threads l) s
      in (if failed then Some Wakeup_failed else if 1 + n \<noteq> count then Some Wrong_count else None, s))"

text \<open>
  \<open>wakeup_and_wait\<close>. \<open>out\<close> is how the wait at the barrier ends and \<open>passed\<close> are the threads it has counted.
  The result: the exception, the names added to \<open>bad_threads\<close>, the list and the store.
\<close>

fun flag_all :: "nat list \<Rightarrow> store \<Rightarrow> store" where
  "flag_all [] s = s"
| "flag_all (t # ts) s = flag_all ts (on_thread (set_flag FLAG_BAD) t s)"

definition wakeup_and_wait ::
    "nat \<Rightarrow> outcome \<Rightarrow> nat list \<Rightarrow> thread_list \<Rightarrow> store \<Rightarrow> tl_error option \<times> nat list \<times> thread_list \<times> store" where
  "wakeup_and_wait b out passed l s =
     (case tl_barrier l of
        None \<Rightarrow> (Some No_barrier, [], l, s)
      | Some count \<Rightarrow>
          case wakeup_unlocked b count l s of
            (Some e, s) \<Rightarrow> (Some e, [], l, s)
          | (None, s) \<Rightarrow>
              case out of
                Interrupted _ \<Rightarrow> (Some Wait_interrupted, [], l, s)
              | Returned True \<Rightarrow> (None, [], l, s)
              | Returned False \<Rightarrow>
                  let bad = filter (\<lambda>t. t \<notin> set passed) (tl_threads l);
                      s = flag_all bad s;
                      l = l\<lparr>tl_bad_barriers := tl_bad_barriers l @ [(count, bad)]\<rparr>
                  in (Some Bad_threads, bad, update_barrier s l, s))"

text \<open>\<open>try_recover\<close>: one bad barrier, then all of them.\<close>

fun recover_threads :: "nat list \<Rightarrow> store \<Rightarrow> nat list \<times> nat list \<times> store" where
  "recover_threads [] s = ([], [], s)"
| "recover_threads (t # ts) s =
     (if waiting (s t)
      then let (rec, left, s) = recover_threads ts (on_thread (unset_flag FLAG_BAD) t s) in (t # rec, left, s)
      else let (rec, left, s) = recover_threads ts s in (rec, t # left, s))"

fun recover_barriers :: "(nat \<times> nat list) list \<Rightarrow> store \<Rightarrow> nat list \<times> (nat \<times> nat list) list \<times> store" where
  "recover_barriers [] s = ([], [], s)"
| "recover_barriers ((c, ts) # bs) s =
     (let (rec, left, s) = recover_threads ts s; (rec', bs, s) = recover_barriers bs s
      in (rec @ rec', if left = [] then bs else (c, left) # bs, s))"

definition try_recover :: "thread_list \<Rightarrow> store \<Rightarrow> nat list \<times> thread_list \<times> store" where
  "try_recover l s =
     (let (rec, bs, s) = recover_barriers (tl_bad_barriers l) s; l = l\<lparr>tl_bad_barriers := bs\<rparr>
      in (rec, if rec \<noteq> [] then update_barrier s l else l, s))"

section \<open>Holding back the finalization\<close>

text \<open>\<open>sofar\<close>: the threads whose hold has been set already.\<close>

fun hold_loop :: "bool \<Rightarrow> nat list \<Rightarrow> nat list \<Rightarrow> store \<Rightarrow> tl_error option \<times> store" where
  "hold_loop hold sofar [] s = (None, s)"
| "hold_loop hold sofar (t # ts) s =
     (case set_prepfin_hold hold (s t) of
        (Some _, _) \<Rightarrow>
          (Some Hold_failed, fold (on_thread (\<lambda>th. snd (set_prepfin_hold False th))) sofar s)
      | (None, th) \<Rightarrow> hold_loop hold (sofar @ [t]) ts (s(t := th)))"

definition set_prepfin_hold_all :: "bool \<Rightarrow> thread_list \<Rightarrow> store \<Rightarrow> tl_error option \<times> store" where
  "set_prepfin_hold_all hold l s = hold_loop hold [] (tl_threads l) s"

section \<open>Initialization and finalization\<close>

datatype exception =
    Cannot_initialize
  | Cannot_finalize
  | Other_exception
  | Std_exception
  | Unknown_exception

text \<open>Those that derive from \<open>Exception\<close>.\<close>

definition is_Exception :: "exception \<Rightarrow> bool" where
  "is_Exception e \<longleftrightarrow> e \<in> {Cannot_initialize, Cannot_finalize, Other_exception}"

record callbacks =
  cb_initializer_init :: "nat \<Rightarrow> exception option"
  cb_init :: "nat \<Rightarrow> exception option"
  cb_finalizer_prepare :: "nat \<Rightarrow> exception + bool"
  cb_prepare :: "nat \<Rightarrow> exception + bool"
  cb_finalizer_finalize :: "nat \<Rightarrow> exception option"
  cb_finalize :: "nat \<Rightarrow> exception option"

datatype call =
    Initializer_init nat
  | Init nat
  | Notify_of_failed_init nat
  | Start nat
  | Cancel nat
  | Join nat
  | Finalizer_prepare_finalize nat
  | Prepare_finalize nat
  | Finalizer_finalize nat
  | Finalize nat
  | Cancel_finalize nat

text \<open>\<open>finalize\<close>: the threads are given in the order of the loop; \<open>error\<close> as in the code.\<close>

fun finalize_loop :: "callbacks \<Rightarrow> bool \<Rightarrow> nat list \<Rightarrow> exception option \<times> call list" where
  "finalize_loop cb error [] = (if error then Some Other_exception else None, [])"
| "finalize_loop cb error (t # ts) =
     (let e = cb_finalizer_finalize cb t
      in if e \<noteq> None \<and> e \<noteq> Some Cannot_finalize then (e, [Finalizer_finalize t])
         else let error = (error \<or> e \<noteq> None \<or> cb_finalize cb t = Some Cannot_finalize);
                  (r, cs) = finalize_loop cb error ts
              in (r, Finalizer_finalize t # Finalize t # cs))"

definition tl_finalize :: "callbacks \<Rightarrow> nat list \<Rightarrow> exception option \<times> call list" where
  "tl_finalize cb ts = finalize_loop cb False (rev ts)"

text \<open>
  \<open>init\<close>: \<open>all\<close> are the threads of the list, which hear of a failure; \<open>sofar\<close> those that are initialized.
\<close>

definition roll_back :: "callbacks \<Rightarrow> nat list \<Rightarrow> exception option \<times> call list" where
  "roll_back cb sofar =
     (case tl_finalize cb sofar of (None, cs) \<Rightarrow> (Some Cannot_initialize, cs) | (Some e, cs) \<Rightarrow> (Some e, cs))"

fun init_loop :: "callbacks \<Rightarrow> nat list \<Rightarrow> nat list \<Rightarrow> nat list \<Rightarrow> exception option \<times> call list" where
  "init_loop cb all sofar [] = (None, [])"
| "init_loop cb all sofar (t # ts) =
     (case cb_initializer_init cb t of
        Some e \<Rightarrow>
          if is_Exception e
          then let (r, cs) = roll_back cb sofar in (r, Initializer_init t # cs)
          else (Some e, [Initializer_init t])
      | None \<Rightarrow>
          case cb_init cb t of
            None \<Rightarrow> let (r, cs) = init_loop cb all (sofar @ [t]) ts in (r, Initializer_init t # Init t # cs)
          | Some _ \<Rightarrow>
              let pre = [Initializer_init t, Init t] @ map Notify_of_failed_init all @ [Finalizer_finalize t]
              in case cb_finalizer_finalize cb t of
                   Some e \<Rightarrow> (Some e, pre)
                 | None \<Rightarrow> let (r, cs) = roll_back cb sofar in (r, pre @ cs))"

definition tl_init :: "callbacks \<Rightarrow> nat list \<Rightarrow> exception option \<times> call list" where
  "tl_init cb ts = init_loop cb ts [] ts"

text \<open>\<open>prepare_finalize\<close>: the exception of a thread does not end the loop, others than the expected do.\<close>

fun prepare_loop :: "callbacks \<Rightarrow> bool \<Rightarrow> bool \<Rightarrow> nat list \<Rightarrow> (exception + bool) \<times> call list" where
  "prepare_loop cb can threw [] = (if threw then Inl Cannot_finalize else Inr can, [])"
| "prepare_loop cb can threw (t # ts) =
     (case cb_finalizer_prepare cb t of
        Inl e \<Rightarrow>
          if e = Cannot_finalize
          then let (r, cs) = prepare_loop cb can True ts in (r, Finalizer_prepare_finalize t # cs)
          else (Inl e, [Finalizer_prepare_finalize t])
      | Inr ok \<Rightarrow>
          case cb_prepare cb t of
            Inl e \<Rightarrow>
              if e = Cannot_finalize
              then let (r, cs) = prepare_loop cb (can \<and> ok) True ts
                   in (r, Finalizer_prepare_finalize t # Prepare_finalize t # cs)
              else (Inl e, [Finalizer_prepare_finalize t, Prepare_finalize t])
          | Inr ok' \<Rightarrow>
              let (r, cs) = prepare_loop cb (can \<and> ok \<and> ok') threw ts
              in (r, Finalizer_prepare_finalize t # Prepare_finalize t # cs))"

definition tl_prepare_finalize :: "callbacks \<Rightarrow> nat list \<Rightarrow> (exception + bool) \<times> call list" where
  "tl_prepare_finalize cb ts = prepare_loop cb True False (rev ts)"

definition tl_start :: "nat list \<Rightarrow> call list" where
  "tl_start ts = map Start ts"

definition tl_cancel :: "nat list \<Rightarrow> call list" where
  "tl_cancel ts = map Cancel ts"

definition tl_join :: "nat list \<Rightarrow> call list" where
  "tl_join ts = map Join ts"

definition tl_stop :: "nat list \<Rightarrow> call list" where
  "tl_stop ts = concat (map (\<lambda>t. [Cancel t, Join t]) (rev ts))"

definition tl_cancel_finalize :: "nat list \<Rightarrow> call list" where
  "tl_cancel_finalize ts = map Cancel_finalize (rev ts)"

text \<open>An \<open>Exception\<close> ends the forced stop silently, any other one is thrown.\<close>

definition swallow :: "exception option \<Rightarrow> exception option" where
  "swallow e = (case e of Some x \<Rightarrow> if is_Exception x then None else Some x | None \<Rightarrow> None)"

definition force_stop :: "callbacks \<Rightarrow> nat list \<Rightarrow> exception option \<times> call list" where
  "force_stop cb ts =
     (case tl_prepare_finalize cb ts of
        (Inl e, cs) \<Rightarrow> (swallow (Some e), cs)
      | (Inr _, cs) \<Rightarrow>
          let (r, cs') = tl_finalize cb ts in (swallow r, cs @ tl_stop ts @ cs'))"

section \<open>The barrier of the list\<close>

datatype tl_op =
    Push_front nat
  | Push_back nat
  | Clear_list
  | Remove nat
  | Pop_front
  | Pop_back
  | Erase nat
  | Maintain bool
  | Seal
  | Wakeup
  | Wakeup_wait nat outcome "nat list"
  | Recover
  | Hold bool

text \<open>The lists a program has after an operation, also one that throws.\<close>

definition or_unchanged :: "tl_error + thread_list \<Rightarrow> thread_list \<Rightarrow> thread_list" where
  "or_unchanged r l = (case r of Inl _ \<Rightarrow> l | Inr l' \<Rightarrow> l')"

fun tl_step :: "tl_op \<Rightarrow> thread_list \<times> store \<Rightarrow> thread_list \<times> store" where
  "tl_step (Push_front t) (l, s) = (or_unchanged (tl_push_front s t l) l, s)"
| "tl_step (Push_back t) (l, s) = (or_unchanged (tl_push_back s t l) l, s)"
| "tl_step Clear_list (l, s) = (or_unchanged (tl_clear s l) l, s)"
| "tl_step (Remove t) (l, s) = (or_unchanged (tl_remove s t l) l, s)"
| "tl_step Pop_front (l, s) = (or_unchanged (tl_pop_front s l) l, s)"
| "tl_step Pop_back (l, s) = (or_unchanged (tl_pop_back s l) l, s)"
| "tl_step (Erase i) (l, s) = (or_unchanged (tl_erase s i l) l, s)"
| "tl_step (Maintain m) (l, s) = (set_maintain_barrier s m l, s)"
| "tl_step Seal (l, s) = (seal l, s)"
| "tl_step Wakeup (l, s) = (l, snd (tl_wakeup l s))"
| "tl_step (Wakeup_wait b out passed) (l, s) = snd (snd (wakeup_and_wait b out passed l s))"
| "tl_step Recover (l, s) = snd (try_recover l s)"
| "tl_step (Hold h) (l, s) = (l, snd (set_prepfin_hold_all h l s))"

text \<open>The count of the barrier is right: itself and the threads that are not flagged.\<close>

definition count_ok :: "thread_list \<Rightarrow> store \<Rightarrow> bool" where
  "count_ok l s \<longleftrightarrow> tl_barrier l \<in> {None, Some (1 + unflagged s (tl_threads l))}"

text \<open>Two stores with the same flags.\<close>

definition same_flags :: "store \<Rightarrow> store \<Rightarrow> bool" where
  "same_flags s s' \<longleftrightarrow> (\<forall>t. th_flags (s' t) = th_flags (s t))"

lemma same_flags_refl [simp]: "same_flags s s"
  by (simp add: same_flags_def)

lemma same_flags_trans: "same_flags s s' \<Longrightarrow> same_flags s' s'' \<Longrightarrow> same_flags s s''"
  by (simp add: same_flags_def)

lemma same_flags_upd: "th_flags th = th_flags (s t) \<Longrightarrow> same_flags s (s(t := th))"
  by (simp add: same_flags_def)

lemma same_flags_bad: "same_flags s s' \<Longrightarrow> flagged_bad (s' t) = flagged_bad (s t)"
  by (simp add: same_flags_def flagged_bad_def)

lemma same_flags_unflagged: "same_flags s s' \<Longrightarrow> unflagged s' ts = unflagged s ts"
  by (simp add: unflagged_def same_flags_bad)

lemma flags_wakeup [simp]:
  "th_flags (snd (wakeup t)) = th_flags t" "th_flags (snd (wakeup_barrier b t)) = th_flags t"
  "th_flags (snd (set_prepfin_hold h t)) = th_flags t"
  by (simp_all add: wakeup_def wakeup_barrier_def wake_sleeper_def set_prepfin_hold_def)

lemma wakeup_each_flags: "(\<And>t. th_flags (snd (f t)) = th_flags t) \<Longrightarrow> same_flags s (snd (wakeup_each f ts s))"
proof (induction ts arbitrary: s)
  case (Cons t ts)
  obtain e th where f: "f (s t) = (e, th)" by (cases "f (s t)")
  then have "same_flags s (s(t := th))" using Cons.prems [of "s t"] by (intro same_flags_upd) simp
  then show ?case
    using f by (cases e) (simp_all add: same_flags_trans [OF _ Cons.IH [OF Cons.prems]] fun_upd_def)
qed simp

lemma wakeup_unflagged_spec:
  "wakeup_unflagged b ts s = (failed, n, s') \<Longrightarrow> n = unflagged s ts \<and> same_flags s s'"
proof (induction ts arbitrary: s failed n)
  case Nil
  then show ?case by (simp add: unflagged_def)
next
  case (Cons t ts)
  define s1 where "s1 = s(t := snd (wakeup_barrier b (s t)))"
  have s1: "same_flags s s1" by (simp add: s1_def same_flags_upd)
  show ?case
  proof (cases "flagged_bad (s t)")
    case True
    then show ?thesis using Cons by (simp add: unflagged_def)
  next
    case False
    obtain failed' n' where w: "wakeup_unflagged b ts s1 = (failed', n', s')" "n = Suc n'"
      using Cons.prems False by (auto simp: s1_def Let_def split: prod.splits)
    then show ?thesis
      using Cons.IH [OF w(1)] s1 False same_flags_unflagged [OF s1, of ts]
      by (auto simp: unflagged_def intro: same_flags_trans)
  qed
qed

lemma wakeup_unlocked_spec:
  assumes "wakeup_unlocked b count l s = (r, s')"
  shows "same_flags s s' \<and> (r = Some Wrong_count \<longrightarrow> count \<noteq> 1 + unflagged s (tl_threads l))"
  using assms wakeup_unflagged_spec [of "Some b" "tl_threads l" s]
  by (auto simp: wakeup_unlocked_def split: prod.splits if_splits)

lemma hold_fold_flags: "same_flags s (fold (on_thread (\<lambda>th. snd (set_prepfin_hold False th))) ts s)"
proof (induction ts arbitrary: s)
  case (Cons t ts)
  have "same_flags s (on_thread (\<lambda>th. snd (set_prepfin_hold False th)) t s)"
    by (simp add: on_thread_def same_flags_upd)
  then show ?case using Cons.IH by (auto intro: same_flags_trans)
qed simp

lemma hold_loop_flags: "same_flags s (snd (hold_loop h sofar ts s))"
proof (induction ts arbitrary: sofar s)
  case (Cons t ts)
  obtain e th where f: "set_prepfin_hold h (s t) = (e, th)" by (cases "set_prepfin_hold h (s t)")
  then have "same_flags s (s(t := th))" using flags_wakeup(3) [of h "s t"] by (intro same_flags_upd) simp
  then show ?case
    using f hold_fold_flags by (cases e) (simp_all add: same_flags_trans [OF _ Cons.IH])
qed simp

lemma count_ok_update [simp]: "count_ok (update_barrier s l) s"
  by (simp add: count_ok_def update_barrier_def)

lemma count_ok_same_flags: "count_ok l s \<Longrightarrow> same_flags s s' \<Longrightarrow> count_ok l s'"
  by (simp add: count_ok_def same_flags_unflagged)

lemma count_ok_bad [simp]: "count_ok (l\<lparr>tl_bad_barriers := bs\<rparr>) s \<longleftrightarrow> count_ok l s"
  by (simp add: count_ok_def)

lemma count_ok_change: "count_ok l s \<Longrightarrow> count_ok (or_unchanged (change s f l) l) s"
  by (auto simp: or_unchanged_def change_def Let_def) (simp add: count_ok_def)

lemma recover_none: "recover_threads ts s = ([], left, s') \<Longrightarrow> s' = s"
  by (induction ts arbitrary: s left) (auto split: if_splits prod.splits)

lemma recover_barriers_none: "recover_barriers bs s = ([], bs', s') \<Longrightarrow> s' = s"
  by (induction bs s arbitrary: bs' s' rule: recover_barriers.induct) (auto simp: recover_none split: prod.splits dest: recover_none)

lemma count_ok_step:
  assumes "count_ok l s" and "tl_step op (l, s) = (l', s')"
  shows "count_ok l' s'"
proof (cases op)
  case Wakeup
  then show ?thesis
    using assms wakeup_each_flags [of wakeup s "tl_threads l"] by (auto simp: tl_wakeup_def intro: count_ok_same_flags)
next
  case (Hold h)
  then show ?thesis
    using assms hold_loop_flags [of s h "[]" "tl_threads l"]
    by (auto simp: set_prepfin_hold_all_def intro: count_ok_same_flags)
next
  case (Wakeup_wait b out passed)
  then show ?thesis
    using assms wakeup_unlocked_spec [of b _ l s]
    by (auto simp: wakeup_and_wait_def Let_def split: option.splits prod.splits outcome.splits bool.splits
      intro: count_ok_same_flags)
next
  case Recover
  then show ?thesis
    using assms by (auto simp: try_recover_def Let_def split: prod.splits if_splits dest: recover_barriers_none)
next
  case (Maintain m)
  then show ?thesis using assms by (auto simp: set_maintain_barrier_def Let_def) (simp add: count_ok_def)
next
  case Seal
  then show ?thesis using assms by (auto simp: seal_def count_ok_def)
qed (use assms in \<open>auto simp: tl_push_front_def tl_push_back_def tl_clear_def tl_remove_def tl_pop_front_def
    tl_pop_back_def tl_erase_def count_ok_change, auto simp: or_unchanged_def\<close>)

lemma count_ok_run: "count_ok l s \<Longrightarrow> fold tl_step ops (l, s) = (l', s') \<Longrightarrow> count_ok l' s'"
proof (induction ops arbitrary: l s)
  case (Cons op ops)
  obtain l1 s1 where "tl_step op (l, s) = (l1, s1)" by (cases "tl_step op (l, s)")
  then show ?case using Cons.IH [OF count_ok_step [OF Cons.prems(1)]] Cons.prems(2) by simp
qed simp

text \<open>
  C37 After any sequence of operations on a thread list, also after threads have been flagged as bad
  and recovered, the internal barrier, if there is one, counts the unflagged threads of the list and
  the caller; so waking up the threads with it never fails because of a wrong count.
\<close>

theorem thread_list_counts:
  "case fold tl_step ops (ThreadList_new m s0, s0) of (l, s) \<Rightarrow>
     tl_barrier l \<in> {None, Some (1 + unflagged s (tl_threads l))}
     \<and> Some Wrong_count \<notin> (\<lambda>c. fst (wakeup_unlocked b c l s)) ` set_option (tl_barrier l)"
proof -
  obtain l s where r: "fold tl_step ops (ThreadList_new m s0, s0) = (l, s)" by fastforce
  have "count_ok (ThreadList_new m s0) s0" by (simp add: ThreadList_new_def Let_def) (simp add: count_ok_def)
  then have c: "count_ok l s" using count_ok_run r by blast
  then have "fst (wakeup_unlocked b k l s) \<noteq> Some Wrong_count" if "tl_barrier l = Some k" for k
    using wakeup_unlocked_spec [of b k l s] that by (cases "wakeup_unlocked b k l s") (auto simp: count_ok_def)
  then show ?thesis using c r by (auto simp: count_ok_def image_iff)
qed

section \<open>Bad threads\<close>

lemma flagged_bad_bit: "flagged_bad t \<longleftrightarrow> bit (th_flags t) 0"
  by (simp add: flagged_bad_def FLAG_BAD_def and_one_eq bit_0 odd_iff_mod_2_eq_one)

lemma flag_simps [simp]:
  "flagged_bad (set_flag FLAG_BAD t)" "\<not> flagged_bad (unset_flag FLAG_BAD t)"
  "waiting (set_flag f t) = waiting t" "waiting (unset_flag f t) = waiting t"
  by (simp_all add: flagged_bad_bit set_flag_def unset_flag_def FLAG_BAD_def bit_or_iff bit_and_iff bit_xor_iff
    bit_1_iff waiting_def)

lemma flag_all_flags: "flagged_bad (flag_all ts s t) \<longleftrightarrow> flagged_bad (s t) \<or> t \<in> set ts"
  by (induction ts arbitrary: s) (auto simp: on_thread_def)

text \<open>
  When the threads do not meet in time, \<open>wakeup_and_wait\<close> throws, flags exactly the threads of the
  list that have not passed the barrier, reports them, keeps them with the barrier, and goes on with
  a barrier for the rest; a thread that was flagged before is reported again.
\<close>

theorem late_threads_are_flagged:
  assumes "tl_barrier l = Some count" and "fst (wakeup_unlocked b count l s) = None"
    and "wakeup_and_wait b (Returned False) passed l s = (e, bad, l', s')"
  shows "e = Some Bad_threads \<and> bad = filter (\<lambda>t. t \<notin> set passed) (tl_threads l)
    \<and> (\<forall>t. flagged_bad (s' t) \<longleftrightarrow> flagged_bad (s t) \<or> t \<in> set bad)
    \<and> tl_bad_barriers l' = tl_bad_barriers l @ [(count, bad)] \<and> tl_threads l' = tl_threads l
    \<and> tl_barrier l' = Some (1 + unflagged s' (tl_threads l))"
proof -
  obtain s1 where w: "wakeup_unlocked b count l s = (None, s1)"
    using assms(2) by (cases "wakeup_unlocked b count l s") simp
  have f: "flagged_bad (s1 t) = flagged_bad (s t)" for t
    using wakeup_unlocked_spec [OF w] same_flags_bad by blast
  show ?thesis
    using assms(1,3) w by (auto simp: wakeup_and_wait_def Let_def update_barrier_def flag_all_flags f)
qed

lemma recover_threads_spec:
  "recover_threads ts s = (rec, left, s') \<Longrightarrow>
    rec = filter (\<lambda>t. waiting (s t)) ts \<and> left = filter (\<lambda>t. \<not> waiting (s t)) ts
    \<and> (\<forall>t. waiting (s' t) = waiting (s t)) \<and> (\<forall>t. flagged_bad (s' t) \<longleftrightarrow> flagged_bad (s t) \<and> t \<notin> set rec)"
proof (induction ts arbitrary: s rec left)
  case (Cons t ts)
  have w: "waiting (on_thread (unset_flag FLAG_BAD) t s u) = waiting (s u)" for u by (simp add: on_thread_def)
  have f: "flagged_bad (on_thread (unset_flag FLAG_BAD) t s u) \<longleftrightarrow> flagged_bad (s u) \<and> u \<noteq> t" for u
    by (simp add: on_thread_def)
  show ?case
  proof (cases "waiting (s t)")
    case True
    then obtain rec' left' where r: "recover_threads ts (on_thread (unset_flag FLAG_BAD) t s) = (rec', left', s')"
      "rec = t # rec'" "left = left'"
      using Cons.prems by (auto split: prod.splits)
    show ?thesis using Cons.IH [OF r(1)] r(2,3) True by (auto simp: w f)
  next
    case False
    then obtain rec' left' where r: "recover_threads ts s = (rec', left', s')" "rec = rec'" "left = t # left'"
      using Cons.prems by (auto split: prod.splits)
    show ?thesis using Cons.IH [OF r(1)] r(2,3) False by auto
  qed
qed simp

lemma recover_barriers_spec:
  "recover_barriers bs s = (rec, bs', s') \<Longrightarrow>
    rec = filter (\<lambda>t. waiting (s t)) (concat (map snd bs))
    \<and> bs' = filter (\<lambda>b. snd b \<noteq> []) (map (\<lambda>(c, ts). (c, filter (\<lambda>t. \<not> waiting (s t)) ts)) bs)
    \<and> (\<forall>t. waiting (s' t) = waiting (s t)) \<and> (\<forall>t. flagged_bad (s' t) \<longleftrightarrow> flagged_bad (s t) \<and> t \<notin> set rec)"
proof (induction bs arbitrary: s rec bs' s')
  case (Cons b bs)
  obtain c ts where b: "b = (c, ts)" by (cases b)
  obtain r1 left s1 where r: "recover_threads ts s = (r1, left, s1)" by (cases "recover_threads ts s") auto
  obtain r2 bs2 s2 where r2: "recover_barriers bs s1 = (r2, bs2, s2)" by (cases "recover_barriers bs s1") auto
  have e: "rec = r1 @ r2" "s' = s2" "bs' = (if left = [] then bs2 else (c, left) # bs2)"
    using Cons.prems r r2 by (auto simp: b)
  show ?case
    using recover_threads_spec [OF r] Cons.IH [OF r2] unfolding e b by (auto simp: filter_empty_conv)
qed simp

text \<open>
  \<open>try_recover\<close> brings back exactly the bad threads that wait for their next wake-up: they lose
  the flag and are reported, the others stay bad with their barrier, and the threads that are not
  flagged any more are counted again.
\<close>

theorem waiting_threads_recover:
  assumes "try_recover l s = (rec, l', s')"
  shows "rec = filter (\<lambda>t. waiting (s t)) (concat (map snd (tl_bad_barriers l)))
    \<and> (\<forall>t. flagged_bad (s' t) \<longleftrightarrow> flagged_bad (s t) \<and> t \<notin> set rec)
    \<and> tl_bad_barriers l' =
        filter (\<lambda>b. snd b \<noteq> []) (map (\<lambda>(c, ts). (c, filter (\<lambda>t. \<not> waiting (s t)) ts)) (tl_bad_barriers l))
    \<and> tl_threads l' = tl_threads l
    \<and> tl_barrier l' = (if rec = [] then tl_barrier l else Some (1 + unflagged s' (tl_threads l)))"
proof -
  obtain bs' s1 where r: "recover_barriers (tl_bad_barriers l) s = (rec, bs', s1)"
    using assms by (auto simp: try_recover_def Let_def split: prod.splits)
  show ?thesis
    using assms recover_barriers_spec [OF r] by (cases "rec = []") (auto simp: try_recover_def r Let_def update_barrier_def)
qed

section \<open>Holding back the finalization of all threads or none\<close>

lemma unhold_fold:
  "fold (on_thread (th_prepfin_hold_update (\<lambda>_. False))) ts s
    = (\<lambda>t. if t \<in> set ts then (s t)\<lparr>th_prepfin_hold := False\<rparr> else s t)"
  by (induction ts arbitrary: s) (auto simp: on_thread_def fun_eq_iff)

lemma hold_loop_spec:
  "hold_loop True sofar ts s =
    (if \<exists>t \<in> set ts. th_finalize_prepared (s t)
     then (Some Hold_failed, \<lambda>t. if t \<in> set (sofar @ takeWhile (\<lambda>t. \<not> th_finalize_prepared (s t)) ts)
       then (s t)\<lparr>th_prepfin_hold := False\<rparr> else s t)
     else (None, \<lambda>t. if t \<in> set ts then (s t)\<lparr>th_prepfin_hold := True\<rparr> else s t))"
proof (induction ts arbitrary: sofar s)
  case (Cons t ts)
  show ?case
  proof (cases "th_finalize_prepared (s t)")
    case True
    then show ?thesis by (simp add: set_prepfin_hold_def unhold_fold)
  next
    case False
    define s1 where "s1 = s(t := (s t)\<lparr>th_prepfin_hold := True\<rparr>)"
    have p: "th_finalize_prepared (s1 u) = th_finalize_prepared (s u)" for u by (simp add: s1_def)
    have "hold_loop True sofar (t # ts) s = hold_loop True (sofar @ [t]) ts s1"
      using False by (simp add: set_prepfin_hold_def s1_def)
    then show ?thesis using False by (auto simp: Cons.IH p fun_eq_iff) (auto simp: s1_def)
  qed
qed simp

text \<open>
  If the finalization of no thread is held back, \<open>set_prepfin_hold\<close> holds back all threads of the
  list, or, if one of them is already prepared for finalization, throws and changes no thread.
\<close>

theorem hold_all_or_none:
  assumes "\<forall>t \<in> set (tl_threads l). \<not> th_prepfin_hold (s t)"
  shows "set_prepfin_hold_all True l s =
    (if \<exists>t \<in> set (tl_threads l). th_finalize_prepared (s t) then (Some Hold_failed, s)
     else (None, \<lambda>t. if t \<in> set (tl_threads l) then (s t)\<lparr>th_prepfin_hold := True\<rparr> else s t))"
proof -
  have "(s t)\<lparr>th_prepfin_hold := False\<rparr> = s t" if "t \<in> set (tl_threads l)" for t
    using assms that by simp
  then show ?thesis
    by (auto simp: set_prepfin_hold_all_def hold_loop_spec fun_eq_iff dest: set_takeWhileD)
qed

section \<open>Failing initialization\<close>

text \<open>The threads for which an operation is called, in the order of the calls.\<close>

definition finalized :: "call list \<Rightarrow> nat list" where
  "finalized cs = concat (map (\<lambda>c. case c of Finalize t \<Rightarrow> [t] | _ \<Rightarrow> []) cs)"

definition finalizer_called :: "call list \<Rightarrow> nat list" where
  "finalizer_called cs = concat (map (\<lambda>c. case c of Finalizer_finalize t \<Rightarrow> [t] | _ \<Rightarrow> []) cs)"

lemma called_simps [simp]:
  "finalized [] = []" "finalized (c # cs) = (case c of Finalize t \<Rightarrow> [t] | _ \<Rightarrow> []) @ finalized cs"
  "finalized (cs @ ds) = finalized cs @ finalized ds"
  "finalizer_called [] = []"
  "finalizer_called (c # cs) = (case c of Finalizer_finalize t \<Rightarrow> [t] | _ \<Rightarrow> []) @ finalizer_called cs"
  "finalizer_called (cs @ ds) = finalizer_called cs @ finalizer_called ds"
  "finalized (map Notify_of_failed_init ts) = []" "finalizer_called (map Notify_of_failed_init ts) = []"
  by (simp_all add: finalized_def finalizer_called_def concat_eq_Nil_conv)

definition can_finalize :: "callbacks \<Rightarrow> nat \<Rightarrow> bool" where
  "can_finalize cb t \<longleftrightarrow> cb_finalizer_finalize cb t = None \<and> cb_finalize cb t \<noteq> Some Cannot_finalize"

lemma finalize_loop_ok:
  "\<forall>t \<in> set ts. can_finalize cb t \<Longrightarrow>
    \<exists>cs. finalize_loop cb False ts = (None, cs) \<and> finalized cs = ts \<and> finalizer_called cs = ts"
  by (induction ts) (auto simp: can_finalize_def)

lemma roll_back_ok:
  "\<forall>t \<in> set ts. can_finalize cb t \<Longrightarrow>
    \<exists>cs. roll_back cb ts = (Some Cannot_initialize, cs) \<and> finalized cs = rev ts \<and> finalizer_called cs = rev ts"
  using finalize_loop_ok [of "rev ts" cb] by (auto simp: roll_back_def tl_finalize_def)

definition init_ok :: "callbacks \<Rightarrow> nat \<Rightarrow> bool" where
  "init_ok cb t \<longleftrightarrow> cb_initializer_init cb t = None \<and> cb_init cb t = None"

lemma init_loop_spec:
  assumes "\<forall>t \<in> set sofar \<union> set ts. can_finalize cb t"
    and "\<forall>t \<in> set ts. \<forall>e. cb_initializer_init cb t = Some e \<longrightarrow> is_Exception e"
    and "init_loop cb all sofar ts = (r, cs)"
  shows "if \<forall>t \<in> set ts. init_ok cb t
    then r = None \<and> cs = concat (map (\<lambda>t. [Initializer_init t, Init t]) ts)
    else r = Some Cannot_initialize \<and> finalized cs = rev (sofar @ takeWhile (init_ok cb) ts)
      \<and> (let t = hd (dropWhile (init_ok cb) ts)
         in finalizer_called cs =
           (if cb_initializer_init cb t = None then [t] else []) @ rev (sofar @ takeWhile (init_ok cb) ts))"
  using assms
proof (induction ts arbitrary: sofar r cs)
  case (Cons t ts)
  obtain rcs where roll: "roll_back cb sofar = (Some Cannot_initialize, rcs)" "finalized rcs = rev sofar"
    "finalizer_called rcs = rev sofar"
    using roll_back_ok [of sofar cb] Cons.prems(1) by auto
  have cf: "cb_finalizer_finalize cb t = None" using Cons.prems(1) by (simp add: can_finalize_def)
  show ?case
  proof (cases "init_ok cb t")
    case True
    then obtain cs' where i: "init_loop cb all (sofar @ [t]) ts = (r, cs')" "cs = Initializer_init t # Init t # cs'"
      using Cons.prems(3) by (auto simp: init_ok_def split: prod.splits)
    have "\<forall>u \<in> set (sofar @ [t]) \<union> set ts. can_finalize cb u" using Cons.prems(1) by auto
    from Cons.IH [OF this _ i(1)] show ?thesis using Cons.prems(2) i(2) True by (simp add: Let_def split: if_splits)
  next
    case False
    then show ?thesis
      using Cons.prems(2,3) roll cf
      by (cases "cb_initializer_init cb t"; cases "cb_init cb t") (auto simp: init_ok_def)
  qed
qed simp

text \<open>
  C38 Initialization is all or nothing, if no thread refuses to be finalized. Either the initializer
  and \<open>init()\<close> are called for all threads in their order; or the first failure ends it with an
  exception, every thread whose \<open>init()\<close> has returned is finalized once, in the opposite order, and the
  finalizer is called for exactly the threads the initializer has handled.
\<close>

theorem failed_init_rolls_back:
  assumes "\<forall>t \<in> set ts. can_finalize cb t"
    and "\<forall>t \<in> set ts. \<forall>e. cb_initializer_init cb t = Some e \<longrightarrow> is_Exception e"
    and "tl_init cb ts = (r, cs)"
  shows "if \<forall>t \<in> set ts. init_ok cb t
    then r = None \<and> cs = concat (map (\<lambda>t. [Initializer_init t, Init t]) ts)
    else r = Some Cannot_initialize \<and> finalized cs = rev (takeWhile (init_ok cb) ts)
      \<and> (let t = hd (dropWhile (init_ok cb) ts)
         in finalizer_called cs =
           (if cb_initializer_init cb t = None then [t] else []) @ rev (takeWhile (init_ok cb) ts))"
proof -
  have "\<forall>t \<in> set [] \<union> set ts. can_finalize cb t" using assms(1) by simp
  from init_loop_spec [OF this assms(2) assms(3) [unfolded tl_init_def]] show ?thesis by (simp only: append_Nil)
qed

text \<open>
  A finalizer that throws for the thread that has failed prevents the roll back, and one thread that
  cannot be prepared keeps a forced stop from stopping any thread.
\<close>

lemma finalizer_prevents_roll_back:
  assumes "cb_initializer_init cb 0 = None" "cb_init cb 0 = None" "cb_initializer_init cb 1 = None"
    and "cb_init cb 1 = Some f" and "cb_finalizer_finalize cb 1 = Some e"
  shows "finalized (snd (tl_init cb [0, 1])) = [] \<and> fst (tl_init cb [0, 1]) = Some e"
  using assms by (simp add: tl_init_def)

lemma prepare_loop_calls:
  "c \<in> set (snd (prepare_loop cb can threw ts)) \<Longrightarrow> c \<in> Finalizer_prepare_finalize ` set ts \<union> Prepare_finalize ` set ts"
  by (induction ts arbitrary: can threw) (auto simp: split_beta Let_def split: sum.splits if_splits)

text \<open>
  A thread that cannot be prepared for its finalization, because it has not been started or is
  prepared already, keeps \<open>force_stop\<close> from cancelling, joining or finalizing any thread of the list,
  and the exception is dropped. Without such a failure all threads are stopped from the last
  to the first, then finalized in this order.
\<close>

theorem force_stop_outcome:
  assumes "tl_prepare_finalize cb ts = (p, cs)"
  shows "force_stop cb ts = (case p of
      Inl e \<Rightarrow> (if is_Exception e then None else Some e, cs)
    | Inr _ \<Rightarrow> (swallow (fst (tl_finalize cb ts)), cs @ concat (map (\<lambda>t. [Cancel t, Join t]) (rev ts)) @ snd (tl_finalize cb ts)))
    \<and> set cs \<subseteq> Finalizer_prepare_finalize ` set ts \<union> Prepare_finalize ` set ts"
proof
  show "set cs \<subseteq> Finalizer_prepare_finalize ` set ts \<union> Prepare_finalize ` set ts"
    using prepare_loop_calls [of _ cb True False "rev ts"] assms by (auto simp: tl_prepare_finalize_def)
qed (use assms in \<open>auto simp: force_stop_def swallow_def tl_stop_def split: sum.splits prod.splits\<close>)

section \<open>Examples\<close>

text \<open>Three threads that sleep, in a list with a barrier; thread 2 does not reach it in time.\<close>

definition demo_list :: thread_list where
  "demo_list = \<lparr>tl_threads = [1, 2, 3], tl_sealed = False, tl_barrier = Some 4, tl_bad_barriers = []\<rparr>"

lemma demo_sleeper_good [simp]: "\<not> flagged_bad demo_sleeper" "waiting demo_sleeper"
  by (simp_all add: demo_sleeper_def flagged_bad_def waiting_def)

lemma demo_wakeup: "fst (wakeup_unlocked 7 4 demo_list (\<lambda>_. demo_sleeper)) = None"
  by (simp add: wakeup_unlocked_def demo_list_def wakeup_barrier_def)
    (simp add: demo_sleeper_def)

theorem late_threads_are_flagged_witness:
  "\<exists>l' s'. wakeup_and_wait 7 (Returned False) [1, 3] demo_list (\<lambda>_. demo_sleeper) = (Some Bad_threads, [2], l', s')
    \<and> flagged_bad (s' 2) \<and> \<not> flagged_bad (s' 1) \<and> tl_barrier l' = Some 3"
proof -
  obtain e bad l' s' where w: "wakeup_and_wait 7 (Returned False) [1, 3] demo_list (\<lambda>_. demo_sleeper) = (e, bad, l', s')"
    by (cases "wakeup_and_wait 7 (Returned False) [1, 3] demo_list (\<lambda>_. demo_sleeper)") auto
  have "tl_barrier demo_list = Some 4" "tl_threads demo_list = [1, 2, 3]" by (simp_all add: demo_list_def)
  then show ?thesis
    using late_threads_are_flagged [OF _ demo_wakeup w] w by (simp add: unflagged_def)
qed

text \<open>A thread that was late twice is reported twice when it recovers.\<close>

theorem waiting_threads_recover_witness:
  "\<exists>l' s'. try_recover (demo_list\<lparr>tl_bad_barriers := [(4, [2]), (3, [2])]\<rparr>)
      ((\<lambda>_. demo_sleeper)(2 := set_flag FLAG_BAD demo_sleeper)) = ([2, 2], l', s')
    \<and> \<not> flagged_bad (s' 2) \<and> tl_bad_barriers l' = []"
proof -
  define l where "l = demo_list\<lparr>tl_bad_barriers := [(4, [2]), (3, [2])]\<rparr>"
  define s :: store where "s = (\<lambda>_. demo_sleeper)(2 := set_flag FLAG_BAD demo_sleeper)"
  obtain rec l' s' where r: "try_recover l s = (rec, l', s')" by (cases "try_recover l s") auto
  have "waiting (s t)" for t by (simp add: s_def)
  then have "rec = [2, 2]" "\<not> flagged_bad (s' 2)" "tl_bad_barriers l' = []"
    using waiting_threads_recover [OF r] by (simp_all add: l_def)
  then show ?thesis using r by (simp add: l_def s_def)
qed

definition demo_prepared :: store where
  "demo_prepared = (\<lambda>_. demo_sleeper)(2 := demo_sleeper\<lparr>th_finalize_prepared := True\<rparr>)"

theorem hold_all_or_none_witness:
  "set_prepfin_hold_all True demo_list demo_prepared = (Some Hold_failed, demo_prepared)
   \<and> fst (set_prepfin_hold_all True demo_list (\<lambda>_. demo_sleeper)) = None"
proof -
  have h: "\<forall>t \<in> set (tl_threads demo_list). \<not> th_prepfin_hold (demo_prepared t)"
    "\<forall>t \<in> set (tl_threads demo_list). \<not> th_prepfin_hold ((\<lambda>_. demo_sleeper) t)"
    and p: "th_finalize_prepared (demo_prepared 2)" "\<not> th_finalize_prepared demo_sleeper" "tl_threads demo_list = [1, 2, 3]"
    by (simp_all add: demo_list_def demo_sleeper_def demo_prepared_def)
  show ?thesis using hold_all_or_none [OF h(1)] hold_all_or_none [OF h(2)] p by simp
qed

text \<open>The second of three threads fails in its \<open>init()\<close>.\<close>

definition demo_callbacks :: callbacks where
  "demo_callbacks = \<lparr>cb_initializer_init = (\<lambda>_. None), cb_init = (\<lambda>t. if t = 2 then Some Std_exception else None),
     cb_finalizer_prepare = (\<lambda>_. Inr True), cb_prepare = (\<lambda>t. if t = 3 then Inl Cannot_finalize else Inr True),
     cb_finalizer_finalize = (\<lambda>_. None), cb_finalize = (\<lambda>_. Some Other_exception)\<rparr>"

theorem failed_init_rolls_back_witness:
  "\<exists>cs. tl_init demo_callbacks [1, 2, 3] = (Some Cannot_initialize, cs) \<and> finalized cs = [1] \<and> finalizer_called cs = [2, 1]"
proof -
  obtain r cs where i: "tl_init demo_callbacks [1, 2, 3] = (r, cs)" by (cases "tl_init demo_callbacks [1, 2, 3]")
  have "\<forall>t \<in> set [1, 2, 3]. can_finalize demo_callbacks t"
    and "\<forall>t \<in> set [1, 2, 3]. \<forall>e. cb_initializer_init demo_callbacks t = Some e \<longrightarrow> is_Exception e"
    by (simp_all add: can_finalize_def demo_callbacks_def)
  from failed_init_rolls_back [OF this i] show ?thesis
    using i by (simp add: init_ok_def demo_callbacks_def)
qed

theorem force_stop_outcome_witness:
  "fst (force_stop demo_callbacks [1, 2, 3]) = None \<and> (\<forall>t. Cancel t \<notin> set (snd (force_stop demo_callbacks [1, 2, 3])))"
proof -
  obtain p cs where p: "tl_prepare_finalize demo_callbacks [1, 2, 3] = (p, cs)"
    by (cases "tl_prepare_finalize demo_callbacks [1, 2, 3]")
  then have "p = Inl Cannot_finalize" by (simp add: tl_prepare_finalize_def demo_callbacks_def)
  then show ?thesis using force_stop_outcome [OF p] by (auto simp: is_Exception_def)
qed

end
