(* ===== verification/Exceptions.thy ===== *)
theory Exceptions
  imports Main "HOL-Library.Monad_Syntax"
begin

text \<open>
  \<open>libs/core/exception.cpp\<close>: an exception carries a linked list of messages with a pointer to its last
  node. The nodes live on a heap; a message is the text that \<open>vasprintf\<close> has made of a format and its
  arguments. The refinement: the list in memory is the list of messages a program has put together.
\<close>

section \<open>Nodes and exceptions\<close>

text \<open>A node has a message and the address of the next one.\<close>

record node_heap =
  nh_nodes :: "nat \<Rightarrow> (string \<times> nat option) option"
  nh_next :: nat

record exn =
  ex_messages :: "nat option"
  ex_end :: "nat option"
  ex_errno :: int
  ex_type_id :: string

datatype exn_error =
    Undefined_format
  | Self_deadlock
  | No_exception

definition malloc_node :: "string \<Rightarrow> nat option \<Rightarrow> node_heap \<Rightarrow> nat \<times> node_heap" where
  "malloc_node msg next h =
     (nh_next h, h\<lparr>nh_nodes := (nh_nodes h)(nh_next h \<mapsto> (msg, next)), nh_next := nh_next h + 1\<rparr>)"

definition set_next :: "nat \<Rightarrow> nat \<Rightarrow> node_heap \<Rightarrow> node_heap" where
  "set_next a next h =
     h\<lparr>nh_nodes := (nh_nodes h)(a := map_option (\<lambda>(m, _). (m, Some next)) (nh_nodes h a))\<rparr>"

section \<open>Formats without arguments\<close>

text \<open>
  What \<open>vasprintf\<close> makes of a format when there are no arguments: two percent signs stand for one, and
  any other conversion reads an argument that is not there.
\<close>

fun format_plain :: "string \<Rightarrow> string option" where
  "format_plain [] = Some []"
| "format_plain (c # cs) =
     (if c = CHR ''%''
      then case cs of d # ds \<Rightarrow> if d = CHR ''%'' then map_option ((#) d) (format_plain ds) else None | [] \<Rightarrow> None
      else map_option ((#) c) (format_plain cs))"

section \<open>Appending and prepending\<close>

definition append_message :: "string \<Rightarrow> exn \<Rightarrow> node_heap \<Rightarrow> exn \<times> node_heap" where
  "append_message msg e h =
     (let (ml, h) = malloc_node msg None h
      in case ex_messages e of
           None \<Rightarrow> (e\<lparr>ex_messages := Some ml, ex_end := Some ml\<rparr>, h)
         | Some _ \<Rightarrow>
             (e\<lparr>ex_end := Some ml\<rparr>, case ex_end e of Some l \<Rightarrow> set_next l ml h | None \<Rightarrow> h))"

definition prepend_message :: "string \<Rightarrow> exn \<Rightarrow> node_heap \<Rightarrow> exn \<times> node_heap" where
  "prepend_message msg e h =
     (case ex_messages e of
        None \<Rightarrow> (let (ml, h) = malloc_node msg None h in (e\<lparr>ex_messages := Some ml, ex_end := Some ml\<rparr>, h))
      | Some first \<Rightarrow> (let (ml, h) = malloc_node msg (Some first) h in (e\<lparr>ex_messages := Some ml\<rparr>, h)))"

text \<open>The public operations do nothing for a null format.\<close>

definition Exception_append :: "string option \<Rightarrow> exn \<Rightarrow> node_heap \<Rightarrow> exn \<times> node_heap" where
  "Exception_append msg e h = (case msg of None \<Rightarrow> (e, h) | Some m \<Rightarrow> append_message m e h)"

definition Exception_prepend :: "string option \<Rightarrow> exn \<Rightarrow> node_heap \<Rightarrow> exn \<times> node_heap" where
  "Exception_prepend msg e h = (case msg of None \<Rightarrow> (e, h) | Some m \<Rightarrow> prepend_message m e h)"

definition Exception_empty :: exn where
  "Exception_empty = \<lparr>ex_messages = None, ex_end = None, ex_errno = 0, ex_type_id = ''unknown''\<rparr>"

definition Exception_new :: "string option \<Rightarrow> node_heap \<Rightarrow> exn \<times> node_heap" where
  "Exception_new msg h =
     append_message (case msg of Some m \<Rightarrow> m | None \<Rightarrow> ''Unnkown Exception'') Exception_empty h"

text \<open>\<open>errno_text\<close>: what the format with the error number gives.\<close>

definition Exception_errno :: "int \<Rightarrow> string \<Rightarrow> node_heap \<Rightarrow> exn \<times> node_heap" where
  "Exception_errno n errno_text h = append_message errno_text (Exception_empty\<lparr>ex_errno := n\<rparr>) h"

section \<open>Copying\<close>

text \<open>
  The loop of \<open>copy_messages\<close>: every message of the other exception is used as a format. The loop
  follows the pointers; \<open>None\<close> would be a loop that does not end, or a wild pointer.
\<close>

partial_function (option) copy_loop :: "nat option \<Rightarrow> exn \<Rightarrow> node_heap \<Rightarrow> (exn_error + exn \<times> node_heap) option" where
  "copy_loop it e h =
     (case it of
        None \<Rightarrow> Some (Inr (e, h))
      | Some a \<Rightarrow>
          do { (msg, next) \<leftarrow> nh_nodes h a;
               case format_plain msg of
                 None \<Rightarrow> Some (Inl Undefined_format)
               | Some m \<Rightarrow> (let (e, h) = append_message m e h in copy_loop next e h) })"

text \<open>\<open>same\<close>: both are the same object, so that the second lock waits for the first.\<close>

definition copy_messages :: "bool \<Rightarrow> exn \<Rightarrow> exn \<Rightarrow> node_heap \<Rightarrow> (exn_error + exn \<times> node_heap) option" where
  "copy_messages same exc e h = (if same then Some (Inl Self_deadlock) else copy_loop (ex_messages exc) e h)"

definition Exception_copy :: "exn \<Rightarrow> node_heap \<Rightarrow> (exn_error + exn \<times> node_heap) option" where
  "Exception_copy exc h =
     copy_messages False exc (Exception_empty\<lparr>ex_errno := ex_errno exc, ex_type_id := ex_type_id exc\<rparr>) h"

text \<open>\<open>append\<close> of an exception, and the assignment, which keeps the messages, the number and the type.\<close>

definition Exception_append_exc :: "bool \<Rightarrow> exn \<Rightarrow> exn \<Rightarrow> node_heap \<Rightarrow> (exn_error + exn \<times> node_heap) option" where
  "Exception_append_exc same exc e h = copy_messages same exc e h"

definition Exception_assign :: "bool \<Rightarrow> exn \<Rightarrow> exn \<Rightarrow> node_heap \<Rightarrow> (exn_error + exn \<times> node_heap) option" where
  "Exception_assign same exc e h = copy_messages same exc e h"

section \<open>Reading\<close>

definition Exception_what :: "exn \<Rightarrow> node_heap \<Rightarrow> string option" where
  "Exception_what e h =
     (case ex_messages e of None \<Rightarrow> Some ''Unknown error'' | Some a \<Rightarrow> map_option fst (nh_nodes h a))"

definition iterator_next :: "nat option \<Rightarrow> node_heap \<Rightarrow> nat option" where
  "iterator_next it h = (case it of None \<Rightarrow> None | Some a \<Rightarrow> Option.bind (nh_nodes h a) snd)"

definition iterator_message :: "nat option \<Rightarrow> node_heap \<Rightarrow> string option" where
  "iterator_message it h = (case it of None \<Rightarrow> None | Some a \<Rightarrow> map_option fst (nh_nodes h a))"

text \<open>The destructor frees the nodes one after the other.\<close>

partial_function (option) free_loop :: "nat option \<Rightarrow> node_heap \<Rightarrow> node_heap option" where
  "free_loop it h =
     (case it of
        None \<Rightarrow> Some h
      | Some a \<Rightarrow>
          do { (msg, next) \<leftarrow> nh_nodes h a;
               free_loop next (h\<lparr>nh_nodes := (nh_nodes h)(a := None)\<rparr>) })"

definition Exception_destroy :: "exn \<Rightarrow> node_heap \<Rightarrow> node_heap option" where
  "Exception_destroy e h = free_loop (ex_messages e) h"

section \<open>Programs with exceptions\<close>

datatype exn_op =
    Throw "string option"
  | Throw_errno int string
  | Append nat "string option"
  | Prepend nat "string option"
  | Copy_exn nat
  | Append_exn nat nat
  | Assign_exn nat nat

type_synonym exn_state = "exn list \<times> node_heap"

fun exn_step :: "exn_op \<Rightarrow> exn_state \<Rightarrow> (exn_error + exn_state) option" where
  "exn_step (Throw msg) (es, h) = (let (e, h) = Exception_new msg h in Some (Inr (es @ [e], h)))"
| "exn_step (Throw_errno n errtext) (es, h) = (let (e, h) = Exception_errno n errtext h in Some (Inr (es @ [e], h)))"
| "exn_step (Append i msg) (es, h) =
     (if i < length es then let (e, h) = Exception_append msg (es ! i) h in Some (Inr (es[i := e], h))
      else Some (Inl No_exception))"
| "exn_step (Prepend i msg) (es, h) =
     (if i < length es then let (e, h) = Exception_prepend msg (es ! i) h in Some (Inr (es[i := e], h))
      else Some (Inl No_exception))"
| "exn_step (Copy_exn i) (es, h) =
     (if i < length es
      then map_option (map_sum id (\<lambda>(e, h). (es @ [e], h))) (Exception_copy (es ! i) h)
      else Some (Inl No_exception))"
| "exn_step (Append_exn i j) (es, h) =
     (if i < length es \<and> j < length es
      then map_option (map_sum id (\<lambda>(e, h). (es[i := e], h))) (Exception_append_exc (i = j) (es ! j) (es ! i) h)
      else Some (Inl No_exception))"
| "exn_step (Assign_exn i j) (es, h) =
     (if i < length es \<and> j < length es
      then map_option (map_sum id (\<lambda>(e, h). (es[i := e], h))) (Exception_assign (i = j) (es ! j) (es ! i) h)
      else Some (Inl No_exception))"

fun exn_run :: "exn_op list \<Rightarrow> exn_state \<Rightarrow> (exn_error + exn_state) option" where
  "exn_run [] s = Some (Inr s)"
| "exn_run (op # ops) s =
     (case exn_step op s of Some (Inr s') \<Rightarrow> exn_run ops s' | r \<Rightarrow> r)"

section \<open>The abstract lists of messages\<close>

text \<open>The specification: an exception is its list of messages.\<close>

definition format_all :: "string list \<Rightarrow> exn_error + string list" where
  "format_all ms = (if \<forall>m \<in> set ms. format_plain m \<noteq> None then Inr (map (\<lambda>m. the (format_plain m)) ms) else Inl Undefined_format)"

fun spec_step :: "exn_op \<Rightarrow> string list list \<Rightarrow> exn_error + string list list" where
  "spec_step (Throw msg) s = Inr (s @ [[case msg of Some m \<Rightarrow> m | None \<Rightarrow> ''Unnkown Exception'']])"
| "spec_step (Throw_errno n errtext) s = Inr (s @ [[errtext]])"
| "spec_step (Append i msg) s =
     (if i < length s then Inr (s[i := s ! i @ (case msg of Some m \<Rightarrow> [m] | None \<Rightarrow> [])]) else Inl No_exception)"
| "spec_step (Prepend i msg) s =
     (if i < length s then Inr (s[i := (case msg of Some m \<Rightarrow> [m] | None \<Rightarrow> []) @ s ! i]) else Inl No_exception)"
| "spec_step (Copy_exn i) s =
     (if i < length s then map_sum id (\<lambda>ms. s @ [ms]) (format_all (s ! i)) else Inl No_exception)"
| "spec_step (Append_exn i j) s =
     (if i < length s \<and> j < length s
      then if i = j then Inl Self_deadlock else map_sum id (\<lambda>ms. s[i := s ! i @ ms]) (format_all (s ! j))
      else Inl No_exception)"
| "spec_step (Assign_exn i j) s =
     (if i < length s \<and> j < length s
      then if i = j then Inl Self_deadlock else map_sum id (\<lambda>ms. s[i := s ! i @ ms]) (format_all (s ! j))
      else Inl No_exception)"

fun spec_run :: "exn_op list \<Rightarrow> string list list \<Rightarrow> exn_error + string list list" where
  "spec_run [] s = Inr s"
| "spec_run (op # ops) s = (case spec_step op s of Inl e \<Rightarrow> Inl e | Inr s' \<Rightarrow> spec_run ops s')"

section \<open>Chains of nodes\<close>

fun chain :: "node_heap \<Rightarrow> nat option \<Rightarrow> nat list \<Rightarrow> string list \<Rightarrow> bool" where
  "chain h p [] ms \<longleftrightarrow> p = None \<and> ms = []"
| "chain h p (a # as) ms \<longleftrightarrow>
     p = Some a \<and> (\<exists>m q ms'. nh_nodes h a = Some (m, q) \<and> ms = m # ms' \<and> chain h q as ms')"

text \<open>The exception \<open>e\<close> has its nodes at \<open>as\<close> and the messages \<open>ms\<close>.\<close>

definition holds :: "node_heap \<Rightarrow> exn \<Rightarrow> nat list \<Rightarrow> string list \<Rightarrow> bool" where
  "holds h e as ms \<longleftrightarrow> chain h (ex_messages e) as ms \<and> distinct as \<and> (\<forall>a \<in> set as. a < nh_next h)
     \<and> ex_end e = (if as = [] then None else Some (last as))"

lemma chain_frame: "(\<And>a. a \<in> set as \<Longrightarrow> nh_nodes h' a = nh_nodes h a) \<Longrightarrow> chain h' p as ms = chain h p as ms"
  by (induction as arbitrary: p ms) auto

lemma chain_length: "chain h p as ms \<Longrightarrow> length ms = length as"
  by (induction as arbitrary: p ms) auto

lemma holds_frame:
  "holds h e as ms \<Longrightarrow> (\<And>a. a \<in> set as \<Longrightarrow> nh_nodes h' a = nh_nodes h a) \<Longrightarrow> nh_next h \<le> nh_next h' \<Longrightarrow> holds h' e as ms"
  using chain_frame [of as h' h] by (auto simp: holds_def)

lemma chain_snoc:
  assumes "chain h p as ms" and "as \<noteq> []" and "distinct as" and "n \<notin> set as"
    and "nh_nodes h' n = Some (msg, None)" and "nh_nodes h' (last as) = map_option (\<lambda>(m, _). (m, Some n)) (nh_nodes h (last as))"
    and "\<And>a. a \<in> set (butlast as) \<Longrightarrow> nh_nodes h' a = nh_nodes h a"
  shows "chain h' p (as @ [n]) (ms @ [msg])"
  using assms
proof (induction as arbitrary: p ms)
  case (Cons a as)
  show ?case
  proof (cases "as = []")
    case True
    then show ?thesis using Cons.prems by auto
  next
    case False
    then obtain m q ms' where m: "p = Some a" "nh_nodes h a = Some (m, q)" "ms = m # ms'" "chain h q as ms'"
      using Cons.prems(1) by auto
    have "nh_nodes h' a = nh_nodes h a" using Cons.prems(7) [of a] False by simp
    moreover have "chain h' q (as @ [n]) (ms' @ [msg])"
      using Cons.IH [OF m(4) False _ _ Cons.prems(5)] Cons.prems(3,4,6,7) False by simp
    ultimately show ?thesis using m by simp
  qed
qed simp

lemma append_message_holds:
  assumes "holds h e as ms" and "append_message msg e h = (e', h')"
  shows "holds h' e' (as @ [nh_next h]) (ms @ [msg]) \<and> nh_next h' = Suc (nh_next h)
    \<and> (\<forall>a. a \<notin> set as \<longrightarrow> a \<noteq> nh_next h \<longrightarrow> nh_nodes h' a = nh_nodes h a)
    \<and> ex_errno e' = ex_errno e \<and> ex_type_id e' = ex_type_id e"
proof (cases as)
  case Nil
  then show ?thesis using assms by (auto simp: holds_def append_message_def malloc_node_def)
next
  case (Cons a bs)
  then have p: "ex_messages e = Some a" "ex_end e = Some (last as)" using assms(1) by (auto simp: holds_def)
  have n: "nh_next h \<notin> set as" using assms(1) by (auto simp: holds_def)
  have la: "last as \<in> set as" using Cons by simp
  then have lad: "last as \<noteq> nh_next h" using n by auto
  have h': "h' = set_next (last as) (nh_next h) (snd (malloc_node msg None h))" and e': "e' = e\<lparr>ex_end := Some (nh_next h)\<rparr>"
    using assms(2) p by (auto simp: append_message_def malloc_node_def)
  have nodes: "nh_nodes h' (nh_next h) = Some (msg, None)"
    "nh_nodes h' (last as) = map_option (\<lambda>(m, _). (m, Some (nh_next h))) (nh_nodes h (last as))"
    "\<And>b. b \<noteq> last as \<Longrightarrow> b \<noteq> nh_next h \<Longrightarrow> nh_nodes h' b = nh_nodes h b"
    using lad by (simp_all add: h' set_next_def malloc_node_def)
  have d: "distinct as" using assms(1) by (simp add: holds_def)
  have bl: "nh_nodes h' b = nh_nodes h b" if "b \<in> set (butlast as)" for b
  proof (rule nodes(3))
    show "b \<noteq> last as" using that d Cons by (metis append_butlast_last_id distinct_append disjoint_insert(1) list.distinct(1) list.simps(15))
    show "b \<noteq> nh_next h" using that n in_set_butlastD by metis
  qed
  have "chain h' (ex_messages e) (as @ [nh_next h]) (ms @ [msg])"
    using chain_snoc [OF _ _ d n nodes(1,2) bl] assms(1) Cons by (simp add: holds_def)
  then have "holds h' e' (as @ [nh_next h]) (ms @ [msg])"
    using assms(1) n by (auto simp: holds_def e' h' set_next_def malloc_node_def)
  then show ?thesis using nodes(3) la by (auto simp: e') (auto simp: h' set_next_def malloc_node_def)
qed

lemma prepend_message_holds:
  assumes "holds h e as ms" and "prepend_message msg e h = (e', h')"
  shows "holds h' e' (nh_next h # as) (msg # ms) \<and> nh_next h' = Suc (nh_next h)
    \<and> (\<forall>a. a \<noteq> nh_next h \<longrightarrow> nh_nodes h' a = nh_nodes h a)"
proof -
  have n: "nh_next h \<notin> set as" using assms(1) by (auto simp: holds_def)
  have h': "nh_next h' = Suc (nh_next h)" "ex_messages e' = Some (nh_next h)"
    "nh_nodes h' (nh_next h) = Some (msg, ex_messages e)" "\<And>a. a \<noteq> nh_next h \<Longrightarrow> nh_nodes h' a = nh_nodes h a"
    "ex_end e' = (if ex_messages e = None then Some (nh_next h) else ex_end e)"
    using assms(2) by (auto simp: prepend_message_def malloc_node_def split: option.splits)
  have "chain h' (ex_messages e) as ms"
    using assms(1) n h'(4) chain_frame [of as h' h] by (metis holds_def)
  then show ?thesis using assms(1) n h' by (cases as) (auto simp: holds_def less_Suc_eq)
qed

section \<open>Copying follows the chain\<close>

lemma format_all_Cons:
  "format_all (m # ms) =
    (case format_plain m of None \<Rightarrow> Inl Undefined_format | Some f \<Rightarrow> map_sum id (\<lambda>fs. f # fs) (format_all ms))"
  by (auto simp: format_all_def split: option.splits)

lemma copy_loop_spec:
  "chain h it bs ns \<Longrightarrow> holds h e as ms \<Longrightarrow> set as \<inter> set bs = {} \<Longrightarrow> \<forall>b \<in> set bs. b < nh_next h \<Longrightarrow>
    (case format_all ns of
       Inl er \<Rightarrow> copy_loop it e h = Some (Inl er)
     | Inr fs \<Rightarrow> \<exists>e' h' cs. copy_loop it e h = Some (Inr (e', h')) \<and> holds h' e' (as @ cs) (ms @ fs)
         \<and> (\<forall>c \<in> set cs. nh_next h \<le> c) \<and> nh_next h \<le> nh_next h'
         \<and> (\<forall>a. a \<notin> set as \<longrightarrow> a < nh_next h \<longrightarrow> nh_nodes h' a = nh_nodes h a))"
proof (induction bs arbitrary: it ns e h as ms)
  case Nil
  then have "it = None" "ns = []" by simp_all
  then show ?case
    using Nil.prems(2) by (auto simp: format_all_def copy_loop.simps intro!: exI [of _ "[]"])
next
  case (Cons b bs)
  obtain n q ns' where b: "it = Some b" "nh_nodes h b = Some (n, q)" "ns = n # ns'" "chain h q bs ns'"
    using Cons.prems(1) by auto
  show ?case
  proof (cases "format_plain n")
    case None
    then show ?thesis by (simp add: b copy_loop.simps [of "Some b"] format_all_Cons)
  next
    case (Some f)
    obtain e1 h1 where a: "append_message f e h = (e1, h1)" by (cases "append_message f e h")
    note step = append_message_holds [OF Cons.prems(2) a]
    have loop: "copy_loop it e h = copy_loop q e1 h1"
      by (simp add: b copy_loop.simps [of "Some b"] Some a)
    have same: "nh_nodes h1 c = nh_nodes h c" if "c \<in> set bs" for c
      using step Cons.prems(3,4) that by force
    then have c1: "chain h1 q bs ns'" using chain_frame [of bs h1 h] b(4) by blast
    have disj: "set (as @ [nh_next h]) \<inter> set bs = {}" using Cons.prems(3,4) by force
    have less: "\<forall>c \<in> set bs. c < nh_next h1" using Cons.prems(4) step by auto
    note ih = Cons.IH [OF c1 conjunct1 [OF step] disj less]
    show ?thesis
    proof (cases "format_all ns'")
      case (Inl er)
      then show ?thesis using ih loop by (simp add: b format_all_Cons Some)
    next
      case (Inr fs)
      then obtain e' h' cs where r: "copy_loop q e1 h1 = Some (Inr (e', h'))"
        "holds h' e' ((as @ [nh_next h]) @ cs) ((ms @ [f]) @ fs)" "\<forall>c \<in> set cs. nh_next h1 \<le> c" "nh_next h1 \<le> nh_next h'"
        "\<forall>a. a \<notin> set (as @ [nh_next h]) \<longrightarrow> a < nh_next h1 \<longrightarrow> nh_nodes h' a = nh_nodes h1 a"
        using ih by auto
      have "\<forall>c \<in> set (nh_next h # cs). nh_next h \<le> c" using r(3) step by (auto dest: Suc_leD)
      moreover have "\<forall>a. a \<notin> set as \<longrightarrow> a < nh_next h \<longrightarrow> nh_nodes h' a = nh_nodes h a" using r(5) step by auto
      moreover have "nh_next h \<le> nh_next h'" using r(4) step by simp
      moreover have "holds h' e' (as @ nh_next h # cs) (ms @ f # fs)" using r(2) by simp
      ultimately have "\<exists>e' h' cs. copy_loop it e h = Some (Inr (e', h')) \<and> holds h' e' (as @ cs) (ms @ f # fs)
         \<and> (\<forall>c \<in> set cs. nh_next h \<le> c) \<and> nh_next h \<le> nh_next h'
         \<and> (\<forall>a. a \<notin> set as \<longrightarrow> a < nh_next h \<longrightarrow> nh_nodes h' a = nh_nodes h a)"
        using r(1) loop by metis
      then show ?thesis using Inr by (simp add: b format_all_Cons Some)
    qed
  qed
qed

lemma free_loop_spec:
  "chain h it as ms \<Longrightarrow> distinct as \<Longrightarrow>
    \<exists>h'. free_loop it h = Some h' \<and> nh_nodes h' = (\<lambda>a. if a \<in> set as then None else nh_nodes h a)"
proof (induction as arbitrary: it ms h)
  case Nil
  then show ?case by (simp add: free_loop.simps)
next
  case (Cons a as)
  obtain m q ms' where a: "it = Some a" "nh_nodes h a = Some (m, q)" "chain h q as ms'" using Cons.prems(1) by auto
  define h1 where "h1 = h\<lparr>nh_nodes := (nh_nodes h)(a := None)\<rparr>"
  have "nh_nodes h1 b = nh_nodes h b" if "b \<in> set as" for b using that Cons.prems(2) by (auto simp: h1_def)
  then have "chain h1 q as ms'" using chain_frame [of as h1 h] a(3) by blast
  then obtain h' where "free_loop q h1 = Some h'" "nh_nodes h' = (\<lambda>b. if b \<in> set as then None else nh_nodes h1 b)"
    using Cons.IH Cons.prems(2) by fastforce
  then show ?case by (auto simp: a free_loop.simps [of "Some a"] h1_def fun_eq_iff)
qed

section \<open>The refinement\<close>

definition separate :: "nat list list \<Rightarrow> bool" where
  "separate ass \<longleftrightarrow> (\<forall>i < length ass. \<forall>j < length ass. i \<noteq> j \<longrightarrow> set (ass ! i) \<inter> set (ass ! j) = {})"

text \<open>The exceptions of a program, at the nodes \<open>ass\<close>, have the messages \<open>s\<close>.\<close>

definition represents :: "nat list list \<Rightarrow> exn_state \<Rightarrow> string list list \<Rightarrow> bool" where
  "represents ass st s \<longleftrightarrow> length (fst st) = length ass \<and> length s = length ass \<and> separate ass
     \<and> (\<forall>i < length ass. holds (snd st) (fst st ! i) (ass ! i) (s ! i))"

text \<open>An exception is changed, or a new one is made, at its own nodes and fresh ones.\<close>

definition extends_nodes :: "node_heap \<Rightarrow> nat list \<Rightarrow> node_heap \<Rightarrow> nat list \<Rightarrow> bool" where
  "extends_nodes h as h' as' \<longleftrightarrow> (\<forall>a \<in> set as'. a \<in> set as \<or> nh_next h \<le> a) \<and> nh_next h \<le> nh_next h'
     \<and> (\<forall>a. a \<notin> set as \<longrightarrow> a < nh_next h \<longrightarrow> nh_nodes h' a = nh_nodes h a)"

lemma holds_extends:
  assumes "holds h e bs ns" and "set bs \<inter> set as = {}" and "extends_nodes h as h' as'"
  shows "holds h' e bs ns \<and> set bs \<inter> set as' = {}"
proof -
  have lt: "\<forall>b \<in> set bs. b < nh_next h" using assms(1) by (simp add: holds_def)
  then have "nh_nodes h' b = nh_nodes h b" if "b \<in> set bs" for b
    using assms(2,3) that by (auto simp: extends_nodes_def)
  then show ?thesis
    using holds_frame [OF assms(1)] assms(2,3) lt by (fastforce simp: extends_nodes_def)
qed

lemma represents_update:
  assumes r: "represents ass (es, h) s" and i: "i < length ass" and e: "extends_nodes h (ass ! i) h' as'" "holds h' e' as' ms'"
  shows "represents (ass[i := as']) (es[i := e'], h') (s[i := ms'])"
proof -
  have o: "holds h' (es ! j) (ass ! j) (s ! j) \<and> set (ass ! j) \<inter> set as' = {}" if "j < length ass" "j \<noteq> i" for j
    using r that i by (intro holds_extends [OF _ _ e(1)]) (auto simp: represents_def separate_def)
  then have "separate (ass[i := as'])"
    using r i by (auto simp: represents_def separate_def nth_list_update)
  then show ?thesis using r i o e(2) by (auto simp: represents_def nth_list_update)
qed

lemma represents_new:
  assumes r: "represents ass (es, h) s" and e: "extends_nodes h [] h' as'" "holds h' e' as' ms'"
  shows "represents (ass @ [as']) (es @ [e'], h') (s @ [ms'])"
proof -
  have o: "holds h' (es ! j) (ass ! j) (s ! j) \<and> set (ass ! j) \<inter> set as' = {}" if "j < length ass" for j
    using r that by (intro holds_extends [OF _ _ e(1)]) (auto simp: represents_def)
  then have "separate (ass @ [as'])"
    using r by (auto simp: represents_def separate_def nth_append less_Suc_eq Int_commute)
  then show ?thesis using r o e(2) by (auto simp: represents_def nth_append)
qed

lemma append_extends:
  "holds h e as ms \<Longrightarrow> append_message msg e h = (e', h') \<Longrightarrow>
    holds h' e' (as @ [nh_next h]) (ms @ [msg]) \<and> extends_nodes h as h' (as @ [nh_next h])"
  using append_message_holds [of h e as ms msg e' h'] by (auto simp: extends_nodes_def)

lemma prepend_extends:
  "holds h e as ms \<Longrightarrow> prepend_message msg e h = (e', h') \<Longrightarrow>
    holds h' e' (nh_next h # as) (msg # ms) \<and> extends_nodes h as h' (nh_next h # as)"
  using prepend_message_holds [of h e as ms msg e' h'] by (auto simp: extends_nodes_def)

lemma copy_extends:
  assumes "holds h exc bs ns" and "holds h e as ms" and "set as \<inter> set bs = {}"
  shows "case format_all ns of
       Inl er \<Rightarrow> copy_messages False exc e h = Some (Inl er)
     | Inr fs \<Rightarrow> \<exists>e' h' as'. copy_messages False exc e h = Some (Inr (e', h')) \<and> holds h' e' as' (ms @ fs) \<and> extends_nodes h as h' as'"
proof -
  have "chain h (ex_messages exc) bs ns" "\<forall>b \<in> set bs. b < nh_next h" using assms(1) by (simp_all add: holds_def)
  note spec = copy_loop_spec [OF this(1) assms(2,3) this(2)]
  show ?thesis
  proof (cases "format_all ns")
    case (Inr fs)
    then obtain e' h' cs where c: "copy_loop (ex_messages exc) e h = Some (Inr (e', h'))" "holds h' e' (as @ cs) (ms @ fs)"
      "\<forall>c \<in> set cs. nh_next h \<le> c" "nh_next h \<le> nh_next h'"
      "\<forall>a. a \<notin> set as \<longrightarrow> a < nh_next h \<longrightarrow> nh_nodes h' a = nh_nodes h a"
      using spec by auto
    then have "extends_nodes h as h' (as @ cs)" by (auto simp: extends_nodes_def)
    then show ?thesis using Inr c(1,2) by (auto simp: copy_messages_def)
  qed (use spec in \<open>simp add: copy_messages_def\<close>)
qed

lemma holds_empty [simp]: "holds h (Exception_empty\<lparr>ex_errno := n, ex_type_id := t\<rparr>) [] []"
  "holds h (Exception_empty\<lparr>ex_errno := n\<rparr>) [] []" "holds h Exception_empty [] []"
  by (simp_all add: holds_def Exception_empty_def)

lemma represents_nth:
  "represents ass (es, h) s \<Longrightarrow> i < length es \<Longrightarrow> i < length ass \<and> i < length s \<and> holds h (es ! i) (ass ! i) (s ! i)"
  by (simp add: represents_def)

lemma represents_lengths: "represents ass (es, h) s \<Longrightarrow> length es = length s"
  by (simp add: represents_def)

lemma extends_nodes_refl: "extends_nodes h as h as"
  by (simp add: extends_nodes_def)

lemma nil_messages: "(case msg of None \<Rightarrow> ms | Some m \<Rightarrow> ms @ [m]) = ms @ (case msg of Some m \<Rightarrow> [m] | None \<Rightarrow> [])"
  by (cases msg) auto

text \<open>One step of the program is one step of the specification.\<close>

lemma copy_simulates:
  assumes r: "represents ass (es, h) s" and ij: "i < length es" "j < length es" "i \<noteq> j"
  shows "\<exists>res. map_option (map_sum id (\<lambda>(e, h). (es[i := e], h))) (copy_messages False (es ! j) (es ! i) h) = Some res
    \<and> (case map_sum id (\<lambda>ms. s[i := s ! i @ ms]) (format_all (s ! j)) of
         Inl er \<Rightarrow> res = Inl er
       | Inr s' \<Rightarrow> \<exists>st' ass'. res = Inr st' \<and> represents ass' st' s')"
proof -
  have "set (ass ! i) \<inter> set (ass ! j) = {}"
    using r ij by (simp add: represents_def separate_def)
  note spec = copy_extends [OF _ _ this, of h "es ! j" "s ! j" "es ! i" "s ! i"]
  note spec = spec [OF conjunct2 [OF conjunct2 [OF represents_nth [OF r ij(2)]]]
    conjunct2 [OF conjunct2 [OF represents_nth [OF r ij(1)]]]]
  show ?thesis
  proof (cases "format_all (s ! j)")
    case (Inr fs)
    then obtain e' h' as' where c: "copy_messages False (es ! j) (es ! i) h = Some (Inr (e', h'))"
      "holds h' e' as' (s ! i @ fs)" "extends_nodes h (ass ! i) h' as'" using spec by auto
    then show ?thesis
      using represents_update [OF r _ c(3,2)] represents_nth [OF r ij(1)] Inr by auto
  qed (use spec in simp)
qed

lemma step_simulates:
  assumes r: "represents ass (es, h) s"
  shows "\<exists>res. exn_step op (es, h) = Some res \<and> (case spec_step op s of
      Inl er \<Rightarrow> res = Inl er | Inr s' \<Rightarrow> \<exists>st' ass'. res = Inr st' \<and> represents ass' st' s')"
proof (cases op)
  case (Throw msg)
  obtain e' h' where a: "Exception_new msg h = (e', h')" by (cases "Exception_new msg h")
  then have "append_message (case msg of Some m \<Rightarrow> m | None \<Rightarrow> ''Unnkown Exception'') Exception_empty h = (e', h')"
    by (simp add: Exception_new_def)
  from append_extends [OF holds_empty(3) this] show ?thesis
    using represents_new [OF r, of h' "[nh_next h]" e'] Throw a by (cases msg) fastforce+
next
  case (Throw_errno n errtext)
  obtain e' h' where a: "Exception_errno n errtext h = (e', h')" by (cases "Exception_errno n errtext h")
  then have "append_message errtext (Exception_empty\<lparr>ex_errno := n\<rparr>) h = (e', h')" by (simp add: Exception_errno_def)
  from append_extends [OF holds_empty(2) this] show ?thesis
    using represents_new [OF r, of h' "[nh_next h]" e'] Throw_errno a by fastforce
next
  case (Append i msg)
  show ?thesis
  proof (cases "i < length es")
    case True
    note n = represents_nth [OF r True]
    obtain e' h' where a: "Exception_append msg (es ! i) h = (e', h')" by (cases "Exception_append msg (es ! i) h")
    have "\<exists>as'. holds h' e' as' (s ! i @ (case msg of Some m \<Rightarrow> [m] | None \<Rightarrow> [])) \<and> extends_nodes h (ass ! i) h' as'"
      using a n append_extends [of h "es ! i" "ass ! i" "s ! i"]
      by (cases msg) (auto simp: Exception_append_def intro: extends_nodes_refl)
    then show ?thesis using represents_update [OF r] n Append a True by fastforce
  qed (use Append represents_lengths [OF r] in simp)
next
  case (Prepend i msg)
  show ?thesis
  proof (cases "i < length es")
    case True
    note n = represents_nth [OF r True]
    obtain e' h' where a: "Exception_prepend msg (es ! i) h = (e', h')" by (cases "Exception_prepend msg (es ! i) h")
    have "\<exists>as'. holds h' e' as' ((case msg of Some m \<Rightarrow> [m] | None \<Rightarrow> []) @ s ! i) \<and> extends_nodes h (ass ! i) h' as'"
      using a n prepend_extends [of h "es ! i" "ass ! i" "s ! i"]
      by (cases msg) (auto simp: Exception_prepend_def intro: extends_nodes_refl)
    then show ?thesis using represents_update [OF r] n Prepend a True by fastforce
  qed (use Prepend represents_lengths [OF r] in simp)
next
  case (Copy_exn i)
  show ?thesis
  proof (cases "i < length es")
    case True
    note n = represents_nth [OF r True]
    have spec: "case format_all (s ! i) of
       Inl er \<Rightarrow> Exception_copy (es ! i) h = Some (Inl er)
     | Inr fs \<Rightarrow> \<exists>e' h' as'. Exception_copy (es ! i) h = Some (Inr (e', h')) \<and> holds h' e' as' fs \<and> extends_nodes h [] h' as'"
      using copy_extends [OF conjunct2 [OF conjunct2 [OF n]] holds_empty(1) [of h "ex_type_id (es ! i)" "ex_errno (es ! i)"]]
      unfolding Exception_copy_def append_Nil by simp
    show ?thesis
    proof (cases "format_all (s ! i)")
      case (Inr fs)
      then obtain e' h' as' where c: "Exception_copy (es ! i) h = Some (Inr (e', h'))" "holds h' e' as' fs"
        "extends_nodes h [] h' as'"
        using spec by auto
      show ?thesis using represents_new [OF r c(3,2)] c(1) Copy_exn True n Inr by auto
    qed (use spec Copy_exn True n in auto)
  qed (use Copy_exn represents_lengths [OF r] in simp)
next
  case (Append_exn i j)
  show ?thesis
  proof (cases "i < length es \<and> j < length es \<and> i \<noteq> j")
    case True
    then show ?thesis
      using copy_simulates [OF r] Append_exn represents_lengths [OF r] by (simp add: Exception_append_exc_def)
  qed (use Append_exn represents_lengths [OF r] in \<open>auto simp: Exception_append_exc_def copy_messages_def\<close>)
next
  case (Assign_exn i j)
  show ?thesis
  proof (cases "i < length es \<and> j < length es \<and> i \<noteq> j")
    case True
    then show ?thesis
      using copy_simulates [OF r] Assign_exn represents_lengths [OF r] by (simp add: Exception_assign_def)
  qed (use Assign_exn represents_lengths [OF r] in \<open>auto simp: Exception_assign_def copy_messages_def\<close>)
qed

lemma run_simulates:
  "represents ass st s \<Longrightarrow> \<exists>res. exn_run ops st = Some res \<and> (case spec_run ops s of
      Inl er \<Rightarrow> res = Inl er | Inr s' \<Rightarrow> \<exists>st' ass'. res = Inr st' \<and> represents ass' st' s')"
proof (induction ops arbitrary: ass st s)
  case (Cons op ops)
  obtain es h where st: "st = (es, h)" by (cases st)
  show ?case
    using step_simulates [of ass es h s op] Cons.prems Cons.IH st
    by (fastforce split: sum.splits)
qed auto

definition empty_nodes :: node_heap where
  "empty_nodes = \<lparr>nh_nodes = (\<lambda>_. None), nh_next = 0\<rparr>"

text \<open>
  C34 The linked lists of exceptions implement lists of messages: whatever a program throws, copies,
  appends, prepends and assigns, the operations end and each exception has exactly the messages of the
  specification, at nodes of its own. It fails exactly where the specification does: when a message
  with a percent sign that is not doubled is copied, because messages are copied as formats, and when
  an exception is appended or assigned to itself, because its mutex is locked twice.
\<close>

theorem exceptions_are_message_lists:
  "\<exists>res. exn_run ops ([], empty_nodes) = Some res \<and> (case spec_run ops [] of
      Inl er \<Rightarrow> res = Inl er
    | Inr s \<Rightarrow> \<exists>es h ass. res = Inr (es, h) \<and> length es = length s \<and> length ass = length s \<and> separate ass
        \<and> list_all2 (\<lambda>e (as, ms). holds h e as ms) es (zip ass s))"
proof -
  have "represents [] ([], empty_nodes) []" by (simp add: represents_def separate_def)
  from run_simulates [OF this, of ops] show ?thesis
    by (auto simp: represents_def list_all2_conv_all_nth split: sum.splits) fastforce
qed

text \<open>The destructor ends and frees exactly the nodes of its exception.\<close>

lemma destroy_frees:
  "holds h e as ms \<Longrightarrow>
    \<exists>h'. Exception_destroy e h = Some h' \<and> nh_nodes h' = (\<lambda>a. if a \<in> set as then None else nh_nodes h a)"
  using free_loop_spec [of h "ex_messages e" as ms] by (simp add: holds_def Exception_destroy_def)

text \<open>The primary message is the first of the list.\<close>

lemma what_is_first: "holds h e as ms \<Longrightarrow> Exception_what e h = Some (if ms = [] then ''Unknown error'' else hd ms)"
  by (cases as) (auto simp: holds_def Exception_what_def)

lemma percent_is_not_copied: "spec_run [Throw (Some ''50% done''), Copy_exn 0] [] = Inl Undefined_format"
  by (simp add: format_all_def)

end
