(* ===== verification/RobotSensors.thy ===== *)
theory RobotSensors
  imports Gazebo
begin

text \<open>
  The plugins of the robot that forward values between the simulator and a message: \<open>motor.cpp\<close>,
  \<open>odometry.cpp\<close>, \<open>gyro.cpp\<close>, \<open>gps.cpp\<close>, \<open>depthcam.cpp\<close>, and the plugin \<open>time_sync.cpp\<close> of the world.
  All but the motor and the camera send when more than an interval of simulation time has passed since
  they sent last; that contract, with its lower and its upper bound on the rate, is the locale
  \<open>rate_limited\<close>.
\<close>

section \<open>What the plugins read\<close>

text \<open>
  In addition to the world of \<open>Gazebo\<close>: velocities of a model in its own frame, its orientation as a
  quaternion, the real time, and whether the simulation runs. \<open>has_conn\<close> is whether somebody listens.
\<close>

record robot_world = gz +
  gz_rel_linear_vel :: "string \<Rightarrow> real \<times> real \<times> real"
  gz_rel_angular_vel :: "string \<Rightarrow> real \<times> real \<times> real"
  gz_quaternion :: "string \<Rightarrow> real \<times> real \<times> real \<times> real"
  gz_real_time :: real
  gz_running :: bool

section \<open>Sending at intervals\<close>

text \<open>The times of updates: they start at \<open>t\<close>, do not go back, and are at most \<open>\<delta>\<close> apart.\<close>

fun spaced :: "real \<Rightarrow> real \<Rightarrow> real list \<Rightarrow> bool" where
  "spaced \<delta> t [] \<longleftrightarrow> True"
| "spaced \<delta> t (u # us) \<longleftrightarrow> t \<le> u \<and> u - t \<le> \<delta> \<and> spaced \<delta> u us"

lemma spaced_end: "spaced \<delta> t us \<Longrightarrow> t \<le> last (t # us)"
proof (induction us arbitrary: t)
  case (Cons u us)
  then have "u \<le> last (u # us)" by simp
  with Cons.prems show ?case by simp
qed simp

text \<open>
  \<open>n\<close> messages in the time \<open>T\<close>: not more than one for each interval, and if somebody listens not fewer
  than one for each interval and gap.
\<close>

definition rate_kept :: "real \<Rightarrow> real \<Rightarrow> bool \<Rightarrow> real \<Rightarrow> nat \<Rightarrow> bool" where
  "rate_kept interval \<delta> listened T n \<longleftrightarrow>
     real n * interval \<le> T \<and> (listened \<longrightarrow> T \<le> real n * (interval + \<delta>) + interval)"

locale rate_limited =
  fixes tick :: "bool \<times> 'w \<Rightarrow> 's \<Rightarrow> 's" and now :: "'w \<Rightarrow> real"
    and last_sent :: "'s \<Rightarrow> real" and interval :: "'s \<Rightarrow> real" and sent_count :: "'s \<Rightarrow> nat"
  assumes early: "now w - last_sent s \<le> interval s \<Longrightarrow>
      last_sent (tick (c, w) s) = last_sent s \<and> sent_count (tick (c, w) s) = sent_count s"
    and due: "interval s < now w - last_sent s \<Longrightarrow>
      last_sent (tick (c, w) s) = now w \<and> sent_count s \<le> sent_count (tick (c, w) s)
        \<and> sent_count (tick (c, w) s) \<le> sent_count s + 1"
    and same_interval: "interval (tick (c, w) s) = interval s"
begin

lemma run_interval: "interval (fold tick ws s) = interval s"
proof (induction ws arbitrary: s)
  case (Cons a ws)
  show ?case by (cases a) (simp add: Cons.IH same_interval)
qed simp

text \<open>Each report takes an interval of simulation time.\<close>

lemma rate:
  "0 \<le> interval s \<Longrightarrow>
    real (sent_count (fold tick ws s)) * interval s + last_sent s
      \<le> real (sent_count s) * interval s + last_sent (fold tick ws s)"
proof (induction ws arbitrary: s)
  case (Cons a ws)
  obtain c w where a: "a = (c, w)" by fastforce
  have step: "real (sent_count (tick a s)) * interval s + last_sent s \<le> real (sent_count s) * interval s + last_sent (tick a s)"
  proof (cases "now w - last_sent s \<le> interval s")
    case True
    then show ?thesis using early a by simp
  next
    case False
    then have d: "last_sent (tick a s) = now w" "real (sent_count (tick a s)) \<le> real (sent_count s) + 1"
      using due [of s w c] a by auto
    have "real (sent_count (tick a s)) * interval s \<le> (real (sent_count s) + 1) * interval s"
      using d(2) Cons.prems by (rule mult_right_mono)
    then show ?thesis using d(1) False by (simp add: algebra_simps)
  qed
  have "interval (tick a s) = interval s" by (simp add: a same_interval)
  with Cons.IH [of "tick a s"] Cons.prems
  have "real (sent_count (fold tick ws (tick a s))) * interval s + last_sent (tick a s)
      \<le> real (sent_count (tick a s)) * interval s + last_sent (fold tick ws (tick a s))" by simp
  with step show ?case by simp
qed simp

lemma count_grows: "sent_count s \<le> sent_count (fold tick ws s)"
proof (induction ws arbitrary: s)
  case (Cons a ws)
  obtain c w where a: "a = (c, w)" by fastforce
  have "sent_count s \<le> sent_count (tick a s)"
    using early [of w s c] due [of s w c] by (cases "now w - last_sent s \<le> interval s") (auto simp: a)
  also have "\<dots> \<le> sent_count (fold tick ws (tick a s))" by (rule Cons.IH)
  finally show ?case by simp
qed simp

text \<open>At the end of a tick what has been sent is not older than an interval.\<close>

lemma fresh: "0 \<le> interval s \<Longrightarrow> now w - last_sent (tick (c, w) s) \<le> interval s"
  using early [of w s c] due [of s w c] by (cases "now w - last_sent s \<le> interval s") auto

lemma last_sent_past:
  "last_sent s \<le> t \<Longrightarrow> spaced \<delta> t (map (\<lambda>(c, w). now w) ws) \<Longrightarrow>
     last_sent (fold tick ws s) \<le> last (t # map (\<lambda>(c, w). now w) ws)"
proof (induction ws arbitrary: s t)
  case (Cons a ws)
  obtain c w where a: "a = (c, w)" by fastforce
  have "last_sent (tick a s) \<le> now w"
    using Cons.prems early [of w s c] due [of s w c]
    by (cases "now w - last_sent s \<le> interval s") (auto simp: a)
  from Cons.IH [OF this, of] Cons.prems show ?case by (simp add: a)
qed simp

end

text \<open>A sender that reports whenever it is due and somebody listens.\<close>

locale periodic_sender = rate_limited +
  assumes sends: "interval s < now w - last_sent s \<Longrightarrow> sent_count (tick (True, w) s) = sent_count s + 1"
begin

lemma steady:
  assumes "0 \<le> interval s" and "t - last_sent s \<le> interval s"
    and "spaced \<delta> t (map (\<lambda>(c, w). now w) ws)" and "\<forall>(c, w)\<in>set ws. c"
  shows "last (t # map (\<lambda>(c, w). now w) ws) - last_sent s
    \<le> (real (sent_count (fold tick ws s)) - real (sent_count s)) * (interval s + \<delta>) + interval s"
  using assms
proof (induction ws arbitrary: s t)
  case (Cons a ws)
  then obtain w where a: "a = (True, w)" by (cases a) auto
  let ?s = "tick a s"
  have i: "interval ?s = interval s" by (simp add: a same_interval)
  have "now w - last_sent ?s \<le> interval ?s" using fresh [OF Cons.prems(1), of w True] i a by simp
  from Cons.IH [OF _ this] Cons.prems i
  have rest: "last (t # map (\<lambda>(c, w). now w) (a # ws)) - last_sent ?s
    \<le> (real (sent_count (fold tick ws ?s)) - real (sent_count ?s)) * (interval s + \<delta>) + interval s"
    by (simp add: a)
  show ?case
  proof (cases "now w - last_sent s \<le> interval s")
    case True
    then show ?thesis using early [OF True, of True] rest by (simp add: a)
  next
    case False
    then have d: "last_sent ?s = now w" "sent_count ?s = sent_count s + 1"
      using due [of s w True] sends [of s w] by (auto simp: a)
    have "now w - last_sent s \<le> interval s + \<delta>" using Cons.prems by (simp add: a)
    then show ?thesis using rest d by (simp add: algebra_simps)
  qed
qed simp

text \<open>Both bounds, for the time since the last message before the updates.\<close>

lemma keeps_rate:
  assumes "0 \<le> interval s" and "last_sent s \<le> t" and "t - last_sent s \<le> interval s"
    and "map (\<lambda>(c, w). now w) ws = us" and "spaced \<delta> t us"
  shows "rate_kept (interval s) \<delta> (\<forall>(c, w)\<in>set ws. c) (last (t # us) - last_sent s)
      (sent_count (fold tick ws s) - sent_count s)"
proof -
  let ?n = "sent_count (fold tick ws s) - sent_count s"
  have n: "real ?n = real (sent_count (fold tick ws s)) - real (sent_count s)"
    using count_grows [of s ws] by (simp add: of_nat_diff)
  have "last_sent (fold tick ws s) \<le> last (t # us)"
    using last_sent_past [of s t \<delta> ws] assms by simp
  with rate [OF assms(1), of ws] have "real ?n * interval s \<le> last (t # us) - last_sent s"
    by (simp add: n algebra_simps)
  moreover have "last (t # us) - last_sent s \<le> real ?n * (interval s + \<delta>) + interval s"
    if "\<forall>(c, w)\<in>set ws. c"
    using steady [OF assms(1,3) _ that] assms(4,5) n by auto
  ultimately show ?thesis unfolding rate_kept_def by blast
qed

end

section \<open>Gyro\<close>

record gyro =
  gyro_model :: string
  gyro_last_sent :: real
  gyro_send_interval :: real
  gyro_sent :: "(real \<times> real \<times> real) list"

definition Gyro_Load :: "'a gz_scheme \<Rightarrow> string \<Rightarrow> gyro" where
  "Gyro_Load w n = \<lparr>gyro_model = n, gyro_last_sent = gz_time w, gyro_send_interval = 0.05, gyro_sent = []\<rparr>"

definition send_gyro :: "bool \<Rightarrow> 'a gz_scheme \<Rightarrow> gyro \<Rightarrow> gyro" where
  "send_gyro has_conn w g =
     (if has_conn
      then let p = gz_pose w (gyro_model g)
           in g\<lparr>gyro_sent := gyro_sent g @ [(rot_roll p, rot_pitch p, rot_yaw p)]\<rparr>
      else g)"

definition Gyro_OnUpdate :: "bool \<times> 'a gz_scheme \<Rightarrow> gyro \<Rightarrow> gyro" where
  "Gyro_OnUpdate cw g =
     (let (has_conn, w) = cw; time = gz_time w
      in if time - gyro_last_sent g > gyro_send_interval g
         then send_gyro has_conn w (g\<lparr>gyro_last_sent := time\<rparr>) else g)"

interpretation gyro: periodic_sender Gyro_OnUpdate gz_time gyro_last_sent gyro_send_interval "\<lambda>g. length (gyro_sent g)"
  by unfold_locales (auto simp: Gyro_OnUpdate_def send_gyro_def Let_def)

section \<open>Position\<close>

record pose_msg =
  pm_name :: string
  pm_position :: "real \<times> real \<times> real"
  pm_orientation :: "real \<times> real \<times> real \<times> real"

record gps =
  gps_name :: string
  gps_last_sent :: real
  publish_world_node :: bool
  gps_sent :: "pose_msg list"
  gps_world_sent :: "pose_msg list"

definition Gps_Load :: "(string \<Rightarrow> bool) \<Rightarrow> robot_world \<Rightarrow> string \<Rightarrow> gps" where
  "Gps_Load get_bool w n =
     \<lparr>gps_name = n, gps_last_sent = gz_time w,
      publish_world_node = get_bool ''plugins/enable-public-object-pose-publisher'', gps_sent = [], gps_world_sent = []\<rparr>"

text \<open>\<open>world_conn\<close>: somebody listens to the topic of the world.\<close>

definition gps_send_position :: "bool \<Rightarrow> bool \<Rightarrow> robot_world \<Rightarrow> gps \<Rightarrow> gps" where
  "gps_send_position has_conn world_conn w g =
     (let p = gz_pose w (gps_name g);
          posMsg = \<lparr>pm_name = gps_name g, pm_position = (pos_x p, pos_y p, pos_z p),
                    pm_orientation = gz_quaternion w (gps_name g)\<rparr>;
          g = (if has_conn then g\<lparr>gps_sent := gps_sent g @ [posMsg]\<rparr> else g)
      in if publish_world_node g \<and> world_conn then g\<lparr>gps_world_sent := gps_world_sent g @ [posMsg]\<rparr> else g)"

definition Gps_OnUpdate :: "bool \<times> bool \<times> robot_world \<Rightarrow> gps \<Rightarrow> gps" where
  "Gps_OnUpdate cw g =
     (let (has_conn, world_conn, w) = cw; time = gz_time w
      in if time - gps_last_sent g > 1 / 10
         then gps_send_position has_conn world_conn w (g\<lparr>gps_last_sent := time\<rparr>) else g)"

interpretation gps: periodic_sender Gps_OnUpdate "\<lambda>(_, w). gz_time w" gps_last_sent "\<lambda>_. 1 / 10" "\<lambda>g. length (gps_sent g)"
  by unfold_locales (auto simp: Gps_OnUpdate_def gps_send_position_def Let_def split: prod.splits)

section \<open>Time\<close>

record sim_time_msg =
  sim_time_sec :: int
  sim_time_nsec :: int
  real_time_factor :: real
  msg_paused :: bool

record timesync =
  time_sync_frequency :: real
  last_time_sync :: real
  last_real_time :: real
  last_sim_time :: real
  ts_sent :: "sim_time_msg list"

definition TimesyncPlugin_new :: timesync where
  "TimesyncPlugin_new =
     \<lparr>time_sync_frequency = 4, last_time_sync = 0, last_real_time = 0, last_sim_time = 0, ts_sent = []\<rparr>"

definition Timesync_Load :: "robot_world \<Rightarrow> timesync \<Rightarrow> timesync" where
  "Timesync_Load w s = s\<lparr>last_time_sync := gz_time w\<rparr>"

definition send_time_sync :: "robot_world \<Rightarrow> timesync \<Rightarrow> timesync" where
  "send_time_sync w s =
     (let sim_time = gz_time w; real_time = gz_real_time w; sec = trunc_int sim_time;
          msg = \<lparr>sim_time_sec = sec, sim_time_nsec = trunc_int ((sim_time - of_int sec) * 1000000000),
                 real_time_factor = (sim_time - last_sim_time s) / (real_time - last_real_time s),
                 msg_paused = (\<not> gz_running w)\<rparr>
      in s\<lparr>ts_sent := ts_sent s @ [msg], last_sim_time := sim_time, last_real_time := real_time\<rparr>)"

text \<open>The plugin publishes whether or not somebody listens.\<close>

definition Timesync_Update :: "bool \<times> robot_world \<Rightarrow> timesync \<Rightarrow> timesync" where
  "Timesync_Update cw s =
     (let (_, w) = cw; time = gz_time w
      in if time - last_time_sync s > 1 / time_sync_frequency s
         then send_time_sync w (s\<lparr>last_time_sync := time\<rparr>) else s)"

interpretation timesync: periodic_sender Timesync_Update gz_time last_time_sync
    "\<lambda>s. 1 / time_sync_frequency s" "\<lambda>s. length (ts_sent s)"
  by unfold_locales (auto simp: Timesync_Update_def send_time_sync_def Let_def)

section \<open>Motor\<close>

record motor =
  motor_model :: string
  motor_vx :: real
  motor_vy :: real
  motor_vomega :: real

datatype motor_command =
    SetLinearVel real real real
  | SetAngularVel real real real

definition Motor_Load :: "string \<Rightarrow> motor" where
  "Motor_Load n = \<lparr>motor_model = n, motor_vx = 0, motor_vy = 0, motor_vomega = 0\<rparr>"

definition Motor_OnUpdate :: "'a gz_scheme \<Rightarrow> motor \<Rightarrow> motor_command list" where
  "Motor_OnUpdate w m =
     (let yaw = rot_yaw (gz_pose w (motor_model m));
          x = cos yaw * motor_vx m; y = sin yaw * motor_vx m;
          x = x + cos (yaw + 3.1415926 / 2) * motor_vy m; y = y + sin (yaw + 3.1415926 / 2) * motor_vy m
      in [SetLinearVel x y 0, SetAngularVel 0 0 (motor_vomega m)])"

definition Motor_Reset :: "motor \<Rightarrow> motor" where
  "Motor_Reset m = m\<lparr>motor_vx := 0, motor_vy := 0, motor_vomega := 0\<rparr>"

definition on_motor_move_msg :: "real \<times> real \<times> real \<Rightarrow> motor \<Rightarrow> motor" where
  "on_motor_move_msg msg m = (let (x, y, z) = msg in m\<lparr>motor_vx := x, motor_vy := y, motor_vomega := z\<rparr>)"

section \<open>Odometry\<close>

record odometry =
  odo_model :: string
  estimate_x :: real
  estimate_y :: real
  estimate_omega :: real
  odo_last_sent :: real
  odo_sent :: "(real \<times> real \<times> real) list"

definition Odometry_Load :: "'a gz_scheme \<Rightarrow> string \<Rightarrow> odometry" where
  "Odometry_Load w n =
     \<lparr>odo_model = n, estimate_x = 0, estimate_y = 0, estimate_omega = 0, odo_last_sent = gz_time w, odo_sent = []\<rparr>"

text \<open>The time since the last update, with an error that is made from the result \<open>r\<close> of \<open>rand()\<close>.\<close>

definition elapsed_seconds :: "int \<Rightarrow> robot_world \<Rightarrow> odometry \<Rightarrow> real" where
  "elapsed_seconds r w d = gz_time w - odo_last_sent d + (of_int (r mod 2001 - 1000) / 1000) * 0.1"

definition wrap_omega :: "real \<Rightarrow> real" where
  "wrap_omega \<omega> = (if \<omega> < - pi then 2 * pi - \<omega> else if \<omega> > pi then - 2 * pi + \<omega> else \<omega>)"

definition odo_send_position :: "int \<Rightarrow> bool \<Rightarrow> robot_world \<Rightarrow> odometry \<Rightarrow> odometry" where
  "odo_send_position r has_conn w d =
     (let (vecX, vecY, _) = gz_rel_linear_vel w (odo_model d);
          (_, _, turn) = gz_rel_angular_vel w (odo_model d);
          elapsedSeconds = elapsed_seconds r w d;
          cs = cos (estimate_omega d); sn = sin (estimate_omega d);
          tx = vecX * cs - vecY * sn; ty = vecX * sn + vecY * cs;
          d = d\<lparr>estimate_x := estimate_x d + tx * elapsedSeconds,
                estimate_y := estimate_y d + ty * elapsedSeconds,
                estimate_omega := wrap_omega (estimate_omega d + turn * elapsedSeconds)\<rparr>
      in if has_conn then d\<lparr>odo_sent := odo_sent d @ [(estimate_x d, estimate_y d, estimate_omega d)]\<rparr> else d)"

definition Odometry_OnUpdate :: "bool \<times> int \<times> robot_world \<Rightarrow> odometry \<Rightarrow> odometry" where
  "Odometry_OnUpdate crw d =
     (let (has_conn, r, w) = crw; time = gz_time w
      in if time - odo_last_sent d > 1 / 10
         then (odo_send_position r has_conn w d)\<lparr>odo_last_sent := time\<rparr> else d)"

definition on_set_odometry_msg :: "real \<times> real \<times> real \<Rightarrow> 'a gz_scheme \<Rightarrow> odometry \<Rightarrow> odometry" where
  "on_set_odometry_msg msg w d =
     (let (x, y, z) = msg
      in d\<lparr>estimate_x := x, estimate_y := y, estimate_omega := z, odo_last_sent := gz_time w\<rparr>)"

interpretation odometry: periodic_sender Odometry_OnUpdate "\<lambda>(_, w). gz_time w" odo_last_sent "\<lambda>_. 1 / 10" "\<lambda>d. length (odo_sent d)"
  by unfold_locales (auto simp: Odometry_OnUpdate_def odo_send_position_def Let_def case_prod_unfold)

subsection \<open>The estimated position\<close>

text \<open>An update as a step in the complex plane: the velocity, turned by the estimated angle.\<close>

abbreviation odo_pos :: "odometry \<Rightarrow> complex" where
  "odo_pos d \<equiv> Complex (estimate_x d) (estimate_y d)"

definition rel_vel :: "robot_world \<Rightarrow> string \<Rightarrow> complex" where
  "rel_vel w n = (let (x, y, _) = gz_rel_linear_vel w n in Complex x y)"

lemma odo_model_update [simp]: "odo_model (Odometry_OnUpdate crw d) = odo_model d"
  by (simp add: Odometry_OnUpdate_def odo_send_position_def Let_def case_prod_unfold)

lemma odometry_step:
  assumes "gz_time w - odo_last_sent d > 1 / 10"
  shows "odo_pos (Odometry_OnUpdate (c, r, w) d)
      = odo_pos d + complex_of_real (elapsed_seconds r w d) * cis (estimate_omega d) * rel_vel w (odo_model d)"
    and "odo_last_sent (Odometry_OnUpdate (c, r, w) d) = gz_time w"
    and "estimate_omega (Odometry_OnUpdate (c, r, w) d)
      = wrap_omega (estimate_omega d + snd (snd (gz_rel_angular_vel w (odo_model d))) * elapsed_seconds r w d)"
  using assms
  by (simp_all add: Odometry_OnUpdate_def odo_send_position_def rel_vel_def Let_def complex_eq_iff case_prod_unfold,
      simp_all add: algebra_simps)

lemma elapsed_bounds:
  "\<bar>elapsed_seconds r w d - (gz_time w - odo_last_sent d)\<bar> \<le> 1 / 10"
proof -
  have "0 \<le> r mod 2001" "r mod 2001 < 2001" by simp_all
  then have "\<bar>real_of_int (r mod 2001 - 1000)\<bar> \<le> 1000" by (simp add: abs_le_iff)
  then show ?thesis by (simp add: elapsed_seconds_def)
qed

text \<open>The world's speed of the robot is at most \<open>V\<close> in every update of a run.\<close>

lemma odometry_moves:
  assumes "\<forall>(c, r, w) \<in> set ws. cmod (rel_vel w (odo_model d)) \<le> V"
  shows "cmod (odo_pos (fold Odometry_OnUpdate ws d) - odo_pos d)
    \<le> 2 * V * (odo_last_sent (fold Odometry_OnUpdate ws d) - odo_last_sent d)"
  using assms
proof (induction ws arbitrary: d)
  case (Cons a ws)
  obtain c r w where a: "a = (c, r, w)" by (cases a)
  let ?d = "Odometry_OnUpdate a d"
  have rest: "cmod (odo_pos (fold Odometry_OnUpdate ws ?d) - odo_pos ?d)
      \<le> 2 * V * (odo_last_sent (fold Odometry_OnUpdate ws ?d) - odo_last_sent ?d)"
    using Cons by simp
  have step: "cmod (odo_pos ?d - odo_pos d) \<le> 2 * V * (odo_last_sent ?d - odo_last_sent d)"
  proof (cases "gz_time w - odo_last_sent d > 1 / 10")
    case True
    have e: "\<bar>elapsed_seconds r w d\<bar> \<le> 2 * (gz_time w - odo_last_sent d)"
      using elapsed_bounds [of r w d] True unfolding abs_le_iff by auto
    have "cmod (odo_pos ?d - odo_pos d) = \<bar>elapsed_seconds r w d\<bar> * cmod (rel_vel w (odo_model d))"
      unfolding a odometry_step(1) [OF True] by (simp add: norm_mult)
    also have "\<dots> \<le> 2 * (gz_time w - odo_last_sent d) * V"
      using e Cons.prems a by (intro mult_mono) auto
    finally show ?thesis using odometry_step(2) [OF True, of c r] a by (simp add: algebra_simps)
  qed (simp add: a Odometry_OnUpdate_def)
  have "cmod (odo_pos (fold Odometry_OnUpdate ws ?d) - odo_pos d)
      \<le> cmod (odo_pos (fold Odometry_OnUpdate ws ?d) - odo_pos ?d) + cmod (odo_pos ?d - odo_pos d)"
    by (rule order_trans [OF _ norm_triangle_ineq]) simp
  with rest step show ?case by (simp add: algebra_simps)
qed simp

subsection \<open>The estimated angle\<close>

lemma wrap_omega_left: "- pi \<le> \<omega> \<Longrightarrow> \<omega> \<le> 3 * pi \<Longrightarrow> - pi \<le> wrap_omega \<omega> \<and> wrap_omega \<omega> \<le> pi \<and> cis (wrap_omega \<omega>) = cis \<omega>"
  by (auto simp: wrap_omega_def complex_eq_iff sin_diff cos_diff)

lemma wrap_omega_right:
  "\<omega> < - pi \<Longrightarrow> 3 * pi < wrap_omega \<omega> \<and> cis (wrap_omega \<omega>) = cnj (cis \<omega>)"
  by (auto simp: wrap_omega_def complex_eq_iff sin_diff cos_diff)

text \<open>
  C23 The odometry of a robot. Between two settings the estimate never moves faster than twice the speed of
  the robot, whatever the random error is. An update that turns to the left, or to the right without
  passing minus pi, keeps the angle within pi and in the right direction. One that passes minus pi
  takes the angle above three pi and mirrors it: the estimate turns to the right where the robot
  looks to the left, because the sign of the angle is changed where the two turns are added.
\<close>

theorem odometry_estimates:
  assumes "\<forall>(c, r, w) \<in> set ws. cmod (rel_vel w (odo_model d)) \<le> V"
    and "gz_time w - odo_last_sent d > 1 / 10" and "\<bar>estimate_omega d\<bar> \<le> pi"
    and "\<omega> = estimate_omega d + snd (snd (gz_rel_angular_vel w (odo_model d))) * elapsed_seconds r w d"
    and "\<bar>\<omega> - estimate_omega d\<bar> \<le> 2 * pi"
  shows "cmod (odo_pos (fold Odometry_OnUpdate ws d) - odo_pos d)
      \<le> 2 * V * (odo_last_sent (fold Odometry_OnUpdate ws d) - odo_last_sent d)
    \<and> (if - pi \<le> \<omega>
       then \<bar>estimate_omega (Odometry_OnUpdate (c, r, w) d)\<bar> \<le> pi
         \<and> cis (estimate_omega (Odometry_OnUpdate (c, r, w) d)) = cis \<omega>
       else 3 * pi < estimate_omega (Odometry_OnUpdate (c, r, w) d)
         \<and> cis (estimate_omega (Odometry_OnUpdate (c, r, w) d)) = cnj (cis \<omega>))"
proof -
  have \<omega>: "estimate_omega (Odometry_OnUpdate (c, r, w) d) = wrap_omega \<omega>"
    using odometry_step(3) [OF assms(2), of c r] assms(4) by simp
  have "\<omega> \<le> 3 * pi" using assms(3,5) by linarith
  then show ?thesis
    using odometry_moves [OF assms(1)] wrap_omega_left [of \<omega>] wrap_omega_right [of \<omega>] \<omega>
    by (auto simp: abs_le_iff not_le)
qed

definition demo_motion :: "real \<Rightarrow> robot_world" where
  "demo_motion t = \<lparr>gz_dist = euclid, gz_models = [], gz_has_base = (\<lambda>n. True),
     gz_pose = (\<lambda>n. Pose3d 0 0 0 0 0 0), gz_links = (\<lambda>n. []), gz_link_pose = (\<lambda>n. Pose3d 0 0 0 0 0 0),
     gz_time = t, gz_rel_linear_vel = (\<lambda>n. (1, 0, 0)), gz_rel_angular_vel = (\<lambda>n. (0, 0, -1)),
     gz_quaternion = (\<lambda>n. (0, 0, 0, 1)), gz_real_time = t, gz_running = True\<rparr>"

definition demo_odometry :: odometry where
  "demo_odometry = on_set_odometry_msg (0, 0, - pi) (demo_motion 0) (Odometry_Load (demo_motion 0) ''robotino'')"

theorem odometry_estimates_witness:
  "3 * pi < estimate_omega (Odometry_OnUpdate (True, 1000, demo_motion 1) demo_odometry)
   \<and> cmod (odo_pos (fold Odometry_OnUpdate [(True, 1000, demo_motion 1)] demo_odometry) - odo_pos demo_odometry)
       \<le> 2 * 1 * (odo_last_sent (fold Odometry_OnUpdate [(True, 1000, demo_motion 1)] demo_odometry) - odo_last_sent demo_odometry)"
proof -
  have e: "elapsed_seconds 1000 (demo_motion 1) demo_odometry = 1"
    by (simp add: elapsed_seconds_def demo_motion_def demo_odometry_def on_set_odometry_msg_def)
  have v: "rel_vel (demo_motion 1) n = 1" for n
    by (simp add: rel_vel_def demo_motion_def complex_eq_iff)
  have o: "estimate_omega demo_odometry = - pi" "odo_last_sent demo_odometry = 0"
    by (simp_all add: demo_odometry_def on_set_odometry_msg_def demo_motion_def)
  have w: "gz_time (demo_motion 1) = 1" "gz_rel_angular_vel (demo_motion 1) n = (0, 0, -1)" for n
    by (simp_all add: demo_motion_def)
  have p: "(1::real) \<le> 2 * pi" using pi_ge_two by simp
  show ?thesis
    using odometry_estimates [of "[(True, 1000, demo_motion 1)]" demo_odometry 1 "demo_motion 1" "- pi - 1" 1000 True] p
    by (simp add: e v o w)
qed

subsection \<open>Motor and odometry\<close>

text \<open>
  The simulator gives the velocity of a model in the frame of the model: the vector is turned back
  by the yaw of the model. When the estimated angle is right and the robot moves as its motor has asked
  it to, an update of the odometry moves the estimate exactly along the velocity that was asked for.
\<close>

lemma odometry_follows_motor:
  assumes "Motor_OnUpdate w m = [SetLinearVel x y 0, SetAngularVel 0 0 z]"
    and "rel_vel w (odo_model d) = Complex x y * cis (- estimate_omega d)"
    and "gz_time w - odo_last_sent d > 1 / 10"
  shows "odo_pos (Odometry_OnUpdate (c, r, w) d) = odo_pos d + complex_of_real (elapsed_seconds r w d) * Complex x y"
  unfolding odometry_step(1) [OF assms(3)] assms(2) by (simp add: cis_mult mult.commute mult.left_commute)

lemma Motor_velocity:
  assumes "Motor_OnUpdate w m = [SetLinearVel x y 0, SetAngularVel 0 0 z]"
  shows "Complex x y = cis (rot_yaw (gz_pose w (motor_model m)))
      * (complex_of_real (motor_vx m) + cis (3.1415926 / 2) * complex_of_real (motor_vy m))"
  using assms by (auto simp: Motor_OnUpdate_def Let_def complex_eq_iff sin_add cos_add algebra_simps)

section \<open>Depth camera\<close>

text \<open>
  The loop over the cloud: \<open>pcd\<close> is the array of four numbers for each point, \<open>bound\<close> the product of
  width, height and four, in 32 bits. The fuel is the number of points, which is enough.
\<close>

fun cloud_loop :: "nat \<Rightarrow> (nat \<Rightarrow> real) \<Rightarrow> u32 \<Rightarrow> u32 \<Rightarrow> (real \<times> real \<times> real) list \<Rightarrow> (real \<times> real \<times> real) list option" where
  "cloud_loop 0 pcd bound i msg = (if i < bound then None else Some msg)"
| "cloud_loop (Suc n) pcd bound i msg =
     (if i < bound
      then cloud_loop n pcd bound (i + 4) (msg @ [(pcd (unat i), pcd (unat (i + 1)), pcd (unat (i + 2)))])
      else Some msg)"

definition OnNewRGBPointCloud :: "(nat \<Rightarrow> real) \<Rightarrow> u32 \<Rightarrow> u32 \<Rightarrow> (real \<times> real \<times> real) list option" where
  "OnNewRGBPointCloud pcd width height = cloud_loop (unat width * unat height) pcd (width * height * 4) 0 []"

lemma cloud_loop_points:
  assumes "k + n < 2 ^ 30" and "n \<le> fuel"
  shows "cloud_loop fuel pcd (of_nat (4 * (k + n))) (of_nat (4 * k)) msg
    = Some (msg @ map (\<lambda>j. (pcd (4 * j), pcd (4 * j + 1), pcd (4 * j + 2))) [k..<k + n])"
  using assms
proof (induction n arbitrary: k msg fuel)
  case 0
  then show ?case by (cases fuel) simp_all
next
  case (Suc n)
  then obtain f where f: "fuel = Suc f" "n \<le> f" by (cases fuel) auto
  have u: "unat (of_nat j :: u32) = j" if "j < 2 ^ 32" for j
    using that by (simp add: unat_of_nat take_bit_nat_eq_self)
  have less: "(of_nat (4 * k) :: u32) < of_nat (4 * (k + Suc n))"
    using Suc.prems by (subst word_less_nat_alt) (simp add: u del: of_nat_mult of_nat_add)
  have next_i: "(of_nat (4 * k) + 4 :: u32) = of_nat (4 * Suc k)" by (simp add: algebra_simps)
  have idx: "unat (of_nat (4 * k) :: u32) = 4 * k" "unat (of_nat (4 * k) + 1 :: u32) = 4 * k + 1"
    "unat (of_nat (4 * k) + 2 :: u32) = 4 * k + 2"
    using Suc.prems u [of "4 * k"] u [of "4 * k + 1"] u [of "4 * k + 2"] by (simp_all add: add.commute)
  have "cloud_loop fuel pcd (of_nat (4 * (k + Suc n))) (of_nat (4 * k)) msg
      = cloud_loop f pcd (of_nat (4 * (Suc k + n))) (of_nat (4 * Suc k)) (msg @ [(pcd (4 * k), pcd (4 * k + 1), pcd (4 * k + 2))])"
    using less by (simp only: f(1) cloud_loop.simps if_True next_i idx add_Suc_right add_Suc)
  also have "\<dots> = Some (msg @ map (\<lambda>j. (pcd (4 * j), pcd (4 * j + 1), pcd (4 * j + 2))) [k..<k + Suc n])"
    using Suc.prems(1) f(2) Suc.IH [of "Suc k" f] by (simp add: upt_conv_Cons del: upt_Suc of_nat_mult of_nat_add)
  finally show ?case .
qed

text \<open>
  The first points of the array are published, once each and in their order: all points of an image with
  less than \<open>2 ^ 30\<close> of them, and only the remainder of a larger one, whose size does not fit in 32 bits.
\<close>

lemma cloud_is_published:
  "OnNewRGBPointCloud pcd width height
    = Some (map (\<lambda>j. (pcd (4 * j), pcd (4 * j + 1), pcd (4 * j + 2))) [0..<(unat width * unat height) mod 2 ^ 30])"
proof -
  let ?n = "unat width * unat height"
  have "width * height * 4 = (of_nat (4 * ?n) :: u32)" by (simp add: mult.commute)
  also have "\<dots> = of_nat ((4 * ?n) mod 2 ^ 32)"
    by (simp only: word_of_nat_eq_iff take_bit_eq_mod mod_mod_trivial) simp
  also have "(4 * ?n) mod 2 ^ 32 = 4 * (0 + ?n mod 2 ^ 30)" by (simp add: mult_mod_right)
  finally have "width * height * 4 = (of_nat (4 * (0 + ?n mod 2 ^ 30)) :: u32)" .
  moreover have "?n mod 2 ^ 30 < 2 ^ 30" "?n mod 2 ^ 30 \<le> ?n" by simp_all
  ultimately show ?thesis
    using cloud_loop_points [of 0 "?n mod 2 ^ 30" ?n pcd "[]"]
    by (simp only: OnNewRGBPointCloud_def) simp
qed

section \<open>Rates\<close>

lemma trunc_int_nonneg: "0 \<le> x \<Longrightarrow> trunc_int x = \<lfloor>x\<rfloor>"
  by (simp add: trunc_int_def)

text \<open>The time of a report, in seconds and nanoseconds, and the speed of the simulation since the last one.\<close>

lemma time_is_split:
  assumes "0 \<le> gz_time w" and "gz_time w - last_time_sync s > 1 / time_sync_frequency s"
  shows "\<exists>m. ts_sent (Timesync_Update (c, w) s) = ts_sent s @ [m]
    \<and> 0 \<le> sim_time_nsec m \<and> sim_time_nsec m < 1000000000
    \<and> of_int (sim_time_sec m) + of_int (sim_time_nsec m) / 1000000000 \<le> gz_time w
    \<and> gz_time w < of_int (sim_time_sec m) + of_int (sim_time_nsec m + 1) / 1000000000
    \<and> (gz_real_time w \<noteq> last_real_time s \<longrightarrow>
        real_time_factor m * (gz_real_time w - last_real_time s) = gz_time w - last_sim_time s)"
proof -
  let ?t = "gz_time w"
  let ?f = "(?t - of_int \<lfloor>?t\<rfloor>) * 1000000000"
  have f: "0 \<le> ?f" "?f < 1000000000" using floor_correct [of ?t] by simp_all linarith
  have "of_int \<lfloor>?f\<rfloor> \<le> ?f" "?f < of_int \<lfloor>?f\<rfloor> + 1" "0 \<le> \<lfloor>?f\<rfloor>" "\<lfloor>?f\<rfloor> < 1000000000"
    using floor_correct [of ?f] f by (simp_all add: floor_less_iff)
  then show ?thesis
    using assms f by (simp add: Timesync_Update_def send_time_sync_def Let_def trunc_int_nonneg field_simps)
qed

text \<open>
  C22 The sensors keep their rates. Take the updates at any times of the simulation, each at most \<open>\<delta>\<close>
  after the one before, and gyro, positioning, odometry and time synchronisation, none of which is due
  when the updates start. Each of the four then publishes at most one message for each of its intervals
  in the time since its last message. And each publishes at least one for each interval and \<open>\<delta>\<close> of this
  time (less one interval at the end): the time synchronisation always, the others if somebody listens.
\<close>

theorem sensors_keep_rate:
  assumes "spaced \<delta> t us" and "T = last (t # us)"
    and "0 < time_sync_frequency ts" and "0 \<le> gyro_send_interval g"
    and "0 \<le> t - gyro_last_sent g" and "t - gyro_last_sent g \<le> gyro_send_interval g"
    and "0 \<le> t - gps_last_sent p" and "t - gps_last_sent p \<le> 1 / 10"
    and "0 \<le> t - odo_last_sent d" and "t - odo_last_sent d \<le> 1 / 10"
    and "0 \<le> t - last_time_sync ts" and "t - last_time_sync ts \<le> 1 / time_sync_frequency ts"
    and "map (\<lambda>(c, w). gz_time w) ws = us" and "map (\<lambda>(c, w, x). gz_time x) ps = us"
    and "map (\<lambda>(c, r, x). gz_time x) os = us" and "map (\<lambda>(c, x). gz_time x) vs = us"
  shows "rate_kept (gyro_send_interval g) \<delta> (\<forall>(c, w)\<in>set ws. c) (T - gyro_last_sent g)
        (length (gyro_sent (fold Gyro_OnUpdate ws g)) - length (gyro_sent g))
    \<and> rate_kept (1 / 10) \<delta> (\<forall>(c, w)\<in>set ps. c) (T - gps_last_sent p)
        (length (gps_sent (fold Gps_OnUpdate ps p)) - length (gps_sent p))
    \<and> rate_kept (1 / 10) \<delta> (\<forall>(c, w)\<in>set os. c) (T - odo_last_sent d)
        (length (odo_sent (fold Odometry_OnUpdate os d)) - length (odo_sent d))
    \<and> rate_kept (1 / time_sync_frequency ts) \<delta> True (T - last_time_sync ts)
        (length (ts_sent (fold Timesync_Update vs ts)) - length (ts_sent ts))"
proof -
  let ?vs = "map (\<lambda>(c, x). (True, x)) vs"
  have "fold Timesync_Update ?vs ts' = fold Timesync_Update vs ts'" for ts'
    by (induction vs arbitrary: ts') (auto simp: Timesync_Update_def)
  moreover have "rate_kept (1 / time_sync_frequency ts) \<delta> (\<forall>(c, w)\<in>set ?vs. c) (T - last_time_sync ts)
        (length (ts_sent (fold Timesync_Update ?vs ts)) - length (ts_sent ts))"
    unfolding assms(2)
    by (rule timesync.keeps_rate) (use assms in \<open>auto simp: case_prod_unfold comp_def\<close>)
  ultimately have ts: "rate_kept (1 / time_sync_frequency ts) \<delta> True (T - last_time_sync ts)
        (length (ts_sent (fold Timesync_Update vs ts)) - length (ts_sent ts))"
    by (auto simp: case_prod_unfold)
  have "rate_kept (gyro_send_interval g) \<delta> (\<forall>(c, w)\<in>set ws. c) (T - gyro_last_sent g)
        (length (gyro_sent (fold Gyro_OnUpdate ws g)) - length (gyro_sent g))"
    unfolding assms(2) by (rule gyro.keeps_rate) (use assms in auto)
  moreover have "rate_kept (1 / 10) \<delta> (\<forall>(c, w)\<in>set ps. c) (T - gps_last_sent p)
        (length (gps_sent (fold Gps_OnUpdate ps p)) - length (gps_sent p))"
    unfolding assms(2) by (rule gps.keeps_rate) (use assms in \<open>auto simp: case_prod_unfold\<close>)
  moreover have "rate_kept (1 / 10) \<delta> (\<forall>(c, w)\<in>set os. c) (T - odo_last_sent d)
        (length (odo_sent (fold Odometry_OnUpdate os d)) - length (odo_sent d))"
    unfolding assms(2) by (rule odometry.keeps_rate) (use assms in \<open>auto simp: case_prod_unfold\<close>)
  ultimately show ?thesis using ts by blast
qed

text \<open>Two updates, one and two seconds after the sensors were loaded: two messages of each.\<close>

theorem sensors_keep_rate_witness:
  "\<exists>g p d ts. g = Gyro_Load (demo_motion 0) ''robotino''
    \<and> p = Gps_Load (\<lambda>_. False) (demo_motion 0) ''robotino''
    \<and> d = Odometry_Load (demo_motion 0) ''robotino'' \<and> ts = Timesync_Load (demo_motion 0) TimesyncPlugin_new
    \<and> rate_kept 0.05 1 True 2 (length (gyro_sent (fold Gyro_OnUpdate [(True, demo_motion 1), (True, demo_motion 2)] g)))
    \<and> rate_kept (1 / 10) 1 True 2 (length (gps_sent (fold Gps_OnUpdate [(True, False, demo_motion 1), (True, False, demo_motion 2)] p)))
    \<and> rate_kept (1 / 10) 1 True 2 (length (odo_sent (fold Odometry_OnUpdate [(True, 7, demo_motion 1), (True, 9, demo_motion 2)] d)))
    \<and> rate_kept (1 / 4) 1 True 2 (length (ts_sent (fold Timesync_Update [(False, demo_motion 1), (False, demo_motion 2)] ts)))
    \<and> length (odo_sent (fold Odometry_OnUpdate [(True, 7, demo_motion 1), (True, 9, demo_motion 2)] d)) = 2"
proof -
  let ?g = "Gyro_Load (demo_motion 0) ''robotino''"
  let ?p = "Gps_Load (\<lambda>_. False) (demo_motion 0) ''robotino''"
  let ?d = "Odometry_Load (demo_motion 0) ''robotino''"
  let ?ts = "Timesync_Load (demo_motion 0) TimesyncPlugin_new"
  have t: "gz_time (demo_motion t) = t" for t by (simp add: demo_motion_def)
  have l: "gyro_last_sent ?g = 0" "gyro_send_interval ?g = 0.05" "gyro_sent ?g = []"
    "gps_last_sent ?p = 0" "gps_sent ?p = []" "odo_last_sent ?d = 0" "odo_sent ?d = []"
    "last_time_sync ?ts = 0" "time_sync_frequency ?ts = 4" "ts_sent ?ts = []"
    by (simp_all add: Gyro_Load_def Gps_Load_def Odometry_Load_def Timesync_Load_def TimesyncPlugin_new_def t)
  have "spaced 1 0 [1, 2]" by simp
  note r = sensors_keep_rate [OF this refl, of ?ts ?g ?p ?d
      "[(True, demo_motion 1), (True, demo_motion 2)]"
      "[(True, False, demo_motion 1), (True, False, demo_motion 2)]"
      "[(True, 7, demo_motion 1), (True, 9, demo_motion 2)]"
      "[(False, demo_motion 1), (False, demo_motion 2)]"]
  have "length (odo_sent (fold Odometry_OnUpdate [(True, 7, demo_motion 1), (True, 9, demo_motion 2)] ?d)) = 2"
    using l(6,7) by (simp add: Odometry_OnUpdate_def odo_send_position_def case_prod_unfold Let_def t)
  then show ?thesis using r by (simp add: l t del: fold_simps)
qed

end
