(* ===== verification/TagVision.thy ===== *)
theory TagVision
  imports RobotSensors KeyMap ConfigScalar
begin

text \<open>
  \<open>plugins/tag/tag.cpp\<close>, the markers on the machines, and \<open>plugins/tag-vision/tag-vision.cpp\<close>, the
  simulated recognition of the markers in front of a robot. A marker is a model whose name has the form
  \<open>prefix/tag_01/suffix\<close>; its number is read from that name.
\<close>

section \<open>Names of markers\<close>

text \<open>The part of a name from the first \<open>tag_\<close> on, up to the next slash.\<close>

definition upto_slash :: "string \<Rightarrow> string" where
  "upto_slash s = (case str_find ''/'' s of None \<Rightarrow> s | Some i \<Rightarrow> take i s)"

definition tag_id_string :: "string \<Rightarrow> string option" where
  "tag_id_string name = map_option (\<lambda>i. upto_slash (drop i name)) (str_find ''tag_'' name)"

datatype tag_error =
    Invalid_argument
  | Number_out_of_range
  | No_link

text \<open>\<open>std::stoi\<close>: white space, a sign, decimal digits; what follows is not looked at.\<close>

definition stoi :: "string \<Rightarrow> tag_error + int" where
  "stoi s =
     (let (neg, s) = skip_sign (dropWhile is_space s); ds = takeWhile (is_digit 10) s;
          v = (if neg then - digits_val 10 ds else digits_val 10 ds)
      in if ds = [] then Inl Invalid_argument
         else if v < - (2 ^ 31) \<or> 2 ^ 31 \<le> v then Inl Number_out_of_range else Inr v)"

definition get_tag_id_from_name :: "string \<Rightarrow> tag_error + int" where
  "get_tag_id_from_name name =
     (case str_find ''tag_'' name of
        None \<Rightarrow> Inr 0
      | Some i \<Rightarrow> stoi (upto_slash (drop (i + 4) name)))"

text \<open>\<open>fnmatch\<close> with a pattern \<open>*pat*\<close> that ignores the case; \<open>pat\<close> is in lower case.\<close>

definition fnmatch_casefold :: "string \<Rightarrow> string \<Rightarrow> bool" where
  "fnmatch_casefold pat s \<longleftrightarrow> str_contains (str_tolower s) pat"

section \<open>The marker\<close>

record tag_visual =
  tag_parent_name :: string
  tag_name :: string
  tag_vis_size :: real
  tag_pose :: pose
  tag_script :: string

record tag =
  tag_cfg :: "string \<Rightarrow> real"
  tag_model :: string
  tag_created_time :: real
  tag_spawned_last :: real
  tag_published :: "tag_visual list"

definition Tag_Load :: "(string \<Rightarrow> real) \<Rightarrow> 'a gz_scheme \<Rightarrow> string \<Rightarrow> tag" where
  "Tag_Load cfg w n =
     \<lparr>tag_cfg = cfg, tag_model = n, tag_created_time = gz_time w, tag_spawned_last = gz_time w, tag_published = []\<rparr>"

definition Tag_OnUpdate :: "'a gz_scheme \<Rightarrow> tag \<Rightarrow> tag" where
  "Tag_OnUpdate w t =
     (if gz_time w - tag_spawned_last t > tag_cfg t ''plugins/tag/tag_spawn_time''
      then let parent_link = tag_model t @ ''::link''
           in case tag_id_string (tag_model t) of
                None \<Rightarrow> t
              | Some tag_id \<Rightarrow>
                  t\<lparr>tag_published := tag_published t @
                      [\<lparr>tag_parent_name = parent_link, tag_name = parent_link @ ''::pattern'',
                        tag_vis_size = tag_cfg t ''plugins/tag/tag_size'', tag_pose = Pose3d 0 0 0.001 0 0 0,
                        tag_script = ''tag/'' @ tag_id\<rparr>],
                    tag_spawned_last := gz_time w\<rparr>
      else t)"

section \<open>The recognition\<close>

text \<open>
  \<open>gz_minus p q\<close> is the difference of two poses, \<open>gz_length p\<close> the length of a position and
  \<open>gz_normalized p\<close> the pose whose position is normalized.
\<close>

record vision_world = gz +
  gz_minus :: "pose \<Rightarrow> pose \<Rightarrow> pose"
  gz_length :: "pose \<Rightarrow> real"
  gz_normalized :: "pose \<Rightarrow> pose"

record tag_report =
  tr_pose :: pose
  tr_name :: string
  tr_id :: int

text \<open>
  The poses are a \<open>std::map\<close> from pointers to models; \<open>tv_address\<close> gives the address of the model of
  a name, which is the order of the map.
\<close>

record tag_vision =
  tv_cfg :: "string \<Rightarrow> real"
  tv_address :: "string \<Rightarrow> nat"
  tv_link :: "string option"
  tv_link_pose :: pose
  tv_last_sent :: real
  last_searched_for_new_tags_time :: real
  tag_poses :: "(nat \<times> string \<times> pose) list"
  tv_sent :: "tag_report list list"

definition TagVision_Load :: "(string \<Rightarrow> real) \<Rightarrow> (string \<Rightarrow> nat) \<Rightarrow> 'a gz_scheme \<Rightarrow> string \<Rightarrow> tag_vision" where
  "TagVision_Load cfg address w n =
     \<lparr>tv_cfg = cfg, tv_address = address, tv_link = find (fnmatch_casefold ''tag_vision'') (gz_links w n),
      tv_link_pose = gz_pose w n, tv_last_sent = gz_time w, last_searched_for_new_tags_time = gz_time w,
      tag_poses = [], tv_sent = []\<rparr>"

fun search_tags :: "'a gz_scheme \<Rightarrow> string list \<Rightarrow> tag_vision \<Rightarrow> tag_vision" where
  "search_tags w [] v = v"
| "search_tags w (m # ms) v =
     search_tags w ms
       (if fnmatch_casefold ''tag_'' m \<and> map_of (tag_poses v) (tv_address v m) = None
        then v\<lparr>tag_poses := map_put (tv_address v m) (m, gz_pose w m) (tag_poses v)\<rparr> else v)"

definition tag_visible :: "vision_world \<Rightarrow> tag_vision \<Rightarrow> pose \<Rightarrow> bool" where
  "tag_visible w v rel_pos \<longleftrightarrow>
     gz_length w rel_pos < tv_cfg v ''plugins/tag-vision/max_view_distance'' \<and> pos_x rel_pos > 0
     \<and> \<bar>arcsin (pos_y (gz_normalized w rel_pos))\<bar> < tv_cfg v ''plugins/tag-vision/camera_fov'' / 2
     \<and> \<bar>rot_yaw rel_pos\<bar> > 1.57"

fun report_tags :: "vision_world \<Rightarrow> tag_vision \<Rightarrow> (nat \<times> string \<times> pose) list \<Rightarrow> tag_report list \<Rightarrow> tag_error + tag_report list" where
  "report_tags w v [] res = Inr res"
| "report_tags w v ((a, n, _) # ts) res =
     (let rel_pos = gz_minus w (gz_pose w n) (tv_link_pose v)
      in if tag_visible w v rel_pos
         then case get_tag_id_from_name n of
                Inl e \<Rightarrow> Inl e
              | Inr i \<Rightarrow> report_tags w v ts (res @ [\<lparr>tr_pose = rel_pos, tr_name = n, tr_id = i\<rparr>])
         else report_tags w v ts res)"

text \<open>The search for new markers, which the update begins with.\<close>

definition searched :: "vision_world \<Rightarrow> tag_vision \<Rightarrow> tag_vision" where
  "searched w v =
     (if gz_time w - last_searched_for_new_tags_time v > tv_cfg v ''plugins/tag-vision/search_for_tags_interval''
      then search_tags w (gz_models w) (v\<lparr>last_searched_for_new_tags_time := gz_time w\<rparr>) else v)"

text \<open>
  An exception leaves the callback of the simulator, where nothing catches it: the program ends, and
  the state at that moment is not kept.
\<close>

definition TagVision_OnUpdate :: "vision_world \<Rightarrow> tag_vision \<Rightarrow> tag_error + tag_vision" where
  "TagVision_OnUpdate w v =
     (let time = gz_time w;
          v = searched w v
      in case tv_link v of
           None \<Rightarrow> Inl No_link
         | Some l \<Rightarrow>
             let v = v\<lparr>tv_link_pose := gz_link_pose w l\<rparr>
             in if time - tv_last_sent v > tv_cfg v ''plugins/tag-vision/send_interval''
                then let v = v\<lparr>tv_last_sent := time\<rparr>
                     in case report_tags w v (tag_poses v) [] of
                          Inl e \<Rightarrow> Inl e
                        | Inr res \<Rightarrow> Inr (v\<lparr>tag_poses := map (\<lambda>(a, n, _). (a, n, gz_pose w n)) (tag_poses v),
                                        tv_sent := tv_sent v @ [res]\<rparr>)
                else Inr v)"

section \<open>The number of a marker\<close>

lemma take_while_digits:
  "list_all (is_digit 10) ds \<Longrightarrow> (case rest of [] \<Rightarrow> True | c # _ \<Rightarrow> \<not> is_digit 10 c) \<Longrightarrow> takeWhile (is_digit 10) (ds @ rest) = ds"
  by (induction ds) (auto split: list.splits)

lemma digits_val_zeros: "digits_val 10 (replicate z CHR ''0'' @ ds) = digits_val 10 ds"
proof -
  have z: "foldl (\<lambda>v c. v * int 10 + int (the (digit_val c))) 0 (replicate z CHR ''0'') = 0"
    by (induction z) (simp_all add: digit_val_def code_of_def)
  show ?thesis unfolding digits_val_def foldl_append z ..
qed

lemma str_find_prefix: "prefix pat s \<Longrightarrow> str_find pat s = Some 0"
  by (cases s) auto

lemma str_find_char: "c \<notin> set s \<Longrightarrow> str_find [c] (s @ c # t) = Some (length s)"
  by (induction s) (auto simp: str_find_prefix)

lemma str_find_char_None: "c \<notin> set s \<Longrightarrow> str_find [c] s = None"
  by (induction s) auto

lemma upto_slash_stops: "CHR ''/'' \<notin> set s \<Longrightarrow> upto_slash (s @ CHR ''/'' # t) = s"
  by (simp add: upto_slash_def str_find_char)

lemma upto_slash_all: "CHR ''/'' \<notin> set s \<Longrightarrow> upto_slash s = s"
  by (simp add: upto_slash_def str_find_char_None)

lemma digit_not_slash: "list_all (is_digit 10) ds \<Longrightarrow> CHR ''/'' \<notin> set ds"
  by (induction ds) (auto simp: is_digit_def digit_val_def code_of_def)

lemma digits_of_marker: "list_all (is_digit 10) (replicate z CHR ''0'' @ dec_str k)"
proof -
  have "is_digit 10 (CHR ''0'')" by (simp add: is_digit_def digit_val_def code_of_def)
  then show ?thesis using dec_str_digits [of k] by (auto simp: list_all_iff)
qed

lemma stoi_digits:
  assumes "list_all (is_digit 10) ds" and "ds \<noteq> []" and "digits_val 10 ds < 2 ^ 31" and "0 \<le> digits_val 10 ds"
  shows "stoi ds = Inr (digits_val 10 ds)"
proof -
  obtain d ds' where d: "ds = d # ds'" "is_digit 10 d" using assms(1,2) by (cases ds) auto
  then have c: "code_of d \<in> {48..57}"
    by (auto simp: is_digit_def digit_val_def Let_def split: if_splits)
  have sp: "\<not> is_space d" using c by (simp add: is_space_def)
  have m: "d \<noteq> CHR ''-''" "d \<noteq> CHR ''+''" using c by (auto simp: code_of_def)
  have "skip_sign (dropWhile is_space ds) = (False, ds)"
    using sp m d(1) by (simp add: skip_sign_def)
  moreover have "takeWhile (is_digit 10) ds = ds" using take_while_digits [OF assms(1), of "[]"] by simp
  ultimately show ?thesis using assms(2-4) by (simp only: stoi_def Let_def prod.case) simp
qed

text \<open>
  C25 The recognition reports the number that is on the pattern: for a model named \<open>prefix/tag_007/suffix\<close>,
  with or without suffix and leading zeros, the marker publishes the pattern \<open>tag/tag_007\<close> and the
  recognition reads the number 7, as long as no earlier part of the name contains \<open>tag_\<close> and the
  number fits in 31 bits.
\<close>

theorem tag_number_is_read:
  assumes "str_find ''tag_'' name = Some (length p)"
    and "name = p @ ''tag_'' @ replicate z CHR ''0'' @ dec_str k @ rest"
    and "rest = [] \<or> hd rest = CHR ''/''" and "k < 2 ^ 31"
  shows "get_tag_id_from_name name = Inr (int k)
    \<and> tag_id_string name = Some (''tag_'' @ replicate z CHR ''0'' @ dec_str k)"
proof -
  let ?ds = "replicate z CHR ''0'' @ dec_str k"
  have v: "digits_val 10 ?ds = int k" by (simp add: digits_val_zeros digits_val_dec)
  have up: "upto_slash (u @ ?ds @ rest) = u @ ?ds" if "CHR ''/'' \<notin> set u" for u
  proof -
    have n: "CHR ''/'' \<notin> set (u @ ?ds)" using that digit_not_slash [OF digits_of_marker] by auto
    show ?thesis
      using assms(3) upto_slash_all [OF n] upto_slash_stops [OF n] by (cases rest) auto
  qed
  have "stoi ?ds = Inr (int k)"
    using stoi_digits [OF digits_of_marker [of z k]] v assms(4) by simp
  then show ?thesis
    using up [of "[]"] up [of "''tag_''"] assms(1,2)
    by (simp add: get_tag_id_from_name_def tag_id_string_def)
qed

section \<open>The map of markers\<close>

definition known_tags :: "tag_vision \<Rightarrow> string set" where
  "known_tags v = (\<lambda>(_, n, _). n) ` set (tag_poses v)"

definition tv_inv :: "tag_vision \<Rightarrow> bool" where
  "tv_inv v \<longleftrightarrow> map_ok (tag_poses v)
     \<and> (\<forall>(a, n, _) \<in> set (tag_poses v). a = tv_address v n \<and> fnmatch_casefold ''tag_'' n)"

lemma known_iff:
  assumes "tv_inv v" and "inj (tv_address v)"
  shows "map_of (tag_poses v) (tv_address v n) = None \<longleftrightarrow> n \<notin> known_tags v"
proof -
  have "fst ` set (tag_poses v) = tv_address v ` known_tags v"
    using assms(1) unfolding tv_inv_def known_tags_def by force
  then show ?thesis using assms(2) by (simp add: map_of_eq_None_iff inj_image_mem_iff)
qed

lemma search_tags_frame:
  "tv_cfg (search_tags w ms v) = tv_cfg v \<and> tv_address (search_tags w ms v) = tv_address v
    \<and> tv_link (search_tags w ms v) = tv_link v \<and> tv_last_sent (search_tags w ms v) = tv_last_sent v
    \<and> tv_sent (search_tags w ms v) = tv_sent v \<and> tv_link_pose (search_tags w ms v) = tv_link_pose v"
  by (induction ms arbitrary: v) auto

lemma search_tags_spec:
  assumes "tv_inv v" and "inj (tv_address v)"
  shows "tv_inv (search_tags w ms v)
    \<and> known_tags (search_tags w ms v) = known_tags v \<union> {m \<in> set ms. fnmatch_casefold ''tag_'' m}"
  using assms
proof (induction ms arbitrary: v)
  case (Cons m ms)
  show ?case
  proof (cases "fnmatch_casefold ''tag_'' m \<and> m \<notin> known_tags v")
    case True
    let ?v = "v\<lparr>tag_poses := map_put (tv_address v m) (m, gz_pose w m) (tag_poses v)\<rparr>"
    have none: "map_of (tag_poses v) (tv_address v m) = None" using known_iff [OF Cons.prems] True by simp
    then have keys: "{e \<in> set (tag_poses v). fst e \<noteq> tv_address v m} = set (tag_poses v)"
      unfolding map_of_eq_None_iff by force
    have ok: "map_ok (tag_poses v)" using Cons.prems by (simp add: tv_inv_def)
    have s: "set (tag_poses ?v) = insert (tv_address v m, m, gz_pose w m) (set (tag_poses v))"
      using set_map_put [OF ok] keys by simp
    have "tv_inv ?v" using Cons.prems(1) True ok s unfolding tv_inv_def by (auto simp: map_ok_put)
    moreover have "known_tags ?v = insert m (known_tags v)" unfolding known_tags_def s by simp
    ultimately show ?thesis using Cons.IH [of ?v] Cons.prems(2) True none by auto
  next
    case False
    then have "search_tags w (m # ms) v = search_tags w ms v"
      using known_iff [OF Cons.prems, of m] by auto
    then show ?thesis using Cons.IH [OF Cons.prems] False by auto
  qed
qed simp

section \<open>What is in view\<close>

text \<open>
  The markers in view, by their pose relative to the camera: in front, near enough, at an angle of less
  than half of the field of view to either side, and turned away by more than 1.57.
\<close>

definition in_view :: "tag_vision \<Rightarrow> pose \<Rightarrow> bool" where
  "in_view v p \<longleftrightarrow>
     (let len = sqrt ((pos_x p)\<^sup>2 + (pos_y p)\<^sup>2 + (pos_z p)\<^sup>2)
      in len < tv_cfg v ''plugins/tag-vision/max_view_distance'' \<and> 0 < pos_x p
         \<and> \<bar>pos_y p\<bar> < len * sin (tv_cfg v ''plugins/tag-vision/camera_fov'' / 2) \<and> 1.57 < \<bar>rot_yaw p\<bar>)"

text \<open>What the maths library is documented to compute.\<close>

definition maths_ok :: "vision_world \<Rightarrow> bool" where
  "maths_ok w \<longleftrightarrow>
     (\<forall>p. gz_length w p = sqrt ((pos_x p)\<^sup>2 + (pos_y p)\<^sup>2 + (pos_z p)\<^sup>2)
        \<and> (gz_length w p \<noteq> 0 \<longrightarrow> pos_y (gz_normalized w p) = pos_y p / gz_length w p))"

lemma arcsin_less_iff:
  assumes "\<bar>u\<bar> \<le> 1" and "0 < \<alpha>" and "\<alpha> \<le> pi / 2"
  shows "\<bar>arcsin u\<bar> < \<alpha> \<longleftrightarrow> \<bar>u\<bar> < sin \<alpha>"
proof -
  have s: "arcsin (sin \<alpha>) = \<alpha>" using assms(2,3) by (intro arcsin_sin) auto
  have a: "- (pi / 2) \<le> arcsin u" "arcsin u \<le> pi / 2" "sin (arcsin u) = u"
    using assms(1) arcsin_lbound [of u] arcsin_ubound [of u] by (auto simp: abs_le_iff)
  have "arcsin u < \<alpha> \<longleftrightarrow> u < sin \<alpha>"
    using sin_mono_less_eq [of "arcsin u" \<alpha>] a assms(2,3) by auto
  moreover have "- \<alpha> < arcsin u \<longleftrightarrow> sin (- \<alpha>) < u"
    using sin_mono_less_eq [of "- \<alpha>" "arcsin u"] a assms(2,3) by auto
  ultimately show ?thesis by (auto simp: abs_less_iff)
qed

lemma visible_iff_in_view:
  assumes "maths_ok w" and "0 < tv_cfg v ''plugins/tag-vision/camera_fov''"
    and "tv_cfg v ''plugins/tag-vision/camera_fov'' \<le> pi"
  shows "tag_visible w v p \<longleftrightarrow> in_view v p"
proof (cases "0 < pos_x p")
  case True
  define len where "len = sqrt ((pos_x p)\<^sup>2 + (pos_y p)\<^sup>2 + (pos_z p)\<^sup>2)"
  have "0 < (pos_x p)\<^sup>2" using True by simp
  then have pos: "0 < len" unfolding len_def by (simp add: add_pos_nonneg)
  have "(pos_y p)\<^sup>2 \<le> len\<^sup>2" unfolding len_def by simp
  then have le: "\<bar>pos_y p\<bar> \<le> len" using pos by (metis abs_le_square_iff abs_of_pos)
  have w: "gz_length w p = len" "pos_y (gz_normalized w p) = pos_y p / len"
    using assms(1) pos unfolding maths_ok_def len_def by auto
  have "\<bar>arcsin (pos_y p / len)\<bar> < tv_cfg v ''plugins/tag-vision/camera_fov'' / 2
      \<longleftrightarrow> \<bar>pos_y p / len\<bar> < sin (tv_cfg v ''plugins/tag-vision/camera_fov'' / 2)"
    using le pos assms(2,3) by (intro arcsin_less_iff) (auto simp: divide_le_eq)
  also have "\<dots> \<longleftrightarrow> \<bar>pos_y p\<bar> < len * sin (tv_cfg v ''plugins/tag-vision/camera_fov'' / 2)"
    using pos by (simp add: pos_divide_less_eq mult.commute)
  finally show ?thesis
    using True w by (simp add: tag_visible_def in_view_def len_def [symmetric] Let_def)
qed (simp add: tag_visible_def in_view_def Let_def)

section \<open>Reports\<close>

abbreviation rel_pose :: "vision_world \<Rightarrow> tag_vision \<Rightarrow> string \<Rightarrow> pose" where
  "rel_pose w v n \<equiv> gz_minus w (gz_pose w n) (tv_link_pose v)"

definition report_of :: "vision_world \<Rightarrow> tag_vision \<Rightarrow> string \<Rightarrow> tag_report" where
  "report_of w v n = \<lparr>tr_pose = rel_pose w v n, tr_name = n, tr_id = (case get_tag_id_from_name n of Inr i \<Rightarrow> i | Inl _ \<Rightarrow> 0)\<rparr>"

lemma report_tags_spec:
  "if \<forall>(a, n, _) \<in> set ts. tag_visible w v (rel_pose w v n) \<longrightarrow> \<not> isl (get_tag_id_from_name n)
   then report_tags w v ts res = Inr (res @ map (report_of w v) (filter (\<lambda>n. tag_visible w v (rel_pose w v n)) (map (\<lambda>(_, n, _). n) ts)))
   else \<exists>e. report_tags w v ts res = Inl e"
proof (induction ts arbitrary: res)
  case (Cons t ts)
  obtain a n p where t: "t = (a, n, p)" by (cases t)
  show ?case
  proof (cases "tag_visible w v (rel_pose w v n)")
    case False
    then show ?thesis using Cons.IH [of res] by (simp add: t Let_def)
  next
    case True
    show ?thesis
    proof (cases "get_tag_id_from_name n")
      case (Inl e)
      then show ?thesis using True by (simp add: t Let_def)
    next
      case (Inr i)
      then have r: "report_of w v n = \<lparr>tr_pose = rel_pose w v n, tr_name = n, tr_id = i\<rparr>"
        by (simp add: report_of_def)
      show ?thesis
        using True Inr Cons.IH [of "res @ [report_of w v n]"] by (simp add: t Let_def r [symmetric])
    qed
  qed
qed simp

lemma searched_spec:
  assumes "tv_inv v" and "inj (tv_address v)"
  shows "tv_inv (searched w v) \<and> known_tags v \<subseteq> known_tags (searched w v)
    \<and> tv_cfg (searched w v) = tv_cfg v \<and> tv_address (searched w v) = tv_address v \<and> tv_link (searched w v) = tv_link v
    \<and> tv_last_sent (searched w v) = tv_last_sent v \<and> tv_sent (searched w v) = tv_sent v
    \<and> (gz_time w - last_searched_for_new_tags_time v > tv_cfg v ''plugins/tag-vision/search_for_tags_interval''
        \<longrightarrow> known_tags (searched w v) = known_tags v \<union> {m \<in> set (gz_models w). fnmatch_casefold ''tag_'' m})"
proof -
  let ?v = "v\<lparr>last_searched_for_new_tags_time := gz_time w\<rparr>"
  have "tv_inv ?v" "known_tags ?v = known_tags v" using assms(1) by (auto simp: tv_inv_def known_tags_def)
  then show ?thesis
    using search_tags_spec [of ?v w "gz_models w"] search_tags_frame [of w "gz_models w" ?v] assms
    by (auto simp: searched_def)
qed

lemma distinct_known:
  assumes "tv_inv v" and "inj (tv_address v)"
  shows "distinct (map (\<lambda>(_, n, _). n) (tag_poses v))"
proof -
  have "map fst (tag_poses v) = map (tv_address v) (map (\<lambda>(_, n, _). n) (tag_poses v))"
    using assms(1) by (auto simp: tv_inv_def)
  moreover have "distinct (map fst (tag_poses v))" using assms(1) by (simp add: tv_inv_def map_ok_distinct)
  ultimately show ?thesis by (simp only: distinct_map)
qed

definition due :: "vision_world \<Rightarrow> tag_vision \<Rightarrow> bool" where
  "due w v \<longleftrightarrow> gz_time w - tv_last_sent v > tv_cfg v ''plugins/tag-vision/send_interval''"

lemma TagVision_OnUpdate_cases:
  assumes "tv_inv v" and "inj (tv_address v)"
  shows "TagVision_OnUpdate w v =
    (case tv_link v of None \<Rightarrow> Inl No_link
     | Some l \<Rightarrow>
        let u = (searched w v)\<lparr>tv_link_pose := gz_link_pose w l\<rparr>
        in if due w v
           then case report_tags w u (tag_poses u) [] of
                  Inl e \<Rightarrow> Inl e
                | Inr res \<Rightarrow> Inr (u\<lparr>tv_last_sent := gz_time w, tag_poses := map (\<lambda>(a, n, _). (a, n, gz_pose w n)) (tag_poses u),
                    tv_sent := tv_sent v @ [res]\<rparr>)
           else Inr u)"
proof -
  have cong: "report_tags w (u\<lparr>tv_last_sent := t\<rparr>) ts res = report_tags w u ts res" for u t ts res
    by (induction ts arbitrary: res) (auto simp: Let_def tag_visible_def split: sum.splits)
  show ?thesis
    using searched_spec [OF assms, of w] cong
    by (simp add: TagVision_OnUpdate_def due_def Let_def split: option.split sum.split)
qed

lemma tv_inv_refreshed:
  "tv_inv v \<Longrightarrow> tv_inv (v\<lparr>tv_link_pose := q, tv_last_sent := t, tag_poses := map (\<lambda>(a, n, _). (a, n, f n)) (tag_poses v), tv_sent := r\<rparr>)"
  by (auto simp: tv_inv_def map_ok_def sorted_wrt_map case_prod_unfold)

fun tv_run :: "vision_world list \<Rightarrow> tag_vision \<Rightarrow> tag_error + tag_vision" where
  "tv_run [] v = Inr v"
| "tv_run (w # ws) v = and_then (TagVision_OnUpdate w v) (tv_run ws)"

lemma OnUpdate_inv:
  assumes "TagVision_OnUpdate w v = Inr v'" and "tv_inv v" and "inj (tv_address v)"
  shows "tv_inv v' \<and> tv_address v' = tv_address v \<and> tv_link v' = tv_link v \<and> tv_cfg v' = tv_cfg v"
proof -
  have s: "tv_inv (searched w v)" "tv_address (searched w v) = tv_address v"
    "tv_link (searched w v) = tv_link v" "tv_cfg (searched w v) = tv_cfg v"
    using searched_spec [OF assms(2,3)] by auto
  then have "tv_inv ((searched w v)\<lparr>tv_link_pose := q\<rparr>)" for q by (simp add: tv_inv_def)
  with assms(1) s tv_inv_refreshed [OF s(1)] show ?thesis
    unfolding TagVision_OnUpdate_cases [OF assms(2,3)]
    by (auto simp: Let_def split: option.splits if_splits sum.splits)
qed

lemma tv_run_inv:
  "tv_run ws v = Inr v' \<Longrightarrow> tv_inv v \<Longrightarrow> inj (tv_address v) \<Longrightarrow>
    tv_inv v' \<and> tv_address v' = tv_address v \<and> tv_link v' = tv_link v \<and> tv_cfg v' = tv_cfg v"
proof (induction ws arbitrary: v)
  case (Cons w ws)
  then obtain u where "TagVision_OnUpdate w v = Inr u" "tv_run ws u = Inr v'"
    by (auto simp: and_then_Inr_iff)
  with OnUpdate_inv [of w v u] Cons show ?case by metis
qed simp

lemma tv_inv_load: "tv_inv (TagVision_Load cfg address w n)"
  by (simp add: tv_inv_def TagVision_Load_def)

text \<open>
  C24 The recognition of markers, at a time when a report is due, after any history of updates since the
  plugin was loaded, and with the maths library as documented. Exactly the known markers in view are
  reported, once each, with their pose relative to the camera and the number in their name; the update
  throws if and only if one of these has a name without a proper number.
\<close>

theorem tags_in_view:
  assumes "tv_run ws (TagVision_Load cfg address w0 robot) = Inr v" and "inj address"
    and "tv_link v = Some l" and "due w v" and "maths_ok w"
    and "0 < tv_cfg v ''plugins/tag-vision/camera_fov''" and "tv_cfg v ''plugins/tag-vision/camera_fov'' \<le> pi"
    and "seen = {n \<in> known_tags (searched w v). in_view v (gz_minus w (gz_pose w n) (gz_link_pose w l))}"
  shows "if \<forall>n\<in>seen. \<not> isl (get_tag_id_from_name n)
    then \<exists>v' res. TagVision_OnUpdate w v = Inr v' \<and> tv_sent v' = tv_sent v @ [res]
      \<and> distinct (map tr_name res) \<and> tr_name ` set res = seen
      \<and> (\<forall>r\<in>set res. get_tag_id_from_name (tr_name r) = Inr (tr_id r)
           \<and> tr_pose r = gz_minus w (gz_pose w (tr_name r)) (gz_link_pose w l))
    else \<exists>e. TagVision_OnUpdate w v = Inl e"
proof -
  have inv: "tv_inv v" "inj (tv_address v)"
    using tv_run_inv [OF assms(1) tv_inv_load] assms(2) by (simp_all add: TagVision_Load_def)
  note s = searched_spec [OF inv, of w]
  define u where "u = (searched w v)\<lparr>tv_link_pose := gz_link_pose w l\<rparr>"
  have u: "tv_link_pose u = gz_link_pose w l" "tag_poses u = tag_poses (searched w v)" "tv_cfg u = tv_cfg v"
    using s by (simp_all add: u_def)
  have vis: "tag_visible w u p \<longleftrightarrow> in_view v p" for p
    using visible_iff_in_view [of w u p] assms(5-7) u(3) by (simp add: in_view_def)
  define ns where "ns = filter (\<lambda>n. tag_visible w u (rel_pose w u n)) (map (\<lambda>(_, n, _). n) (tag_poses u))"
  have seen: "set ns = seen" unfolding assms(8) ns_def vis u known_tags_def by auto
  have d: "distinct ns" unfolding ns_def u(2)
    using distinct_known [of "searched w v"] s inv(2) by (intro distinct_filter) auto
  have all: "(\<forall>(a, n, _) \<in> set (tag_poses u). tag_visible w u (rel_pose w u n) \<longrightarrow> \<not> isl (get_tag_id_from_name n))
      \<longleftrightarrow> (\<forall>n\<in>seen. \<not> isl (get_tag_id_from_name n))"
    unfolding seen [symmetric] ns_def by auto
  note r = report_tags_spec [of "tag_poses u" w u "[]", unfolded all ns_def [symmetric]]
  note upd = TagVision_OnUpdate_cases [OF inv, of w, unfolded assms(3) Let_def option.case u_def [symmetric]]
  show ?thesis
  proof (cases "\<forall>n\<in>seen. \<not> isl (get_tag_id_from_name n)")
    case True
    then have "report_tags w u (tag_poses u) [] = Inr (map (report_of w u) ns)" using r by simp
    moreover have "get_tag_id_from_name n = Inr (tr_id (report_of w u n))" if "n \<in> set ns" for n
      using True that seen by (cases "get_tag_id_from_name n") (auto simp: report_of_def)
    moreover have "map tr_name (map (report_of w u) ns) = ns" by (simp add: report_of_def map_idI)
    ultimately show ?thesis
      using True upd assms(4) d seen
      by (auto simp: u(1) image_image report_of_def)
  next
    case False
    then obtain e where "report_tags w u (tag_poses u) [] = Inl e" using r [unfolded if_not_P [OF False]] by blast
    then show ?thesis using False upd assms(4) by auto
  qed
qed

definition demo_vision :: "real \<Rightarrow> vision_world" where
  "demo_vision t = \<lparr>gz_dist = euclid, gz_models = [''tag_01'', ''robotino''], gz_has_base = (\<lambda>n. True),
     gz_pose = (\<lambda>n. Pose3d 1 0 0 0 0 3), gz_links = (\<lambda>n. [''tag_vision::link'']), gz_link_pose = (\<lambda>n. Pose3d 0 0 0 0 0 0),
     gz_time = t, gz_minus = (\<lambda>p q. p), gz_length = (\<lambda>p. sqrt ((pos_x p)\<^sup>2 + (pos_y p)\<^sup>2 + (pos_z p)\<^sup>2)),
     gz_normalized = (\<lambda>p. p\<lparr>pos_y := pos_y p / sqrt ((pos_x p)\<^sup>2 + (pos_y p)\<^sup>2 + (pos_z p)\<^sup>2)\<rparr>)\<rparr>"

definition cfg_tags :: "string \<Rightarrow> real" where
  "cfg_tags k = (if k = ''plugins/tag-vision/max_view_distance'' then 3
     else if k = ''plugins/tag-vision/camera_fov'' then pi else 1)"

fun name_code :: "string \<Rightarrow> nat" where
  "name_code [] = 0"
| "name_code (c # cs) = 257 * name_code cs + of_char c + 1"

lemma inj_name_code: "inj name_code"
proof (rule injI)
  fix s t :: string
  show "name_code s = name_code t \<Longrightarrow> s = t"
  proof (induction s arbitrary: t)
    case Nil
    then show ?case by (cases t) simp_all
  next
    case (Cons c cs)
    then obtain d ds where t: "t = d # ds" by (cases t) auto
    let ?c = "of_char c :: nat" and ?d = "of_char d :: nat"
    have b: "?c < 256" "?d < 256" by simp_all
    have e: "257 * name_code cs + ?c = 257 * name_code ds + ?d" using Cons.prems t by simp
    then have "(257 * name_code cs + ?c) div 257 = (257 * name_code ds + ?d) div 257" by simp
    then have n: "name_code cs = name_code ds" using b by simp
    with e have "?c = ?d" by simp
    then show ?case using Cons.IH [OF n] t by simp
  qed
qed

definition demo_tag_vision :: tag_vision where
  "demo_tag_vision = TagVision_Load cfg_tags name_code (demo_vision 0) ''robotino''"

lemma demo_known: "known_tags (searched (demo_vision 10) demo_tag_vision) = {''tag_01''}"
  by (simp add: known_tags_def searched_def demo_tag_vision_def TagVision_Load_def demo_vision_def cfg_tags_def
      fnmatch_casefold_def str_contains_def str_tolower_def ToLower_def IsUpper_def code_of_def)

lemma demo_in_view: "in_view demo_tag_vision (Pose3d 1 0 0 0 0 3)"
  by (simp add: in_view_def demo_tag_vision_def TagVision_Load_def cfg_tags_def Pose3d_def)

lemma demo_tag_id: "get_tag_id_from_name ''tag_01'' = Inr 1"
  by (simp add: get_tag_id_from_name_def upto_slash_def stoi_def Let_def skip_sign_def is_space_def code_of_def
      is_digit_def digit_val_def digits_val_def)

theorem tags_in_view_witness:
  "\<exists>v' r. TagVision_OnUpdate (demo_vision 10) demo_tag_vision = Inr v' \<and> r \<in> set (last (tv_sent v'))
     \<and> tr_name r = ''tag_01'' \<and> tr_id r = 1"
proof -
  define seen where "seen = {n \<in> known_tags (searched (demo_vision 10) demo_tag_vision).
    in_view demo_tag_vision (gz_minus (demo_vision 10) (gz_pose (demo_vision 10) n) (gz_link_pose (demo_vision 10) ''tag_vision::link''))}"
  have "gz_minus (demo_vision 10) (gz_pose (demo_vision 10) n) q = Pose3d 1 0 0 0 0 3" for n q
    by (simp add: demo_vision_def)
  then have s: "seen = {''tag_01''}" using demo_in_view by (auto simp: seen_def demo_known)
  have l: "tv_link demo_tag_vision = Some ''tag_vision::link''"
    by (simp add: demo_tag_vision_def TagVision_Load_def demo_vision_def fnmatch_casefold_def str_contains_def
        str_tolower_def ToLower_def IsUpper_def code_of_def)
  have m: "maths_ok (demo_vision 10)" by (simp add: maths_ok_def demo_vision_def)
  have d: "due (demo_vision 10) demo_tag_vision"
    by (simp add: due_def demo_tag_vision_def TagVision_Load_def demo_vision_def cfg_tags_def)
  have f: "tv_cfg demo_tag_vision ''plugins/tag-vision/camera_fov'' = pi"
    by (simp add: demo_tag_vision_def TagVision_Load_def cfg_tags_def)
  have run: "tv_run [] (TagVision_Load cfg_tags name_code (demo_vision 0) ''robotino'') = Inr demo_tag_vision"
    by (simp add: demo_tag_vision_def)
  have fov: "0 < tv_cfg demo_tag_vision ''plugins/tag-vision/camera_fov''"
    "tv_cfg demo_tag_vision ''plugins/tag-vision/camera_fov'' \<le> pi" by (simp_all add: f)
  have ids: "\<forall>n\<in>seen. \<not> isl (get_tag_id_from_name n)" by (simp add: s demo_tag_id)
  obtain v' res where v: "TagVision_OnUpdate (demo_vision 10) demo_tag_vision = Inr v'"
    "tv_sent v' = tv_sent demo_tag_vision @ [res]" and names: "tr_name ` set res = seen"
    and r: "\<forall>r\<in>set res. get_tag_id_from_name (tr_name r) = Inr (tr_id r)
      \<and> tr_pose r = gz_minus (demo_vision 10) (gz_pose (demo_vision 10) (tr_name r)) (gz_link_pose (demo_vision 10) ''tag_vision::link'')"
    using tags_in_view [OF run inj_name_code l d m fov seen_def, unfolded if_P [OF ids]]
    by (elim exE conjE) (rule that)
  have "''tag_01'' \<in> tr_name ` set res" unfolding names s by (rule singletonI)
  then obtain r where n: "r \<in> set res" "tr_name r = ''tag_01''" by (elim imageE) (rule that, simp_all only:)
  have "get_tag_id_from_name (tr_name r) = Inr (tr_id r)" using bspec [OF r n(1)] by (rule conjunct1)
  then have "tr_id r = 1" unfolding n(2) demo_tag_id by (simp only: sum.inject)
  then show ?thesis using v n by (intro exI [of _ v'] exI [of _ r]) simp
qed

text \<open>What ignoring the case in one place and not in the other leads to.\<close>

lemma upper_case_marker: "fnmatch_casefold ''tag_'' ''Tag_01'' \<and> get_tag_id_from_name ''Tag_01'' = Inr 0
    \<and> tag_id_string ''Tag_01'' = None"
  by code_simp

lemma nameless_marker_throws: "get_tag_id_from_name ''tag_vision'' = Inl Invalid_argument"
  by (simp add: get_tag_id_from_name_def upto_slash_def stoi_def Let_def skip_sign_def is_space_def code_of_def
      is_digit_def digit_val_def)

theorem tag_number_is_read_witness: "get_tag_id_from_name ''M/tag_017/link'' = Inr 17"
proof -
  have "dec_str 17 = ''17''" by code_simp
  then have "''M/tag_017/link'' = ''M/'' @ ''tag_'' @ replicate 1 CHR ''0'' @ dec_str 17 @ ''/link''" by simp
  moreover have "str_find ''tag_'' ''M/tag_017/link'' = Some (length ''M/'')" by simp
  ultimately show ?thesis using tag_number_is_read [of "''M/tag_017/link''" "''M/''" 1 17 "''/link''"] by simp
qed

end
