(* ===== verification/ConveyorVision.thy ===== *)
theory ConveyorVision
  imports RobotSensors
begin

text \<open>
  \<open>plugins/conveyor-vision/conveyor_vision.cpp\<close>: the simulated recognition of the conveyor belt of a
  machine in front of the camera. The plugin reports the pose of the end of the belt that is nearer to
  the camera, and of the slide of a ring station, relative to the base of the robot.
\<close>

section \<open>State\<close>

text \<open>
  \<open>gz_pose_minus\<close> is the difference of two poses; \<open>gz_rot_sub\<close> and \<open>gz_rot_add\<close> are \<open>CoordRotationSub\<close>
  and \<open>CoordRotationAdd\<close> of the maths library with the rotations as roll, pitch and yaw; \<open>gz_quat\<close> gives
  the rotation of a pose as a quaternion.
\<close>

record conv_world = gz +
  gz_pose_minus :: "pose \<Rightarrow> pose \<Rightarrow> pose"
  gz_rot_sub :: "pose \<Rightarrow> real \<times> real \<times> real \<Rightarrow> real \<times> real \<times> real"
  gz_rot_add :: "pose \<Rightarrow> real \<times> real \<times> real \<Rightarrow> real \<times> real \<times> real"
  gz_quat :: "pose \<Rightarrow> real \<times> real \<times> real \<times> real"

text \<open>\<open>llsf_msgs::Pose3D\<close> and \<open>ConveyorVisionResult\<close>.\<close>

record pose3d_msg =
  p3_position :: "real \<times> real \<times> real"
  p3_ori :: "real \<times> real \<times> real \<times> real"

record conveyor_msg =
  cm_conveyor :: pose3d_msg
  cm_slide :: "pose3d_msg option"

record conveyor_vision =
  cv_cfg :: "string \<Rightarrow> real"
  cv_model :: string
  cv_last_sent :: real
  cv_send_interval :: real
  cv_offset_z :: real
  cv_sent :: "conveyor_msg list"

definition Conveyor_Load :: "(string \<Rightarrow> real) \<Rightarrow> 'a gz_scheme \<Rightarrow> string \<Rightarrow> conveyor_vision" where
  "Conveyor_Load cfg w n =
     \<lparr>cv_cfg = cfg, cv_model = n, cv_last_sent = gz_time w, cv_send_interval = 0.05, cv_offset_z = 0, cv_sent = []\<rparr>"

abbreviation cv_belt_offset :: "conveyor_vision \<Rightarrow> real" where
  "cv_belt_offset v \<equiv> cv_cfg v ''plugins/mps/belt_offset_side''"
abbreviation cv_slide_offset :: "conveyor_vision \<Rightarrow> real" where
  "cv_slide_offset v \<equiv> cv_cfg v ''plugins/mps/slide_offset_side''"
abbreviation cv_belt_height :: "conveyor_vision \<Rightarrow> real" where
  "cv_belt_height v \<equiv> cv_cfg v ''plugins/mps/belt_height''"
abbreviation cv_belt_end :: "conveyor_vision \<Rightarrow> real" where
  "cv_belt_end v \<equiv> cv_cfg v ''plugins/mps/belt_length'' / 2 - cv_cfg v ''plugins/mps/puck_size''"

section \<open>Operations\<close>

definition on_set_conveyor_msg :: "int \<Rightarrow> conveyor_vision \<Rightarrow> conveyor_vision" where
  "on_set_conveyor_msg data v = v\<lparr>cv_offset_z := cv_offset_z v + of_int data / 1000\<rparr>"

definition is_machine :: "string \<Rightarrow> bool" where
  "is_machine name \<longleftrightarrow>
     str_contains name ''BS'' \<or> str_contains name ''SS'' \<or> str_contains name ''CS''
     \<or> str_contains name ''DS'' \<or> str_contains name ''RS''"

definition get_link :: "'a gz_scheme \<Rightarrow> string \<Rightarrow> string \<Rightarrow> string option" where
  "get_link w m n = (if n \<in> set (gz_links w m) then Some n else None)"

definition cv_look_pose :: "conveyor_vision \<Rightarrow> pose \<Rightarrow> pose" where
  "cv_look_pose v camera_pose =
     (let ori = rot_yaw camera_pose;
          rel_x = cv_cfg v ''plugins/conveyor-vision/search-area-rel-x'';
          rel_y = cv_cfg v ''plugins/conveyor-vision/search-area-rel-y''
      in Pose3d (pos_x camera_pose + cos ori * rel_x - sin ori * rel_y)
           (pos_y camera_pose + sin ori * rel_x + cos ori * rel_y) (cv_belt_height v) 0 0 0)"

definition machine_in_area :: "conv_world \<Rightarrow> conveyor_vision \<Rightarrow> pose \<Rightarrow> string \<Rightarrow> bool" where
  "machine_in_area w v look_pose m \<longleftrightarrow>
     is_machine m
     \<and> gz_dist w look_pose ((gz_pose w m)\<lparr>pos_z := pos_z (gz_pose w m) + cv_belt_height v\<rparr>)
         < cv_cfg v ''plugins/conveyor-vision/radius-detection-area''"

definition conv_input_pose :: "conv_world \<Rightarrow> conveyor_vision \<Rightarrow> pose \<Rightarrow> pose" where
  "conv_input_pose w v p =
     (let (r, i, y) = gz_rot_sub w p (0, 0, pi / 2)
      in Pose3d (pos_x p + cv_belt_offset v * cos (rot_yaw p) - cv_belt_end v * sin (rot_yaw p))
           (pos_y p + cv_belt_offset v * sin (rot_yaw p) + cv_belt_end v * cos (rot_yaw p)) (cv_belt_height v) r i y)"

definition conv_output_pose :: "conv_world \<Rightarrow> conveyor_vision \<Rightarrow> pose \<Rightarrow> pose" where
  "conv_output_pose w v p =
     (let (r, i, y) = gz_rot_add w p (0, 0, pi / 2)
      in Pose3d (pos_x p + cv_belt_offset v * cos (rot_yaw p) + cv_belt_end v * sin (rot_yaw p))
           (pos_y p + cv_belt_offset v * sin (rot_yaw p) - cv_belt_end v * cos (rot_yaw p)) (cv_belt_height v) r i y)"

definition conv_slide_pose :: "conv_world \<Rightarrow> conveyor_vision \<Rightarrow> pose \<Rightarrow> pose" where
  "conv_slide_pose w v p =
     (let (r, i, y) = gz_rot_sub w p (0, 0, pi / 2); off = cv_belt_offset v + cv_slide_offset v
      in Pose3d (pos_x p + off * cos (rot_yaw p) - cv_belt_end v * sin (rot_yaw p))
           (pos_y p + off * sin (rot_yaw p) + cv_belt_end v * cos (rot_yaw p)) (cv_belt_height v) r i y)"

definition pose_to_msg :: "conv_world \<Rightarrow> pose \<Rightarrow> pose3d_msg" where
  "pose_to_msg w p = \<lparr>p3_position = (pos_x p, pos_y p, pos_z p), p3_ori = gz_quat w p\<rparr>"

text \<open>What is sent about the machine \<open>m\<close>; a pose that is not set is that of the origin.\<close>

definition conveyor_result :: "conv_world \<Rightarrow> conveyor_vision \<Rightarrow> pose \<Rightarrow> pose \<Rightarrow> string \<Rightarrow> conveyor_msg" where
  "conveyor_result w v camera_pose base_link_pose m =
     (let mps_pose = gz_pose w m;
          input_pose = conv_input_pose w v mps_pose; output_pose = conv_output_pose w v mps_pose;
          is_RS = str_contains m ''RS'';
          slide_pose = (if is_RS then conv_slide_pose w v mps_pose else Pose3d 0 0 0 0 0 0);
          (res_conv, res_slide) =
            (if gz_dist w input_pose camera_pose < gz_dist w output_pose camera_pose
             then (gz_pose_minus w input_pose base_link_pose,
                   if is_RS then gz_pose_minus w slide_pose base_link_pose else Pose3d 0 0 0 0 0 0)
             else (gz_pose_minus w output_pose base_link_pose, Pose3d 0 0 0 0 0 0))
      in \<lparr>cm_conveyor = pose_to_msg w res_conv, cm_slide = (if is_RS then Some (pose_to_msg w res_slide) else None)\<rparr>)"

definition send_conveyor_result :: "bool \<Rightarrow> conv_world \<Rightarrow> conveyor_vision \<Rightarrow> conveyor_vision" where
  "send_conveyor_result has_conn w v =
     (if \<not> has_conn then v
      else case get_link w (cv_model v) ''carologistics-robotino-3::conveyor_cam::link'' of
             None \<Rightarrow> v
           | Some camera_link \<Rightarrow>
               (case get_link w (cv_model v) ''carologistics-robotino-3::base_link'' of
                  None \<Rightarrow> v
                | Some base_link \<Rightarrow>
                    let camera_pose = gz_link_pose w camera_link
                    in case find (machine_in_area w v (cv_look_pose v camera_pose)) (gz_models w) of
                         None \<Rightarrow> v
                       | Some m \<Rightarrow>
                           v\<lparr>cv_sent := cv_sent v @
                              [conveyor_result w v camera_pose (gz_link_pose w base_link) m]\<rparr>))"

definition Conveyor_OnUpdate :: "bool \<times> conv_world \<Rightarrow> conveyor_vision \<Rightarrow> conveyor_vision" where
  "Conveyor_OnUpdate cw v =
     (let (has_conn, w) = cw; time = gz_time w
      in if time - cv_last_sent v > cv_send_interval v
         then send_conveyor_result has_conn w (v\<lparr>cv_last_sent := time\<rparr>) else v)"

section \<open>The sender\<close>

lemma send_conveyor_count:
  "cv_last_sent (send_conveyor_result c w v) = cv_last_sent v
    \<and> cv_send_interval (send_conveyor_result c w v) = cv_send_interval v
    \<and> length (cv_sent v) \<le> length (cv_sent (send_conveyor_result c w v))
    \<and> length (cv_sent (send_conveyor_result c w v)) \<le> length (cv_sent v) + 1"
  by (simp add: send_conveyor_result_def Let_def split: option.split)

interpretation conveyor: rate_limited Conveyor_OnUpdate gz_time cv_last_sent cv_send_interval "\<lambda>v. length (cv_sent v)"
  by unfold_locales
    (use send_conveyor_count [of _ _ "s\<lparr>cv_last_sent := gz_time w\<rparr>" for s w] in \<open>auto simp: Conveyor_OnUpdate_def Let_def\<close>)

section \<open>The side of the machine\<close>

text \<open>How far the point \<open>c\<close> is on the input side of a machine with the pose \<open>p\<close>.\<close>

definition input_side :: "pose \<Rightarrow> pose \<Rightarrow> real" where
  "input_side p c = cos (rot_yaw p) * (pos_y c - pos_y p) - sin (rot_yaw p) * (pos_x c - pos_x p)"

lemma nearer_end:
  assumes "0 < cv_belt_end v"
  shows "euclid (conv_input_pose w v p) c < euclid (conv_output_pose w v p) c \<longleftrightarrow> 0 < input_side p c"
proof -
  let ?i = "conv_input_pose w v p" and ?o = "conv_output_pose w v p"
  have "(pos_x ?o - pos_x c) * (pos_x ?o - pos_x c) + (pos_y ?o - pos_y c) * (pos_y ?o - pos_y c) + (pos_z ?o - pos_z c) * (pos_z ?o - pos_z c)
      - ((pos_x ?i - pos_x c) * (pos_x ?i - pos_x c) + (pos_y ?i - pos_y c) * (pos_y ?i - pos_y c) + (pos_z ?i - pos_z c) * (pos_z ?i - pos_z c))
      = 4 * cv_belt_end v * input_side p c"
    by (simp add: conv_input_pose_def conv_output_pose_def Pose3d_def input_side_def case_prod_unfold Let_def)
      (simp add: field_simps)
  moreover have "0 < 4 * cv_belt_end v * input_side p c \<longleftrightarrow> 0 < input_side p c"
    using assms by (simp add: zero_less_mult_iff)
  ultimately show ?thesis unfolding euclid_def real_sqrt_less_iff by linarith
qed

lemma conveyor_result_side:
  assumes "gz_dist w = euclid" and "0 < cv_belt_end v"
  shows "conveyor_result w v cam base m = \<lparr>cm_conveyor = pose_to_msg w (gz_pose_minus w
        (if 0 < input_side (gz_pose w m) cam then conv_input_pose w v (gz_pose w m) else conv_output_pose w v (gz_pose w m)) base),
      cm_slide = (if \<not> str_contains m ''RS'' then None
        else if 0 < input_side (gz_pose w m) cam
        then Some (pose_to_msg w (gz_pose_minus w (conv_slide_pose w v (gz_pose w m)) base))
        else Some (pose_to_msg w (Pose3d 0 0 0 0 0 0)))\<rparr>"
  by (cases "0 < input_side (gz_pose w m) cam") (simp_all add: conveyor_result_def assms(1) nearer_end [OF assms(2)] Let_def)

text \<open>
  C26 The recognition of the conveyor, when a report is due, somebody listens and the robot has its links.
  The first machine in the order of the world whose center is within the detection area is reported, and
  nothing if there is none. The reported end of the belt is the input if and only if the camera is on the
  input side of the machine. The slide is reported for ring stations only; from the output side its pose
  is the robot's own, which nothing has set.
\<close>

theorem conveyor_end_reported:
  assumes "gz_time w - cv_last_sent v > cv_send_interval v" and "gz_dist w = euclid" and "0 < cv_belt_end v"
    and "{''carologistics-robotino-3::conveyor_cam::link'', ''carologistics-robotino-3::base_link''} \<subseteq> set (gz_links w (cv_model v))"
    and "cam = gz_link_pose w ''carologistics-robotino-3::conveyor_cam::link''"
    and "base = gz_link_pose w ''carologistics-robotino-3::base_link''"
  shows "case find (machine_in_area w v (cv_look_pose v cam)) (gz_models w) of
      None \<Rightarrow> cv_sent (Conveyor_OnUpdate (True, w) v) = cv_sent v
    | Some m \<Rightarrow> \<exists>msg. cv_sent (Conveyor_OnUpdate (True, w) v) = cv_sent v @ [msg]
        \<and> cm_conveyor msg = pose_to_msg w (gz_pose_minus w
            (if 0 < input_side (gz_pose w m) cam then conv_input_pose w v (gz_pose w m) else conv_output_pose w v (gz_pose w m)) base)
        \<and> cm_slide msg = (if \<not> str_contains m ''RS'' then None
            else if 0 < input_side (gz_pose w m) cam
            then Some (pose_to_msg w (gz_pose_minus w (conv_slide_pose w v (gz_pose w m)) base))
            else Some (pose_to_msg w (Pose3d 0 0 0 0 0 0)))"
proof -
  let ?v = "v\<lparr>cv_last_sent := gz_time w\<rparr>"
  have poses: "conv_input_pose w ?v = conv_input_pose w v" "conv_output_pose w ?v = conv_output_pose w v"
    "conv_slide_pose w ?v = conv_slide_pose w v"
    by (simp_all add: fun_eq_iff conv_input_pose_def conv_output_pose_def conv_slide_pose_def)
  have cfg: "machine_in_area w ?v = machine_in_area w v" "cv_look_pose ?v = cv_look_pose v"
    "conveyor_result w ?v = conveyor_result w v"
    by (simp_all add: fun_eq_iff machine_in_area_def cv_look_pose_def conveyor_result_def poses cong: if_cong)
  have upd: "Conveyor_OnUpdate (True, w) v =
      (case find (machine_in_area w v (cv_look_pose v cam)) (gz_models w) of
         None \<Rightarrow> ?v | Some m \<Rightarrow> ?v\<lparr>cv_sent := cv_sent v @ [conveyor_result w v cam base m]\<rparr>)"
    using assms(1,4) unfolding assms(5,6)
    by (simp add: Conveyor_OnUpdate_def send_conveyor_result_def get_link_def cfg Let_def cong: option.case_cong)
  show ?thesis
    unfolding upd conveyor_result_side [OF assms(2,3)] by (simp split: option.split)
qed

definition cfg_conveyor :: "string \<Rightarrow> real" where
  "cfg_conveyor k =
     (if k = ''plugins/mps/belt_length'' then 0.35 else if k = ''plugins/mps/puck_size'' then 0.02
      else if k = ''plugins/conveyor-vision/radius-detection-area'' then 0.6
      else if k = ''plugins/mps/belt_height'' then 0.9 else 0)"

definition demo_conveyor_world :: conv_world where
  "demo_conveyor_world = \<lparr>gz_dist = euclid, gz_models = [''robotino'', ''C-RS1''], gz_has_base = (\<lambda>n. True),
     gz_pose = (\<lambda>n. Pose3d 0 0 0 0 0 0),
     gz_links = (\<lambda>n. [''carologistics-robotino-3::conveyor_cam::link'', ''carologistics-robotino-3::base_link'']),
     gz_link_pose = (\<lambda>n. Pose3d 0 (- 0.5) 0 0 0 0), gz_time = 10, gz_pose_minus = (\<lambda>p q. p),
     gz_rot_sub = (\<lambda>p q. (0, 0, - pi / 2)), gz_rot_add = (\<lambda>p q. (0, 0, pi / 2)), gz_quat = (\<lambda>p. (0, 0, 0, 1))\<rparr>"

definition demo_conveyor :: conveyor_vision where
  "demo_conveyor = Conveyor_Load cfg_conveyor (demo_conveyor_world\<lparr>gz_time := 0\<rparr>) ''robotino''"

theorem conveyor_end_reported_witness:
  "\<exists>msg. cv_sent (Conveyor_OnUpdate (True, demo_conveyor_world) demo_conveyor) = [msg]
    \<and> cm_slide msg = Some \<lparr>p3_position = (0, 0, 0), p3_ori = (0, 0, 0, 1)\<rparr>"
proof -
  let ?cam = "gz_link_pose demo_conveyor_world ''carologistics-robotino-3::conveyor_cam::link''"
  have e: "euclid \<lparr>pos_x = 0, pos_y = - (1 / 2), pos_z = 9 / 10, rot_roll = 0, rot_pitch = 0, rot_yaw = 0\<rparr>
      \<lparr>pos_x = 0, pos_y = 0, pos_z = 9 / 10, rot_roll = 0, rot_pitch = 0, rot_yaw = 0\<rparr> = 1 / 2"
    by (simp add: euclid_def real_sqrt_divide)
  have f: "find (machine_in_area demo_conveyor_world demo_conveyor (cv_look_pose demo_conveyor ?cam)) (gz_models demo_conveyor_world)
      = Some ''C-RS1''"
    by (simp add: machine_in_area_def is_machine_def str_contains_def cv_look_pose_def demo_conveyor_world_def demo_conveyor_def
        Conveyor_Load_def cfg_conveyor_def Pose3d_def e)
  have side: "\<not> 0 < input_side (gz_pose demo_conveyor_world ''C-RS1'') ?cam" "str_contains ''C-RS1'' ''RS''"
    by (simp_all add: input_side_def demo_conveyor_world_def Pose3d_def str_contains_def)
  have "gz_time demo_conveyor_world - cv_last_sent demo_conveyor > cv_send_interval demo_conveyor"
    "gz_dist demo_conveyor_world = euclid" "0 < cv_belt_end demo_conveyor"
    "{''carologistics-robotino-3::conveyor_cam::link'', ''carologistics-robotino-3::base_link''}
       \<subseteq> set (gz_links demo_conveyor_world (cv_model demo_conveyor))"
    by (simp_all add: demo_conveyor_world_def demo_conveyor_def Conveyor_Load_def cfg_conveyor_def)
  note conveyor_end_reported [OF this refl refl, unfolded f option.case]
  moreover have "pose_to_msg demo_conveyor_world (Pose3d 0 0 0 0 0 0) = \<lparr>p3_position = (0, 0, 0), p3_ori = (0, 0, 0, 1)\<rparr>"
    by (simp add: pose_to_msg_def Pose3d_def demo_conveyor_world_def)
  moreover have "cv_sent demo_conveyor = []" by (simp add: demo_conveyor_def Conveyor_Load_def)
  ultimately show ?thesis using side by auto
qed

end
