(* ===== verification/ArgParser.thy ===== *)
theory ArgParser
  imports KeyMap ConfigScalar
begin

text \<open>
  \<open>libs/utils/system/argparser.cpp\<close>: the options and items of a command line, and their conversion to
  numbers, hosts and ports. \<open>getopt\<close> of the C library is a parameter: what its successive calls return.
  \<open>strtol\<close>, \<open>atoi\<close> and \<open>strtok_r\<close> are modelled as far as the parser uses them.
\<close>

datatype arg_error =
    Unknown_argument int
  | Missing_argument int
  | Out_of_bounds int
  | Illegal_argument
  | Not_available
  | Null_string
  | Undefined_number

section \<open>The command line\<close>

text \<open>
  A call of \<open>getopt\<close>: its value, the argument of the option and the index of the long option. \<open>getopt\<close>
  also gives the arguments in their final order, and the index of the first that is not an option.
\<close>

type_synonym getopt_call = "int \<times> string option \<times> nat"
type_synonym getopt = "string list \<Rightarrow> getopt_call list \<times> string list \<times> nat"

record arg_parser =
  ap_opts :: "(string \<times> string option) list"
  ap_items :: "string list"
  ap_argv :: "string list"

definition char_string :: "int \<Rightarrow> string" where
  "char_string c = [char_of (nat c)]"

fun short_loop :: "getopt_call list \<Rightarrow> (string \<times> string option) list \<Rightarrow> arg_error + (string \<times> string option) list" where
  "short_loop [] opts = Inr opts"
| "short_loop ((c, optarg, _) # calls) opts =
     (if c = 63 then Inl (Unknown_argument c)
      else if c = 58 then Inl (Missing_argument c)
      else short_loop calls (map_put (char_string c) optarg opts))"

fun long_loop :: "string list \<Rightarrow> getopt_call list \<Rightarrow> (string \<times> string option) list \<Rightarrow> arg_error + (string \<times> string option) list" where
  "long_loop names [] opts = Inr opts"
| "long_loop names ((c, optarg, i) # calls) opts =
     (if c = 63 then Inl (Unknown_argument c)
      else if c = 0 then long_loop names calls (map_put (names ! i) optarg opts)
      else long_loop names calls (map_put (char_string c) optarg opts))"

definition ArgumentParser_new :: "getopt \<Rightarrow> string list \<Rightarrow> string list option \<Rightarrow> arg_error + arg_parser" where
  "ArgumentParser_new getopt argv long_options =
     (let (calls, argv', optind) = getopt argv
      in and_then (case long_options of None \<Rightarrow> short_loop calls [] | Some names \<Rightarrow> long_loop names calls [])
           (\<lambda>opts. Inr \<lparr>ap_opts = opts, ap_items = drop optind argv', ap_argv = argv'\<rparr>))"

definition has_arg :: "arg_parser \<Rightarrow> string \<Rightarrow> bool" where
  "has_arg a n \<longleftrightarrow> map_of (ap_opts a) n \<noteq> None"

definition get_arg :: "arg_parser \<Rightarrow> string \<Rightarrow> string option" where
  "get_arg a n = (case map_of (ap_opts a) n of Some (Some v) \<Rightarrow> Some v | _ \<Rightarrow> None)"

section \<open>Numbers\<close>

text \<open>
  \<open>strtol\<close> with base 10: the value, held within 64 bits, and the rest of the string; without a number
  the rest is the whole string.
\<close>

definition strtol :: "string \<Rightarrow> int \<times> string" where
  "strtol s =
     (let (neg, t) = skip_sign (dropWhile is_space s); ds = takeWhile (is_digit 10) t;
          v = (if neg then - digits_val 10 ds else digits_val 10 ds)
      in if ds = [] then (0, s) else (max (- (2 ^ 63)) (min (2 ^ 63 - 1) v), drop (length ds) t))"

text \<open>\<open>atoi\<close> is undefined for a number that is no \<open>int\<close>, and for a null pointer.\<close>

definition atoi :: "string option \<Rightarrow> arg_error + int" where
  "atoi s =
     (case s of None \<Rightarrow> Inl Null_string
      | Some s \<Rightarrow> if - (2 ^ 31) \<le> fst (strtol s) \<and> fst (strtol s) < 2 ^ 31 then Inr (fst (strtol s)) else Inl Undefined_number)"

definition string_to_int :: "string \<Rightarrow> arg_error + int" where
  "string_to_int s = (let (rv, end) = strtol s in if end \<noteq> [] then Inl Illegal_argument else Inr rv)"

definition parse_int :: "arg_parser \<Rightarrow> string \<Rightarrow> arg_error + int" where
  "parse_int a n = (case get_arg a n of None \<Rightarrow> Inl Not_available | Some s \<Rightarrow> string_to_int s)"

definition parse_item_int :: "arg_parser \<Rightarrow> nat \<Rightarrow> arg_error + int" where
  "parse_item_int a i = (if i < length (ap_items a) then string_to_int (ap_items a ! i) else Inl Not_available)"

text \<open>Floating-point numbers; \<open>strtod\<close> gives the value and the rest of the string.\<close>

definition string_to_float :: "(string \<Rightarrow> real \<times> string) \<Rightarrow> string \<Rightarrow> arg_error + real" where
  "string_to_float strtod s = (let (rv, end) = strtod s in if end \<noteq> [] then Inl Illegal_argument else Inr rv)"

definition parse_float :: "(string \<Rightarrow> real \<times> string) \<Rightarrow> arg_parser \<Rightarrow> string \<Rightarrow> arg_error + real" where
  "parse_float strtod a n = (case get_arg a n of None \<Rightarrow> Inl Not_available | Some s \<Rightarrow> string_to_float strtod s)"

definition parse_item_float :: "(string \<Rightarrow> real \<times> string) \<Rightarrow> arg_parser \<Rightarrow> nat \<Rightarrow> arg_error + real" where
  "parse_item_float strtod a i =
     (if i < length (ap_items a) then string_to_float strtod (ap_items a ! i) else Inl Not_available)"

section \<open>Hosts and ports\<close>

text \<open>
  \<open>strtok_r\<close>: delimiters at the front are skipped; the token goes up to the next delimiter, which is
  taken away. The second component is what the next call goes on with.
\<close>

definition strtok :: "string \<Rightarrow> string \<Rightarrow> string option \<times> string" where
  "strtok delims s =
     (let t = dropWhile (\<lambda>c. c \<in> set delims) s; token = takeWhile (\<lambda>c. c \<notin> set delims) t
      in if t = [] then (None, []) else (Some token, drop (length token + 1) t))"

definition check_port :: "int \<Rightarrow> arg_error + int" where
  "check_port port_num = (if port_num < 0 \<or> 65535 < port_num then Inl (Out_of_bounds port_num) else Inr port_num)"

text \<open>
  The result: \<open>None\<close> when there is no such argument; otherwise the host (which may be a null pointer in the
  version for C strings) and the port, \<open>None\<close> when it is left alone.
\<close>

type_synonym hostport = "(string option \<times> int option) option"

definition parse_hostport_c :: "arg_parser \<Rightarrow> string \<Rightarrow> arg_error + hostport" where
  "parse_hostport_c a n =
     (case get_arg a n of
        None \<Rightarrow> Inr None
      | Some tmpvalue \<Rightarrow>
          if CHR '':'' \<in> set tmpvalue
          then let (host, save) = strtok '':'' tmpvalue; (tmpport, _) = strtok [] save
               in and_then (and_then (atoi tmpport) check_port) (\<lambda>port. Inr (Some (host, Some port)))
          else Inr (Some (Some tmpvalue, None)))"

text \<open>The last index of a character in a string.\<close>

fun find_last_of :: "char \<Rightarrow> string \<Rightarrow> nat option" where
  "find_last_of c [] = None"
| "find_last_of c (x # xs) =
     (case find_last_of c xs of Some i \<Rightarrow> Some (Suc i) | None \<Rightarrow> if x = c then Some 0 else None)"

definition parse_hostport :: "arg_parser \<Rightarrow> string \<Rightarrow> arg_error + hostport" where
  "parse_hostport a n =
     (case get_arg a n of
        None \<Rightarrow> Inr None
      | Some tmpvalue \<Rightarrow>
          (case find_last_of (CHR '':'') tmpvalue of
             None \<Rightarrow> Inr (Some (Some tmpvalue, None))
           | Some i \<Rightarrow>
               and_then (and_then (atoi (Some (drop (i + 1) tmpvalue))) check_port)
                 (\<lambda>port. Inr (Some (Some (take i tmpvalue), Some port)))))"

section \<open>Options\<close>

text \<open>The value of an option is that of its last use.\<close>

lemma short_loop_opts:
  "short_loop calls opts = Inr opts' \<Longrightarrow>
    map_of opts' = map_of opts ++ map_of (rev (map (\<lambda>(c, v, _). (char_string c, v)) calls))"
proof (induction calls arbitrary: opts)
  case (Cons x calls)
  obtain c v i where x: "x = (c, v, i)" by (cases x)
  with Cons.prems have "short_loop calls (map_put (char_string c) v opts) = Inr opts'"
    by (simp split: if_splits)
  from Cons.IH [OF this] show ?case by (simp add: x map_of_put map_add_def fun_eq_iff split: option.split)
qed simp

lemma long_loop_opts:
  "long_loop names calls opts = Inr opts' \<Longrightarrow>
    map_of opts' = map_of opts ++ map_of (rev (map (\<lambda>(c, v, i). (if c = 0 then names ! i else char_string c, v)) calls))"
proof (induction calls arbitrary: opts)
  case (Cons x calls)
  obtain c v i where x: "x = (c, v, i)" by (cases x)
  with Cons.prems have "long_loop names calls (map_put (if c = 0 then names ! i else char_string c) v opts) = Inr opts'"
    by (simp split: if_splits)
  from Cons.IH [OF this] show ?case by (simp add: x map_of_put map_add_def fun_eq_iff split: option.split)
qed simp

lemma option_values:
  assumes "ArgumentParser_new getopt argv None = Inr a" and "getopt argv = (calls, argv', optind)"
  shows "map_of (ap_opts a) n = map_of (rev (map (\<lambda>(c, v, _). (char_string c, v)) calls)) n
    \<and> ap_items a = drop optind argv'"
  using assms short_loop_opts [of calls "[]"] by (auto simp: ArgumentParser_new_def and_then_Inr_iff)

section \<open>Numbers as text\<close>

lemma strtol_digits:
  assumes "list_all (is_digit 10) ds" and "ds \<noteq> []" and "case rest of [] \<Rightarrow> True | c # _ \<Rightarrow> \<not> is_digit 10 c"
  shows "strtol (ds @ rest) = (min (2 ^ 63 - 1) (digits_val 10 ds), rest)"
    and "strtol (CHR ''-'' # ds @ rest) = (max (- (2 ^ 63)) (- digits_val 10 ds), rest)"
proof -
  have "takeWhile (is_digit 10) (ds @ rest) = ds"
    using assms(1,3) by (induction ds) (auto split: list.splits)
  moreover obtain d ds' where d: "ds = d # ds'" "is_digit 10 d" using assms(1,2) by (cases ds) auto
  moreover have "code_of d \<in> {48..57}" using d(2) by (auto simp: is_digit_def digit_val_def Let_def split: if_splits)
  then have "\<not> is_space d" "d \<noteq> CHR ''-''" "d \<noteq> CHR ''+''" by (auto simp: is_space_def code_of_def)
  moreover have "0 \<le> digits_val 10 ds"
  proof (induction ds rule: rev_induct)
    case (snoc x xs)
    then show ?case by simp
  qed (simp add: digits_val_def)
  moreover have "\<not> is_space (CHR ''-'')" by (simp add: is_space_def code_of_def)
  ultimately show "strtol (ds @ rest) = (min (2 ^ 63 - 1) (digits_val 10 ds), rest)"
    and "strtol (CHR ''-'' # ds @ rest) = (max (- (2 ^ 63)) (- digits_val 10 ds), rest)"
    by (simp_all add: strtol_def skip_sign_def Let_def)
qed

lemma strtol_dec: "strtol (dec_str k) = (min (2 ^ 63 - 1) (int k), [])"
  using strtol_digits(1) [OF dec_str_digits dec_str_nonempty, of "[]" k] by (simp add: digits_val_dec)

lemma strtol_neg: "strtol (CHR ''-'' # dec_str k) = (max (- (2 ^ 63)) (- int k), [])"
  using strtol_digits(2) [OF dec_str_digits dec_str_nonempty, of "[]" k] by (simp add: digits_val_dec)

text \<open>
  A number that has been written is read back; one that does not fit in 64 bits is not refused, the
  nearest number that does takes its place. An empty argument is the number 0.
\<close>

lemma int_is_read: "string_to_int (int_str i) = Inr (max (- (2 ^ 63)) (min (2 ^ 63 - 1) i))"
  by (auto simp: string_to_int_def int_str_def strtol_dec strtol_neg)

lemma empty_is_zero: "string_to_int [] = Inr 0"
  by (simp add: string_to_int_def strtol_def skip_sign_def)

section \<open>The two versions of host and port\<close>

lemma find_last_of_None: "CHR '':'' \<notin> set s \<Longrightarrow> find_last_of (CHR '':'') s = None"
  by (induction s) auto

lemma find_last_of_colon: "CHR '':'' \<notin> set p \<Longrightarrow> find_last_of (CHR '':'') (h @ CHR '':'' # p) = Some (length h)"
  by (induction h) (auto simp: find_last_of_None)

lemma dec_str_no_colon: "CHR '':'' \<notin> set (dec_str k)"
proof -
  have "\<not> is_digit 10 (CHR '':'')" by (simp add: is_digit_def digit_val_def code_of_def)
  then show ?thesis using dec_str_digits [of k] by (auto simp: list_all_iff)
qed

lemma takeWhile_no_colon: "CHR '':'' \<notin> set h \<Longrightarrow> takeWhile (\<lambda>c. c \<noteq> CHR '':'') (h @ CHR '':'' # p) = h"
  by (induction h) auto

lemma takeWhile_colon_all: "CHR '':'' \<notin> set p \<Longrightarrow> takeWhile (\<lambda>c. c \<noteq> CHR '':'') p = p"
  by (induction p) auto

lemma strtok_host:
  assumes "CHR '':'' \<notin> set h" and "h \<noteq> []"
  shows "strtok '':'' (h @ CHR '':'' # p) = (Some h, p)"
proof -
  have "dropWhile (\<lambda>c. c = CHR '':'') (h @ CHR '':'' # p) = h @ CHR '':'' # p"
    using assms by (cases h) auto
  then show ?thesis using assms takeWhile_no_colon [OF assms(1), of p] by (simp add: strtok_def Let_def)
qed

lemma strtok_front:
  assumes "CHR '':'' \<notin> set p"
  shows "snd (strtok '':'' (CHR '':'' # p)) = []"
proof -
  have "dropWhile (\<lambda>c. c = CHR '':'') p = p" using assms by (cases p) auto
  then show ?thesis by (simp add: strtok_def Let_def takeWhile_colon_all [OF assms])
qed

lemma strtok_rest: "strtok [] s = (if s = [] then (None, []) else (Some s, []))"
proof -
  have all: "takeWhile (\<lambda>c. True) s = s" by (induction s) auto
  have "dropWhile (\<lambda>c. False) s = s" by (cases s) auto
  then show ?thesis by (simp add: strtok_def Let_def all)
qed

lemma atoi_port: "k < 2 ^ 31 \<Longrightarrow> atoi (Some (dec_str k)) = Inr (int k)"
  by (simp add: atoi_def strtol_dec)

text \<open>
  C27 The two versions of the parser for hosts and ports. What is behind the last colon is the port: a host, even
  one with colons, and a port that have been written are read back by the version for C++ strings, and a
  number above 65535 is refused. The version for C strings agrees with it if the argument has no colon, or
  one colon with something on both sides. If nothing stands before or behind the only colon it passes a null
  pointer to \<open>atoi\<close>, where the other version gives an empty host or the port 0. The comment on both
  versions promises an exception for a string that is not a host, a colon and a port. The version for C++
  strings does not keep this promise: nothing at all behind the colon, and every text that does not start
  like a number, is taken for the port 0 without an error.
\<close>

theorem hostport_versions:
  assumes "get_arg a n = Some v"
    and "v = h \<or> v = h @ CHR '':'' # p" and "CHR '':'' \<notin> set p"
  shows "(CHR '':'' \<notin> set v \<longrightarrow> parse_hostport a n = Inr (Some (Some v, None)) \<and> parse_hostport_c a n = parse_hostport a n)
    \<and> (v = h @ CHR '':'' # p \<longrightarrow>
        (\<forall>k. p = dec_str k \<and> k < 2 ^ 31 \<longrightarrow>
          parse_hostport a n = (if k \<le> 65535 then Inr (Some (Some h, Some (int k))) else Inl (Out_of_bounds (int k))))
        \<and> ((case p of [] \<Rightarrow> True | c # _ \<Rightarrow> \<not> is_digit 10 c \<and> \<not> is_space c \<and> c \<noteq> CHR ''-'' \<and> c \<noteq> CHR ''+'') \<longrightarrow>
            parse_hostport a n = Inr (Some (Some h, Some 0)))
        \<and> (CHR '':'' \<notin> set h \<longrightarrow>
            parse_hostport_c a n = (if h \<noteq> [] \<and> p \<noteq> [] then parse_hostport a n else Inl Null_string)))"
proof -
  have none: "parse_hostport a n = Inr (Some (Some v, None)) \<and> parse_hostport_c a n = parse_hostport a n" if "CHR '':'' \<notin> set v"
    using that assms(1) by (simp add: parse_hostport_def parse_hostport_c_def find_last_of_None)
  have one: "parse_hostport a n = and_then (and_then (atoi (Some p)) check_port) (\<lambda>port. Inr (Some (Some h, Some port)))"
    if "v = h @ CHR '':'' # p"
    using that assms(1) find_last_of_colon [OF assms(3), of h] by (simp add: parse_hostport_def)
  have c: "parse_hostport_c a n = (if h \<noteq> [] \<and> p \<noteq> [] then parse_hostport a n else Inl Null_string)"
    if "v = h @ CHR '':'' # p" "CHR '':'' \<notin> set h"
  proof (cases "h = []")
    case True
    then show ?thesis
      using that assms(1) strtok_front [OF assms(3)]
      by (simp add: parse_hostport_c_def case_prod_unfold strtok_rest atoi_def Let_def)
  next
    case False
    then show ?thesis
      using that assms(1) one strtok_host [OF that(2) False, of p]
      by (simp add: parse_hostport_c_def strtok_rest atoi_def)
  qed
  have zero: "atoi (Some p) = Inr 0"
    if "case p of [] \<Rightarrow> True | c # _ \<Rightarrow> \<not> is_digit 10 c \<and> \<not> is_space c \<and> c \<noteq> CHR ''-'' \<and> c \<noteq> CHR ''+''"
    using that by (cases p) (auto simp: atoi_def strtol_def skip_sign_def Let_def split: list.splits)
  show ?thesis using none one c by (auto simp: atoi_port check_port_def zero)
qed

definition demo_args :: arg_parser where
  "demo_args = \<lparr>ap_opts = [(''r'', Some ''localhost:80'')], ap_items = [], ap_argv = []\<rparr>"

theorem hostport_versions_witness:
  "parse_hostport demo_args ''r'' = Inr (Some (Some ''localhost'', Some 80))
   \<and> parse_hostport_c demo_args ''r'' = parse_hostport demo_args ''r''"
proof -
  have p: "dec_str 80 = ''80''" by code_simp
  have g: "get_arg demo_args ''r'' = Some ''localhost:80''" by (simp add: get_arg_def demo_args_def)
  have e: "''localhost:80'' = ''localhost'' @ CHR '':'' # ''80''" by simp
  have nc: "CHR '':'' \<notin> set ''80''" "CHR '':'' \<notin> set ''localhost''" by simp_all
  note split = hostport_versions [OF g disjI2 [OF e] nc(1), THEN conjunct2, THEN mp, OF e]
  have "parse_hostport demo_args ''r'' = Inr (Some (Some ''localhost'', Some (int 80)))"
    using spec [OF conjunct1 [OF split], of 80] p by simp
  moreover have "parse_hostport_c demo_args ''r'' = parse_hostport demo_args ''r''"
    using mp [OF conjunct2 [OF conjunct2 [OF split]] nc(2)] by simp
  ultimately show ?thesis by simp
qed

end
