(* ===== verification/Locks.thy ===== *)
theory Locks
  imports Main
begin

text \<open>
  \<open>libs/core/threading\<close>: the wrappers of the POSIX locks (\<open>mutex.cpp\<close>, \<open>read_write_lock.cpp\<close>,
  \<open>spinlock.cpp\<close>) with what POSIX says of them, and the objects that hold a lock for a scope
  (\<open>mutex_locker.cpp\<close>, \<open>scoped_rwlock.cpp\<close>). Threads are numbers. A call that has to wait is \<open>Blocked\<close> and
  can be tried again; a call that POSIX leaves undefined is \<open>Undefined\<close>.
\<close>

datatype 'a lock_result =
    Got 'a
  | Blocked
  | Undefined

section \<open>Mutexes\<close>

record mutex =
  mx_recursive :: bool
  mx_owner :: "nat option"
  mx_count :: nat

definition Mutex_new :: "bool \<Rightarrow> mutex" where
  "Mutex_new recursive = \<lparr>mx_recursive = recursive, mx_owner = None, mx_count = 0\<rparr>"

text \<open>A normal mutex that is locked again by its owner waits for ever.\<close>

definition Mutex_lock :: "nat \<Rightarrow> mutex \<Rightarrow> mutex lock_result" where
  "Mutex_lock t m =
     (case mx_owner m of
        None \<Rightarrow> Got (m\<lparr>mx_owner := Some t, mx_count := 1\<rparr>)
      | Some u \<Rightarrow> if u = t \<and> mx_recursive m then Got (m\<lparr>mx_count := mx_count m + 1\<rparr>) else Blocked)"

definition Mutex_try_lock :: "nat \<Rightarrow> mutex \<Rightarrow> bool \<times> mutex" where
  "Mutex_try_lock t m = (case Mutex_lock t m of Got m' \<Rightarrow> (True, m') | _ \<Rightarrow> (False, m))"

definition Mutex_unlock :: "nat \<Rightarrow> mutex \<Rightarrow> mutex lock_result" where
  "Mutex_unlock t m =
     (if mx_owner m \<noteq> Some t then Undefined
      else if mx_count m = 1 then Got (m\<lparr>mx_owner := None, mx_count := 0\<rparr>)
      else Got (m\<lparr>mx_count := mx_count m - 1\<rparr>))"

definition Mutex_stopby :: "nat \<Rightarrow> mutex \<Rightarrow> mutex lock_result" where
  "Mutex_stopby t m = (case Mutex_lock t m of Got m' \<Rightarrow> Mutex_unlock t m' | r \<Rightarrow> r)"

text \<open>The spinlock without POSIX spinlocks: a mutex that is tried until it is got. The fuel is the number of tries.\<close>

fun spin :: "nat \<Rightarrow> nat \<Rightarrow> mutex \<Rightarrow> mutex lock_result" where
  "spin 0 t m = Blocked"
| "spin (Suc n) t m = (case Mutex_try_lock t m of (True, m') \<Rightarrow> Got m' | (False, m') \<Rightarrow> spin n t m')"

lemma spin_gets: "0 < n \<Longrightarrow> spin n t m = Mutex_lock t m"
proof (induction n)
  case (Suc n)
  have "Mutex_lock t m \<noteq> Undefined" by (simp add: Mutex_lock_def split: option.split)
  then show ?case
    using Suc by (cases n; cases "Mutex_lock t m") (simp_all add: Mutex_try_lock_def)
qed simp

section \<open>Locks for readers and writers\<close>

record rw_lock =
  rw_writer :: "nat option"
  rw_readers :: "nat list"

definition free_lock :: rw_lock where
  "free_lock = \<lparr>rw_writer = None, rw_readers = []\<rparr>"

text \<open>
  The policies of the constructor only order the threads that wait. A thread that has the lock for
  writing and asks for it again may wait or get an error that the code does not look at.
\<close>

definition lock_for_read :: "nat \<Rightarrow> rw_lock \<Rightarrow> rw_lock lock_result" where
  "lock_for_read t l =
     (case rw_writer l of
        None \<Rightarrow> Got (l\<lparr>rw_readers := t # rw_readers l\<rparr>)
      | Some u \<Rightarrow> if u = t then Undefined else Blocked)"

definition lock_for_write :: "nat \<Rightarrow> rw_lock \<Rightarrow> rw_lock lock_result" where
  "lock_for_write t l =
     (if rw_writer l = Some t \<or> t \<in> set (rw_readers l) then Undefined
      else if rw_writer l = None \<and> rw_readers l = [] then Got (l\<lparr>rw_writer := Some t\<rparr>) else Blocked)"

definition try_lock_for_read :: "nat \<Rightarrow> rw_lock \<Rightarrow> bool \<times> rw_lock" where
  "try_lock_for_read t l = (if rw_writer l = None then (True, l\<lparr>rw_readers := t # rw_readers l\<rparr>) else (False, l))"

definition try_lock_for_write :: "nat \<Rightarrow> rw_lock \<Rightarrow> bool \<times> rw_lock" where
  "try_lock_for_write t l =
     (if rw_writer l = None \<and> rw_readers l = [] then (True, l\<lparr>rw_writer := Some t\<rparr>) else (False, l))"

definition rw_unlock :: "nat \<Rightarrow> rw_lock \<Rightarrow> rw_lock lock_result" where
  "rw_unlock t l =
     (if rw_writer l = Some t then Got (l\<lparr>rw_writer := None\<rparr>)
      else if t \<in> set (rw_readers l) then Got (l\<lparr>rw_readers := remove1 t (rw_readers l)\<rparr>)
      else Undefined)"

text \<open>A writer has the lock alone.\<close>

definition rw_ok :: "rw_lock \<Rightarrow> bool" where
  "rw_ok l \<longleftrightarrow> rw_writer l = None \<or> rw_readers l = []"

lemma rw_ok_steps:
  assumes "rw_ok l"
  shows "lock_for_read t l = Got l' \<Longrightarrow> rw_ok l'" and "lock_for_write t l = Got l' \<Longrightarrow> rw_ok l'"
    and "rw_unlock t l = Got l' \<Longrightarrow> rw_ok l'" and "rw_ok (snd (try_lock_for_read t l))" and "rw_ok (snd (try_lock_for_write t l))"
  using assms
  by (auto simp: rw_ok_def lock_for_read_def lock_for_write_def rw_unlock_def try_lock_for_read_def try_lock_for_write_def
      split: option.splits if_splits)

lemma free_ok [simp]: "rw_ok free_lock"
  by (simp add: rw_ok_def free_lock_def)

section \<open>Locks for a scope\<close>

text \<open>
  What the two classes share is an interface: a lock that one thread takes and gives back. \<open>mine\<close> says
  that the thread has it, exactly once.
\<close>

locale scope_lock =
  fixes acquire :: "nat \<Rightarrow> 'l \<Rightarrow> 'l lock_result" and release :: "nat \<Rightarrow> 'l \<Rightarrow> 'l lock_result"
    and mine :: "nat \<Rightarrow> 'l \<Rightarrow> bool" and ok :: "'l \<Rightarrow> bool"
  assumes take_got: "ok l \<Longrightarrow> \<not> mine t l \<Longrightarrow> acquire t l = Got l' \<Longrightarrow> ok l' \<and> mine t l' \<and> release t l' = Got l"
    and give_not_mine: "ok l \<Longrightarrow> \<not> mine t l \<Longrightarrow> release t l = Undefined"

locale exclusive_lock = scope_lock +
  assumes take_mine: "ok l \<Longrightarrow> mine t l \<Longrightarrow> acquire t l = Blocked \<or> acquire t l = Undefined"

text \<open>The operations of a locker; the destructor comes last.\<close>

datatype locker_op = Relock | Unlock_scope

record 'l locker =
  lk_lock :: 'l
  lk_locked :: bool

definition locker_new :: "(nat \<Rightarrow> 'l \<Rightarrow> 'l lock_result) \<Rightarrow> nat \<Rightarrow> bool \<Rightarrow> 'l \<Rightarrow> 'l locker lock_result" where
  "locker_new acquire t initially_lock l =
     (if initially_lock
      then case acquire t l of Got l' \<Rightarrow> Got \<lparr>lk_lock = l', lk_locked = True\<rparr> | Blocked \<Rightarrow> Blocked | Undefined \<Rightarrow> Undefined
      else Got \<lparr>lk_lock = l, lk_locked = False\<rparr>)"

definition locker_relock :: "(nat \<Rightarrow> 'l \<Rightarrow> 'l lock_result) \<Rightarrow> nat \<Rightarrow> 'l locker \<Rightarrow> 'l locker lock_result" where
  "locker_relock acquire t k =
     (case acquire t (lk_lock k) of Got l' \<Rightarrow> Got (k\<lparr>lk_lock := l', lk_locked := True\<rparr>) | Blocked \<Rightarrow> Blocked | Undefined \<Rightarrow> Undefined)"

definition locker_unlock :: "(nat \<Rightarrow> 'l \<Rightarrow> 'l lock_result) \<Rightarrow> nat \<Rightarrow> 'l locker \<Rightarrow> 'l locker lock_result" where
  "locker_unlock release t k =
     (let k = k\<lparr>lk_locked := False\<rparr>
      in case release t (lk_lock k) of Got l' \<Rightarrow> Got (k\<lparr>lk_lock := l'\<rparr>) | Blocked \<Rightarrow> Blocked | Undefined \<Rightarrow> Undefined)"

definition locker_destroy :: "(nat \<Rightarrow> 'l \<Rightarrow> 'l lock_result) \<Rightarrow> nat \<Rightarrow> 'l locker \<Rightarrow> 'l lock_result" where
  "locker_destroy release t k = (if lk_locked k then release t (lk_lock k) else Got (lk_lock k))"

fun locker_run :: "(nat \<Rightarrow> 'l \<Rightarrow> 'l lock_result) \<Rightarrow> (nat \<Rightarrow> 'l \<Rightarrow> 'l lock_result) \<Rightarrow> nat \<Rightarrow> locker_op list \<Rightarrow> 'l locker \<Rightarrow> 'l lock_result" where
  "locker_run acquire release t [] k = locker_destroy release t k"
| "locker_run acquire release t (op # ops) k =
     (case (case op of Relock \<Rightarrow> locker_relock acquire t k | Unlock_scope \<Rightarrow> locker_unlock release t k) of
        Got k' \<Rightarrow> locker_run acquire release t ops k' | Blocked \<Rightarrow> Blocked | Undefined \<Rightarrow> Undefined)"

text \<open>Unlocking and locking alternate; \<open>b\<close> says whether the lock is held at first.\<close>

fun alternating :: "bool \<Rightarrow> locker_op list \<Rightarrow> bool" where
  "alternating b [] \<longleftrightarrow> True"
| "alternating b (op # ops) \<longleftrightarrow> b = (op = Unlock_scope) \<and> alternating (\<not> b) ops"

context scope_lock
begin

text \<open>The lock is in its old state when a locker has gone, if nobody else has used it.\<close>

lemma run_gives_back:
  assumes "ok l" and "\<not> mine t l" and "acquire t l = Got l1" and "lk_lock k = (if lk_locked k then l1 else l)"
    and "alternating (lk_locked k) ops"
  shows "locker_run acquire release t ops k = Got l"
  using assms(4,5)
proof (induction ops arbitrary: k)
  case Nil
  then show ?case using take_got [OF assms(1-3)] by (simp add: locker_destroy_def)
next
  case (Cons op ops)
  show ?case
  proof (cases op)
    case Relock
    then show ?thesis
      using Cons.prems assms(3) Cons.IH [of "k\<lparr>lk_lock := l1, lk_locked := True\<rparr>"] by (auto simp: locker_relock_def)
  next
    case Unlock_scope
    then show ?thesis
      using Cons.prems take_got [OF assms(1-3)] Cons.IH [of "k\<lparr>lk_locked := False, lk_lock := l\<rparr>"]
      by (auto simp: locker_unlock_def Let_def)
  qed
qed

lemma new_gives_back:
  assumes "ok l" and "\<not> mine t l" and "acquire t l = Got l1" and "alternating b ops"
  shows "\<exists>k. locker_new acquire t b l = Got k \<and> locker_run acquire release t ops k = Got l"
  using run_gives_back [OF assms(1-3), of "\<lparr>lk_lock = l1, lk_locked = True\<rparr>" ops]
    run_gives_back [OF assms(1-3), of "\<lparr>lk_lock = l, lk_locked = False\<rparr>" ops] assms(3,4)
  by (cases b) (simp_all add: locker_new_def)

lemma unlock_twice:
  assumes "ok l" and "\<not> mine t l" and "lk_lock k = l"
  shows "locker_run acquire release t (Unlock_scope # ops) k = Undefined"
  using assms give_not_mine [OF assms(1,2)] by (simp add: locker_unlock_def Let_def)

end

context exclusive_lock
begin

lemma relock_twice:
  assumes "ok l" and "mine t l" and "lk_lock k = l"
  shows "locker_run acquire release t (Relock # ops) k \<in> {Blocked, Undefined}"
  using take_mine [OF assms(1,2)] assms(3) by (auto simp: locker_relock_def)

end

definition mutex_held :: "nat \<Rightarrow> mutex \<Rightarrow> bool" where
  "mutex_held t m \<longleftrightarrow> mx_owner m = Some t"

definition mutex_ok :: "mutex \<Rightarrow> bool" where
  "mutex_ok m \<longleftrightarrow> \<not> mx_recursive m \<and> mx_count m = (if mx_owner m = None then 0 else 1)"

interpretation mutex_locker: exclusive_lock Mutex_lock Mutex_unlock mutex_held mutex_ok
proof unfold_locales
  fix l t l' assume a: "mutex_ok l" "\<not> mutex_held t l" "Mutex_lock t l = Got l'"
  then show "mutex_ok l' \<and> mutex_held t l' \<and> Mutex_unlock t l' = Got l"
    by (cases l) (auto simp: Mutex_lock_def Mutex_unlock_def mutex_held_def mutex_ok_def split: option.splits if_splits)
qed (auto simp: Mutex_lock_def Mutex_unlock_def mutex_held_def mutex_ok_def)

datatype lock_type = LOCK_WRITE | LOCK_READ

definition lock_as :: "lock_type \<Rightarrow> nat \<Rightarrow> rw_lock \<Rightarrow> rw_lock lock_result" where
  "lock_as ty t l = (if ty = LOCK_WRITE then lock_for_write t l else lock_for_read t l)"

definition ScopedRWLock_new :: "lock_type \<Rightarrow> nat \<Rightarrow> bool \<Rightarrow> rw_lock \<Rightarrow> rw_lock locker lock_result" where
  "ScopedRWLock_new ty = locker_new (lock_as ty)"

definition ScopedRWLock_relock :: "lock_type \<Rightarrow> nat \<Rightarrow> rw_lock locker \<Rightarrow> rw_lock locker lock_result" where
  "ScopedRWLock_relock ty = locker_relock (lock_as ty)"

definition ScopedRWLock_unlock :: "nat \<Rightarrow> rw_lock locker \<Rightarrow> rw_lock locker lock_result" where
  "ScopedRWLock_unlock = locker_unlock rw_unlock"

definition ScopedRWLock_destroy :: "nat \<Rightarrow> rw_lock locker \<Rightarrow> rw_lock lock_result" where
  "ScopedRWLock_destroy = locker_destroy rw_unlock"

definition rw_held :: "nat \<Rightarrow> rw_lock \<Rightarrow> bool" where
  "rw_held t l \<longleftrightarrow> rw_writer l = Some t \<or> t \<in> set (rw_readers l)"

text \<open>A lock for reading is taken a second time, so that only that for writing is exclusive.\<close>

interpretation read_scope: scope_lock "lock_as LOCK_READ" rw_unlock rw_held rw_ok
proof unfold_locales
  fix l t l' assume "rw_ok l" "\<not> rw_held t l" "lock_as LOCK_READ t l = Got l'"
  then show "rw_ok l' \<and> rw_held t l' \<and> rw_unlock t l' = Got l"
    by (cases l) (auto simp: lock_as_def lock_for_read_def rw_unlock_def rw_held_def rw_ok_def split: option.splits if_splits)
qed (auto simp: rw_unlock_def rw_held_def)

interpretation write_scope: exclusive_lock "lock_as LOCK_WRITE" rw_unlock rw_held rw_ok
proof unfold_locales
  fix l t l' assume "rw_ok l" "\<not> rw_held t l" "lock_as LOCK_WRITE t l = Got l'"
  then show "rw_ok l' \<and> rw_held t l' \<and> rw_unlock t l' = Got l"
    by (cases l) (auto simp: lock_as_def lock_for_write_def rw_unlock_def rw_held_def rw_ok_def split: if_splits)
qed (auto simp: lock_as_def lock_for_write_def rw_unlock_def rw_held_def rw_ok_def)

text \<open>
  A locker that has got its lock once gives it back in the state in which it was, whatever it has unlocked
  and locked again in between, as long as these alternate; for mutexes and for both kinds of the other
  lock. A second \<open>unlock\<close> is undefined behaviour, a second \<open>relock\<close> does not return, except that a
  lock for reading is taken twice and given back once.
\<close>

lemma lockers_give_back:
  assumes "alternating b ops"
  shows "mutex_ok m \<Longrightarrow> mx_owner m = None \<Longrightarrow>
      \<exists>k. locker_new Mutex_lock t b m = Got k \<and> locker_run Mutex_lock Mutex_unlock t ops k = Got m"
    and "rw_ok l \<Longrightarrow> \<not> rw_held t l \<Longrightarrow> lock_as ty t l = Got l1 \<Longrightarrow>
      \<exists>k. ScopedRWLock_new ty t b l = Got k \<and> locker_run (lock_as ty) rw_unlock t ops k = Got l"
proof -
  show "mutex_ok m \<Longrightarrow> mx_owner m = None \<Longrightarrow>
      \<exists>k. locker_new Mutex_lock t b m = Got k \<and> locker_run Mutex_lock Mutex_unlock t ops k = Got m"
    using mutex_locker.new_gives_back [OF _ _ _ assms, of m t] by (simp add: mutex_held_def Mutex_lock_def)
  show "rw_ok l \<Longrightarrow> \<not> rw_held t l \<Longrightarrow> lock_as ty t l = Got l1 \<Longrightarrow>
      \<exists>k. ScopedRWLock_new ty t b l = Got k \<and> locker_run (lock_as ty) rw_unlock t ops k = Got l"
    using write_scope.new_gives_back [OF _ _ _ assms, of l t l1] read_scope.new_gives_back [OF _ _ _ assms, of l t l1]
    by (cases ty) (simp_all add: ScopedRWLock_new_def)
qed

lemma read_lock_leaks:
  "lock_as LOCK_READ t free_lock = Got l \<Longrightarrow>
    locker_run (lock_as LOCK_READ) rw_unlock t [Relock] \<lparr>lk_lock = l, lk_locked = True\<rparr> = Got l \<and> rw_held t l"
  by (auto simp: lock_as_def lock_for_read_def free_lock_def locker_relock_def locker_destroy_def rw_unlock_def rw_held_def)

end
