(* ===== verification/LockContainers.thy ===== *)
theory LockContainers
  imports Locks "HOL-Library.Product_Lexorder"
begin

text \<open>
  The containers with a lock of their own of \<open>libs/core/utils\<close>: \<open>lock_list.h\<close>, \<open>lock_vector.h\<close>,
  \<open>lock_queue.h\<close>, \<open>lock_set.h\<close>, \<open>lock_map.h\<close>, \<open>rwlock_list.h\<close>, \<open>rwlock_vector.h\<close> and \<open>rwlock_map.h\<close>. The body
  of an operation is a list of instructions, so that threads can be interleaved between any two of them.
  The operations have three forms (\<open>cop\<close>), for which the order of the operations is proved; the datatype
  \<open>lc_call\<close> has a constructor for every operation of the containers, and each is shown to have one of them.
\<close>

section \<open>Instructions\<close>

text \<open>
  Containers are numbered; the content is the list of the elements in the order of iteration. A function
  on the content gives \<open>None\<close> where the standard library leaves the call undefined. \<open>Copy_from\<close> is the loop
  over another container, from an index on, \<open>Copy_list\<close> that over a plain container; \<open>ins\<close> is the insertion
  of an element at the end or in its place.
\<close>

datatype 'a instr =
    Lock_write nat
  | Lock_read nat
  | Unlock nat
  | Apply nat "'a list \<Rightarrow> 'a list option"
  | Clear_all nat
  | Copy_from "'a \<Rightarrow> 'a list \<Rightarrow> 'a list" nat nat nat
  | Copy_list "'a \<Rightarrow> 'a list \<Rightarrow> 'a list" nat "'a list"

record 'a lc_state =
  lc_contents :: "nat \<Rightarrow> 'a list"
  lc_locks :: "nat \<Rightarrow> rw_lock"
  lc_code :: "nat \<Rightarrow> 'a instr list"

text \<open>A step of the thread \<open>t\<close>. A mutex is a lock that is only taken for writing, where a second lock waits.\<close>

definition on_lock :: "nat \<Rightarrow> nat \<Rightarrow> 'a instr list \<Rightarrow> 'a lc_state \<Rightarrow> rw_lock lock_result \<Rightarrow> 'a lc_state lock_result" where
  "on_lock t a is s r =
     (case r of
        Got l \<Rightarrow> Got (s\<lparr>lc_locks := (lc_locks s)(a := l), lc_code := (lc_code s)(t := is)\<rparr>)
      | Blocked \<Rightarrow> Blocked | Undefined \<Rightarrow> Undefined)"

definition lc_step :: "nat \<Rightarrow> 'a lc_state \<Rightarrow> 'a lc_state lock_result" where
  "lc_step t s =
     (case lc_code s t of
        [] \<Rightarrow> Blocked
      | Lock_write a # is \<Rightarrow>
          if rw_writer (lc_locks s a) = Some t then Blocked else on_lock t a is s (lock_for_write t (lc_locks s a))
      | Lock_read a # is \<Rightarrow> on_lock t a is s (lock_for_read t (lc_locks s a))
      | Unlock a # is \<Rightarrow> on_lock t a is s (rw_unlock t (lc_locks s a))
      | Apply a f # is \<Rightarrow>
          (case f (lc_contents s a) of
             None \<Rightarrow> Undefined
           | Some xs \<Rightarrow> Got (s\<lparr>lc_contents := (lc_contents s)(a := xs), lc_code := (lc_code s)(t := is)\<rparr>))
      | Clear_all a # is \<Rightarrow> Got (s\<lparr>lc_contents := (lc_contents s)(a := []), lc_code := (lc_code s)(t := is)\<rparr>)
      | Copy_from ins a b i # is \<Rightarrow>
          if i < length (lc_contents s b)
          then Got (s\<lparr>lc_contents := (lc_contents s)(a := ins (lc_contents s b ! i) (lc_contents s a)),
                      lc_code := (lc_code s)(t := Copy_from ins a b (i + 1) # is)\<rparr>)
          else Got (s\<lparr>lc_code := (lc_code s)(t := is)\<rparr>)
      | Copy_list ins a xs # is \<Rightarrow>
          (case xs of
             x # xs' \<Rightarrow> Got (s\<lparr>lc_contents := (lc_contents s)(a := ins x (lc_contents s a)),
                            lc_code := (lc_code s)(t := Copy_list ins a xs' # is)\<rparr>)
           | [] \<Rightarrow> Got (s\<lparr>lc_code := (lc_code s)(t := is)\<rparr>)))"

text \<open>A schedule says which thread is next; a thread that has to wait leaves its turn. \<open>None\<close> is undefined behaviour.\<close>

fun lc_run :: "nat list \<Rightarrow> 'a lc_state \<Rightarrow> 'a lc_state option" where
  "lc_run [] s = Some s"
| "lc_run (t # ts) s =
     (case lc_step t s of Got s' \<Rightarrow> lc_run ts s' | Blocked \<Rightarrow> lc_run ts s | Undefined \<Rightarrow> None)"

section \<open>The operations of the containers\<close>

definition push_back :: "'a \<Rightarrow> 'a list \<Rightarrow> 'a list" where
  "push_back x xs = xs @ [x]"

definition insert_sorted :: "('a \<Rightarrow> 'b::linorder) \<Rightarrow> 'a \<Rightarrow> 'a list \<Rightarrow> 'a list" where
  "insert_sorted key x xs = (if key x \<in> key ` set xs then xs else insort_key key x xs)"

definition pop_back :: "'a list \<Rightarrow> 'a list option" where
  "pop_back xs = (if xs = [] then None else Some (butlast xs))"

definition erase_at :: "nat \<Rightarrow> 'a list \<Rightarrow> 'a list option" where
  "erase_at i xs = (if i < length xs then Some (take i xs @ drop (i + 1) xs) else None)"

definition erase_range :: "nat \<Rightarrow> nat \<Rightarrow> 'a list \<Rightarrow> 'a list option" where
  "erase_range i j xs = (if i \<le> j \<and> j \<le> length xs then Some (take i xs @ drop j xs) else None)"

definition LockList_push_back_locked :: "nat \<Rightarrow> 'a \<Rightarrow> 'a instr list" where
  "LockList_push_back_locked a x = [Lock_write a, Apply a (\<lambda>xs. Some (push_back x xs)), Unlock a]"

definition LockList_push_front_locked :: "nat \<Rightarrow> 'a \<Rightarrow> 'a instr list" where
  "LockList_push_front_locked a x = [Lock_write a, Apply a (\<lambda>xs. Some (x # xs)), Unlock a]"

definition LockList_remove_locked :: "nat \<Rightarrow> 'a \<Rightarrow> 'a instr list" where
  "LockList_remove_locked a x = [Lock_write a, Apply a (\<lambda>xs. Some (removeAll x xs)), Unlock a]"

definition LockList_assign :: "nat \<Rightarrow> nat \<Rightarrow> 'a instr list" where
  "LockList_assign a b =
     [Lock_write a, Lock_write b, Clear_all a, Copy_from push_back a b 0, Unlock b, Unlock a]"

definition LockList_assign_list :: "nat \<Rightarrow> 'a list \<Rightarrow> 'a instr list" where
  "LockList_assign_list a l = [Lock_write a, Clear_all a, Copy_list push_back a l, Unlock a]"

definition LockVector_push_back_locked :: "nat \<Rightarrow> 'a \<Rightarrow> 'a instr list" where
  "LockVector_push_back_locked a x = [Lock_write a, Apply a (\<lambda>xs. Some (push_back x xs)), Unlock a]"

definition LockVector_pop_back_locked :: "nat \<Rightarrow> 'a instr list" where
  "LockVector_pop_back_locked a = [Lock_write a, Apply a pop_back, Unlock a]"

definition LockVector_erase_locked :: "nat \<Rightarrow> nat \<Rightarrow> 'a instr list" where
  "LockVector_erase_locked a pos = [Lock_write a, Apply a (erase_at pos), Unlock a]"

definition LockVector_erase_range_locked :: "nat \<Rightarrow> nat \<Rightarrow> nat \<Rightarrow> 'a instr list" where
  "LockVector_erase_range_locked a i j = [Lock_write a, Apply a (erase_range i j), Unlock a]"

definition LockVector_assign :: "nat \<Rightarrow> nat \<Rightarrow> 'a instr list" where
  "LockVector_assign a b =
     [Lock_write a, Lock_write b, Clear_all a, Copy_from push_back a b 0, Unlock b, Unlock a]"

definition LockVector_assign_vector :: "nat \<Rightarrow> 'a list \<Rightarrow> 'a instr list" where
  "LockVector_assign_vector a l = [Lock_write a, Clear_all a, Copy_list push_back a l, Unlock a]"

definition LockQueue_push_locked :: "nat \<Rightarrow> 'a \<Rightarrow> 'a instr list" where
  "LockQueue_push_locked a x = [Lock_write a, Apply a (\<lambda>xs. Some (push_back x xs)), Unlock a]"

definition LockQueue_pop_locked :: "nat \<Rightarrow> 'a instr list" where
  "LockQueue_pop_locked a = [Lock_write a, Apply a (\<lambda>xs. if xs = [] then None else Some (tl xs)), Unlock a]"

text \<open>The loop that pops until the queue is empty is one instruction.\<close>

definition LockQueue_clear :: "nat \<Rightarrow> 'a instr list" where
  "LockQueue_clear a = [Lock_write a, Apply a (\<lambda>xs. Some []), Unlock a]"

definition LockSet_insert_locked :: "nat \<Rightarrow> 'a::linorder \<Rightarrow> 'a instr list" where
  "LockSet_insert_locked a x = [Lock_write a, Apply a (\<lambda>xs. Some (insert_sorted id x xs)), Unlock a]"

definition LockSet_erase_locked :: "nat \<Rightarrow> 'a \<Rightarrow> 'a instr list" where
  "LockSet_erase_locked a x = [Lock_write a, Apply a (\<lambda>xs. Some (removeAll x xs)), Unlock a]"

definition LockSet_assign :: "nat \<Rightarrow> nat \<Rightarrow> 'a::linorder instr list" where
  "LockSet_assign a b =
     [Lock_write a, Lock_write b, Clear_all a, Copy_from (insert_sorted id) a b 0, Unlock b, Unlock a]"

definition LockSet_assign_set :: "nat \<Rightarrow> 'a::linorder list \<Rightarrow> 'a instr list" where
  "LockSet_assign_set a l = [Lock_write a, Clear_all a, Copy_list (insert_sorted id) a l, Unlock a]"

definition LockMap_erase_locked :: "nat \<Rightarrow> 'k \<Rightarrow> ('k \<times> 'v) instr list" where
  "LockMap_erase_locked a k = [Lock_write a, Apply a (\<lambda>xs. Some (filter (\<lambda>e. fst e \<noteq> k) xs)), Unlock a]"

definition LockMap_assign :: "nat \<Rightarrow> nat \<Rightarrow> ('k::linorder \<times> 'v) instr list" where
  "LockMap_assign a b =
     [Lock_write a, Lock_write b, Clear_all a, Copy_from (insert_sorted fst) a b 0, Unlock b, Unlock a]"

definition LockMap_assign_map :: "nat \<Rightarrow> ('k::linorder \<times> 'v) list \<Rightarrow> ('k \<times> 'v) instr list" where
  "LockMap_assign_map a l = [Lock_write a, Clear_all a, Copy_list (insert_sorted fst) a l, Unlock a]"

definition RWLockList_push_back_locked :: "nat \<Rightarrow> 'a \<Rightarrow> 'a instr list" where
  "RWLockList_push_back_locked a x = [Lock_write a, Apply a (\<lambda>xs. Some (push_back x xs)), Unlock a]"

definition RWLockList_push_front_locked :: "nat \<Rightarrow> 'a \<Rightarrow> 'a instr list" where
  "RWLockList_push_front_locked a x = [Lock_write a, Apply a (\<lambda>xs. Some (x # xs)), Unlock a]"

definition RWLockList_remove_locked :: "nat \<Rightarrow> 'a \<Rightarrow> 'a instr list" where
  "RWLockList_remove_locked a x = [Lock_write a, Apply a (\<lambda>xs. Some (removeAll x xs)), Unlock a]"

definition RWLockList_assign_list :: "nat \<Rightarrow> 'a list \<Rightarrow> 'a instr list" where
  "RWLockList_assign_list a l = [Lock_write a, Clear_all a, Copy_list push_back a l, Unlock a]"

definition RWLockVector_push_back_locked :: "nat \<Rightarrow> 'a \<Rightarrow> 'a instr list" where
  "RWLockVector_push_back_locked a x = [Lock_write a, Apply a (\<lambda>xs. Some (push_back x xs)), Unlock a]"

definition RWLockVector_pop_back_locked :: "nat \<Rightarrow> 'a instr list" where
  "RWLockVector_pop_back_locked a = [Lock_write a, Apply a pop_back, Unlock a]"

definition RWLockVector_erase_locked :: "nat \<Rightarrow> nat \<Rightarrow> 'a instr list" where
  "RWLockVector_erase_locked a pos = [Lock_write a, Apply a (erase_at pos), Unlock a]"

definition RWLockVector_erase_range_locked :: "nat \<Rightarrow> nat \<Rightarrow> nat \<Rightarrow> 'a instr list" where
  "RWLockVector_erase_range_locked a i j = [Lock_write a, Apply a (erase_range i j), Unlock a]"

definition RWLockVector_assign :: "nat \<Rightarrow> nat \<Rightarrow> 'a instr list" where
  "RWLockVector_assign a b =
     [Lock_write a, Lock_read b, Clear_all a, Copy_from push_back a b 0, Unlock b, Unlock a]"

definition RWLockVector_assign_vector :: "nat \<Rightarrow> 'a list \<Rightarrow> 'a instr list" where
  "RWLockVector_assign_vector a l = [Lock_write a, Clear_all a, Copy_list push_back a l, Unlock a]"

definition RWLockMap_erase_locked :: "nat \<Rightarrow> 'k \<Rightarrow> ('k \<times> 'v) instr list" where
  "RWLockMap_erase_locked a k = [Lock_write a, Apply a (\<lambda>xs. Some (filter (\<lambda>e. fst e \<noteq> k) xs)), Unlock a]"

section \<open>The forms of the operations\<close>

text \<open>
  For the proofs: the operations have three forms, of which it is shown how their instructions can be
  interleaved. \<open>rw\<close> says how the other container is locked. The section on the calls then goes back to the
  operations themselves.
\<close>

datatype 'a cop =
    Single nat "'a list \<Rightarrow> 'a list option"
  | Assign_from bool "'a \<Rightarrow> 'a list \<Rightarrow> 'a list" nat nat
  | Assign_list "'a \<Rightarrow> 'a list \<Rightarrow> 'a list" nat "'a list"

fun code_of_op :: "'a cop \<Rightarrow> 'a instr list" where
  "code_of_op (Single a f) = [Lock_write a, Apply a f, Unlock a]"
| "code_of_op (Assign_from rw ins a b) =
     [Lock_write a, (if rw then Lock_read b else Lock_write b), Clear_all a, Copy_from ins a b 0, Unlock b, Unlock a]"
| "code_of_op (Assign_list ins a xs) = [Lock_write a, Clear_all a, Copy_list ins a xs, Unlock a]"

fun spec_op :: "'a cop \<Rightarrow> (nat \<Rightarrow> 'a list) \<Rightarrow> (nat \<Rightarrow> 'a list) option" where
  "spec_op (Single a f) c = map_option (\<lambda>xs. c(a := xs)) (f (c a))"
| "spec_op (Assign_from rw ins a b) c = Some (c(a := fold ins (c b) []))"
| "spec_op (Assign_list ins a xs) c = Some (c(a := fold ins xs []))"

fun spec_ops :: "'a cop list \<Rightarrow> (nat \<Rightarrow> 'a list) \<Rightarrow> (nat \<Rightarrow> 'a list) option" where
  "spec_ops [] c = Some c"
| "spec_ops (op # ops) c = Option.bind (spec_op op c) (spec_ops ops)"

lemma spec_ops_snoc: "spec_ops (ops @ [op]) c = Option.bind (spec_ops ops c) (spec_op op)"
  by (induction ops arbitrary: c) (auto split: bind_split)

text \<open>Copying into an empty list, and into an empty set or map from one that is in order, gives an equal container.\<close>

lemma fold_push_back: "fold push_back xs ys = ys @ xs"
  by (induction xs arbitrary: ys) (simp_all add: push_back_def)

lemmas lock_container_ops =
  LockList_push_back_locked_def LockList_push_front_locked_def LockList_remove_locked_def LockList_assign_def LockList_assign_list_def
  LockVector_push_back_locked_def LockVector_pop_back_locked_def LockVector_erase_locked_def LockVector_erase_range_locked_def
  LockVector_assign_def LockVector_assign_vector_def LockQueue_push_locked_def LockQueue_pop_locked_def LockQueue_clear_def
  LockSet_insert_locked_def LockSet_erase_locked_def LockSet_assign_def LockSet_assign_set_def
  LockMap_erase_locked_def LockMap_assign_def LockMap_assign_map_def
  RWLockList_push_back_locked_def RWLockList_push_front_locked_def RWLockList_remove_locked_def RWLockList_assign_list_def
  RWLockVector_push_back_locked_def RWLockVector_pop_back_locked_def RWLockVector_erase_locked_def RWLockVector_erase_range_locked_def
  RWLockVector_assign_def RWLockVector_assign_vector_def RWLockMap_erase_locked_def

section \<open>Where a thread is\<close>

text \<open>
  The place of a thread in its current operation, with the code that is left of it and the locks it has. An
  operation has happened when the content begins to change.
\<close>

datatype 'a place =
    Between
  | To_apply nat "'a list \<Rightarrow> 'a list option"
  | To_lock_other bool "'a \<Rightarrow> 'a list \<Rightarrow> 'a list" nat nat
  | To_clear bool "'a \<Rightarrow> 'a list \<Rightarrow> 'a list" nat nat
  | Copying bool "'a \<Rightarrow> 'a list \<Rightarrow> 'a list" nat nat nat
  | To_unlock_other bool nat nat
  | To_clear_list "'a \<Rightarrow> 'a list \<Rightarrow> 'a list" nat "'a list"
  | Copying_list "'a \<Rightarrow> 'a list \<Rightarrow> 'a list" nat "'a list"
  | To_unlock nat

fun place_code :: "'a place \<Rightarrow> 'a instr list" where
  "place_code Between = []"
| "place_code (To_apply a f) = [Apply a f, Unlock a]"
| "place_code (To_lock_other rw ins a b) =
     [(if rw then Lock_read b else Lock_write b), Clear_all a, Copy_from ins a b 0, Unlock b, Unlock a]"
| "place_code (To_clear rw ins a b) = [Clear_all a, Copy_from ins a b 0, Unlock b, Unlock a]"
| "place_code (Copying rw ins a b i) = [Copy_from ins a b i, Unlock b, Unlock a]"
| "place_code (To_unlock_other rw a b) = [Unlock b, Unlock a]"
| "place_code (To_clear_list ins a xs) = [Clear_all a, Copy_list ins a xs, Unlock a]"
| "place_code (Copying_list ins a xs) = [Copy_list ins a xs, Unlock a]"
| "place_code (To_unlock a) = [Unlock a]"

fun place_writes :: "'a place \<Rightarrow> nat set" where
  "place_writes Between = {}"
| "place_writes (To_apply a f) = {a}"
| "place_writes (To_lock_other rw ins a b) = {a}"
| "place_writes (To_clear rw ins a b) = (if rw then {a} else {a, b})"
| "place_writes (Copying rw ins a b i) = (if rw then {a} else {a, b})"
| "place_writes (To_unlock_other rw a b) = (if rw then {a} else {a, b})"
| "place_writes (To_clear_list ins a xs) = {a}"
| "place_writes (Copying_list ins a xs) = {a}"
| "place_writes (To_unlock a) = {a}"

fun place_reads :: "'a place \<Rightarrow> nat set" where
  "place_reads (To_clear rw ins a b) = (if rw then {b} else {})"
| "place_reads (Copying rw ins a b i) = (if rw then {b} else {})"
| "place_reads (To_unlock_other rw a b) = (if rw then {b} else {})"
| "place_reads _ = {}"

fun place_ok :: "'a place \<Rightarrow> bool" where
  "place_ok (To_clear rw ins a b) \<longleftrightarrow> a \<noteq> b"
| "place_ok (Copying rw ins a b i) \<longleftrightarrow> a \<noteq> b"
| "place_ok (To_unlock_other rw a b) \<longleftrightarrow> a \<noteq> b"
| "place_ok _ \<longleftrightarrow> True"

text \<open>The operation that has begun and not happened yet.\<close>

fun pending_op :: "'a place \<Rightarrow> 'a cop list" where
  "pending_op (To_apply a f) = [Single a f]"
| "pending_op (To_lock_other rw ins a b) = [Assign_from rw ins a b]"
| "pending_op (To_clear rw ins a b) = [Assign_from rw ins a b]"
| "pending_op (To_clear_list ins a xs) = [Assign_list ins a xs]"
| "pending_op _ = []"

text \<open>The content of the container \<open>a\<close> when the copying of its writer is over.\<close>

fun finished :: "(nat \<Rightarrow> 'a list) \<Rightarrow> 'a place \<Rightarrow> nat \<Rightarrow> 'a list" where
  "finished c (Copying rw ins a b i) x = (if x = a then fold ins (drop i (c b)) (c a) else c x)"
| "finished c (Copying_list ins a xs) x = (if x = a then fold ins xs (c a) else c x)"
| "finished c _ x = c x"

definition content_of :: "'a lc_state \<Rightarrow> (nat \<Rightarrow> 'a place) \<Rightarrow> nat \<Rightarrow> 'a list" where
  "content_of s p x =
     (case rw_writer (lc_locks s x) of None \<Rightarrow> lc_contents s x | Some t \<Rightarrow> finished (lc_contents s) (p t) x)"

definition lc_inv :: "'a lc_state \<Rightarrow> (nat \<Rightarrow> 'a place) \<Rightarrow> (nat \<Rightarrow> 'a cop list) \<Rightarrow> bool" where
  "lc_inv s p rest \<longleftrightarrow>
     (\<forall>t. lc_code s t = place_code (p t) @ concat (map code_of_op (rest t)) \<and> place_ok (p t))
     \<and> (\<forall>t a. rw_writer (lc_locks s a) = Some t \<longleftrightarrow> a \<in> place_writes (p t))
     \<and> (\<forall>t a. count_list (rw_readers (lc_locks s a)) t = (if a \<in> place_reads (p t) then 1 else 0))
     \<and> (\<forall>a. rw_ok (lc_locks s a))"

text \<open>One step of a thread leaves the places of the others alone and does at most one operation.\<close>

definition step_sim :: "nat \<Rightarrow> 'a lc_state \<Rightarrow> (nat \<Rightarrow> 'a place) \<Rightarrow> (nat \<Rightarrow> 'a cop list) \<Rightarrow> 'a lc_state \<Rightarrow> bool" where
  "step_sim t s p rest s' \<longleftrightarrow>
     (\<exists>q rs. lc_inv s' (p(t := q)) (rest(t := rs))
       \<and> (pending_op (p t) @ rest t = pending_op q @ rs \<and> content_of s' (p(t := q)) = content_of s p
          \<or> (\<exists>op. pending_op (p t) @ rest t = op # pending_op q @ rs
                \<and> spec_op op (content_of s p) = Some (content_of s' (p(t := q))))))"

subsection \<open>Frames\<close>

lemma writes_exclusive:
  "lc_inv s p rest \<Longrightarrow> a \<in> place_writes (p t) \<Longrightarrow> a \<in> place_writes (p u) \<Longrightarrow> t = u"
  unfolding lc_inv_def by (metis option.inject)

lemma writes_no_reads:
  assumes "lc_inv s p rest" and "a \<in> place_writes (p t)"
  shows "a \<notin> place_reads (p u)"
proof
  assume "a \<in> place_reads (p u)"
  then have "count_list (rw_readers (lc_locks s a)) u = 1" using assms(1) unfolding lc_inv_def by metis
  then have "rw_readers (lc_locks s a) \<noteq> []" by auto
  moreover have "rw_writer (lc_locks s a) = Some t" "rw_ok (lc_locks s a)" using assms unfolding lc_inv_def by blast+
  ultimately show False by (simp add: rw_ok_def)
qed

text \<open>What another thread is copying does not depend on a container that this thread writes.\<close>

lemma finished_other:
  assumes "lc_inv s p rest" and "a \<in> place_writes (p t)" and "u \<noteq> t" and "x \<in> place_writes (p u)"
  shows "finished ((lc_contents s)(a := xs)) (p u) x = finished (lc_contents s) (p u) x"
proof -
  have "b \<noteq> a" if "b \<in> place_writes (p u) \<union> place_reads (p u)" for b
    using that writes_exclusive [OF assms(1,2), of u] writes_no_reads [OF assms(1,2), of u] assms(3) by auto
  then show ?thesis using assms(4) by (cases "p u") (auto split: if_splits)
qed

lemma content_of_writer:
  "lc_inv s p rest \<Longrightarrow> a \<in> place_writes (p t) \<Longrightarrow> content_of s p a = finished (lc_contents s) (p t) a"
  unfolding lc_inv_def content_of_def by (metis option.simps(5))

lemma content_of_read:
  assumes "lc_inv s p rest" and "b \<in> place_reads (p t)"
  shows "content_of s p b = lc_contents s b"
proof -
  have "count_list (rw_readers (lc_locks s b)) t = 1" using assms unfolding lc_inv_def by metis
  then have "rw_writer (lc_locks s b) = None"
    using assms(1) unfolding lc_inv_def rw_ok_def by (metis count_list.simps(1) zero_neq_one)
  then show ?thesis by (simp add: content_of_def)
qed

text \<open>A step within the code that takes and gives no lock.\<close>

lemma inv_local_step:
  assumes inv: "lc_inv s p rest" and code: "lc_code s' = (lc_code s)(t := place_code q @ concat (map code_of_op (rest t)))"
    and locks: "lc_locks s' = lc_locks s" and q: "place_ok q" "place_writes q = place_writes (p t)" "place_reads q = place_reads (p t)"
  shows "lc_inv s' (p(t := q)) (rest(t := rest t))"
  using assms unfolding lc_inv_def by auto

lemma content_local_step:
  assumes inv: "lc_inv s p rest" and locks: "lc_locks s' = lc_locks s" and w: "place_writes q = place_writes (p t)" "a \<in> place_writes q"
    and c: "lc_contents s' = (lc_contents s)(a := xs)"
  shows "content_of s' (p(t := q)) x =
    (if x \<in> place_writes q then finished (lc_contents s') q x else content_of s p x)"
proof (cases "rw_writer (lc_locks s x)")
  case None
  then have "x \<notin> place_writes (p t)" using inv unfolding lc_inv_def by (metis option.distinct(1))
  then show ?thesis using None w c locks by (auto simp: content_of_def)
next
  case (Some u)
  then have x: "x \<in> place_writes (p u)" using inv unfolding lc_inv_def by blast
  show ?thesis
  proof (cases "u = t")
    case True
    then show ?thesis using Some x w locks by (simp add: content_of_def)
  next
    case False
    then have "x \<notin> place_writes (p t)" using writes_exclusive [OF inv x] by blast
    moreover have "finished (lc_contents s') (p u) x = finished (lc_contents s) (p u) x"
      using finished_other [OF inv _ False x, of a xs] w c by simp
    ultimately show ?thesis using Some False w locks by (simp add: content_of_def)
  qed
qed

subsection \<open>Steps that take and give locks\<close>

definition quiet :: "'a place \<Rightarrow> bool" where
  "quiet q \<longleftrightarrow> (\<forall>c x. finished c q x = c x)"

lemma quiet_simps [simp]:
  "quiet Between" "quiet (To_apply a f)" "quiet (To_lock_other rw ins a b)" "quiet (To_clear rw ins a b)"
  "quiet (To_unlock_other rw a b)" "quiet (To_clear_list ins a xs)" "quiet (To_unlock a)"
  by (simp_all add: quiet_def)

lemma content_of_locks:
  assumes inv: "lc_inv s p rest" and c: "lc_contents s' = lc_contents s" and q: "quiet q" "quiet (p t)"
    and l: "lc_locks s' = (lc_locks s)(a := l)" and w: "rw_writer l = rw_writer (lc_locks s a) \<or> rw_writer l = None \<and> rw_writer (lc_locks s a) = Some t
      \<or> rw_writer l = Some t \<and> rw_writer (lc_locks s a) = None"
  shows "content_of s' (p(t := q)) = content_of s p"
proof
  fix x
  have quiet: "finished c q y = c y" "finished c (p t) y = c y" for c y using q by (simp_all add: quiet_def)
  show "content_of s' (p(t := q)) x = content_of s p x"
    using w c l quiet by (cases "x = a") (auto simp: content_of_def split: option.split)
qed

lemma inv_lock_step:
  assumes inv: "lc_inv s p rest"
    and s': "s' = s\<lparr>lc_locks := (lc_locks s)(a := l), lc_code := (lc_code s)(t := place_code q @ concat (map code_of_op rs))\<rparr>"
    and w: "\<And>u. rw_writer l = Some u \<longleftrightarrow> a \<in> place_writes ((p(t := q)) u)"
    and w': "\<And>b. b \<noteq> a \<Longrightarrow> b \<in> place_writes q \<longleftrightarrow> b \<in> place_writes (p t)"
    and r: "\<And>u. count_list (rw_readers l) u = (if a \<in> place_reads ((p(t := q)) u) then 1 else 0)"
    and r': "\<And>b. b \<noteq> a \<Longrightarrow> b \<in> place_reads q \<longleftrightarrow> b \<in> place_reads (p t)"
    and ok: "rw_ok l" "place_ok q"
  shows "lc_inv s' (p(t := q)) (rest(t := rs))"
proof -
  have "lc_code s' u = place_code ((p(t := q)) u) @ concat (map code_of_op ((rest(t := rs)) u)) \<and> place_ok ((p(t := q)) u)" for u
    using inv s' ok unfolding lc_inv_def by (cases "u = t") simp_all
  moreover have "rw_writer (lc_locks s' b) = Some u \<longleftrightarrow> b \<in> place_writes ((p(t := q)) u)" for u b
    using inv s' w w' [of b] unfolding lc_inv_def by (cases "b = a"; cases "u = t") simp_all
  moreover have "count_list (rw_readers (lc_locks s' b)) u = (if b \<in> place_reads ((p(t := q)) u) then 1 else 0)" for u b
  proof (cases "b = a")
    case False
    moreover have "count_list (rw_readers (lc_locks s b)) u = (if b \<in> place_reads (p u) then 1 else 0)"
      using inv unfolding lc_inv_def by blast
    ultimately show ?thesis using s' r' [of b] by (cases "u = t") simp_all
  qed (simp add: s' r)
  moreover have "rw_ok (lc_locks s' b)" for b
    using inv s' ok unfolding lc_inv_def by (cases "b = a") simp_all
  ultimately show ?thesis unfolding lc_inv_def by blast
qed

lemma inv_writer: "lc_inv s p rest \<Longrightarrow> rw_writer (lc_locks s a) = Some u \<longleftrightarrow> a \<in> place_writes (p u)"
  unfolding lc_inv_def by blast

lemma inv_readers: "lc_inv s p rest \<Longrightarrow> count_list (rw_readers (lc_locks s a)) u = (if a \<in> place_reads (p u) then 1 else 0)"
  unfolding lc_inv_def by blast

lemma inv_no_readers: "lc_inv s p rest \<Longrightarrow> rw_readers (lc_locks s a) = [] \<Longrightarrow> a \<notin> place_reads (p u)"
  using inv_readers [of s p rest a u] by (auto split: if_splits)

lemma lock_write_sim:
  assumes inv: "lc_inv s p rest" and lock: "lock_for_write t (lc_locks s a) = Got l"
    and s': "s' = s\<lparr>lc_locks := (lc_locks s)(a := l), lc_code := (lc_code s)(t := place_code q @ concat (map code_of_op rs))\<rparr>"
    and w: "place_writes q = insert a (place_writes (p t))" and r: "place_reads q = place_reads (p t)"
    and ok: "place_ok q" and q: "quiet q" "quiet (p t)"
  shows "lc_inv s' (p(t := q)) (rest(t := rs)) \<and> content_of s' (p(t := q)) = content_of s p"
proof
  have free: "rw_writer (lc_locks s a) = None" "rw_readers (lc_locks s a) = []" "l = (lc_locks s a)\<lparr>rw_writer := Some t\<rparr>"
    using lock by (auto simp: lock_for_write_def split: if_splits)
  have "a \<notin> place_writes (p u)" for u using inv_writer [OF inv, of a u] free by simp
  moreover have "a \<notin> place_reads (p u)" for u using inv_no_readers [OF inv free(2)] .
  ultimately show "lc_inv s' (p(t := q)) (rest(t := rs))"
    using w r ok free by (intro inv_lock_step [OF inv s']) (auto simp: rw_ok_def)
  show "content_of s' (p(t := q)) = content_of s p"
    using free s' by (intro content_of_locks [OF inv _ q, of _ a l]) simp_all
qed

lemma lock_read_sim:
  assumes inv: "lc_inv s p rest" and lock: "lock_for_read t (lc_locks s a) = Got l"
    and s': "s' = s\<lparr>lc_locks := (lc_locks s)(a := l), lc_code := (lc_code s)(t := place_code q @ concat (map code_of_op rs))\<rparr>"
    and w: "place_writes q = place_writes (p t)" and r: "place_reads q = insert a (place_reads (p t))" "a \<notin> place_reads (p t)"
    and ok: "place_ok q" and q: "quiet q" "quiet (p t)"
  shows "lc_inv s' (p(t := q)) (rest(t := rs)) \<and> content_of s' (p(t := q)) = content_of s p"
proof
  have free: "rw_writer (lc_locks s a) = None" "l = (lc_locks s a)\<lparr>rw_readers := t # rw_readers (lc_locks s a)\<rparr>"
    using lock by (auto simp: lock_for_read_def split: option.splits if_splits)
  have "a \<notin> place_writes (p u)" for u using inv_writer [OF inv, of a u] free by simp
  then show "lc_inv s' (p(t := q)) (rest(t := rs))"
    using w r ok free inv_readers [OF inv, of a] by (intro inv_lock_step [OF inv s']) (auto simp: rw_ok_def)
  show "content_of s' (p(t := q)) = content_of s p"
    using free s' by (intro content_of_locks [OF inv _ q, of _ a l]) simp_all
qed

lemma unlock_write_sim:
  assumes inv: "lc_inv s p rest" and lock: "rw_unlock t (lc_locks s a) = Got l" and a: "a \<in> place_writes (p t)"
    and s': "s' = s\<lparr>lc_locks := (lc_locks s)(a := l), lc_code := (lc_code s)(t := place_code q @ concat (map code_of_op rs))\<rparr>"
    and w: "place_writes q = place_writes (p t) - {a}" and r: "place_reads q = place_reads (p t)"
    and ok: "place_ok q" and q: "quiet q" "quiet (p t)"
  shows "lc_inv s' (p(t := q)) (rest(t := rs)) \<and> content_of s' (p(t := q)) = content_of s p"
proof
  have wr: "rw_writer (lc_locks s a) = Some t" using inv a unfolding lc_inv_def by blast
  then have l: "l = (lc_locks s a)\<lparr>rw_writer := None\<rparr>" using lock by (simp add: rw_unlock_def)
  have "a \<notin> place_writes (p u)" if "u \<noteq> t" for u using writes_exclusive [OF inv a] that by blast
  moreover have "rw_readers (lc_locks s a) = []" using inv wr unfolding lc_inv_def rw_ok_def by (metis option.distinct(1))
  moreover from this have "a \<notin> place_reads (p u)" for u using inv_no_readers [OF inv] by blast
  ultimately show "lc_inv s' (p(t := q)) (rest(t := rs))"
    using w r ok l by (intro inv_lock_step [OF inv s']) (auto simp: rw_ok_def)
  show "content_of s' (p(t := q)) = content_of s p"
    using wr l s' by (intro content_of_locks [OF inv _ q, of _ a l]) simp_all
qed

lemma count_remove1: "count_list (remove1 x xs) y = count_list xs y - (if x = y \<and> x \<in> set xs then 1 else 0)"
  by (induction xs) (auto simp: count_list_0_iff Suc_diff_le)

lemma unlock_read_sim:
  assumes inv: "lc_inv s p rest" and lock: "rw_unlock t (lc_locks s a) = Got l" and a: "a \<in> place_reads (p t)"
    and s': "s' = s\<lparr>lc_locks := (lc_locks s)(a := l), lc_code := (lc_code s)(t := place_code q @ concat (map code_of_op rs))\<rparr>"
    and w: "place_writes q = place_writes (p t)" and r: "place_reads q = place_reads (p t) - {a}"
    and ok: "place_ok q" and q: "quiet q" "quiet (p t)"
  shows "lc_inv s' (p(t := q)) (rest(t := rs)) \<and> content_of s' (p(t := q)) = content_of s p"
proof
  have count: "count_list (rw_readers (lc_locks s a)) t = 1" using inv a unfolding lc_inv_def by metis
  then have mem: "t \<in> set (rw_readers (lc_locks s a))" by (metis count_list_0_iff zero_neq_one)
  then have wr: "rw_writer (lc_locks s a) = None" using inv unfolding lc_inv_def rw_ok_def by fastforce
  then have l: "l = (lc_locks s a)\<lparr>rw_readers := remove1 t (rw_readers (lc_locks s a))\<rparr>"
    using lock mem by (simp add: rw_unlock_def)
  have "a \<notin> place_writes (p u)" for u using inv_writer [OF inv, of a u] wr by simp
  then show "lc_inv s' (p(t := q)) (rest(t := rs))"
    using w r ok l wr mem inv_readers [OF inv, of a] count
    by (intro inv_lock_step [OF inv s']) (auto simp: rw_ok_def count_remove1)
  show "content_of s' (p(t := q)) = content_of s p"
    using wr l s' by (intro content_of_locks [OF inv _ q, of _ a l]) simp_all
qed

subsection \<open>Each step does at most one operation\<close>

lemma inv_code: "lc_inv s p rest \<Longrightarrow> lc_code s t = place_code (p t) @ concat (map code_of_op (rest t))"
  unfolding lc_inv_def by blast

lemma inv_place_ok: "lc_inv s p rest \<Longrightarrow> place_ok (p t)"
  unfolding lc_inv_def by blast

lemma local_sim:
  assumes inv: "lc_inv s p rest"
    and s': "s' = s\<lparr>lc_contents := (lc_contents s)(a := xs), lc_code := (lc_code s)(t := place_code q @ concat (map code_of_op (rest t)))\<rparr>"
    and q: "place_ok q" "place_writes q = place_writes (p t)" "place_reads q = place_reads (p t)" "a \<in> place_writes q"
  shows "lc_inv s' (p(t := q)) (rest(t := rest t))"
    and "content_of s' (p(t := q)) = (\<lambda>x. if x \<in> place_writes q then finished ((lc_contents s)(a := xs)) q x else content_of s p x)"
proof -
  show "lc_inv s' (p(t := q)) (rest(t := rest t))"
    using q by (intro inv_local_step [OF inv]) (simp_all add: s')
  show "content_of s' (p(t := q)) = (\<lambda>x. if x \<in> place_writes q then finished ((lc_contents s)(a := xs)) q x else content_of s p x)"
    using content_local_step [OF inv _ q(2,4), of s' xs] by (auto simp: s' fun_eq_iff)
qed

lemma on_lock_Got:
  "on_lock t a is s r = Got s' \<longleftrightarrow>
    (\<exists>l. r = Got l \<and> s' = s\<lparr>lc_locks := (lc_locks s)(a := l), lc_code := (lc_code s)(t := is)\<rparr>)"
  by (cases r) (auto simp: on_lock_def)

lemma sim_between:
  assumes inv: "lc_inv s p rest" and step: "lc_step t s = Got s'" and p: "p t = Between"
  shows "step_sim t s p rest s'"
proof -
  note code = inv_code [OF inv, of t]
  obtain op ops where r: "rest t = op # ops"
    using step code p by (cases "rest t") (simp_all add: lc_step_def)
  define q a where "q = (case op of Single a f \<Rightarrow> To_apply a f | Assign_from rw ins a b \<Rightarrow> To_lock_other rw ins a b
      | Assign_list ins a xs \<Rightarrow> To_clear_list ins a xs)" and "a = (case op of Single a f \<Rightarrow> a | Assign_from rw ins a b \<Rightarrow> a | Assign_list ins a xs \<Rightarrow> a)"
  have c: "code_of_op op = Lock_write a # place_code q" and q: "place_writes q = {a}" "place_reads q = {}" "place_ok q" "quiet q" "pending_op q = [op]"
    by (cases op; simp add: q_def a_def)+
  obtain l where "lock_for_write t (lc_locks s a) = Got l"
    "s' = s\<lparr>lc_locks := (lc_locks s)(a := l), lc_code := (lc_code s)(t := place_code q @ concat (map code_of_op ops))\<rparr>"
    using step code p r c by (auto simp: lc_step_def on_lock_Got split: if_splits)
  from lock_write_sim [OF inv this _ _ q(3,4)] p q r show ?thesis
    unfolding step_sim_def by (intro exI [of _ q] exI [of _ ops]) simp
qed

lemma sim_apply:
  assumes inv: "lc_inv s p rest" and step: "lc_step t s = Got s'" and p: "p t = To_apply a f"
  shows "step_sim t s p rest s'"
proof -
  obtain xs where f: "f (lc_contents s a) = Some xs"
    and s': "s' = s\<lparr>lc_contents := (lc_contents s)(a := xs), lc_code := (lc_code s)(t := place_code (To_unlock a) @ concat (map code_of_op (rest t)))\<rparr>"
    using step inv_code [OF inv, of t] p by (auto simp: lc_step_def split: option.splits)
  have "content_of s p a = lc_contents s a" using content_of_writer [OF inv, of a t] p by simp
  then show ?thesis
    using local_sim [OF inv s'] p f unfolding step_sim_def
    by (intro exI [of _ "To_unlock a"] exI [of _ "rest t"]) (auto simp: fun_eq_iff)
qed

lemma sim_lock_other:
  assumes inv: "lc_inv s p rest" and step: "lc_step t s = Got s'" and p: "p t = To_lock_other rw ins a b"
  shows "step_sim t s p rest s'"
proof -
  note code = inv_code [OF inv, of t]
  let ?q = "To_clear rw ins a b"
  have wa: "rw_writer (lc_locks s a) = Some t" using inv_writer [OF inv, of a t] p by simp
  have "lc_inv s' (p(t := ?q)) (rest(t := rest t)) \<and> content_of s' (p(t := ?q)) = content_of s p"
  proof (cases rw)
    case True
    then obtain l where l: "lock_for_read t (lc_locks s b) = Got l"
      and s': "s' = s\<lparr>lc_locks := (lc_locks s)(b := l), lc_code := (lc_code s)(t := place_code ?q @ concat (map code_of_op (rest t)))\<rparr>"
      using step code p by (auto simp: lc_step_def on_lock_Got)
    have "a \<noteq> b" using l wa by (auto simp: lock_for_read_def)
    with lock_read_sim [OF inv l s'] p True show ?thesis by simp
  next
    case False
    then obtain l where l: "lock_for_write t (lc_locks s b) = Got l" "rw_writer (lc_locks s b) \<noteq> Some t"
      and s': "s' = s\<lparr>lc_locks := (lc_locks s)(b := l), lc_code := (lc_code s)(t := place_code ?q @ concat (map code_of_op (rest t)))\<rparr>"
      using step code p by (auto simp: lc_step_def on_lock_Got split: if_splits)
    have "a \<noteq> b" using l wa by auto
    with lock_write_sim [OF inv l(1) s'] p False show ?thesis by (simp add: insert_commute)
  qed
  with p show ?thesis unfolding step_sim_def by (intro exI [of _ ?q] exI [of _ "rest t"]) simp
qed

lemma content_of_other:
  assumes inv: "lc_inv s p rest" and p: "p t = To_clear rw ins a b"
  shows "content_of s p b = lc_contents s b"
  using content_of_read [OF inv, of b t] content_of_writer [OF inv, of b t] p by (cases rw) simp_all

lemma sim_clear:
  assumes inv: "lc_inv s p rest" and step: "lc_step t s = Got s'" and p: "p t = To_clear rw ins a b"
  shows "step_sim t s p rest s'"
proof -
  let ?q = "Copying rw ins a b 0"
  have s': "s' = s\<lparr>lc_contents := (lc_contents s)(a := []), lc_code := (lc_code s)(t := place_code ?q @ concat (map code_of_op (rest t)))\<rparr>"
    using step inv_code [OF inv, of t] p by (auto simp: lc_step_def)
  have ab: "a \<noteq> b" using inv_place_ok [OF inv, of t] p by simp
  note sim = local_sim [OF inv s']
  have "content_of s' (p(t := ?q)) = (content_of s p)(a := fold ins (content_of s p b) [])"
    using sim(2) p ab content_of_other [OF inv p] by (cases rw) (auto simp: fun_eq_iff)
  then show ?thesis
    using sim(1) p ab unfolding step_sim_def by (intro exI [of _ ?q] exI [of _ "rest t"]) simp
qed

lemma sim_copy:
  assumes inv: "lc_inv s p rest" and step: "lc_step t s = Got s'" and p: "p t = Copying rw ins a b i"
  shows "step_sim t s p rest s'"
proof -
  note code = inv_code [OF inv, of t]
  have ab: "a \<noteq> b" using inv_place_ok [OF inv, of t] p by simp
  have old: "content_of s p x = (if x \<in> place_writes (p t) then finished (lc_contents s) (p t) x else content_of s p x)" for x
    using content_of_writer [OF inv] by simp
  define q xs where "q = (if i < length (lc_contents s b) then Copying rw ins a b (i + 1) else To_unlock_other rw a b)"
    and "xs = (if i < length (lc_contents s b) then ins (lc_contents s b ! i) (lc_contents s a) else lc_contents s a)"
  have s': "s' = s\<lparr>lc_contents := (lc_contents s)(a := xs), lc_code := (lc_code s)(t := place_code q @ concat (map code_of_op (rest t)))\<rparr>"
    using step code p by (auto simp: lc_step_def q_def xs_def split: if_splits)
  have q: "place_ok q" "place_writes q = place_writes (p t)" "place_reads q = place_reads (p t)" "a \<in> place_writes q" "pending_op q = []"
    using p ab by (auto simp: q_def)
  note sim = local_sim [OF inv s' q(1-4)]
  have fin: "finished ((lc_contents s)(a := xs)) q x = finished (lc_contents s) (p t) x" for x
  proof (cases "i < length (lc_contents s b)")
    case True
    then show ?thesis using p ab by (auto simp: q_def xs_def Cons_nth_drop_Suc [symmetric])
  next
    case False
    then show ?thesis using p by (simp add: q_def xs_def)
  qed
  have "content_of s' (p(t := q)) x = content_of s p x" for x
    unfolding sim(2) fin using old [of x] q(2) by (auto simp: fun_eq_iff)
  then have "content_of s' (p(t := q)) = content_of s p" by (rule ext)
  with sim(1) q p show ?thesis unfolding step_sim_def by (intro exI [of _ q] exI [of _ "rest t"]) simp
qed

lemma sim_unlock_other:
  assumes inv: "lc_inv s p rest" and step: "lc_step t s = Got s'" and p: "p t = To_unlock_other rw a b"
  shows "step_sim t s p rest s'"
proof -
  let ?q = "To_unlock a"
  have ab: "a \<noteq> b" using inv_place_ok [OF inv, of t] p by simp
  obtain l where l: "rw_unlock t (lc_locks s b) = Got l"
    and s': "s' = s\<lparr>lc_locks := (lc_locks s)(b := l), lc_code := (lc_code s)(t := place_code ?q @ concat (map code_of_op (rest t)))\<rparr>"
    using step inv_code [OF inv, of t] p by (auto simp: lc_step_def on_lock_Got)
  have "lc_inv s' (p(t := ?q)) (rest(t := rest t)) \<and> content_of s' (p(t := ?q)) = content_of s p"
    using unlock_read_sim [OF inv l _ s'] unlock_write_sim [OF inv l _ s'] p ab by (cases rw) auto
  with p show ?thesis unfolding step_sim_def by (intro exI [of _ ?q] exI [of _ "rest t"]) simp
qed

lemma sim_unlock:
  assumes inv: "lc_inv s p rest" and step: "lc_step t s = Got s'" and p: "p t = To_unlock a"
  shows "step_sim t s p rest s'"
proof -
  obtain l where l: "rw_unlock t (lc_locks s a) = Got l"
    and s': "s' = s\<lparr>lc_locks := (lc_locks s)(a := l), lc_code := (lc_code s)(t := place_code Between @ concat (map code_of_op (rest t)))\<rparr>"
    using step inv_code [OF inv, of t] p by (auto simp: lc_step_def on_lock_Got)
  with unlock_write_sim [OF inv l _ s'] p show ?thesis
    unfolding step_sim_def by (intro exI [of _ Between] exI [of _ "rest t"]) simp
qed

lemma sim_clear_list:
  assumes inv: "lc_inv s p rest" and step: "lc_step t s = Got s'" and p: "p t = To_clear_list ins a xs"
  shows "step_sim t s p rest s'"
proof -
  let ?q = "Copying_list ins a xs"
  have s': "s' = s\<lparr>lc_contents := (lc_contents s)(a := []), lc_code := (lc_code s)(t := place_code ?q @ concat (map code_of_op (rest t)))\<rparr>"
    using step inv_code [OF inv, of t] p by (auto simp: lc_step_def)
  then show ?thesis
    using local_sim [OF inv s'] p unfolding step_sim_def
    by (intro exI [of _ ?q] exI [of _ "rest t"]) (auto simp: fun_eq_iff)
qed

lemma sim_copy_list:
  assumes inv: "lc_inv s p rest" and step: "lc_step t s = Got s'" and p: "p t = Copying_list ins a xs"
  shows "step_sim t s p rest s'"
proof -
  define q ys where "q = (case xs of x # xs' \<Rightarrow> Copying_list ins a xs' | [] \<Rightarrow> To_unlock a)"
    and "ys = (case xs of x # xs' \<Rightarrow> ins x (lc_contents s a) | [] \<Rightarrow> lc_contents s a)"
  have s': "s' = s\<lparr>lc_contents := (lc_contents s)(a := ys), lc_code := (lc_code s)(t := place_code q @ concat (map code_of_op (rest t)))\<rparr>"
    using step inv_code [OF inv, of t] p by (auto simp: lc_step_def q_def ys_def split: list.splits)
  have q: "place_ok q" "place_writes q = place_writes (p t)" "place_reads q = place_reads (p t)" "a \<in> place_writes q" "pending_op q = []"
    using p by (auto simp: q_def split: list.split)
  note sim = local_sim [OF inv s' q(1-4)]
  have "content_of s' (p(t := q)) x = content_of s p x" for x
    unfolding sim(2) using content_of_writer [OF inv, of x t] p q(2) by (auto simp: q_def ys_def split: list.split)
  then have "content_of s' (p(t := q)) = content_of s p" by (rule ext)
  with sim(1) q p show ?thesis unfolding step_sim_def by (intro exI [of _ q] exI [of _ "rest t"]) simp
qed

lemma step_simulated:
  assumes "lc_inv s p rest" and "lc_step t s = Got s'"
  shows "step_sim t s p rest s'"
proof (cases "p t")
  case Between
  with assms show ?thesis by (rule sim_between)
next
  case (To_apply a f)
  with assms show ?thesis by (rule sim_apply)
next
  case (To_lock_other rw ins a b)
  with assms show ?thesis by (rule sim_lock_other)
next
  case (To_clear rw ins a b)
  with assms show ?thesis by (rule sim_clear)
next
  case (Copying rw ins a b i)
  with assms show ?thesis by (rule sim_copy)
next
  case (To_unlock_other rw a b)
  with assms show ?thesis by (rule sim_unlock_other)
next
  case (To_clear_list ins a xs)
  with assms show ?thesis by (rule sim_clear_list)
next
  case (Copying_list ins a xs)
  with assms show ?thesis by (rule sim_copy_list)
next
  case (To_unlock a)
  with assms show ?thesis by (rule sim_unlock)
qed

section \<open>The operations happen one after the other\<close>

text \<open>The operations of a thread in a history.\<close>

definition ops_of :: "nat \<Rightarrow> (nat \<times> 'a cop) list \<Rightarrow> 'a cop list" where
  "ops_of t h = map snd (filter (\<lambda>e. fst e = t) h)"

definition lc_start :: "(nat \<Rightarrow> 'a list) \<Rightarrow> (nat \<Rightarrow> 'a cop list) \<Rightarrow> 'a lc_state" where
  "lc_start c P = \<lparr>lc_contents = c, lc_locks = (\<lambda>_. free_lock), lc_code = (\<lambda>t. concat (map code_of_op (P t)))\<rparr>"

lemma lc_inv_start: "lc_inv (lc_start c P) (\<lambda>_. Between) P"
  by (simp add: lc_inv_def lc_start_def free_lock_def rw_ok_def)

lemma run_simulated:
  assumes "lc_run ts s = Some s'" and "lc_inv s p rest"
  shows "\<exists>q rs h. lc_inv s' q rs \<and> spec_ops (map snd h) (content_of s p) = Some (content_of s' q)
    \<and> (\<forall>u. pending_op (p u) @ rest u = ops_of u h @ pending_op (q u) @ rs u)"
  using assms
proof (induction ts arbitrary: s p rest)
  case Nil
  then show ?case by (intro exI [of _ p] exI [of _ rest] exI [of _ "[]"]) (simp add: ops_of_def)
next
  case (Cons t ts)
  show ?case
  proof (cases "lc_step t s")
    case (Got s1)
    obtain q1 rs1 where i: "lc_inv s1 (p(t := q1)) (rest(t := rs1))"
      and o: "pending_op (p t) @ rest t = pending_op q1 @ rs1 \<and> content_of s1 (p(t := q1)) = content_of s p
          \<or> (\<exists>op. pending_op (p t) @ rest t = op # pending_op q1 @ rs1
                \<and> spec_op op (content_of s p) = Some (content_of s1 (p(t := q1))))"
      using step_simulated [OF Cons.prems(2) Got] unfolding step_sim_def by blast
    have "lc_run ts s1 = Some s'" using Cons.prems(1) Got by simp
    from Cons.IH [OF this i] obtain q rs h where h: "lc_inv s' q rs"
      "spec_ops (map snd h) (content_of s1 (p(t := q1))) = Some (content_of s' q)"
      "\<forall>u. pending_op ((p(t := q1)) u) @ (rest(t := rs1)) u = ops_of u h @ pending_op (q u) @ rs u" by blast
    from o show ?thesis
    proof (elim disjE exE conjE)
      assume "pending_op (p t) @ rest t = pending_op q1 @ rs1" "content_of s1 (p(t := q1)) = content_of s p"
      then show ?thesis using h by (intro exI [of _ q] exI [of _ rs] exI [of _ h]) (metis fun_upd_apply)
    next
      fix op assume a: "pending_op (p t) @ rest t = op # pending_op q1 @ rs1"
        "spec_op op (content_of s p) = Some (content_of s1 (p(t := q1)))"
      have "pending_op (p u) @ rest u = ops_of u ((t, op) # h) @ pending_op (q u) @ rs u" for u
        using h(3) [rule_format, of u] a(1) by (cases "u = t") (auto simp: ops_of_def)
      then show ?thesis using h a(2) by (intro exI [of _ q] exI [of _ rs] exI [of _ "(t, op) # h"]) simp
    qed
  next
    case Blocked
    then show ?thesis using Cons by simp
  qed (use Cons in simp)
qed

lemma content_of_idle:
  assumes "lc_inv s p rest" and "\<forall>t. lc_code s t = []"
  shows "content_of s p = lc_contents s" and "pending_op (p t) = []" and "rest t = []"
proof -
  have b: "p u = Between \<and> rest u = []" for u
  proof -
    have "place_code (p u) = []" "concat (map code_of_op (rest u)) = []"
      using inv_code [OF assms(1), of u] assms(2) by simp_all
    moreover have "code_of_op op \<noteq> []" for op :: "'a cop" by (cases op) simp_all
    ultimately show ?thesis by (cases "p u"; cases "rest u") auto
  qed
  then show "pending_op (p t) = []" "rest t = []" by simp_all
  show "content_of s p = lc_contents s"
    using b inv_writer [OF assms(1)] by (auto simp: fun_eq_iff content_of_def split: option.split)
qed

lemma forms_atomic:
  assumes "lc_run ts (lc_start c P) = Some s" and "\<forall>t. lc_code s t = []"
  shows "\<exists>h. (\<forall>t. ops_of t h = P t) \<and> spec_ops (map snd h) c = Some (lc_contents s)"
proof -
  have c: "content_of (lc_start c P) (\<lambda>_. Between) = c"
    by (simp add: fun_eq_iff content_of_def lc_start_def free_lock_def)
  from run_simulated [OF assms(1) lc_inv_start] obtain q rs h where h: "lc_inv s q rs"
    "spec_ops (map snd h) c = Some (content_of s q)"
    "\<forall>u. P u = ops_of u h @ pending_op (q u) @ rs u"
    unfolding c by auto
  note idle = content_of_idle [OF h(1) assms(2)]
  show ?thesis using h idle by (intro exI [of _ h]) simp
qed

section \<open>Calls\<close>

text \<open>
  A call of an operation of one of the containers. Elements are pairs, of which a map takes the first
  part for the key; a container of single values is one of pairs with a second part of type \<open>unit\<close>.
\<close>

datatype ('k, 'v) lc_call =
    List_push_back nat "'k \<times> 'v"
  | List_push_front nat "'k \<times> 'v"
  | List_remove nat "'k \<times> 'v"
  | List_assign nat nat
  | List_assign_list nat "('k \<times> 'v) list"
  | RW_List_push_back nat "'k \<times> 'v"
  | RW_List_push_front nat "'k \<times> 'v"
  | RW_List_remove nat "'k \<times> 'v"
  | RW_List_assign_list nat "('k \<times> 'v) list"
  | Vector_push_back nat "'k \<times> 'v"
  | Vector_pop_back nat
  | Vector_erase nat nat
  | Vector_erase_range nat nat nat
  | Vector_assign nat nat
  | Vector_assign_vector nat "('k \<times> 'v) list"
  | RW_Vector_push_back nat "'k \<times> 'v"
  | RW_Vector_pop_back nat
  | RW_Vector_erase nat nat
  | RW_Vector_erase_range nat nat nat
  | RW_Vector_assign nat nat
  | RW_Vector_assign_vector nat "('k \<times> 'v) list"
  | Queue_push nat "'k \<times> 'v"
  | Queue_pop nat
  | Queue_clear nat
  | Set_insert nat "'k \<times> 'v"
  | Set_erase nat "'k \<times> 'v"
  | Set_assign nat nat
  | Set_assign_set nat "('k \<times> 'v) list"
  | Map_erase nat 'k
  | Map_assign nat nat
  | Map_assign_map nat "('k \<times> 'v) list"
  | RW_Map_erase nat 'k

text \<open>The code of a call is that of the operation it calls.\<close>

fun call_code :: "('k::linorder, 'v::linorder) lc_call \<Rightarrow> ('k \<times> 'v) instr list" where
  "call_code (List_push_back a x) = LockList_push_back_locked a x"
| "call_code (List_push_front a x) = LockList_push_front_locked a x"
| "call_code (List_remove a x) = LockList_remove_locked a x"
| "call_code (List_assign a b) = LockList_assign a b"
| "call_code (List_assign_list a l) = LockList_assign_list a l"
| "call_code (RW_List_push_back a x) = RWLockList_push_back_locked a x"
| "call_code (RW_List_push_front a x) = RWLockList_push_front_locked a x"
| "call_code (RW_List_remove a x) = RWLockList_remove_locked a x"
| "call_code (RW_List_assign_list a l) = RWLockList_assign_list a l"
| "call_code (Vector_push_back a x) = LockVector_push_back_locked a x"
| "call_code (Vector_pop_back a) = LockVector_pop_back_locked a"
| "call_code (Vector_erase a i) = LockVector_erase_locked a i"
| "call_code (Vector_erase_range a i j) = LockVector_erase_range_locked a i j"
| "call_code (Vector_assign a b) = LockVector_assign a b"
| "call_code (Vector_assign_vector a l) = LockVector_assign_vector a l"
| "call_code (RW_Vector_push_back a x) = RWLockVector_push_back_locked a x"
| "call_code (RW_Vector_pop_back a) = RWLockVector_pop_back_locked a"
| "call_code (RW_Vector_erase a i) = RWLockVector_erase_locked a i"
| "call_code (RW_Vector_erase_range a i j) = RWLockVector_erase_range_locked a i j"
| "call_code (RW_Vector_assign a b) = RWLockVector_assign a b"
| "call_code (RW_Vector_assign_vector a l) = RWLockVector_assign_vector a l"
| "call_code (Queue_push a x) = LockQueue_push_locked a x"
| "call_code (Queue_pop a) = LockQueue_pop_locked a"
| "call_code (Queue_clear a) = LockQueue_clear a"
| "call_code (Set_insert a x) = LockSet_insert_locked a x"
| "call_code (Set_erase a x) = LockSet_erase_locked a x"
| "call_code (Set_assign a b) = LockSet_assign a b"
| "call_code (Set_assign_set a l) = LockSet_assign_set a l"
| "call_code (Map_erase a k) = LockMap_erase_locked a k"
| "call_code (Map_assign a b) = LockMap_assign a b"
| "call_code (Map_assign_map a l) = LockMap_assign_map a l"
| "call_code (RW_Map_erase a k) = RWLockMap_erase_locked a k"

text \<open>
  What a call does: the operations of the standard library on the content, and an assignment gives the
  content of the other container, in order and without repetition where the container keeps it so. Of
  two entries with one key a map keeps the first.
\<close>

definition sorted_map :: "('k::linorder \<times> 'v) list \<Rightarrow> ('k \<times> 'v) list" where
  "sorted_map xs = map (\<lambda>k. (k, the (map_of xs k))) (sorted_list_of_set (fst ` set xs))"

fun spec_of :: "('k::linorder, 'v::linorder) lc_call \<Rightarrow> (nat \<Rightarrow> ('k \<times> 'v) list) \<Rightarrow> (nat \<Rightarrow> ('k \<times> 'v) list) option" where
  "spec_of (List_push_back a x) c = (Some (c(a := c a @ [x])))"
| "spec_of (List_push_front a x) c = (Some (c(a := x # c a)))"
| "spec_of (List_remove a x) c = (Some (c(a := filter (\<lambda>y. y \<noteq> x) (c a))))"
| "spec_of (List_assign a b) c = (Some (c(a := c b)))"
| "spec_of (List_assign_list a l) c = (Some (c(a := l)))"
| "spec_of (RW_List_push_back a x) c = (Some (c(a := c a @ [x])))"
| "spec_of (RW_List_push_front a x) c = (Some (c(a := x # c a)))"
| "spec_of (RW_List_remove a x) c = (Some (c(a := filter (\<lambda>y. y \<noteq> x) (c a))))"
| "spec_of (RW_List_assign_list a l) c = (Some (c(a := l)))"
| "spec_of (Vector_push_back a x) c = (Some (c(a := c a @ [x])))"
| "spec_of (Vector_pop_back a) c = (if c a = [] then None else Some (c(a := butlast (c a))))"
| "spec_of (Vector_erase a i) c = (if i < length (c a) then Some (c(a := take i (c a) @ drop (i + 1) (c a))) else None)"
| "spec_of (Vector_erase_range a i j) c = (if i \<le> j \<and> j \<le> length (c a) then Some (c(a := take i (c a) @ drop j (c a))) else None)"
| "spec_of (Vector_assign a b) c = (Some (c(a := c b)))"
| "spec_of (Vector_assign_vector a l) c = (Some (c(a := l)))"
| "spec_of (RW_Vector_push_back a x) c = (Some (c(a := c a @ [x])))"
| "spec_of (RW_Vector_pop_back a) c = (if c a = [] then None else Some (c(a := butlast (c a))))"
| "spec_of (RW_Vector_erase a i) c = (if i < length (c a) then Some (c(a := take i (c a) @ drop (i + 1) (c a))) else None)"
| "spec_of (RW_Vector_erase_range a i j) c = (if i \<le> j \<and> j \<le> length (c a) then Some (c(a := take i (c a) @ drop j (c a))) else None)"
| "spec_of (RW_Vector_assign a b) c = (Some (c(a := c b)))"
| "spec_of (RW_Vector_assign_vector a l) c = (Some (c(a := l)))"
| "spec_of (Queue_push a x) c = (Some (c(a := c a @ [x])))"
| "spec_of (Queue_pop a) c = (if c a = [] then None else Some (c(a := tl (c a))))"
| "spec_of (Queue_clear a) c = (Some (c(a := [])))"
| "spec_of (Set_insert a x) c = (Some (c(a := if x \<in> set (c a) then c a else insort x (c a))))"
| "spec_of (Set_erase a x) c = (Some (c(a := filter (\<lambda>y. y \<noteq> x) (c a))))"
| "spec_of (Set_assign a b) c = (Some (c(a := sorted_list_of_set (set (c b)))))"
| "spec_of (Set_assign_set a l) c = (Some (c(a := sorted_list_of_set (set l))))"
| "spec_of (Map_erase a k) c = (Some (c(a := filter (\<lambda>e. fst e \<noteq> k) (c a))))"
| "spec_of (Map_assign a b) c = (Some (c(a := sorted_map (c b))))"
| "spec_of (Map_assign_map a l) c = (Some (c(a := sorted_map l)))"
| "spec_of (RW_Map_erase a k) c = (Some (c(a := filter (\<lambda>e. fst e \<noteq> k) (c a))))"

fun spec_calls :: "('k::linorder, 'v::linorder) lc_call list \<Rightarrow> (nat \<Rightarrow> ('k \<times> 'v) list) \<Rightarrow> (nat \<Rightarrow> ('k \<times> 'v) list) option" where
  "spec_calls [] c = Some c"
| "spec_calls (e # es) c = Option.bind (spec_of e c) (spec_calls es)"

definition calls_start ::
    "(nat \<Rightarrow> ('k::linorder \<times> 'v::linorder) list) \<Rightarrow> (nat \<Rightarrow> ('k, 'v) lc_call list) \<Rightarrow> ('k \<times> 'v) lc_state" where
  "calls_start c P = \<lparr>lc_contents = c, lc_locks = (\<lambda>_. free_lock), lc_code = (\<lambda>t. concat (map call_code (P t)))\<rparr>"

subsection \<open>Each call has one of the forms\<close>

fun form_of :: "('k::linorder, 'v::linorder) lc_call \<Rightarrow> ('k \<times> 'v) cop" where
  "form_of (List_push_back a x) = Single a (\<lambda>xs. Some (push_back x xs))"
| "form_of (List_push_front a x) = Single a (\<lambda>xs. Some (x # xs))"
| "form_of (List_remove a x) = Single a (\<lambda>xs. Some (removeAll x xs))"
| "form_of (List_assign a b) = Assign_from False push_back a b"
| "form_of (List_assign_list a l) = Assign_list push_back a l"
| "form_of (RW_List_push_back a x) = Single a (\<lambda>xs. Some (push_back x xs))"
| "form_of (RW_List_push_front a x) = Single a (\<lambda>xs. Some (x # xs))"
| "form_of (RW_List_remove a x) = Single a (\<lambda>xs. Some (removeAll x xs))"
| "form_of (RW_List_assign_list a l) = Assign_list push_back a l"
| "form_of (Vector_push_back a x) = Single a (\<lambda>xs. Some (push_back x xs))"
| "form_of (Vector_pop_back a) = Single a pop_back"
| "form_of (Vector_erase a i) = Single a (erase_at i)"
| "form_of (Vector_erase_range a i j) = Single a (erase_range i j)"
| "form_of (Vector_assign a b) = Assign_from False push_back a b"
| "form_of (Vector_assign_vector a l) = Assign_list push_back a l"
| "form_of (RW_Vector_push_back a x) = Single a (\<lambda>xs. Some (push_back x xs))"
| "form_of (RW_Vector_pop_back a) = Single a pop_back"
| "form_of (RW_Vector_erase a i) = Single a (erase_at i)"
| "form_of (RW_Vector_erase_range a i j) = Single a (erase_range i j)"
| "form_of (RW_Vector_assign a b) = Assign_from True push_back a b"
| "form_of (RW_Vector_assign_vector a l) = Assign_list push_back a l"
| "form_of (Queue_push a x) = Single a (\<lambda>xs. Some (push_back x xs))"
| "form_of (Queue_pop a) = Single a (\<lambda>xs. if xs = [] then None else Some (tl xs))"
| "form_of (Queue_clear a) = Single a (\<lambda>xs. Some [])"
| "form_of (Set_insert a x) = Single a (\<lambda>xs. Some (insert_sorted id x xs))"
| "form_of (Set_erase a x) = Single a (\<lambda>xs. Some (removeAll x xs))"
| "form_of (Set_assign a b) = Assign_from False (insert_sorted id) a b"
| "form_of (Set_assign_set a l) = Assign_list (insert_sorted id) a l"
| "form_of (Map_erase a k) = Single a (\<lambda>xs. Some (filter (\<lambda>e. fst e \<noteq> k) xs))"
| "form_of (Map_assign a b) = Assign_from False (insert_sorted fst) a b"
| "form_of (Map_assign_map a l) = Assign_list (insert_sorted fst) a l"
| "form_of (RW_Map_erase a k) = Single a (\<lambda>xs. Some (filter (\<lambda>e. fst e \<noteq> k) xs))"

lemma call_code_form: "call_code e = code_of_op (form_of e)"
  by (cases e) (simp_all add: lock_container_ops)

lemma calls_start_forms: "calls_start c P = lc_start c (\<lambda>t. map form_of (P t))"
  by (simp add: calls_start_def lc_start_def comp_def call_code_form [abs_def])

lemma insert_sorted_set:
  "insert_sorted id x (sorted_list_of_set (set xs)) = sorted_list_of_set (insert x (set xs))"
proof (cases "x \<in> set xs")
  case False
  then show ?thesis
    using sorted_list_of_set.sorted_key_list_of_set_insert [of "set xs" x] by (simp add: insert_sorted_def id_def)
qed (simp add: insert_sorted_def insert_absorb)

lemma copy_set: "fold (insert_sorted id) xs [] = sorted_list_of_set (set xs)"
proof (induction xs rule: rev_induct)
  case (snoc x xs)
  have "fold (insert_sorted id) (xs @ [x]) [] = insert_sorted id x (sorted_list_of_set (set xs))"
    by (simp only: fold_append fold_simps comp_apply snoc.IH)
  also have "\<dots> = sorted_list_of_set (set (xs @ [x]))"
    unfolding insert_sorted_set by (simp del: sorted_list_of_set.sorted_key_list_of_set_insert_remove)
  finally show ?case .
qed simp

lemma insort_id: "insort_key id x xs = insort x xs"
  by (simp add: id_def)

lemma insort_pairs:
  "k \<notin> set ks \<Longrightarrow> insort_key fst (k, v) (map (\<lambda>j. (j, g j)) ks) = map (\<lambda>j. (j, (g(k := v)) j)) (insort k ks)"
  by (induction ks) auto

lemma insert_sorted_map: "insert_sorted fst (k, v) (sorted_map xs) = sorted_map (xs @ [(k, v)])"
proof (cases "k \<in> fst ` set xs")
  case True
  then have "map_of (xs @ [(k, v)]) j = map_of xs j" for j
    by (auto simp: map_of_append map_add_def dest!: weak_map_of_SomeI split: option.split)
  moreover have "k \<in> fst ` set (sorted_map xs)" using True by (auto simp: sorted_map_def image_image)
  ultimately show ?thesis using True by (simp add: insert_sorted_def sorted_map_def insert_absorb)
next
  case False
  let ?ks = "sorted_list_of_set (fst ` set xs)"
  have "map_of xs k = None" using False by (simp add: map_of_eq_None_iff)
  then have other: "the (map_of (xs @ [(k, v)]) j) = ((\<lambda>j. the (map_of xs j))(k := v)) j" if "j \<in> insert k (fst ` set xs)" for j
    using that by (auto simp: map_add_def split: option.split)
  have "fst ` set (sorted_map xs) = fst ` set xs" by (simp add: sorted_map_def image_image)
  then have "insert_sorted fst (k, v) (sorted_map xs) = insort_key fst (k, v) (sorted_map xs)"
    using False by (simp add: insert_sorted_def)
  also have "\<dots> = map (\<lambda>j. (j, ((\<lambda>j. the (map_of xs j))(k := v)) j)) (insort k ?ks)"
    unfolding sorted_map_def by (rule insort_pairs) (use False in simp)
  also have "insort k ?ks = sorted_list_of_set (insert k (fst ` set xs))"
    using sorted_list_of_set.sorted_key_list_of_set_insert [of "fst ` set xs" k] False by simp
  also have "map (\<lambda>j. (j, ((\<lambda>j. the (map_of xs j))(k := v)) j)) (sorted_list_of_set (insert k (fst ` set xs)))
      = sorted_map (xs @ [(k, v)])"
  proof -
    have keys: "fst ` set (xs @ [(k, v)]) = insert k (fst ` set xs)" by auto
    show ?thesis unfolding sorted_map_def keys
    proof (rule map_cong [OF refl])
      fix j assume "j \<in> set (sorted_list_of_set (insert k (fst ` set xs)))"
      then have "j \<in> insert k (fst ` set xs)" by (metis finite_imageI finite_insert finite_set set_sorted_list_of_set)
      from other [OF this]
      show "(j, ((\<lambda>j. the (map_of xs j))(k := v)) j) = (j, the (map_of (xs @ [(k, v)]) j))" by simp
    qed
  qed
  finally show ?thesis .
qed

lemma copy_map: "fold (insert_sorted fst) xs [] = sorted_map xs"
proof (induction xs rule: rev_induct)
  case (snoc x xs)
  then show ?case by (cases x) (simp add: insert_sorted_map)
qed (simp add: sorted_map_def)

lemma spec_of_form: "spec_of e c = spec_op (form_of e) c"
  by (cases e) (auto simp: push_back_def fold_push_back copy_set copy_map insert_sorted_def pop_back_def erase_at_def
      erase_range_def removeAll_filter_not_eq insort_id neq_commute)

lemma spec_calls_forms: "spec_calls es c = spec_ops (map form_of es) c"
  by (induction es arbitrary: c) (auto simp: spec_of_form split: bind_split)

text \<open>A history of forms is one of calls.\<close>

lemma history_of_calls:
  "\<forall>t. ops_of t h = map form_of (P t) \<Longrightarrow>
    \<exists>h'. map (apsnd form_of) h' = h \<and> (\<forall>t. map snd (filter (\<lambda>e. fst e = t) h') = P t)"
proof (induction h arbitrary: P)
  case Nil
  then show ?case by (intro exI [of _ "[]"]) (simp add: ops_of_def)
next
  case (Cons x h)
  obtain t op where x: "x = (t, op)" by (cases x)
  have "map form_of (P t) = op # ops_of t h" using Cons.prems [rule_format, of t] by (simp add: ops_of_def x)
  then obtain e es where P: "P t = e # es" "form_of e = op" "map form_of es = ops_of t h" by auto
  have "\<forall>u. ops_of u h = map form_of ((P(t := es)) u)"
  proof
    fix u
    show "ops_of u h = map form_of ((P(t := es)) u)"
      using Cons.prems [rule_format, of u] P(3) by (cases "u = t") (auto simp: ops_of_def x)
  qed
  from Cons.IH [OF this] obtain h' where h': "map (apsnd form_of) h' = h"
    "\<forall>u. map snd (filter (\<lambda>e. fst e = u) h') = (P(t := es)) u" by blast
  have "map snd (filter (\<lambda>y. fst y = u) ((t, e) # h')) = P u" for u
    using h'(2) [rule_format, of u] P(1) by (cases "u = t") simp_all
  moreover have "map (apsnd form_of) ((t, e) # h') = x # h" using h'(1) P(2) by (simp add: x)
  ultimately show ?case by (intro exI [of _ "(t, e) # h'"]) simp
qed

text \<open>
  C32 The operations of the containers with locks are atomic. Let any threads make any calls of the operations
  on any containers, and let their code be interleaved, instruction by instruction. When all calls have
  returned, the containers have the contents that one sequence of the same calls gives, each call
  done as a whole and the calls of each thread in their order, provided the standard library leaves no
  call undefined.
\<close>

theorem locked_operations_atomic:
  assumes "lc_run ts (calls_start c P) = Some s" and "\<forall>t. lc_code s t = []"
  shows "\<exists>h. (\<forall>t. map snd (filter (\<lambda>e. fst e = t) h) = P t) \<and> spec_calls (map snd h) c = Some (lc_contents s)"
proof -
  obtain h where h: "\<forall>t. ops_of t h = map form_of (P t)" "spec_ops (map snd h) c = Some (lc_contents s)"
    using forms_atomic assms unfolding calls_start_forms by blast
  obtain h' where h': "map (apsnd form_of) h' = h" "\<forall>t. map snd (filter (\<lambda>e. fst e = t) h') = P t"
    using history_of_calls [OF h(1)] by blast
  have "map form_of (map snd h') = map snd h" by (simp flip: h'(1))
  with h(2) h'(2) show ?thesis by (intro exI [of _ h']) (simp only: spec_calls_forms simp_thms)
qed

definition demo_calls :: "nat \<Rightarrow> (nat, nat) lc_call list" where
  "demo_calls t = (if t = 0 then [Queue_pop 0, List_push_back 0 (7, 7)] else if t = 1 then [Vector_assign 1 0] else [])"

definition demo_schedule :: "nat list" where
  "demo_schedule = [1, 0, 1, 0, 1, 1, 0, 1, 1, 1, 1, 1, 1, 1, 0, 0, 0, 0, 0, 0]"

definition demo_contents :: "nat \<Rightarrow> (nat \<times> nat) list" where
  "demo_contents a = (if a = 0 then [(5, 5)] else [(6, 6)])"

theorem locked_operations_atomic_witness:
  "\<exists>s h. lc_run demo_schedule (calls_start demo_contents demo_calls) = Some s
    \<and> lc_contents s 0 = [(7, 7)] \<and> lc_contents s 1 = []
    \<and> (\<forall>t. map snd (filter (\<lambda>e. fst e = t) h) = demo_calls t) \<and> spec_calls (map snd h) demo_contents = Some (lc_contents s)"
proof -
  define s where "s = lc_run demo_schedule (calls_start demo_contents demo_calls)"
  have run: "\<exists>s'. s = Some s' \<and> (\<forall>t. lc_code s' t = []) \<and> lc_contents s' 0 = [(7, 7)] \<and> lc_contents s' 1 = []"
    by (simp add: s_def demo_schedule_def calls_start_def demo_calls_def demo_contents_def lc_step_def on_lock_def lock_for_write_def
        rw_unlock_def free_lock_def fun_upd_def push_back_def lock_container_ops)
  then obtain s' where s': "lc_run demo_schedule (calls_start demo_contents demo_calls) = Some s'" "\<forall>t. lc_code s' t = []"
    "lc_contents s' 0 = [(7, 7)]" "lc_contents s' 1 = []"
    unfolding s_def by blast
  from locked_operations_atomic [OF s'(1,2)] s' show ?thesis by blast
qed

section \<open>Waiting\<close>

text \<open>Code without the assignment of one container to another.\<close>

fun simple_code :: "'a instr list \<Rightarrow> bool" where
  "simple_code [] \<longleftrightarrow> True"
| "simple_code (Copy_from ins a b i # is) \<longleftrightarrow> False"
| "simple_code (Unlock a # Unlock b # is) \<longleftrightarrow> False"
| "simple_code (_ # is) \<longleftrightarrow> simple_code is"

definition is_assign :: "'a cop \<Rightarrow> bool" where
  "is_assign op \<longleftrightarrow> (case op of Assign_from _ _ _ _ \<Rightarrow> True | _ \<Rightarrow> False)"

lemma simple_code_tl: "simple_code (i # is) \<Longrightarrow> simple_code is"
  by (cases "i # is" rule: simple_code.cases) (auto elim: simple_code.elims)

lemma simple_code_ops: "\<forall>op \<in> set ops. \<not> is_assign op \<Longrightarrow> simple_code (concat (map code_of_op ops))"
proof (induction ops)
  case (Cons op ops)
  then have rest: "simple_code (concat (map code_of_op ops))" by simp
  have "simple_code (Unlock a # concat (map code_of_op ops))" for a
  proof (cases ops)
    case (Cons op' ops')
    have "\<exists>a' is. code_of_op op' = Lock_write a' # is" by (cases op') simp_all
    then show ?thesis using rest Cons by auto
  qed simp
  then show ?case using Cons.prems by (cases op) (simp_all add: is_assign_def)
qed simp

lemma simple_code_step:
  assumes "lc_step t s = Got s'" and "\<forall>u. simple_code (lc_code s u)"
  shows "simple_code (lc_code s' u)"
proof (cases "u = t")
  case True
  show ?thesis
  proof (cases "lc_code s t")
    case (Cons i js)
    with assms(2) have c: "simple_code (i # js)" "simple_code js" using simple_code_tl by (metis, metis)
    then show ?thesis
      using assms(1) Cons True
      by (cases i) (auto simp: lc_step_def on_lock_Got split: if_splits option.splits list.splits)
  qed (use assms in \<open>simp add: lc_step_def\<close>)
next
  case False
  have "lc_code s' u = lc_code s u"
    using assms(1) False
    by (auto simp: lc_step_def on_lock_Got split: list.splits instr.splits if_splits option.splits)
  with assms(2) show ?thesis by simp
qed

lemma simple_code_run:
  "lc_run ts s = Some s' \<Longrightarrow> \<forall>u. simple_code (lc_code s u) \<Longrightarrow> simple_code (lc_code s' u)"
proof (induction ts arbitrary: s)
  case (Cons t ts)
  show ?case
  proof (cases "lc_step t s")
    case (Got s1)
    moreover have "\<forall>u. simple_code (lc_code s1 u)" using simple_code_step [OF Got Cons.prems(2)] by blast
    ultimately show ?thesis using Cons by simp
  qed (use Cons in auto)
qed simp

lemma simple_place:
  assumes "lc_inv s p rest" and "simple_code (lc_code s t)"
  shows "place_reads (p t) = {}" and "p t \<noteq> Between \<Longrightarrow> lc_step t s \<noteq> Blocked"
proof -
  have c: "simple_code (place_code (p t) @ concat (map code_of_op (rest t)))" using assms inv_code [OF assms(1), of t] by simp
  have r: "rw_unlock t (lc_locks s a) \<noteq> Blocked" for a by (simp add: rw_unlock_def)
  show "place_reads (p t) = {}" using c by (cases "p t") (auto split: if_splits)
  show "lc_step t s \<noteq> Blocked" if "p t \<noteq> Between"
    using c that r inv_code [OF assms(1), of t]
    by (cases "p t") (auto simp: lc_step_def on_lock_def split: if_splits option.splits list.splits lock_result.splits)
qed

lemma forms_go_on:
  assumes "\<forall>t. \<forall>op \<in> set (P t). \<not> is_assign op" and "lc_run ts (lc_start c P) = Some s" and "lc_code s t \<noteq> []"
  shows "\<exists>u. lc_step u s \<noteq> Blocked"
proof -
  have "\<forall>u. simple_code (lc_code (lc_start c P) u)"
    using assms(1) simple_code_ops unfolding lc_start_def by fastforce
  from simple_code_run [OF assms(2) this] have simple: "simple_code (lc_code s u)" for u .
  obtain q rs where inv: "lc_inv s q rs" using run_simulated [OF assms(2) lc_inv_start] by blast
  show "\<exists>u. lc_step u s \<noteq> Blocked"
  proof (cases "q t = Between")
    case True
    then obtain op ops where "rs t = op # ops" using inv_code [OF inv, of t] assms(3) by (cases "rs t") auto
    moreover have "\<exists>d is. code_of_op op = Lock_write d # is" by (cases op) simp_all
    ultimately obtain d "is" where code: "lc_code s t = Lock_write d # is" using inv_code [OF inv, of t] True by auto
    show ?thesis
    proof (cases "rw_writer (lc_locks s d)")
      case None
      have "count_list (rw_readers (lc_locks s d)) u = 0" for u
        using inv_readers [OF inv, of d u] simple_place(1) [OF inv simple, of u] by simp
      then have "rw_readers (lc_locks s d) = []" by (metis count_list_0_iff list.set_intros(1) neq_Nil_conv)
      then have "lc_step t s \<noteq> Blocked" using code None by (simp add: lc_step_def on_lock_def lock_for_write_def)
      then show ?thesis ..
    next
      case (Some u)
      then have "q u \<noteq> Between" using inv_writer [OF inv, of d u] by auto
      then show ?thesis using simple_place(2) [OF inv simple] by blast
    qed
  qed (use simple_place(2) [OF inv simple] in blast)
qed

text \<open>The calls that assign one container to another, with and without a mutex.\<close>

definition mutex_assigns :: "(nat \<Rightarrow> nat \<Rightarrow> ('k, 'v) lc_call) list" where
  "mutex_assigns = [List_assign, Vector_assign, Set_assign, Map_assign]"

definition assigns :: "(nat \<Rightarrow> nat \<Rightarrow> ('k, 'v) lc_call) list" where
  "assigns = RW_Vector_assign # mutex_assigns"

lemma is_assign_form: "is_assign (form_of e) \<longleftrightarrow> (\<exists>f \<in> set assigns. \<exists>a b. e = f a b)"
  by (cases e) (auto simp: is_assign_def assigns_def mutex_assigns_def)

definition opposite :: "(nat \<Rightarrow> nat \<Rightarrow> ('k, 'v) lc_call) \<Rightarrow> nat \<Rightarrow> nat \<Rightarrow> nat \<Rightarrow> ('k, 'v) lc_call list" where
  "opposite f a b t = (if t = 0 then [f a b] else if t = 1 then [f b a] else [])"

definition self_assign :: "(nat \<Rightarrow> nat \<Rightarrow> ('k, 'v) lc_call) \<Rightarrow> nat \<Rightarrow> nat \<Rightarrow> ('k, 'v) lc_call list" where
  "self_assign f a t = (if t = 0 then [f a a] else [])"

lemma opposite_blocks:
  assumes "a \<noteq> b" and "f \<in> set assigns"
  shows "\<exists>s'. lc_run [0, 1] (calls_start c (opposite f a b)) = Some s' \<and> lc_code s' 0 \<noteq> [] \<and> (\<forall>u. lc_step u s' = Blocked)"
  using assms
  by (auto simp: calls_start_def opposite_def assigns_def mutex_assigns_def lock_container_ops lc_step_def on_lock_def
      lock_for_write_def lock_for_read_def free_lock_def fun_upd_def)

lemma self_blocks:
  assumes "f \<in> set mutex_assigns"
  shows "\<exists>s'. lc_run [0] (calls_start c (self_assign f a)) = Some s' \<and> lc_code s' 0 \<noteq> [] \<and> (\<forall>u. lc_step u s' = Blocked)"
  using assms
  by (auto simp: calls_start_def self_assign_def mutex_assigns_def lock_container_ops lc_step_def on_lock_def
      lock_for_write_def free_lock_def fun_upd_def)

text \<open>
  C33 Threads that make any calls but the assignment of one container to another never wait for each other for
  ever: in every reachable state in which a call has not returned some thread can go on. With each of the
  five assignments, two threads that assign two containers to each other can wait for ever, and the assignment of
  a container with a mutex to itself always does.
\<close>

theorem waiting_ends_or_not:
  assumes "\<forall>t. \<forall>e \<in> set (P t). \<forall>f \<in> set assigns. \<forall>a b. e \<noteq> f a b"
    and "lc_run ts (calls_start c P) = Some s" and "lc_code s t \<noteq> []" and "a \<noteq> b"
  shows "(\<exists>u. lc_step u s \<noteq> Blocked)
    \<and> (\<forall>f \<in> set assigns. \<exists>s'. lc_run [0, 1] (calls_start c (opposite f a b)) = Some s'
          \<and> lc_code s' 0 \<noteq> [] \<and> (\<forall>u. lc_step u s' = Blocked))
    \<and> (\<forall>f \<in> set mutex_assigns. \<exists>s'. lc_run [0] (calls_start c (self_assign f a)) = Some s'
          \<and> lc_code s' 0 \<noteq> [] \<and> (\<forall>u. lc_step u s' = Blocked))"
proof -
  have "\<forall>t. \<forall>op \<in> set (map form_of (P t)). \<not> is_assign op" using assms(1) by (auto simp: is_assign_form)
  then have "\<exists>u. lc_step u s \<noteq> Blocked"
    using forms_go_on [of "\<lambda>t. map form_of (P t)"] assms(2,3) unfolding calls_start_forms by blast
  then show ?thesis using opposite_blocks [OF assms(4)] self_blocks by blast
qed

theorem waiting_ends_or_not_witness:
  "(\<exists>s u. lc_run [0, 1] (calls_start demo_contents (\<lambda>t. if t < 2 then [Queue_pop 0 :: (nat, nat) lc_call] else [])) = Some s
      \<and> lc_step 1 s = Blocked \<and> lc_step u s \<noteq> Blocked)
   \<and> (\<exists>s'. lc_run [0, 1] (calls_start demo_contents (opposite RW_Vector_assign 0 1)) = Some s' \<and> (\<forall>u. lc_step u s' = Blocked))"
proof -
  let ?P = "\<lambda>t. if t < (2::nat) then [Queue_pop 0 :: (nat, nat) lc_call] else []"
  have a: "\<forall>t. \<forall>e \<in> set (?P t). \<forall>f \<in> set assigns. \<forall>a b. e \<noteq> f a b" by (simp add: assigns_def mutex_assigns_def)
  have "\<exists>s. lc_run [0, 1] (calls_start demo_contents ?P) = Some s \<and> lc_step 1 s = Blocked \<and> lc_code s 0 \<noteq> []"
    by (simp add: calls_start_def lock_container_ops lc_step_def on_lock_def lock_for_write_def free_lock_def fun_upd_def)
  then obtain s where s: "lc_run [0, 1] (calls_start demo_contents ?P) = Some s" "lc_step 1 s = Blocked" "lc_code s 0 \<noteq> []"
    by blast
  note w = waiting_ends_or_not [OF a s(1,3) zero_neq_one]
  have "RW_Vector_assign \<in> set assigns" by (simp add: assigns_def)
  with w s show ?thesis by blast
qed

end
