(* ===== verification/ThreadData.thy ===== *)
theory ThreadData
  imports Main
begin

text \<open>
  \<open>libs/core/threading/thread.cpp\<close>: what a thread knows of itself and what others learn of it. The
  thread-specific data with the object of the running thread, the object for the main thread, the cancel
  state, and the listeners that are told of the start of a thread or of a failed initialization. A
  thread of the operating system is a number other than 0, an object of the class \<open>Thread\<close> is its address.
\<close>

section \<open>Outcomes of calls\<close>

text \<open>
  A call returns, throws, waits for a mutex that nobody will release, or is undefined: it follows a
  null pointer or one to a deleted object, or an exception leaves the function of a thread.
\<close>

datatype thread_data_error =
    Key_no_memory
  | Key_not_created
  | Data_no_memory
  | Data_not_set
  | No_thread_initialized
  | Not_in_main_thread
  | Thread_running

datatype 'a call_outcome =
    Returns 'a
  | Throws thread_data_error
  | Waits_forever
  | Goes_wrong

record thread_obj =
  to_name :: string
  to_id :: nat
  to_started :: bool
  to_delete_on_exit :: bool
  to_listeners :: "nat list"

record threads_world =
  tw_key :: nat
  tw_key_held :: bool
  tw_data :: "nat \<Rightarrow> nat option"
  tw_objects :: "nat \<Rightarrow> thread_obj option"
  tw_alive :: "nat set"

definition then_call ::
  "'a call_outcome \<times> threads_world \<Rightarrow> ('a \<Rightarrow> threads_world \<Rightarrow> 'b call_outcome \<times> threads_world) \<Rightarrow> 'b call_outcome \<times> threads_world"
where
  "then_call r f =
     (case r of
        (Returns x, w) \<Rightarrow> f x w
      | (Throws e, w) \<Rightarrow> (Throws e, w)
      | (Waits_forever, w) \<Rightarrow> (Waits_forever, w)
      | (Goes_wrong, w) \<Rightarrow> (Goes_wrong, w))"

definition PTHREAD_KEYS_MAX :: nat where
  "PTHREAD_KEYS_MAX = 1024"

definition ENOMEM :: int where
  "ENOMEM = 12"

definition MAIN_THREAD_NAME :: string where
  "MAIN_THREAD_NAME = ''__MainThread__''"

text \<open>No key yet, no data and no object. Thread 1 of the operating system runs the program; \<open>tw_alive\<close> is only observed.\<close>

definition tw_start :: threads_world where
  "tw_start =
     \<lparr>tw_key = PTHREAD_KEYS_MAX, tw_key_held = False, tw_data = (\<lambda>_. None),
      tw_objects = (\<lambda>_. None),
      tw_alive = {1}\<rparr>"

section \<open>Thread-specific data\<close>

text \<open>\<open>created\<close>: the result of \<open>pthread_key_create\<close>. The exceptions leave the mutex of the key locked.\<close>

definition init_thread_key :: "int + nat \<Rightarrow> threads_world \<Rightarrow> unit call_outcome \<times> threads_world" where
  "init_thread_key created w =
     (if tw_key_held w then (Waits_forever, w)
      else if tw_key w = PTHREAD_KEYS_MAX
      then case created of
             Inl err \<Rightarrow> (Throws (if err = ENOMEM then Key_no_memory else Key_not_created), w\<lparr>tw_key_held := True\<rparr>)
           | Inr key \<Rightarrow> (Returns (), w\<lparr>tw_key := key\<rparr>)
      else (Returns (), w))"

text \<open>\<open>err\<close>: the result of \<open>pthread_setspecific\<close>; \<open>self\<close>: the thread that calls.\<close>

definition set_tsd_thread_instance :: "nat \<Rightarrow> nat \<Rightarrow> int \<Rightarrow> threads_world \<Rightarrow> unit call_outcome \<times> threads_world" where
  "set_tsd_thread_instance self a err w =
     (if err \<noteq> 0 then (Throws (if err = ENOMEM then Data_no_memory else Data_not_set), w)
      else (Returns (), w\<lparr>tw_data := (tw_data w)(self := Some a)\<rparr>))"

text \<open>The constructors; \<open>a\<close>: the address that \<open>new\<close> gives.\<close>

definition Thread_construct :: "int + nat \<Rightarrow> string \<Rightarrow> nat \<Rightarrow> threads_world \<Rightarrow> nat call_outcome \<times> threads_world" where
  "Thread_construct created name a w =
     then_call (init_thread_key created w) (\<lambda>_ w.
       (Returns a, w\<lparr>tw_objects := (tw_objects w)(a \<mapsto>
          \<lparr>to_name = name, to_id = 0, to_started = False, to_delete_on_exit = False, to_listeners = []\<rparr>)\<rparr>))"

definition Thread_wrap :: "int + nat \<Rightarrow> string \<Rightarrow> nat \<Rightarrow> nat \<Rightarrow> threads_world \<Rightarrow> nat call_outcome \<times> threads_world" where
  "Thread_wrap created name p a w =
     then_call (Thread_construct created name a w) (\<lambda>a w.
       (Returns a, w\<lparr>tw_objects := (tw_objects w)(a := map_option (\<lambda>ob. ob\<lparr>to_id := p\<rparr>) (tw_objects w a))\<rparr>))"

definition Thread_delete :: "nat \<Rightarrow> threads_world \<Rightarrow> threads_world" where
  "Thread_delete a w = w\<lparr>tw_objects := (tw_objects w)(a := None)\<rparr>"

section \<open>The main thread and the current thread\<close>

definition init_main :: "nat \<Rightarrow> int + nat \<Rightarrow> nat \<Rightarrow> int \<Rightarrow> threads_world \<Rightarrow> unit call_outcome \<times> threads_world" where
  "init_main self created a err w =
     then_call (init_thread_key created w) (\<lambda>_ w.
       then_call (Thread_wrap created MAIN_THREAD_NAME self a w) (\<lambda>a w.
         set_tsd_thread_instance self a err w))"

definition current_thread :: "nat \<Rightarrow> threads_world \<Rightarrow> nat option call_outcome" where
  "current_thread self w =
     (if tw_key w = PTHREAD_KEYS_MAX then Throws No_thread_initialized else Returns (tw_data w self))"

definition current_thread_noexc :: "nat \<Rightarrow> threads_world \<Rightarrow> nat option" where
  "current_thread_noexc self w = (if tw_key w = PTHREAD_KEYS_MAX then None else tw_data w self)"

definition destroy_main :: "nat \<Rightarrow> threads_world \<Rightarrow> unit call_outcome \<times> threads_world" where
  "destroy_main self w =
     then_call (current_thread self w, w) (\<lambda>t w.
       case Option.bind t (\<lambda>a. map_option (Pair a) (tw_objects w a)) of
         None \<Rightarrow> (Goes_wrong, w)
       | Some (a, ob) \<Rightarrow>
           if to_name ob = MAIN_THREAD_NAME then (Returns (), Thread_delete a w)
           else (Throws Not_in_main_thread, w))"

text \<open>Two objects are equal when they stand for the same thread of the operating system.\<close>

definition Thread_eq :: "thread_obj \<Rightarrow> thread_obj \<Rightarrow> bool" where
  "Thread_eq t u \<longleftrightarrow> to_id t = to_id u"

section \<open>The cancel state\<close>

datatype cancel_state =
    CANCEL_ENABLED
  | CANCEL_DISABLED

text \<open>
  \<open>disabled\<close>: the cancel state that the operating system keeps for the thread. The result is the new one,
  and what is stored in the old state if the caller wants it.
\<close>

definition set_cancel_state :: "cancel_state \<Rightarrow> bool \<Rightarrow> bool \<Rightarrow> bool \<times> cancel_state option" where
  "set_cancel_state new_state wants_old disabled =
     (new_state = CANCEL_DISABLED,
      if wants_old then Some (if disabled then CANCEL_DISABLED else CANCEL_ENABLED) else None)"

section \<open>Listeners\<close>

text \<open>
  A listener answers that it stays registered or not. One that adds or removes a listener of the
  same thread instead waits for the lock of the list, which its caller holds.
\<close>

datatype listener_answer =
    Stays
  | Leaves
  | Changes_list

definition add_notification_listener :: "nat \<Rightarrow> thread_obj \<Rightarrow> thread_obj" where
  "add_notification_listener l t = t\<lparr>to_listeners := to_listeners t @ [l]\<rparr>"

definition remove_notification_listener :: "nat \<Rightarrow> thread_obj \<Rightarrow> thread_obj" where
  "remove_notification_listener l t = t\<lparr>to_listeners := removeAll l (to_listeners t)\<rparr>"

text \<open>The loop over the list: \<open>before\<close> is what is in front of the iterator, \<open>s\<close> what the listeners keep.\<close>

fun notify_loop ::
  "(nat \<Rightarrow> 's \<Rightarrow> listener_answer \<times> 's) \<Rightarrow> nat list \<Rightarrow> nat list \<Rightarrow> 's \<Rightarrow> (nat list \<times> 's) option"
where
  "notify_loop call before [] s = Some (before, s)"
| "notify_loop call before (l # ls) s =
     (case call l s of
        (Stays, s) \<Rightarrow> notify_loop call (before @ [l]) ls s
      | (Leaves, s) \<Rightarrow> notify_loop call before ls s
      | (Changes_list, s) \<Rightarrow> None)"

definition notify_of_startup ::
  "(nat \<Rightarrow> 's \<Rightarrow> listener_answer \<times> 's) \<Rightarrow> thread_obj \<Rightarrow> 's \<Rightarrow> (thread_obj \<times> 's) option"
where
  "notify_of_startup started t s =
     map_option (\<lambda>(ls, s). (t\<lparr>to_listeners := ls\<rparr>, s)) (notify_loop started [] (to_listeners t) s)"

definition notify_of_failed_init ::
  "(nat \<Rightarrow> 's \<Rightarrow> listener_answer \<times> 's) \<Rightarrow> thread_obj \<Rightarrow> 's \<Rightarrow> (thread_obj \<times> 's) option"
where
  "notify_of_failed_init init_failed t s =
     map_option (\<lambda>(ls, s). (t\<lparr>to_listeners := ls\<rparr>, s)) (notify_loop init_failed [] (to_listeners t) s)"

section \<open>Start and end of a thread\<close>

text \<open>
  \<open>start\<close> when the system gives a thread: \<open>p\<close> is the new one, which has no data yet; \<open>entry\<close> in it up to the
  call of the listeners, and its end, after which the data are gone; \<open>join\<close> for a thread that has ended.
\<close>

definition start_thread :: "nat \<Rightarrow> nat \<Rightarrow> threads_world \<Rightarrow> unit call_outcome \<times> threads_world" where
  "start_thread a p w =
     (case tw_objects w a of
        None \<Rightarrow> (Goes_wrong, w)
      | Some ob \<Rightarrow>
          if to_started ob then (Throws Thread_running, w)
          else (Returns (), w\<lparr>tw_objects := (tw_objects w)(a \<mapsto> ob\<lparr>to_started := True, to_id := p\<rparr>),
                              tw_data := (tw_data w)(p := None), tw_alive := insert p (tw_alive w)\<rparr>))"

definition entry_begin ::
  "(nat \<Rightarrow> 's \<Rightarrow> listener_answer \<times> 's) \<Rightarrow> nat \<Rightarrow> nat \<Rightarrow> int \<Rightarrow> 's \<Rightarrow> threads_world \<Rightarrow> 's call_outcome \<times> threads_world"
where
  "entry_begin started p a err s w =
     (case set_tsd_thread_instance p a err w of
        (Returns _, w) \<Rightarrow>
          (case tw_objects w a of
             None \<Rightarrow> (Goes_wrong, w)
           | Some ob \<Rightarrow>
               (case notify_of_startup started ob s of
                  None \<Rightarrow> (Waits_forever, w)
                | Some (ob, s) \<Rightarrow> (Returns s, w\<lparr>tw_objects := (tw_objects w)(a \<mapsto> ob)\<rparr>)))
      | (_, w) \<Rightarrow> (Goes_wrong, w))"

definition set_started :: "bool \<Rightarrow> nat \<Rightarrow> threads_world \<Rightarrow> threads_world" where
  "set_started b a w =
     w\<lparr>tw_objects := (tw_objects w)(a := map_option (\<lambda>ob. ob\<lparr>to_started := b\<rparr>) (tw_objects w a))\<rparr>"

definition entry_end :: "nat \<Rightarrow> nat \<Rightarrow> bool \<Rightarrow> threads_world \<Rightarrow> threads_world" where
  "entry_end p a detached w =
     (let w = (if detached then set_started False a w else w)
      in w\<lparr>tw_data := (tw_data w)(p := None), tw_alive := tw_alive w - {p}\<rparr>)"

text \<open>
  A thread that ends itself: by \<open>exit\<close>, or by the \<open>loop\<close> that is used when a class has none of its own.
  Both delete the object first when that has been asked for, and \<open>exit\<close> then writes to it.
  \<open>thread_ends\<close>: \<open>pthread_exit\<close>, and the end of a thread that has been cancelled.
\<close>

definition Thread_set_delete_on_exit :: "bool \<Rightarrow> thread_obj \<Rightarrow> thread_obj" where
  "Thread_set_delete_on_exit del ob = ob\<lparr>to_delete_on_exit := del\<rparr>"

definition exit_begin :: "nat \<Rightarrow> threads_world \<Rightarrow> unit call_outcome \<times> threads_world" where
  "exit_begin a w =
     (case tw_objects w a of
        None \<Rightarrow> (Goes_wrong, w)
      | Some ob \<Rightarrow> (Returns (), if to_delete_on_exit ob then Thread_delete a w else w))"

definition thread_ends :: "nat \<Rightarrow> threads_world \<Rightarrow> threads_world" where
  "thread_ends p w = w\<lparr>tw_data := (tw_data w)(p := None), tw_alive := tw_alive w - {p}\<rparr>"

definition Thread_exit :: "nat \<Rightarrow> nat \<Rightarrow> threads_world \<Rightarrow> unit call_outcome \<times> threads_world" where
  "Thread_exit p a w =
     then_call (exit_begin a w) (\<lambda>_ w.
       if tw_objects w a = None then (Goes_wrong, w) else (Returns (), thread_ends p w))"

definition default_loop :: "nat \<Rightarrow> nat \<Rightarrow> threads_world \<Rightarrow> unit call_outcome \<times> threads_world" where
  "default_loop p a w = then_call (exit_begin a w) (\<lambda>_ w. (Returns (), thread_ends p w))"

section \<open>Interleavings\<close>

text \<open>
  The calls of the threads that run, in any order and with any errors of the operating system: anybody may
  delete or start any object at any time, also one whose thread runs. A new object is made at an address
  where there is none, a new thread has a number that no running thread has. What the listeners keep is a number here.
  The event of a step says which object it deletes, or which one it starts in which thread, or which
  thread begins with an object that has been deleted or started again meanwhile.
\<close>

datatype tw_event =
    Deletes nat
  | Starts nat nat
  | Begins_late nat
  | Other_call

inductive tw_step :: "tw_event \<Rightarrow> threads_world \<Rightarrow> threads_world \<Rightarrow> bool" where
  construct: "tw_objects w a = None \<Longrightarrow> tw_step Other_call w (snd (Thread_construct created name a w))"
| init_main: "self \<in> tw_alive w \<Longrightarrow> tw_objects w a = None \<Longrightarrow>
    tw_step Other_call w (snd (init_main self created a err w))"
| delete: "tw_step (Deletes a) w (Thread_delete a w)"
| main_destroyed: "self \<in> tw_alive w \<Longrightarrow> destroy_main self w = (Returns (), w') \<Longrightarrow> tw_data w self = Some a \<Longrightarrow>
    tw_step (Deletes a) w w'"
| main_not_destroyed: "self \<in> tw_alive w \<Longrightarrow> destroy_main self w = (r, w') \<Longrightarrow> r \<noteq> Returns () \<Longrightarrow>
    tw_step Other_call w w'"
| start: "p \<notin> tw_alive w \<Longrightarrow> p \<noteq> 0 \<Longrightarrow> start_thread a p w = (Returns (), w') \<Longrightarrow> tw_step (Starts a p) w w'"
| not_started: "start_thread a p w = (r, w') \<Longrightarrow> r \<noteq> Returns () \<Longrightarrow> tw_step Other_call w w'"
| entry_begin: "p \<in> tw_alive w \<Longrightarrow> tw_objects w a = Some ob \<Longrightarrow> to_id ob = p \<Longrightarrow>
    tw_step Other_call w (snd (entry_begin (started :: nat \<Rightarrow> nat \<Rightarrow> listener_answer \<times> nat) p a err s w))"
| entry_late: "p \<in> tw_alive w \<Longrightarrow> (\<And>ob. tw_objects w a = Some ob \<Longrightarrow> to_id ob \<noteq> p) \<Longrightarrow>
    tw_step (Begins_late p) w (snd (entry_begin (started :: nat \<Rightarrow> nat \<Rightarrow> listener_answer \<times> nat) p a err s w))"
| entry_end: "p \<in> tw_alive w \<Longrightarrow> tw_data w p = Some a \<Longrightarrow> tw_step Other_call w (entry_end p a detached w)"
| exit_deletes: "p \<in> tw_alive w \<Longrightarrow> tw_objects w a = Some ob \<Longrightarrow> to_delete_on_exit ob \<Longrightarrow>
    tw_step (Deletes a) w (snd (exit_begin a w))"
| ends: "p \<in> tw_alive w \<Longrightarrow> tw_step Other_call w (thread_ends p w)"
| join: "tw_objects w a = Some ob \<Longrightarrow> to_id ob \<notin> tw_alive w \<Longrightarrow> tw_step Other_call w (set_started False a w)"
| deletion: "tw_objects w a = Some ob \<Longrightarrow>
    tw_step Other_call w (w\<lparr>tw_objects := (tw_objects w)(a \<mapsto> Thread_set_delete_on_exit del ob)\<rparr>)"
| listen: "tw_objects w a = Some ob \<Longrightarrow>
    tw_step Other_call w (w\<lparr>tw_objects := (tw_objects w)(a \<mapsto> add_notification_listener l ob)\<rparr>)"
| ignore: "tw_objects w a = Some ob \<Longrightarrow>
    tw_step Other_call w (w\<lparr>tw_objects := (tw_objects w)(a \<mapsto> remove_notification_listener l ob)\<rparr>)"

text \<open>
  The threads that have lost their object: it has been deleted, or started again, while they had it for their
  current one. A thread is new when it is started.
\<close>

fun lost :: "tw_event \<Rightarrow> threads_world \<Rightarrow> nat set \<Rightarrow> nat set" where
  "lost (Deletes a) w L = L \<union> {q. tw_data w q = Some a}"
| "lost (Starts a p) w L = (L \<union> {q. tw_data w q = Some a}) - {p}"
| "lost (Begins_late p) w L = insert p L"
| "lost Other_call w L = L"

inductive tw_reach :: "threads_world \<Rightarrow> nat set \<Rightarrow> bool" where
  reach_start: "tw_reach tw_start {}"
| reach_step: "tw_reach w L \<Longrightarrow> tw_step e w w' \<Longrightarrow> tw_reach w' (lost e w L)"

inductive tw_runs :: "threads_world \<Rightarrow> threads_world \<Rightarrow> bool" where
  runs_none: "tw_runs w w"
| runs_step: "tw_runs w w1 \<Longrightarrow> tw_step e w1 w2 \<Longrightarrow> tw_runs w w2"

section \<open>The data of a thread\<close>

text \<open>
  The data of a thread are those of a running thread, and name an existing object that stands for it,
  unless the thread has lost its object.
\<close>

definition data_ok :: "nat set \<Rightarrow> threads_world \<Rightarrow> bool" where
  "data_ok L w \<longleftrightarrow> (\<forall>p a. tw_data w p = Some a \<longrightarrow>
     p \<in> tw_alive w \<and> (p \<notin> L \<longrightarrow> (\<exists>ob. tw_objects w a = Some ob \<and> to_id ob = p)))"

lemma data_okD:
  "data_ok L w \<Longrightarrow> tw_data w p = Some a \<Longrightarrow> p \<in> tw_alive w \<and> (p \<notin> L \<longrightarrow> (\<exists>ob. tw_objects w a = Some ob \<and> to_id ob = p))"
  by (simp add: data_ok_def)

text \<open>What keeps the data, the threads and the number of every object in use keeps this.\<close>

lemma data_ok_objects:
  assumes "data_ok L w" and "tw_data w' = tw_data w" and "tw_alive w' = tw_alive w"
    and "\<And>p a ob. tw_data w p = Some a \<Longrightarrow> p \<notin> L' \<Longrightarrow> tw_objects w a = Some ob \<Longrightarrow>
      \<exists>ob'. tw_objects w' a = Some ob' \<and> to_id ob' = to_id ob"
    and "L \<subseteq> L'"
  shows "data_ok L' w'"
  unfolding data_ok_def
proof (intro allI impI)
  fix p a
  assume d: "tw_data w' p = Some a"
  then have p: "p \<in> tw_alive w" "p \<notin> L \<Longrightarrow> \<exists>ob. tw_objects w a = Some ob \<and> to_id ob = p"
    using assms(1,2) data_okD by metis+
  have "\<exists>ob. tw_objects w' a = Some ob \<and> to_id ob = p" if "p \<notin> L'"
    using that p(2) assms(2,4,5) d by (metis subsetD)
  then show "p \<in> tw_alive w' \<and> (p \<notin> L' \<longrightarrow> (\<exists>ob. tw_objects w' a = Some ob \<and> to_id ob = p))"
    using assms(3) p(1) by simp
qed

lemma then_call_sel:
  "snd (then_call r f) = (case fst r of Returns x \<Rightarrow> snd (f x (snd r)) | _ \<Rightarrow> snd r)"
  "fst (then_call r f) = (case fst r of Returns x \<Rightarrow> fst (f x (snd r)) | Throws e \<Rightarrow> Throws e
     | Waits_forever \<Rightarrow> Waits_forever | Goes_wrong \<Rightarrow> Goes_wrong)"
  by (cases r; cases "fst r"; simp add: then_call_def)+

lemma init_thread_key_world:
  "tw_data (snd (init_thread_key created w)) = tw_data w" "tw_alive (snd (init_thread_key created w)) = tw_alive w"
  "tw_objects (snd (init_thread_key created w)) = tw_objects w"
  by (auto simp: init_thread_key_def split: sum.split)

lemma Thread_construct_world:
  "tw_data (snd (Thread_construct created name a w)) = tw_data w"
  "tw_alive (snd (Thread_construct created name a w)) = tw_alive w"
  "b \<noteq> a \<Longrightarrow> tw_objects (snd (Thread_construct created name a w)) b = tw_objects w b"
  "fst (Thread_construct created name a w) = Returns c \<Longrightarrow> c = a \<and>
     tw_objects (snd (Thread_construct created name a w)) a =
       Some \<lparr>to_name = name, to_id = 0, to_started = False, to_delete_on_exit = False, to_listeners = []\<rparr>"
  unfolding Thread_construct_def then_call_sel
  by (cases "fst (init_thread_key created w)"; simp add: init_thread_key_world)+

lemma Thread_wrap_world:
  "tw_data (snd (Thread_wrap created name p a w)) = tw_data w"
  "tw_alive (snd (Thread_wrap created name p a w)) = tw_alive w"
  "b \<noteq> a \<Longrightarrow> tw_objects (snd (Thread_wrap created name p a w)) b = tw_objects w b"
  "fst (Thread_wrap created name p a w) = Returns c \<Longrightarrow> c = a \<and>
     (\<exists>ob. tw_objects (snd (Thread_wrap created name p a w)) a = Some ob \<and> to_id ob = p)"
  unfolding Thread_wrap_def then_call_sel
  using Thread_construct_world [where created = created and name = name and a = a and w = w]
  by (cases "fst (Thread_construct created name a w)"; simp)+

lemma data_ok_construct:
  assumes "data_ok L w" and "tw_objects w a = None"
  shows "data_ok L (snd (Thread_construct created name a w))"
proof (rule data_ok_objects [OF assms(1)])
  fix b ob
  assume "tw_objects w b = Some ob"
  then show "\<exists>ob'. tw_objects (snd (Thread_construct created name a w)) b = Some ob' \<and> to_id ob' = to_id ob"
    using assms(2) Thread_construct_world(3) [of b a] by (cases "b = a") simp_all
qed (simp_all add: Thread_construct_world)

lemma data_ok_wrap:
  assumes "data_ok L w" and "tw_objects w a = None"
  shows "data_ok L (snd (Thread_wrap created name p a w))"
proof (rule data_ok_objects [OF assms(1)])
  fix b ob
  assume "tw_objects w b = Some ob"
  then show "\<exists>ob'. tw_objects (snd (Thread_wrap created name p a w)) b = Some ob' \<and> to_id ob' = to_id ob"
    using assms(2) Thread_wrap_world(3) [of b a] by (cases "b = a") simp_all
qed (simp_all add: Thread_wrap_world)

lemma data_ok_key: "data_ok L w \<Longrightarrow> data_ok L (snd (init_thread_key created w))"
  by (rule data_ok_objects) (auto simp: init_thread_key_world)

lemma data_ok_set_tsd:
  assumes "data_ok L w" and "p \<in> tw_alive w" and "tw_objects w a = Some ob" and "to_id ob = p"
  shows "data_ok L (snd (set_tsd_thread_instance p a err w))"
  using assms by (auto simp: data_ok_def set_tsd_thread_instance_def)

lemma data_ok_init_main:
  assumes "data_ok L w" and "self \<in> tw_alive w" and "tw_objects w a = None"
  shows "data_ok L (snd (init_main self created a err w))"
proof -
  define w1 where "w1 = snd (init_thread_key created w)"
  define r where "r = Thread_wrap created MAIN_THREAD_NAME self a w1"
  have w1: "data_ok L w1" "tw_objects w1 a = None" "tw_alive w1 = tw_alive w"
    using assms data_ok_key by (simp_all add: w1_def init_thread_key_world)
  have r: "data_ok L (snd r)" using data_ok_wrap w1(1,2) by (simp add: r_def)
  have "data_ok L (snd (then_call r (\<lambda>a w. set_tsd_thread_instance self a err w)))"
  proof (cases "fst r")
    case (Returns c)
    then have "c = a" "\<exists>ob. tw_objects (snd r) a = Some ob \<and> to_id ob = self" "tw_alive (snd r) = tw_alive w"
      using Thread_wrap_world w1(3) by (auto simp: r_def)
    then show ?thesis using Returns r assms(2) data_ok_set_tsd by (auto simp: then_call_sel)
  qed (simp_all add: then_call_sel r)
  then show ?thesis
    using w1(1) by (simp add: init_main_def then_call_sel [of "init_thread_key created w"] w1_def r_def split: call_outcome.split)
qed

lemma data_ok_deleted:
  "data_ok L w \<Longrightarrow> data_ok (lost (Deletes a) w L) (Thread_delete a w)"
  by (rule data_ok_objects) (auto simp: Thread_delete_def)

lemma start_thread_returns:
  assumes "start_thread a p w = (Returns (), w')"
  obtains ob where "tw_objects w a = Some ob"
    "w' = w\<lparr>tw_objects := (tw_objects w)(a \<mapsto> ob\<lparr>to_started := True, to_id := p\<rparr>),
            tw_data := (tw_data w)(p := None), tw_alive := insert p (tw_alive w)\<rparr>"
  using assms by (auto simp: start_thread_def split: option.splits if_splits)

lemma data_ok_start:
  assumes "data_ok L w" and "start_thread a p w = (Returns (), w')"
  shows "data_ok (lost (Starts a p) w L) w'"
proof -
  obtain ob where w': "w' = w\<lparr>tw_objects := (tw_objects w)(a \<mapsto> ob\<lparr>to_started := True, to_id := p\<rparr>),
            tw_data := (tw_data w)(p := None), tw_alive := insert p (tw_alive w)\<rparr>"
    using assms(2) by (rule start_thread_returns)
  show ?thesis
    unfolding data_ok_def
  proof (intro allI impI)
    fix q b
    assume "tw_data w' q = Some b"
    then have q: "q \<noteq> p" "tw_data w q = Some b" by (auto simp: w' split: if_splits)
    from data_okD [OF assms(1) q(2)] q
    show "q \<in> tw_alive w' \<and> (q \<notin> lost (Starts a p) w L \<longrightarrow> (\<exists>ob. tw_objects w' b = Some ob \<and> to_id ob = q))"
      by (auto simp: w')
  qed
qed

lemma entry_begin_world:
  "snd (entry_begin started p a err s w) =
     (if err \<noteq> 0 then w
      else w\<lparr>tw_data := (tw_data w)(p := Some a),
             tw_objects := (case tw_objects w a of None \<Rightarrow> tw_objects w
               | Some ob \<Rightarrow> (case notify_of_startup started ob s of None \<Rightarrow> tw_objects w
                   | Some (ob, _) \<Rightarrow> (tw_objects w)(a \<mapsto> ob)))\<rparr>)"
  by (auto simp: entry_begin_def set_tsd_thread_instance_def split: option.split)

lemma notify_keeps_id: "notify_of_startup started ob s = Some (ob', s') \<Longrightarrow> to_id ob' = to_id ob"
  by (auto simp: notify_of_startup_def)

lemma entry_keeps_objects:
  assumes "tw_objects w b = Some ob"
  shows "\<exists>ob'. tw_objects (snd (entry_begin started p a err s w)) b = Some ob' \<and> to_id ob' = to_id ob"
  using assms by (auto simp: entry_begin_world notify_keeps_id split: option.split)

lemma data_ok_entry:
  assumes ok: "data_ok L w" and "p \<in> tw_alive w"
    and own: "p \<notin> L' \<Longrightarrow> \<exists>ob. tw_objects w a = Some ob \<and> to_id ob = p" and "L \<subseteq> L'"
  shows "data_ok L' (snd (entry_begin started p a err s w))"
  unfolding data_ok_def
proof (intro allI impI)
  let ?w = "snd (entry_begin started p a err s w)"
  fix q b
  assume d: "tw_data ?w q = Some b"
  have alive: "tw_alive ?w = tw_alive w" by (simp add: entry_begin_world)
  have "q \<in> tw_alive w \<and> (q \<notin> L' \<longrightarrow> (\<exists>ob. tw_objects w b = Some ob \<and> to_id ob = q))"
  proof (cases "q = p \<and> err = 0")
    case True
    then have "b = a" using d by (simp add: entry_begin_world)
    then show ?thesis using True own assms(2) by auto
  next
    case False
    then have "tw_data w q = Some b" using d by (auto simp: entry_begin_world split: if_splits)
    then show ?thesis using data_okD [OF ok] assms(4) by blast
  qed
  then show "q \<in> tw_alive ?w \<and> (q \<notin> L' \<longrightarrow> (\<exists>ob. tw_objects ?w b = Some ob \<and> to_id ob = q))"
    unfolding alive using entry_keeps_objects by metis
qed

lemma data_ok_set_started: "data_ok L w \<Longrightarrow> data_ok L (set_started b a w)"
  by (rule data_ok_objects) (auto simp: set_started_def)

lemma data_ok_ends: "data_ok L w \<Longrightarrow> data_ok L (thread_ends p w)"
  by (auto simp: data_ok_def thread_ends_def)

lemma entry_end_ends: "entry_end p a detached w = thread_ends p (if detached then set_started False a w else w)"
  by (simp add: entry_end_def thread_ends_def Let_def)

lemma data_ok_listeners: "data_ok L w \<Longrightarrow> tw_objects w a = Some ob \<Longrightarrow> to_id ob' = to_id ob \<Longrightarrow>
    data_ok L (w\<lparr>tw_objects := (tw_objects w)(a \<mapsto> ob')\<rparr>)"
  by (rule data_ok_objects) auto

lemma destroy_main_returns:
  assumes "destroy_main self w = (Returns (), w')"
  obtains a where "tw_key w \<noteq> PTHREAD_KEYS_MAX" "tw_data w self = Some a" "w' = Thread_delete a w"
  using assms
  by (auto simp: destroy_main_def then_call_def current_thread_def bind_eq_Some_conv
      split: if_splits option.splits)

lemma destroy_main_fails: "destroy_main self w = (r, w') \<Longrightarrow> r \<noteq> Returns () \<Longrightarrow> w' = w"
  by (auto simp: destroy_main_def then_call_def current_thread_def split: if_splits option.splits)

lemma start_thread_fails: "start_thread a p w = (r, w') \<Longrightarrow> r \<noteq> Returns () \<Longrightarrow> w' = w"
  by (auto simp: start_thread_def split: if_splits option.splits)

lemma exit_begin_deletes:
  "tw_objects w a = Some ob \<Longrightarrow> to_delete_on_exit ob \<Longrightarrow> exit_begin a w = (Returns (), Thread_delete a w)"
  by (simp add: exit_begin_def)

lemma data_ok_step: "tw_step e w w' \<Longrightarrow> data_ok L w \<Longrightarrow> data_ok (lost e w L) w'"
proof (induction rule: tw_step.induct)
  case (main_destroyed self w w' a)
  from main_destroyed.hyps(2) obtain b where "tw_data w self = Some b" "w' = Thread_delete b w"
    by (rule destroy_main_returns)
  then have "w' = Thread_delete a w" using main_destroyed.hyps(3) by simp
  then show ?case using data_ok_deleted [OF main_destroyed.prems] by simp
next
  case (main_not_destroyed self w r w')
  then show ?case using destroy_main_fails by auto
next
  case (not_started a p w r w')
  then have "w' = w" using start_thread_fails by blast
  with not_started show ?case by simp
next
  case (start p w a w')
  show ?case by (rule data_ok_start [OF start.prems start.hyps(3)])
next
  case (entry_begin p w a ob started err s)
  then show ?case by (simp add: data_ok_entry)
next
  case (entry_late p w a started err s)
  have "data_ok (insert p L) (snd (entry_begin started p a err s w))"
    by (rule data_ok_entry [OF entry_late.prems entry_late.hyps(1)]) auto
  then show ?case by simp
next
  case (entry_end p w a detached)
  then show ?case by (simp add: entry_end_ends data_ok_ends data_ok_set_started)
next
  case (exit_deletes p w a ob)
  then show ?case using data_ok_deleted [of L w a] by (simp add: exit_begin_deletes)
next
  case deletion
  then show ?case by (auto intro: data_ok_listeners simp: Thread_set_delete_on_exit_def)
next
  case listen
  then show ?case by (auto intro: data_ok_listeners simp: add_notification_listener_def)
next
  case ignore
  then show ?case by (auto intro: data_ok_listeners simp: remove_notification_listener_def)
next
  case (delete a w)
  then show ?case using data_ok_deleted [of L w a] by simp
qed (simp_all add: data_ok_construct data_ok_init_main data_ok_ends data_ok_set_started)

lemma data_ok_reach: "tw_reach w L \<Longrightarrow> data_ok L w"
  by (induction rule: tw_reach.induct) (simp add: data_ok_def tw_start_def, rule data_ok_step)

text \<open>Nothing unlocks the mutex of the key.\<close>

lemma key_held_step: "tw_step e w w' \<Longrightarrow> tw_key_held w \<Longrightarrow> tw_key_held w'"
proof (induction rule: tw_step.induct)
  case (main_destroyed self w w' a)
  then show ?case by (auto elim: destroy_main_returns simp: Thread_delete_def)
next
  case (main_not_destroyed self w r w')
  then show ?case using destroy_main_fails by auto
next
  case (start p w a w')
  then show ?case by (auto elim: start_thread_returns)
next
  case (not_started a p w r w')
  then have "w' = w" using start_thread_fails by blast
  with not_started show ?case by simp
qed (auto simp: Thread_construct_def init_main_def init_thread_key_def then_call_def Thread_delete_def exit_begin_def
      entry_begin_world set_started_def entry_end_ends thread_ends_def split: option.split)

lemma key_held_runs: "tw_runs w w' \<Longrightarrow> tw_key_held w \<Longrightarrow> tw_key_held w'"
  by (induction rule: tw_runs.induct) (auto intro: key_held_step)

text \<open>
  C36 The current thread. Let the threads make any calls in any order, whatever the operating system refuses. The
  current thread of a running thread is nothing or an existing object that stands for just this thread, and no
  other thread has it, unless the thread has lost its object: somebody has deleted the object or
  started it again while the thread had it, or before the thread began. The code itself does this in two
  places. When \<open>destroy_main\<close> has returned, the main thread still has the deleted object, and takes any object
  that is constructed at its address for its own. And a thread that ends itself, with an object that is to be deleted
  on exit, has the deleted object until it has ended; \<open>exit\<close> even writes to it. When the
  creation of the key has failed once, every further construction of a thread waits for ever.
\<close>

theorem current_thread_is_own:
  assumes "tw_reach w L"
  shows "(\<forall>self a. self \<notin> L \<and> current_thread self w = Returns (Some a) \<longrightarrow>
       (\<exists>ob. tw_objects w a = Some ob \<and> to_id ob = self)
       \<and> (\<forall>other. other \<notin> L \<and> current_thread other w = Returns (Some a) \<longrightarrow> other = self))
    \<and> (\<forall>self w'. self \<in> tw_alive w \<and> destroy_main self w = (Returns (), w') \<longrightarrow>
       (\<exists>a. current_thread self w' = Returns (Some a) \<and> tw_objects w' a = None
         \<and> tw_reach w' (L \<union> {q. tw_data w q = Some a})
         \<and> (\<forall>created name w2. Thread_construct created name a w' = (Returns a, w2) \<longrightarrow>
              current_thread self w2 = Returns (Some a) \<and> to_id (the (tw_objects w2 a)) = 0)))
    \<and> (\<forall>self a ob. current_thread self w = Returns (Some a) \<and> tw_objects w a = Some ob \<and> to_delete_on_exit ob \<longrightarrow>
         (\<exists>w'. exit_begin a w = (Returns (), w') \<and> current_thread self w' = Returns (Some a) \<and> tw_objects w' a = None)
         \<and> fst (Thread_exit self a w) = Goes_wrong \<and> fst (default_loop self a w) = Returns ())
    \<and> (\<forall>err e w' w2 created name a. init_thread_key (Inl err) w = (Throws e, w') \<longrightarrow> tw_runs w' w2 \<longrightarrow>
         fst (Thread_construct created name a w2) = Waits_forever)"
proof (intro conjI allI impI)
  fix self a
  assume c: "self \<notin> L \<and> current_thread self w = Returns (Some a)"
  then have d: "tw_data w self = Some a" by (simp add: current_thread_def split: if_splits)
  then show own: "\<exists>ob. tw_objects w a = Some ob \<and> to_id ob = self" using c data_okD data_ok_reach [OF assms] by blast
  fix other
  assume o: "other \<notin> L \<and> current_thread other w = Returns (Some a)"
  then have "tw_data w other = Some a" by (simp add: current_thread_def split: if_splits)
  then have "\<exists>ob. tw_objects w a = Some ob \<and> to_id ob = other" using o data_okD data_ok_reach [OF assms] by blast
  then show "other = self" using own by auto
next
  fix self w'
  assume m: "self \<in> tw_alive w \<and> destroy_main self w = (Returns (), w')"
  then obtain a where a: "tw_key w \<noteq> PTHREAD_KEYS_MAX" "tw_data w self = Some a" "w' = Thread_delete a w"
    using destroy_main_returns by blast
  have "current_thread self w2 = Returns (Some a) \<and> to_id (the (tw_objects w2 a)) = 0"
    if "Thread_construct created name a w' = (Returns a, w2)" for created name w2
    using that a
    by (auto simp: Thread_construct_def then_call_def init_thread_key_def Thread_delete_def current_thread_def split: if_splits)
  moreover have "tw_step (Deletes a) w w'" using m a(2) by (auto intro: tw_step.main_destroyed)
  then have "tw_reach w' (L \<union> {q. tw_data w q = Some a})" using tw_reach.reach_step [OF assms] by fastforce
  ultimately show "\<exists>a. current_thread self w' = Returns (Some a) \<and> tw_objects w' a = None
      \<and> tw_reach w' (L \<union> {q. tw_data w q = Some a})
      \<and> (\<forall>created name w2. Thread_construct created name a w' = (Returns a, w2) \<longrightarrow>
           current_thread self w2 = Returns (Some a) \<and> to_id (the (tw_objects w2 a)) = 0)"
    using a by (intro exI [of _ a]) (simp add: current_thread_def Thread_delete_def)
next
  fix self a ob
  assume c: "current_thread self w = Returns (Some a) \<and> tw_objects w a = Some ob \<and> to_delete_on_exit ob"
  then have e: "exit_begin a w = (Returns (), Thread_delete a w)" by (simp add: exit_begin_deletes)
  then show "\<exists>w'. exit_begin a w = (Returns (), w') \<and> current_thread self w' = Returns (Some a) \<and> tw_objects w' a = None"
    using c by (auto simp: current_thread_def Thread_delete_def)
  show "fst (Thread_exit self a w) = Goes_wrong" "fst (default_loop self a w) = Returns ()"
    using e by (simp_all add: Thread_exit_def default_loop_def then_call_def Thread_delete_def)
next
  fix err e w' w2 created name a
  assume "init_thread_key (Inl err) w = (Throws e, w')" and "tw_runs w' w2"
  then have "tw_key_held w2" using key_held_runs by (auto simp: init_thread_key_def split: if_splits)
  then show "fst (Thread_construct created name a w2) = Waits_forever"
    by (simp add: Thread_construct_def then_call_def init_thread_key_def)
qed

section \<open>Listeners are told once\<close>

text \<open>What the listeners answer when they are called in order, each once.\<close>

fun answers :: "(nat \<Rightarrow> 's \<Rightarrow> listener_answer \<times> 's) \<Rightarrow> nat list \<Rightarrow> 's \<Rightarrow> listener_answer list \<times> 's" where
  "answers call [] s = ([], s)"
| "answers call (l # ls) s = (let (r, s) = call l s; (rs, s) = answers call ls s in (r # rs, s))"

lemma notify_loop_answers:
  "notify_loop call before ls s =
     (case answers call ls s of (rs, s') \<Rightarrow>
        if Changes_list \<in> set rs then None else Some (before @ map fst (filter (\<lambda>(l, r). r = Stays) (zip ls rs)), s'))"
proof (induction ls arbitrary: before s)
  case (Cons l ls)
  obtain r s1 where c: "call l s = (r, s1)" by (cases "call l s")
  obtain rs s2 where a: "answers call ls s1 = (rs, s2)" by (cases "answers call ls s1")
  show ?case by (cases r) (simp_all add: c a Cons.IH)
qed simp

text \<open>
  Both notifications call every listener of the list once, in the order of registration, and keep just those
  that want to stay, in this order; they return unless a listener changes the list it is called from.
\<close>

theorem listeners_are_told_once:
  "answers call (to_listeners t) s = (rs, s') \<Longrightarrow>
     notify_of_startup call t s =
       (if Changes_list \<in> set rs then None
        else Some (t\<lparr>to_listeners := map fst (filter (\<lambda>(l, r). r = Stays) (zip (to_listeners t) rs))\<rparr>, s'))
     \<and> notify_of_failed_init call t s = notify_of_startup call t s"
  by (simp add: notify_of_startup_def notify_of_failed_init_def notify_loop_answers)

section \<open>Examples\<close>

text \<open>The main thread with its object at address 3, and a thread 7 with the object 4 and two listeners.\<close>

definition demo_main :: threads_world where
  "demo_main = snd (init_main 1 (Inr 0) 3 0 tw_start)"

lemmas demo_defs = init_main_def init_thread_key_def Thread_wrap_def Thread_construct_def then_call_def
  set_tsd_thread_instance_def MAIN_THREAD_NAME_def PTHREAD_KEYS_MAX_def

lemma demo_main_is:
  "demo_main = \<lparr>tw_key = 0, tw_key_held = False, tw_data = [1 \<mapsto> 3],
     tw_objects = [3 \<mapsto> \<lparr>to_name = ''__MainThread__'', to_id = 1, to_started = False, to_delete_on_exit = False, to_listeners = []\<rparr>], tw_alive = {1}\<rparr>"
  by (simp add: demo_main_def tw_start_def demo_defs)

definition demo_object :: thread_obj where
  "demo_object = \<lparr>to_name = ''worker'', to_id = 7, to_started = True, to_delete_on_exit = False, to_listeners = [8, 9]\<rparr>"

definition demo_answers :: "nat \<Rightarrow> nat \<Rightarrow> listener_answer \<times> nat" where
  "demo_answers l n = (if l = 9 then Leaves else Stays, n + 1)"

definition demo_threads :: threads_world where
  "demo_threads =
     (let w = snd (Thread_construct (Inl 11) ''worker'' 4 demo_main);
          w = snd (start_thread 4 7 w)
      in snd (entry_begin demo_answers 7 4 0 0 w))"

lemma demo_threads_is:
  "tw_key demo_threads = 0" "tw_data demo_threads = [1 \<mapsto> 3, 7 \<mapsto> 4]"
  "tw_objects demo_threads 3 = tw_objects demo_main 3"
  by (simp_all add: demo_threads_def demo_main_is start_thread_def entry_begin_def notify_of_startup_def Let_def demo_defs
      fun_upd_twist)

lemma demo_threads_reached: "tw_reach demo_threads {}"
proof -
  define w1 where "w1 = snd (Thread_construct (Inl 11) ''worker'' 4 demo_main)"
  define w2 where "w2 = snd (start_thread 4 7 w1)"
  have "tw_step Other_call tw_start demo_main"
    using tw_step.init_main [of 1 tw_start 3 "Inr 0" 0] by (simp add: demo_main_def tw_start_def)
  from tw_reach.reach_step [OF tw_reach.reach_start this] have 0: "tw_reach demo_main {}" by simp
  have "tw_step Other_call demo_main w1"
    unfolding w1_def by (rule tw_step.construct) (simp add: demo_main_is)
  from tw_reach.reach_step [OF 0 this] have 1: "tw_reach w1 {}" by simp
  have "tw_step (Starts 4 7) w1 w2"
    by (rule tw_step.start) (simp_all add: w1_def w2_def demo_main_is demo_defs start_thread_def)
  moreover have "{q. tw_data w1 q = Some 4} = {}"
    by (auto simp: w1_def demo_main_is demo_defs split: if_splits)
  ultimately have 2: "tw_reach w2 {}" using tw_reach.reach_step [OF 1] by fastforce
  have "tw_step Other_call w2 demo_threads"
    unfolding demo_threads_def Let_def w1_def [symmetric] w2_def [symmetric]
    by (rule tw_step.entry_begin [where ob = "demo_object\<lparr>to_listeners := []\<rparr>"])
      (simp_all add: w1_def w2_def demo_main_is start_thread_def demo_defs demo_object_def)
  from tw_reach.reach_step [OF 2 this] show ?thesis by simp
qed

theorem current_thread_is_own_witness:
  "current_thread 7 demo_threads = Returns (Some 4) \<and> (\<exists>ob. tw_objects demo_threads 4 = Some ob \<and> to_id ob = 7)
    \<and> fst (destroy_main 1 demo_threads) = Returns ()
    \<and> (\<exists>a. current_thread 1 (snd (destroy_main 1 demo_threads)) = Returns (Some a)
         \<and> tw_objects (snd (destroy_main 1 demo_threads)) a = None
         \<and> tw_reach (snd (destroy_main 1 demo_threads)) {q. tw_data demo_threads q = Some a})"
proof -
  have c: "current_thread 7 demo_threads = Returns (Some 4)" by (simp add: current_thread_def demo_threads_is PTHREAD_KEYS_MAX_def)
  have d: "fst (destroy_main 1 demo_threads) = Returns ()"
    by (simp add: destroy_main_def then_call_def current_thread_def demo_threads_is demo_main_is PTHREAD_KEYS_MAX_def MAIN_THREAD_NAME_def)
  have alive: "1 \<in> tw_alive demo_threads"
    by (simp add: demo_threads_def demo_main_is start_thread_def entry_begin_def notify_of_startup_def Let_def demo_defs)
  note t = current_thread_is_own [OF demo_threads_reached, unfolded empty_iff Un_empty_left not_False_eq_True simp_thms]
  have "\<exists>ob. tw_objects demo_threads 4 = Some ob \<and> to_id ob = 7" using t c by blast
  moreover have "destroy_main 1 demo_threads = (Returns (), snd (destroy_main 1 demo_threads))" using d by (simp add: prod_eq_iff)
  ultimately show ?thesis using t c d alive by blast
qed

theorem listeners_are_told_once_witness:
  "notify_of_startup demo_answers demo_object 0 = Some (demo_object\<lparr>to_listeners := [8]\<rparr>, 2)"
  using listeners_are_told_once [of demo_answers demo_object 0 "[Stays, Leaves]" 2]
  by (simp add: demo_object_def demo_answers_def)

end
