(* ===== verification/ExceptionTexts.thy ===== *)
theory ExceptionTexts
  imports Exceptions Prelude
begin

text \<open>
  \<open>libs/core/exceptions/system.cpp\<close>, \<open>libs/core/exceptions/software.cpp\<close> and \<open>libs/config/config.cpp\<close>: the
  exceptions with texts of their own, as the message that the constructor puts into the list of
  \<open>Exceptions\<close>. The other classes of these files take a format and its arguments and only pass them on.
\<close>

section \<open>Numbers in a text\<close>

text \<open>
  \<open>%f\<close> and \<open>%.0f\<close> of a finite number other than the negative zero: six decimals, or none, of the nearest
  decimal number, the even one of two.
\<close>

definition round_even :: "rat \<Rightarrow> int" where
  "round_even x =
     (let k = \<lfloor>x\<rfloor>; d = x - of_int k
      in if d < 1/2 then k else if 1/2 < d then k + 1 else if even k then k else k + 1)"

definition pad_six :: "string \<Rightarrow> string" where
  "pad_six s = replicate (6 - length s) (CHR ''0'') @ s"

definition fixed_text :: "rat \<Rightarrow> string" where
  "fixed_text x =
     (let n = nat (round_even (\<bar>x\<bar> * 1000000))
      in (if x < 0 then ''-'' else '''') @ dec_str (n div 1000000) @ ''.'' @ pad_six (dec_str (n mod 1000000)))"

definition whole_text :: "rat \<Rightarrow> string" where
  "whole_text x = (if x < 0 then ''-'' else '''') @ dec_str (nat (round_even \<bar>x\<bar>))"

text \<open>\<open>roundf(x) == x\<close>.\<close>

definition is_whole :: "rat \<Rightarrow> bool" where
  "is_whole x \<longleftrightarrow> of_int \<lfloor>x\<rfloor> = x"

section \<open>Texts\<close>

definition in_quotes :: "string \<Rightarrow> string" where
  "in_quotes s = CHR 0x27 # s @ [CHR 0x27]"

text \<open>\<open>err_name\<close>: what \<open>strerror\<close> says of the number.\<close>

definition errno_text :: "(int \<Rightarrow> string) \<Rightarrow> string \<Rightarrow> int \<Rightarrow> string" where
  "errno_text err_name s n = s @ '' (errno: '' @ int_str n @ '', '' @ err_name n @ '')''"

definition file_text :: "string \<Rightarrow> string \<Rightarrow> string option \<Rightarrow> string" where
  "file_text what name additional =
     what @ in_quotes name @ '' '' @ (case additional of None \<Rightarrow> '''' | Some m \<Rightarrow> ''('' @ m @ '')'')"

definition CouldNotOpenFile_text :: "string \<Rightarrow> string option \<Rightarrow> string" where
  "CouldNotOpenFile_text name additional = file_text ''Could not open file '' name additional"

definition CouldNotOpenFile_errno_text :: "(int \<Rightarrow> string) \<Rightarrow> string \<Rightarrow> int \<Rightarrow> string option \<Rightarrow> string" where
  "CouldNotOpenFile_errno_text err_name name n additional =
     errno_text err_name (file_text ''Could not open file '' name additional) n"

definition FileRead_text :: "string \<Rightarrow> string option \<Rightarrow> string" where
  "FileRead_text name additional = file_text ''Could not read from file '' name additional"

definition FileRead_errno_text :: "(int \<Rightarrow> string) \<Rightarrow> string \<Rightarrow> int \<Rightarrow> string option \<Rightarrow> string" where
  "FileRead_errno_text err_name name n additional =
     errno_text err_name (file_text ''Could not read from file '' name additional) n"

definition FileWrite_text :: "string \<Rightarrow> string option \<Rightarrow> string" where
  "FileWrite_text name additional = file_text ''Could not write to file '' name additional"

definition FileWrite_errno_text :: "(int \<Rightarrow> string) \<Rightarrow> string \<Rightarrow> int \<Rightarrow> string option \<Rightarrow> string" where
  "FileWrite_errno_text err_name name n additional =
     errno_text err_name (file_text ''Could not write to file '' name additional) n"

definition OutOfBounds_text :: "string \<Rightarrow> string" where
  "OutOfBounds_text msg = ''Out Of Bounds: '' @ msg"

definition OutOfBounds_range_text :: "string \<Rightarrow> rat \<Rightarrow> rat \<Rightarrow> rat \<Rightarrow> string" where
  "OutOfBounds_range_text msg val mn mx =
     (let num = (if is_whole val \<and> is_whole mn \<and> is_whole mx then whole_text else fixed_text)
      in ''Out Of Bounds ('' @ msg @ ''):  min: '' @ num mn @ ''  max: '' @ num mx @ ''  val: '' @ num val)"

definition Configuration_prefix_text :: "string \<Rightarrow> string \<Rightarrow> string" where
  "Configuration_prefix_text pre msg = pre @ '': '' @ msg"

definition ConfigEntryNotFound_text :: "string \<Rightarrow> string" where
  "ConfigEntryNotFound_text path = ''Config value for '' @ in_quotes path @ '' not found''"

definition ConfigTypeMismatch_text :: "string \<Rightarrow> string \<Rightarrow> string \<Rightarrow> string" where
  "ConfigTypeMismatch_text path actual requested =
     ''Config value for '' @ in_quotes path @ '' is not of type '' @ in_quotes requested @ '', but of type '' @ in_quotes actual"

text \<open>The message of a \<open>ConfigurationException\<close> is itself used as the format; \<open>None\<close> where this reads an argument.\<close>

definition Configuration_text :: "string \<Rightarrow> string option" where
  "Configuration_text msg = format_plain msg"

definition OutOfMemory_text :: string where
  "OutOfMemory_text = ''Out of memory''"

definition Interrupted_text :: string where
  "Interrupted_text = ''Interrupted system call''"

definition Timeout_text :: string where
  "Timeout_text = ''Timeout reached.''"

section \<open>The exceptions\<close>

datatype exn_cause =
    Out_of_memory
  | Interrupted_call
  | Timed_out
  | Cannot_open string "int option" "string option"
  | Cannot_read string "int option" "string option"
  | Cannot_write string "int option" "string option"
  | Outside_bounds string
  | Outside_bounds_range string rat rat rat
  | Bad_config string
  | Bad_config_prefix string string
  | Missing_entry string
  | Wrong_type string string string

fun cause_text :: "(int \<Rightarrow> string) \<Rightarrow> exn_cause \<Rightarrow> string option" where
  "cause_text en Out_of_memory = Some OutOfMemory_text"
| "cause_text en Interrupted_call = Some Interrupted_text"
| "cause_text en Timed_out = Some Timeout_text"
| "cause_text en (Cannot_open f n m) =
     Some (case n of None \<Rightarrow> CouldNotOpenFile_text f m | Some n \<Rightarrow> CouldNotOpenFile_errno_text en f n m)"
| "cause_text en (Cannot_read f n m) =
     Some (case n of None \<Rightarrow> FileRead_text f m | Some n \<Rightarrow> FileRead_errno_text en f n m)"
| "cause_text en (Cannot_write f n m) =
     Some (case n of None \<Rightarrow> FileWrite_text f m | Some n \<Rightarrow> FileWrite_errno_text en f n m)"
| "cause_text en (Outside_bounds m) = Some (OutOfBounds_text m)"
| "cause_text en (Outside_bounds_range m v mn mx) = Some (OutOfBounds_range_text m v mn mx)"
| "cause_text en (Bad_config m) = Configuration_text m"
| "cause_text en (Bad_config_prefix p m) = Some (Configuration_prefix_text p m)"
| "cause_text en (Missing_entry p) = Some (ConfigEntryNotFound_text p)"
| "cause_text en (Wrong_type p a r) = Some (ConfigTypeMismatch_text p a r)"

fun cause_errno :: "exn_cause \<Rightarrow> int" where
  "cause_errno (Cannot_open f n m) = (case n of None \<Rightarrow> 0 | Some n \<Rightarrow> n)"
| "cause_errno (Cannot_read f n m) = (case n of None \<Rightarrow> 0 | Some n \<Rightarrow> n)"
| "cause_errno (Cannot_write f n m) = (case n of None \<Rightarrow> 0 | Some n \<Rightarrow> n)"
| "cause_errno _ = 0"

text \<open>What the caller puts into the text.\<close>

fun cause_words :: "(int \<Rightarrow> string) \<Rightarrow> exn_cause \<Rightarrow> string list" where
  "cause_words en (Cannot_open f n m) = f # (case n of None \<Rightarrow> [] | Some n \<Rightarrow> [en n]) @ (case m of None \<Rightarrow> [] | Some m \<Rightarrow> [m])"
| "cause_words en (Cannot_read f n m) = f # (case n of None \<Rightarrow> [] | Some n \<Rightarrow> [en n]) @ (case m of None \<Rightarrow> [] | Some m \<Rightarrow> [m])"
| "cause_words en (Cannot_write f n m) = f # (case n of None \<Rightarrow> [] | Some n \<Rightarrow> [en n]) @ (case m of None \<Rightarrow> [] | Some m \<Rightarrow> [m])"
| "cause_words en (Outside_bounds m) = [m]"
| "cause_words en (Outside_bounds_range m v mn mx) = [m]"
| "cause_words en (Bad_config_prefix p m) = [p, m]"
| "cause_words en (Missing_entry p) = [p]"
| "cause_words en (Wrong_type p a r) = [p, a, r]"
| "cause_words en (Bad_config m) = (case Configuration_text m of None \<Rightarrow> [] | Some t \<Rightarrow> [t])"
| "cause_words en _ = []"

text \<open>The constructor; an exception with an error number goes through \<open>Exception(errno, ...)\<close>.\<close>

definition throw_cause :: "(int \<Rightarrow> string) \<Rightarrow> exn_cause \<Rightarrow> node_heap \<Rightarrow> exn_error + exn \<times> node_heap" where
  "throw_cause en c h =
     (case cause_text en c of
        None \<Rightarrow> Inl Undefined_format
      | Some t \<Rightarrow> Inr (Exception_errno (cause_errno c) t h))"

section \<open>Which texts survive a copy\<close>

lemma format_plain_id: "CHR ''%'' \<notin> set m \<Longrightarrow> format_plain m = Some m"
  by (induction m) auto

lemma format_plain_shorter:
  "format_plain m = Some m' \<Longrightarrow> length m' \<le> length m \<and> (CHR ''%'' \<in> set m \<longrightarrow> length m' < length m)"
proof (induction m arbitrary: m' rule: format_plain.induct)
  case (2 c cs)
  show ?case
  proof (cases "c = CHR ''%''")
    case True
    then obtain ds k where "cs = CHR ''%'' # ds" "format_plain ds = Some k" "m' = CHR ''%'' # k"
      using "2.prems" by (auto split: list.splits if_splits)
    then show ?thesis using "2.IH"(1) [OF True, of "CHR ''%''" ds k] by simp
  next
    case False
    then obtain k where "format_plain cs = Some k" "m' = c # k" using "2.prems" by auto
    then show ?thesis using "2.IH"(2) [OF False, of k] False by auto
  qed
qed simp

lemma format_plain_same: "format_plain m = Some m \<longleftrightarrow> CHR ''%'' \<notin> set m"
  using format_plain_id format_plain_shorter [of m m] by blast

lemma digit_not_percent: "d < 10 \<Longrightarrow> CHR ''%'' \<noteq> (char_of (48 + d :: nat) :: char)"
proof
  assume "d < 10" and "CHR ''%'' = (char_of (48 + d) :: char)"
  then have "(of_char (CHR ''%'') :: nat) = of_char (char_of (48 + d) :: char)" by metis
  then show False using \<open>d < 10\<close> by simp
qed

lemma dec_str_percent [simp]: "CHR ''%'' \<notin> set (dec_str n)"
proof (induction n rule: dec_str.induct)
  case (1 n)
  then show ?case by (subst dec_str.simps) (auto simp: digit_not_percent)
qed

lemma number_texts_percent [simp]:
  "CHR ''%'' \<notin> set (int_str i)" "CHR ''%'' \<notin> set (fixed_text x)" "CHR ''%'' \<notin> set (whole_text x)"
  by (auto simp: int_str_def fixed_text_def whole_text_def pad_six_def Let_def)

lemma cause_text_percent:
  "cause_text en c = Some t \<Longrightarrow> CHR ''%'' \<in> set t \<longleftrightarrow> (\<exists>w \<in> set (cause_words en c). CHR ''%'' \<in> set w)"
  by (cases c) (auto simp: OutOfMemory_text_def Interrupted_text_def Timeout_text_def CouldNotOpenFile_text_def
      CouldNotOpenFile_errno_text_def FileRead_text_def FileRead_errno_text_def FileWrite_text_def
      FileWrite_errno_text_def file_text_def errno_text_def in_quotes_def OutOfBounds_text_def OutOfBounds_range_text_def
      Configuration_prefix_text_def ConfigEntryNotFound_text_def ConfigTypeMismatch_text_def Let_def
      split: option.splits if_splits)

text \<open>
  Each of these exceptions says what was asked for and has the error number, and it can be copied with its text
  exactly when none of the words the caller gave, such as the name of a file, puts a percent sign into it.
\<close>

theorem texts_survive_copy:
  assumes "throw_cause en c h = Inr (e, h1)"
  shows "Exception_what e h1 = cause_text en c \<and> ex_errno e = cause_errno c
    \<and> ((\<exists>e2 h2. Exception_copy e h1 = Some (Inr (e2, h2)) \<and> Exception_what e2 h2 = Exception_what e h1)
        \<longleftrightarrow> (\<forall>w \<in> set (cause_words en c). CHR ''%'' \<notin> set w))"
proof -
  obtain t where t: "cause_text en c = Some t" "append_message t (Exception_empty\<lparr>ex_errno := cause_errno c\<rparr>) h = (e, h1)"
    using assms by (auto simp: throw_cause_def Exception_errno_def split: option.splits)
  note a = append_message_holds [OF holds_empty(2) t(2)]
  have h: "holds h1 e [nh_next h] [t]" using a by simp
  have w: "Exception_what e h1 = Some t" using what_is_first [OF h] by simp
  have spec: "case format_all [t] of
       Inl er \<Rightarrow> Exception_copy e h1 = Some (Inl er)
     | Inr fs \<Rightarrow> \<exists>e' h' as'. Exception_copy e h1 = Some (Inr (e', h')) \<and> holds h' e' as' fs \<and> extends_nodes h1 [] h' as'"
    using copy_extends [OF h holds_empty(1) [of h1 "ex_type_id e" "ex_errno e"]]
    unfolding Exception_copy_def append_Nil by simp
  have "(\<exists>e2 h2. Exception_copy e h1 = Some (Inr (e2, h2)) \<and> Exception_what e2 h2 = Some t) \<longleftrightarrow> format_plain t = Some t"
  proof (cases "format_plain t")
    case None
    then show ?thesis using spec by (simp add: format_all_def)
  next
    case (Some m)
    then obtain e' h' as' where c: "Exception_copy e h1 = Some (Inr (e', h'))" "holds h' e' as' [m]"
      using spec by (auto simp: format_all_def)
    then show ?thesis using what_is_first [OF c(2)] Some by auto
  qed
  then show ?thesis
    using w t(1) a cause_text_percent [OF t(1)] format_plain_same [of t] by auto
qed

section \<open>Examples\<close>

definition no_nodes :: node_heap where
  "no_nodes = \<lparr>nh_nodes = (\<lambda>_. None), nh_next = 0\<rparr>"

text \<open>A file without a percent sign in its name, and one with.\<close>

definition demo_open :: "string \<Rightarrow> exn_error + exn \<times> node_heap" where
  "demo_open name = throw_cause (\<lambda>_. ''No such file'') (Cannot_open name (Some 2) None) no_nodes"

theorem texts_survive_copy_witness:
  "(\<exists>e h. demo_open ''a.yaml'' = Inr (e, h) \<and> ex_errno e = 2
      \<and> Exception_what e h = Some (''Could not open file '' @ in_quotes ''a.yaml'' @ ''  (errno: 2, No such file)'')
      \<and> (\<exists>e2 h2. Exception_copy e h = Some (Inr (e2, h2)) \<and> Exception_what e2 h2 = Exception_what e h))
   \<and> (\<exists>e h. demo_open ''50%.yaml'' = Inr (e, h)
      \<and> \<not> (\<exists>e2 h2. Exception_copy e h = Some (Inr (e2, h2)) \<and> Exception_what e2 h2 = Exception_what e h))"
proof
  obtain e h where t: "demo_open ''a.yaml'' = Inr (e, h)"
    by (cases "demo_open ''a.yaml''") (auto simp: demo_open_def throw_cause_def)
  show "\<exists>e h. demo_open ''a.yaml'' = Inr (e, h) \<and> ex_errno e = 2
      \<and> Exception_what e h = Some (''Could not open file '' @ in_quotes ''a.yaml'' @ ''  (errno: 2, No such file)'')
      \<and> (\<exists>e2 h2. Exception_copy e h = Some (Inr (e2, h2)) \<and> Exception_what e2 h2 = Exception_what e h)"
  proof -
    let ?c = "Cannot_open ''a.yaml'' (Some 2) None"
    have "cause_text (\<lambda>_. ''No such file'') ?c = Some (''Could not open file '' @ in_quotes ''a.yaml'' @ ''  (errno: 2, No such file)'')"
      by (simp add: CouldNotOpenFile_errno_text_def file_text_def errno_text_def int_str_def dec_str.simps char_of_def bit_0)
    moreover have "\<forall>w \<in> set (cause_words (\<lambda>_. ''No such file'') ?c). CHR ''%'' \<notin> set w" "cause_errno ?c = 2" by simp_all
    moreover note texts_survive_copy [OF t [unfolded demo_open_def]]
    ultimately show ?thesis using t by metis
  qed
next
  obtain e h where t: "demo_open ''50%.yaml'' = Inr (e, h)"
    by (cases "demo_open ''50%.yaml''") (auto simp: demo_open_def throw_cause_def)
  show "\<exists>e h. demo_open ''50%.yaml'' = Inr (e, h)
      \<and> \<not> (\<exists>e2 h2. Exception_copy e h = Some (Inr (e2, h2)) \<and> Exception_what e2 h2 = Exception_what e h)"
  proof -
    have "\<exists>w \<in> set (cause_words (\<lambda>_. ''No such file'') (Cannot_open ''50%.yaml'' (Some 2) None)). CHR ''%'' \<in> set w"
      by simp
    then show ?thesis using texts_survive_copy [OF t [unfolded demo_open_def]] t by metis
  qed
qed

end
