(* ===== verification/Conversions.thy ===== *)
theory Conversions
  imports ArgParser ExceptionTexts
begin

text \<open>
  \<open>libs/utils/misc/string_conversions.cpp\<close>: the case of letters and the conversions of numbers that the
  configuration does not use, over \<open>strtol\<close> and \<open>atoi\<close> of \<open>ArgParser\<close> and \<open>%f\<close> of \<open>ExceptionTexts\<close>. Letters
  are those of the locale C. The conversions of floating-point numbers from strings are not modelled.
\<close>

section \<open>Letters\<close>

definition toupper :: "char \<Rightarrow> char" where
  "toupper c = (if IsLower c then char_of (code_of c - 32) else c)"

definition tolower :: "char \<Rightarrow> char" where
  "tolower c = (if IsUpper c then char_of (code_of c + 32) else c)"

definition to_upper_string :: "string \<Rightarrow> string" where
  "to_upper_string s = map toupper s"

definition to_lower_string :: "string \<Rightarrow> string" where
  "to_lower_string s = map tolower s"

section \<open>Numbers\<close>

definition to_string_long :: "int \<Rightarrow> string" where
  "to_string_long i = int_str i"

definition to_string_float :: "rat \<Rightarrow> string" where
  "to_string_float x = fixed_text x"

definition to_string_double :: "rat \<Rightarrow> string" where
  "to_string_double x = fixed_text x"

text \<open>\<open>atoll\<close> gives 64 bits, of which the lower 32 are kept.\<close>

definition to_uint :: "string \<Rightarrow> 32 word" where
  "to_uint s = word_of_int (fst (strtol s))"

definition to_int :: "string \<Rightarrow> arg_error + int" where
  "to_int s = atoi (Some s)"

section \<open>What they give\<close>

lemma code_of_bounds: "code_of c < 256"
  by (simp add: code_of_def)

lemma code_of_char_of [simp]: "n < 256 \<Longrightarrow> code_of (char_of n) = n"
  by (simp add: code_of_def)

lemma toupper_code: "code_of (toupper c) = (if IsLower c then code_of c - 32 else code_of c)"
  using code_of_bounds [of c] by (simp add: toupper_def)

lemma tolower_code: "code_of (tolower c) = (if IsUpper c then code_of c + 32 else code_of c)"
  by (simp add: tolower_def IsUpper_def)

lemma code_of_inject: "code_of c = code_of d \<longleftrightarrow> c = d"
  by (simp add: code_of_def)

lemma cases_of_letters:
  "toupper (tolower c) = toupper c" "tolower (toupper c) = tolower c" "toupper (toupper c) = toupper c"
  "tolower (tolower c) = tolower c"
  by (auto simp: code_of_inject [symmetric] toupper_code tolower_code IsLower_def IsUpper_def)

text \<open>
  The case of the letters is all that is lost. Numbers are read back as they were written; a negative number is read by
  \<open>to_uint\<close> as its two's complement, and a number of more than 32 bits as its lower 32 bits.
\<close>

theorem conversions_read_back:
  "to_lower_string (to_upper_string s) = to_lower_string s \<and> to_upper_string (to_lower_string s) = to_upper_string s
    \<and> to_uint (dec_str (unat w)) = w
    \<and> (- (2 ^ 63) \<le> i \<and> i < 2 ^ 63 \<longrightarrow> to_uint (to_string_long i) = word_of_int i)
    \<and> to_int (to_string_long i) = (if - (2 ^ 31) \<le> i \<and> i < 2 ^ 31 then Inr i else Inl Undefined_number)"
proof (intro conjI impI)
  show "to_lower_string (to_upper_string s) = to_lower_string s" "to_upper_string (to_lower_string s) = to_upper_string s"
    by (simp_all add: to_lower_string_def to_upper_string_def cases_of_letters)
  have "uint w < 2 ^ 32" using unsigned_less [of w, where ?'a = int] by simp
  then have "min (2 ^ 63 - 1) (uint w) = uint w" by simp
  then show "to_uint (dec_str (unat w)) = w" by (simp add: to_uint_def strtol_dec)
  have s: "fst (strtol (int_str i)) = max (- (2 ^ 63)) (min (2 ^ 63 - 1) i)"
    by (auto simp: int_str_def strtol_dec strtol_neg)
  show "to_uint (to_string_long i) = word_of_int i" if "- (2 ^ 63) \<le> i \<and> i < 2 ^ 63"
    using that s by (simp add: to_uint_def to_string_long_def)
  show "to_int (to_string_long i) = (if - (2 ^ 31) \<le> i \<and> i < 2 ^ 31 then Inr i else Inl Undefined_number)"
    using s by (auto simp: to_int_def atoi_def to_string_long_def)
qed


end
