(* ===== verification/ConfigLists.thy ===== *)
theory ConfigLists
  imports YamlConfigProps Conversions
begin

text \<open>
  \<open>libs/config/yaml.cpp\<close>: the setters for floating-point values, which are written with six decimals, and for lists.
  A list of C strings is a list of pointers: \<open>set_list\<close> gives each to \<open>to_string\<close>, and of its
  versions only the one for truth values takes a pointer.
\<close>

definition cfg_set_float :: "yaml_env \<Rightarrow> string \<Rightarrow> rat \<Rightarrow> yaml_config \<Rightarrow> cfg_result" where
  "cfg_set_float env path f = set_both (set_value (convert_float env) path (to_string_float f))"

definition cfg_set_floats :: "string \<Rightarrow> rat list \<Rightarrow> yaml_config \<Rightarrow> cfg_result" where
  "cfg_set_floats path fs = set_both (set_list path (map to_string_float fs))"

definition cfg_set_c_strings :: "string \<Rightarrow> string option list \<Rightarrow> yaml_config \<Rightarrow> cfg_result" where
  "cfg_set_c_strings path ss = set_both (set_list path (map (\<lambda>s. bool_str (s \<noteq> None)) ss))"

section \<open>Lists written\<close>

definition list_setter :: "string \<Rightarrow> string list \<Rightarrow> cnode \<Rightarrow> cnode \<times> cfg_error option" where
  "list_setter path texts n = (if has_children n then (n, Some (Set_non_leaf path)) else (set_scalar_list texts n, None))"

lemma set_list_at:
  assumes "str_split (CHR ''/'') path = ps" and "ps \<noteq> []"
  shows "find_path path (fst (set_list path texts n)) = Inr (fst (list_setter path texts (node_at n ps)))
    \<and> snd (set_list path texts n) = snd (list_setter path texts (node_at n ps))"
  using find_or_insert_lookup [OF assms(2), of "list_setter path texts" n "[]"]
  by (simp add: find_path_eq assms(1) set_list_def list_setter_def [abs_def])

lemma set_scalar_list_sel:
  "node_type (set_scalar_list l n) = Type_SEQUENCE" "list_values (set_scalar_list l n) = l"
  "has_children (set_scalar_list l n) = has_children n"
  by (cases n; simp add: set_scalar_list_def has_children_def)+

lemma convert_all_map: "(\<And>x. x \<in> set xs \<Longrightarrow> conv (f x) = Some (g x)) \<Longrightarrow> convert_all conv (map f xs) = Some (map g xs)"
  by (induction xs) auto

text \<open>Neither tree has an inner node at the path.\<close>

definition list_place :: "string \<Rightarrow> yaml_config \<Rightarrow> bool" where
  "list_place path c \<longleftrightarrow> (let ps = str_split (CHR ''/'') path
     in ps \<noteq> [] \<and> \<not> has_children (node_at (cfg_root c) ps) \<and> \<not> has_children (node_at (cfg_host_root c) ps)
        \<and> cfg_host_file c \<noteq> [])"

text \<open>The list is in both trees, the host tree is written, and each conversion reads the texts.\<close>

definition list_stored :: "(string \<Rightarrow> 'v option) \<Rightarrow> string \<Rightarrow> 'v list \<Rightarrow> yaml_config \<Rightarrow> cfg_result \<Rightarrow> bool" where
  "list_stored conv path vs c res \<longleftrightarrow> (case res of (c', w, e) \<Rightarrow>
     e = None \<and> w = Some (cfg_host_file c, emit_node (cfg_host_root c'))
     \<and> get_list_as conv c' path = Inr vs \<and> and_then (find_path path (cfg_host_root c')) (get_list conv) = Inr vs)"

lemma set_list_stored:
  assumes "list_place path c" and "\<And>x. x \<in> set xs \<Longrightarrow> conv (f x) = Some (g x)"
  shows "list_stored conv path (map g xs) c (set_both (set_list path (map f xs)) c)"
proof -
  let ?ps = "str_split (CHR ''/'') path" and ?s = "set_list path (map f xs)"
  have ps: "?ps \<noteq> []" "cfg_host_file c \<noteq> []" using assms(1) by (simp_all add: list_place_def Let_def)
  have s: "find_path path (fst (?s t)) = Inr (set_scalar_list (map f xs) (node_at t ?ps)) \<and> snd (?s t) = None
      \<and> \<not> has_children (node_at t ?ps)"
    if "t \<in> {cfg_root c, cfg_host_root c}" for t
    using that assms(1) set_list_at [OF refl ps(1), of "map f xs" t] by (auto simp: list_setter_def list_place_def Let_def)
  obtain r h where r: "?s (cfg_root c) = (r, None)" "?s (cfg_host_root c) = (h, None)"
    using s by (metis insertCI prod.collapse)
  have g: "get_list conv (set_scalar_list (map f xs) n) = Inr (map g xs)" for n
    using convert_all_map [of xs conv f g] assms(2) by (simp add: get_list_def set_scalar_list_sel)
  have "find_path path r = Inr (set_scalar_list (map f xs) (node_at (cfg_root c) ?ps))" "\<not> has_children (node_at (cfg_root c) ?ps)"
    "find_path path h = Inr (set_scalar_list (map f xs) (node_at (cfg_host_root c) ?ps))"
    using s [of "cfg_root c"] s [of "cfg_host_root c"] r by simp_all
  then show ?thesis
    by (simp add: list_stored_def set_both_def r write_host_file_def ps(2) get_list_as_def leaf_node_def
        set_scalar_list_sel g)
qed

lemma get_list_text: "convert_string s = Some s"
  by (simp add: convert_string_def)

text \<open>
  C12 A list that is written where no inner node is, is read back, from the configuration and from the host tree that is
  written to the host file: strings, unsigned numbers, numbers and truth values. Of a list of C strings only
  remains which pointers were not null, and of a list of floating-point values six decimals of each.
\<close>

theorem lists_written_are_read:
  assumes "list_place path c"
  shows "list_stored convert_string path ss c (cfg_set_strings path ss c)
    \<and> list_stored convert_uint path us c (cfg_set_uints path us c)
    \<and> list_stored convert_bool path bs c (cfg_set_bools path bs c)
    \<and> (list_all (\<lambda>i. - (2 ^ 31) \<le> i \<and> i < 2 ^ 31) xs \<longrightarrow> list_stored convert_int path xs c (cfg_set_ints path xs c))
    \<and> list_stored convert_string path (map (\<lambda>p. if p = None then ''false'' else ''true'') ps) c (cfg_set_c_strings path ps c)
    \<and> list_stored convert_string path (map fixed_text fs) c (cfg_set_floats path fs c)"
proof (intro conjI impI)
  show "list_stored convert_string path ss c (cfg_set_strings path ss c)"
    using set_list_stored [OF assms, of ss convert_string id id] by (simp add: cfg_set_strings_def get_list_text)
  show "list_stored convert_uint path us c (cfg_set_uints path us c)"
    using set_list_stored [OF assms, of us convert_uint "\<lambda>u. dec_str (unat u)" id]
    by (simp add: cfg_set_uints_def integer_text_spec)
  show "list_stored convert_bool path bs c (cfg_set_bools path bs c)"
    using set_list_stored [OF assms, of bs convert_bool bool_str id] by (simp add: cfg_set_bools_def convert_bool_str)
  show "list_stored convert_int path xs c (cfg_set_ints path xs c)" if "list_all (\<lambda>i. - (2 ^ 31) \<le> i \<and> i < 2 ^ 31) xs"
    using set_list_stored [OF assms, of xs convert_int int_str id] that
    by (simp add: cfg_set_ints_def integer_text_spec list_all_iff)
  show "list_stored convert_string path (map (\<lambda>p. if p = None then ''false'' else ''true'') ps) c (cfg_set_c_strings path ps c)"
    using set_list_stored [OF assms, of ps convert_string "\<lambda>s. bool_str (s \<noteq> None)" "\<lambda>p. if p = None then ''false'' else ''true''"]
    by (simp add: cfg_set_c_strings_def get_list_text bool_str_def)
  show "list_stored convert_string path (map fixed_text fs) c (cfg_set_floats path fs c)"
    using set_list_stored [OF assms, of fs convert_string to_string_float fixed_text]
    by (simp add: cfg_set_floats_def get_list_text to_string_float_def)
qed

text \<open>What is written of a small number.\<close>

lemma small_number_lost:
  assumes "0 \<le> x" and "x < 1 / 2000000"
  shows "fixed_text x = ''0.000000''"
proof -
  have "0 \<le> x * 1000000" "x * 1000000 < 1 / 2" using assms by simp_all
  moreover from this have "\<lfloor>x * 1000000\<rfloor> = 0" by (simp add: floor_eq_iff)
  ultimately have "round_even (x * 1000000) = 0" by (simp add: round_even_def)
  moreover have "pad_six (dec_str 0) = ''000000''" by code_simp
  moreover have "dec_str 0 = ''0''" by code_simp
  ultimately show ?thesis using assms(1) by (simp add: fixed_text_def)
qed

theorem lists_written_are_read_witness:
  "list_stored convert_string ''mps/tags'' [''a'', ''b c''] demo_config (cfg_set_strings ''mps/tags'' [''a'', ''b c''] demo_config)
    \<and> list_stored convert_int ''mps/tags'' [-1, 7] demo_config (cfg_set_ints ''mps/tags'' [-1, 7] demo_config)
    \<and> list_stored convert_string ''mps/tags'' [''true'', ''false''] demo_config
         (cfg_set_c_strings ''mps/tags'' [Some ''a'', None] demo_config)"
proof -
  have p: "str_split (CHR ''/'') ''mps/tags'' = [''mps'', ''tags'']" by code_simp
  have "list_place ''mps/tags'' demo_config"
    by (simp add: list_place_def p node_at_def demo_config_def demo_tree_def root_node_def child_def has_children_def
        new_node_def)
  note t = lists_written_are_read [OF this, of "[''a'', ''b c'']" "[]" "[]" "[-1, 7]" "[Some ''a'', None]" "[]"]
  then show ?thesis by simp
qed

end
