(* ===== verification/Spec2Isabelle.thy ===== *)
theory Spec2Isabelle
  imports Prelude Gazebo OpcUaConfig Mps MpsAreas MpsWorker MpsStation BaseStation RingStation
    CapStation DeliveryStation StorageStation Puck Gripper MpsPlacement Machines LightControl
    LightSignalDetection KeyMap ConfigScalar ConfigTree ConfigTreeProps ConfigMerge YamlConfig
    YamlConfigProps ConfigRead ConfigIterator PbFrame PbStream PbClient PbClientProps PbServer
    PbServerProps PbCrypto PbPeer PbPeerProps RefboxComm RefPtr Barrier Threads ThreadLists Exceptions
    RobotSensors TagVision ConveyorVision ArgParser Locks LockContainers
    ThreadData ExceptionTexts Conversions ConfigLists
begin

text \<open>
  A development about the plugins that simulate the RoboCup Logistics League in the Gazebo
  simulator (\<open>src/plugins/src/plugins\<close>) and about the libraries they use.

  The program. Every machine of the field (a modular production system, MPS) is a Gazebo model
  with a plugin. A referee box commands it through OPC UA registers; the workpieces of the game
  are models with a plugin of their own. The plugins do not call each other: machines publish
  commands to workpieces (put a ring on, put a cap on, take the cap off, you are delivered),
  workpieces publish their new shape, the color of a removed cap and the finished product, and
  the gripper publishes which workpiece it holds. The root theory composes the two sides.

  What models what, in the order of the imports.

  \<open>Prelude\<close>: results with exceptions (\<open>'e + 'a\<close> and \<open>and_then\<close>), searches in lists and
  strings (\<open>ends_with\<close>, \<open>str_contains\<close>). \<open>Gazebo\<close>: poses, the world that a plugin can query
  (record \<open>gz\<close>: models, poses, links, time; its content is a parameter of every theorem) and
  the messages of \<open>libs/gazsim_msgs\<close>. Distances and angles are real numbers.

  \<open>OpcUaConfig\<close> (\<open>mps/opcua_server_config.h\<close>): the numbers of stations and operations and the
  addresses of the servers.

  \<open>Mps\<close> (\<open>mps/mps.cpp\<close>, \<open>mps/mps.h\<close>): the base class. Its members are the record \<open>mps\<close>, the OPC
  UA registers of one client are \<open>opc_side\<close> with 16-bit words, and the observable calls (registers
  written, messages published, poses set, sleeps) are the list \<open>trace\<close> in their order. The
  stations extend the record. \<open>MpsAreas\<close> holds its properties about areas, tags and the contract
  of a listener of joint messages (locale \<open>joint_listener\<close>). \<open>MpsWorker\<close> is the worker thread
  with its mutex and condition variable as step relations of worker, destructor and environment (a
  client that writes a register, the callback that comes later, spurious wake-ups), one step per
  atomic action of the code. \<open>MpsStation\<close> models \<open>spawn_puck\<close> and states the contract of
  a station's command handler (locale \<open>station_handler\<close>: a handler does nothing without a command
  and nothing for a command of another station); every station interprets it.

  \<open>BaseStation\<close>, \<open>RingStation\<close>, \<open>CapStation\<close>, \<open>DeliveryStation\<close>, \<open>StorageStation\<close>: the five
  subclasses, each with its constructor, command handler and message handlers. The array of the
  storage station is a list of 48 places, and every access with an index outside it is the error
  \<open>SS_index\<close>, as the behaviour of the code is undefined there.

  \<open>Puck\<close> (\<open>plugins/puck\<close>): the workpiece, and its specification as an abstract product (locale
  \<open>workpiece\<close>). \<open>Gripper\<close> (\<open>plugins/gripper\<close>). \<open>MpsPlacement\<close> (\<open>plugins/mps-placement\<close> and
  \<open>mps/mps_loader.cpp\<close>): placing the machines when the game starts and loading their plugins.
  \<open>Machines\<close> (\<open>libs/utils/llsf\<close>): names and numbers of machines. \<open>LightControl\<close> and
  \<open>LightSignalDetection\<close>: the signal lights of the machines and their detection by the robot.

  The configuration (\<open>libs/config\<close>), which the plugins ask for every number: \<open>KeyMap\<close> is
  \<open>std::map\<close> as a sorted association list, with its laws as the locale \<open>std_map\<close>.
  \<open>ConfigScalar\<close> holds the conversions between texts and values and the splitting of paths
  (\<open>yaml_node.h\<close>, \<open>libs/utils/misc\<close>). \<open>ConfigTree\<close> is the class \<open>YamlConfigurationNode\<close>; a node owns
  its children, so a tree is a value, and an operation on a node behind a pointer rebuilds the path
  to it. \<open>ConfigTreeProps\<close> and \<open>ConfigMerge\<close> hold its properties: well-formed trees (\<open>tree_ok\<close>), lookup
  by path, leaves, differences and the overlay of files. \<open>YamlConfig\<close> is the class
  \<open>YamlConfiguration\<close>: reading documents and files, reading and writing values, reloading.
  \<open>ConfigLists\<close> has its setters for lists and floating-point values,
  \<open>YamlConfigProps\<close> and \<open>ConfigRead\<close> hold what is proved of it, \<open>ConfigIterator\<close> the value
  iterators. Parameters are the file system, regular expressions, the conversion of a YAML node to
  a string and of a text to \<open>float\<close> (record \<open>yaml_env\<close>).

  The protobuf communication (\<open>libs/protobuf_comm\<close>), over which the referee box is reached:
  \<open>PbFrame\<close> holds the headers byte for byte and the register of message types, with Google's library
  as a parameter (record \<open>protobuf\<close>). \<open>PbStream\<close> states two contracts: \<open>stream_receiver\<close> (what a
  sequence of frames does, however it is cut into pieces) and \<open>ordered_writer\<close> (a queue with one
  write in flight). \<open>PbClient\<close> and \<open>PbServer\<close> are the classes \<open>ProtobufStreamClient\<close> and
  \<open>ProtobufStreamServer\<close>: every handler of an asynchronous operation is a function, what the socket
  does is an event, signals and writes are a trace. \<open>PbClientProps\<close> and \<open>PbServerProps\<close> interpret the
  contracts and show that the messages of a client reach the signals of the server in order.
  \<open>PbCrypto\<close> (\<open>crypto.cpp\<close>) and \<open>PbPeer\<close> (\<open>peer.cpp\<close>) are the encryption and the broadcast peer,
  \<open>PbPeerProps\<close> what arrives of a datagram. OpenSSL is the record \<open>openssl\<close>; what is asked of it
  (\<open>evp_ok\<close>: decryption undoes encryption, lengths are padded) is a premise where it is used.
  Parameters are the content of uninitialised memory (\<open>junk\<close>) and whether an allocation succeeds.

  \<open>RefboxComm\<close> (\<open>plugins/llsf-refbox-comm\<close>) is the plugin that joins the two: it owns a client, or
  rather all the clients that it has made, publishes what the referee box sends and forwards what
  the simulation publishes for it.

  The core library (\<open>libs/core\<close>). \<open>RefPtr\<close> has the reference counting pointers \<open>refptr.h\<close> and
  \<open>lockptr.h\<close> on a heap of objects and counters, with their contract as the locale \<open>shared_pointer\<close>.
  \<open>Barrier\<close> has \<open>interruptible_barrier.cpp\<close>: the calls of \<open>wait\<close> of several threads as interleaved
  steps (\<open>ib_step\<close>), cut where the code gives up the mutex; who waits on the condition goes on when
  \<open>wake_all\<close> has woken it, at its time limit, or spuriously. \<open>Threads\<close> has \<open>thread.cpp\<close> in the same way:
  the loop of a thread (\<open>th_place\<close> says where it is) and the calls of others (\<open>th_step\<close>). \<open>ThreadLists\<close>
  has \<open>thread_list.cpp\<close> over a store of such threads; callbacks of the program are parameters.
  \<open>ThreadData\<close> has the other half of \<open>thread.cpp\<close>: the thread-specific data behind \<open>current_thread\<close>, the object of
  the main thread and the listeners, with the calls of all threads in the step relation \<open>tw_step\<close>; a
  thread may delete any object, also that of a running thread, and by \<open>set_delete_on_exit\<close> its own.
  \<open>Exceptions\<close> has the linked list of messages of \<open>exception.cpp\<close> on a heap of nodes, \<open>ExceptionTexts\<close> what the
  classes of \<open>core/exceptions\<close> and \<open>config.cpp\<close> say in it.
  \<open>Locks\<close> has the wrappers of the POSIX locks and the objects that hold one for a scope, with their
  contract as the locale \<open>scope_lock\<close>. \<open>LockContainers\<close> has the containers with a lock of their own: an
  operation is a list of instructions, a program of a thread is a list of calls of operations
  (\<open>lc_call\<close>, with \<open>call_code\<close> the instructions and \<open>spec_of\<close> what the call means), and the schedule of
  \<open>lc_run\<close> interleaves the threads.

  The robot. \<open>RobotSensors\<close> has the plugins that forward values (\<open>motor\<close>, \<open>odometry\<close>, \<open>gyro\<close>,
  \<open>localization\<close>, the handler of \<open>depthcam\<close>) and \<open>time-sync\<close>; that each sends when an interval has
  passed, no sooner and not later than the next update, is the locale \<open>rate_limited\<close>. \<open>TagVision\<close> has the markers (\<open>tag\<close>) and their recognition
  (\<open>tag-vision\<close>), \<open>ConveyorVision\<close> the recognition of the conveyor. What they read beyond the record
  \<open>gz\<close> is in records that extend it. \<open>ArgParser\<close> is \<open>libs/utils/system/argparser.cpp\<close>,
  \<open>Conversions\<close> the part of \<open>string_conversions.cpp\<close> that \<open>ConfigScalar\<close> does not need.

  What the lemmas show. For each operation there is an equation or a frame lemma that gives its
  effect on every branch; the collections of the stations (\<open>station_defs\<close>) and the \<open>[simp]\<close>
  equations of the registers carry the proofs above them. Invariants: no workpiece is lost or
  doubled on the conveyor, the rack keeps every place at the index of its coordinates, the slide
  counter is the size of the set of workpieces seen, each machine is placed at most once, a
  machine knows what the gripper holds, a thread is lost to \<open>current_thread\<close> only by a deletion of its
  object while it runs. Progress: the worker thread ends once the destructor has set its flag, unless
  the notification came while it was about to wait, and the threads of a barrier all leave it within a
  bound on the number of their steps. Interleaved calls of the containers with a lock have the result
  of some order of the calls one after the other.
  Refinement: the workpiece implements the abstract product. Round trips: machine names and
  numbers, rack coordinates and indices. The properties of this theory follow a command from a
  machine to the workpiece and back. Some theorems state what the code does where this is hardly
  what is meant: notifications that get lost, lamps that do not blink, machines that are never
  placed again after a reset, a grip that holds nothing.

  The configuration: an abstract overlay of trees that merging implements, what reading a document
  yields at every path, leaves after writing and erasing, and round trips of numbers and host files.

  Termination. Recursions that are not structural go down the size of a tree. Two loops may run for
  ever and are \<open>partial_function (option)\<close>: \<open>recolor\<close> in \<open>spawn_puck\<close>, which redraws a color until it
  differs from the excluded ones over an endless supply of random numbers and is proved to return,
  and \<open>load_loop\<close>, which reads files until the queue of includes is empty; it is proved to end when
  the includes can be given weights that descend, and not to end when a file includes itself. The
  loop over an iterator, \<open>visit\<close>, has fuel for one round more than there are values, which is what
  it needs to see the end.

  What is not modelled: the physics and the message transport of Gazebo (messages are values, and
  their order of arrival is the order of the calls), the OPC UA stack (a register is a variable
  that a client can write at any time), the encoding of protobuf messages, logging, rounding of
  floating-point numbers, and the set-up of the depth camera. The plugins \<open>llsf\<close> and
  \<open>carologistics-robotino\<close> are not built any more, and need a message that is gone. Of the
  configuration, the permissions of the host file, its mutex and the operations that only throw are
  left out, of the core library the emulations for systems without POSIX barriers, and what does
  not compile. Of the protobuf communication the mutexes are left out, as every handler is one step.
\<close>

section \<open>From the machines to the workpieces\<close>

text \<open>The commands to workpieces among the effects of a station, and what a handler added.\<close>

definition puck_commands :: "effect list \<Rightarrow> workpiece_command list" where
  "puck_commands es = List.map_filter (\<lambda>e. case e of PubPuckCommand c \<Rightarrow> Some c | _ \<Rightarrow> None) es"

definition sent :: "'a mps_scheme \<Rightarrow> 'b mps_scheme \<Rightarrow> workpiece_command list" where
  "sent s s' = puck_commands (drop (length (trace s)) (trace s'))"

lemma puck_commands_simps [simp]:
  "puck_commands [] = []"
  "puck_commands (PubPuckCommand c # es) = c # puck_commands es"
  "puck_commands (OpcBusy b # es) = puck_commands es"
  "puck_commands (OpcActionId v # es) = puck_commands es"
  "puck_commands (OpcPayload1 v # es) = puck_commands es"
  "puck_commands (OpcPayload2 v # es) = puck_commands es"
  "puck_commands (Sleep k # es) = puck_commands es"
  "puck_commands (SetWorldPose n p # es) = puck_commands es"
  "puck_commands (PubVisual v' # es) = puck_commands es"
  by (simp_all add: puck_commands_def map_filter_simps)

text \<open>The results that a workpiece published.\<close>

definition results :: "puck_effect list \<Rightarrow> workpiece_result list" where
  "results es = List.map_filter (\<lambda>e. case e of PuckResult r \<Rightarrow> Some r | _ \<Rightarrow> None) es"

lemma sent_append: "trace s' = trace s @ es \<Longrightarrow> sent s s' = puck_commands es"
  by (simp add: sent_def)

lemma retrieve_sends:
  assumes "wp_in_middle s = Some n"
  shows "sent s (retrieve_cap s) = [\<lparr>cmd_command = REMOVE_CAP, cmd_color = [], cmd_puck_name = n,
           cmd_team_color = None\<rparr>]"
    and "wp_in_middle (retrieve_cap s) = Some n"
  using assms by (simp_all add: sent_def retrieve_cap_def station_defs Let_def)

lemma mount_sends:
  assumes "wp_in_middle s = Some n" and "puck_in_middle w s (gz_pose w n)" and "stored_cap_color s \<noteq> NONE"
  shows "sent s (mount_cap w s) = [\<lparr>cmd_command = ADD_CAP, cmd_color = [stored_cap_color s],
           cmd_puck_name = n, cmd_team_color = None\<rparr>]"
    and "stored_cap_color (mount_cap w s) = NONE"
  using assms by (simp_all add: sent_def mount_cap_def station_defs Let_def)

lemma remove_cap_result:
  "puck_ok p \<Longrightarrow> have_cap p \<Longrightarrow> cmd_command c = REMOVE_CAP \<Longrightarrow> cmd_puck_name c = pk_name p \<Longrightarrow>
   run_commands [c] p = Inr (remove_cap p)
   \<and> results (drop (length (pk_trace p)) (pk_trace (remove_cap p)))
       = [\<lparr>res_color = pk_cap_color p, res_puck_name = pk_name p\<rparr>]"
  by (simp add: on_command_msg_def remove_cap_def Let_def results_def map_filter_simps)

text \<open>
  C1 A cap changes hands as a whole: a retrieve command makes the station take the cap off the
  workpiece in its middle, the workpiece's answer makes the station store the cap's color, and
  a mount command then puts a cap of exactly that color on the workpiece that has taken the
  place, whose base and rings stay as they are; the station has no cap left. The workpiece that
  gave its cap has none any more.
\<close>

theorem cap_changes_hands:
  assumes "station s = STATION_CAP" and "unat (action_id_in s) = STATION_CAP + OPERATION_CAP_ACTION"
    and "unat (payload1_in s) = OPERATION_CAP_RETRIEVE" and "wp_in_middle s = Some (pk_name p)"
    and "puck_ok p" and "have_cap p" and "pk_cap_color p \<noteq> NONE"
  shows "\<exists>p' r. run_commands (sent s (Cap_process_command_in w s)) p = Inr p'
    \<and> results (drop (length (pk_trace p)) (pk_trace p')) = [r] \<and> \<not> have_cap p'
    \<and> (\<forall>t q. t = (on_puck_result r (Cap_process_command_in w s))
           \<lparr>wp_in_middle := Some (pk_name q),
            opc_in := (opc_in s)\<lparr>action_id := 301, payload1 := 2\<rparr>\<rparr>
         \<and> puck_ok q \<and> puck_in_middle w t (gz_pose w (pk_name q))
         \<longrightarrow> stored_cap_color (Cap_process_command_in w t) = NONE
           \<and> (\<exists>q'. run_commands (sent t (Cap_process_command_in w t)) q = Inr q'
                \<and> product_of q' = (product_of q)\<lparr>cap := Some (pk_cap_color p)\<rparr>))"
proof -
  let ?c = "\<lparr>cmd_command = REMOVE_CAP, cmd_color = [], cmd_puck_name = pk_name p, cmd_team_color = None\<rparr>"
  let ?r = "\<lparr>res_color = pk_cap_color p, res_puck_name = pk_name p\<rparr>"
  have s1: "Cap_process_command_in w s = retrieve_cap s" by (simp add: cap_command [OF assms(1,2)] assms(3))
  have run: "run_commands (sent s (Cap_process_command_in w s)) p = Inr (remove_cap p)"
    and res: "results (drop (length (pk_trace p)) (pk_trace (remove_cap p))) = [?r]"
    using remove_cap_result [OF assms(5,6), of ?c] by (simp_all add: s1 retrieve_sends(1) [OF assms(4)])
  have st: "stored_cap_color (on_puck_result ?r (retrieve_cap s)) = pk_cap_color p"
    using assms(7) by (simp add: on_puck_result_def retrieve_sends(2) [OF assms(4)] emit_def)
  have sta: "station (on_puck_result ?r (retrieve_cap s)) = STATION_CAP"
    using assms(1,4) by (simp add: on_puck_result_def retrieve_cap_def station_defs Let_def)
  have mount: "stored_cap_color (Cap_process_command_in w t) = NONE
      \<and> (\<exists>q'. run_commands (sent t (Cap_process_command_in w t)) q = Inr q'
           \<and> product_of q' = (product_of q)\<lparr>cap := Some (pk_cap_color p)\<rparr>)"
    if t: "t = (on_puck_result ?r (Cap_process_command_in w s))
           \<lparr>wp_in_middle := Some (pk_name q), opc_in := (opc_in s)\<lparr>action_id := 301, payload1 := 2\<rparr>\<rparr>"
      and q: "puck_ok q" "puck_in_middle w t (gz_pose w (pk_name q))" for t q
  proof -
    have t1: "station t = STATION_CAP" "unat (action_id_in t) = STATION_CAP + OPERATION_CAP_ACTION"
        "unat (payload1_in t) = OPERATION_CAP_MOUNT" "wp_in_middle t = Some (pk_name q)"
        "stored_cap_color t = pk_cap_color p"
      using st sta by (simp_all add: t s1)
    have m: "Cap_process_command_in w t = mount_cap w t" by (simp add: cap_command [OF t1(1,2)] t1(3))
    have ne: "stored_cap_color t \<noteq> NONE" using t1(5) assms(7) by simp
    note ms = mount_sends [OF t1(4) q(2) ne]
    have "list_all cmd_ok (sent t (Cap_process_command_in w t))"
      by (simp add: m ms(1) cmd_ok_def)
    from run_commands_correct [OF q(1) this] obtain q' where
      "run_commands (sent t (Cap_process_command_in w t)) q = Inr q'"
      "product_of q' = fold (product_step (pk_name q)) (sent t (Cap_process_command_in w t)) (product_of q)"
      by auto
    then show ?thesis by (simp add: m ms product_step_def t1(5))
  qed
  from run res mount show ?thesis by (metis remove_cap_simps(3))
qed

text \<open>A cap station with a capped workpiece in its middle.\<close>

definition capped_puck :: puck where
  "capped_puck = add_cap GREY demo_puck"

lemma capped_puck_simps [simp]:
  "pk_name capped_puck = ''puck_1''" "puck_ok capped_puck" "have_cap capped_puck"
  "pk_cap_color capped_puck = GREY"
  by (simp_all add: capped_puck_def demo_puck_def Puck_Load_def puck_ok_def base_color_of_sdf_def)

theorem cap_changes_hands_witness:
  "\<exists>p'. run_commands (sent demo_cap (Cap_process_command_in cap_world demo_cap)) capped_puck = Inr p'
     \<and> \<not> have_cap p'"
  using cap_changes_hands [of demo_cap capped_puck cap_world] by auto

text \<open>
  A ring that a ring station mounts arrives on the workpiece in its middle, on top of the rings
  that are there, in the color of the command; any other workpiece, and a station that is given
  no valid feeder, is left as it is.
\<close>

theorem ring_arrives:
  assumes "station s = STATION_RING" and "unat (action_id_in s) = STATION_RING + OPERATION_MOUNT_RING"
    and "wp_in_middle s = Some n" and "puck_in_middle w s (gz_pose w n)"
    and "ring_color_of (unat (payload2_in s)) = Some c" and "puck_ok p"
  shows "\<exists>p'. run_commands (sent s (Ring_process_command_in (w, junk) s)) p = Inr p'
    \<and> product_of p' = (if pk_name p = n \<and> payload1_in s \<in> {1, 2}
                       then (product_of p)\<lparr>rings := ring_colors p @ [c]\<rparr> else product_of p)"
proof -
  let ?s1 = "set_payload2 0 (set_payload1 0 (set_action_id 0 s))"
  let ?c = "\<lparr>cmd_command = ADD_RING, cmd_color = [c], cmd_puck_name = n, cmd_team_color = None\<rparr>"
  have "trace (mount_ring w c ?s1) = trace s @ [OpcActionId 0, OpcPayload1 0, OpcPayload2 0,
      OpcBusy True, PubPuckCommand ?c, Sleep 3500, OpcBusy False]"
    using mount_ring_publishes [of ?s1 n w c] assms(3,4) by (simp add: registers_geometry)
  then have m: "sent s (mount_ring w c ?s1) = [?c]" by (simp add: sent_append)
  have "trace ?s1 = trace s @ [OpcActionId 0, OpcPayload1 0, OpcPayload2 0]"
    by (rule registers_geometry)
  then have z: "sent s ?s1 = []" by (simp add: sent_append)
  have sent: "sent s (Ring_process_command_in (w, junk) s) = (if payload1_in s \<in> {1, 2} then [?c] else [])"
    using m z by (auto simp: ring_mount_command [OF assms(1,2)] assms(5) Let_def)
  have "list_all cmd_ok (sent s (Ring_process_command_in (w, junk) s))"
    by (simp add: sent cmd_ok_def)
  from run_commands_correct [OF assms(6) this] obtain p' where
    "run_commands (sent s (Ring_process_command_in (w, junk) s)) p = Inr p'"
    "product_of p' = fold (product_step (pk_name p)) (sent s (Ring_process_command_in (w, junk) s)) (product_of p)"
    by auto
  moreover have "rings (product_of p) = ring_colors p" by (simp add: product_of_def)
  ultimately show ?thesis by (auto simp: sent product_step_def)
qed

theorem ring_arrives_witness:
  "\<exists>p'. run_commands (sent (demo_middle STATION_RING 203 1 2)
      (Ring_process_command_in (middle_world, NONE) (demo_middle STATION_RING 203 1 2))) demo_puck = Inr p'
     \<and> length (rings (product_of p')) = 1"
proof -
  obtain c where c: "ring_color_of 2 = Some c" by (simp add: ring_color_of_def)
  have ok: "puck_ok demo_puck" and n: "pk_name demo_puck = ''puck_1''" and r: "ring_colors demo_puck = []"
    by (simp_all add: demo_puck_def Puck_Load_def puck_ok_def base_color_of_sdf_def)
  from ring_arrives [of "demo_middle STATION_RING 203 1 2" "''puck_1''" middle_world c demo_puck NONE]
  show ?thesis using demo_puck_in_middle c ok by (auto simp: n r)
qed

text \<open>
  C2 What a delivery station delivers is what the workpiece at its input is made of: its command
  makes exactly that workpiece report its base, its rings in order and its cap, once, for the
  team that the machine's name begins with (and for cyan if it begins with neither letter), and
  no other workpiece reports anything.
\<close>

theorem delivery_order:
  assumes "station s = STATION_DELIVERY" and "unat (action_id_in s) = STATION_DELIVERY + OPERATION_DELIVER"
    and "payload1_in s \<in> {1, 2, 3}" and "wp_in_input s = Some n" and "puck_ok p"
  shows "\<exists>p'. run_commands (sent s (Delivery_process_command_in w s)) p = Inr p'
    \<and> pk_trace p' = pk_trace p @ (if pk_name p = n
        then [PuckDelivery
          \<lparr>dlv_team = Some (case team_of_name (mps_name s) of None \<Rightarrow> CYAN | Some t \<Rightarrow> t),
           dlv_base = delivered_base (pk_base_color p),
           dlv_rings = List.map_filter delivered_ring (ring_colors p),
           dlv_cap = (if have_cap p then delivered_cap (pk_cap_color p) else None)\<rparr>]
        else [])"
proof -
  let ?c = "\<lparr>cmd_command = DELIVER, cmd_color = [], cmd_puck_name = n,
             cmd_team_color = team_of_name (mps_name s)\<rparr>"
  have "sent s (deliver_product w s) = [?c]"
    using assms(3,4) by (auto simp: sent_def deliver_product_def station_defs Let_def)
  then have sent: "sent s (Delivery_process_command_in w s) = [?c]"
    by (simp add: delivery_command [OF assms(1,2)])
  show ?thesis
    by (simp add: sent on_command_msg_def deliver_ok [OF assms(5)] cmd_team_def)
qed

theorem delivery_order_witness:
  "\<exists>p'. run_commands (sent demo_delivery (Delivery_process_command_in demo_world demo_delivery)) demo_puck = Inr p'
     \<and> length (pk_trace p') = length (pk_trace demo_puck) + 1"
proof -
  have "puck_ok demo_puck" and n: "pk_name demo_puck = ''puck_1''"
    by (simp_all add: demo_puck_def Puck_Load_def puck_ok_def base_color_of_sdf_def)
  moreover have "station demo_delivery = STATION_DELIVERY" "wp_in_input demo_delivery = Some ''puck_1''"
    "unat (action_id_in demo_delivery) = STATION_DELIVERY + OPERATION_DELIVER"
    "payload1_in demo_delivery \<in> {1, 2, 3}"
    by (simp_all add: demo_delivery_def)
  ultimately show ?thesis using delivery_order [of demo_delivery "''puck_1''" demo_puck demo_world]
    by (auto simp: n)
qed

end
